(* ===== verification/Norns_Prelude.thy ===== *)
theory Norns_Prelude
  imports Complex_Main "HOL-Library.AList"
begin

section \<open>Shared vocabulary of the development\<close>

text \<open>
  The prelude fixes how the JavaScript values and effects of the program are represented and
  collects the generic facts that every component uses.

  \<^item> identifiers are \<^typ>\<open>string\<close>, dollar amounts are exact rationals, times are integers
    (milliseconds since the epoch, as \<^verbatim>\<open>Date.parse\<close> and \<^verbatim>\<open>getTime\<close> give them);
  \<^item> a JavaScript \<^verbatim>\<open>Map\<close> is an association list in insertion order: \<^verbatim>\<open>get\<close> is
    \<^const>\<open>map_of\<close>, \<^verbatim>\<open>set\<close> is \<^const>\<open>AList.update\<close> (it overwrites in place or appends), \<^verbatim>\<open>delete\<close> is
    \<^const>\<open>AList.delete\<close>, and iteration follows the list;
  \<^item> a method of a class that may throw is a function from the state to an outcome and the
    state it leaves behind, so that what was written before a throw stays written.
\<close>

type_synonym ident = string
type_synonym usd = rat
type_synonym millis = int
type_synonym ('k, 'v) jmap = "('k \<times> 'v) list"

named_theorems norns_simps \<open>rewrite rules of the operations, used by the component proofs\<close>
named_theorems norns_inv \<open>invariant preservation rules\<close>

subsection \<open>Insertion-ordered maps\<close>

abbreviation jget :: "('k, 'v) jmap \<Rightarrow> 'k \<Rightarrow> 'v option" where
  "jget m k \<equiv> map_of m k"

abbreviation jset :: "'k \<Rightarrow> 'v \<Rightarrow> ('k, 'v) jmap \<Rightarrow> ('k, 'v) jmap" where
  "jset \<equiv> AList.update"

abbreviation jdel :: "'k \<Rightarrow> ('k, 'v) jmap \<Rightarrow> ('k, 'v) jmap" where
  "jdel \<equiv> AList.delete"

abbreviation jkeys :: "('k, 'v) jmap \<Rightarrow> 'k list" where
  "jkeys m \<equiv> map fst m"

abbreviation jvalues :: "('k, 'v) jmap \<Rightarrow> 'v list" where
  "jvalues m \<equiv> map snd m"

abbreviation jwf :: "('k, 'v) jmap \<Rightarrow> bool" where
  "jwf m \<equiv> distinct (jkeys m)"

lemma jget_jset [simp]: "jget (jset k v m) k' = (if k' = k then Some v else jget m k')"
  by (simp add: update_conv')

lemma jget_jdel [simp]: "jget (jdel k m) k' = (if k' = k then None else jget m k')"
  by (simp add: delete_conv')

lemma jkeys_jset: "jkeys (jset k v m) = (if k \<in> set (jkeys m) then jkeys m else jkeys m @ [k])"
  by (induction m) auto

lemma jkeys_jset_existing: "jget m k = Some w \<Longrightarrow> jkeys (jset k v m) = jkeys m"
  by (metis jkeys_jset map_of_eq_None_iff list.set_map option.simps(3))

lemma jwf_jset [simp]: "jwf m \<Longrightarrow> jwf (jset k v m)"
  by (rule distinct_update)

lemma jwf_jdel [simp]: "jwf m \<Longrightarrow> jwf (jdel k m)"
  by (rule distinct_delete)

lemma jget_None_iff: "jget m k = None \<longleftrightarrow> k \<notin> set (jkeys m)"
  by (simp add: map_of_eq_None_iff)

lemma jget_mem: "jget m k = Some v \<Longrightarrow> (k, v) \<in> set m"
  by (rule map_of_SomeD)

lemma jget_key: "jget m k = Some v \<Longrightarrow> k \<in> set (jkeys m)"
  by (force dest: map_of_SomeD)

lemma jget_of_mem: "jwf m \<Longrightarrow> (k, v) \<in> set m \<Longrightarrow> jget m k = Some v"
  by (rule map_of_is_SomeI)

lemma jset_fresh: "k \<notin> set (jkeys m) \<Longrightarrow> jset k v m = m @ [(k, v)]"
  by (induction m) auto

subsection \<open>Sums over maps\<close>

definition jsum :: "('v \<Rightarrow> usd) \<Rightarrow> ('k, 'v) jmap \<Rightarrow> usd" where
  "jsum f m = sum_list (map (f \<circ> snd) m)"

lemma jsum_Nil [simp]: "jsum f [] = 0"
  by (simp add: jsum_def)

lemma jsum_Cons [simp]: "jsum f (p # m) = f (snd p) + jsum f m"
  by (simp add: jsum_def)

lemma jsum_jset:
  "jwf m \<Longrightarrow> jsum f (jset k v m) =
     jsum f m + f v - (case jget m k of None \<Rightarrow> 0 | Some w \<Rightarrow> f w)"
  by (induction m) auto

lemma jsum_jdel_absent: "k \<notin> set (jkeys m) \<Longrightarrow> jsum f (jdel k m) = jsum f m"
  by (induction m) auto

lemma jsum_jdel:
  "jwf m \<Longrightarrow> jsum f (jdel k m) = jsum f m - (case jget m k of None \<Rightarrow> 0 | Some w \<Rightarrow> f w)"
proof (induction m)
  case Nil
  then show ?case by simp
next
  case (Cons p m)
  obtain k' v where p: "p = (k', v)" by (cases p)
  show ?case
  proof (cases "k' = k")
    case True
    with Cons.prems p have "k \<notin> set (jkeys m)" by auto
    then have "jsum f (jdel k m) = jsum f m" by (rule jsum_jdel_absent)
    with True p show ?thesis by simp
  next
    case False
    with Cons p show ?thesis by simp
  qed
qed

lemma jsum_nonneg: "(\<And>k v. (k, v) \<in> set m \<Longrightarrow> 0 \<le> f v) \<Longrightarrow> 0 \<le> jsum f m"
  by (induction m) (fastforce intro: add_nonneg_nonneg)+

lemma jsum_mono:
  "(\<And>k v. (k, v) \<in> set m \<Longrightarrow> f v \<le> g v) \<Longrightarrow> jsum f m \<le> jsum g m"
  by (induction m) (fastforce intro: add_mono)+

lemma jsum_member_le:
  "(k, v) \<in> set m \<Longrightarrow> (\<And>k v. (k, v) \<in> set m \<Longrightarrow> 0 \<le> f v) \<Longrightarrow> f v \<le> jsum f m"
proof (induction m)
  case Nil
  then show ?case by simp
next
  case (Cons p m)
  have nn: "0 \<le> jsum f m" "0 \<le> f (snd p)"
    using Cons.prems(2) by (auto intro!: jsum_nonneg) (metis list.set_intros(1) prod.collapse)
  show ?case
  proof (cases "p = (k, v)")
    case True
    with nn show ?thesis by simp
  next
    case False
    with Cons have "f v \<le> jsum f m" by auto
    with nn show ?thesis by simp
  qed
qed

subsection \<open>Decimal numerals\<close>

text \<open>Template strings such as \<^verbatim>\<open>`evt_${n}`\<close> print a counter in decimal.\<close>

fun dec :: "nat \<Rightarrow> string" where
  "dec n = (if n < 10 then [char_of (48 + n)] else dec (n div 10) @ [char_of (48 + n mod 10)])"

declare dec.simps [simp del]

fun undec :: "string \<Rightarrow> nat \<Rightarrow> nat" where
  "undec [] acc = acc"
| "undec (c # cs) acc = undec cs (10 * acc + (of_char c - 48))"

lemma undec_append: "undec (xs @ ys) acc = undec ys (undec xs acc)"
  by (induction xs arbitrary: acc) auto

lemma of_char_digit: "d < 10 \<Longrightarrow> of_char (char_of (48 + d :: nat)) = (48 + d :: nat)"
  by simp

lemma undec_dec: "undec (dec n) 0 = n"
proof (induction n rule: dec.induct)
  case (1 n)
  show ?case
  proof (cases "n < 10")
    case True
    then show ?thesis by (simp add: dec.simps [of n] of_char_digit)
  next
    case False
    with "1.IH" have "undec (dec (n div 10)) 0 = n div 10" by simp
    with False show ?thesis
      by (simp add: dec.simps [of n] undec_append of_char_digit)
  qed
qed

lemma dec_inject [simp]: "dec m = dec n \<longleftrightarrow> m = n"
  by (metis undec_dec)

lemma dec_digits:
  "dec 0 = ''0''" "dec (Suc 0) = ''1''" "dec 2 = ''2''" "dec 3 = ''3''" "dec 4 = ''4''" "dec 5 = ''5''"
  by code_simp+

subsection \<open>Stateful methods that may throw\<close>

type_synonym ('s, 'e, 'a) action = "'s \<Rightarrow> ('e + 'a) \<times> 's"

definition returning :: "'a \<Rightarrow> ('s, 'e, 'a) action" where
  "returning a = (\<lambda>s. (Inr a, s))"

definition throwing :: "'e \<Rightarrow> ('s, 'e, 'a) action" where
  "throwing e = (\<lambda>s. (Inl e, s))"

definition and_then :: "('s, 'e, 'a) action \<Rightarrow> ('a \<Rightarrow> ('s, 'e, 'b) action) \<Rightarrow> ('s, 'e, 'b) action" where
  "and_then m f = (\<lambda>s. case m s of (Inl e, s') \<Rightarrow> (Inl e, s') | (Inr a, s') \<Rightarrow> f a s')"

definition modifying :: "('s \<Rightarrow> 's) \<Rightarrow> ('s, 'e, unit) action" where
  "modifying f = (\<lambda>s. (Inr (), f s))"

definition reading :: "('s \<Rightarrow> 'a) \<Rightarrow> ('s, 'e, 'a) action" where
  "reading f = (\<lambda>s. (Inr (f s), s))"

definition guarding :: "('s \<Rightarrow> bool) \<Rightarrow> ('s \<Rightarrow> 'e) \<Rightarrow> ('s, 'e, unit) action" where
  "guarding P e = (\<lambda>s. if P s then (Inr (), s) else (Inl (e s), s))"

fun for_each :: "'x list \<Rightarrow> ('x \<Rightarrow> ('s, 'e, unit) action) \<Rightarrow> ('s, 'e, unit) action" where
  "for_each [] f = returning ()"
| "for_each (x # xs) f = and_then (f x) (\<lambda>_. for_each xs f)"

lemma returning_apply [simp]: "returning a s = (Inr a, s)"
  by (simp add: returning_def)

lemma throwing_apply [simp]: "throwing e s = (Inl e, s)"
  by (simp add: throwing_def)

lemma modifying_apply [simp]: "modifying f s = (Inr (), f s)"
  by (simp add: modifying_def)

lemma reading_apply [simp]: "reading f s = (Inr (f s), s)"
  by (simp add: reading_def)

lemma guarding_apply: "guarding P e s = (if P s then (Inr (), s) else (Inl (e s), s))"
  by (simp add: guarding_def)

lemma and_then_Inr_iff:
  "and_then m f s = (Inr b, t) \<longleftrightarrow> (\<exists>a u. m s = (Inr a, u) \<and> f a u = (Inr b, t))"
  by (auto simp: and_then_def split: prod.splits sum.splits)

lemma and_then_Inl_iff:
  "and_then m f s = (Inl e, t) \<longleftrightarrow>
     m s = (Inl e, t) \<or> (\<exists>a u. m s = (Inr a, u) \<and> f a u = (Inl e, t))"
  by (auto simp: and_then_def split: prod.splits sum.splits)

lemma and_then_Inr [simp]: "m s = (Inr a, u) \<Longrightarrow> and_then m f s = f a u"
  by (simp add: and_then_def)

lemma and_then_Inl [simp]: "m s = (Inl e, u) \<Longrightarrow> and_then m f s = (Inl e, u)"
  by (simp add: and_then_def)

lemmas method_simps = and_then_def guarding_apply

text \<open>Evaluation unfolds a method only when it is given its state.\<close>

lemma method_code [code]:
  "returning a s = (Inr a, s)"
  "throwing e s = (Inl e, s)"
  "and_then m f s = (case m s of (Inl e, s') \<Rightarrow> (Inl e, s') | (Inr a, s') \<Rightarrow> f a s')"
  "modifying g s = (Inr (), g s)"
  "reading h s = (Inr (h s), s)"
  "guarding P x s = (if P s then (Inr (), s) else (Inl (x s), s))"
  by (simp_all add: and_then_def guarding_apply)

text \<open>
  An invariant that a method keeps whether it returns or throws. The rules compose along the
  method combinators, so that a component proves one fact per primitive write.
\<close>

definition keeps :: "('s \<Rightarrow> bool) \<Rightarrow> ('s, 'e, 'a) action \<Rightarrow> bool" where
  "keeps I m \<longleftrightarrow> (\<forall>s. I s \<longrightarrow> I (snd (m s)))"

lemma keepsI: "(\<And>s. I s \<Longrightarrow> I (snd (m s))) \<Longrightarrow> keeps I m"
  by (simp add: keeps_def)

lemma keepsD: "keeps I m \<Longrightarrow> I s \<Longrightarrow> m s = (r, t) \<Longrightarrow> I t"
  by (force simp: keeps_def)

lemma keeps_returning [norns_inv]: "keeps I (returning a)"
  by (simp add: keeps_def)

lemma keeps_throwing [norns_inv]: "keeps I (throwing e)"
  by (simp add: keeps_def)

lemma keeps_reading [norns_inv]: "keeps I (reading f)"
  by (simp add: keeps_def)

lemma keeps_guarding [norns_inv]: "keeps I (guarding P e)"
  by (simp add: keeps_def guarding_apply)

lemma keeps_modifying: "(\<And>s. I s \<Longrightarrow> I (f s)) \<Longrightarrow> keeps I (modifying f)"
  by (simp add: keeps_def)

lemma keeps_and_then [norns_inv]:
  "keeps I m \<Longrightarrow> (\<And>a. keeps I (f a)) \<Longrightarrow> keeps I (and_then m f)"
  by (fastforce simp: keeps_def and_then_def split: prod.splits sum.splits)

lemma keeps_for_each [norns_inv]:
  "(\<And>x. keeps I (f x)) \<Longrightarrow> keeps I (for_each xs f)"
  by (induction xs) (auto intro: norns_inv)

lemma keeps_for_each_mem:
  "(\<And>x. x \<in> set xs \<Longrightarrow> keeps I (f x)) \<Longrightarrow> keeps I (for_each xs f)"
  by (induction xs) (auto intro: norns_inv)

lemma keeps_if [norns_inv]: "keeps I m \<Longrightarrow> keeps I n \<Longrightarrow> keeps I (if b then m else n)"
  by simp

subsection \<open>Lists\<close>

definition find_first :: "('a \<Rightarrow> bool) \<Rightarrow> 'a list \<Rightarrow> 'a option" where
  "find_first P xs = List.find P xs"

lemma filter_all_true: "(\<And>x. x \<in> set xs \<Longrightarrow> P x) \<Longrightarrow> filter P xs = xs"
  by simp

definition nonempty_str :: "string \<Rightarrow> bool" where
  "nonempty_str s \<longleftrightarrow> s \<noteq> []"

fun join :: "string \<Rightarrow> string list \<Rightarrow> string" where
  "join sep [] = []"
| "join sep [x] = x"
| "join sep (x # y # xs) = x @ sep @ join sep (y # xs)"

end
