(* ===== verification/Replay.thy ===== *)
theory Replay
  imports Norns_Prelude
begin

section \<open>Interfaces of the event-sourced state machines\<close>

text \<open>
  Every lifecycle of the program is a transition table (a record from a state to the states it may
  go to, with a set of terminal states) driven by a log of identified events through a loop that
  skips an event whose identifier it has already seen. The two interfaces are stated here as
  locales with the facts that follow from them; the components interpret them on their own tables
  and reducers.
\<close>

subsection \<open>Transition tables\<close>

text \<open>The law a table promises: nothing leaves a terminal state.\<close>

locale transition_table =
  fixes can :: "'s \<Rightarrow> 's \<Rightarrow> bool"
    and terminal :: "'s \<Rightarrow> bool"
  assumes terminal_stuck: "terminal a \<Longrightarrow> \<not> can a b"
begin

lemma terminal_ends_path:
  "successively can (xs @ a # ys) \<Longrightarrow> terminal a \<Longrightarrow> ys = []"
  by (cases ys) (auto simp: successively_append_iff terminal_stuck)

lemma terminal_only_last:
  "successively can h \<Longrightarrow> a \<in> set (butlast h) \<Longrightarrow> \<not> terminal a"
proof
  assume path: "successively can h" and mem: "a \<in> set (butlast h)" and "terminal a"
  from mem obtain xs ys where "butlast h = xs @ a # ys" by (auto simp: in_set_conv_decomp)
  moreover from mem have "h = butlast h @ [last h]" by (cases h rule: rev_cases) auto
  ultimately have "h = xs @ a # (ys @ [last h])" by simp
  with path terminal_ends_path [of xs a "ys @ [last h]"] \<open>terminal a\<close> show False by simp
qed

lemma path_extend:
  "successively can h \<Longrightarrow> h \<noteq> [] \<Longrightarrow> can (last h) b \<Longrightarrow> successively can (h @ [b])"
  by (simp add: successively_append_iff)

lemma step_not_terminal: "can a b \<Longrightarrow> \<not> terminal a"
  using terminal_stuck by blast

end

subsection \<open>Reducers over an identified event log\<close>

text \<open>
  A reducer folds a partial step over a log and skips an event whose key is among those seen. The
  two laws are the two iterations of the source's \<^verbatim>\<open>for\<close> loop.
\<close>

locale event_reducer =
  fixes key :: "'e \<Rightarrow> ident"
    and step :: "'s \<Rightarrow> 'e \<Rightarrow> 'err + 's"
    and loop :: "ident list \<Rightarrow> 's \<Rightarrow> 'e list \<Rightarrow> 'err + 's"
  assumes loop_Nil: "loop seen s [] = Inr s"
    and loop_Cons: "loop seen s (e # es) =
      (if key e \<in> set seen then loop seen s es
       else case step s e of Inl x \<Rightarrow> Inl x | Inr s' \<Rightarrow> loop (key e # seen) s' es)"
begin

lemma loop_seen_cong: "set seen = set seen' \<Longrightarrow> loop seen s es = loop seen' s es"
proof (induction es arbitrary: seen seen' s)
  case Nil
  then show ?case by (simp add: loop_Nil)
next
  case (Cons e es)
  have "loop (key e # seen) t es = loop (key e # seen') t es" for t
    by (rule Cons.IH) (simp add: Cons.prems)
  moreover have "loop seen s es = loop seen' s es" by (rule Cons.IH [OF Cons.prems])
  ultimately show ?case by (simp add: loop_Cons Cons.prems split: sum.splits)
qed

lemma loop_append:
  "loop seen s (xs @ ys) =
     (case loop seen s xs of Inl x \<Rightarrow> Inl x | Inr s' \<Rightarrow> loop (map key xs @ seen) s' ys)"
proof (induction xs arbitrary: seen s)
  case Nil
  then show ?case by (simp add: loop_Nil)
next
  case (Cons e xs)
  have seen_eq: "loop (map key xs @ seen) t ys = loop (key e # map key xs @ seen) t ys"
    if "key e \<in> set seen" for t
    by (rule loop_seen_cong) (use that in auto)
  have perm: "loop (map key xs @ key e # seen) t ys = loop (key e # map key xs @ seen) t ys" for t
    by (rule loop_seen_cong) auto
  show ?case
    by (auto simp: loop_Cons Cons.IH seen_eq perm split: sum.splits)
qed

lemma loop_replay: "set (map key ys) \<subseteq> set seen \<Longrightarrow> loop seen s ys = Inr s"
  by (induction ys) (auto simp: loop_Nil loop_Cons)

text \<open>Replaying events already in the log changes nothing.\<close>

lemma loop_idempotent:
  "set (map key ys) \<subseteq> set (map key xs) \<union> set seen \<Longrightarrow> loop seen s (xs @ ys) = loop seen s xs"
  by (auto simp: loop_append loop_replay split: sum.splits)

text \<open>An invariant of the step is an invariant of the loop.\<close>

lemma loop_invariant:
  assumes step_inv: "\<And>s e s'. I s \<Longrightarrow> step s e = Inr s' \<Longrightarrow> I s'"
  shows "I s \<Longrightarrow> loop seen s es = Inr s' \<Longrightarrow> I s'"
proof (induction es arbitrary: seen s)
  case Nil
  then show ?case by (simp add: loop_Nil)
next
  case (Cons e es)
  then show ?case by (auto simp: loop_Cons split: if_splits sum.splits dest: step_inv)
qed

text \<open>The same, for invariants over the state and the set of keys seen so far.\<close>

lemma loop_invariant_seen:
  assumes step_inv: "\<And>s e s' K. I K s \<Longrightarrow> key e \<notin> K \<Longrightarrow> step s e = Inr s' \<Longrightarrow> I (insert (key e) K) s'"
  shows "I (set seen) s \<Longrightarrow> loop seen s es = Inr s' \<Longrightarrow> I (set seen \<union> set (map key es)) s'"
proof (induction es arbitrary: seen s)
  case Nil
  then show ?case by (simp add: loop_Nil)
next
  case (Cons e es)
  show ?case
  proof (cases "key e \<in> set seen")
    case True
    with Cons have "I (set seen \<union> set (map key es)) s'" by (simp add: loop_Cons)
    moreover from True have "set seen \<union> set (map key (e # es)) = set seen \<union> set (map key es)"
      by auto
    ultimately show ?thesis by simp
  next
    case False
    with Cons.prems obtain t where t: "step s e = Inr t" "loop (key e # seen) t es = Inr s'"
      by (auto simp: loop_Cons split: sum.splits)
    from step_inv [OF Cons.prems(1) False t(1)] have "I (set (key e # seen)) t" by simp
    from Cons.IH [OF this t(2)] show ?thesis by simp
  qed
qed

lemma loop_total:
  "(\<And>s e. e \<in> set es \<Longrightarrow> \<exists>s'. step s e = Inr s') \<Longrightarrow> \<exists>s'. loop seen s es = Inr s'"
proof (induction es arbitrary: seen s)
  case Nil
  then show ?case by (simp add: loop_Nil)
next
  case (Cons e es)
  obtain t where "step s e = Inr t" using Cons.prems [of e s] by auto
  moreover have "\<exists>s'. loop seen' u es = Inr s'" for seen' u
    by (rule Cons.IH) (simp add: Cons.prems)
  ultimately show ?case by (simp add: loop_Cons)
qed

end

subsection \<open>Objects driven by calls\<close>

text \<open>
  A component object is a state and the calls it offers; a call leaves a state behind whether it
  returns or throws. A client that respects the preconditions of the calls sees only states in the
  invariant.
\<close>

fun obeys :: "('c \<Rightarrow> 's \<Rightarrow> 's) \<Rightarrow> ('c \<Rightarrow> 's \<Rightarrow> bool) \<Rightarrow> 'c list \<Rightarrow> 's \<Rightarrow> bool" where
  "obeys call allowed [] s \<longleftrightarrow> True"
| "obeys call allowed (c # cs) s \<longleftrightarrow> allowed c s \<and> obeys call allowed cs (call c s)"

lemma obeys_stateless: "obeys call (\<lambda>c s. P c) cs s \<longleftrightarrow> list_all P cs"
  by (induction cs arbitrary: s) auto

lemma obeys_append:
  "obeys call allowed (cs @ ds) s \<longleftrightarrow>
     obeys call allowed cs s \<and> obeys call allowed ds (fold call cs s)"
  by (induction cs arbitrary: s) auto

locale object_invariant =
  fixes call :: "'c \<Rightarrow> 's \<Rightarrow> 's"
    and allowed :: "'c \<Rightarrow> 's \<Rightarrow> bool"
    and inv :: "'s \<Rightarrow> bool"
  assumes call_keeps: "allowed c s \<Longrightarrow> inv s \<Longrightarrow> inv (call c s)"
begin

lemma calls_keep: "obeys call allowed cs s \<Longrightarrow> inv s \<Longrightarrow> inv (fold call cs s)"
  by (induction cs arbitrary: s) (auto intro: call_keeps)

lemma calls_keep_prefix:
  "obeys call allowed (cs @ ds) s \<Longrightarrow> inv s \<Longrightarrow> inv (fold call cs s) \<and> inv (fold call (cs @ ds) s)"
  unfolding obeys_append using calls_keep by fastforce

end

end
