(* ===== verification/V2_Lifecycle.thy ===== *)
theory V2_Lifecycle
  imports Replay
begin

section \<open>Task and agent-run lifecycles of the second schema\<close>

text \<open>
  \<^verbatim>\<open>packages/contracts/src/v2/lifecycle.ts\<close>: two transition tables, one versioned reducer shared by
  both, and the projection of a designated agent run into the state of its task. A transition event
  carries the state and version it expects, so the reducer also rejects events that are out of
  order.
\<close>

subsection \<open>Task states\<close>

datatype v2_task_state =
    T_pending | T_ready | T_assigned | T_in_progress | T_verifying | T_in_review | T_completed
  | T_blocked | T_failed | T_cancelled

definition V2_TASK_STATES :: "v2_task_state list" where
  "V2_TASK_STATES = [T_pending, T_ready, T_assigned, T_in_progress, T_verifying, T_in_review,
     T_completed, T_blocked, T_failed, T_cancelled]"

fun V2_TASK_TRANSITIONS :: "v2_task_state \<Rightarrow> v2_task_state list" where
  "V2_TASK_TRANSITIONS T_pending = [T_ready, T_blocked, T_cancelled]"
| "V2_TASK_TRANSITIONS T_ready = [T_assigned, T_blocked, T_cancelled]"
| "V2_TASK_TRANSITIONS T_assigned = [T_in_progress, T_blocked, T_cancelled]"
| "V2_TASK_TRANSITIONS T_in_progress = [T_verifying, T_blocked, T_failed, T_cancelled]"
| "V2_TASK_TRANSITIONS T_verifying = [T_in_review, T_in_progress, T_blocked, T_failed, T_cancelled]"
| "V2_TASK_TRANSITIONS T_in_review = [T_completed, T_in_progress, T_blocked, T_failed, T_cancelled]"
| "V2_TASK_TRANSITIONS T_completed = [T_in_progress]"
| "V2_TASK_TRANSITIONS T_blocked =
     [T_ready, T_assigned, T_in_progress, T_verifying, T_in_review, T_failed, T_cancelled]"
| "V2_TASK_TRANSITIONS T_failed = [T_in_progress, T_cancelled]"
| "V2_TASK_TRANSITIONS T_cancelled = []"

definition V2_TERMINAL_TASK_STATES :: "v2_task_state list" where
  "V2_TERMINAL_TASK_STATES = [T_completed, T_cancelled]"

definition v2CanTaskTransition :: "v2_task_state \<Rightarrow> v2_task_state \<Rightarrow> bool" where
  "v2CanTaskTransition from dest \<longleftrightarrow> dest \<in> set (V2_TASK_TRANSITIONS from)"

subsection \<open>Agent-run states\<close>

datatype v2_run_state =
    R_created | R_dispatched | R_running | R_waiting_for_human | R_verifying | R_succeeded
  | R_failed | R_cancelled | R_expired

definition V2_AGENT_RUN_STATES :: "v2_run_state list" where
  "V2_AGENT_RUN_STATES = [R_created, R_dispatched, R_running, R_waiting_for_human, R_verifying,
     R_succeeded, R_failed, R_cancelled, R_expired]"

fun V2_AGENT_RUN_TRANSITIONS :: "v2_run_state \<Rightarrow> v2_run_state list" where
  "V2_AGENT_RUN_TRANSITIONS R_created = [R_dispatched, R_cancelled, R_expired]"
| "V2_AGENT_RUN_TRANSITIONS R_dispatched = [R_running, R_failed, R_cancelled, R_expired]"
| "V2_AGENT_RUN_TRANSITIONS R_running = [R_waiting_for_human, R_verifying, R_failed, R_cancelled]"
| "V2_AGENT_RUN_TRANSITIONS R_waiting_for_human = [R_dispatched, R_cancelled, R_expired]"
| "V2_AGENT_RUN_TRANSITIONS R_verifying = [R_waiting_for_human, R_succeeded, R_failed, R_cancelled]"
| "V2_AGENT_RUN_TRANSITIONS R_succeeded = []"
| "V2_AGENT_RUN_TRANSITIONS R_failed = []"
| "V2_AGENT_RUN_TRANSITIONS R_cancelled = []"
| "V2_AGENT_RUN_TRANSITIONS R_expired = []"

definition V2_TERMINAL_AGENT_RUN_STATES :: "v2_run_state list" where
  "V2_TERMINAL_AGENT_RUN_STATES = [R_succeeded, R_failed, R_cancelled, R_expired]"

definition v2CanAgentRunTransition :: "v2_run_state \<Rightarrow> v2_run_state \<Rightarrow> bool" where
  "v2CanAgentRunTransition from dest \<longleftrightarrow> dest \<in> set (V2_AGENT_RUN_TRANSITIONS from)"

text \<open>
  Of the two tables only the run table keeps the law that nothing leaves a terminal state. For
  tasks the states with no successor are the cancelled ones: a completed task, although listed as
  terminal, can be reopened.
\<close>

interpretation run_table: transition_table v2CanAgentRunTransition
    "\<lambda>s. s \<in> set V2_TERMINAL_AGENT_RUN_STATES"
  by unfold_locales (auto simp: V2_TERMINAL_AGENT_RUN_STATES_def v2CanAgentRunTransition_def)

interpretation task_table: transition_table v2CanTaskTransition "\<lambda>s. s = T_cancelled"
  by unfold_locales (simp add: v2CanTaskTransition_def)

subsection \<open>The versioned reducer\<close>

record 's transition_event =
  te_event_id :: ident
  te_lifecycle_version :: int
  te_from :: 's
  te_to :: 's

record 's lifecycle_reduction =
  lr_state :: 's
  lr_version :: int
  lr_applied :: "ident list"
  lr_rejected :: "ident list"

text \<open>The refinement of the two event schemas: an event states a legal transition.\<close>

definition V2TaskTransitionEvent_valid :: "v2_task_state transition_event \<Rightarrow> bool" where
  "V2TaskTransitionEvent_valid e \<longleftrightarrow> v2CanTaskTransition (te_from e) (te_to e)"

definition V2AgentRunTransitionEvent_valid :: "v2_run_state transition_event \<Rightarrow> bool" where
  "V2AgentRunTransitionEvent_valid e \<longleftrightarrow> v2CanAgentRunTransition (te_from e) (te_to e)"

definition v2_accepts :: "('s \<Rightarrow> 's \<Rightarrow> bool) \<Rightarrow> 's lifecycle_reduction \<Rightarrow> 's transition_event \<Rightarrow> bool" where
  "v2_accepts can r e \<longleftrightarrow> \<not> (te_from e \<noteq> lr_state r \<or> te_lifecycle_version e \<noteq> lr_version r + 1
     \<or> \<not> can (lr_state r) (te_to e))"

definition v2_reduce_event ::
  "('s \<Rightarrow> 's \<Rightarrow> bool) \<Rightarrow> 's lifecycle_reduction \<Rightarrow> 's transition_event \<Rightarrow> 's lifecycle_reduction" where
  "v2_reduce_event can r e =
     (if \<not> v2_accepts can r e then r\<lparr>lr_rejected := lr_rejected r @ [te_event_id e]\<rparr>
      else r\<lparr>lr_state := te_to e, lr_version := te_lifecycle_version e,
             lr_applied := lr_applied r @ [te_event_id e]\<rparr>)"

fun v2_reduce_loop ::
  "('s \<Rightarrow> 's \<Rightarrow> bool) \<Rightarrow> ident list \<Rightarrow> 's lifecycle_reduction \<Rightarrow> 's transition_event list
     \<Rightarrow> 's lifecycle_reduction" where
  "v2_reduce_loop can seen r [] = r"
| "v2_reduce_loop can seen r (e # es) =
     (if te_event_id e \<in> set seen then v2_reduce_loop can seen r es
      else v2_reduce_loop can (te_event_id e # seen) (v2_reduce_event can r e) es)"

definition reduceV2Lifecycle ::
  "'s \<Rightarrow> int \<Rightarrow> 's transition_event list \<Rightarrow> ('s \<Rightarrow> 's \<Rightarrow> bool) \<Rightarrow> 's lifecycle_reduction" where
  "reduceV2Lifecycle initialState initialVersion events can =
     v2_reduce_loop can [] \<lparr>lr_state = initialState, lr_version = initialVersion,
       lr_applied = [], lr_rejected = []\<rparr> events"

definition reduceV2TaskLifecycle ::
  "v2_task_state \<Rightarrow> int \<Rightarrow> v2_task_state transition_event list \<Rightarrow> v2_task_state lifecycle_reduction" where
  "reduceV2TaskLifecycle s v events = reduceV2Lifecycle s v events v2CanTaskTransition"

definition reduceV2AgentRunLifecycle ::
  "v2_run_state \<Rightarrow> int \<Rightarrow> v2_run_state transition_event list \<Rightarrow> v2_run_state lifecycle_reduction" where
  "reduceV2AgentRunLifecycle s v events = reduceV2Lifecycle s v events v2CanAgentRunTransition"

text \<open>The loop never fails: it is the reducer interface with a step that always returns.\<close>

interpretation v2_reducer: event_reducer te_event_id
    "\<lambda>r e. (Inr (v2_reduce_event can r e) :: unit + 's lifecycle_reduction)"
    "\<lambda>seen r es. Inr (v2_reduce_loop can seen r es)"
  for can :: "'s \<Rightarrow> 's \<Rightarrow> bool"
  by unfold_locales auto

subsection \<open>Projection of a run into its task\<close>

datatype verification_status = VS_pending | VS_passed | VS_failed
datatype run_failure_disposition = RFD_blocked | RFD_failed

record task_run_projection_input =
  pi_task_state :: v2_task_state
  pi_designated_run_id :: "ident option"
  pi_run_id :: ident
  pi_run_state :: v2_run_state
  pi_run_is_designated :: bool
  pi_run_superseded_at :: "string option"
  pi_verification_status :: verification_status
  pi_failure_disposition :: run_failure_disposition

datatype projection_reason =
    PR_projected | PR_task_terminal | PR_not_designated | PR_superseded
  | PR_awaiting_green_verification | PR_no_state_change | PR_invalid_task_transition

record task_run_projection_result =
  pr_state :: v2_task_state
  pr_applied :: bool
  pr_reason :: projection_reason

definition not_applied :: "v2_task_state \<Rightarrow> projection_reason \<Rightarrow> task_run_projection_result" where
  "not_applied s r = \<lparr>pr_state = s, pr_applied = False, pr_reason = r\<rparr>"

fun disposition_state :: "run_failure_disposition \<Rightarrow> v2_task_state" where
  "disposition_state RFD_blocked = T_blocked"
| "disposition_state RFD_failed = T_failed"

text \<open>The switch over the run state: the target and whether a green verification is awaited.\<close>

fun projection_target ::
  "v2_run_state \<Rightarrow> verification_status \<Rightarrow> run_failure_disposition
     \<Rightarrow> v2_task_state \<times> projection_reason" where
  "projection_target R_created v d = (T_in_progress, PR_projected)"
| "projection_target R_dispatched v d = (T_in_progress, PR_projected)"
| "projection_target R_running v d = (T_in_progress, PR_projected)"
| "projection_target R_waiting_for_human v d = (T_blocked, PR_projected)"
| "projection_target R_verifying v d = (T_verifying, PR_projected)"
| "projection_target R_succeeded v d =
     (if v \<noteq> VS_passed then (T_verifying, PR_awaiting_green_verification)
      else (T_in_review, PR_projected))"
| "projection_target R_failed v d = (disposition_state d, PR_projected)"
| "projection_target R_cancelled v d = (T_blocked, PR_projected)"
| "projection_target R_expired v d = (T_blocked, PR_projected)"

definition projectV2TaskStateFromRun :: "task_run_projection_input \<Rightarrow> task_run_projection_result" where
  "projectV2TaskStateFromRun i =
     (if pi_task_state i \<in> set V2_TERMINAL_TASK_STATES then not_applied (pi_task_state i) PR_task_terminal
      else if \<not> pi_run_is_designated i \<or> pi_designated_run_id i \<noteq> Some (pi_run_id i)
        then not_applied (pi_task_state i) PR_not_designated
      else if pi_run_superseded_at i \<noteq> None then not_applied (pi_task_state i) PR_superseded
      else case projection_target (pi_run_state i) (pi_verification_status i) (pi_failure_disposition i) of
             (target, reason) \<Rightarrow>
               if target = pi_task_state i then
                 not_applied (pi_task_state i)
                   (if reason = PR_awaiting_green_verification then PR_awaiting_green_verification
                    else PR_no_state_change)
               else if \<not> v2CanTaskTransition (pi_task_state i) target then
                 not_applied (pi_task_state i) PR_invalid_task_transition
               else \<lparr>pr_state = target, pr_applied = True, pr_reason = reason\<rparr>)"

subsection \<open>Correctness of the versioned reducer\<close>

text \<open>What the reducer has done after the keys \<open>K\<close>, starting from \<open>s0\<close> at version \<open>v0\<close>.\<close>

definition v2_progress ::
  "('s \<Rightarrow> 's \<Rightarrow> bool) \<Rightarrow> 's \<Rightarrow> int \<Rightarrow> ident set \<Rightarrow> 's lifecycle_reduction \<Rightarrow> bool" where
  "v2_progress can s0 v0 K r \<longleftrightarrow>
     distinct (lr_applied r @ lr_rejected r) \<and> set (lr_applied r @ lr_rejected r) = K
     \<and> lr_version r = v0 + int (length (lr_applied r))
     \<and> (\<exists>h. h \<noteq> [] \<and> hd h = s0 \<and> last h = lr_state r \<and> successively can h
            \<and> length h = Suc (length (lr_applied r)))"

lemma v2_progress_step:
  assumes "v2_progress can s0 v0 K r" and "te_event_id e \<notin> K"
  shows "v2_progress can s0 v0 (insert (te_event_id e) K) (v2_reduce_event can r e)"
proof (cases "v2_accepts can r e")
  case False
  with assms show ?thesis by (auto simp: v2_progress_def v2_reduce_event_def)
next
  case True
  from assms(1) obtain h where h: "h \<noteq> []" "hd h = s0" "last h = lr_state r" "successively can h"
    "length h = Suc (length (lr_applied r))" by (auto simp: v2_progress_def)
  with True have "h @ [te_to e] \<noteq> [] \<and> hd (h @ [te_to e]) = s0 \<and> last (h @ [te_to e]) = te_to e
      \<and> successively can (h @ [te_to e]) \<and> length (h @ [te_to e]) = Suc (Suc (length (lr_applied r)))"
    by (auto simp: successively_append_iff v2_accepts_def)
  with True assms show ?thesis
    by (auto simp: v2_progress_def v2_reduce_event_def v2_accepts_def
        simp del: last_snoc successively_append_iff)
qed

text \<open>
  The versioned reducer, on any table and any log: every event identifier is recorded exactly
  once, as applied or as rejected; the version counts the applied events from the initial version;
  and the final state is reached from the initial one by a path of the table with one step per
  applied event.
\<close>

theorem reduceV2Lifecycle_progress:
  "v2_progress can s0 v0 (set (map te_event_id events)) (reduceV2Lifecycle s0 v0 events can)"
proof -
  let ?r0 = "\<lparr>lr_state = s0, lr_version = v0, lr_applied = [], lr_rejected = []\<rparr>"
  have start: "v2_progress can s0 v0 (set []) ?r0"
    by (auto simp: v2_progress_def intro!: exI [of _ "[s0]"])
  have "v2_progress can s0 v0 (set [] \<union> set (map te_event_id events)) (v2_reduce_loop can [] ?r0 events)"
    by (rule v2_reducer.loop_invariant_seen [where I = "v2_progress can s0 v0" and seen = "[]"
          and s = ?r0 and can = can and es = events, OF _ start])
      (auto intro: v2_progress_step)
  then show ?thesis by (simp add: reduceV2Lifecycle_def)
qed

subsection \<open>Correctness of the projection\<close>

lemma projection_target_open:
  "fst (projection_target r v d) \<notin> set V2_TERMINAL_TASK_STATES"
  by (cases r; cases d) (auto simp: V2_TERMINAL_TASK_STATES_def)

lemma projection_target_in_review:
  "fst (projection_target r v d) = T_in_review \<longleftrightarrow> r = R_succeeded \<and> v = VS_passed"
  by (cases r; cases d) auto

lemmas projection_defs = projectV2TaskStateFromRun_def not_applied_def

text \<open>
  A run moves its task only when the task is open, the run is the designated one and has not
  been superseded, and only along a legal task transition; it never completes a task, and it moves
  the task to \<^verbatim>\<open>in_review\<close> only from a succeeded run whose verification passed. Projecting the
  same run again is a no-op on the projected state.
\<close>

theorem projectV2TaskStateFromRun_safe:
  assumes "r = projectV2TaskStateFromRun i"
  shows "(pr_applied r \<longrightarrow> pi_task_state i \<notin> set V2_TERMINAL_TASK_STATES
        \<and> pi_run_is_designated i \<and> pi_designated_run_id i = Some (pi_run_id i)
        \<and> pi_run_superseded_at i = None \<and> v2CanTaskTransition (pi_task_state i) (pr_state r)
        \<and> pr_state r \<notin> set V2_TERMINAL_TASK_STATES
        \<and> (pr_state r = T_in_review \<longrightarrow>
             pi_run_state i = R_succeeded \<and> pi_verification_status i = VS_passed))
     \<and> (\<not> pr_applied r \<longrightarrow> pr_state r = pi_task_state i)
     \<and> pr_state (projectV2TaskStateFromRun (i\<lparr>pi_task_state := pr_state r\<rparr>)) = pr_state r
     \<and> \<not> pr_applied (projectV2TaskStateFromRun (i\<lparr>pi_task_state := pr_state r\<rparr>))"
proof -
  let ?t = "projection_target (pi_run_state i) (pi_verification_status i) (pi_failure_disposition i)"
  obtain target reason where t: "?t = (target, reason)" by (cases ?t)
  have "target \<notin> set V2_TERMINAL_TASK_STATES"
    and "target = T_in_review \<longleftrightarrow> pi_run_state i = R_succeeded \<and> pi_verification_status i = VS_passed"
    using projection_target_open [of "pi_run_state i" "pi_verification_status i" "pi_failure_disposition i"]
      projection_target_in_review [of "pi_run_state i" "pi_verification_status i" "pi_failure_disposition i"] t
    by auto
  then show ?thesis unfolding assms by (simp add: projection_defs t)
qed

theorem projectV2TaskStateFromRun_safe_witness:
  "\<exists>i r. r = projectV2TaskStateFromRun i \<and> pr_applied r \<and> pr_state r = T_in_review
     \<and> \<not> pr_applied (projectV2TaskStateFromRun (i\<lparr>pi_task_state := pr_state r\<rparr>))"
proof -
  define i where "i = \<lparr>pi_task_state = T_verifying, pi_designated_run_id = Some ''r1'', pi_run_id = ''r1'',
     pi_run_state = R_succeeded, pi_run_is_designated = True, pi_run_superseded_at = None,
     pi_verification_status = VS_passed, pi_failure_disposition = RFD_failed\<rparr>"
  have "pr_applied (projectV2TaskStateFromRun i)" "pr_state (projectV2TaskStateFromRun i) = T_in_review"
    by (simp_all add: i_def projection_defs V2_TERMINAL_TASK_STATES_def v2CanTaskTransition_def)
  with projectV2TaskStateFromRun_safe [OF refl, of i] show ?thesis by blast
qed

text \<open>
  A completed task is listed as terminal, and a run never moves it, yet a transition event can:
  the reducer takes a completed task back to \<^verbatim>\<open>in_progress\<close> at the next version.
\<close>

lemma completed_task_reopens:
  "T_completed \<in> set V2_TERMINAL_TASK_STATES
   \<and> (pi_task_state i = T_completed \<longrightarrow> \<not> pr_applied (projectV2TaskStateFromRun i))
   \<and> lr_state (reduceV2TaskLifecycle T_completed v
        [\<lparr>te_event_id = x, te_lifecycle_version = v + 1, te_from = T_completed, te_to = T_in_progress\<rparr>])
      = T_in_progress"
  by (simp add: V2_TERMINAL_TASK_STATES_def projection_defs reduceV2TaskLifecycle_def
      reduceV2Lifecycle_def v2_reduce_event_def v2_accepts_def v2CanTaskTransition_def)

end
