(* ===== verification/V2_Budget.thy ===== *)
theory V2_Budget
  imports Norns_Prelude
begin

section \<open>Resolution of budget reservations\<close>

text \<open>
  \<^verbatim>\<open>packages/contracts/src/v2/budget.ts\<close>: the stored reservation with the refinement its schema
  checks, and \<^verbatim>\<open>resolveV2BudgetReservation\<close>, which splits a reserved amount into settled, released
  and retained parts at a terminal outcome. Amounts are exact rationals, so \<^verbatim>\<open>Number.isFinite\<close>
  always holds.
\<close>

datatype v2_reservation_status = RS_active | RS_retained_ambiguous | RS_settled | RS_released

fun reservation_status_str :: "v2_reservation_status \<Rightarrow> string" where
  "reservation_status_str RS_active = ''active''"
| "reservation_status_str RS_retained_ambiguous = ''retained_ambiguous''"
| "reservation_status_str RS_settled = ''settled''"
| "reservation_status_str RS_released = ''released''"

record v2_reservation =
  vr_id :: ident
  vr_project_id :: ident
  vr_phase_id :: ident
  vr_task_id :: ident
  vr_run_id :: ident
  vr_amount_usd :: usd
  vr_settled_usd :: usd
  vr_released_usd :: usd
  vr_retained_usd :: usd
  vr_status :: v2_reservation_status
  vr_version :: int
  vr_created_at :: string
  vr_updated_at :: string
  vr_expires_at :: string

definition V2BudgetReservation_issues :: "v2_reservation \<Rightarrow> (string \<times> string) list" where
  "V2BudgetReservation_issues r =
     (let accounted = vr_settled_usd r + vr_released_usd r + vr_retained_usd r in
      if vr_status r = RS_active then
        (if accounted \<noteq> 0 then
           [(''status'', ''an active reservation has not settled, released, or retained terminal funds'')]
         else [])
      else
        (if \<bar>accounted - vr_amount_usd r\<bar> > 1 / 10 ^ 9 then
           [(''amount_usd'', ''settled + released + retained must equal the reserved amount'')] else [])
        @ (if vr_status r = RS_retained_ambiguous \<and>
              (vr_settled_usd r \<noteq> 0 \<or> vr_released_usd r \<noteq> 0 \<or> vr_retained_usd r \<noteq> vr_amount_usd r) then
             [(''status'', reservation_status_str (vr_status r) @
                '' must retain the full unsettled reservation'')] else [])
        @ (if vr_status r = RS_settled \<and> vr_retained_usd r \<noteq> 0 then
             [(''retained_usd'', ''a settled reservation cannot retain funds'')] else [])
        @ (if vr_status r = RS_released \<and>
              (vr_settled_usd r \<noteq> 0 \<or> vr_retained_usd r \<noteq> 0 \<or> vr_released_usd r \<noteq> vr_amount_usd r) then
             [(''status'', ''a released reservation must release the full amount'')] else []))"

text \<open>The bounds of the object schema.\<close>

definition V2BudgetReservation_fields_ok :: "v2_reservation \<Rightarrow> bool" where
  "V2BudgetReservation_fields_ok r \<longleftrightarrow> 0 \<le> vr_amount_usd r \<and> 0 \<le> vr_settled_usd r
     \<and> 0 \<le> vr_released_usd r \<and> 0 \<le> vr_retained_usd r \<and> 1 \<le> vr_version r"

datatype v2_budget_outcome =
    BO_success | BO_partial_usage | BO_cancelled | BO_expired | BO_rejected | BO_dead_letter
  | BO_ambiguous_execution

record v2_resolution_input =
  ri_outcome :: v2_budget_outcome
  ri_attributable_usage_usd :: usd
  ri_reason :: string

record v2_resolution =
  vs_status :: v2_reservation_status
  vs_settled_usd :: usd
  vs_released_usd :: usd
  vs_retained_usd :: usd

datatype resolution_error =
    ReservedAmountInvalid | UsageExceedsReservation | SettledBeforeExecution v2_budget_outcome
  | AmbiguousExecutionRetains

definition resolveV2BudgetReservation ::
  "usd \<Rightarrow> v2_resolution_input \<Rightarrow> resolution_error + v2_resolution" where
  "resolveV2BudgetReservation reserved i =
     (if reserved < 0 then Inl ReservedAmountInvalid
      else if ri_attributable_usage_usd i > reserved then Inl UsageExceedsReservation
      else if ri_outcome i \<in> {BO_success, BO_partial_usage} then
        Inr \<lparr>vs_status = RS_settled, vs_settled_usd = ri_attributable_usage_usd i,
             vs_released_usd = reserved - ri_attributable_usage_usd i, vs_retained_usd = 0\<rparr>
      else if ri_outcome i \<in> {BO_cancelled, BO_expired, BO_rejected, BO_dead_letter} then
        (if ri_attributable_usage_usd i \<noteq> 0 then Inl (SettledBeforeExecution (ri_outcome i))
         else Inr \<lparr>vs_status = RS_released, vs_settled_usd = 0, vs_released_usd = reserved,
                   vs_retained_usd = 0\<rparr>)
      else
        (if ri_attributable_usage_usd i \<noteq> 0 then Inl AmbiguousExecutionRetains
         else Inr \<lparr>vs_status = RS_retained_ambiguous, vs_settled_usd = 0, vs_released_usd = 0,
                   vs_retained_usd = reserved\<rparr>))"

text \<open>Writing a resolution back into the stored reservation.\<close>

definition with_resolution :: "v2_reservation \<Rightarrow> v2_resolution \<Rightarrow> v2_reservation" where
  "with_resolution r s = r\<lparr>vr_status := vs_status s, vr_settled_usd := vs_settled_usd s,
     vr_released_usd := vs_released_usd s, vr_retained_usd := vs_retained_usd s\<rparr>"

lemmas resolution_defs = with_resolution_def V2BudgetReservation_fields_ok_def

lemma resolution_cases:
  assumes "resolveV2BudgetReservation x i = Inr s"
  obtains (settled) "0 \<le> x" "ri_attributable_usage_usd i \<le> x"
      "s = \<lparr>vs_status = RS_settled, vs_settled_usd = ri_attributable_usage_usd i,
           vs_released_usd = x - ri_attributable_usage_usd i, vs_retained_usd = 0\<rparr>"
  | (released) "0 \<le> x" "ri_attributable_usage_usd i = 0"
      "s = \<lparr>vs_status = RS_released, vs_settled_usd = 0, vs_released_usd = x, vs_retained_usd = 0\<rparr>"
  | (retained) "0 \<le> x" "ri_attributable_usage_usd i = 0"
      "s = \<lparr>vs_status = RS_retained_ambiguous, vs_settled_usd = 0, vs_released_usd = 0, vs_retained_usd = x\<rparr>"
  using assms by (auto simp: resolveV2BudgetReservation_def not_less split: if_splits)

text \<open>
  Resolving a reservation conserves money. With nonnegative usage a resolution has nonnegative
  parts that add up to exactly the reserved amount, it settles exactly the attributable usage, and
  the reservation it is written back into passes the stored schema, bounds and refinement alike.
\<close>

theorem resolveV2BudgetReservation_conserves:
  assumes "resolveV2BudgetReservation (vr_amount_usd r) i = Inr s"
    and "0 \<le> ri_attributable_usage_usd i" and "1 \<le> vr_version r"
  shows "vs_settled_usd s + vs_released_usd s + vs_retained_usd s = vr_amount_usd r
     \<and> vs_settled_usd s = ri_attributable_usage_usd i \<and> vs_status s \<noteq> RS_active
     \<and> V2BudgetReservation_fields_ok (with_resolution r s)
     \<and> V2BudgetReservation_issues (with_resolution r s) = []"
  using assms(1)
proof (cases rule: resolution_cases)
  case settled
  with assms(2,3) show ?thesis by (simp add: resolution_defs V2BudgetReservation_issues_def)
next
  case released
  with assms(2,3) show ?thesis by (simp add: resolution_defs V2BudgetReservation_issues_def)
next
  case retained
  with assms(2,3) show ?thesis by (simp add: resolution_defs V2BudgetReservation_issues_def)
qed

definition sample_reservation :: v2_reservation where
  "sample_reservation = \<lparr>vr_id = ''b1'', vr_project_id = ''p'', vr_phase_id = ''h'', vr_task_id = ''t'',
     vr_run_id = ''r'', vr_amount_usd = 5, vr_settled_usd = 0, vr_released_usd = 0, vr_retained_usd = 0,
     vr_status = RS_active, vr_version = 1, vr_created_at = ''c'', vr_updated_at = ''u'',
     vr_expires_at = ''e''\<rparr>"

theorem resolveV2BudgetReservation_conserves_witness:
  "\<exists>s. resolveV2BudgetReservation 5
          \<lparr>ri_outcome = BO_partial_usage, ri_attributable_usage_usd = 2, ri_reason = ''x''\<rparr> = Inr s
     \<and> vs_settled_usd s + vs_released_usd s + vs_retained_usd s = 5 \<and> vs_released_usd s = 3
     \<and> V2BudgetReservation_issues (with_resolution sample_reservation s) = []"
proof -
  let ?i = "\<lparr>ri_outcome = BO_partial_usage, ri_attributable_usage_usd = 2, ri_reason = ''x''\<rparr>"
  let ?s = "\<lparr>vs_status = RS_settled, vs_settled_usd = 2, vs_released_usd = 3, vs_retained_usd = 0\<rparr>"
  have 1: "resolveV2BudgetReservation (vr_amount_usd sample_reservation) ?i = Inr ?s"
    by (simp add: resolveV2BudgetReservation_def sample_reservation_def)
  have "vr_version sample_reservation = 1" "vr_amount_usd sample_reservation = 5"
    by (simp_all add: sample_reservation_def)
  with 1 resolveV2BudgetReservation_conserves [OF 1] show ?thesis by auto
qed

text \<open>
  When a reservation cannot be resolved: exactly for a negative amount, for usage above the
  reservation, and for usage reported with an outcome other than success or partial usage. In every
  other case there is a resolution.
\<close>

theorem resolveV2BudgetReservation_throws_iff:
  "(\<exists>e. resolveV2BudgetReservation reserved i = Inl e) \<longleftrightarrow>
     reserved < 0 \<or> reserved < ri_attributable_usage_usd i
     \<or> ri_outcome i \<notin> {BO_success, BO_partial_usage} \<and> ri_attributable_usage_usd i \<noteq> 0"
  by (cases "ri_outcome i") (auto simp: resolveV2BudgetReservation_def)

end
