(* ===== verification/Lifecycle.thy ===== *)
theory Lifecycle
  imports Replay
begin

section \<open>Node lifecycle and its reducer\<close>

text \<open>
  \<^verbatim>\<open>packages/contracts/src/lifecycle.ts\<close> and \<^verbatim>\<open>reducer.ts\<close>: the twelve states of a workflow node,
  the transition table, and the pure reducer that rebuilds every node's state from the append-only
  event log. The reducer keeps its nodes in a plain JavaScript object, so a node identifier that
  names a property of \<^verbatim>\<open>Object.prototype\<close> is found there although it was never stored: the lookup
  yields a function without a \<^verbatim>\<open>state\<close> and \<^verbatim>\<open>NODE_TRANSITIONS[undefined].includes\<close> throws. The model
  keeps that outcome.
\<close>

subsection \<open>States and transitions\<close>

datatype node_state =
    N_pending | N_ready | N_assigned | N_running | N_verifying | N_in_review | N_verified
  | N_integrated | N_blocked | N_failed | N_cancelled | N_superseded

definition NODE_STATES :: "node_state list" where
  "NODE_STATES = [N_pending, N_ready, N_assigned, N_running, N_verifying, N_in_review, N_verified,
     N_integrated, N_blocked, N_failed, N_cancelled, N_superseded]"

fun node_state_str :: "node_state \<Rightarrow> string" where
  "node_state_str N_pending = ''pending''"
| "node_state_str N_ready = ''ready''"
| "node_state_str N_assigned = ''assigned''"
| "node_state_str N_running = ''running''"
| "node_state_str N_verifying = ''verifying''"
| "node_state_str N_in_review = ''in_review''"
| "node_state_str N_verified = ''verified''"
| "node_state_str N_integrated = ''integrated''"
| "node_state_str N_blocked = ''blocked''"
| "node_state_str N_failed = ''failed''"
| "node_state_str N_cancelled = ''cancelled''"
| "node_state_str N_superseded = ''superseded''"

datatype blocked_reason = BR_dependency | BR_budget | BR_runner | BR_integration

definition TERMINAL_NODE_STATES :: "node_state list" where
  "TERMINAL_NODE_STATES = [N_integrated, N_cancelled, N_superseded]"

fun NODE_TRANSITIONS :: "node_state \<Rightarrow> node_state list" where
  "NODE_TRANSITIONS N_pending = [N_ready, N_cancelled]"
| "NODE_TRANSITIONS N_ready = [N_assigned, N_blocked, N_cancelled]"
| "NODE_TRANSITIONS N_assigned = [N_running, N_blocked, N_cancelled]"
| "NODE_TRANSITIONS N_running = [N_verifying, N_blocked, N_failed, N_cancelled]"
| "NODE_TRANSITIONS N_verifying = [N_in_review, N_failed, N_blocked, N_cancelled]"
| "NODE_TRANSITIONS N_in_review = [N_verified, N_assigned, N_failed, N_cancelled]"
| "NODE_TRANSITIONS N_verified = [N_integrated, N_blocked, N_superseded]"
| "NODE_TRANSITIONS N_blocked =
     [N_ready, N_assigned, N_running, N_verifying, N_in_review, N_verified, N_cancelled,
      N_superseded]"
| "NODE_TRANSITIONS N_failed = [N_assigned, N_cancelled, N_superseded]"
| "NODE_TRANSITIONS N_integrated = []"
| "NODE_TRANSITIONS N_cancelled = []"
| "NODE_TRANSITIONS N_superseded = []"

definition isNodeState :: "string \<Rightarrow> bool" where
  "isNodeState v \<longleftrightarrow> v \<in> set (map node_state_str NODE_STATES)"

definition canTransition :: "node_state \<Rightarrow> node_state \<Rightarrow> bool" where
  "canTransition from dest \<longleftrightarrow> dest \<in> set (NODE_TRANSITIONS from)"

interpretation node_table: transition_table canTransition "\<lambda>s. s \<in> set TERMINAL_NODE_STATES"
  by unfold_locales (auto simp: TERMINAL_NODE_STATES_def canTransition_def)

lemma terminal_node_iff: "s \<in> set TERMINAL_NODE_STATES \<longleftrightarrow> NODE_TRANSITIONS s = []"
  by (cases s) (auto simp: TERMINAL_NODE_STATES_def)

lemma node_state_str_inj: "inj node_state_str"
proof (rule injI)
  fix a b assume "node_state_str a = node_state_str b"
  then show "a = b" by (cases a; cases b; simp)
qed

subsection \<open>Events and the reduced state\<close>

record lifecycle_event =
  le_event_id :: ident
  le_node_id :: ident
  le_to :: node_state
  le_reason :: "string option"

text \<open>The schema of an event as it arrives: the three strings of \<^verbatim>\<open>LifecycleEvent\<close>.\<close>

definition LifecycleEvent_valid :: "string \<Rightarrow> string \<Rightarrow> string \<Rightarrow> bool" where
  "LifecycleEvent_valid event_id node_id dest \<longleftrightarrow>
     nonempty_str event_id \<and> nonempty_str node_id \<and> isNodeState dest"

record node_snapshot =
  ns_state :: node_state
  ns_history :: "node_state list"

record rejected_event =
  re_event_id :: ident
  re_reason :: string

record reduced_state =
  rs_nodes :: "(ident, node_snapshot) jmap"
  rs_applied :: "ident list"
  rs_rejected :: "rejected_event list"

definition INITIAL_STATE :: node_state where
  "INITIAL_STATE = N_pending"

definition empty_reduced :: reduced_state where
  "empty_reduced = \<lparr>rs_nodes = [], rs_applied = [], rs_rejected = []\<rparr>"

subsection \<open>Objects used as dictionaries\<close>

datatype js_error = TypeError

text \<open>The property names every plain object inherits.\<close>

definition object_prototype_keys :: "string list" where
  "object_prototype_keys =
     [''constructor'', ''__defineGetter__'', ''__defineSetter__'', ''hasOwnProperty'',
      ''__lookupGetter__'', ''__lookupSetter__'', ''isPrototypeOf'', ''propertyIsEnumerable'',
      ''toString'', ''valueOf'', ''__proto__'', ''toLocaleString'']"

abbreviation inherited_key :: "string \<Rightarrow> bool" where
  "inherited_key k \<equiv> k \<in> set object_prototype_keys"

subsection \<open>The reducer\<close>

definition node_or_initial :: "(ident, node_snapshot) jmap \<Rightarrow> ident \<Rightarrow> js_error + node_snapshot" where
  "node_or_initial nodes k =
     (case jget nodes k of
        Some n \<Rightarrow> Inr n
      | None \<Rightarrow>
          if inherited_key k then Inl TypeError
          else Inr \<lparr>ns_state = INITIAL_STATE, ns_history = [INITIAL_STATE]\<rparr>)"

definition rejection_reason :: "node_state \<Rightarrow> node_state \<Rightarrow> ident \<Rightarrow> string" where
  "rejection_reason from dest node =
     ''invalid transition '' @ node_state_str from @ '' -> '' @ node_state_str dest @
     '' for node '' @ node"

definition reduce_event :: "reduced_state \<Rightarrow> lifecycle_event \<Rightarrow> js_error + reduced_state" where
  "reduce_event st e =
     (case node_or_initial (rs_nodes st) (le_node_id e) of
        Inl err \<Rightarrow> Inl err
      | Inr node \<Rightarrow>
          if \<not> canTransition (ns_state node) (le_to e) then
            Inr (st\<lparr>rs_rejected := rs_rejected st @
                   [\<lparr>re_event_id = le_event_id e,
                     re_reason = rejection_reason (ns_state node) (le_to e) (le_node_id e)\<rparr>]\<rparr>)
          else
            Inr (st\<lparr>rs_nodes := jset (le_node_id e)
                       \<lparr>ns_state = le_to e, ns_history = ns_history node @ [le_to e]\<rparr> (rs_nodes st),
                    rs_applied := rs_applied st @ [le_event_id e]\<rparr>))"

fun reduce_loop ::
  "ident list \<Rightarrow> reduced_state \<Rightarrow> lifecycle_event list \<Rightarrow> js_error + reduced_state" where
  "reduce_loop seen st [] = Inr st"
| "reduce_loop seen st (e # es) =
     (if le_event_id e \<in> set seen then reduce_loop seen st es
      else case reduce_event st e of
             Inl err \<Rightarrow> Inl err
           | Inr st' \<Rightarrow> reduce_loop (le_event_id e # seen) st' es)"

definition reduceLifecycle :: "lifecycle_event list \<Rightarrow> js_error + reduced_state" where
  "reduceLifecycle events = reduce_loop [] empty_reduced events"

interpretation node_reducer: event_reducer le_event_id reduce_event reduce_loop
  by unfold_locales auto

subsection \<open>Well-formed reductions\<close>

text \<open>
  A snapshot is well formed when its history is a path of the table from \<^verbatim>\<open>pending\<close> that ends in
  the current state; only identifiers that are not inherited carry a snapshot.
\<close>

definition snapshot_ok :: "node_snapshot \<Rightarrow> bool" where
  "snapshot_ok n \<longleftrightarrow> ns_history n \<noteq> [] \<and> hd (ns_history n) = N_pending
     \<and> last (ns_history n) = ns_state n \<and> successively canTransition (ns_history n)"

definition reduced_ok :: "reduced_state \<Rightarrow> bool" where
  "reduced_ok st \<longleftrightarrow> jwf (rs_nodes st)
     \<and> (\<forall>k n. jget (rs_nodes st) k = Some n \<longrightarrow> \<not> inherited_key k \<and> snapshot_ok n)"

lemma reduced_ok_empty [simp]: "reduced_ok empty_reduced"
  by (simp add: reduced_ok_def empty_reduced_def)

lemma node_or_initial_ok:
  "reduced_ok st \<Longrightarrow> node_or_initial (rs_nodes st) k = Inr n \<Longrightarrow> snapshot_ok n \<and> \<not> inherited_key k"
  by (auto simp: node_or_initial_def reduced_ok_def snapshot_ok_def INITIAL_STATE_def
      split: option.splits if_splits)

lemma snapshot_ok_step:
  assumes "snapshot_ok n" and "canTransition (ns_state n) s"
  shows "snapshot_ok \<lparr>ns_state = s, ns_history = ns_history n @ [s]\<rparr>"
  using assms by (auto simp: snapshot_ok_def intro!: node_table.path_extend)

lemma reduce_event_cases:
  assumes "reduce_event st e = Inr st'"
  obtains (applied) node where
      "node_or_initial (rs_nodes st) (le_node_id e) = Inr node"
      "canTransition (ns_state node) (le_to e)"
      "st' = st\<lparr>rs_nodes := jset (le_node_id e)
                   \<lparr>ns_state = le_to e, ns_history = ns_history node @ [le_to e]\<rparr> (rs_nodes st),
                rs_applied := rs_applied st @ [le_event_id e]\<rparr>"
    | (rejected) reason where
      "st' = st\<lparr>rs_rejected := rs_rejected st @
                   [\<lparr>re_event_id = le_event_id e, re_reason = reason\<rparr>]\<rparr>"
  using assms by (auto simp: reduce_event_def split: sum.splits if_splits)

lemma reduce_event_ok: "reduced_ok st \<Longrightarrow> reduce_event st e = Inr st' \<Longrightarrow> reduced_ok st'"
proof (erule reduce_event_cases)
  fix node
  assume ok: "reduced_ok st" and n: "node_or_initial (rs_nodes st) (le_node_id e) = Inr node"
    and can: "canTransition (ns_state node) (le_to e)"
    and st': "st' = st\<lparr>rs_nodes := jset (le_node_id e)
                 \<lparr>ns_state = le_to e, ns_history = ns_history node @ [le_to e]\<rparr> (rs_nodes st),
              rs_applied := rs_applied st @ [le_event_id e]\<rparr>"
  from node_or_initial_ok [OF ok n] can
  have "snapshot_ok \<lparr>ns_state = le_to e, ns_history = ns_history node @ [le_to e]\<rparr>"
    and "\<not> inherited_key (le_node_id e)"
    by (auto intro: snapshot_ok_step)
  with ok st' show "reduced_ok st'" by (auto simp: reduced_ok_def)
qed (simp add: reduced_ok_def)

lemma reduceLifecycle_ok: "reduceLifecycle evs = Inr st \<Longrightarrow> reduced_ok st"
  unfolding reduceLifecycle_def
  by (rule node_reducer.loop_invariant [where I = reduced_ok, OF reduce_event_ok reduced_ok_empty])

subsection \<open>The state of one node\<close>

text \<open>\<^verbatim>\<open>reduced.nodes[id]?.state ?? "pending"\<close>: an inherited property has no \<^verbatim>\<open>state\<close> either.\<close>

definition node_state_in :: "reduced_state \<Rightarrow> ident \<Rightarrow> node_state" where
  "node_state_in st k = (case jget (rs_nodes st) k of Some n \<Rightarrow> ns_state n | None \<Rightarrow> N_pending)"

lemma node_state_in_empty [simp]: "node_state_in empty_reduced k = N_pending"
  by (simp add: node_state_in_def empty_reduced_def)

lemma reduce_event_effect:
  "reduce_event st e = Inr st' \<Longrightarrow>
     (if canTransition (node_state_in st (le_node_id e)) (le_to e)
      then node_state_in st' = (node_state_in st)(le_node_id e := le_to e)
      else node_state_in st' = node_state_in st)"
  by (auto simp: reduce_event_def node_or_initial_def node_state_in_def INITIAL_STATE_def fun_eq_iff
      split: option.splits if_splits)

lemma reduce_event_total:
  "\<not> inherited_key (le_node_id e) \<Longrightarrow> \<exists>st'. reduce_event st e = Inr st'"
  by (auto simp: reduce_event_def node_or_initial_def split: option.splits)

lemma reduce_event_throws:
  "reduced_ok st \<Longrightarrow> inherited_key (le_node_id e) \<Longrightarrow> reduce_event st e = Inl TypeError"
  by (auto simp: reduce_event_def node_or_initial_def reduced_ok_def split: option.splits)

text \<open>Appending one fresh event runs one more step.\<close>

lemma reduceLifecycle_snoc:
  assumes "reduceLifecycle evs = Inr st" and "le_event_id e \<notin> set (map le_event_id evs)"
  shows "reduceLifecycle (evs @ [e]) = reduce_event st e"
  using assms
  by (simp add: reduceLifecycle_def node_reducer.loop_append split: sum.splits)

lemma reduceLifecycle_Nil [simp]: "reduceLifecycle [] = Inr empty_reduced"
  by (simp add: reduceLifecycle_def)


subsection \<open>Correctness of the reducer\<close>

lemma reduce_replayed:
  "set (map le_event_id ys) \<subseteq> set (map le_event_id xs) \<Longrightarrow>
     reduceLifecycle (xs @ ys) = reduceLifecycle xs"
  unfolding reduceLifecycle_def by (rule node_reducer.loop_idempotent) auto

text \<open>The bookkeeping of a reduction: each key seen is recorded exactly once.\<close>

definition accounts :: "ident set \<Rightarrow> reduced_state \<Rightarrow> bool" where
  "accounts K st \<longleftrightarrow> distinct (rs_applied st @ map re_event_id (rs_rejected st))
     \<and> set (rs_applied st @ map re_event_id (rs_rejected st)) = K"

lemma accounts_step:
  "accounts K st \<Longrightarrow> le_event_id e \<notin> K \<Longrightarrow> reduce_event st e = Inr st' \<Longrightarrow>
     accounts (insert (le_event_id e) K) st'"
  by (erule reduce_event_cases) (auto simp: accounts_def)

lemma terminal_step:
  assumes "reduce_event st e = Inr st'" and "node_state_in st k \<in> set TERMINAL_NODE_STATES"
  shows "node_state_in st' k = node_state_in st k"
proof (cases "canTransition (node_state_in st (le_node_id e)) (le_to e)")
  case True
  then have "node_state_in st (le_node_id e) \<notin> set TERMINAL_NODE_STATES"
    by (rule node_table.step_not_terminal)
  with assms(2) have "k \<noteq> le_node_id e" by auto
  with reduce_event_effect [OF assms(1)] True show ?thesis by simp
next
  case False
  with reduce_event_effect [OF assms(1)] show ?thesis by simp
qed

lemma terminal_loop:
  assumes "reduce_loop seen st es = Inr st'" and "node_state_in st k \<in> set TERMINAL_NODE_STATES"
  shows "node_state_in st' k = node_state_in st k"
proof -
  define s where "s = node_state_in st k"
  have "node_state_in st' k = s"
  proof (rule node_reducer.loop_invariant [where I = "\<lambda>u. node_state_in u k = s", OF _ _ assms(1)])
    show "node_state_in st k = s" by (simp add: s_def)
    fix u e u'
    assume "node_state_in u k = s" "reduce_event u e = Inr u'"
    with assms(2) show "node_state_in u' k = s" by (auto simp: s_def terminal_step)
  qed
  then show ?thesis by (simp add: s_def)
qed

text \<open>
  C25: The reducer is idempotent under replay. Appending to a log any events whose identifiers
  already occur in it, in any order and any number of times, leaves the reduced state (nodes,
  applied and rejected lists, or the thrown error) exactly as it was.
\<close>

theorem reduceLifecycle_replay:
  assumes "set (map le_event_id ys) \<subseteq> set (map le_event_id xs)"
  shows "reduceLifecycle (xs @ ys) = reduceLifecycle xs"
  using assms by (rule reduce_replayed)

definition ev :: "string \<Rightarrow> string \<Rightarrow> node_state \<Rightarrow> lifecycle_event" where
  "ev i n s = \<lparr>le_event_id = i, le_node_id = n, le_to = s, le_reason = None\<rparr>"

theorem reduceLifecycle_replay_witness:
  "reduceLifecycle ([ev ''e1'' ''a'' N_ready, ev ''e2'' ''a'' N_assigned] @ [ev ''e1'' ''a'' N_cancelled])
   = reduceLifecycle [ev ''e1'' ''a'' N_ready, ev ''e2'' ''a'' N_assigned]"
  by (rule reduceLifecycle_replay) (simp add: ev_def)

text \<open>
  Every reduction is well formed: each event identifier of the log is recorded exactly once,
  as applied or as rejected, and for every node the recorded history starts in \<^verbatim>\<open>pending\<close>, moves
  only along the transition table, ends in the node's state, and passes through no terminal state
  before its end.
\<close>

theorem reduceLifecycle_well_formed:
  assumes "reduceLifecycle evs = Inr st"
  shows "accounts (set (map le_event_id evs)) st
    \<and> (\<forall>k n. jget (rs_nodes st) k = Some n \<longrightarrow>
         snapshot_ok n \<and> (\<forall>s \<in> set (butlast (ns_history n)). s \<notin> set TERMINAL_NODE_STATES))"
proof
  have "accounts (set [] \<union> set (map le_event_id evs)) st"
    by (rule node_reducer.loop_invariant_seen
          [where I = accounts, OF accounts_step _ assms [unfolded reduceLifecycle_def]])
      (simp_all add: accounts_def empty_reduced_def)
  then show "accounts (set (map le_event_id evs)) st" by simp
  show "\<forall>k n. jget (rs_nodes st) k = Some n \<longrightarrow>
      snapshot_ok n \<and> (\<forall>s \<in> set (butlast (ns_history n)). s \<notin> set TERMINAL_NODE_STATES)"
  proof (intro allI impI conjI ballI)
    fix k n assume "jget (rs_nodes st) k = Some n"
    with reduceLifecycle_ok [OF assms] show ok: "snapshot_ok n" by (simp add: reduced_ok_def)
    fix s assume "s \<in> set (butlast (ns_history n))"
    with ok show "s \<notin> set TERMINAL_NODE_STATES"
      using node_table.terminal_only_last [of "ns_history n" s] by (simp add: snapshot_ok_def)
  qed
qed

theorem reduceLifecycle_well_formed_witness:
  "\<exists>st. reduceLifecycle [ev ''e1'' ''a'' N_ready, ev ''e2'' ''a'' N_running] = Inr st
     \<and> accounts {''e1'', ''e2''} st \<and> rs_applied st = [''e1''] \<and> length (rs_rejected st) = 1"
proof -
  define st where "st = (case reduceLifecycle [ev ''e1'' ''a'' N_ready, ev ''e2'' ''a'' N_running] of
     Inr s \<Rightarrow> s | Inl _ \<Rightarrow> empty_reduced)"
  have eq: "reduceLifecycle [ev ''e1'' ''a'' N_ready, ev ''e2'' ''a'' N_running] = Inr st"
    and "rs_applied st = [''e1'']" and "length (rs_rejected st) = 1"
    by (simp_all add: st_def reduceLifecycle_def reduce_event_def node_or_initial_def ev_def
        empty_reduced_def object_prototype_keys_def INITIAL_STATE_def canTransition_def)
  with reduceLifecycle_well_formed [OF eq] show ?thesis by (auto simp: ev_def)
qed

text \<open>
  Terminal states are absorbing: once a log has brought a node to \<^verbatim>\<open>integrated\<close>, \<^verbatim>\<open>cancelled\<close> or
  \<^verbatim>\<open>superseded\<close>, no continuation of the log changes that node's state.
\<close>

theorem reduceLifecycle_terminal:
  assumes "reduceLifecycle xs = Inr st" and "reduceLifecycle (xs @ ys) = Inr st'"
    and "node_state_in st k \<in> set TERMINAL_NODE_STATES"
  shows "node_state_in st' k = node_state_in st k"
proof -
  have "reduce_loop (map le_event_id xs) st ys = Inr st'"
    using assms(1,2) by (simp add: reduceLifecycle_def node_reducer.loop_append)
  then show ?thesis using assms(3) by (rule terminal_loop)
qed

theorem reduceLifecycle_terminal_witness:
  "\<exists>st st'. reduceLifecycle [ev ''e1'' ''a'' N_cancelled] = Inr st
     \<and> reduceLifecycle ([ev ''e1'' ''a'' N_cancelled] @ [ev ''e2'' ''a'' N_ready]) = Inr st'
     \<and> node_state_in st' ''a'' = node_state_in st ''a'' \<and> node_state_in st ''a'' = N_cancelled"
proof -
  define st where "st = \<lparr>rs_nodes = [(''a'', \<lparr>ns_state = N_cancelled, ns_history = [N_pending, N_cancelled]\<rparr>)],
     rs_applied = [''e1''], rs_rejected = []\<rparr>"
  define st' where "st' = st\<lparr>rs_rejected := [\<lparr>re_event_id = ''e2'',
     re_reason = rejection_reason N_cancelled N_ready ''a''\<rparr>]\<rparr>"
  note evals = reduceLifecycle_def reduce_event_def node_or_initial_def ev_def st_def st'_def
    empty_reduced_def object_prototype_keys_def INITIAL_STATE_def canTransition_def
  have 1: "reduceLifecycle [ev ''e1'' ''a'' N_cancelled] = Inr st" by (simp add: evals)
  have 2: "reduceLifecycle ([ev ''e1'' ''a'' N_cancelled] @ [ev ''e2'' ''a'' N_ready]) = Inr st'"
    by (simp add: evals)
  have 3: "node_state_in st ''a'' \<in> set TERMINAL_NODE_STATES"
    by (simp add: st_def node_state_in_def TERMINAL_NODE_STATES_def)
  from reduceLifecycle_terminal [OF 1 2 3] 1 2 show ?thesis
    by (auto simp: st_def node_state_in_def)
qed

lemma snoc_split_iff:
  "(\<exists>xs d ys. zs @ [e] = xs @ d # ys \<and> P xs d) \<longleftrightarrow> (\<exists>xs d ys. zs = xs @ d # ys \<and> P xs d) \<or> P zs e"
proof
  assume "\<exists>xs d ys. zs @ [e] = xs @ d # ys \<and> P xs d"
  then obtain xs d ys where eq: "zs @ [e] = xs @ d # ys" and p: "P xs d" by blast
  show "(\<exists>xs d ys. zs = xs @ d # ys \<and> P xs d) \<or> P zs e"
    using eq p by (cases ys rule: rev_cases) auto
next
  assume "(\<exists>xs d ys. zs = xs @ d # ys \<and> P xs d) \<or> P zs e"
  then show "\<exists>xs d ys. zs @ [e] = xs @ d # ys \<and> P xs d"
    by (metis append_Cons append_assoc append_Nil)
qed

lemma reduceLifecycle_throws_snoc:
  "reduceLifecycle (evs @ [e]) = Inl TypeError \<longleftrightarrow> reduceLifecycle evs = Inl TypeError
     \<or> le_event_id e \<notin> set (map le_event_id evs) \<and> inherited_key (le_node_id e)"
proof (cases "reduceLifecycle evs")
  case (Inl err)
  then show ?thesis by (cases err) (simp add: reduceLifecycle_def node_reducer.loop_append)
next
  case (Inr st)
  show ?thesis
  proof (cases "le_event_id e \<in> set (map le_event_id evs)")
    case True
    then have "reduceLifecycle (evs @ [e]) = Inr st" using reduce_replayed [of "[e]" evs] Inr by simp
    with True Inr show ?thesis by simp
  next
    case False
    with Inr reduceLifecycle_snoc [OF Inr False] reduce_event_total [of e st]
      reduce_event_throws [OF reduceLifecycle_ok [OF Inr], of e]
    show ?thesis by auto
  qed
qed

text \<open>
  The reducer throws exactly when an event that is not a replay names a node whose identifier
  is a property of \<^verbatim>\<open>Object.prototype\<close> (for instance \<^verbatim>\<open>constructor\<close>); on every other log it returns.
\<close>

theorem reduceLifecycle_throws_iff:
  "reduceLifecycle evs = Inl TypeError \<longleftrightarrow>
     (\<exists>xs e ys. evs = xs @ e # ys \<and> le_event_id e \<notin> set (map le_event_id xs)
        \<and> inherited_key (le_node_id e))"
proof (induction evs rule: rev_induct)
  case Nil
  then show ?case by simp
next
  case (snoc e evs)
  then show ?case
    unfolding snoc_split_iff [where P = "\<lambda>xs d. le_event_id d \<notin> set (map le_event_id xs)
      \<and> inherited_key (le_node_id d)"] reduceLifecycle_throws_snoc by simp
qed

end
