(* ===== verification/Cycle.thy ===== *)
theory Cycle
  imports Norns_Prelude
begin

section \<open>Cycle detection in a dependency map\<close>

text \<open>
  The recursive closure \<^verbatim>\<open>visit\<close> of \<^verbatim>\<open>findCycle\<close> in \<^verbatim>\<open>packages/contracts/src/plan.ts\<close>, which
  \<^verbatim>\<open>apps/server/src/graph/graph.ts\<close> has again over its own nodes: a depth-first search that marks a
  node \<^verbatim>\<open>visiting\<close>, pushes it on a stack, visits its dependencies in order, pops it and marks it
  \<^verbatim>\<open>done\<close>. The closure and the loops around it are two mutually recursive functions over the marks
  and the stack. They end because an unmarked node with dependencies is a key of the map and gets a
  mark, and marks are never removed.
\<close>

datatype dfs_mark = M_visiting | M_done

type_synonym dfs_state = "(ident, dfs_mark) jmap \<times> ident list"

definition deps_of :: "(ident, ident list) jmap \<Rightarrow> ident \<Rightarrow> ident list" where
  "deps_of deps k = (case jget deps k of Some ds \<Rightarrow> ds | None \<Rightarrow> [])"

text \<open>\<^verbatim>\<open>stack.slice(stack.indexOf(id))\<close>; for an absent element \<^verbatim>\<open>slice(-1)\<close> is the last one.\<close>

definition slice_at :: "'a \<Rightarrow> 'a list \<Rightarrow> 'a list" where
  "slice_at x xs = (if x \<in> set xs then dropWhile (\<lambda>y. y \<noteq> x) xs else drop (length xs - 1) xs)"

function (sequential) visit ::
    "(ident, ident list) jmap \<Rightarrow> dfs_state \<Rightarrow> ident \<Rightarrow> ident list option \<times> dfs_state"
  and visit_all ::
    "(ident, ident list) jmap \<Rightarrow> dfs_state \<Rightarrow> ident list \<Rightarrow> ident list option \<times> dfs_state"
where
  "visit deps (marks, stack) k =
     (case jget marks k of
        Some M_done \<Rightarrow> (None, (marks, stack))
      | Some M_visiting \<Rightarrow> (Some (slice_at k stack @ [k]), (marks, stack))
      | None \<Rightarrow>
          (case visit_all deps (jset k M_visiting marks, stack @ [k]) (deps_of deps k) of
             (Some found, st) \<Rightarrow> (Some found, st)
           | (None, (marks', stack')) \<Rightarrow> (None, (jset k M_done marks', butlast stack'))))"
| "visit_all deps st [] = (None, st)"
| "visit_all deps st (d # ds) =
     (case visit deps st d of
        (Some found, st') \<Rightarrow> (Some found, st')
      | (None, st') \<Rightarrow> visit_all deps st' ds)"
  by pat_completeness auto

abbreviation marked :: "dfs_state \<Rightarrow> ident set" where
  "marked st \<equiv> fst ` set (fst st)"

lemma marked_jset [simp]: "fst ` set (jset k v m) = insert k (fst ` set m)"
  by (simp add: dom_update)

lemma visit_marks_grow:
  "visit_visit_all_dom (Inl (deps, st, k)) \<Longrightarrow> marked st \<subseteq> marked (snd (visit deps st k))"
  "visit_visit_all_dom (Inr (deps, st, ds)) \<Longrightarrow> marked st \<subseteq> marked (snd (visit_all deps st ds))"
proof (induction deps st k and deps st ds rule: visit_visit_all.pinduct)
  case (1 deps marks stack k)
  show ?case
  proof (cases "jget marks k")
    case None
    obtain r m' s' where
      v: "visit_all deps (jset k M_visiting marks, stack @ [k]) (deps_of deps k) = (r, (m', s'))"
      by (metis prod.exhaust)
    from "1.IH" [OF None] v have "insert k (fst ` set marks) \<subseteq> fst ` set m'" by simp
    then have "fst ` set marks \<subseteq> fst ` set m'" by (rule subset_insertI [THEN subset_trans])
    with v None "1.hyps" show ?thesis by (cases r) (simp_all add: visit.psimps subset_insertI2)
  next
    case (Some mk)
    with "1.hyps" show ?thesis by (cases mk) (simp_all add: visit.psimps)
  qed
next
  case (2 deps st)
  then show ?case by (simp add: visit_all.psimps)
next
  case (3 deps st d ds)
  obtain r st' where v: "visit deps st d = (r, st')" by (cases "visit deps st d")
  with "3.IH"(1) have grow: "marked st \<subseteq> marked st'" by simp
  show ?case
  proof (cases r)
    case None
    with v "3.IH"(2) [of r st'] have "marked st' \<subseteq> marked (snd (visit_all deps st' ds))" by simp
    with grow v None "3.hyps" show ?thesis by (simp add: visit_all.psimps)
  next
    case (Some c)
    with grow v "3.hyps" show ?thesis by (simp add: visit_all.psimps)
  qed
qed

definition dfs_rank :: "(ident, ident list) jmap \<Rightarrow> dfs_state \<Rightarrow> nat" where
  "dfs_rank deps st = card (fst ` set deps - marked st)"

lemma dfs_rank_mono: "marked st \<subseteq> marked st' \<Longrightarrow> dfs_rank deps st' \<le> dfs_rank deps st"
  unfolding dfs_rank_def by (rule card_mono) auto

lemma dfs_rank_mark:
  assumes "jget marks k = None" and "deps_of deps k \<noteq> []"
  shows "dfs_rank deps (jset k M_visiting marks, stack') < dfs_rank deps (marks, stack)"
proof -
  have "k \<in> fst ` set deps" "k \<notin> fst ` set marks"
    using assms by (auto simp: deps_of_def map_of_eq_None_iff dest: jget_key split: option.splits)
  then show ?thesis unfolding dfs_rank_def by (intro psubset_card_mono) auto
qed

termination visit
proof (relation "inv_image (less_than <*lex*> less_than)
    (\<lambda>x. case x of Inl (deps, st, k) \<Rightarrow> (dfs_rank deps st, 1)
                 | Inr (deps, st, ds) \<Rightarrow> (dfs_rank deps st, 2 * length ds))", goal_cases)
  case 1
  show ?case by auto
next
  case (2 deps marks stack k)
  show ?case
  proof (cases "deps_of deps k = []")
    case True
    have "dfs_rank deps (jset k M_visiting marks, stack @ [k]) \<le> dfs_rank deps (marks, stack)"
      by (rule dfs_rank_mono) auto
    with True show ?thesis by auto
  next
    case False
    from dfs_rank_mark [OF 2 False] show ?thesis by simp
  qed
next
  case (3 deps st d ds)
  show ?case by simp
next
  case (4 deps st d ds p st')
  then have "marked st \<subseteq> marked st'" using visit_marks_grow(1) [OF 4(3)] by (metis snd_conv)
  then have "dfs_rank deps st' \<le> dfs_rank deps st" by (rule dfs_rank_mono)
  then show ?case by auto
qed


subsection \<open>What a search establishes\<close>

abbreviation dep_rel :: "(ident, ident list) jmap \<Rightarrow> (ident \<times> ident) set" where
  "dep_rel deps \<equiv> {(a, b). b \<in> set (deps_of deps a)}"

abbreviation dep_edge :: "(ident, ident list) jmap \<Rightarrow> ident \<Rightarrow> ident \<Rightarrow> bool" where
  "dep_edge deps a b \<equiv> b \<in> set (deps_of deps a)"

text \<open>A closed path of dependencies: what \<^verbatim>\<open>findCycle\<close> reports.\<close>

definition dep_cycle :: "(ident, ident list) jmap \<Rightarrow> ident list \<Rightarrow> bool" where
  "dep_cycle deps c \<longleftrightarrow> 2 \<le> length c \<and> hd c = last c \<and> successively (dep_edge deps) c"

lemma path_trancl:
  "successively (dep_edge deps) c \<Longrightarrow> 2 \<le> length c \<Longrightarrow> (hd c, last c) \<in> (dep_rel deps)\<^sup>+"
proof (induction c rule: induct_list012)
  case (3 a b c)
  show ?case
  proof (cases c)
    case Nil
    with "3.prems" show ?thesis by auto
  next
    case (Cons d e)
    with 3 have "(b, last (b # c)) \<in> (dep_rel deps)\<^sup>+" by simp
    moreover from "3.prems" have "(a, b) \<in> (dep_rel deps)\<^sup>+" by auto
    ultimately show ?thesis by simp
  qed
qed auto

lemma dep_cycle_not_acyclic: "dep_cycle deps c \<Longrightarrow> \<not> acyclic (dep_rel deps)"
  unfolding dep_cycle_def acyclic_def using path_trancl by metis

definition done_set :: "dfs_state \<Rightarrow> ident set" where
  "done_set st = {a. jget (fst st) a = Some M_done}"

text \<open>
  The invariant: the stack is a path of the nodes being visited; the finished nodes are closed
  under dependencies and lie on no cycle.
\<close>

definition dfs_inv :: "(ident, ident list) jmap \<Rightarrow> dfs_state \<Rightarrow> bool" where
  "dfs_inv deps st \<longleftrightarrow>
     set (snd st) = {a. jget (fst st) a = Some M_visiting} \<and> distinct (snd st)
     \<and> successively (dep_edge deps) (snd st)
     \<and> (\<forall>a \<in> done_set st. set (deps_of deps a) \<subseteq> done_set st \<and> (a, a) \<notin> (dep_rel deps)\<^sup>+)"

lemma trancl_closed:
  "(a, b) \<in> (dep_rel deps)\<^sup>+ \<Longrightarrow> set (deps_of deps a) \<subseteq> S \<Longrightarrow>
     (\<And>x. x \<in> S \<Longrightarrow> set (deps_of deps x) \<subseteq> S) \<Longrightarrow> b \<in> S"
  by (induction rule: trancl_induct) auto

lemma dfs_inv_push:
  assumes "dfs_inv deps (m, stk)" and "jget m k = None" and "stk = [] \<or> dep_edge deps (last stk) k"
  shows "dfs_inv deps (jset k M_visiting m, stk @ [k])"
proof -
  have "done_set (jset k M_visiting m, stk @ [k]) = done_set (m, stk)"
    using assms(2) by (auto simp: done_set_def)
  then show ?thesis
    using assms by (auto simp: dfs_inv_def successively_append_iff)
qed

lemma dfs_inv_pop:
  assumes inv: "dfs_inv deps (m, stk @ [k])" and ds: "set (deps_of deps k) \<subseteq> done_set (m, stk @ [k])"
  shows "dfs_inv deps (jset k M_done m, stk)"
    and "done_set (jset k M_done m, stk) = insert k (done_set (m, stk @ [k]))"
proof -
  let ?D = "done_set (m, stk @ [k])"
  show D: "done_set (jset k M_done m, stk) = insert k ?D" by (auto simp: done_set_def)
  have "jget m k = Some M_visiting" using inv by (auto simp: dfs_inv_def)
  then have notin: "k \<notin> ?D" by (simp add: done_set_def)
  have closed: "x \<in> ?D \<Longrightarrow> set (deps_of deps x) \<subseteq> ?D" for x using inv by (simp add: dfs_inv_def)
  have "(k, k) \<notin> (dep_rel deps)\<^sup>+" using trancl_closed [of k k deps ?D] ds closed notin by blast
  with inv ds show "dfs_inv deps (jset k M_done m, stk)"
    unfolding dfs_inv_def D by (auto simp: successively_append_iff)
qed

lemma slice_at_path:
  assumes "successively (dep_edge deps) stk" "k \<in> set stk" "dep_edge deps (last stk) k"
  shows "dep_cycle deps (slice_at k stk @ [k])"
proof -
  obtain xs ys where stk: "stk = xs @ k # ys" "k \<notin> set xs" using assms(2) by (meson split_list_first)
  then have "slice_at k stk = k # ys" using assms(2) by (auto simp: slice_at_def dropWhile_append3)
  moreover have "successively (dep_edge deps) (k # ys)"
    using assms(1) stk by (simp add: successively_append_iff)
  moreover have "dep_edge deps (last (k # ys)) k" using assms(3) stk by simp
  ultimately have "successively (dep_edge deps) (slice_at k stk @ [k])"
    using successively_append_iff [of "dep_edge deps" "k # ys" "[k]"] by simp
  with \<open>slice_at k stk = k # ys\<close> show ?thesis by (simp add: dep_cycle_def)
qed

definition dfs_post ::
  "(ident, ident list) jmap \<Rightarrow> dfs_state \<Rightarrow> ident set \<Rightarrow> ident list option \<times> dfs_state \<Rightarrow> bool" where
  "dfs_post deps st K res \<longleftrightarrow>
     (case res of
        (Some c, st') \<Rightarrow> dep_cycle deps c
      | (None, st') \<Rightarrow> dfs_inv deps st' \<and> snd st' = snd st \<and> K \<union> done_set st \<subseteq> done_set st')"

lemma visit_step_post:
  assumes inv: "dfs_inv deps (m, stk)" and none: "jget m k = None"
    and rest: "dfs_post deps (jset k M_visiting m, stk @ [k]) (set (deps_of deps k))
      (visit_all deps (jset k M_visiting m, stk @ [k]) (deps_of deps k))"
  shows "dfs_post deps (m, stk) {k} (visit deps (m, stk) k)"
proof -
  obtain r m' s' where
    v: "visit_all deps (jset k M_visiting m, stk @ [k]) (deps_of deps k) = (r, (m', s'))"
    by (metis prod.exhaust)
  show ?thesis
  proof (cases r)
    case (Some c)
    with rest v none show ?thesis by (simp add: dfs_post_def)
  next
    case None
    with rest v have post: "dfs_inv deps (m', stk @ [k])" "s' = stk @ [k]"
      "set (deps_of deps k) \<subseteq> done_set (m', stk @ [k])"
      "done_set (jset k M_visiting m, stk @ [k]) \<subseteq> done_set (m', stk @ [k])"
      by (auto simp: dfs_post_def)
    have "done_set (m, stk) \<subseteq> done_set (jset k M_visiting m, stk @ [k])"
      using none by (auto simp: done_set_def)
    with post dfs_inv_pop [OF post(1) post(3)] v None none show ?thesis
      by (auto simp: dfs_post_def)
  qed
qed

lemma visit_correct:
  "dfs_inv deps st \<Longrightarrow> snd st = [] \<or> dep_edge deps (last (snd st)) k \<Longrightarrow>
     dfs_post deps st {k} (visit deps st k)"
  "dfs_inv deps st \<Longrightarrow> snd st = [] \<or> (\<forall>d \<in> set ds. dep_edge deps (last (snd st)) d) \<Longrightarrow>
     dfs_post deps st (set ds) (visit_all deps st ds)"
proof (induction deps st k and deps st ds rule: visit_visit_all.induct)
  case (1 deps m stk k)
  show ?case
  proof (cases "jget m k")
    case None
    have "dfs_inv deps (jset k M_visiting m, stk @ [k])"
      using dfs_inv_push [of deps m stk k] "1.prems" None by simp
    from "1.IH" [OF None this] show ?thesis
      by (intro visit_step_post "1.prems" None) simp
  next
    case (Some mk)
    have "k \<in> set stk" if "mk = M_visiting" using that Some "1.prems"(1) by (auto simp: dfs_inv_def)
    then have "dep_cycle deps (slice_at k stk @ [k])" if "mk = M_visiting"
      using that "1.prems" by (intro slice_at_path) (auto simp: dfs_inv_def)
    with Some "1.prems"(1) show ?thesis by (cases mk) (auto simp: dfs_post_def done_set_def)
  qed
next
  case (2 deps st)
  then show ?case by (simp add: dfs_post_def)
next
  case (3 deps st d ds)
  obtain r st' where v: "visit deps st d = (r, st')" by (cases "visit deps st d")
  have first: "dfs_post deps st {d} (r, st')" using "3.IH"(1) "3.prems" v by auto
  show ?case
  proof (cases r)
    case None
    with first have ok: "dfs_inv deps st'" "snd st' = snd st" "insert d (done_set st) \<subseteq> done_set st'"
      by (auto simp: dfs_post_def)
    have "dfs_post deps st' (set ds) (visit_all deps st' ds)"
      using "3.IH"(2) [of r st'] "3.prems" v None ok by auto
    with ok v None show ?thesis by (auto simp: dfs_post_def split: option.splits)
  next
    case (Some c)
    with first v show ?thesis by (simp add: dfs_post_def)
  qed
qed

subsection \<open>The search as an interface\<close>

text \<open>The two loops around \<^verbatim>\<open>visit\<close> start from no marks and an empty stack.\<close>

definition find_cycle :: "(ident, ident list) jmap \<Rightarrow> ident list \<Rightarrow> ident list option" where
  "find_cycle deps ids = fst (visit_all deps ([], []) ids)"

text \<open>What the callers rely on: a reported path is a cycle, and no report means there is none.\<close>

locale cycle_finder =
  fixes find :: "(ident, ident list) jmap \<Rightarrow> ident list option"
  assumes find_sound: "find deps = Some c \<Longrightarrow> dep_cycle deps c"
    and find_complete: "find deps = None \<Longrightarrow> acyclic (dep_rel deps)"
begin

lemma find_None_iff: "find deps = None \<longleftrightarrow> acyclic (dep_rel deps)"
  using find_sound find_complete dep_cycle_not_acyclic by (cases "find deps") blast+

lemma find_reports: "\<not> acyclic (dep_rel deps) \<Longrightarrow> \<exists>c. find deps = Some c \<and> dep_cycle deps c"
  using find_sound find_complete by (cases "find deps") auto

end

lemma find_cycle_correct:
  "dfs_post deps ([], []) (set ids) (visit_all deps ([], []) ids)"
  by (rule visit_correct(2)) (simp_all add: dfs_inv_def done_set_def)

lemma find_cycle_acyclic:
  assumes "find_cycle deps ids = None" and "fst ` set deps \<subseteq> set ids"
  shows "acyclic (dep_rel deps)"
proof -
  obtain st where v: "visit_all deps ([], []) ids = (None, st)"
    using assms(1) by (cases "visit_all deps ([], []) ids") (auto simp: find_cycle_def)
  with find_cycle_correct [of deps ids] have inv: "dfs_inv deps st" "set ids \<subseteq> done_set st"
    by (auto simp: dfs_post_def)
  show ?thesis unfolding acyclic_def
  proof (rule allI, rule notI)
    fix a assume cyc: "(a, a) \<in> (dep_rel deps)\<^sup>+"
    then have "deps_of deps a \<noteq> []" by (auto dest: tranclD)
    then have "a \<in> fst ` set deps"
      by (force simp: deps_of_def dest: map_of_SomeD split: option.splits)
    with assms(2) inv cyc show False by (auto simp: dfs_inv_def)
  qed
qed

interpretation dfs: cycle_finder "\<lambda>deps. find_cycle deps (jkeys deps)"
proof
  fix deps c
  assume "find_cycle deps (jkeys deps) = Some c"
  with find_cycle_correct [of deps "jkeys deps"] show "dep_cycle deps c"
    by (auto simp: find_cycle_def dfs_post_def split: prod.splits option.splits)
qed (simp add: find_cycle_acyclic)

end
