(* ===== verification/Plan.thy ===== *)
theory Plan
  imports Cycle
begin

section \<open>Plan contract and its validation\<close>

text \<open>
  \<^verbatim>\<open>packages/contracts/src/plan.ts\<close>: the plan a project manager model proposes, the constraints of
  its schema, and \<^verbatim>\<open>validatePlan\<close>, which reports duplicate module identifiers, unknown dependencies
  and, when there are neither, a dependency cycle. The schema library that parses the raw input is
  a parameter: it yields either a list of issues (path and message) or a plan.
\<close>

subsection \<open>Data\<close>

datatype verification_type = VT_test | VT_command | VT_inspection | VT_human
datatype complexity = CX_S | CX_M | CX_L | CX_XL
datatype risk_level = RL_low | RL_medium | RL_high | RL_critical

record acceptance_criterion =
  ac_id :: string
  ac_statement :: string
  ac_verification_type :: verification_type
  ac_verification :: string

record module_execution =
  me_likely_paths :: "string list"
  me_owned_components :: "string list"
  me_test_commands :: "string list"
  me_environment_requirements :: "string list"
  me_migration_required :: bool

record module_parallelization =
  mp_safe :: bool
  mp_candidate_work_units :: "string list"
  mp_shared_files :: "string list"
  mp_integration_owner_required :: bool

record plan_module =
  pm_id :: ident
  pm_title :: string
  pm_description :: string
  pm_deliverables :: "string list"
  pm_acceptance :: "acceptance_criterion list"
  pm_dependencies :: "ident list"
  pm_estimated_complexity :: complexity
  pm_risk :: risk_level
  pm_execution :: module_execution
  pm_parallelization :: module_parallelization
  pm_inputs :: "string list"
  pm_outputs :: "string list"
  pm_open_decisions :: "string list"

record plan_risk =
  pk_description :: string
  pk_mitigation :: string

record plan_contract =
  pc_objective :: string
  pc_assumptions :: "string list"
  pc_modules :: "plan_module list"
  pc_risks :: "plan_risk list"
  pc_out_of_scope :: "string list"

subsection \<open>Constraints of the schema\<close>

definition slug_char :: "char \<Rightarrow> bool" where
  "slug_char c \<longleftrightarrow> c \<in> set ''abcdefghijklmnopqrstuvwxyz0123456789''"

text \<open>\<^verbatim>\<open>/^[a-z0-9][a-z0-9-]{0,63}$/\<close>\<close>

fun moduleSlug :: "string \<Rightarrow> bool" where
  "moduleSlug [] = False"
| "moduleSlug (c # cs) \<longleftrightarrow> slug_char c \<and> length cs \<le> 63 \<and> list_all (\<lambda>d. slug_char d \<or> d = CHR ''-'') cs"

definition AcceptanceCriterion_ok :: "acceptance_criterion \<Rightarrow> bool" where
  "AcceptanceCriterion_ok c \<longleftrightarrow>
     nonempty_str (ac_id c) \<and> nonempty_str (ac_statement c) \<and> nonempty_str (ac_verification c)"

definition PlanModule_ok :: "plan_module \<Rightarrow> bool" where
  "PlanModule_ok m \<longleftrightarrow> moduleSlug (pm_id m) \<and> nonempty_str (pm_title m)
     \<and> nonempty_str (pm_description m) \<and> pm_deliverables m \<noteq> []
     \<and> list_all nonempty_str (pm_deliverables m) \<and> pm_acceptance m \<noteq> []
     \<and> list_all AcceptanceCriterion_ok (pm_acceptance m) \<and> list_all moduleSlug (pm_dependencies m)"

definition PlanRisk_ok :: "plan_risk \<Rightarrow> bool" where
  "PlanRisk_ok r \<longleftrightarrow> nonempty_str (pk_description r)"

definition PlanContract_ok :: "plan_contract \<Rightarrow> bool" where
  "PlanContract_ok p \<longleftrightarrow> nonempty_str (pc_objective p) \<and> pc_modules p \<noteq> []
     \<and> list_all PlanModule_ok (pc_modules p) \<and> list_all PlanRisk_ok (pc_risks p)"

subsection \<open>Validation\<close>

datatype plan_error_code = PE_schema | PE_duplicate_module_id | PE_unknown_dependency | PE_dependency_cycle

record plan_error =
  pe_code :: plan_error_code
  pe_message :: string
  pe_module_id :: "ident option"

record schema_issue =
  si_path :: "string list"
  si_message :: string

definition quoted :: "string \<Rightarrow> string" where
  "quoted s = CHR 0x22 # s @ [CHR 0x22]"

definition schema_error :: "schema_issue \<Rightarrow> plan_error" where
  "schema_error i = \<lparr>pe_code = PE_schema, pe_message = join ''.'' (si_path i) @ '': '' @ si_message i,
     pe_module_id = None\<rparr>"

definition duplicate_error :: "ident \<Rightarrow> plan_error" where
  "duplicate_error k = \<lparr>pe_code = PE_duplicate_module_id,
     pe_message = ''module id '' @ quoted k @ '' appears more than once'', pe_module_id = Some k\<rparr>"

definition unknown_dependency_error :: "ident \<Rightarrow> ident \<Rightarrow> plan_error" where
  "unknown_dependency_error k d = \<lparr>pe_code = PE_unknown_dependency,
     pe_message = ''module '' @ quoted k @ '' depends on unknown module '' @ quoted d,
     pe_module_id = Some k\<rparr>"

definition cycle_error :: "ident list \<Rightarrow> plan_error" where
  "cycle_error c = \<lparr>pe_code = PE_dependency_cycle,
     pe_message = ''dependency cycle: '' @ join '' -> '' c, pe_module_id = None\<rparr>"

text \<open>The first loop: it reports an identifier already in the set and adds it.\<close>

fun duplicate_errors :: "ident list \<Rightarrow> plan_module list \<Rightarrow> plan_error list" where
  "duplicate_errors ids [] = []"
| "duplicate_errors ids (m # ms) =
     (if pm_id m \<in> set ids then [duplicate_error (pm_id m)] else [])
       @ duplicate_errors (pm_id m # ids) ms"

definition unknown_errors :: "plan_module list \<Rightarrow> plan_error list" where
  "unknown_errors ms =
     concat (map (\<lambda>m. map (unknown_dependency_error (pm_id m))
       (filter (\<lambda>d. d \<notin> set (map pm_id ms)) (pm_dependencies m))) ms)"

definition module_deps :: "plan_module list \<Rightarrow> (ident, ident list) jmap" where
  "module_deps ms = fold (\<lambda>m. jset (pm_id m) (pm_dependencies m)) ms []"

definition findCycle :: "plan_module list \<Rightarrow> ident list option" where
  "findCycle ms = find_cycle (module_deps ms) (map pm_id ms)"

definition plan_errors :: "plan_module list \<Rightarrow> plan_error list" where
  "plan_errors ms =
     (let errors = duplicate_errors [] ms @ unknown_errors ms in
      if errors = [] then
        (case findCycle ms of Some c \<Rightarrow> errors @ [cycle_error c] | None \<Rightarrow> errors)
      else errors)"

definition validatePlan ::
  "('i \<Rightarrow> schema_issue list + plan_contract) \<Rightarrow> 'i \<Rightarrow> plan_error list + plan_contract" where
  "validatePlan safeParse x =
     (case safeParse x of
        Inl issues \<Rightarrow> Inl (map schema_error issues)
      | Inr plan \<Rightarrow>
          let errors = plan_errors (pc_modules plan) in
          if length errors > 0 then Inl errors else Inr plan)"

subsection \<open>Correctness\<close>

text \<open>The contract: identifiers are unique, dependencies resolve, and nothing depends on itself.\<close>

definition depends :: "plan_module list \<Rightarrow> (ident \<times> ident) set" where
  "depends ms = {(pm_id m, d) |m d. m \<in> set ms \<and> d \<in> set (pm_dependencies m)}"

definition plan_graph_ok :: "plan_module list \<Rightarrow> bool" where
  "plan_graph_ok ms \<longleftrightarrow> distinct (map pm_id ms) \<and> snd ` depends ms \<subseteq> pm_id ` set ms \<and> acyclic (depends ms)"

lemma duplicate_errors_Nil_iff:
  "duplicate_errors ids ms = [] \<longleftrightarrow> distinct (map pm_id ms) \<and> set ids \<inter> pm_id ` set ms = {}"
  by (induction ms arbitrary: ids) auto

lemma duplicate_errors_sound:
  "e \<in> set (duplicate_errors ids ms) \<Longrightarrow>
     \<exists>k. e = duplicate_error k \<and> k \<in> pm_id ` set ms
       \<and> (k \<in> set ids \<or> 2 \<le> count_list (map pm_id ms) k)"
proof (induction ms arbitrary: ids)
  case (Cons m ms)
  show ?case
  proof (cases "e \<in> set (duplicate_errors (pm_id m # ids) ms)")
    case True
    from Cons.IH [OF True] obtain k where k: "e = duplicate_error k" "k \<in> pm_id ` set ms"
      "k = pm_id m \<or> k \<in> set ids \<or> 2 \<le> count_list (map pm_id ms) k" by auto
    from k(2) have "count_list (map pm_id ms) k \<noteq> 0" by (simp add: count_list_0_iff)
    with k(3) have "k \<in> set ids \<or> 2 \<le> count_list (map pm_id (m # ms)) k"
      by (elim disjE) simp_all
    with k show ?thesis by (intro exI [of _ k]) simp
  next
    case False
    with Cons.prems have "e = duplicate_error (pm_id m)" "pm_id m \<in> set ids"
      by (auto split: if_splits)
    then show ?thesis by (intro exI [of _ "pm_id m"]) simp
  qed
qed simp

lemma unknown_errors_sound:
  "e \<in> set (unknown_errors ms) \<longleftrightarrow>
     (\<exists>m d. m \<in> set ms \<and> d \<in> set (pm_dependencies m) \<and> d \<notin> pm_id ` set ms
        \<and> e = unknown_dependency_error (pm_id m) d)"
  by (auto simp: unknown_errors_def image_iff)

lemma unknown_errors_Nil_iff: "unknown_errors ms = [] \<longleftrightarrow> snd ` depends ms \<subseteq> pm_id ` set ms"
proof -
  have "unknown_errors ms = [] \<longleftrightarrow> (\<forall>e. e \<notin> set (unknown_errors ms))"
    by (metis ex_in_conv set_empty)
  also have "\<dots> \<longleftrightarrow> (\<forall>m \<in> set ms. \<forall>d \<in> set (pm_dependencies m). d \<in> pm_id ` set ms)"
    unfolding unknown_errors_sound by blast
  also have "\<dots> \<longleftrightarrow> snd ` depends ms \<subseteq> pm_id ` set ms"
    unfolding depends_def by force
  finally show ?thesis .
qed

lemma module_deps_fold:
  "fst ` set (fold (\<lambda>m. jset (pm_id m) (pm_dependencies m)) ms acc) = pm_id ` set ms \<union> fst ` set acc"
  by (induction ms arbitrary: acc) (auto simp: dom_update)

lemma module_deps_get:
  "distinct (map pm_id ms) \<Longrightarrow>
     jget (fold (\<lambda>m. jset (pm_id m) (pm_dependencies m)) ms acc) k =
     (case List.find (\<lambda>m. pm_id m = k) ms of Some m \<Rightarrow> Some (pm_dependencies m) | None \<Rightarrow> jget acc k)"
proof (induction ms arbitrary: acc)
  case (Cons m ms)
  have "List.find (\<lambda>x. pm_id x = pm_id m) ms = None"
    using Cons.prems by (simp add: find_None_iff) (metis imageI)
  with Cons show ?case by (auto split: option.splits)
qed simp

lemma module_deps_rel: "distinct (map pm_id ms) \<Longrightarrow> dep_rel (module_deps ms) = depends ms"
proof -
  assume d: "distinct (map pm_id ms)"
  have "b \<in> set (deps_of (module_deps ms) a) \<longleftrightarrow> (a, b) \<in> depends ms" for a b
  proof (cases "List.find (\<lambda>m. pm_id m = a) ms")
    case None
    then have "\<forall>m \<in> set ms. pm_id m \<noteq> a" by (auto simp: find_None_iff)
    with None d show ?thesis by (auto simp: deps_of_def module_deps_def module_deps_get depends_def)
  next
    case (Some m)
    then have m: "m \<in> set ms" "pm_id m = a" by (auto simp: find_Some_iff)
    have "(a, b) \<in> depends ms \<longleftrightarrow> b \<in> set (pm_dependencies m)"
      using d m by (auto simp: depends_def distinct_map dest: inj_onD)
    with Some d show ?thesis by (simp add: deps_of_def module_deps_def module_deps_get)
  qed
  then show ?thesis by auto
qed

lemma module_deps_keys: "distinct (map pm_id ms) \<Longrightarrow> jkeys (module_deps ms) = map pm_id ms"
proof (induction ms rule: rev_induct)
  case (snoc m ms)
  have "fst ` set (module_deps ms) = pm_id ` set ms"
    using module_deps_fold [of ms "[]"] by (simp add: module_deps_def)
  with snoc have "pm_id m \<notin> set (jkeys (module_deps ms))" by simp
  with snoc show ?case by (simp add: module_deps_def jset_fresh)
qed (simp add: module_deps_def)

lemma findCycle_dfs:
  "distinct (map pm_id ms) \<Longrightarrow> findCycle ms = find_cycle (module_deps ms) (jkeys (module_deps ms))"
  by (simp add: findCycle_def module_deps_keys)

lemma findCycle_None: "distinct (map pm_id ms) \<Longrightarrow> findCycle ms = None \<longleftrightarrow> acyclic (depends ms)"
  by (simp only: findCycle_dfs dfs.find_None_iff module_deps_rel)

lemma plan_errors_Nil_iff: "plan_errors ms = [] \<longleftrightarrow> plan_graph_ok ms"
proof (cases "duplicate_errors [] ms @ unknown_errors ms = []")
  case True
  then have ok: "distinct (map pm_id ms)" "snd ` depends ms \<subseteq> pm_id ` set ms"
    by (simp_all add: duplicate_errors_Nil_iff unknown_errors_Nil_iff)
  have "plan_errors ms = [] \<longleftrightarrow> findCycle ms = None"
    using True by (simp add: plan_errors_def Let_def split: option.splits)
  with ok findCycle_None [OF ok(1)] show ?thesis by (simp add: plan_graph_ok_def)
next
  case False
  then show ?thesis
    by (auto simp: plan_errors_def Let_def plan_graph_ok_def duplicate_errors_Nil_iff
        unknown_errors_Nil_iff)
qed

text \<open>
  C36: \<^verbatim>\<open>validatePlan\<close> accepts a plan exactly when the schema accepts the input, the module
  identifiers are pairwise different, every dependency names a module of the plan, and the
  dependency relation is acyclic; it then returns the parsed plan unchanged.
\<close>

theorem validatePlan_accepts_iff:
  "validatePlan safeParse x = Inr plan \<longleftrightarrow> safeParse x = Inr plan \<and> plan_graph_ok (pc_modules plan)"
  by (auto simp: validatePlan_def Let_def plan_errors_Nil_iff split: sum.splits)

text \<open>What one reported error says of the modules.\<close>

definition error_true :: "plan_module list \<Rightarrow> plan_error \<Rightarrow> bool" where
  "error_true ms e \<longleftrightarrow>
     (\<exists>k. e = duplicate_error k \<and> 2 \<le> count_list (map pm_id ms) k)
     \<or> (\<exists>m d. m \<in> set ms \<and> d \<in> set (pm_dependencies m) \<and> d \<notin> pm_id ` set ms
          \<and> e = unknown_dependency_error (pm_id m) d)
     \<or> (\<exists>c. e = cycle_error c \<and> 2 \<le> length c \<and> hd c = last c
          \<and> successively (\<lambda>a b. (a, b) \<in> depends ms) c)"

lemma findCycle_Some:
  "distinct (map pm_id ms) \<Longrightarrow> findCycle ms = Some c \<Longrightarrow>
     2 \<le> length c \<and> hd c = last c \<and> successively (\<lambda>a b. (a, b) \<in> depends ms) c"
  using dfs.find_sound [of "module_deps ms" c]
  by (simp add: findCycle_dfs dep_cycle_def flip: module_deps_rel)

lemma plan_errors_true: "e \<in> set (plan_errors ms) \<Longrightarrow> error_true ms e"
proof -
  assume e: "e \<in> set (plan_errors ms)"
  show ?thesis
  proof (cases "duplicate_errors [] ms @ unknown_errors ms = []")
    case True
    with e obtain c where c: "findCycle ms = Some c" "e = cycle_error c"
      by (cases "findCycle ms") (auto simp: plan_errors_def)
    from True have "distinct (map pm_id ms)" by (simp add: duplicate_errors_Nil_iff)
    from findCycle_Some [OF this c(1)] c(2) show ?thesis by (auto simp: error_true_def)
  next
    case False
    with e have "e \<in> set (duplicate_errors [] ms) \<or> e \<in> set (unknown_errors ms)"
      by (simp add: plan_errors_def Let_def split: if_splits)
    then show ?thesis
      using duplicate_errors_sound [of e "[]" ms] unknown_errors_sound [of e ms]
      by (auto simp: error_true_def)
  qed
qed

text \<open>
  A plan that parses and is rejected comes back with at least one error, and every error is
  true of it: a duplicate error names an identifier that occurs twice, an unknown-dependency error
  names a module and a dependency of it that is no module, and a cycle error shows a closed path of
  dependencies.
\<close>

theorem validatePlan_errors_true:
  assumes "safeParse x = Inr plan" and "validatePlan safeParse x = Inl errors"
  shows "errors \<noteq> [] \<and> (\<forall>e \<in> set errors. error_true (pc_modules plan) e)"
  using assms by (auto simp: validatePlan_def Let_def plan_errors_true split: if_splits)

definition mk_module :: "ident \<Rightarrow> ident list \<Rightarrow> plan_module" where
  "mk_module k ds = \<lparr>pm_id = k, pm_title = ''t'', pm_description = ''d'', pm_deliverables = [''x''],
     pm_acceptance = [\<lparr>ac_id = ''a'', ac_statement = ''s'', ac_verification_type = VT_test,
                       ac_verification = ''v''\<rparr>],
     pm_dependencies = ds, pm_estimated_complexity = CX_S, pm_risk = RL_low,
     pm_execution = \<lparr>me_likely_paths = [], me_owned_components = [], me_test_commands = [],
                     me_environment_requirements = [], me_migration_required = False\<rparr>,
     pm_parallelization = \<lparr>mp_safe = False, mp_candidate_work_units = [], mp_shared_files = [],
                           mp_integration_owner_required = True\<rparr>,
     pm_inputs = [], pm_outputs = [], pm_open_decisions = []\<rparr>"

definition mk_plan :: "plan_module list \<Rightarrow> plan_contract" where
  "mk_plan ms = \<lparr>pc_objective = ''o'', pc_assumptions = [], pc_modules = ms, pc_risks = [],
     pc_out_of_scope = []\<rparr>"

theorem validatePlan_errors_true_witness:
  "validatePlan Inr (mk_plan [mk_module ''a'' [''b''], mk_module ''b'' [''a'']])
     = Inl [cycle_error [''a'', ''b'', ''a'']]
   \<and> error_true [mk_module ''a'' [''b''], mk_module ''b'' [''a'']] (cycle_error [''a'', ''b'', ''a''])"
proof -
  let ?p = "mk_plan [mk_module ''a'' [''b''], mk_module ''b'' [''a'']]"
  have 1: "validatePlan Inr ?p = Inl [cycle_error [''a'', ''b'', ''a'']]"
    by (simp add: validatePlan_def mk_plan_def mk_module_def plan_errors_def unknown_errors_def
        findCycle_def find_cycle_def module_deps_def deps_of_def slice_at_def)
  from validatePlan_errors_true [OF refl 1] 1 show ?thesis by (simp add: mk_plan_def)
qed

subsection \<open>A valid plan can always be worked on\<close>

lemma finite_depends: "finite (depends ms)"
proof -
  have "depends ms \<subseteq> (\<Union>m \<in> set ms. {pm_id m} \<times> set (pm_dependencies m))"
    by (auto simp: depends_def)
  then show ?thesis by (rule finite_subset) auto
qed

lemma plan_graph_ok_frontier:
  assumes ok: "plan_graph_ok ms" and m: "m \<in> set ms" "pm_id m \<notin> S"
  shows "\<exists>m' \<in> set ms. pm_id m' \<notin> S \<and> set (pm_dependencies m') \<subseteq> S"
proof -
  have "wf ((depends ms)\<inverse>)"
    using ok finite_depends [of ms] by (intro finite_acyclic_wf_converse) (auto simp: plan_graph_ok_def)
  moreover have "pm_id m \<in> pm_id ` set ms - S" using m by auto
  ultimately obtain k where k: "k \<in> pm_id ` set ms - S"
    "\<And>d. (d, k) \<in> (depends ms)\<inverse> \<Longrightarrow> d \<notin> pm_id ` set ms - S"
    by (rule wfE_min) blast
  from k(1) obtain m' where m': "m' \<in> set ms" "k = pm_id m'" "pm_id m' \<notin> S" by auto
  have "d \<in> S" if "d \<in> set (pm_dependencies m')" for d
  proof -
    from that m' have "(k, d) \<in> depends ms" by (auto simp: depends_def)
    with k(2) [of d] ok show ?thesis by (force simp: plan_graph_ok_def)
  qed
  with m' show ?thesis by auto
qed

end
