(* ===== verification/Models.thy ===== *)
theory Models
  imports Norns_Prelude
begin

section \<open>Providers and models\<close>

text \<open>
  \<^verbatim>\<open>packages/contracts/src/models.ts\<close>: the providers, their project-manager models, and the lookups
  between the two. A model identifier is a string, as on the wire; \<^verbatim>\<open>PmModel\<close> is the predicate that it
  is one of the listed ones.
\<close>

datatype provider = PV_anthropic | PV_openai | PV_deepseek

definition PmProvider_options :: "provider list" where
  "PmProvider_options = [PV_anthropic, PV_openai, PV_deepseek]"

datatype reasoning_effort = CE_minimal | CE_low | CE_medium | CE_high | CE_xhigh

definition DEFAULT_CODEX_REASONING_EFFORT :: reasoning_effort where
  "DEFAULT_CODEX_REASONING_EFFORT = CE_medium"

definition reasoningEffortForModel :: "string \<Rightarrow> reasoning_effort \<Rightarrow> reasoning_effort" where
  "reasoningEffortForModel model effort = (if effort = CE_minimal then CE_low else effort)"

fun provider_models :: "provider \<Rightarrow> string list" where
  "provider_models PV_anthropic =
     [''claude-fable-5'', ''claude-opus-4-8'', ''claude-sonnet-5'', ''claude-haiku-4-5-20251001'']"
| "provider_models PV_openai = [''gpt-5.6-sol'', ''gpt-5.6-terra'', ''gpt-5.6-luna'']"
| "provider_models PV_deepseek = [''deepseek-v4-pro'', ''deepseek-v4-flash'']"

definition PmModel :: "string \<Rightarrow> bool" where
  "PmModel m \<longleftrightarrow> (\<exists>p \<in> set PmProvider_options. m \<in> set (provider_models p))"

record pm_model_option =
  mo_id :: string
  mo_label :: string
  mo_description :: string

fun PM_MODEL_OPTIONS :: "provider \<Rightarrow> pm_model_option list" where
  "PM_MODEL_OPTIONS PV_anthropic =
     [\<lparr>mo_id = ''claude-fable-5'', mo_label = ''Claude Fable 5'',
       mo_description = ''Highest capability for complex plans and long-running agent work.''\<rparr>,
      \<lparr>mo_id = ''claude-opus-4-8'', mo_label = ''Claude Opus 4.8'',
       mo_description = ''Deep reasoning for complex coding and enterprise programs.''\<rparr>,
      \<lparr>mo_id = ''claude-sonnet-5'', mo_label = ''Claude Sonnet 5'',
       mo_description = ''Balanced speed and intelligence for most projects.''\<rparr>,
      \<lparr>mo_id = ''claude-haiku-4-5-20251001'', mo_label = ''Claude Haiku 4.5'',
       mo_description = ''Fast, economical planning for straightforward projects.''\<rparr>]"
| "PM_MODEL_OPTIONS PV_openai =
     [\<lparr>mo_id = ''gpt-5.6-sol'', mo_label = ''GPT-5.6 Sol'',
       mo_description = ''Flagship reasoning for the most complex professional work.''\<rparr>,
      \<lparr>mo_id = ''gpt-5.6-terra'', mo_label = ''GPT-5.6 Terra'',
       mo_description = ''Balanced intelligence and cost for most projects.''\<rparr>,
      \<lparr>mo_id = ''gpt-5.6-luna'', mo_label = ''GPT-5.6 Luna'',
       mo_description = ''Cost-efficient planning for simpler, high-volume work.''\<rparr>]"
| "PM_MODEL_OPTIONS PV_deepseek =
     [\<lparr>mo_id = ''deepseek-v4-pro'', mo_label = ''DeepSeek V4 Pro'',
       mo_description = ''Higher-capability DeepSeek planning for complex work.''\<rparr>,
      \<lparr>mo_id = ''deepseek-v4-flash'', mo_label = ''DeepSeek V4 Flash'',
       mo_description = ''Fast, cost-efficient DeepSeek planning for routine work.''\<rparr>]"

fun DEFAULT_PM_MODEL :: "provider \<Rightarrow> string" where
  "DEFAULT_PM_MODEL PV_anthropic = ''claude-fable-5''"
| "DEFAULT_PM_MODEL PV_openai = ''gpt-5.6-sol''"
| "DEFAULT_PM_MODEL PV_deepseek = ''deepseek-v4-pro''"

definition isPmModelForProvider :: "provider \<Rightarrow> string \<Rightarrow> bool" where
  "isPmModelForProvider p m \<longleftrightarrow> list_ex (\<lambda>opt. mo_id opt = m) (PM_MODEL_OPTIONS p)"

text \<open>\<^verbatim>\<open>None\<close> is the error \<^verbatim>\<open>model ... has no provider\<close>.\<close>

definition providerForPmModel :: "string \<Rightarrow> provider option" where
  "providerForPmModel m = find (\<lambda>p. isPmModelForProvider p m) PmProvider_options"

definition pmModelOption :: "string \<Rightarrow> pm_model_option option" where
  "pmModelOption m = find (\<lambda>opt. mo_id opt = m) (concat (map PM_MODEL_OPTIONS PmProvider_options))"

lemmas model_defs = PmProvider_options_def isPmModelForProvider_def providerForPmModel_def
  pmModelOption_def PmModel_def

text \<open>The model tables agree: each model belongs to one provider, whose default is one of its models.\<close>

lemma options_are_models: "map mo_id (PM_MODEL_OPTIONS p) = provider_models p"
  by (cases p) simp_all

lemma isPmModelForProvider_iff: "isPmModelForProvider p m \<longleftrightarrow> m \<in> set (provider_models p)"
  by (simp add: isPmModelForProvider_def list_ex_iff flip: options_are_models) force

lemma providerForPmModel_unique:
  assumes "PmModel m"
  shows "\<exists>p. providerForPmModel m = Some p \<and> (\<forall>q. isPmModelForProvider q m \<longleftrightarrow> q = p)"
proof -
  from assms obtain p where p: "m \<in> set (provider_models p)" by (auto simp: PmModel_def)
  have u: "m \<in> set (provider_models q) \<longleftrightarrow> q = p" for q
    using p by (cases p; cases q) auto
  then have "providerForPmModel m = Some p"
    by (cases p) (simp_all add: providerForPmModel_def PmProvider_options_def isPmModelForProvider_iff)
  with u show ?thesis by (auto simp: isPmModelForProvider_iff)
qed

lemma default_model_belongs: "isPmModelForProvider p (DEFAULT_PM_MODEL p)"
  by (cases p) (simp_all add: isPmModelForProvider_def)

lemma effort_is_supported: "reasoningEffortForModel m e \<noteq> CE_minimal"
  by (simp add: reasoningEffortForModel_def)

end
