(* ===== verification/Graph.thy ===== *)
theory Graph
  imports Lifecycle Plan Models
begin

section \<open>Editing the workflow graph\<close>

text \<open>
  \<^verbatim>\<open>apps/server/src/graph/graph.ts\<close>: the graph built from a plan, its version, the structural edits
  and their guards. \<^verbatim>\<open>removeNode\<close> in cascade mode calls itself on the dependents it has listed; the
  model carries the depth left as a number, whose exhaustion is the stack overflow of the runtime.
  The content hash of an assignment is a parameter of the session (theory \<^verbatim>\<open>Allocation\<close>).
\<close>

subsection \<open>Assignments and nodes\<close>

datatype assignment_source = AS_auto | AS_pm | AS_override

record node_assignment =
  na_provider :: provider
  na_model :: string
  na_reasoning_effort :: "reasoning_effort option"
  na_worker_count :: int
  na_reviewer_model :: string
  na_budget_usd :: usd
  na_rationale :: string
  na_source :: assignment_source

record graph_node =
  gn_id :: ident
  gn_title :: string
  gn_complexity :: complexity
  gn_risk :: risk_level
  gn_parallel_safe :: bool
  gn_dependencies :: "ident list"
  gn_assignment :: "node_assignment option"

record graph_snapshot =
  gs_version :: nat
  gs_nodes :: "graph_node list"

datatype graph_edit_error =
    GE_cycle "ident list"
  | GE_unknown_node ident
  | GE_duplicate_node ident
  | GE_has_dependents ident "ident list"
  | GE_node_started ident node_state
  | GE_duplicate_edge ident ident
  | RangeError

record workflow_graph =
  wg_nodes :: "(ident, graph_node) jmap"
  wg_version :: nat
  wg_executionStarted :: bool
  wg_stateOf :: "ident \<Rightarrow> node_state"

definition NOT_STARTED :: "node_state list" where
  "NOT_STARTED = [N_pending, N_ready]"

definition empty_graph :: workflow_graph where
  "empty_graph = \<lparr>wg_nodes = [], wg_version = 1, wg_executionStarted = False, wg_stateOf = (\<lambda>_. N_pending)\<rparr>"

definition node_of_module :: "plan_module \<Rightarrow> graph_node" where
  "node_of_module m = \<lparr>gn_id = pm_id m, gn_title = pm_title m, gn_complexity = pm_estimated_complexity m,
     gn_risk = pm_risk m, gn_parallel_safe = mp_safe (pm_parallelization m),
     gn_dependencies = pm_dependencies m, gn_assignment = None\<rparr>"

definition fromPlan :: "plan_contract \<Rightarrow> workflow_graph" where
  "fromPlan plan = empty_graph\<lparr>wg_nodes :=
     fold (\<lambda>m. jset (pm_id m) (node_of_module m)) (pc_modules plan) []\<rparr>"

definition attachStateLookup :: "(ident \<Rightarrow> node_state) \<Rightarrow> workflow_graph \<Rightarrow> workflow_graph" where
  "attachStateLookup f g = g\<lparr>wg_stateOf := f\<rparr>"

definition markExecutionStarted :: "workflow_graph \<Rightarrow> workflow_graph" where
  "markExecutionStarted g = g\<lparr>wg_executionStarted := True\<rparr>"

definition snapshot :: "workflow_graph \<Rightarrow> graph_snapshot" where
  "snapshot g = \<lparr>gs_version = wg_version g, gs_nodes = jvalues (wg_nodes g)\<rparr>"

definition restoreFrom :: "graph_snapshot \<Rightarrow> workflow_graph \<Rightarrow> workflow_graph" where
  "restoreFrom s g = g\<lparr>wg_nodes := fold (\<lambda>n. jset (gn_id n) n) (gs_nodes s) [], wg_version := gs_version s\<rparr>"

definition dependentsOf :: "ident \<Rightarrow> workflow_graph \<Rightarrow> ident list" where
  "dependentsOf k g = map gn_id (filter (\<lambda>n. k \<in> set (gn_dependencies n)) (jvalues (wg_nodes g)))"

subsection \<open>Internals\<close>

definition bump :: "workflow_graph \<Rightarrow> workflow_graph" where
  "bump g = g\<lparr>wg_version := wg_version g + 1\<rparr>"

definition requireNode :: "ident \<Rightarrow> (workflow_graph, graph_edit_error, graph_node) action" where
  "requireNode k g = (case jget (wg_nodes g) k of
       None \<Rightarrow> (Inl (GE_unknown_node k), g) | Some n \<Rightarrow> (Inr n, g))"

definition editable :: "workflow_graph \<Rightarrow> ident \<Rightarrow> bool" where
  "editable g k \<longleftrightarrow> \<not> wg_executionStarted g \<or> wg_stateOf g k \<in> set NOT_STARTED"

definition guardEditable :: "ident \<Rightarrow> (workflow_graph, graph_edit_error, unit) action" where
  "guardEditable k = guarding (\<lambda>g. editable g k) (\<lambda>g. GE_node_started k (wg_stateOf g k))"

definition graph_deps :: "workflow_graph \<Rightarrow> (ident, ident list) jmap" where
  "graph_deps g = map (\<lambda>(k, n). (k, gn_dependencies n)) (wg_nodes g)"

definition graph_findCycle :: "workflow_graph \<Rightarrow> ident list option" where
  "graph_findCycle g = find_cycle (graph_deps g) (jkeys (wg_nodes g))"

definition set_deps :: "ident \<Rightarrow> (ident list \<Rightarrow> ident list) \<Rightarrow> workflow_graph \<Rightarrow> workflow_graph" where
  "set_deps k f g = (case jget (wg_nodes g) k of
       None \<Rightarrow> g
     | Some n \<Rightarrow> g\<lparr>wg_nodes := jset k (n\<lparr>gn_dependencies := f (gn_dependencies n)\<rparr>) (wg_nodes g)\<rparr>)"

text \<open>\<^verbatim>\<open>[...new Set(xs)]\<close>: the first occurrence of each element, in order.\<close>

definition uniq :: "'a list \<Rightarrow> 'a list" where
  "uniq xs = rev (remdups (rev xs))"

subsection \<open>Structural edits\<close>

record node_input =
  ni_id :: ident
  ni_title :: string
  ni_complexity :: "complexity option"
  ni_risk :: "risk_level option"
  ni_dependencies :: "ident list option"

definition or_else :: "'a option \<Rightarrow> 'a \<Rightarrow> 'a" where
  "or_else x d = (case x of Some a \<Rightarrow> a | None \<Rightarrow> d)"

definition addNode :: "node_input \<Rightarrow> (workflow_graph, graph_edit_error, unit) action" where
  "addNode i =
     and_then (guarding (\<lambda>g. jget (wg_nodes g) (ni_id i) = None) (\<lambda>_. GE_duplicate_node (ni_id i))) (\<lambda>_.
     and_then (for_each (or_else (ni_dependencies i) []) (\<lambda>d. and_then (requireNode d) (\<lambda>_. returning ()))) (\<lambda>_.
     modifying (\<lambda>g. bump (g\<lparr>wg_nodes := jset (ni_id i)
       \<lparr>gn_id = ni_id i, gn_title = ni_title i, gn_complexity = or_else (ni_complexity i) CX_M,
        gn_risk = or_else (ni_risk i) RL_low, gn_parallel_safe = False,
        gn_dependencies = or_else (ni_dependencies i) [], gn_assignment = None\<rparr> (wg_nodes g)\<rparr>))))"

definition addEdge :: "ident \<Rightarrow> ident \<Rightarrow> (workflow_graph, graph_edit_error, unit) action" where
  "addEdge from dest =
     and_then (requireNode from) (\<lambda>_.
     and_then (requireNode dest) (\<lambda>target.
     and_then (guardEditable dest) (\<lambda>_.
     and_then (guarding (\<lambda>_. from \<notin> set (gn_dependencies target)) (\<lambda>_. GE_duplicate_edge from dest)) (\<lambda>_.
     and_then (modifying (set_deps dest (\<lambda>ds. ds @ [from]))) (\<lambda>_ g.
       case graph_findCycle g of
         Some c \<Rightarrow> (Inl (GE_cycle c), set_deps dest butlast g)
       | None \<Rightarrow> (Inr (), bump g))))))"

definition removeEdge :: "ident \<Rightarrow> ident \<Rightarrow> (workflow_graph, graph_edit_error, unit) action" where
  "removeEdge from dest =
     and_then (requireNode dest) (\<lambda>_.
     and_then (guardEditable dest) (\<lambda>_.
     modifying (\<lambda>g. bump (set_deps dest (filter (\<lambda>d. d \<noteq> from)) g))))"

datatype remove_mode = RM_reparent | RM_cascade

definition reparent_one :: "ident \<Rightarrow> graph_node \<Rightarrow> ident \<Rightarrow> (workflow_graph, graph_edit_error, unit) action" where
  "reparent_one k node dep =
     and_then (requireNode dep) (\<lambda>_.
     and_then (guardEditable dep) (\<lambda>_.
     modifying (set_deps dep (\<lambda>ds. uniq (filter (\<lambda>d. d \<noteq> k) ds @ gn_dependencies node)))))"

definition delete_node :: "ident \<Rightarrow> workflow_graph \<Rightarrow> workflow_graph" where
  "delete_node k g = bump (g\<lparr>wg_nodes := jdel k (wg_nodes g)\<rparr>)"

fun removeNode ::
    "nat \<Rightarrow> ident \<Rightarrow> remove_mode option \<Rightarrow> (workflow_graph, graph_edit_error, ident list) action"
  and remove_each ::
    "nat \<Rightarrow> ident list \<Rightarrow> (workflow_graph, graph_edit_error, ident list) action"
where
  "removeNode 0 k mode g = (Inl RangeError, g)"
| "removeNode (Suc depth) k mode g =
     and_then (requireNode k) (\<lambda>node.
     and_then (guardEditable k) (\<lambda>_ g.
       let dependents = dependentsOf k g in
       if dependents \<noteq> [] \<and> mode = None then (Inl (GE_has_dependents k dependents), g)
       else if mode = Some RM_cascade \<and> dependents \<noteq> [] then
         and_then (remove_each depth dependents) (\<lambda>removed.
         and_then (modifying (delete_node k)) (\<lambda>_. returning (removed @ [k]))) g
       else
         and_then (for_each dependents (reparent_one k node)) (\<lambda>_.
         and_then (modifying (delete_node k)) (\<lambda>_. returning [k])) g)) g"
| "remove_each depth [] g = (Inr [], g)"
| "remove_each depth (d # ds) g =
     (case removeNode depth d (Some RM_cascade) g of
        (Inl e, g') \<Rightarrow> (Inl e, g')
      | (Inr removed, g') \<Rightarrow>
          (case remove_each depth ds g' of
             (Inl e, g'') \<Rightarrow> (Inl e, g'')
           | (Inr rest, g'') \<Rightarrow> (Inr (removed @ rest), g'')))"

end
