(* ===== verification/Graph_Props.thy ===== *)
theory Graph_Props
  imports Graph Replay
begin

section \<open>Properties of graph editing\<close>

text \<open>
  Every edit, successful or rejected, keeps the graph a well-formed acyclic graph whose dependencies
  resolve, and never touches a node that has started executing.
\<close>

subsection \<open>The dependency relation of a graph\<close>

definition graph_rel :: "workflow_graph \<Rightarrow> (ident \<times> ident) set" where
  "graph_rel g = {(a, b). \<exists>n. jget (wg_nodes g) a = Some n \<and> b \<in> set (gn_dependencies n)}"

definition graph_ok :: "workflow_graph \<Rightarrow> bool" where
  "graph_ok g \<longleftrightarrow> jwf (wg_nodes g) \<and> (\<forall>k n. jget (wg_nodes g) k = Some n \<longrightarrow> gn_id n = k)
     \<and> (\<forall>a b. (a, b) \<in> graph_rel g \<longrightarrow> jget (wg_nodes g) b \<noteq> None) \<and> acyclic (graph_rel g)"

lemma graph_relI: "jget (wg_nodes g) a = Some n \<Longrightarrow> b \<in> set (gn_dependencies n) \<Longrightarrow> (a, b) \<in> graph_rel g"
  by (simp add: graph_rel_def)

lemma graph_ok_resolves: "graph_ok g \<Longrightarrow> (a, b) \<in> graph_rel g \<Longrightarrow> jget (wg_nodes g) b \<noteq> None"
  unfolding graph_ok_def by blast

lemma graph_deps_get: "jget (graph_deps g) k = map_option gn_dependencies (jget (wg_nodes g) k)"
  by (simp add: graph_deps_def map_of_map)

lemma graph_deps_rel: "dep_rel (graph_deps g) = graph_rel g"
proof -
  have "b \<in> set (deps_of (graph_deps g) a) \<longleftrightarrow> (a, b) \<in> graph_rel g" for a b
    by (cases "jget (wg_nodes g) a") (simp_all add: graph_rel_def deps_of_def graph_deps_get)
  then show ?thesis by auto
qed

lemma graph_deps_keys: "jkeys (graph_deps g) = jkeys (wg_nodes g)"
  by (induction "wg_nodes g") (auto simp: graph_deps_def)

lemma graph_findCycle_None: "graph_findCycle g = None \<longleftrightarrow> acyclic (graph_rel g)"
  unfolding graph_findCycle_def
  using dfs.find_None_iff [of "graph_deps g"] by (simp add: graph_deps_keys graph_deps_rel)

lemma graph_findCycle_Some:
  "graph_findCycle g = Some c \<Longrightarrow>
     2 \<le> length c \<and> hd c = last c \<and> successively (\<lambda>a b. (a, b) \<in> graph_rel g) c"
  using dfs.find_sound [of "graph_deps g" c]
  by (simp add: graph_findCycle_def graph_deps_keys dep_cycle_def flip: graph_deps_rel)

lemma set_deps_get:
  "jget (wg_nodes (set_deps k f g)) a =
     (case jget (wg_nodes g) a of
        None \<Rightarrow> None
      | Some n \<Rightarrow> Some (if a = k then n\<lparr>gn_dependencies := f (gn_dependencies n)\<rparr> else n))"
  by (auto simp: set_deps_def split: option.splits)

lemma set_deps_fields [simp]:
  "wg_version (set_deps k f g) = wg_version g"
  "wg_executionStarted (set_deps k f g) = wg_executionStarted g"
  "wg_stateOf (set_deps k f g) = wg_stateOf g"
  "jwf (wg_nodes (set_deps k f g)) = jwf (wg_nodes g)"
  by (simp_all add: set_deps_def jkeys_jset_existing split: option.splits)

lemma set_deps_rel:
  "jget (wg_nodes g) k = Some n \<Longrightarrow>
     graph_rel (set_deps k f g) = {(a, b). (a, b) \<in> graph_rel g \<and> a \<noteq> k} \<union> {k} \<times> set (f (gn_dependencies n))"
  by (auto simp: graph_rel_def set_deps_get split: option.splits if_splits)

lemma bump_fields [simp]:
  "wg_nodes (bump g) = wg_nodes g" "wg_executionStarted (bump g) = wg_executionStarted g"
  "wg_stateOf (bump g) = wg_stateOf g" "graph_rel (bump g) = graph_rel g" "graph_ok (bump g) = graph_ok g"
  by (simp_all add: bump_def graph_rel_def graph_ok_def)

text \<open>Replacing the dependencies of a known node.\<close>

lemma graph_ok_set_deps:
  assumes ok: "graph_ok g" and n: "jget (wg_nodes g) k = Some n"
    and res: "\<And>d. d \<in> set (f (gn_dependencies n)) \<Longrightarrow> jget (wg_nodes g) d \<noteq> None"
    and acyc: "acyclic (graph_rel (set_deps k f g))"
  shows "graph_ok (set_deps k f g)"
proof -
  have known: "jget (wg_nodes (set_deps k f g)) b = None \<longleftrightarrow> jget (wg_nodes g) b = None" for b
    by (simp add: set_deps_get split: option.splits)
  have "jget (wg_nodes g) b \<noteq> None" if "(a, b) \<in> graph_rel (set_deps k f g)" for a b
    using that ok res unfolding set_deps_rel [OF n] graph_ok_def by blast
  moreover have "gn_id m = a" if "jget (wg_nodes (set_deps k f g)) a = Some m" for a m
    using that ok by (auto simp: set_deps_get graph_ok_def split: option.splits if_splits)
  ultimately show ?thesis using ok acyc unfolding graph_ok_def known by simp
qed

lemma acyclic_trancl_subset: "acyclic r \<Longrightarrow> s \<subseteq> r\<^sup>+ \<Longrightarrow> acyclic s"
  unfolding acyclic_def by (metis trancl_mono trancl_id trans_trancl)

lemma acyclic_new_source:
  assumes "acyclic r" "k \<notin> Range (r \<union> {k} \<times> S)"
  shows "acyclic (r \<union> {k} \<times> S)"
proof -
  let ?s = "r \<union> {k} \<times> S"
  have "(a, b) \<in> r\<^sup>+" if "(a, b) \<in> ?s\<^sup>+" "a \<noteq> k" for a b
    using that
  proof (induction rule: trancl_induct)
    case (step y z)
    have "y \<in> Range ?s" using step.hyps(1) by (metis Range.intros tranclE)
    with assms(2) have "y \<noteq> k" by auto
    with step show ?case by auto
  qed auto
  moreover have "a \<noteq> k" if "(a, a) \<in> ?s\<^sup>+" for a
    using that assms(2) by (metis Range.intros tranclE)
  ultimately show ?thesis using assms(1) by (auto simp: acyclic_def)
qed

subsection \<open>Each edit keeps the graph well formed\<close>

lemma requireNode_keeps [norns_inv]: "keeps I (requireNode k)"
  by (rule keepsI) (simp add: requireNode_def split: option.splits)

lemma requireNode_result:
  "requireNode k g = (r, g') \<Longrightarrow> g' = g \<and> (\<forall>n. r = Inr n \<longrightarrow> jget (wg_nodes g) k = Some n)"
  by (auto simp: requireNode_def split: option.splits)

lemma require_all:
  "for_each ds (\<lambda>d. and_then (requireNode d) (\<lambda>_. returning ())) g = (r, g') \<Longrightarrow>
     g' = g \<and> (r = Inr () \<longrightarrow> (\<forall>d \<in> set ds. jget (wg_nodes g) d \<noteq> None))"
  by (induction ds) (auto simp: and_then_def requireNode_def split: option.splits)

lemma addNode_ok: "graph_ok g \<Longrightarrow> graph_ok (snd (addNode i g))"
proof -
  assume ok: "graph_ok g"
  let ?ds = "or_else (ni_dependencies i) []"
  obtain r g' where all: "for_each ?ds (\<lambda>d. and_then (requireNode d) (\<lambda>_. returning ())) g = (r, g')"
    by (cases "for_each ?ds (\<lambda>d. and_then (requireNode d) (\<lambda>_. returning ())) g")
  note req = require_all [OF all]
  show ?thesis
  proof (cases "jget (wg_nodes g) (ni_id i) = None \<and> r = Inr ()")
    case False
    with ok all req show ?thesis by (cases r) (auto simp: addNode_def method_simps)
  next
    case True
    define n where "n = \<lparr>gn_id = ni_id i, gn_title = ni_title i, gn_complexity = or_else (ni_complexity i) CX_M,
        gn_risk = or_else (ni_risk i) RL_low, gn_parallel_safe = False,
        gn_dependencies = or_else (ni_dependencies i) [], gn_assignment = None\<rparr>"
    let ?g = "g\<lparr>wg_nodes := jset (ni_id i) n (wg_nodes g)\<rparr>"
    have rel: "graph_rel ?g = graph_rel g \<union> {ni_id i} \<times> set ?ds"
      using True by (auto simp: graph_rel_def n_def split: if_splits)
    have "ni_id i \<notin> Range (graph_rel g \<union> {ni_id i} \<times> set ?ds)"
      using ok True req unfolding graph_ok_def by blast
    then have "acyclic (graph_rel ?g)" unfolding rel using ok by (intro acyclic_new_source) (simp add: graph_ok_def)
    moreover have "jget (wg_nodes ?g) b \<noteq> None" if "(a, b) \<in> graph_rel ?g" for a b
      using that ok True req unfolding rel graph_ok_def by auto
    ultimately have "graph_ok ?g" using ok by (simp add: graph_ok_def n_def)
    with True all req show ?thesis by (simp add: addNode_def method_simps n_def)
  qed
qed

lemma set_deps_undo:
  assumes "jget (wg_nodes g) k = Some n"
  shows "set_deps k butlast (set_deps k (\<lambda>ds. ds @ [x]) g) = g"
proof -
  have "jset k n (jset k n' m) = m" if "jget m k = Some n" for n' m
    using that by (induction m) (auto split: if_splits)
  with assms show ?thesis by (simp add: set_deps_def)
qed

lemma addEdge_result:
  assumes "graph_ok g"
  shows "case addEdge src dst g of
       (Inr _, g') \<Rightarrow> graph_rel g' = insert (dst, src) (graph_rel g) \<and> graph_ok g'
          \<and> wg_version g' = wg_version g + 1
     | (Inl (GE_cycle c), g') \<Rightarrow> g' = g \<and> \<not> acyclic (insert (dst, src) (graph_rel g))
          \<and> 2 \<le> length c \<and> hd c = last c
          \<and> successively (\<lambda>a b. (a, b) \<in> insert (dst, src) (graph_rel g)) c
     | (Inl _, g') \<Rightarrow> g' = g"
proof (cases "\<exists>n m. jget (wg_nodes g) src = Some m \<and> jget (wg_nodes g) dst = Some n \<and> editable g dst
    \<and> src \<notin> set (gn_dependencies n)")
  case False
  then have "(\<exists>e. addEdge src dst g = (Inl e, g) \<and> (\<forall>c. e \<noteq> GE_cycle c))"
    by (auto simp: addEdge_def method_simps requireNode_def guardEditable_def split: option.splits)
  then show ?thesis by (auto split: graph_edit_error.splits)
next
  case True
  then obtain n m where n: "jget (wg_nodes g) src = Some m" "jget (wg_nodes g) dst = Some n"
    "editable g dst" "src \<notin> set (gn_dependencies n)" by blast
  let ?g = "set_deps dst (\<lambda>ds. ds @ [src]) g"
  have rel: "graph_rel ?g = insert (dst, src) (graph_rel g)"
    unfolding set_deps_rel [OF n(2)] using n(2) by (auto simp: graph_rel_def)
  have eq: "addEdge src dst g = (case graph_findCycle ?g of
      Some c \<Rightarrow> (Inl (GE_cycle c), g) | None \<Rightarrow> (Inr (), bump ?g))"
    using n set_deps_undo [OF n(2), of src]
    by (simp add: addEdge_def method_simps requireNode_def guardEditable_def split: option.splits)
  show ?thesis
  proof (cases "graph_findCycle ?g")
    case None
    then have "acyclic (graph_rel ?g)" by (simp add: graph_findCycle_None)
    moreover have "jget (wg_nodes g) d \<noteq> None" if "d \<in> set (gn_dependencies n @ [src])" for d
      using that n(1) graph_ok_resolves [OF assms graph_relI [OF n(2), of d]] by auto
    ultimately have "graph_ok ?g" by (intro graph_ok_set_deps [OF assms n(2)]) simp_all
    moreover have "wg_version (bump ?g) = wg_version g + 1" by (simp add: bump_def)
    ultimately show ?thesis using None eq rel by simp
  next
    case (Some c)
    then have "\<not> acyclic (graph_rel ?g)" using graph_findCycle_None [of ?g] by simp
    with Some eq rel graph_findCycle_Some [OF Some] show ?thesis by simp
  qed
qed


text \<open>
  Adding an edge is atomic and keeps the graph acyclic. It is rejected for an unknown endpoint,
  a started target, or an edge that exists, and with a closed path of the extended graph exactly
  when the edge would close a cycle; a rejected call leaves the graph exactly as it was. Otherwise
  the graph gains that one edge and its version goes up by one.
\<close>

theorem addEdge_atomic:
  assumes "graph_ok g"
  shows "case addEdge src dst g of
       (Inr _, g') \<Rightarrow> graph_rel g' = insert (dst, src) (graph_rel g) \<and> graph_ok g'
          \<and> wg_version g' = wg_version g + 1
     | (Inl (GE_cycle c), g') \<Rightarrow> g' = g \<and> \<not> acyclic (insert (dst, src) (graph_rel g))
          \<and> 2 \<le> length c \<and> hd c = last c
          \<and> successively (\<lambda>a b. (a, b) \<in> insert (dst, src) (graph_rel g)) c
     | (Inl _, g') \<Rightarrow> g' = g"
  using assms by (rule addEdge_result)

definition edge_graph :: workflow_graph where
  "edge_graph = fromPlan (mk_plan [mk_module ''a'' [], mk_module ''b'' [''a'']])"

lemma fromPlan_get:
  "distinct (map pm_id (pc_modules plan)) \<Longrightarrow>
     jget (wg_nodes (fromPlan plan)) k = map_option node_of_module (find_first (\<lambda>m. pm_id m = k) (pc_modules plan))"
proof -
  have "distinct (map pm_id ms) \<Longrightarrow> jget (fold (\<lambda>m. jset (pm_id m) (node_of_module m)) ms acc) k =
      (case List.find (\<lambda>m. pm_id m = k) ms of Some m \<Rightarrow> Some (node_of_module m) | None \<Rightarrow> jget acc k)" for ms acc
  proof (induction ms arbitrary: acc)
    case (Cons m ms)
    have "List.find (\<lambda>x. pm_id x = pm_id m) ms = None"
      using Cons.prems by (simp add: find_None_iff) (metis imageI)
    with Cons show ?case by (auto split: option.splits)
  qed simp
  moreover assume "distinct (map pm_id (pc_modules plan))"
  ultimately show ?thesis
    by (simp add: fromPlan_def empty_graph_def find_first_def split: option.splits)
qed

lemma fromPlan_rel:
  assumes d: "distinct (map pm_id (pc_modules plan))"
  shows "graph_rel (fromPlan plan) = depends (pc_modules plan)"
proof -
  have "(a, b) \<in> graph_rel (fromPlan plan) \<longleftrightarrow> (a, b) \<in> depends (pc_modules plan)" for a b
  proof (cases "List.find (\<lambda>m. pm_id m = a) (pc_modules plan)")
    case None
    then have "\<forall>m \<in> set (pc_modules plan). pm_id m \<noteq> a" by (auto simp: find_None_iff)
    with None d show ?thesis by (auto simp: graph_rel_def fromPlan_get find_first_def depends_def)
  next
    case (Some m)
    then have m: "m \<in> set (pc_modules plan)" "pm_id m = a" by (auto simp: find_Some_iff)
    have "(a, b) \<in> depends (pc_modules plan) \<longleftrightarrow> b \<in> set (pm_dependencies m)"
      using d m by (auto simp: depends_def distinct_map dest: inj_onD)
    with Some d show ?thesis by (simp add: graph_rel_def fromPlan_get find_first_def node_of_module_def)
  qed
  then show ?thesis by auto
qed

lemma fromPlan_ok: "plan_graph_ok (pc_modules plan) \<Longrightarrow> graph_ok (fromPlan plan)"
proof -
  assume ok: "plan_graph_ok (pc_modules plan)"
  then have d: "distinct (map pm_id (pc_modules plan))" by (simp add: plan_graph_ok_def)
  have wf: "jwf (wg_nodes (fromPlan plan))"
  proof -
    have "jwf acc \<Longrightarrow> jwf (fold (\<lambda>m. jset (pm_id m) (node_of_module m)) ms acc)" for ms acc
      by (induction ms arbitrary: acc) auto
    from this [of "[]" "pc_modules plan"] show ?thesis by (simp add: fromPlan_def)
  qed
  have "gn_id n = k" if "jget (wg_nodes (fromPlan plan)) k = Some n" for k n
    using that by (auto simp: fromPlan_get [OF d] find_first_def node_of_module_def find_Some_iff)
  moreover have "jget (wg_nodes (fromPlan plan)) b \<noteq> None" if "(a, b) \<in> graph_rel (fromPlan plan)" for a b
  proof -
    from that ok have "b \<in> pm_id ` set (pc_modules plan)"
      unfolding fromPlan_rel [OF d] plan_graph_ok_def by force
    then show ?thesis by (auto simp: fromPlan_get [OF d] find_first_def find_None_iff)
  qed
  ultimately show ?thesis
    using ok wf unfolding graph_ok_def fromPlan_rel [OF d] by (simp add: plan_graph_ok_def)
qed

theorem addEdge_atomic_witness:
  "\<exists>c. addEdge ''b'' ''a'' edge_graph = (Inl (GE_cycle c), edge_graph) \<and> hd c = last c
     \<and> \<not> acyclic (insert (''a'', ''b'') (graph_rel edge_graph))"
proof -
  have "plan_graph_ok (pc_modules (mk_plan [mk_module ''a'' [], mk_module ''b'' [''a'']]))"
    unfolding plan_errors_Nil_iff [symmetric] by code_simp
  then have ok: "graph_ok edge_graph" unfolding edge_graph_def by (rule fromPlan_ok)
  have "map_prod (\<lambda>r. case r of Inl (GE_cycle c) \<Rightarrow> Some c | _ \<Rightarrow> None) wg_version (addEdge ''b'' ''a'' edge_graph)
      = (Some [''a'', ''b'', ''a''], 1)" by code_simp
  then obtain g' where "addEdge ''b'' ''a'' edge_graph = (Inl (GE_cycle [''a'', ''b'', ''a'']), g')"
    by (cases "addEdge ''b'' ''a'' edge_graph") (auto split: sum.splits graph_edit_error.splits)
  with addEdge_atomic [OF ok, where src = "''b''" and dst = "''a''"] show ?thesis by simp
qed

subsection \<open>Removing edges and nodes\<close>

lemma addEdge_ok: "graph_ok g \<Longrightarrow> graph_ok (snd (addEdge a b g))"
  using addEdge_result [of g b a]
  by (cases "addEdge a b g") (auto split: sum.splits graph_edit_error.splits)

lemma set_deps_smaller:
  assumes "graph_ok g" and "\<And>ds. set (f ds) \<subseteq> set ds"
  shows "graph_ok (set_deps k f g)"
proof (cases "jget (wg_nodes g) k")
  case None
  with assms(1) show ?thesis by (simp add: set_deps_def)
next
  case (Some n)
  have "graph_rel (set_deps k f g) \<subseteq> graph_rel g"
    unfolding set_deps_rel [OF Some] using assms(2) graph_relI [OF Some] by auto
  then have "acyclic (graph_rel (set_deps k f g))"
    using assms(1) by (auto simp: graph_ok_def intro: acyclic_subset)
  moreover have "jget (wg_nodes g) d \<noteq> None" if "d \<in> set (f (gn_dependencies n))" for d
    using that assms(2) graph_ok_resolves [OF assms(1) graph_relI [OF Some]] by blast
  ultimately show ?thesis by (intro graph_ok_set_deps [OF assms(1) Some])
qed

lemma removeEdge_ok: "graph_ok g \<Longrightarrow> graph_ok (snd (removeEdge a b g))"
  using set_deps_smaller [of g "filter (\<lambda>d. d \<noteq> a)" b]
  by (simp add: removeEdge_def method_simps requireNode_def guardEditable_def split: option.splits)

lemma set_uniq [simp]: "set (uniq xs) = set xs"
  by (simp add: uniq_def)

lemma dependentsOf_set:
  "graph_ok g \<Longrightarrow> set (dependentsOf k g) = {a. (a, k) \<in> graph_rel g} \<and> distinct (dependentsOf k g)"
proof
  assume ok: "graph_ok g"
  then have wf: "jwf (wg_nodes g)" and ids: "\<And>a n. jget (wg_nodes g) a = Some n \<Longrightarrow> gn_id n = a"
    by (auto simp: graph_ok_def)
  have keys: "map gn_id (jvalues (wg_nodes g)) = jkeys (wg_nodes g)"
    using ids jget_of_mem [OF wf] by (auto simp: map_eq_conv)
  show "distinct (dependentsOf k g)"
    unfolding dependentsOf_def using wf keys by (metis distinct_map_filter)
  show "set (dependentsOf k g) = {a. (a, k) \<in> graph_rel g}"
  proof (intro set_eqI iffI)
    fix a assume "a \<in> set (dependentsOf k g)"
    then obtain k' n where "(k', n) \<in> set (wg_nodes g)" "k \<in> set (gn_dependencies n)" "gn_id n = a"
      by (auto simp: dependentsOf_def)
    with jget_of_mem [OF wf] ids show "a \<in> {a. (a, k) \<in> graph_rel g}" by (force simp: graph_rel_def)
  next
    fix a assume "a \<in> {a. (a, k) \<in> graph_rel g}"
    then obtain n where "jget (wg_nodes g) a = Some n" "k \<in> set (gn_dependencies n)"
      by (auto simp: graph_rel_def)
    with ids jget_mem show "a \<in> set (dependentsOf k g)" by (force simp: dependentsOf_def)
  qed
qed

text \<open>Reparenting one dependent replaces an edge by its two-step shortcuts.\<close>

lemma reparent_step:
  assumes ok: "graph_ok g" and k: "jget (wg_nodes g) k = Some node" and dep: "(d, k) \<in> graph_rel g"
  shows "graph_ok (set_deps d (\<lambda>ds. uniq (filter (\<lambda>x. x \<noteq> k) ds @ gn_dependencies node)) g)"
    and "(a, k) \<in> graph_rel (set_deps d (\<lambda>ds. uniq (filter (\<lambda>x. x \<noteq> k) ds @ gn_dependencies node)) g)
      \<longleftrightarrow> (a, k) \<in> graph_rel g \<and> a \<noteq> d"
    and "d \<noteq> k"
proof -
  let ?f = "\<lambda>ds. uniq (filter (\<lambda>x. x \<noteq> k) ds @ gn_dependencies node)"
  from dep obtain n where n: "jget (wg_nodes g) d = Some n" by (auto simp: graph_rel_def)
  have acyc: "acyclic (graph_rel g)" using ok by (simp add: graph_ok_def)
  show "d \<noteq> k" using dep acyc by (auto simp: acyclic_def)
  have kk: "(k, k) \<notin> graph_rel g" using acyc by (auto simp: acyclic_def)
  note rel = set_deps_rel [OF n, of ?f]
  have "graph_rel (set_deps d ?f g) \<subseteq> (graph_rel g)\<^sup>+"
  proof -
    have "(d, b) \<in> (graph_rel g)\<^sup>+" if "b \<in> set (gn_dependencies node)" for b
      using dep graph_relI [OF k that] by (meson trancl.intros)
    then show ?thesis unfolding rel using graph_relI [OF n] by auto
  qed
  then have "acyclic (graph_rel (set_deps d ?f g))" by (rule acyclic_trancl_subset [OF acyc])
  moreover have "jget (wg_nodes g) b \<noteq> None" if "b \<in> set (?f (gn_dependencies n))" for b
    using that graph_ok_resolves [OF ok graph_relI [OF k]] graph_ok_resolves [OF ok graph_relI [OF n]]
    by auto
  ultimately show "graph_ok (set_deps d ?f g)" by (intro graph_ok_set_deps [OF ok n])
  have "k \<notin> set (gn_dependencies node)" using kk graph_relI [OF k] by blast
  then show "(a, k) \<in> graph_rel (set_deps d ?f g) \<longleftrightarrow> (a, k) \<in> graph_rel g \<and> a \<noteq> d"
    unfolding rel by auto
qed

lemma reparent_one_cases:
  obtains e where "reparent_one k node d g = (Inl e, g)"
  | "reparent_one k node d g =
       (Inr (), set_deps d (\<lambda>ds. uniq (filter (\<lambda>x. x \<noteq> k) ds @ gn_dependencies node)) g)"
  by (cases "jget (wg_nodes g) d"; cases "editable g d")
    (auto simp: reparent_one_def method_simps requireNode_def guardEditable_def)

lemma reparent_loop:
  assumes "graph_ok g" "jget (wg_nodes g) k = Some node" "distinct ds" "\<And>d. d \<in> set ds \<Longrightarrow> (d, k) \<in> graph_rel g"
    and "for_each ds (reparent_one k node) g = (r, g')"
  shows "graph_ok g' \<and> (r = Inr () \<longrightarrow> (\<forall>a. (a, k) \<in> graph_rel g' \<longleftrightarrow> (a, k) \<in> graph_rel g \<and> a \<notin> set ds))"
  using assms
proof (induction ds arbitrary: g)
  case (Cons d ds)
  let ?g = "set_deps d (\<lambda>ds. uniq (filter (\<lambda>x. x \<noteq> k) ds @ gn_dependencies node)) g"
  have dk: "(d, k) \<in> graph_rel g" using Cons.prems(4) by simp
  note step = reparent_step [OF Cons.prems(1,2) dk]
  show ?case
  proof (cases rule: reparent_one_cases [of k node d g])
    case (1 e)
    with Cons.prems show ?thesis by (auto simp: and_then_def)
  next
    case 2
    have "jget (wg_nodes ?g) k = Some node"
      using Cons.prems(2) step(3) by (simp add: set_deps_get)
    moreover have "for_each ds (reparent_one k node) ?g = (r, g')"
      using Cons.prems(5) 2 by (simp add: and_then_def)
    ultimately have "graph_ok g' \<and> (r = Inr () \<longrightarrow> (\<forall>a. (a, k) \<in> graph_rel g' \<longleftrightarrow> (a, k) \<in> graph_rel ?g \<and> a \<notin> set ds))"
      using Cons.prems(3,4) step by (intro Cons.IH) auto
    with step(2) show ?thesis by auto
  qed
qed simp

lemma delete_node_get [simp]: "jget (wg_nodes (delete_node k g)) a = (if a = k then None else jget (wg_nodes g) a)"
  by (simp add: delete_node_def)

lemma delete_node_fields [simp]:
  "wg_executionStarted (delete_node k g) = wg_executionStarted g" "wg_stateOf (delete_node k g) = wg_stateOf g"
  by (simp_all add: delete_node_def)

lemma delete_node_ok:
  assumes ok: "graph_ok g" and none: "\<And>a. (a, k) \<in> graph_rel g \<Longrightarrow> a = k"
  shows "graph_ok (delete_node k g)"
proof -
  have rel: "graph_rel (delete_node k g) = {(a, b). (a, b) \<in> graph_rel g \<and> a \<noteq> k}"
    by (auto simp: graph_rel_def split: if_splits)
  have "acyclic (graph_rel (delete_node k g))"
    using ok unfolding rel graph_ok_def by (auto intro: acyclic_subset)
  moreover have "jget (wg_nodes (delete_node k g)) b \<noteq> None" if "(a, b) \<in> graph_rel (delete_node k g)" for a b
    using that none graph_ok_resolves [OF ok, of a b] unfolding rel by auto
  moreover have "jwf (wg_nodes (delete_node k g))" using ok by (simp add: graph_ok_def delete_node_def)
  moreover have "gn_id n = a" if "jget (wg_nodes (delete_node k g)) a = Some n" for a n
    using that ok unfolding graph_ok_def by (auto split: if_splits)
  ultimately show ?thesis unfolding graph_ok_def by blast
qed

text \<open>A cascade only removes nodes.\<close>

definition pruned :: "workflow_graph \<Rightarrow> workflow_graph \<Rightarrow> bool" where
  "pruned g g' \<longleftrightarrow> (\<forall>a. jget (wg_nodes g') a = None \<or> jget (wg_nodes g') a = jget (wg_nodes g) a)"

lemma pruned_refl [simp]: "pruned g g"
  by (simp add: pruned_def)

lemma pruned_trans: "pruned g h \<Longrightarrow> pruned h i \<Longrightarrow> pruned g i"
  unfolding pruned_def by metis

lemma pruned_rel: "pruned g g' \<Longrightarrow> (a, b) \<in> graph_rel g' \<Longrightarrow> (a, b) \<in> graph_rel g"
proof -
  assume p: "pruned g g'" and "(a, b) \<in> graph_rel g'"
  then obtain n where n: "jget (wg_nodes g') a = Some n" "b \<in> set (gn_dependencies n)"
    by (auto simp: graph_rel_def)
  have "jget (wg_nodes g') a = None \<or> jget (wg_nodes g') a = jget (wg_nodes g) a"
    using p unfolding pruned_def by blast
  with n have "jget (wg_nodes g) a = Some n" by auto
  then show ?thesis using n(2) by (rule graph_relI)
qed

lemma pruned_delete: "pruned g g' \<Longrightarrow> pruned g (delete_node k g')"
  by (simp add: pruned_def)

lemma removeNode_Suc:
  "removeNode (Suc depth) k mode g =
     (case jget (wg_nodes g) k of
        None \<Rightarrow> (Inl (GE_unknown_node k), g)
      | Some node \<Rightarrow>
          if \<not> editable g k then (Inl (GE_node_started k (wg_stateOf g k)), g)
          else if dependentsOf k g \<noteq> [] \<and> mode = None then
            (Inl (GE_has_dependents k (dependentsOf k g)), g)
          else if mode = Some RM_cascade \<and> dependentsOf k g \<noteq> [] then
            (case remove_each depth (dependentsOf k g) g of
               (Inl e, g') \<Rightarrow> (Inl e, g')
             | (Inr removed, g') \<Rightarrow> (Inr (removed @ [k]), delete_node k g'))
          else
            (case for_each (dependentsOf k g) (reparent_one k node) g of
               (Inl e, g') \<Rightarrow> (Inl e, g')
             | (Inr _, g') \<Rightarrow> (Inr [k], delete_node k g')))"
  by (auto simp: method_simps requireNode_def guardEditable_def Let_def
      split: option.splits prod.splits sum.splits)

declare removeNode.simps(2) [simp del]

lemma cascade_ok:
  "graph_ok g \<Longrightarrow> removeNode depth k (Some RM_cascade) g = (r, g') \<Longrightarrow>
     graph_ok g' \<and> pruned g g' \<and> (\<forall>x. r = Inr x \<longrightarrow> jget (wg_nodes g') k = None)"
  "graph_ok g \<Longrightarrow> remove_each depth ds g = (r', g') \<Longrightarrow>
     graph_ok g' \<and> pruned g g' \<and> (\<forall>x. r' = Inr x \<longrightarrow> (\<forall>d \<in> set ds. jget (wg_nodes g') d = None))"
proof (induction depth k "Some RM_cascade" g and depth ds g arbitrary: r g' and r' g'
    rule: removeNode_remove_each.induct)
  case (1 k g)
  then show ?case by auto
next
  case (2 depth k g)
  note deps = dependentsOf_set [OF "2.prems"(1), of k]
  show ?case
  proof (cases "jget (wg_nodes g) k = None \<or> \<not> editable g k")
    case True
    with "2.prems" show ?thesis by (auto simp: removeNode_Suc split: option.splits if_splits)
  next
    case False
    then obtain node where node: "jget (wg_nodes g) k = Some node" and ed: "editable g k" by auto
    show ?thesis
    proof (cases "dependentsOf k g = []")
      case True
      then have "r = Inr [k]" "g' = delete_node k g"
        using "2.prems"(2) node ed by (simp_all add: removeNode_Suc)
      with "2.prems"(1) deps True show ?thesis by (auto intro!: delete_node_ok pruned_delete)
    next
      case nonempty: False
      obtain r1 g1 where e: "remove_each depth (dependentsOf k g) g = (r1, g1)"
        by (cases "remove_each depth (dependentsOf k g) g")
      have IH: "graph_ok g1 \<and> pruned g g1 \<and> (\<forall>x. r1 = Inr x \<longrightarrow> (\<forall>d \<in> set (dependentsOf k g). jget (wg_nodes g1) d = None))"
        by (rule "2.hyps" [OF refl _ _ "2.prems"(1) e]) (use nonempty in auto)
      show ?thesis
      proof (cases r1)
        case (Inl err)
        with "2.prems"(2) node ed nonempty e IH show ?thesis by (auto simp: removeNode_Suc)
      next
        case (Inr xs)
        then have r: "g' = delete_node k g1" using "2.prems"(2) node ed nonempty e by (simp add: removeNode_Suc)
        have "a = k" if "(a, k) \<in> graph_rel g1" for a
          using that IH Inr deps pruned_rel [of g g1 a k] by (force simp: graph_rel_def)
        with IH r show ?thesis by (auto intro!: delete_node_ok pruned_delete)
      qed
    qed
  qed
next
  case (3 depth g)
  then show ?case by simp
next
  case (4 depth d ds g)
  obtain r1 g1 where e: "removeNode depth d (Some RM_cascade) g = (r1, g1)"
    by (cases "removeNode depth d (Some RM_cascade) g")
  have IH1: "graph_ok g1 \<and> pruned g g1 \<and> (\<forall>x. r1 = Inr x \<longrightarrow> jget (wg_nodes g1) d = None)"
    by (rule "4.hyps"(1) [OF "4.prems"(1) e])
  show ?case
  proof (cases r1)
    case (Inl err)
    with "4.prems"(2) e IH1 show ?thesis by auto
  next
    case (Inr xs)
    obtain r2 g2 where e2: "remove_each depth ds g1 = (r2, g2)" by (cases "remove_each depth ds g1")
    have IH2: "graph_ok g2 \<and> pruned g1 g2 \<and> (\<forall>x. r2 = Inr x \<longrightarrow> (\<forall>d \<in> set ds. jget (wg_nodes g2) d = None))"
      by (rule "4.hyps"(2) [of r1 g1]) (use e Inr IH1 e2 in auto)
    have "jget (wg_nodes g2) d = None" using IH1 IH2 Inr by (auto simp: pruned_def)
    then show ?thesis
      using "4.prems"(2) e Inr e2 IH1 IH2 pruned_trans [of g g1 g2] by (cases r2) auto
  qed
qed

lemma removeNode_ok: "graph_ok g \<Longrightarrow> graph_ok (snd (removeNode depth k mode g))"
proof (cases "mode = Some RM_cascade \<or> depth = 0")
  case True
  assume ok: "graph_ok g"
  show ?thesis
    using True cascade_ok(1) [OF ok, of depth k "fst (removeNode depth k mode g)" "snd (removeNode depth k mode g)"] ok
    by (cases "depth = 0") auto
next
  case False
  assume ok: "graph_ok g"
  note deps = dependentsOf_set [OF ok, of k]
  from False obtain depth' where d: "depth = Suc depth'" by (cases depth) auto
  show ?thesis
  proof (cases "jget (wg_nodes g) k")
    case None
    with ok d show ?thesis by (simp add: removeNode_Suc)
  next
    case (Some node)
    obtain r g' where loop: "for_each (dependentsOf k g) (reparent_one k node) g = (r, g')"
      by (cases "for_each (dependentsOf k g) (reparent_one k node) g")
    have post: "graph_ok g' \<and> (r = Inr () \<longrightarrow> (\<forall>a. (a, k) \<in> graph_rel g' \<longleftrightarrow> (a, k) \<in> graph_rel g \<and> a \<notin> set (dependentsOf k g)))"
      by (rule reparent_loop [OF ok Some _ _ loop]) (use deps in auto)
    then have "graph_ok (delete_node k g')" if "r = Inr ()"
      using that deps by (intro delete_node_ok) auto
    with ok post d Some loop False show ?thesis
      by (cases r) (auto simp: removeNode_Suc)
  qed
qed

subsection \<open>A graph driven by edits\<close>

datatype graph_call =
    GC_addNode node_input
  | GC_addEdge ident ident
  | GC_removeEdge ident ident
  | GC_removeNode nat ident "remove_mode option"
  | GC_markExecutionStarted
  | GC_attachStateLookup "ident \<Rightarrow> node_state"

fun do_graph_call :: "graph_call \<Rightarrow> workflow_graph \<Rightarrow> workflow_graph" where
  "do_graph_call (GC_addNode i) g = snd (addNode i g)"
| "do_graph_call (GC_addEdge a b) g = snd (addEdge a b g)"
| "do_graph_call (GC_removeEdge a b) g = snd (removeEdge a b g)"
| "do_graph_call (GC_removeNode depth k mode) g = snd (removeNode depth k mode g)"
| "do_graph_call GC_markExecutionStarted g = markExecutionStarted g"
| "do_graph_call (GC_attachStateLookup f) g = attachStateLookup f g"

lemma graph_ok_cong: "wg_nodes g' = wg_nodes g \<Longrightarrow> graph_ok g' = graph_ok g"
  by (simp only: graph_ok_def graph_rel_def)

lemma graph_ok_flags:
  "graph_ok (markExecutionStarted g) = graph_ok g" "graph_ok (attachStateLookup f g) = graph_ok g"
  by (rule graph_ok_cong; simp add: markExecutionStarted_def attachStateLookup_def)+

interpretation graph: object_invariant do_graph_call "\<lambda>c g. True" graph_ok
proof
  fix c g assume "graph_ok g"
  then show "graph_ok (do_graph_call c g)"
    by (cases c) (simp_all add: addNode_ok addEdge_ok removeEdge_ok removeNode_ok graph_ok_flags)
qed

text \<open>
  C37: Whatever sequence of edits is applied to the graph of a valid plan, successful and rejected
  ones, in any mode of removal, the graph stays acyclic, every dependency names an existing node,
  and the nodes are stored under their own identifiers.
\<close>

theorem graph_edits_keep_wellformed:
  assumes "validatePlan safeParse x = Inr plan"
  shows "graph_ok (fold do_graph_call calls (fromPlan plan))"
proof -
  have "plan_graph_ok (pc_modules plan)"
    using assms by (auto simp: validatePlan_def Let_def plan_errors_Nil_iff split: sum.splits if_splits)
  then have "graph_ok (fromPlan plan)" by (rule fromPlan_ok)
  then show ?thesis using graph.calls_keep [of calls] by (simp add: obeys_stateless list_all_iff)
qed

theorem graph_edits_keep_wellformed_witness:
  "graph_ok (fold do_graph_call [GC_addEdge ''b'' ''a'', GC_removeNode 5 ''a'' (Some RM_reparent)] edge_graph)"
proof -
  have "validatePlan Inr (mk_plan [mk_module ''a'' [], mk_module ''b'' [''a'']])
      = Inr (mk_plan [mk_module ''a'' [], mk_module ''b'' [''a'']])" by code_simp
  then show ?thesis unfolding edge_graph_def by (rule graph_edits_keep_wellformed)
qed

subsection \<open>Started nodes are frozen\<close>

definition frozen :: "ident \<Rightarrow> graph_node option \<Rightarrow> (ident \<Rightarrow> node_state) \<Rightarrow> workflow_graph \<Rightarrow> bool" where
  "frozen a v f g \<longleftrightarrow> jget (wg_nodes g) a = v \<and> wg_executionStarted g \<and> wg_stateOf g = f
     \<and> f a \<notin> set NOT_STARTED"

lemma frozen_not_editable: "frozen a v f g \<Longrightarrow> editable g k \<Longrightarrow> a \<noteq> k"
  by (auto simp: frozen_def editable_def)

lemma keeps_guarding_then:
  "(\<And>s. I s \<Longrightarrow> P s \<Longrightarrow> I (snd (f () s))) \<Longrightarrow> keeps I (and_then (guarding P e) f)"
  by (auto simp: keeps_def method_simps)

lemma frozen_set_deps: "frozen a v f g \<Longrightarrow> a \<noteq> k \<Longrightarrow> frozen a v f (set_deps k h g)"
  by (auto simp: frozen_def set_deps_get split: option.splits)

lemma frozen_bump [simp]: "frozen a v f (bump g) = frozen a v f g"
  by (simp add: frozen_def)

lemma frozen_delete: "frozen a v f g \<Longrightarrow> a \<noteq> k \<Longrightarrow> frozen a v f (delete_node k g)"
  by (simp add: frozen_def)

lemma frozen_reparent: "keeps (frozen a v f) (reparent_one k node d)"
  unfolding reparent_one_def guardEditable_def
  by (intro norns_inv keeps_guarding_then) (auto dest: frozen_not_editable intro: frozen_set_deps)

lemma frozen_addEdge: "keeps (frozen a v f) (addEdge s d)"
  unfolding addEdge_def guardEditable_def
  by (intro norns_inv keeps_guarding_then)
    (auto simp: method_simps dest: frozen_not_editable intro!: frozen_set_deps split: option.splits)

lemma frozen_removeEdge: "keeps (frozen a v f) (removeEdge s d)"
  unfolding removeEdge_def guardEditable_def
  by (intro norns_inv keeps_guarding_then) (auto dest: frozen_not_editable intro: frozen_set_deps)

lemma frozen_addNode: "keeps (frozen a (Some n) f) (addNode i)"
  unfolding addNode_def
proof (rule keeps_guarding_then)
  fix g assume fr: "frozen a (Some n) f g" and new: "jget (wg_nodes g) (ni_id i) = None"
  obtain r g' where all: "for_each (or_else (ni_dependencies i) []) (\<lambda>d. and_then (requireNode d) (\<lambda>_. returning ())) g = (r, g')"
    by (cases "for_each (or_else (ni_dependencies i) []) (\<lambda>d. and_then (requireNode d) (\<lambda>_. returning ())) g")
  have "a \<noteq> ni_id i" using fr new by (auto simp: frozen_def)
  with fr all require_all [OF all]
  show "frozen a (Some n) f (snd (and_then (for_each (or_else (ni_dependencies i) [])
      (\<lambda>d. and_then (requireNode d) (\<lambda>_. returning ()))) (\<lambda>_. modifying (\<lambda>g. bump (g\<lparr>wg_nodes := jset (ni_id i)
       \<lparr>gn_id = ni_id i, gn_title = ni_title i, gn_complexity = or_else (ni_complexity i) CX_M,
        gn_risk = or_else (ni_risk i) RL_low, gn_parallel_safe = False,
        gn_dependencies = or_else (ni_dependencies i) [], gn_assignment = None\<rparr> (wg_nodes g)\<rparr>))) g))"
    by (cases r) (auto simp: and_then_def frozen_def)
qed

lemma frozen_removeNode:
  "frozen a v f g \<Longrightarrow> frozen a v f (snd (removeNode depth k mode g))"
  "frozen a v f g \<Longrightarrow> frozen a v f (snd (remove_each depth ds g))"
proof (induction depth k mode g and depth ds g rule: removeNode_remove_each.induct)
  case (2 depth k mode g)
  show ?case
  proof (cases "editable g k")
    case False
    with 2 show ?thesis by (simp add: removeNode_Suc split: option.splits)
  next
    case True
    then have ak: "a \<noteq> k" using "2.prems" by (rule frozen_not_editable [rotated])
    have "keeps (frozen a v f) (for_each (dependentsOf k g) (reparent_one k node))" for node
      by (rule keeps_for_each) (rule frozen_reparent)
    then have loop: "frozen a v f (snd (for_each (dependentsOf k g) (reparent_one k node) g))" for node
      using "2.prems" by (simp add: keeps_def)
    have each: "frozen a v f (snd (remove_each depth (dependentsOf k g) g))"
      if "mode = Some RM_cascade" "dependentsOf k g \<noteq> []" using that 2 by auto
    show ?thesis
      using "2.prems" loop each ak
      by (auto simp: removeNode_Suc split: option.splits prod.splits sum.splits intro!: frozen_delete)
        (metis snd_conv)+
  qed
qed (auto split: prod.splits sum.splits)

fun structural :: "graph_call \<Rightarrow> bool" where
  "structural GC_markExecutionStarted = False"
| "structural (GC_attachStateLookup f) = False"
| "structural _ = True"

lemma frozen_call: "structural c \<Longrightarrow> frozen a (Some n) f g \<Longrightarrow> frozen a (Some n) f (do_graph_call c g)"
  using frozen_addNode [of a n f] frozen_addEdge [of a "Some n" f] frozen_removeEdge [of a "Some n" f]
    frozen_removeNode(1) [of a "Some n" f g]
  by (cases c) (auto simp: keeps_def)

text \<open>
  Once execution has started, no edit changes or removes a node that has left \<^verbatim>\<open>pending\<close> and
  \<^verbatim>\<open>ready\<close>: through any sequence of structural edits, cascading and reparenting removals included,
  the record of a started node stays exactly what it was.
\<close>

theorem started_nodes_frozen:
  assumes "list_all structural calls" and "jget (wg_nodes g) k = Some n"
    and "wg_executionStarted g" and "wg_stateOf g k \<notin> {N_pending, N_ready}"
  shows "jget (wg_nodes (fold do_graph_call calls g)) k = Some n"
proof -
  have "frozen k (Some n) (wg_stateOf g) (fold do_graph_call calls g)"
    if "frozen k (Some n) (wg_stateOf g) h" for h
    using assms(1)
  proof (induction calls rule: rev_induct)
    case Nil
    then show ?case using assms by (simp add: frozen_def NOT_STARTED_def)
  qed (simp add: frozen_call)
  then show ?thesis using assms by (simp add: frozen_def NOT_STARTED_def)
qed

theorem started_nodes_frozen_witness:
  "\<exists>n. jget (wg_nodes edge_graph) ''b'' = Some n
     \<and> jget (wg_nodes (fold do_graph_call [GC_removeNode 3 ''a'' (Some RM_cascade)]
          (edge_graph\<lparr>wg_executionStarted := True, wg_stateOf := (\<lambda>_. N_running)\<rparr>))) ''b'' = Some n"
proof -
  let ?g = "edge_graph\<lparr>wg_executionStarted := True, wg_stateOf := (\<lambda>_. N_running)\<rparr>"
  have n: "jget (wg_nodes edge_graph) ''b'' = Some (node_of_module (mk_module ''b'' [''a'']))" by code_simp
  have "jget (wg_nodes (fold do_graph_call [GC_removeNode 3 ''a'' (Some RM_cascade)] ?g)) ''b''
      = Some (node_of_module (mk_module ''b'' [''a'']))"
    by (rule started_nodes_frozen) (use n in simp_all)
  with n show ?thesis by blast
qed

subsection \<open>Cascades end\<close>

definition above :: "workflow_graph \<Rightarrow> ident \<Rightarrow> ident set" where
  "above g k = {a. (a, k) \<in> (graph_rel g)\<^sup>+}"

lemma above_nodes: "above g k \<subseteq> fst ` set (wg_nodes g)"
proof
  fix a assume "a \<in> above g k"
  then obtain b where "(a, b) \<in> graph_rel g" unfolding above_def by (auto dest: tranclD)
  then show "a \<in> fst ` set (wg_nodes g)" by (force simp: graph_rel_def dest: jget_mem)
qed

lemma finite_above [simp]: "finite (above g k)"
  using above_nodes by (rule finite_subset) simp

lemma above_dependent:
  assumes "graph_ok g" "(d, k) \<in> graph_rel g"
  shows "card (above g d) < card (above g k)"
proof (rule psubset_card_mono)
  have "d \<in> above g k" "d \<notin> above g d" "above g d \<subseteq> above g k"
    using assms by (auto simp: above_def graph_ok_def acyclic_def)
  then show "above g d \<subset> above g k" by blast
qed simp

lemma above_pruned: "pruned g g' \<Longrightarrow> card (above g' k) \<le> card (above g k)"
proof -
  assume p: "pruned g g'"
  then have "graph_rel g' \<subseteq> graph_rel g" using pruned_rel by auto
  then have "above g' k \<subseteq> above g k" by (auto simp: above_def intro: trancl_mono)
  then show ?thesis by (intro card_mono finite_above)
qed

lemma reparent_no_overflow: "fst (for_each ds (reparent_one k node) g) \<noteq> Inl RangeError"
proof (induction ds arbitrary: g)
  case (Cons d ds)
  show ?case
  proof (cases "jget (wg_nodes g) d = None \<or> \<not> editable g d")
    case True
    then show ?thesis
      by (auto simp: reparent_one_def method_simps requireNode_def guardEditable_def split: option.splits)
  next
    case False
    with Cons show ?thesis by (auto simp: reparent_one_def method_simps requireNode_def guardEditable_def)
  qed
qed simp

lemma removal_depth:
  "graph_ok g \<Longrightarrow> card (above g k) < depth \<Longrightarrow> fst (removeNode depth k mode g) \<noteq> Inl RangeError"
  "graph_ok g \<Longrightarrow> (\<And>d. d \<in> set ds \<Longrightarrow> card (above g d) < depth) \<Longrightarrow>
     fst (remove_each depth ds g) \<noteq> Inl RangeError"
proof (induction depth k mode g and depth ds g rule: removeNode_remove_each.induct)
  case (2 depth k mode g)
  have "card (above g d) < depth" if "d \<in> set (dependentsOf k g)" for d
    using above_dependent [OF "2.prems"(1), of d k] dependentsOf_set [OF "2.prems"(1), of k] that "2.prems"(2)
    by auto
  then have "fst (remove_each depth (dependentsOf k g) g) \<noteq> Inl RangeError"
    if "mode = Some RM_cascade" "dependentsOf k g \<noteq> []" using that 2 by auto
  moreover have "fst (for_each (dependentsOf k g) (reparent_one k node) g) \<noteq> Inl RangeError" for node
    by (rule reparent_no_overflow)
  ultimately show ?case
    by (auto simp: removeNode_Suc split: option.splits prod.splits sum.splits) (metis fst_conv)+
next
  case (4 depth d ds g)
  obtain r1 g1 where e: "removeNode depth d (Some RM_cascade) g = (r1, g1)"
    by (cases "removeNode depth d (Some RM_cascade) g")
  have r1: "r1 \<noteq> Inl RangeError" using 4 e by auto
  have ok: "graph_ok g1" "pruned g g1" using cascade_ok(1) [OF "4.prems"(1) e] by auto
  have "card (above g1 d') < depth" if "d' \<in> set ds" for d'
    using above_pruned [OF ok(2), of d'] "4.prems"(2) [of d'] that by auto
  then have "fst (remove_each depth ds g1) \<noteq> Inl RangeError" if "\<exists>x. r1 = Inr x" using 4 e ok that by auto
  with r1 e show ?case by (auto split: prod.splits sum.splits)
qed auto

text \<open>
  Removing a node always ends. On a well-formed graph a recursion as deep as the number of nodes
  plus one is enough for every mode, the cascade over shared dependents included: the call returns
  or throws one of the editing errors.
\<close>

theorem removeNode_terminates:
  assumes "graph_ok g" and "length (wg_nodes g) < depth"
  shows "fst (removeNode depth k mode g) \<noteq> Inl RangeError"
proof -
  have "card (above g k) \<le> card (fst ` set (wg_nodes g))" by (intro card_mono above_nodes) simp
  also have "\<dots> \<le> length (wg_nodes g)" by (metis card_length length_map list.set_map)
  finally show ?thesis using assms by (intro removal_depth) auto
qed

theorem removeNode_terminates_witness:
  "fst (removeNode 3 ''a'' (Some RM_cascade) edge_graph) \<noteq> Inl RangeError"
proof -
  have "plan_graph_ok (pc_modules (mk_plan [mk_module ''a'' [], mk_module ''b'' [''a'']]))"
    unfolding plan_errors_Nil_iff [symmetric] by code_simp
  then have ok: "graph_ok edge_graph" unfolding edge_graph_def by (rule fromPlan_ok)
  have "length (wg_nodes edge_graph) < 3" by code_simp
  with ok show ?thesis by (rule removeNode_terminates)
qed

definition triangle :: workflow_graph where
  "triangle = fromPlan (mk_plan [mk_module ''a'' [], mk_module ''b'' [''a''], mk_module ''c'' [''a'', ''b'']])"

text \<open>
  A cascade over a shared dependent fails halfway. When \<^verbatim>\<open>c\<close> depends on \<^verbatim>\<open>a\<close> and on \<^verbatim>\<open>b\<close>, and
  \<^verbatim>\<open>b\<close> depends on \<^verbatim>\<open>a\<close>, removing \<^verbatim>\<open>a\<close> in cascade mode removes \<^verbatim>\<open>c\<close> below \<^verbatim>\<open>b\<close>, then \<^verbatim>\<open>b\<close>, and
  then throws \<^verbatim>\<open>unknown_node\<close> for \<^verbatim>\<open>c\<close>: \<^verbatim>\<open>a\<close> stays, its dependents are gone, and the version has
  moved twice.
\<close>

theorem removeNode_cascade_fails_halfway:
  "fst (removeNode 4 ''a'' (Some RM_cascade) triangle) = Inl (GE_unknown_node ''c'')
   \<and> jkeys (wg_nodes (snd (removeNode 4 ''a'' (Some RM_cascade) triangle))) = [''a'']
   \<and> wg_version (snd (removeNode 4 ''a'' (Some RM_cascade) triangle)) = wg_version triangle + 2"
  by code_simp

end
