(* ===== verification/Allocation.thy ===== *)
theory Allocation
  imports Graph_Props
begin

section \<open>Allocation of the graph and the approval session\<close>

text \<open>
  \<^verbatim>\<open>apps/server/src/graph/allocation.ts\<close> and \<^verbatim>\<open>session.ts\<close>: rule-based recommendations, the application
  of a project manager's recommendations, human overrides, the cost preview, the approval that
  hashes what was shown, and the session that decides whether an approval is still current.
  Parameters: \<^verbatim>\<open>num\<close> prints a number in a template string, \<^verbatim>\<open>cmp\<close> is \<^verbatim>\<open>localeCompare\<close>, and the two
  hashes stand for SHA-256 of the JSON text of their argument.
\<close>

subsection \<open>The assignment schema\<close>

definition NodeAssignment_ok :: "node_assignment \<Rightarrow> bool" where
  "NodeAssignment_ok a \<longleftrightarrow> nonempty_str (na_model a) \<and> 1 \<le> na_worker_count a \<and> na_worker_count a \<le> 3
     \<and> nonempty_str (na_reviewer_model a) \<and> 0 < na_budget_usd a \<and> nonempty_str (na_rationale a)"

datatype allocation_error =
    ZodError
  | AL_not_recommended ident
  | AL_unallocated "ident list"
  | AL_unknown_node ident

definition parse_assignment :: "node_assignment \<Rightarrow> allocation_error + node_assignment" where
  "parse_assignment a = (if NodeAssignment_ok a then Inr a else Inl ZodError)"

subsection \<open>Recommendations\<close>

datatype allocation_strategy = ST_quality | ST_balanced | ST_cost

fun BASE_BUDGET_USD :: "complexity \<Rightarrow> usd" where
  "BASE_BUDGET_USD CX_S = 20"
| "BASE_BUDGET_USD CX_M = 50"
| "BASE_BUDGET_USD CX_L = 120"
| "BASE_BUDGET_USD CX_XL = 250"

fun RISK_MULTIPLIER :: "risk_level \<Rightarrow> usd" where
  "RISK_MULTIPLIER RL_low = 1"
| "RISK_MULTIPLIER RL_medium = 5 / 4"
| "RISK_MULTIPLIER RL_high = 3 / 2"
| "RISK_MULTIPLIER RL_critical = 2"

fun STRATEGY_BUDGET_FACTOR :: "allocation_strategy \<Rightarrow> usd" where
  "STRATEGY_BUDGET_FACTOR ST_quality = 3 / 2"
| "STRATEGY_BUDGET_FACTOR ST_balanced = 1"
| "STRATEGY_BUDGET_FACTOR ST_cost = 3 / 5"

definition REVIEWER_MODEL :: string where
  "REVIEWER_MODEL = ''openai-reasoning-default''"

definition PILOT_WORKER_CAP :: int where
  "PILOT_WORKER_CAP = 2"

fun strategy_str :: "allocation_strategy \<Rightarrow> string" where
  "strategy_str ST_quality = ''quality''"
| "strategy_str ST_balanced = ''balanced''"
| "strategy_str ST_cost = ''cost''"

fun complexity_str :: "complexity \<Rightarrow> string" where
  "complexity_str CX_S = ''S''"
| "complexity_str CX_M = ''M''"
| "complexity_str CX_L = ''L''"
| "complexity_str CX_XL = ''XL''"

fun risk_str :: "risk_level \<Rightarrow> string" where
  "risk_str RL_low = ''low''"
| "risk_str RL_medium = ''medium''"
| "risk_str RL_high = ''high''"
| "risk_str RL_critical = ''critical''"

definition modelFor :: "allocation_strategy \<Rightarrow> complexity \<Rightarrow> string" where
  "modelFor s c =
     (if s = ST_quality then ''claude-opus-4-8''
      else if s = ST_cost then (if c = CX_S then ''claude-haiku-4-5'' else ''claude-sonnet-5'')
      else if c = CX_L \<or> c = CX_XL then ''claude-opus-4-8'' else ''claude-sonnet-5'')"

text \<open>\<^verbatim>\<open>Math.round\<close> rounds half up; two decimals.\<close>

definition round_cents :: "usd \<Rightarrow> usd" where
  "round_cents x = of_int \<lfloor>x * 100 + 1 / 2\<rfloor> / 100"

definition recommend ::
  "(usd \<Rightarrow> string) \<Rightarrow> graph_node \<Rightarrow> allocation_strategy \<Rightarrow> allocation_error + node_assignment" where
  "recommend num node strategy =
     (let budget = round_cents (BASE_BUDGET_USD (gn_complexity node) * RISK_MULTIPLIER (gn_risk node)
                     * STRATEGY_BUDGET_FACTOR strategy);
          workers = (if gn_parallel_safe node \<and> (gn_complexity node = CX_XL \<or> gn_complexity node = CX_L)
                     then PILOT_WORKER_CAP else 1);
          model = modelFor strategy (gn_complexity node)
      in parse_assignment
           \<lparr>na_provider = PV_anthropic, na_model = model, na_reasoning_effort = None,
            na_worker_count = workers, na_reviewer_model = REVIEWER_MODEL, na_budget_usd = budget,
            na_rationale = strategy_str strategy @ '' strategy: complexity '' @ complexity_str (gn_complexity node)
              @ CHR '' '' # CHR 0xD7 # '' risk '' @ risk_str (gn_risk node) @ '' -> '' @ model @ '', ''
              @ num (of_int workers) @ '' worker(s), $'' @ num budget @ '' budget; reviewed by ''
              @ REVIEWER_MODEL @ '' (cross-provider).'',
            na_source = AS_auto\<rparr>)"

definition set_assignment :: "ident \<Rightarrow> node_assignment \<Rightarrow> workflow_graph \<Rightarrow> workflow_graph" where
  "set_assignment k a g = (case jget (wg_nodes g) k of
       None \<Rightarrow> g | Some n \<Rightarrow> g\<lparr>wg_nodes := jset k (n\<lparr>gn_assignment := Some a\<rparr>) (wg_nodes g)\<rparr>)"

definition overridden :: "graph_node \<Rightarrow> bool" where
  "overridden n \<longleftrightarrow> (case gn_assignment n of Some a \<Rightarrow> na_source a = AS_override | None \<Rightarrow> False)"

definition autoAllocate_node ::
  "(usd \<Rightarrow> string) \<Rightarrow> allocation_strategy \<Rightarrow> graph_node \<Rightarrow> (workflow_graph, allocation_error, unit) action" where
  "autoAllocate_node num strategy node g =
     (case jget (wg_nodes g) (gn_id node) of
        None \<Rightarrow> (Inr (), g)
      | Some rec \<Rightarrow>
          if overridden rec then (Inr (), g)
          else case recommend num rec strategy of
                 Inl e \<Rightarrow> (Inl e, g)
               | Inr a \<Rightarrow> (Inr (), set_assignment (gn_id node) a g))"

definition autoAllocate ::
  "(usd \<Rightarrow> string) \<Rightarrow> allocation_strategy \<Rightarrow> (workflow_graph, allocation_error, unit) action" where
  "autoAllocate num strategy g = for_each (gs_nodes (snapshot g)) (autoAllocate_node num strategy) g"

subsection \<open>Recommendations of the project manager, overrides\<close>

record pm_recommendation =
  pr_node_id :: ident
  pr_provider :: provider
  pr_model :: string
  pr_reasoning_effort :: "reasoning_effort option"
  pr_worker_count :: int
  pr_reviewer_model :: string
  pr_budget_usd :: usd
  pr_rationale :: string

definition assignment_of_pm :: "pm_recommendation \<Rightarrow> node_assignment" where
  "assignment_of_pm r = \<lparr>na_provider = pr_provider r, na_model = pr_model r,
     na_reasoning_effort = pr_reasoning_effort r, na_worker_count = pr_worker_count r,
     na_reviewer_model = pr_reviewer_model r, na_budget_usd = pr_budget_usd r,
     na_rationale = pr_rationale r, na_source = AS_pm\<rparr>"

definition applyPm_node ::
  "(ident, pm_recommendation) jmap \<Rightarrow> graph_node \<Rightarrow> (workflow_graph, allocation_error, unit) action" where
  "applyPm_node byNode node g =
     (case jget (wg_nodes g) (gn_id node) of
        None \<Rightarrow> (Inr (), g)
      | Some rec \<Rightarrow>
          if overridden rec then (Inr (), g)
          else case jget byNode (gn_id node) of
                 None \<Rightarrow> (Inl (AL_not_recommended (gn_id node)), g)
               | Some r \<Rightarrow>
                   (case parse_assignment (assignment_of_pm r) of
                      Inl e \<Rightarrow> (Inl e, g)
                    | Inr a \<Rightarrow> (Inr (), set_assignment (gn_id node) a g)))"

definition applyPmAllocation ::
  "pm_recommendation list \<Rightarrow> (workflow_graph, allocation_error, unit) action" where
  "applyPmAllocation recs g =
     (let byNode = fold (\<lambda>r. jset (pr_node_id r) r) recs [] in
      for_each (gs_nodes (snapshot g)) (applyPm_node byNode) g)"

text \<open>The patch of an override: a field that is not given keeps its value.\<close>

record assignment_patch =
  ap_provider :: "provider option"
  ap_model :: "string option"
  ap_reasoning_effort :: "reasoning_effort option option"
  ap_worker_count :: "int option"
  ap_reviewer_model :: "string option"
  ap_budget_usd :: "usd option"
  ap_rationale :: "string option"

definition patched :: "node_assignment \<Rightarrow> assignment_patch \<Rightarrow> node_assignment" where
  "patched b p = \<lparr>na_provider = or_else (ap_provider p) (na_provider b),
     na_model = or_else (ap_model p) (na_model b),
     na_reasoning_effort = or_else (ap_reasoning_effort p) (na_reasoning_effort b),
     na_worker_count = or_else (ap_worker_count p) (na_worker_count b),
     na_reviewer_model = or_else (ap_reviewer_model p) (na_reviewer_model b),
     na_budget_usd = or_else (ap_budget_usd p) (na_budget_usd b),
     na_rationale = or_else (ap_rationale p) (na_rationale b), na_source = AS_override\<rparr>"

definition overrideAssignment ::
  "(usd \<Rightarrow> string) \<Rightarrow> ident \<Rightarrow> assignment_patch
     \<Rightarrow> (workflow_graph, allocation_error, node_assignment) action" where
  "overrideAssignment num k patch g =
     (case jget (wg_nodes g) k of
        None \<Rightarrow> (Inl (AL_unknown_node k), g)
      | Some rec \<Rightarrow>
          (case (case gn_assignment rec of Some a \<Rightarrow> Inr a | None \<Rightarrow> recommend num rec ST_balanced) of
             Inl e \<Rightarrow> (Inl e, g)
           | Inr base \<Rightarrow>
               (case parse_assignment (patched base patch) of
                  Inl e \<Rightarrow> (Inl e, g)
                | Inr next \<Rightarrow> (Inr next, set_assignment k next g))))"

subsection \<open>Preview and approval\<close>

record cost_preview =
  cp_total_usd :: usd
  cp_per_node :: "(ident \<times> usd option) list"
  cp_unallocated :: "ident list"

definition costPreview :: "workflow_graph \<Rightarrow> cost_preview" where
  "costPreview g =
     (let perNode = map (\<lambda>n. (gn_id n, map_option na_budget_usd (gn_assignment n))) (gs_nodes (snapshot g)) in
      \<lparr>cp_total_usd = round_cents (sum_list (map (\<lambda>p. or_else (snd p) 0) perNode)),
       cp_per_node = perNode,
       cp_unallocated = map fst (filter (\<lambda>p. snd p = None) perNode)\<rparr>)"

text \<open>Stable insertion sort by a comparison function, as \<^verbatim>\<open>Array.prototype.sort\<close> orders.\<close>

fun insert_by :: "('a \<Rightarrow> 'a \<Rightarrow> int) \<Rightarrow> 'a \<Rightarrow> 'a list \<Rightarrow> 'a list" where
  "insert_by cmp x [] = [x]"
| "insert_by cmp x (y # ys) = (if cmp x y \<le> 0 then x # y # ys else y # insert_by cmp x ys)"

definition sort_by :: "('a \<Rightarrow> 'a \<Rightarrow> int) \<Rightarrow> 'a list \<Rightarrow> 'a list" where
  "sort_by cmp xs = foldr (insert_by cmp) xs []"

text \<open>The default order of strings: by code units.\<close>

fun code_unit_compare :: "string \<Rightarrow> string \<Rightarrow> int" where
  "code_unit_compare [] [] = 0"
| "code_unit_compare [] (c # cs) = -1"
| "code_unit_compare (c # cs) [] = 1"
| "code_unit_compare (c # cs) (d # ds) =
     (if (of_char c :: nat) < of_char d then -1
      else if (of_char d :: nat) < of_char c then 1 else code_unit_compare cs ds)"

record canonical_node =
  cn_id :: ident
  cn_dependencies :: "ident list"
  cn_assignment :: "node_assignment option"

record canonical_allocation =
  ca_graph_version :: nat
  ca_nodes :: "canonical_node list"
  ca_total_usd :: usd

definition canonical_of :: "(ident \<Rightarrow> ident \<Rightarrow> int) \<Rightarrow> workflow_graph \<Rightarrow> canonical_allocation" where
  "canonical_of cmp g =
     \<lparr>ca_graph_version = wg_version g,
      ca_nodes = map (\<lambda>n. \<lparr>cn_id = gn_id n, cn_dependencies = sort_by code_unit_compare (gn_dependencies n),
                           cn_assignment = gn_assignment n\<rparr>)
                   (sort_by (\<lambda>a b. cmp (gn_id a) (gn_id b)) (gs_nodes (snapshot g))),
      ca_total_usd = cp_total_usd (costPreview g)\<rparr>"

record allocation_approval =
  aa_id :: ident
  aa_actor :: string
  aa_approved_at :: string
  aa_content_hash :: string

definition approveAllocation ::
  "(ident \<Rightarrow> ident \<Rightarrow> int) \<Rightarrow> (canonical_allocation \<Rightarrow> string) \<Rightarrow> ident \<Rightarrow> string \<Rightarrow> string \<Rightarrow> workflow_graph
     \<Rightarrow> allocation_error + allocation_approval" where
  "approveAllocation cmp hash new_id now actor g =
     (if cp_unallocated (costPreview g) \<noteq> [] then Inl (AL_unallocated (cp_unallocated (costPreview g)))
      else Inr \<lparr>aa_id = new_id, aa_actor = actor, aa_approved_at = now,
                aa_content_hash = hash (canonical_of cmp g)\<rparr>)"

definition allocationFingerprint ::
  "(ident \<Rightarrow> ident \<Rightarrow> int) \<Rightarrow> ((ident \<times> node_assignment option) list \<Rightarrow> string) \<Rightarrow> workflow_graph \<Rightarrow> string" where
  "allocationFingerprint cmp hash g =
     hash (map (\<lambda>n. (gn_id n, gn_assignment n))
       (sort_by (\<lambda>a b. cmp (gn_id a) (gn_id b)) (jvalues (wg_nodes g))))"

subsection \<open>The session\<close>

record approval_record =
  ar_content_hash :: string
  ar_graph_version :: nat
  ar_allocation_fingerprint :: string
  ar_actor :: string
  ar_approved_at :: string

record graph_session =
  se_graph :: workflow_graph
  se_plan :: plan_contract
  se_approvalRecord :: "approval_record option"

record approval_status =
  as_content_hash :: string
  as_approved_at :: string
  as_actor :: string
  as_current :: bool

definition new_session :: "plan_contract \<Rightarrow> graph_session" where
  "new_session plan = \<lparr>se_graph = fromPlan plan, se_plan = plan, se_approvalRecord = None\<rparr>"

definition session_recordApproval ::
  "(workflow_graph \<Rightarrow> string) \<Rightarrow> allocation_approval \<Rightarrow> graph_session \<Rightarrow> graph_session" where
  "session_recordApproval fingerprint a s = s\<lparr>se_approvalRecord := Some
     \<lparr>ar_content_hash = aa_content_hash a, ar_graph_version = wg_version (se_graph s),
      ar_allocation_fingerprint = fingerprint (se_graph s), ar_actor = aa_actor a,
      ar_approved_at = aa_approved_at a\<rparr>\<rparr>"

definition approvalStatus :: "(workflow_graph \<Rightarrow> string) \<Rightarrow> graph_session \<Rightarrow> approval_status option" where
  "approvalStatus fingerprint s = (case se_approvalRecord s of
       None \<Rightarrow> None
     | Some r \<Rightarrow> Some \<lparr>as_content_hash = ar_content_hash r, as_approved_at = ar_approved_at r,
         as_actor = ar_actor r,
         as_current = (ar_graph_version r = wg_version (se_graph s)
           \<and> ar_allocation_fingerprint r = fingerprint (se_graph s))\<rparr>)"

definition restoreApproval :: "approval_record option \<Rightarrow> graph_session \<Rightarrow> graph_session" where
  "restoreApproval r s = s\<lparr>se_approvalRecord := r\<rparr>"

definition loadPlan ::
  "('i \<Rightarrow> schema_issue list + plan_contract) \<Rightarrow> 'i \<Rightarrow> (graph_session, plan_error list, unit) action" where
  "loadPlan safeParse x s =
     (case validatePlan safeParse x of
        Inl errors \<Rightarrow> (Inl errors, s)
      | Inr plan \<Rightarrow> (Inr (), s\<lparr>se_plan := plan, se_graph := restoreFrom (snapshot (fromPlan plan)) (se_graph s),
                              se_approvalRecord := None\<rparr>))"

definition demo_module ::
  "ident \<Rightarrow> string \<Rightarrow> complexity \<Rightarrow> risk_level \<Rightarrow> ident list \<Rightarrow> bool \<Rightarrow> plan_module" where
  "demo_module k title c r deps parallelSafe =
     \<lparr>pm_id = k, pm_title = title, pm_description = title, pm_deliverables = [k @ '' deliverable''],
      pm_acceptance = [\<lparr>ac_id = ''AC-1'', ac_statement = k @ '' acceptance passes'',
                        ac_verification_type = VT_command, ac_verification = ''pnpm test''\<rparr>],
      pm_dependencies = deps, pm_estimated_complexity = c, pm_risk = r,
      pm_execution = \<lparr>me_likely_paths = [], me_owned_components = [], me_test_commands = [],
                      me_environment_requirements = [], me_migration_required = False\<rparr>,
      pm_parallelization = \<lparr>mp_safe = parallelSafe,
        mp_candidate_work_units = (if parallelSafe then [''unit-a'', ''unit-b''] else []),
        mp_shared_files = [], mp_integration_owner_required = True\<rparr>,
      pm_inputs = [], pm_outputs = [], pm_open_decisions = []\<rparr>"

definition DEMO_PLAN :: plan_contract where
  "DEMO_PLAN = \<lparr>pc_objective = ''Demo: build the TheNorns pilot service'', pc_assumptions = [],
     pc_modules =
      [demo_module ''contracts'' ''Shared contracts'' CX_M RL_medium [] False,
       demo_module ''db-schema'' ''Database schema'' CX_M RL_low [''contracts''] False,
       demo_module ''auth'' ''Authentication'' CX_S RL_critical [''contracts''] False,
       demo_module ''api-core'' ''Core API'' CX_L RL_medium [''db-schema'', ''auth''] False,
       demo_module ''worker-queue'' ''Worker queue'' CX_M RL_high [''db-schema''] False,
       demo_module ''integration-layer'' ''Integration layer'' CX_XL RL_high [''api-core'', ''worker-queue''] True,
       demo_module ''web-ui'' ''Web UI'' CX_L RL_low [''api-core''] True,
       demo_module ''notifications'' ''Notifications'' CX_S RL_low [''worker-queue''] False,
       demo_module ''observability'' ''Observability'' CX_M RL_low [''integration-layer''] False,
       demo_module ''release'' ''Release hardening'' CX_M RL_high
         [''web-ui'', ''notifications'', ''observability''] False],
     pc_risks = [], pc_out_of_scope = []\<rparr>"

subsection \<open>Every node gets a valid recommendation\<close>

lemma round_cents_pos: "1 \<le> x \<Longrightarrow> 0 < round_cents x"
  by (simp add: round_cents_def)

lemma budget_at_least_one:
  "1 \<le> BASE_BUDGET_USD c * RISK_MULTIPLIER r * STRATEGY_BUDGET_FACTOR s"
  by (cases c; cases r; cases s) simp_all

lemma recommend_ok: "\<exists>a. recommend num n s = Inr a \<and> NodeAssignment_ok a \<and> na_source a = AS_auto"
  using round_cents_pos [OF budget_at_least_one [of "gn_complexity n" "gn_risk n" s]]
  by (simp add: recommend_def Let_def parse_assignment_def NodeAssignment_ok_def nonempty_str_def
      modelFor_def REVIEWER_MODEL_def PILOT_WORKER_CAP_def)

definition recommended :: "(usd \<Rightarrow> string) \<Rightarrow> allocation_strategy \<Rightarrow> graph_node \<Rightarrow> graph_node" where
  "recommended num s n =
     (if overridden n then n
      else case recommend num n s of Inr a \<Rightarrow> n\<lparr>gn_assignment := Some a\<rparr> | Inl _ \<Rightarrow> n)"

lemma autoAllocate_node_result:
  assumes "jget (wg_nodes g) (gn_id node) = Some n"
  shows "\<exists>g'. autoAllocate_node num s node g = (Inr (), g')
     \<and> (\<forall>k. jget (wg_nodes g') k = (if k = gn_id node then Some (recommended num s n) else jget (wg_nodes g) k))"
proof -
  obtain a where "recommend num n s = Inr a" using recommend_ok [of num n s] by blast
  with assms show ?thesis
    by (auto simp: autoAllocate_node_def recommended_def set_assignment_def)
qed

lemma autoAllocate_loop:
  assumes "distinct (map gn_id ns)" and "\<And>n. n \<in> set ns \<Longrightarrow> jget (wg_nodes g) (gn_id n) = Some n"
  shows "\<exists>g'. for_each ns (autoAllocate_node num s) g = (Inr (), g')
     \<and> (\<forall>k. jget (wg_nodes g') k = (if k \<in> gn_id ` set ns then map_option (recommended num s) (jget (wg_nodes g) k)
                                 else jget (wg_nodes g) k))"
  using assms
proof (induction ns arbitrary: g)
  case (Cons n ns)
  obtain g1 where g1: "autoAllocate_node num s n g = (Inr (), g1)"
    "\<And>k. jget (wg_nodes g1) k = (if k = gn_id n then Some (recommended num s n) else jget (wg_nodes g) k)"
    using autoAllocate_node_result [OF Cons.prems(2)] by (metis list.set_intros(1))
  have fresh: "gn_id n \<notin> gn_id ` set ns" using Cons.prems(1) by simp
  have "jget (wg_nodes g1) (gn_id m) = Some m" if "m \<in> set ns" for m
  proof -
    from that fresh have "gn_id m \<noteq> gn_id n" by (metis imageI)
    with that Cons.prems(2) [of m] g1(2) show ?thesis by simp
  qed
  then obtain g' where g': "for_each ns (autoAllocate_node num s) g1 = (Inr (), g')"
    "\<And>k. jget (wg_nodes g') k = (if k \<in> gn_id ` set ns then map_option (recommended num s) (jget (wg_nodes g1) k)
                                 else jget (wg_nodes g1) k)"
    using Cons.IH [of g1] Cons.prems(1) by auto
  have "jget (wg_nodes g') k = (if k \<in> gn_id ` set (n # ns) then map_option (recommended num s) (jget (wg_nodes g) k)
      else jget (wg_nodes g) k)" for k
    using g'(2) [of k] g1(2) [of k] fresh Cons.prems(2) [of n] by (cases "k = gn_id n") simp_all
  moreover have "for_each (n # ns) (autoAllocate_node num s) g = (Inr (), g')" using g1(1) g'(1) by simp
  ultimately show ?case by blast
qed simp

lemma snapshot_nodes:
  assumes "graph_ok g"
  shows "distinct (map gn_id (gs_nodes (snapshot g)))" "gn_id ` set (gs_nodes (snapshot g)) = fst ` set (wg_nodes g)"
    "\<And>n. n \<in> set (gs_nodes (snapshot g)) \<Longrightarrow> jget (wg_nodes g) (gn_id n) = Some n"
proof -
  have wf: "jwf (wg_nodes g)" and ids: "\<And>a n. jget (wg_nodes g) a = Some n \<Longrightarrow> gn_id n = a"
    using assms by (auto simp: graph_ok_def)
  have keys: "map gn_id (jvalues (wg_nodes g)) = jkeys (wg_nodes g)"
    using ids jget_of_mem [OF wf] by (auto simp: map_eq_conv)
  then show "distinct (map gn_id (gs_nodes (snapshot g)))" using wf by (simp only: snapshot_def graph_snapshot.simps)
  show "gn_id ` set (gs_nodes (snapshot g)) = fst ` set (wg_nodes g)"
    using keys by (metis graph_snapshot.select_convs(2) list.set_map snapshot_def)
  show "jget (wg_nodes g) (gn_id n) = Some n" if "n \<in> set (gs_nodes (snapshot g))" for n
    using that jget_of_mem [OF wf] ids by (force simp: snapshot_def)
qed

lemma autoAllocate_result:
  assumes "graph_ok g"
  shows "\<exists>g'. autoAllocate num s g = (Inr (), g')
     \<and> (\<forall>k. jget (wg_nodes g') k = map_option (recommended num s) (jget (wg_nodes g) k))"
proof -
  obtain g' where g': "autoAllocate num s g = (Inr (), g')"
    "\<And>k. jget (wg_nodes g') k = (if k \<in> fst ` set (wg_nodes g)
        then map_option (recommended num s) (jget (wg_nodes g) k) else jget (wg_nodes g) k)"
    using autoAllocate_loop [OF snapshot_nodes(1,3) [OF assms], of num s] snapshot_nodes(2) [OF assms]
    by (auto simp: autoAllocate_def)
  have "jget (wg_nodes g') k = map_option (recommended num s) (jget (wg_nodes g) k)" for k
  proof (cases "jget (wg_nodes g) k")
    case (Some n)
    then have "k \<in> fst ` set (wg_nodes g)" by (force dest: jget_mem)
    with g'(2) [of k] show ?thesis by simp
  qed (simp add: g'(2))
  with g'(1) show ?thesis by blast
qed

lemma set_assignment_keeps_keys: "jkeys (wg_nodes (set_assignment k a g)) = jkeys (wg_nodes g)"
  by (simp add: set_assignment_def jkeys_jset_existing split: option.splits)

lemma autoAllocate_node_keys: "keeps (\<lambda>g. jkeys (wg_nodes g) = ks) (autoAllocate_node num s node)"
  by (rule keepsI)
    (simp add: autoAllocate_node_def set_assignment_keeps_keys split: option.splits sum.splits)

lemma autoAllocate_keys: "jkeys (wg_nodes (snd (autoAllocate num s g))) = jkeys (wg_nodes g)"
  using keeps_for_each [where f = "autoAllocate_node num s" and I = "\<lambda>h. jkeys (wg_nodes h) = jkeys (wg_nodes g)"]
    autoAllocate_node_keys
  by (simp add: autoAllocate_def keeps_def)

text \<open>
  Auto-allocation is total and respects overrides. On a well-formed graph it returns, gives every
  node that the human has not overridden the recommendation computed from its complexity, risk and
  parallel safety, which satisfies the assignment schema, and leaves every overridden node as it
  was; afterwards no node is unallocated, so the allocation can be approved.
\<close>

theorem autoAllocate_total:
  assumes "graph_ok g"
  shows "\<exists>g'. autoAllocate num s g = (Inr (), g')
     \<and> (\<forall>k n. jget (wg_nodes g) k = Some n \<longrightarrow>
          (if overridden n then jget (wg_nodes g') k = Some n
           else \<exists>a. recommend num n s = Inr a \<and> NodeAssignment_ok a
                  \<and> jget (wg_nodes g') k = Some (n\<lparr>gn_assignment := Some a\<rparr>)))
     \<and> (\<exists>ap. approveAllocation cmp hash new_id now actor g' = Inr ap)"
proof -
  obtain g' where g': "autoAllocate num s g = (Inr (), g')"
    "\<And>k. jget (wg_nodes g') k = map_option (recommended num s) (jget (wg_nodes g) k)"
    using autoAllocate_result [OF assms] by blast
  have each: "if overridden n then recommended num s n = n
      else \<exists>a. recommend num n s = Inr a \<and> NodeAssignment_ok a \<and> recommended num s n = n\<lparr>gn_assignment := Some a\<rparr>" for n
    using recommend_ok [of num n s] by (auto simp: recommended_def)
  have wf: "jwf (wg_nodes g')"
    using autoAllocate_keys [of num s g] g'(1) assms by (simp add: graph_ok_def)
  have "gn_assignment n \<noteq> None" if "(k, n) \<in> set (wg_nodes g')" for k n
  proof -
    from jget_of_mem [OF wf that] g'(2) obtain m where "n = recommended num s m" by (metis option.map_disc_iff option.exhaust_sel option.map_sel option.sel option.simps(3))
    then show ?thesis using each [of m] by (auto simp: overridden_def split: if_splits option.splits)
  qed
  then have "cp_unallocated (costPreview g') = []"
    by (auto simp: costPreview_def Let_def snapshot_def filter_empty_conv)
  then have "\<exists>ap. approveAllocation cmp hash new_id now actor g' = Inr ap" by (simp add: approveAllocation_def)
  moreover have "if overridden n then jget (wg_nodes g') k = Some n
      else \<exists>a. recommend num n s = Inr a \<and> NodeAssignment_ok a \<and> jget (wg_nodes g') k = Some (n\<lparr>gn_assignment := Some a\<rparr>)"
    if "jget (wg_nodes g) k = Some n" for k n
    using that each [of n] g'(2) [of k] by auto
  ultimately show ?thesis using g'(1) by blast
qed

lemma edge_graph_ok: "graph_ok edge_graph"
proof -
  have "plan_graph_ok (pc_modules (mk_plan [mk_module ''a'' [], mk_module ''b'' [''a'']]))"
    unfolding plan_errors_Nil_iff [symmetric] by code_simp
  then show ?thesis unfolding edge_graph_def by (rule fromPlan_ok)
qed

theorem autoAllocate_total_witness:
  "\<exists>g' ap. autoAllocate (\<lambda>_. ''n'') ST_cost edge_graph = (Inr (), g')
     \<and> approveAllocation (\<lambda>_ _. 0) (\<lambda>_. ''h'') ''i'' ''t'' ''me'' g' = Inr ap"
  using autoAllocate_total [OF edge_graph_ok, of "\<lambda>_. ''n''" ST_cost "\<lambda>_ _. 0" "\<lambda>_. ''h''" "''i''" "''t''" "''me''"]
  by blast

subsection \<open>Overrides persist\<close>

definition holds_override :: "ident \<Rightarrow> graph_node \<Rightarrow> workflow_graph \<Rightarrow> bool" where
  "holds_override k n g \<longleftrightarrow> jget (wg_nodes g) k = Some n \<and> overridden n"

lemma set_assignment_get:
  "jget (wg_nodes (set_assignment k a g)) k' =
     (if k' = k then map_option (\<lambda>n. n\<lparr>gn_assignment := Some a\<rparr>) (jget (wg_nodes g) k) else jget (wg_nodes g) k')"
  by (auto simp: set_assignment_def split: option.splits)

lemma auto_holds: "keeps (holds_override k n) (autoAllocate_node num s node)"
  by (rule keepsI)
    (auto simp: holds_override_def autoAllocate_node_def set_assignment_get split: option.splits sum.splits)

lemma pm_holds: "keeps (holds_override k n) (applyPm_node byNode node)"
  by (rule keepsI)
    (auto simp: holds_override_def applyPm_node_def set_assignment_get split: option.splits sum.splits)

datatype reallocation = RA_auto allocation_strategy | RA_pm "pm_recommendation list"

fun reallocate :: "(usd \<Rightarrow> string) \<Rightarrow> reallocation \<Rightarrow> workflow_graph \<Rightarrow> workflow_graph" where
  "reallocate num (RA_auto s) g = snd (autoAllocate num s g)"
| "reallocate num (RA_pm recs) g = snd (applyPmAllocation recs g)"

interpretation override: object_invariant "reallocate num" "\<lambda>_ _. True" "holds_override k n"
proof
  fix c g assume h: "holds_override k n g"
  have "keeps (holds_override k n) (for_each xs (autoAllocate_node num s))" for xs s
    by (rule keeps_for_each) (rule auto_holds)
  moreover have "keeps (holds_override k n) (for_each xs (applyPm_node byNode))" for xs byNode
    by (rule keeps_for_each) (rule pm_holds)
  ultimately show "holds_override k n (reallocate num c g)"
    using h by (cases c) (simp_all add: autoAllocate_def applyPmAllocation_def Let_def keeps_def)
qed

text \<open>
  A human override persists. Once \<^verbatim>\<open>overrideAssignment\<close> has returned an assignment, which then
  satisfies the schema and is marked as an override, no sequence of automatic allocations and of
  project-manager allocations, failing ones included, changes the node's assignment.
\<close>

theorem override_persists:
  assumes "overrideAssignment num k patch g = (Inr a, g')"
  shows "NodeAssignment_ok a \<and> na_source a = AS_override
     \<and> (\<exists>n. jget (wg_nodes (fold (reallocate num') cs g')) k = Some n \<and> gn_assignment n = Some a)"
proof -
  from assms obtain n0 base where n0: "jget (wg_nodes g) k = Some n0"
    and a: "parse_assignment (patched base patch) = Inr a" and g': "g' = set_assignment k a g"
    by (auto simp: overrideAssignment_def split: option.splits sum.splits)
  from a have ok: "NodeAssignment_ok a" "na_source a = AS_override"
    by (auto simp: parse_assignment_def patched_def split: if_splits)
  have "holds_override k (n0\<lparr>gn_assignment := Some a\<rparr>) g'"
    using n0 ok g' by (simp add: holds_override_def set_assignment_get overridden_def)
  then have "holds_override k (n0\<lparr>gn_assignment := Some a\<rparr>) (fold (reallocate num') cs g')"
    by (intro override.calls_keep) (simp_all add: obeys_stateless list_all_iff)
  with ok show ?thesis by (auto simp: holds_override_def)
qed

definition sample_patch :: assignment_patch where
  "sample_patch = \<lparr>ap_provider = None, ap_model = Some ''m'', ap_reasoning_effort = None, ap_worker_count = None,
     ap_reviewer_model = None, ap_budget_usd = Some 7, ap_rationale = None\<rparr>"

theorem override_persists_witness:
  "\<exists>a g' n. overrideAssignment (\<lambda>_. ''n'') ''a'' sample_patch edge_graph = (Inr a, g') \<and> na_budget_usd a = 7
     \<and> jget (wg_nodes (fold (reallocate (\<lambda>_. ''x'')) [RA_auto ST_cost, RA_pm []] g')) ''a'' = Some n
     \<and> gn_assignment n = Some a"
proof -
  define res where "res = overrideAssignment (\<lambda>_. ''n'') ''a'' sample_patch edge_graph"
  have "(case fst res of Inr a \<Rightarrow> na_budget_usd a = 7 | Inl _ \<Rightarrow> False)" unfolding res_def by code_simp
  then obtain a where "fst res = Inr a" "na_budget_usd a = 7" by (auto split: sum.splits)
  then have "overrideAssignment (\<lambda>_. ''n'') ''a'' sample_patch edge_graph = (Inr a, snd res)"
    by (simp add: res_def prod_eq_iff)
  from override_persists [OF this, of "\<lambda>_. ''x''" "[RA_auto ST_cost, RA_pm []]"] this \<open>na_budget_usd a = 7\<close>
  show ?thesis by blast
qed

subsection \<open>Approvals go stale\<close>

text \<open>A structural edit that returns rather than throws.\<close>

fun edit_returns :: "graph_call \<Rightarrow> workflow_graph \<Rightarrow> bool" where
  "edit_returns (GC_addNode i) g \<longleftrightarrow> \<not> isl (fst (addNode i g))"
| "edit_returns (GC_addEdge a b) g \<longleftrightarrow> \<not> isl (fst (addEdge a b g))"
| "edit_returns (GC_removeEdge a b) g \<longleftrightarrow> \<not> isl (fst (removeEdge a b g))"
| "edit_returns (GC_removeNode depth k mode) g \<longleftrightarrow> \<not> isl (fst (removeNode depth k mode g))"
| "edit_returns _ g \<longleftrightarrow> False"

lemma bump_version [simp]: "wg_version (bump g) = wg_version g + 1"
  by (simp add: bump_def)

lemma delete_version [simp]: "wg_version (delete_node k g) = wg_version g + 1"
  by (simp add: delete_node_def)

lemma reparent_version: "wg_version (snd (for_each ds (reparent_one k node) g)) = wg_version g"
proof -
  have "keeps (\<lambda>h. wg_version h = wg_version g) (reparent_one k node d)" for d
    unfolding reparent_one_def guardEditable_def by (intro norns_inv keeps_modifying) simp
  then have "keeps (\<lambda>h. wg_version h = wg_version g) (for_each ds (reparent_one k node))"
    by (intro keeps_for_each)
  then show ?thesis by (simp add: keeps_def)
qed

lemma removeNode_version:
  "wg_version g + (if isl (fst (removeNode depth k mode g)) then 0 else 1) \<le> wg_version (snd (removeNode depth k mode g))"
  "wg_version g \<le> wg_version (snd (remove_each depth ds g))"
proof (induction depth k mode g and depth ds g rule: removeNode_remove_each.induct)
  case (2 depth k mode g)
  have each: "wg_version g \<le> wg_version (snd (remove_each depth (dependentsOf k g) g))"
    if "mode = Some RM_cascade" "dependentsOf k g \<noteq> []" using that 2 by auto
  have loop: "wg_version (snd (for_each (dependentsOf k g) (reparent_one k node) g)) = wg_version g" for node
    by (rule reparent_version)
  show ?case
    using each loop
    by (auto simp: removeNode_Suc split: option.splits prod.splits sum.splits) (metis snd_conv order_refl le_Suc_eq)+
next
  case (4 depth d ds g)
  then show ?case by (fastforce split: prod.splits sum.splits if_splits)
qed auto

lemma addNode_version:
  "wg_version g + (if isl (fst (addNode i g)) then 0 else 1) \<le> wg_version (snd (addNode i g))"
proof -
  obtain r g' where all: "for_each (or_else (ni_dependencies i) []) (\<lambda>d. and_then (requireNode d) (\<lambda>_. returning ())) g = (r, g')"
    by (cases "for_each (or_else (ni_dependencies i) []) (\<lambda>d. and_then (requireNode d) (\<lambda>_. returning ())) g")
  from require_all [OF all] all show ?thesis by (cases r) (simp_all add: addNode_def method_simps)
qed

lemma graph_call_version:
  "wg_version g \<le> wg_version (do_graph_call c g)
   \<and> (edit_returns c g \<longrightarrow> wg_version g < wg_version (do_graph_call c g))"
proof (cases c)
  case (GC_addNode i)
  then show ?thesis using addNode_version [of g i] by (auto split: if_splits)
next
  case (GC_removeNode depth k mode)
  then show ?thesis using removeNode_version(1) [of g depth k mode] by (auto split: if_splits)
next
  case (GC_addEdge a b)
  then show ?thesis
    by (simp add: addEdge_def method_simps requireNode_def guardEditable_def split: option.splits)
next
  case (GC_removeEdge a b)
  then show ?thesis
    by (simp add: removeEdge_def method_simps requireNode_def guardEditable_def split: option.splits)
qed (simp_all add: markExecutionStarted_def attachStateLookup_def)

lemma graph_calls_version: "wg_version g \<le> wg_version (fold do_graph_call cs g)"
proof (induction cs arbitrary: g)
  case (Cons c cs)
  have "wg_version g \<le> wg_version (do_graph_call c g)" using graph_call_version by blast
  also have "\<dots> \<le> wg_version (fold do_graph_call cs (do_graph_call c g))" by (rule Cons.IH)
  finally show ?case by simp
qed simp

text \<open>
  An allocation approval is current when it is recorded and goes stale with the first structural
  edit that succeeds, for good: after any sequence of edits that contains a successful one the
  session reports the approval as not current, whatever the allocation fingerprint is.
\<close>

theorem approval_goes_stale:
  assumes "edit_returns c (fold do_graph_call cs1 (se_graph s))"
  shows "(\<exists>st. approvalStatus fp (session_recordApproval fp a s) = Some st \<and> as_current st)
     \<and> (\<exists>st. approvalStatus fp ((session_recordApproval fp a s)
              \<lparr>se_graph := fold do_graph_call (cs1 @ c # cs2) (se_graph s)\<rparr>) = Some st \<and> \<not> as_current st)"
proof -
  let ?g1 = "fold do_graph_call cs1 (se_graph s)"
  have "wg_version (se_graph s) \<le> wg_version ?g1" by (rule graph_calls_version)
  also have "\<dots> < wg_version (do_graph_call c ?g1)" using graph_call_version assms by blast
  also have "\<dots> \<le> wg_version (fold do_graph_call cs2 (do_graph_call c ?g1))" by (rule graph_calls_version)
  finally show ?thesis by (simp add: approvalStatus_def session_recordApproval_def)
qed

theorem approval_goes_stale_witness:
  "\<exists>st. approvalStatus (\<lambda>_. ''f'') ((session_recordApproval (\<lambda>_. ''f'')
        \<lparr>aa_id = ''i'', aa_actor = ''me'', aa_approved_at = ''t'', aa_content_hash = ''h''\<rparr>
        \<lparr>se_graph = edge_graph, se_plan = mk_plan [], se_approvalRecord = None\<rparr>)
        \<lparr>se_graph := fold do_graph_call [GC_removeEdge ''a'' ''b''] edge_graph\<rparr>) = Some st \<and> \<not> as_current st"
proof -
  have "edit_returns (GC_removeEdge ''a'' ''b'') (fold do_graph_call [] edge_graph)" by code_simp
  then show ?thesis
    using approval_goes_stale [where s = "\<lparr>se_graph = edge_graph, se_plan = mk_plan [], se_approvalRecord = None\<rparr>"
        and c = "GC_removeEdge ''a'' ''b''" and ?cs1.0 = "[]" and ?cs2.0 = "[]"] by auto
qed

lemma demo_plan_valid: "PlanContract_ok DEMO_PLAN \<and> validatePlan Inr DEMO_PLAN = Inr DEMO_PLAN"
  by code_simp

end
