(* ===== verification/V2_Common.thy ===== *)
theory V2_Common
  imports Norns_Prelude
begin

section \<open>Shared values of the V2 contracts\<close>

text \<open>
  \<^verbatim>\<open>packages/contracts/src/v2/common.ts\<close>. A zod schema is a predicate on the value it yields: for a
  schema that trims its input, the value is already trimmed. A refinement that adds issues is a
  function that lists them, each with its path and its message; the schema accepts the value when the
  fields are well formed and the list is empty. Strings are lists of 8-bit code units, so the white
  space that \<^verbatim>\<open>trim\<close> removes is the part of it that lies in that range.
\<close>

definition js_space :: "char \<Rightarrow> bool" where
  "js_space c \<longleftrightarrow> of_char c \<in> {9, 10, 11, 12, 13, 32, 160 :: nat}"

definition trimmed :: "string \<Rightarrow> bool" where
  "trimmed s \<longleftrightarrow> s = [] \<or> (\<not> js_space (hd s) \<and> \<not> js_space (last s))"

definition js_trim :: "string \<Rightarrow> string" where
  "js_trim s = rev (dropWhile js_space (rev (dropWhile js_space s)))"

definition V2NonEmptyString :: "string \<Rightarrow> bool" where
  "V2NonEmptyString s \<longleftrightarrow> trimmed s \<and> s \<noteq> []"

abbreviation V2EntityId :: "string \<Rightarrow> bool" where
  "V2EntityId \<equiv> V2NonEmptyString"

definition max_len :: "nat \<Rightarrow> string \<Rightarrow> bool" where
  "max_len n s \<longleftrightarrow> length s \<le> n"

definition hex_char :: "char \<Rightarrow> bool" where
  "hex_char c \<longleftrightarrow> of_char c \<in> {48..57 :: nat} \<or> of_char c \<in> {97..102 :: nat}"

definition V2Sha256Hex :: "string \<Rightarrow> bool" where
  "V2Sha256Hex s \<longleftrightarrow> length s = 64 \<and> list_all hex_char s"

definition V2GitCommitSha :: "string \<Rightarrow> bool" where
  "V2GitCommitSha s \<longleftrightarrow> (length s = 40 \<or> length s = 64) \<and> list_all hex_char s"

definition V2PositiveVersion :: "int \<Rightarrow> bool" where
  "V2PositiveVersion n \<longleftrightarrow> 0 < n"

definition V2_HUMAN_WAIT_CHANNEL_VERSION :: int where
  "V2_HUMAN_WAIT_CHANNEL_VERSION = 1"

definition V2_HUMAN_WAIT_INSTRUCTION_HASH :: string where
  "V2_HUMAN_WAIT_INSTRUCTION_HASH = ''8b566b621974a3627e1336608b59ca1c3b7a707460c3aa840d27d1caa912c42b''"

definition opt_ok :: "('a \<Rightarrow> bool) \<Rightarrow> 'a option \<Rightarrow> bool" where
  "opt_ok P x \<longleftrightarrow> (case x of None \<Rightarrow> True | Some v \<Rightarrow> P v)"

lemma opt_ok_simps [simp]: "opt_ok P None" "opt_ok P (Some v) \<longleftrightarrow> P v"
  by (simp_all add: opt_ok_def)

subsection \<open>Actors\<close>

datatype v2_actor_type = VA_human | VA_coordinator | VA_agent | VA_runner | VA_system | VA_legacy

record v2_actor =
  va_actor_type :: v2_actor_type
  va_actor_id :: "ident option"

type_synonym issue = "string list \<times> string"

definition issue_if :: "bool \<Rightarrow> string list \<Rightarrow> string \<Rightarrow> issue list" where
  "issue_if b path msg = (if b then [(path, msg)] else [])"

lemma issue_if_Nil [simp]: "issue_if b path msg = [] \<longleftrightarrow> \<not> b"
  by (simp add: issue_if_def)

definition V2Actor_ok :: "v2_actor \<Rightarrow> bool" where
  "V2Actor_ok a \<longleftrightarrow> opt_ok V2EntityId (va_actor_id a)"

definition V2Actor_issues :: "v2_actor \<Rightarrow> issue list" where
  "V2Actor_issues a =
     issue_if (va_actor_type a = VA_human \<and> va_actor_id a = None)
       [''actor_id''] ''human actors require an attributable actor_id''"

definition V2Actor_valid :: "v2_actor \<Rightarrow> bool" where
  "V2Actor_valid a \<longleftrightarrow> V2Actor_ok a \<and> V2Actor_issues a = []"

record v2_entity_ref =
  vr_entity_type :: string
  vr_entity_id :: ident

record v2_evidence_ref =
  ver_artifact_id :: ident
  ver_content_hash :: string
  ver_media_type :: string
  ver_label :: string

definition V2EvidenceRef_ok :: "v2_evidence_ref \<Rightarrow> bool" where
  "V2EvidenceRef_ok r \<longleftrightarrow> V2EntityId (ver_artifact_id r) \<and> V2Sha256Hex (ver_content_hash r)
     \<and> V2NonEmptyString (ver_media_type r) \<and> V2NonEmptyString (ver_label r)"

record v2_approval_evidence =
  vae_approval_id :: ident
  vae_approved_by :: ident
  vae_approved_at :: millis
  vae_content_hash :: string

definition V2ApprovalEvidence_ok :: "v2_approval_evidence \<Rightarrow> bool" where
  "V2ApprovalEvidence_ok e \<longleftrightarrow> V2EntityId (vae_approval_id e) \<and> V2EntityId (vae_approved_by e)
     \<and> V2Sha256Hex (vae_content_hash e)"

lemma dropWhile_hd: "dropWhile P s \<noteq> [] \<Longrightarrow> \<not> P (hd (dropWhile P s))"
  by (rule hd_dropWhile) (metis dropWhile_eq_Nil_conv)

text \<open>Trimming yields a trimmed string, and leaves a trimmed one alone.\<close>

lemma js_trim_trimmed: "trimmed (js_trim s)"
proof -
  define t where "t = dropWhile js_space s"
  define u where "u = dropWhile js_space (rev t)"
  have j: "js_trim s = rev u" by (simp add: js_trim_def t_def u_def)
  show ?thesis
  proof (cases "u = []")
    case False
    then have l: "\<not> js_space (hd u)" unfolding u_def by (rule dropWhile_hd)
    obtain p where p: "rev t = p @ u"
      unfolding u_def by (metis takeWhile_dropWhile_id)
    then have "t = rev u @ rev p" by (metis rev_append rev_rev_ident)
    then have "hd (rev u) = hd t" "t \<noteq> []" using False by simp_all
    moreover have "\<not> js_space (hd t)" using \<open>t \<noteq> []\<close> unfolding t_def by (rule dropWhile_hd)
    ultimately show ?thesis using False l by (simp add: j trimmed_def last_rev)
  qed (simp add: j trimmed_def)
qed

lemma js_trim_id:
  assumes "trimmed s"
  shows "js_trim s = s"
proof -
  have "dropWhile js_space s = s" using assms by (auto simp: trimmed_def dropWhile_eq_self_iff)
  moreover have "dropWhile js_space (rev s) = rev s"
    using assms by (auto simp: trimmed_def dropWhile_eq_self_iff hd_rev)
  ultimately show ?thesis by (simp add: js_trim_def)
qed

end
