(* ===== verification/V2_Dispatch.thy ===== *)
theory V2_Dispatch
  imports V2_Common Models
begin

section \<open>The dispatch command\<close>

text \<open>
  \<^verbatim>\<open>packages/contracts/src/v2/commands.ts\<close>, the part that travels to a runner: content-addressed
  references, input files, verification commands, the supplements of a task package, and
  \<^verbatim>\<open>V2DispatchCommand\<close> with all the bindings its refinement enforces. The literal members of the schema
  (\<^verbatim>\<open>schema_version\<close>, \<^verbatim>\<open>protocol_version\<close>, \<^verbatim>\<open>kind\<close>) have one value each and are left out of the records.
\<close>

subsection \<open>References, files and commands\<close>

record content_ref =
  car_artifact_id :: ident
  car_content_hash :: string
  car_byte_size :: int
  car_storage_ref :: string

definition V2ContentAddressedReference :: "content_ref \<Rightarrow> bool" where
  "V2ContentAddressedReference r \<longleftrightarrow> V2EntityId (car_artifact_id r) \<and> V2Sha256Hex (car_content_hash r)
     \<and> 0 \<le> car_byte_size r \<and> V2NonEmptyString (car_storage_ref r)"

text \<open>The four comparisons the refinement spells out wherever it looks a reference up.\<close>

definition same_ref :: "content_ref \<Rightarrow> content_ref \<Rightarrow> bool" where
  "same_ref a b \<longleftrightarrow> car_artifact_id a = car_artifact_id b \<and> car_content_hash a = car_content_hash b
     \<and> car_byte_size a = car_byte_size b \<and> car_storage_ref a = car_storage_ref b"

lemma same_ref_iff: "same_ref a b \<longleftrightarrow> a = b"
  by (auto simp: same_ref_def)

record task_input_file =
  tif_filename :: string
  tif_media_type :: string
  tif_context_ref :: content_ref

definition V2TaskInputFile :: "task_input_file \<Rightarrow> bool" where
  "V2TaskInputFile f \<longleftrightarrow> V2NonEmptyString (tif_filename f) \<and> max_len 255 (tif_filename f)
     \<and> tif_filename f \<noteq> ''.'' \<and> tif_filename f \<noteq> ''..''
     \<and> list_all (\<lambda>c. of_char c \<notin> {92, 47, 0 :: nat}) (tif_filename f)
     \<and> V2NonEmptyString (tif_media_type f) \<and> V2ContentAddressedReference (tif_context_ref f)"

definition v2CommandIdForDispatchJob :: "ident \<Rightarrow> ident" where
  "v2CommandIdForDispatchJob job = ''dispatch:'' @ job"

definition V2_DEFAULT_VERIFICATION_POLICY_REF :: string where
  "V2_DEFAULT_VERIFICATION_POLICY_REF = ''verification-policy:default-v1''"

record verification_command =
  vc_name :: string
  vc_command :: "string list"

definition V2VerificationCommand :: "verification_command \<Rightarrow> bool" where
  "V2VerificationCommand c \<longleftrightarrow> V2NonEmptyString (vc_name c) \<and> max_len 200 (vc_name c)
     \<and> list_all V2NonEmptyString (vc_command c) \<and> vc_command c \<noteq> [] \<and> length (vc_command c) \<le> 64"

record supplement_binding =
  sb_supplement_id :: ident
  sb_task_id :: ident
  sb_base_package_id :: ident
  sb_ordinal :: int
  sb_content_hash :: string
  sb_context_ref :: content_ref

definition V2TaskPackageSupplementBinding :: "supplement_binding \<Rightarrow> bool" where
  "V2TaskPackageSupplementBinding b \<longleftrightarrow> V2EntityId (sb_supplement_id b) \<and> V2EntityId (sb_task_id b)
     \<and> V2EntityId (sb_base_package_id b) \<and> V2PositiveVersion (sb_ordinal b)
     \<and> V2Sha256Hex (sb_content_hash b) \<and> V2ContentAddressedReference (sb_context_ref b)
     \<and> sb_content_hash b = car_content_hash (sb_context_ref b)"

subsection \<open>The command\<close>

datatype session_portability = SP_transcript_only | SP_same_runner | SP_cross_runner_verified
datatype credential_mode = CM_api | CM_subscription
datatype execution_mode = EM_quick | EM_planned

record run_continuation =
  rc_wait_id :: ident
  rc_root_command_id :: ident
  rc_resume_commit_sha :: string
  rc_resume_branch :: string
  rc_question_hash :: string
  rc_answer_receipt_hash :: string
  rc_compact_summary_hash :: string
  rc_context_hash :: string
  rc_task_package_hash :: "string option"
  rc_replay_context_ref :: content_ref
  rc_resume_session_id :: "string option"
  rc_session_portability :: session_portability
  rc_session_portability_evidence :: "string option"

record run_recovery =
  rec_previous_run_id :: ident
  rec_resume_session_id :: string

record run_rework =
  rew_previous_run_id :: ident
  rew_direction :: string

record human_wait_channel =
  hwc_version :: int
  hwc_instruction_hash :: string

record dispatch_command =
  dc_dispatch_job_id :: ident
  dc_command_id :: ident
  dc_delivery_attempt :: int
  dc_idempotency_key :: string
  dc_correlation_id :: ident
  dc_causation_id :: "ident option"
  dc_project_id :: ident
  dc_phase_id :: ident
  dc_task_id :: ident
  dc_assignment_id :: ident
  dc_run_id :: ident
  dc_runner_id :: ident
  dc_runner_generation :: int
  dc_repository_binding_id :: ident
  dc_runner_repository_id :: "ident option"
  dc_expected_revision :: string
  dc_target_branch :: string
  dc_integrate_base_branch :: "string option"
  dc_worktree_policy_ref :: ident
  dc_runtime :: string
  dc_provider :: string
  dc_model :: string
  dc_reasoning_effort :: "reasoning_effort option"
  dc_credential_mode :: "credential_mode option"
  dc_context_refs :: "content_ref list"
  dc_input_files :: "task_input_file list"
  dc_task_package_id :: "ident option"
  dc_task_package_content_hash :: "string option"
  dc_task_package_context_ref :: "content_ref option"
  dc_task_package_supplements :: "supplement_binding list"
  dc_human_wait_channel :: "human_wait_channel option"
  dc_continuation :: "run_continuation option"
  dc_recovery :: "run_recovery option"
  dc_rework :: "run_rework option"
  dc_budget_reservation_id :: ident
  dc_max_charge_usd :: usd
  dc_max_input_tokens :: int
  dc_max_output_tokens :: int
  dc_max_duration_seconds :: int
  dc_max_turns :: "int option"
  dc_execution_mode :: "execution_mode option"
  dc_verification_policy_ref :: ident
  dc_verification_commands :: "verification_command list option"
  dc_repository_verification_manifest :: "string option"
  dc_sandbox_policy_ref :: ident
  dc_authorized_by :: v2_actor
  dc_authorized_by_session_id :: ident
  dc_issued_at :: millis
  dc_expires_at :: millis

definition run_continuation_ok :: "run_continuation \<Rightarrow> bool" where
  "run_continuation_ok k \<longleftrightarrow> V2EntityId (rc_wait_id k) \<and> V2EntityId (rc_root_command_id k)
     \<and> V2GitCommitSha (rc_resume_commit_sha k) \<and> V2NonEmptyString (rc_resume_branch k)
     \<and> V2Sha256Hex (rc_question_hash k) \<and> V2Sha256Hex (rc_answer_receipt_hash k)
     \<and> V2Sha256Hex (rc_compact_summary_hash k) \<and> V2Sha256Hex (rc_context_hash k)
     \<and> opt_ok V2Sha256Hex (rc_task_package_hash k)
     \<and> V2ContentAddressedReference (rc_replay_context_ref k)
     \<and> opt_ok V2NonEmptyString (rc_resume_session_id k)
     \<and> opt_ok V2NonEmptyString (rc_session_portability_evidence k)"

definition V2DispatchCommand_fields_ok :: "dispatch_command \<Rightarrow> bool" where
  "V2DispatchCommand_fields_ok c \<longleftrightarrow>
     list_all V2EntityId
       [dc_dispatch_job_id c, dc_command_id c, dc_correlation_id c, dc_project_id c, dc_phase_id c,
        dc_task_id c, dc_assignment_id c, dc_run_id c, dc_runner_id c, dc_repository_binding_id c,
        dc_worktree_policy_ref c, dc_budget_reservation_id c, dc_verification_policy_ref c,
        dc_sandbox_policy_ref c, dc_authorized_by_session_id c]
   \<and> list_all V2NonEmptyString
       [dc_idempotency_key c, dc_expected_revision c, dc_target_branch c, dc_runtime c,
        dc_provider c, dc_model c]
   \<and> 0 < dc_delivery_attempt c \<and> 0 \<le> dc_runner_generation c
   \<and> opt_ok V2EntityId (dc_causation_id c) \<and> opt_ok V2EntityId (dc_runner_repository_id c)
   \<and> opt_ok V2NonEmptyString (dc_integrate_base_branch c)
   \<and> list_all V2ContentAddressedReference (dc_context_refs c) \<and> dc_context_refs c \<noteq> []
   \<and> list_all V2TaskInputFile (dc_input_files c) \<and> length (dc_input_files c) \<le> 32
   \<and> opt_ok V2EntityId (dc_task_package_id c) \<and> opt_ok V2Sha256Hex (dc_task_package_content_hash c)
   \<and> opt_ok V2ContentAddressedReference (dc_task_package_context_ref c)
   \<and> list_all V2TaskPackageSupplementBinding (dc_task_package_supplements c)
   \<and> opt_ok (\<lambda>h. hwc_version h = V2_HUMAN_WAIT_CHANNEL_VERSION
        \<and> hwc_instruction_hash h = V2_HUMAN_WAIT_INSTRUCTION_HASH) (dc_human_wait_channel c)
   \<and> opt_ok run_continuation_ok (dc_continuation c)
   \<and> opt_ok (\<lambda>r. V2EntityId (rec_previous_run_id r) \<and> V2NonEmptyString (rec_resume_session_id r))
       (dc_recovery c)
   \<and> opt_ok (\<lambda>r. V2EntityId (rew_previous_run_id r) \<and> V2NonEmptyString (rew_direction r)
        \<and> max_len 10000 (rew_direction r)) (dc_rework c)
   \<and> 0 \<le> dc_max_charge_usd c \<and> 0 \<le> dc_max_input_tokens c \<and> 0 \<le> dc_max_output_tokens c
   \<and> 0 < dc_max_duration_seconds c \<and> opt_ok (\<lambda>n. 0 < n \<and> n \<le> 200) (dc_max_turns c)
   \<and> opt_ok (\<lambda>v. list_all V2VerificationCommand v \<and> v \<noteq> [] \<and> length v \<le> 32)
       (dc_verification_commands c)
   \<and> opt_ok (\<lambda>m. m = ''.norns/verification.json'') (dc_repository_verification_manifest c)
   \<and> V2Actor_valid (dc_authorized_by c)"

subsection \<open>The bindings\<close>

definition packageFields :: "dispatch_command \<Rightarrow> bool list" where
  "packageFields c = [dc_task_package_id c \<noteq> None, dc_task_package_content_hash c \<noteq> None,
                      dc_task_package_context_ref c \<noteq> None]"

definition hasPackage :: "dispatch_command \<Rightarrow> bool" where
  "hasPackage c \<longleftrightarrow> list_all (\<lambda>b. b) (packageFields c)"

definition dispatched_ref :: "dispatch_command \<Rightarrow> content_ref \<Rightarrow> bool" where
  "dispatched_ref c r \<longleftrightarrow> list_ex (\<lambda>x. same_ref x r) (dc_context_refs c)"

definition identity_issues :: "dispatch_command \<Rightarrow> issue list" where
  "identity_issues c =
     issue_if (dc_command_id c \<noteq> v2CommandIdForDispatchJob (dc_dispatch_job_id c)) [''command_id'']
       (''command_id must be stable for its dispatch job ('' @ v2CommandIdForDispatchJob (dc_dispatch_job_id c) @ '')'')
   @ issue_if (dc_idempotency_key c \<noteq> dc_command_id c) [''idempotency_key'']
       ''runner idempotency_key must equal immutable command_id''
   @ issue_if (dc_expires_at c \<le> dc_issued_at c) [''expires_at''] ''expires_at must be after issued_at''"

definition package_issues :: "dispatch_command \<Rightarrow> issue list" where
  "package_issues c =
     issue_if (list_ex (\<lambda>b. b) (packageFields c) \<noteq> hasPackage c) [''task_package_id'']
       ''task package id, content hash, and context ref must be provided together''
   @ issue_if
       (hasPackage c
        \<and> (map_option car_content_hash (dc_task_package_context_ref c) \<noteq> dc_task_package_content_hash c
           \<or> \<not> dispatched_ref c (the (dc_task_package_context_ref c))))
       [''task_package_context_ref'']
       ''task package hash must identify one exact dispatched context reference''
   @ issue_if (dc_task_package_supplements c \<noteq> [] \<and> \<not> hasPackage c) [''task_package_supplements'']
       ''task package supplements require their immutable base task package''"

fun supplement_issues ::
    "dispatch_command \<Rightarrow> nat \<Rightarrow> ident list \<Rightarrow> ident list \<Rightarrow> supplement_binding list \<Rightarrow> issue list" where
  "supplement_issues c index supplementIds supplementContextIds [] = []"
| "supplement_issues c index supplementIds supplementContextIds (s # rest) =
     issue_if (sb_supplement_id s \<in> set supplementIds)
       [''task_package_supplements'', dec index, ''supplement_id'']
       ''a supplement can appear only once in one command''
   @ issue_if (car_artifact_id (sb_context_ref s) \<in> set supplementContextIds)
       [''task_package_supplements'', dec index, ''context_ref'', ''artifact_id'']
       ''every supplement requires its own immutable context document''
   @ issue_if (sb_ordinal s \<noteq> int index + 1) [''task_package_supplements'', dec index, ''ordinal'']
       ''task package supplements must be complete and ordered from ordinal 1''
   @ issue_if (sb_task_id s \<noteq> dc_task_id c \<or> Some (sb_base_package_id s) \<noteq> dc_task_package_id c)
       [''task_package_supplements'', dec index]
       ''every supplement must be bound to this task and immutable base package''
   @ issue_if (\<not> dispatched_ref c (sb_context_ref s))
       [''task_package_supplements'', dec index, ''context_ref'']
       ''every supplement must be an exact dispatched context reference''
   @ supplement_issues c (index + 1) (sb_supplement_id s # supplementIds)
       (car_artifact_id (sb_context_ref s) # supplementContextIds) rest"

fun continuation_issues :: "dispatch_command \<Rightarrow> run_continuation option \<Rightarrow> issue list" where
  "continuation_issues c None = []"
| "continuation_issues c (Some k) =
     issue_if (rc_resume_session_id k \<noteq> None \<and> rc_session_portability k = SP_transcript_only)
       [''continuation'', ''resume_session_id'']
       ''provider session resumption requires audited same-runner or cross-runner portability''
   @ issue_if ((rc_session_portability k \<noteq> SP_transcript_only) \<noteq> (rc_resume_session_id k \<noteq> None))
       [''continuation'', ''resume_session_id'']
       ''audited resumable continuations require a provider session ID''
   @ issue_if ((rc_session_portability k = SP_transcript_only) \<noteq> (rc_session_portability_evidence k = None))
       [''continuation'', ''session_portability_evidence'']
       ''session portability evidence is required exactly for resumable sessions''
   @ issue_if (rc_task_package_hash k \<noteq> dc_task_package_content_hash c)
       [''continuation'', ''task_package_hash'']
       ''continuation must preserve the root command task package binding''
   @ issue_if (dc_expected_revision c \<noteq> rc_resume_commit_sha k \<or> dc_target_branch c \<noteq> rc_resume_branch k)
       [''continuation'', ''resume_commit_sha'']
       ''continuation must prepare the exact saved commit on the exact saved branch''
   @ issue_if (\<not> dispatched_ref c (rc_replay_context_ref k)) [''continuation'', ''replay_context_ref'']
       ''continuation replay receipt must identify one exact dispatched context reference''
   @ issue_if (dc_context_refs c = [] \<or> \<not> same_ref (last (dc_context_refs c)) (rc_replay_context_ref k))
       [''continuation'', ''replay_context_ref'']
       ''continuation replay receipt must be the final dispatched context reference''
   @ issue_if (dc_causation_id c \<noteq> Some (rc_root_command_id k)) [''causation_id'']
       ''continuation causation_id must equal the immutable root command ID''"

definition V2DispatchCommand_issues :: "dispatch_command \<Rightarrow> issue list" where
  "V2DispatchCommand_issues c =
     identity_issues c @ package_issues c
   @ supplement_issues c 0 [] [] (dc_task_package_supplements c)
   @ continuation_issues c (dc_continuation c)"

definition V2DispatchCommand_valid :: "dispatch_command \<Rightarrow> bool" where
  "V2DispatchCommand_valid c \<longleftrightarrow> V2DispatchCommand_fields_ok c \<and> V2DispatchCommand_issues c = []"

subsection \<open>What an accepted command is bound to\<close>

lemma dispatched_ref_iff [simp]: "dispatched_ref c r \<longleftrightarrow> r \<in> set (dc_context_refs c)"
  by (auto simp: dispatched_ref_def list_ex_iff same_ref_iff)

lemma supplement_issues_Nil_iff:
  "supplement_issues c i ids ctxs ss = [] \<longleftrightarrow>
     distinct (map sb_supplement_id ss) \<and> set (map sb_supplement_id ss) \<inter> set ids = {}
   \<and> distinct (map (car_artifact_id \<circ> sb_context_ref) ss)
   \<and> set (map (car_artifact_id \<circ> sb_context_ref) ss) \<inter> set ctxs = {}
   \<and> map sb_ordinal ss = map (\<lambda>j. int (i + j) + 1) [0..<length ss]
   \<and> (\<forall>s \<in> set ss. sb_task_id s = dc_task_id c \<and> Some (sb_base_package_id s) = dc_task_package_id c
        \<and> sb_context_ref s \<in> set (dc_context_refs c))"
proof (induction ss arbitrary: i ids ctxs)
  case (Cons s ss)
  have "map (\<lambda>j. int (i + j) + 1) [0..<length (s # ss)]
      = (int i + 1) # map (\<lambda>j. int (i + 1 + j) + 1) [0..<length ss]"
    by (simp add: upt_conv_Cons map_Suc_upt [symmetric] del: upt_Suc)
  then show ?case by (auto simp: Cons.IH)
qed simp

text \<open>The package fields come together, and their reference is one of the dispatched ones.\<close>

definition package_bound :: "dispatch_command \<Rightarrow> bool" where
  "package_bound c \<longleftrightarrow>
     (dc_task_package_id c = None \<and> dc_task_package_content_hash c = None
        \<and> dc_task_package_context_ref c = None \<and> dc_task_package_supplements c = [])
   \<or> (\<exists>p r. dc_task_package_id c = Some p \<and> dc_task_package_context_ref c = Some r
        \<and> dc_task_package_content_hash c = Some (car_content_hash r) \<and> r \<in> set (dc_context_refs c))"

lemma package_issues_Nil_iff: "package_issues c = [] \<longleftrightarrow> package_bound c"
  by (cases "dc_task_package_id c"; cases "dc_task_package_content_hash c";
      cases "dc_task_package_context_ref c")
     (auto simp: package_issues_def package_bound_def hasPackage_def packageFields_def)

definition supplements_bound :: "dispatch_command \<Rightarrow> bool" where
  "supplements_bound c \<longleftrightarrow> (let ss = dc_task_package_supplements c in
     distinct (map sb_supplement_id ss) \<and> distinct (map (car_artifact_id \<circ> sb_context_ref) ss)
   \<and> (\<forall>i < length ss. sb_ordinal (ss ! i) = int i + 1)
   \<and> (\<forall>s \<in> set ss. sb_task_id s = dc_task_id c \<and> dc_task_package_id c = Some (sb_base_package_id s)
        \<and> sb_context_ref s \<in> set (dc_context_refs c)))"

lemma ordinals_iff:
  "map sb_ordinal ss = map (\<lambda>j. int j + 1) [0..<length ss] \<longleftrightarrow> (\<forall>i < length ss. sb_ordinal (ss ! i) = int i + 1)"
    (is "?l = ?r \<longleftrightarrow> _")
proof
  assume eq: "?l = ?r"
  show "\<forall>i < length ss. sb_ordinal (ss ! i) = int i + 1"
  proof (intro allI impI)
    fix i assume "i < length ss"
    then have "?l ! i = sb_ordinal (ss ! i)" "?r ! i = int i + 1" by simp_all
    with eq show "sb_ordinal (ss ! i) = int i + 1" by (simp only:)
  qed
next
  assume "\<forall>i < length ss. sb_ordinal (ss ! i) = int i + 1"
  then show "?l = ?r" by (intro nth_equalityI) simp_all
qed

definition continuation_bound :: "dispatch_command \<Rightarrow> bool" where
  "continuation_bound c \<longleftrightarrow> (\<forall>k. dc_continuation c = Some k \<longrightarrow>
     dc_context_refs c \<noteq> [] \<and> last (dc_context_refs c) = rc_replay_context_ref k
   \<and> dc_expected_revision c = rc_resume_commit_sha k \<and> dc_target_branch c = rc_resume_branch k
   \<and> dc_causation_id c = Some (rc_root_command_id k)
   \<and> rc_task_package_hash k = dc_task_package_content_hash c
   \<and> (rc_resume_session_id k = None) = (rc_session_portability k = SP_transcript_only)
   \<and> (rc_session_portability_evidence k = None) = (rc_session_portability k = SP_transcript_only))"

lemma continuation_issues_Nil_iff:
  "continuation_issues c (dc_continuation c) = [] \<longleftrightarrow> continuation_bound c"
  by (cases "dc_continuation c")
     (auto simp: continuation_bound_def same_ref_iff last_in_set dest: last_in_set)

text \<open>
  When the dispatch schema adds no issue. The command and its idempotency key are the stable
  identifier of the dispatch job and the command expires after it was issued; the task package is
  absent or complete and is one of the dispatched references; the supplements are distinct, numbered
  from one in order, bound to this task and package, and dispatched; and a continuation resumes the
  saved commit and branch, with its replay receipt last among the references and a provider session
  exactly when its portability was established.
\<close>

theorem V2DispatchCommand_issues_Nil_iff:
  "V2DispatchCommand_issues c = [] \<longleftrightarrow>
     dc_command_id c = v2CommandIdForDispatchJob (dc_dispatch_job_id c)
   \<and> dc_idempotency_key c = v2CommandIdForDispatchJob (dc_dispatch_job_id c)
   \<and> dc_issued_at c < dc_expires_at c
   \<and> package_bound c \<and> supplements_bound c \<and> continuation_bound c"
proof -
  have "identity_issues c = [] \<longleftrightarrow>
      dc_command_id c = v2CommandIdForDispatchJob (dc_dispatch_job_id c)
    \<and> dc_idempotency_key c = v2CommandIdForDispatchJob (dc_dispatch_job_id c)
    \<and> dc_issued_at c < dc_expires_at c"
    by (auto simp: identity_issues_def)
  moreover have "supplement_issues c 0 [] [] (dc_task_package_supplements c) = [] \<longleftrightarrow> supplements_bound c"
    by (auto simp: supplement_issues_Nil_iff supplements_bound_def Let_def ordinals_iff)
  ultimately show ?thesis
    by (simp add: V2DispatchCommand_issues_def package_issues_Nil_iff continuation_issues_Nil_iff)
qed

lemma v2CommandIdForDispatchJob_inj [simp]:
  "v2CommandIdForDispatchJob a = v2CommandIdForDispatchJob b \<longleftrightarrow> a = b"
  by (simp add: v2CommandIdForDispatchJob_def)

end
