(* ===== verification/Protocol.thy ===== *)
theory Protocol
  imports Replay V2_Dispatch
begin

section \<open>Runner protocol\<close>

text \<open>
  \<^verbatim>\<open>packages/contracts/src/protocol.ts\<close>: the command state machine, the envelopes of commands and
  events, command expiry, and the reference store that deduplicates commands. A date string is
  represented by the instant it denotes. An optional member that may also be \<^verbatim>\<open>null\<close> is an option of an
  option; whether a string is a URL is a parameter of the event schema.
\<close>

subsection \<open>Command state machine\<close>

datatype command_state =
    C_created | C_queued | C_delivered | C_accepted | C_executing | C_waiting_for_human
  | C_succeeded | C_failed | C_rejected | C_expired | C_cancelled

fun COMMAND_TRANSITIONS :: "command_state \<Rightarrow> command_state list" where
  "COMMAND_TRANSITIONS C_created = [C_queued, C_cancelled]"
| "COMMAND_TRANSITIONS C_queued = [C_delivered, C_expired, C_cancelled]"
| "COMMAND_TRANSITIONS C_delivered = [C_accepted, C_rejected, C_expired, C_cancelled]"
| "COMMAND_TRANSITIONS C_accepted = [C_executing, C_rejected, C_cancelled]"
| "COMMAND_TRANSITIONS C_executing = [C_waiting_for_human, C_succeeded, C_failed, C_cancelled]"
| "COMMAND_TRANSITIONS C_waiting_for_human = []"
| "COMMAND_TRANSITIONS C_succeeded = []"
| "COMMAND_TRANSITIONS C_failed = []"
| "COMMAND_TRANSITIONS C_rejected = []"
| "COMMAND_TRANSITIONS C_expired = []"
| "COMMAND_TRANSITIONS C_cancelled = []"

definition TERMINAL_COMMAND_STATES :: "command_state list" where
  "TERMINAL_COMMAND_STATES =
     [C_succeeded, C_waiting_for_human, C_failed, C_rejected, C_expired, C_cancelled]"

definition canCommandTransition :: "command_state \<Rightarrow> command_state \<Rightarrow> bool" where
  "canCommandTransition from dest \<longleftrightarrow> dest \<in> set (COMMAND_TRANSITIONS from)"

abbreviation terminal_command :: "command_state \<Rightarrow> bool" where
  "terminal_command s \<equiv> s \<in> set TERMINAL_COMMAND_STATES"

interpretation command_table: transition_table canCommandTransition terminal_command
  by unfold_locales (auto simp: TERMINAL_COMMAND_STATES_def canCommandTransition_def)

lemma terminal_command_iff: "terminal_command s \<longleftrightarrow> COMMAND_TRANSITIONS s = []"
  by (cases s) (auto simp: TERMINAL_COMMAND_STATES_def)

subsection \<open>Envelopes\<close>

record visual_evidence_request =
  ve_collection_id :: ident
  ve_project_id :: ident
  ve_work_item_id :: ident
  ve_conversation_id :: ident
  ve_phase_id :: ident
  ve_task_id :: ident
  ve_run_id :: ident
  ve_approved_mockup_version_id :: ident
  ve_repository_binding_id :: ident
  ve_runner_repository_id :: "ident option"
  ve_verification_result_id :: ident
  ve_deployment_record_id :: ident
  ve_deployment_observation_id :: ident
  ve_commit_sha :: string

datatype command_payload =
    CP_launch_fixture string
  | CP_launch_run ident ident string "dispatch_command option"
  | CP_collect_visual_evidence visual_evidence_request
  | CP_send_message ident string
  | CP_interrupt ident
  | CP_suspend ident
  | CP_resume_session ident
  | CP_cancel ident
  | CP_stop_after_current ident
  | CP_run_verification ident string

record command_envelope =
  ce_command_id :: ident
  ce_idempotency_key :: string
  ce_correlation_id :: ident
  ce_causation_id :: "ident option"
  ce_project_id :: ident
  ce_runner_id :: ident
  ce_generation :: nat
  ce_issued_by_session :: ident
  ce_issued_at :: millis
  ce_expires_at :: millis
  ce_payload :: command_payload

definition isCommandExpired :: "command_envelope \<Rightarrow> millis \<Rightarrow> bool" where
  "isCommandExpired c now \<longleftrightarrow> ce_expires_at c \<le> now"

datatype run_status =
    ST_started | ST_paused | ST_resumed | ST_waiting_for_human | ST_completed | ST_failed | ST_cancelled

record command_outcome =
  vo_name :: string
  vo_command :: "string list"
  vo_exit_code :: int
  vo_passed :: bool
  vo_output :: string

definition VerificationCommandOutcome :: "command_outcome \<Rightarrow> bool" where
  "VerificationCommandOutcome v \<longleftrightarrow>
     nonempty_str (vo_name v) \<and> list_all nonempty_str (vo_command v) \<and> vo_command v \<noteq> []"

datatype publication_outcome = PO_pushed | PO_local_only

record runner_failure =
  rf_stage :: string
  rf_code :: string
  rf_detail :: string

definition RunnerFailure :: "runner_failure \<Rightarrow> bool" where
  "RunnerFailure f \<longleftrightarrow> nonempty_str (rf_stage f) \<and> nonempty_str (rf_code f) \<and> nonempty_str (rf_detail f)"

definition bounded_text :: "nat \<Rightarrow> string \<Rightarrow> bool" where
  "bounded_text n s \<longleftrightarrow> V2NonEmptyString s \<and> max_len n s"

definition knowledgeText :: "string \<Rightarrow> bool" where
  "knowledgeText = bounded_text 4000"

definition knowledgeSummary :: "string \<Rightarrow> bool" where
  "knowledgeSummary = bounded_text 500"

definition knowledgeList :: "string list \<Rightarrow> bool" where
  "knowledgeList xs \<longleftrightarrow> list_all knowledgeText xs \<and> length xs \<le> 32"

record knowledge_registration =
  kr_run_id :: ident
  kr_provider :: string
  kr_model :: string
  kr_branch_or_workspace :: string
  kr_token_budget :: "int option"

definition RunnerKnowledgeRegistration :: "knowledge_registration \<Rightarrow> bool" where
  "RunnerKnowledgeRegistration k \<longleftrightarrow> nonempty_str (kr_run_id k) \<and> bounded_text 200 (kr_provider k)
     \<and> bounded_text 500 (kr_model k) \<and> bounded_text 500 (kr_branch_or_workspace k)
     \<and> opt_ok (\<lambda>n. 0 < n) (kr_token_budget k)"

datatype heartbeat_status = HS_working | HS_waiting | HS_blocked | HS_completed
datatype remaining_work = RW_small | RW_moderate | RW_significant
datatype traffic_light = TL_green | TL_yellow | TL_red

record knowledge_heartbeat =
  kh_run_id :: ident
  kh_status :: heartbeat_status
  kh_completed_since_last_update :: "string list"
  kh_currently_working_on :: "string list"
  kh_findings :: "string list"
  kh_blockers :: "string list"
  kh_decisions_needed :: "string list"
  kh_files_changed :: "string list"
  kh_tests :: string
  kh_estimated_remaining_work :: remaining_work
  kh_risk_level :: traffic_light

definition RunnerKnowledgeHeartbeat :: "knowledge_heartbeat \<Rightarrow> bool" where
  "RunnerKnowledgeHeartbeat k \<longleftrightarrow> nonempty_str (kh_run_id k)
     \<and> list_all knowledgeList [kh_completed_since_last_update k, kh_currently_working_on k,
          kh_findings k, kh_blockers k, kh_decisions_needed k, kh_files_changed k]
     \<and> knowledgeText (kh_tests k)"

datatype knowledge_change_kind =
    KC_new_standard | KC_modified_standard | KC_new_interface | KC_changed_interface
  | KC_new_dependency | KC_new_constraint | KC_discovered_limitation | KC_confirmed_assumption
  | KC_invalidated_assumption | KC_new_defect | KC_performance_finding | KC_reusable_component
  | KC_suggested_decision_record

record knowledge_change =
  kc_kind :: knowledge_change_kind
  kc_summary :: string
  kc_detail :: string
  kc_affected_package_ids :: "ident list"

record package_update =
  pu_package_id :: ident
  pu_current_version :: string
  pu_recommended_version :: string

record knowledge_delta =
  kd_run_id :: ident
  kd_changes :: "knowledge_change list"
  kd_recommended_package_updates :: "package_update list"

definition RunnerKnowledgeDelta :: "knowledge_delta \<Rightarrow> bool" where
  "RunnerKnowledgeDelta k \<longleftrightarrow> nonempty_str (kd_run_id k)
     \<and> list_all (\<lambda>c. knowledgeSummary (kc_summary c) \<and> knowledgeText (kc_detail c)
          \<and> list_all nonempty_str (kc_affected_package_ids c) \<and> length (kc_affected_package_ids c) \<le> 32)
        (kd_changes k)
     \<and> kd_changes k \<noteq> [] \<and> length (kd_changes k) \<le> 32
     \<and> list_all (\<lambda>u. nonempty_str (pu_package_id u) \<and> nonempty_str (pu_current_version u)
          \<and> nonempty_str (pu_recommended_version u)) (kd_recommended_package_updates k)
     \<and> length (kd_recommended_package_updates k) \<le> 32"

datatype handoff_status = HO_completed | HO_blocked | HO_failed
datatype criterion_result = CR_pass | CR_fail | CR_partial

record handoff_criterion =
  hc_criterion :: string
  hc_result :: criterion_result
  hc_evidence :: string

record knowledge_handoff =
  ho_run_id :: ident
  ho_status :: handoff_status
  ho_summary :: string
  ho_deliverables :: "string list"
  ho_files_changed :: "string list"
  ho_interfaces_used :: "string list"
  ho_interfaces_changed :: "string list"
  ho_tests_added :: "string list"
  ho_test_results :: "string list"
  ho_acceptance_criteria :: "handoff_criterion list"
  ho_known_limitations :: "string list"
  ho_open_issues :: "string list"
  ho_dependencies_created :: "string list"
  ho_recommended_package_updates :: "string list"
  ho_recommended_follow_up_tasks :: "string list"
  ho_branch :: string
  ho_commit :: string
  ho_artifacts :: "string list"

definition RunnerKnowledgeHandoff :: "knowledge_handoff \<Rightarrow> bool" where
  "RunnerKnowledgeHandoff k \<longleftrightarrow> nonempty_str (ho_run_id k) \<and> knowledgeText (ho_summary k)
     \<and> list_all knowledgeList [ho_deliverables k, ho_files_changed k, ho_interfaces_used k,
          ho_interfaces_changed k, ho_tests_added k, ho_test_results k, ho_known_limitations k,
          ho_open_issues k, ho_dependencies_created k, ho_recommended_package_updates k,
          ho_recommended_follow_up_tasks k, ho_artifacts k]
     \<and> list_all (\<lambda>c. knowledgeText (hc_criterion c) \<and> knowledgeText (hc_evidence c))
        (ho_acceptance_criteria k)
     \<and> length (ho_acceptance_criteria k) \<le> 32
     \<and> bounded_text 500 (ho_branch k) \<and> bounded_text 500 (ho_commit k)"

datatype run_integration = RI_integrated | RI_already_integrated | RI_conflict

record run_publication =
  pb_run_id :: ident
  pb_outcome :: publication_outcome
  pb_branch :: string
  pb_commit_sha :: string
  pb_remote :: "string option"
  pb_pull_request_url :: "string option"
  pb_pull_request_note :: "string option"
  pb_integration_outcome :: "run_integration option option"
  pb_integrated_base_branch :: "string option option"
  pb_integrated_base_commit :: "string option option"

datatype runtime_outcome = RO_completed | RO_waiting_for_human | RO_failed | RO_cancelled

record runtime_result =
  rt_run_id :: ident
  rt_runtime :: string
  rt_outcome :: runtime_outcome
  rt_session_id :: "string option"
  rt_stop_reason :: "string option"
  rt_detail :: string

record human_wait_request =
  hw_run_id :: ident
  hw_decision_point :: string
  hw_question :: string
  hw_question_hash :: string
  hw_compact_summary :: string
  hw_compact_summary_hash :: string
  hw_runtime :: string
  hw_session_id :: "string option"
  hw_ask_channel_version :: int
  hw_ask_instruction_hash :: string

record continuation_receipt =
  cc_run_id :: ident
  cc_wait_id :: ident
  cc_root_command_id :: ident
  cc_context_hash :: string
  cc_replay_context_hash :: string

datatype event_payload =
    EP_heartbeat
  | EP_command_ack ident command_state string
  | EP_run_log ident string
  | EP_run_status ident run_status "runner_failure option"
  | EP_verification_result ident string bool string "command_outcome list option"
  | EP_run_published run_publication
  | EP_usage_report ident int int
  | EP_runtime_result runtime_result
  | EP_human_wait_requested human_wait_request
  | EP_continuation_context_applied continuation_receipt
  | EP_knowledge_registration knowledge_registration
  | EP_knowledge_heartbeat knowledge_heartbeat
  | EP_knowledge_delta knowledge_delta
  | EP_knowledge_handoff knowledge_handoff

fun EventPayload :: "(string \<Rightarrow> bool) \<Rightarrow> event_payload \<Rightarrow> bool" where
  "EventPayload is_url EP_heartbeat \<longleftrightarrow> True"
| "EventPayload is_url (EP_command_ack c st detail) \<longleftrightarrow> nonempty_str c"
| "EventPayload is_url (EP_run_log r chunk) \<longleftrightarrow> nonempty_str r"
| "EventPayload is_url (EP_run_status r st failure) \<longleftrightarrow> nonempty_str r \<and> opt_ok RunnerFailure failure"
| "EventPayload is_url (EP_verification_result n sha passed digest results) \<longleftrightarrow>
     nonempty_str n \<and> nonempty_str sha \<and> nonempty_str digest
   \<and> opt_ok (list_all VerificationCommandOutcome) results"
| "EventPayload is_url (EP_run_published p) \<longleftrightarrow>
     nonempty_str (pb_run_id p) \<and> nonempty_str (pb_branch p) \<and> nonempty_str (pb_commit_sha p)
   \<and> opt_ok is_url (pb_pull_request_url p)"
| "EventPayload is_url (EP_usage_report r i ou) \<longleftrightarrow> nonempty_str r \<and> 0 \<le> i \<and> 0 \<le> ou"
| "EventPayload is_url (EP_runtime_result r) \<longleftrightarrow>
     nonempty_str (rt_run_id r) \<and> nonempty_str (rt_runtime r) \<and> opt_ok nonempty_str (rt_session_id r)
   \<and> opt_ok (bounded_text 500) (rt_stop_reason r) \<and> max_len 4000 (rt_detail r)"
| "EventPayload is_url (EP_human_wait_requested h) \<longleftrightarrow>
     nonempty_str (hw_run_id h) \<and> bounded_text 500 (hw_decision_point h)
   \<and> bounded_text 8000 (hw_question h) \<and> V2Sha256Hex (hw_question_hash h)
   \<and> bounded_text 16000 (hw_compact_summary h) \<and> V2Sha256Hex (hw_compact_summary_hash h)
   \<and> nonempty_str (hw_runtime h) \<and> opt_ok nonempty_str (hw_session_id h)
   \<and> hw_ask_channel_version h = V2_HUMAN_WAIT_CHANNEL_VERSION
   \<and> hw_ask_instruction_hash h = V2_HUMAN_WAIT_INSTRUCTION_HASH"
| "EventPayload is_url (EP_continuation_context_applied r) \<longleftrightarrow>
     nonempty_str (cc_run_id r) \<and> nonempty_str (cc_wait_id r) \<and> nonempty_str (cc_root_command_id r)
   \<and> V2Sha256Hex (cc_context_hash r) \<and> V2Sha256Hex (cc_replay_context_hash r)"
| "EventPayload is_url (EP_knowledge_registration k) \<longleftrightarrow> RunnerKnowledgeRegistration k"
| "EventPayload is_url (EP_knowledge_heartbeat k) \<longleftrightarrow> RunnerKnowledgeHeartbeat k"
| "EventPayload is_url (EP_knowledge_delta k) \<longleftrightarrow> RunnerKnowledgeDelta k"
| "EventPayload is_url (EP_knowledge_handoff k) \<longleftrightarrow> RunnerKnowledgeHandoff k"

record event_envelope =
  ev_event_seq :: int
  ev_runner_id :: ident
  ev_generation :: nat
  ev_correlation_id :: ident
  ev_causation_id :: "ident option"
  ev_occurred_at :: millis
  ev_payload :: event_payload

definition EventEnvelope :: "(string \<Rightarrow> bool) \<Rightarrow> event_envelope \<Rightarrow> bool" where
  "EventEnvelope is_url e \<longleftrightarrow> 0 < ev_event_seq e \<and> nonempty_str (ev_runner_id e)
     \<and> nonempty_str (ev_correlation_id e) \<and> opt_ok nonempty_str (ev_causation_id e)
     \<and> EventPayload is_url (ev_payload e)"

fun CommandPayload :: "command_payload \<Rightarrow> bool" where
  "CommandPayload (CP_launch_fixture f) \<longleftrightarrow> nonempty_str f"
| "CommandPayload (CP_launch_run n r p d) \<longleftrightarrow>
     nonempty_str n \<and> nonempty_str r \<and> nonempty_str p \<and> opt_ok V2DispatchCommand_valid d"
| "CommandPayload (CP_collect_visual_evidence v) \<longleftrightarrow>
     list_all nonempty_str [ve_collection_id v, ve_project_id v, ve_work_item_id v, ve_conversation_id v,
       ve_phase_id v, ve_task_id v, ve_run_id v, ve_approved_mockup_version_id v,
       ve_repository_binding_id v, ve_verification_result_id v, ve_deployment_record_id v,
       ve_deployment_observation_id v]
   \<and> opt_ok nonempty_str (ve_runner_repository_id v) \<and> V2GitCommitSha (ve_commit_sha v)"
| "CommandPayload (CP_send_message r m) \<longleftrightarrow> nonempty_str r \<and> nonempty_str m"
| "CommandPayload (CP_interrupt r) \<longleftrightarrow> nonempty_str r"
| "CommandPayload (CP_suspend r) \<longleftrightarrow> nonempty_str r"
| "CommandPayload (CP_resume_session r) \<longleftrightarrow> nonempty_str r"
| "CommandPayload (CP_cancel r) \<longleftrightarrow> nonempty_str r"
| "CommandPayload (CP_stop_after_current r) \<longleftrightarrow> nonempty_str r"
| "CommandPayload (CP_run_verification n c) \<longleftrightarrow> nonempty_str n \<and> nonempty_str c"

definition CommandEnvelope :: "command_envelope \<Rightarrow> bool" where
  "CommandEnvelope c \<longleftrightarrow> nonempty_str (ce_command_id c) \<and> nonempty_str (ce_idempotency_key c)
     \<and> nonempty_str (ce_correlation_id c) \<and> opt_ok nonempty_str (ce_causation_id c)
     \<and> nonempty_str (ce_project_id c) \<and> nonempty_str (ce_runner_id c)
     \<and> nonempty_str (ce_issued_by_session c) \<and> CommandPayload (ce_payload c)"

datatype runner_capability =
    RC_workspace_picker | RC_workspace_repository_inventory | RC_workspace_clone
  | RC_workspace_clone_destination | RC_workspace_delete | RC_repository_graphify | RC_model_proxy
  | RC_knowledge_transport

record reconcile_request =
  rq_runner_id :: ident
  rq_generation :: nat
  rq_capabilities :: "runner_capability list"
  rq_last_event_seq_sent :: int
  rq_recently_executed_command_ids :: "ident list"

record reconcile_response =
  rp_ack_event_seq :: int
  rp_generation :: nat
  rp_capabilities :: "runner_capability list option"
  rp_resend_commands :: "command_envelope list"

subsection \<open>Command deduplication\<close>

text \<open>
  \<^verbatim>\<open>execute\<close> is asynchronous: it checks the recorded outcomes, awaits the command, and records the
  outcome. The two halves around the \<^verbatim>\<open>await\<close> are two operations; between them other calls run.
\<close>

type_synonym 'r dedup_store = "(ident, 'r) jmap"

definition dedup_has :: "ident \<Rightarrow> 'r dedup_store \<Rightarrow> bool" where
  "dedup_has c outcomes \<longleftrightarrow> jget outcomes c \<noteq> None"

text \<open>The first half: \<^verbatim>\<open>Some\<close> outcome for a duplicate, \<^verbatim>\<open>None\<close> when the command is to be run.\<close>

definition execute_begin :: "ident \<Rightarrow> 'r dedup_store \<Rightarrow> 'r option" where
  "execute_begin c outcomes = jget outcomes c"

definition execute_finish :: "ident \<Rightarrow> 'r \<Rightarrow> 'r dedup_store \<Rightarrow> 'r dedup_store" where
  "execute_finish c r outcomes = jset c r outcomes"

text \<open>A call whose \<^verbatim>\<open>run\<close> yields \<open>r\<close> and that no other call overlaps: duplicate flag, result, store.\<close>

definition execute :: "ident \<Rightarrow> 'r \<Rightarrow> 'r dedup_store \<Rightarrow> (bool \<times> 'r) \<times> 'r dedup_store" where
  "execute c r outcomes =
     (case execute_begin c outcomes of
        Some old \<Rightarrow> ((True, old), outcomes)
      | None \<Rightarrow> ((False, r), execute_finish c r outcomes))"

fun executes :: "(ident \<times> 'r) list \<Rightarrow> 'r dedup_store \<Rightarrow> (bool \<times> 'r) list \<times> 'r dedup_store" where
  "executes [] s = ([], s)"
| "executes ((c, r) # cs) s =
     (case execute c r s of (x, s') \<Rightarrow> case executes cs s' of (xs, s'') \<Rightarrow> (x # xs, s''))"

lemma executes_known:
  "jget s c = Some r \<Longrightarrow> jget (snd (executes cs s)) c = Some r
     \<and> (\<forall>i < length cs. fst (cs ! i) = c \<longrightarrow> fst (executes cs s) ! i = (True, r))"
proof (induction cs arbitrary: s)
  case (Cons p cs)
  obtain c' r' where p: "p = (c', r')" by (cases p)
  obtain x s' where e: "execute c' r' s = (x, s')" by (cases "execute c' r' s")
  have s': "jget s' c = Some r" and x: "c' = c \<Longrightarrow> x = (True, r)"
    using e Cons.prems by (auto simp: execute_def execute_begin_def execute_finish_def split: option.splits)
  from Cons.IH [OF s'] show ?case
    using x by (auto simp: p e nth_Cons split: prod.splits nat.splits)
qed simp

text \<open>
  Commands executed one after the other run at most once per identifier. In any sequence of
  calls, the first call with an identifier that has no recorded outcome runs it and every later one
  is reported as a duplicate with the outcome that first call recorded.
\<close>

theorem executes_once:
  assumes "jget s (fst (cs ! i)) = None" and "i < j" and "j < length cs"
    and "fst (cs ! j) = fst (cs ! i)" and "\<And>h. h < i \<Longrightarrow> fst (cs ! h) \<noteq> fst (cs ! i)"
  shows "fst (executes cs s) ! i = (False, snd (cs ! i))
     \<and> fst (executes cs s) ! j = (True, snd (cs ! i))"
  using assms
proof (induction cs arbitrary: s i j)
  case (Cons p cs)
  obtain c' r' where p: "p = (c', r')" by (cases p)
  obtain x s' where e: "execute c' r' s = (x, s')" by (cases "execute c' r' s")
  from Cons.prems(2) obtain j' where j: "j = Suc j'" by (cases j) auto
  show ?case
  proof (cases i)
    case 0
    then have "x = (False, r')" "jget s' c' = Some r'"
      using e p Cons.prems(1) by (auto simp: execute_def execute_begin_def execute_finish_def)
    with executes_known [of s' c' r' cs] Cons.prems(3,4) 0 j p e show ?thesis
      by (auto split: prod.splits)
  next
    case (Suc i')
    have "c' \<noteq> fst (cs ! i')" using Cons.prems(5) [of 0] Suc p by simp
    then have "jget s' (fst (cs ! i')) = None"
      using e Cons.prems(1) Suc
      by (auto simp: execute_def execute_begin_def execute_finish_def split: option.splits)
    moreover have "fst (cs ! h) \<noteq> fst (cs ! i')" if "h < i'" for h
      using Cons.prems(5) [of "Suc h"] that Suc by simp
    ultimately have "fst (executes cs s') ! i' = (False, snd (cs ! i'))
        \<and> fst (executes cs s') ! j' = (True, snd (cs ! i'))"
      using Cons.prems(2-4) Suc j by (intro Cons.IH) auto
    with Suc j p e show ?thesis by (auto split: prod.splits)
  qed
qed simp

theorem executes_once_witness:
  "fst (executes [(''c1'', 1::int), (''c2'', 2), (''c1'', 3)] []) ! 2 = (True, 1)"
  using executes_once [of "[]" "[(''c1'', 1::int), (''c2'', 2), (''c1'', 3)]" 0 2] by simp

text \<open>
  Interleaved calls: the state also lists the commands that were actually run. A call that begins
  with no recorded outcome runs its command; it records the outcome when it finishes.
\<close>

datatype 'r dedup_step = DS_begin ident | DS_finish ident 'r

fun do_dedup_step :: "'r dedup_step \<Rightarrow> 'r dedup_store \<times> ident list \<Rightarrow> 'r dedup_store \<times> ident list" where
  "do_dedup_step (DS_begin c) (s, runs) = (s, if execute_begin c s = None then runs @ [c] else runs)"
| "do_dedup_step (DS_finish c r) (s, runs) = (execute_finish c r s, runs)"

text \<open>
  Two overlapping calls of one command both run it, although a replayed command is not to be
  executed twice.
\<close>

lemma overlapping_executes_run_twice:
  "\<not> dedup_has c s \<Longrightarrow>
     snd (fold do_dedup_step [DS_begin c, DS_begin c, DS_finish c r1, DS_finish c r2] (s, [])) = [c, c]"
  by (simp add: dedup_has_def execute_begin_def execute_finish_def)

end
