(* ===== verification/Relay.thy ===== *)
theory Relay
  imports Protocol
begin

section \<open>Relay stores\<close>

text \<open>
  \<^verbatim>\<open>apps/server/src/stores.ts\<close>: runners and their generations, the durable command outbox, the event
  log with its watermark per runner, the audit trail and its compaction, and the kill switch. The
  serialized snapshot is represented by the state it encodes, so the cache of the last serialization
  is an optional state. Plain objects used as tables are maps over their own keys: identifiers are
  generated by the server and never name a property of \<^verbatim>\<open>Object.prototype\<close>.
\<close>

subsection \<open>State\<close>

record runner_record =
  rr_runner_id :: ident
  rr_public_key_pem :: string
  rr_generation :: nat
  rr_last_seen_at :: "millis option"

record command_record =
  cr_envelope :: command_envelope
  cr_state :: command_state
  cr_updated_at :: millis
  cr_superseded_terminal :: "command_state option"

text \<open>\<^verbatim>\<open>at\<close> is \<^verbatim>\<open>None\<close> for a stored string that is no date.\<close>

record audit_entry =
  ae_at :: "millis option"
  ae_actor :: string
  ae_action :: string
  ae_detail :: string

record pairing_record =
  pg_code :: string
  pg_expires_at :: millis

record store_state =
  ss_runners :: "(ident, runner_record) jmap"
  ss_commands :: "(ident, command_record) jmap"
  ss_eventsByRunner :: "(ident, event_envelope list) jmap"
  ss_watermark :: "(ident, int) jmap"
  ss_audit :: "audit_entry list"
  ss_pairings :: "(string, pairing_record) jmap"
  ss_killSwitch :: bool

datatype ingest_outcome = IO_accepted | IO_duplicate | IO_out_of_order

record relay_stores =
  rl_state :: store_state
  rl_serializedSnapshot :: "store_state option"
  rl_rateLimitedAuditAt :: "(string, millis) jmap"

definition empty_state :: store_state where
  "empty_state = \<lparr>ss_runners = [], ss_commands = [], ss_eventsByRunner = [], ss_watermark = [],
     ss_audit = [], ss_pairings = [], ss_killSwitch = False\<rparr>"

definition new_stores :: "store_state option \<Rightarrow> relay_stores" where
  "new_stores initial = \<lparr>rl_state = (case initial of Some s \<Rightarrow> s | None \<Rightarrow> empty_state),
     rl_serializedSnapshot = None, rl_rateLimitedAuditAt = []\<rparr>"

subsection \<open>Compaction of the audit trail\<close>

definition RUNNER_EVENT_REJECTED_ACTION :: string where
  "RUNNER_EVENT_REJECTED_ACTION = ''runner.event_rejected''"

definition RUNNER_EVENT_REJECTION_AUDIT_WINDOW_MS :: millis where
  "RUNNER_EVENT_REJECTION_AUDIT_WINDOW_MS = 60000"

definition RELAY_AUDIT_COMPACTION_THRESHOLD :: nat where
  "RELAY_AUDIT_COMPACTION_THRESHOLD = 10000"

text \<open>The key of a rejection: actor, detail and minute. The parts are separated by NUL in the source.\<close>

type_synonym rejection_bucket = "string \<times> string \<times> int"

definition bucket_of :: "audit_entry \<Rightarrow> rejection_bucket option" where
  "bucket_of e =
     (if ae_action e \<noteq> RUNNER_EVENT_REJECTED_ACTION then None
      else case ae_at e of
             None \<Rightarrow> None
           | Some t \<Rightarrow> Some (ae_actor e, ae_detail e, t div RUNNER_EVENT_REJECTION_AUDIT_WINDOW_MS))"

fun compact_loop :: "rejection_bucket list \<Rightarrow> audit_entry list \<Rightarrow> audit_entry list \<times> nat" where
  "compact_loop seen [] = ([], 0)"
| "compact_loop seen (e # es) =
     (case bucket_of e of
        None \<Rightarrow> (case compact_loop seen es of (kept, removed) \<Rightarrow> (e # kept, removed))
      | Some b \<Rightarrow>
          if b \<in> set seen then
            (case compact_loop seen es of (kept, removed) \<Rightarrow> (kept, removed + 1))
          else
            (case compact_loop (b # seen) es of (kept, removed) \<Rightarrow> (e # kept, removed)))"

definition compaction_note :: "millis option \<Rightarrow> nat \<Rightarrow> audit_entry" where
  "compaction_note last_at removed = \<lparr>ae_at = last_at, ae_actor = ''system'', ae_action = ''audit.compacted'',
     ae_detail = ''Collapsed '' @ dec removed @ '' repeated '' @ RUNNER_EVENT_REJECTED_ACTION @
       '' records into one sample per minute.''\<rparr>"

text \<open>Returns whether it compacted, and the state.\<close>

definition compactPathologicalRunnerRejections :: "store_state \<Rightarrow> bool \<times> store_state" where
  "compactPathologicalRunnerRejections s =
     (if length (ss_audit s) < RELAY_AUDIT_COMPACTION_THRESHOLD then (False, s)
      else case compact_loop [] (ss_audit s) of
             (compacted, removed) \<Rightarrow>
               if removed = 0 then (False, s)
               else (True, s\<lparr>ss_audit := compacted @
                      [compaction_note (if ss_audit s = [] then Some 0 else ae_at (last (ss_audit s))) removed]\<rparr>))"

subsection \<open>Snapshots\<close>

definition changed :: "relay_stores \<Rightarrow> relay_stores" where
  "changed r = r\<lparr>rl_serializedSnapshot := None\<rparr>"

definition on_state :: "(store_state \<Rightarrow> store_state) \<Rightarrow> relay_stores \<Rightarrow> relay_stores" where
  "on_state f r = r\<lparr>rl_state := f (rl_state r)\<rparr>"

definition store_snapshot :: "relay_stores \<Rightarrow> store_state \<times> relay_stores" where
  "store_snapshot r = (case rl_serializedSnapshot r of
       Some s \<Rightarrow> (s, r)
     | None \<Rightarrow> (rl_state r, r\<lparr>rl_serializedSnapshot := Some (rl_state r)\<rparr>))"

definition store_restore :: "store_state \<Rightarrow> relay_stores" where
  "store_restore json = (case compactPathologicalRunnerRejections json of
       (compacted, s) \<Rightarrow> (new_stores (Some s))\<lparr>rl_serializedSnapshot := (if compacted then None else Some json)\<rparr>)"

subsection \<open>Audit\<close>

definition audit :: "string \<Rightarrow> string \<Rightarrow> string \<Rightarrow> millis \<Rightarrow> relay_stores \<Rightarrow> relay_stores" where
  "audit actor act detail now r = changed (on_state (\<lambda>s. s\<lparr>ss_audit := ss_audit s @
     [\<lparr>ae_at = Some now, ae_actor = actor, ae_action = act, ae_detail = detail\<rparr>]\<rparr>) r)"

definition rate_key :: "string \<Rightarrow> string \<Rightarrow> string \<Rightarrow> string" where
  "rate_key actor act detail = actor @ CHR 0x00 # act @ CHR 0x00 # detail"

definition auditRateLimited ::
  "string \<Rightarrow> string \<Rightarrow> string \<Rightarrow> millis \<Rightarrow> millis \<Rightarrow> relay_stores \<Rightarrow> bool \<times> relay_stores" where
  "auditRateLimited actor act detail now windowMs r =
     (case jget (rl_rateLimitedAuditAt r) (rate_key actor act detail) of
        Some prior \<Rightarrow>
          if now - prior < windowMs then (False, r)
          else (True, audit actor act detail now
                 (r\<lparr>rl_rateLimitedAuditAt := jset (rate_key actor act detail) now (rl_rateLimitedAuditAt r)\<rparr>))
      | None \<Rightarrow> (True, audit actor act detail now
                 (r\<lparr>rl_rateLimitedAuditAt := jset (rate_key actor act detail) now (rl_rateLimitedAuditAt r)\<rparr>)))"

subsection \<open>Pairing and runners\<close>

definition createPairing :: "string \<Rightarrow> millis \<Rightarrow> relay_stores \<Rightarrow> relay_stores" where
  "createPairing code expiresAt r = changed (on_state (\<lambda>s. s\<lparr>ss_pairings :=
     jset code \<lparr>pg_code = code, pg_expires_at = expiresAt\<rparr> (ss_pairings s)\<rparr>) r)"

definition consumePairing :: "string \<Rightarrow> millis \<Rightarrow> relay_stores \<Rightarrow> bool \<times> relay_stores" where
  "consumePairing code now r = (case jget (ss_pairings (rl_state r)) code of
       None \<Rightarrow> (False, r)
     | Some p \<Rightarrow> (pg_expires_at p > now,
         changed (on_state (\<lambda>s. s\<lparr>ss_pairings := jdel code (ss_pairings s)\<rparr>) r)))"

definition next_generation :: "ident \<Rightarrow> store_state \<Rightarrow> nat" where
  "next_generation k s = (case jget (ss_runners s) k of Some x \<Rightarrow> rr_generation x | None \<Rightarrow> 0) + 1"

definition put_runner :: "runner_record \<Rightarrow> relay_stores \<Rightarrow> relay_stores" where
  "put_runner x r = changed (on_state (\<lambda>s. s\<lparr>ss_runners := jset (rr_runner_id x) x (ss_runners s)\<rparr>) r)"

definition registerRunner :: "ident \<Rightarrow> string \<Rightarrow> relay_stores \<Rightarrow> runner_record \<times> relay_stores" where
  "registerRunner k pem r =
     (let x = \<lparr>rr_runner_id = k, rr_public_key_pem = pem,
               rr_generation = next_generation k (rl_state r), rr_last_seen_at = None\<rparr>
      in (x, put_runner x r))"

definition reserveRunnerGeneration :: "ident \<Rightarrow> relay_stores \<Rightarrow> nat \<times> relay_stores" where
  "reserveRunnerGeneration k r =
     (let x = \<lparr>rr_runner_id = k, rr_public_key_pem = [],
               rr_generation = next_generation k (rl_state r), rr_last_seen_at = None\<rparr>
      in (rr_generation x, put_runner x r))"

definition enrollRunnerAtGeneration ::
  "ident \<Rightarrow> string \<Rightarrow> nat \<Rightarrow> relay_stores \<Rightarrow> runner_record option \<times> relay_stores" where
  "enrollRunnerAtGeneration k pem generation r =
     (case jget (ss_runners (rl_state r)) k of
        None \<Rightarrow>
          let x = \<lparr>rr_runner_id = k, rr_public_key_pem = pem, rr_generation = generation, rr_last_seen_at = None\<rparr>
          in (Some x, put_runner x r)
      | Some x \<Rightarrow>
          if rr_generation x \<noteq> generation then (None, r)
          else if rr_public_key_pem x \<noteq> [] \<and> rr_public_key_pem x \<noteq> pem then (None, r)
          else (Some (x\<lparr>rr_public_key_pem := pem\<rparr>),
                changed (on_state (\<lambda>s. s\<lparr>ss_runners := jset k (x\<lparr>rr_public_key_pem := pem\<rparr>) (ss_runners s)\<rparr>) r)))"

definition restoreDurableRunnerIdentity ::
  "ident \<Rightarrow> string \<Rightarrow> nat \<Rightarrow> relay_stores \<Rightarrow> runner_record \<times> relay_stores" where
  "restoreDurableRunnerIdentity k pem generation r =
     (let x = \<lparr>rr_runner_id = k, rr_public_key_pem = pem, rr_generation = generation, rr_last_seen_at = None\<rparr>
      in (x, put_runner x r))"

definition markSeen :: "ident \<Rightarrow> millis \<Rightarrow> relay_stores \<Rightarrow> relay_stores" where
  "markSeen k now r = (case jget (ss_runners (rl_state r)) k of
       None \<Rightarrow> r
     | Some x \<Rightarrow> changed (on_state (\<lambda>s. s\<lparr>ss_runners := jset k (x\<lparr>rr_last_seen_at := Some now\<rparr>) (ss_runners s)\<rparr>) r))"

datatype relay_error = UnknownRunner ident | ReplayedWithDifferentEnvelope ident

definition revokeRunnerSessions :: "ident \<Rightarrow> (relay_stores, relay_error, nat) action" where
  "revokeRunnerSessions k r = (case jget (ss_runners (rl_state r)) k of
       None \<Rightarrow> (Inl (UnknownRunner k), r)
     | Some x \<Rightarrow> (Inr (rr_generation x + 1),
         changed (on_state (\<lambda>s. s\<lparr>ss_runners :=
           jset k (x\<lparr>rr_generation := rr_generation x + 1\<rparr>) (ss_runners s)\<rparr>) r)))"

subsection \<open>The command outbox\<close>

definition enqueueCommand :: "command_envelope \<Rightarrow> millis \<Rightarrow> (relay_stores, relay_error, command_record) action" where
  "enqueueCommand e now r = (case jget (ss_commands (rl_state r)) (ce_command_id e) of
       Some x \<Rightarrow>
         if cr_envelope x \<noteq> e then (Inl (ReplayedWithDifferentEnvelope (ce_command_id e)), r) else (Inr x, r)
     | None \<Rightarrow>
         let x = \<lparr>cr_envelope = e, cr_state = C_queued, cr_updated_at = now, cr_superseded_terminal = None\<rparr>
         in (Inr x, changed (on_state (\<lambda>s. s\<lparr>ss_commands := jset (ce_command_id e) x (ss_commands s)\<rparr>) r)))"

definition put_command :: "ident \<Rightarrow> command_record \<Rightarrow> relay_stores \<Rightarrow> relay_stores" where
  "put_command k x r = changed (on_state (\<lambda>s. s\<lparr>ss_commands := jset k x (ss_commands s)\<rparr>) r)"

definition setCommandState ::
  "ident \<Rightarrow> command_state \<Rightarrow> millis \<Rightarrow> relay_stores \<Rightarrow> command_record option \<times> relay_stores" where
  "setCommandState k dest now r = (case jget (ss_commands (rl_state r)) k of
       None \<Rightarrow> (None, r)
     | Some x \<Rightarrow>
         if cr_state x = dest then (Some x, r)
         else if terminal_command (cr_state x) then
           (if terminal_command dest \<and> cr_superseded_terminal x \<noteq> Some dest
            then (Some (x\<lparr>cr_superseded_terminal := Some dest\<rparr>),
                  put_command k (x\<lparr>cr_superseded_terminal := Some dest\<rparr>) r)
            else (Some x, r))
         else if \<not> canCommandTransition (cr_state x) dest then (Some x, r)
         else (Some (x\<lparr>cr_state := dest, cr_updated_at := now\<rparr>),
               put_command k (x\<lparr>cr_state := dest, cr_updated_at := now\<rparr>) r))"

text \<open>
  The loop over the outbox: a row that has expired is moved to \<^verbatim>\<open>expired\<close> on the way. The rows are
  those present when the loop starts; only their states change.
\<close>

fun pending_loop ::
  "ident \<Rightarrow> ident list \<Rightarrow> millis \<Rightarrow> command_record list \<Rightarrow> relay_stores \<Rightarrow> command_envelope list \<times> relay_stores" where
  "pending_loop k executed now [] r = ([], r)"
| "pending_loop k executed now (x # xs) r =
     (if ce_runner_id (cr_envelope x) \<noteq> k then pending_loop k executed now xs r
      else if cr_state x \<noteq> C_queued \<and> cr_state x \<noteq> C_delivered then pending_loop k executed now xs r
      else if ce_command_id (cr_envelope x) \<in> set executed then pending_loop k executed now xs r
      else if isCommandExpired (cr_envelope x) now then
        pending_loop k executed now xs (snd (setCommandState (ce_command_id (cr_envelope x)) C_expired now r))
      else case pending_loop k executed now xs r of (es, r') \<Rightarrow> (cr_envelope x # es, r'))"

definition pendingCommandsFor ::
  "ident \<Rightarrow> ident list \<Rightarrow> millis \<Rightarrow> relay_stores \<Rightarrow> command_envelope list \<times> relay_stores" where
  "pendingCommandsFor k executed now r =
     (case pending_loop k executed now (jvalues (ss_commands (rl_state r))) r of
        (es, r') \<Rightarrow> (sort_key ce_issued_at es, r'))"

subsection \<open>The event log\<close>

definition eventWatermark :: "ident \<Rightarrow> relay_stores \<Rightarrow> int" where
  "eventWatermark k r = (case jget (ss_watermark (rl_state r)) k of Some w \<Rightarrow> w | None \<Rightarrow> 0)"

definition MAX_SAFE_INTEGER :: int where
  "MAX_SAFE_INTEGER = 2 ^ 53 - 1"

definition acknowledgeEventWatermark :: "ident \<Rightarrow> int \<Rightarrow> relay_stores \<Rightarrow> relay_stores" where
  "acknowledgeEventWatermark k n r =
     (if \<bar>n\<bar> > MAX_SAFE_INTEGER \<or> n < 0 then r
      else if n \<le> eventWatermark k r then r
      else changed (on_state (\<lambda>s. s\<lparr>ss_watermark := jset k n (ss_watermark s)\<rparr>) r))"

definition eventsFor :: "ident \<Rightarrow> relay_stores \<Rightarrow> event_envelope list" where
  "eventsFor k r = (case jget (ss_eventsByRunner (rl_state r)) k of Some es \<Rightarrow> es | None \<Rightarrow> [])"

definition ingestEvent :: "event_envelope \<Rightarrow> relay_stores \<Rightarrow> ingest_outcome \<times> relay_stores" where
  "ingestEvent e r =
     (let watermark = eventWatermark (ev_runner_id e) r in
      if ev_event_seq e \<le> watermark then (IO_duplicate, r)
      else if ev_event_seq e \<noteq> watermark + 1 then (IO_out_of_order, r)
      else (IO_accepted, changed (on_state (\<lambda>s. s\<lparr>
        ss_eventsByRunner := jset (ev_runner_id e) (eventsFor (ev_runner_id e) r @ [e]) (ss_eventsByRunner s),
        ss_watermark := jset (ev_runner_id e) (ev_event_seq e) (ss_watermark s)\<rparr>) r)))"

definition setKillSwitch :: "bool \<Rightarrow> relay_stores \<Rightarrow> relay_stores" where
  "setKillSwitch engaged r =
     (if ss_killSwitch (rl_state r) = engaged then r
      else changed (on_state (\<lambda>s. s\<lparr>ss_killSwitch := engaged\<rparr>) r))"

end
