(* ===== verification/Relay_Props.thy ===== *)
theory Relay_Props
  imports Relay "HOL-Library.Sublist"
begin

section \<open>Properties of the relay stores\<close>

text \<open>
  The relay as an object with its calls: the cached snapshot is never stale, the event log of a
  runner is a contiguous, duplicate-free sequence, a command moves only along its state machine and
  the first terminal state wins, and fencing generations only grow.
\<close>

subsection \<open>Calls\<close>

datatype relay_call =
    RC_snapshot
  | RC_audit string string string millis
  | RC_auditRateLimited string string string millis millis
  | RC_createPairing string millis
  | RC_consumePairing string millis
  | RC_registerRunner ident string
  | RC_reserveRunnerGeneration ident
  | RC_enrollRunnerAtGeneration ident string nat
  | RC_restoreDurableRunnerIdentity ident string nat
  | RC_markSeen ident millis
  | RC_revokeRunnerSessions ident
  | RC_enqueueCommand command_envelope millis
  | RC_setCommandState ident command_state millis
  | RC_pendingCommandsFor ident "ident list" millis
  | RC_acknowledgeEventWatermark ident int
  | RC_ingestEvent event_envelope
  | RC_setKillSwitch bool

fun do_relay_call :: "relay_call \<Rightarrow> relay_stores \<Rightarrow> relay_stores" where
  "do_relay_call RC_snapshot r = snd (store_snapshot r)"
| "do_relay_call (RC_audit a b c t) r = audit a b c t r"
| "do_relay_call (RC_auditRateLimited a b c t w) r = snd (auditRateLimited a b c t w r)"
| "do_relay_call (RC_createPairing c t) r = createPairing c t r"
| "do_relay_call (RC_consumePairing c t) r = snd (consumePairing c t r)"
| "do_relay_call (RC_registerRunner k p) r = snd (registerRunner k p r)"
| "do_relay_call (RC_reserveRunnerGeneration k) r = snd (reserveRunnerGeneration k r)"
| "do_relay_call (RC_enrollRunnerAtGeneration k p g) r = snd (enrollRunnerAtGeneration k p g r)"
| "do_relay_call (RC_restoreDurableRunnerIdentity k p g) r = snd (restoreDurableRunnerIdentity k p g r)"
| "do_relay_call (RC_markSeen k t) r = markSeen k t r"
| "do_relay_call (RC_revokeRunnerSessions k) r = snd (revokeRunnerSessions k r)"
| "do_relay_call (RC_enqueueCommand e t) r = snd (enqueueCommand e t r)"
| "do_relay_call (RC_setCommandState k s t) r = snd (setCommandState k s t r)"
| "do_relay_call (RC_pendingCommandsFor k xs t) r = snd (pendingCommandsFor k xs t r)"
| "do_relay_call (RC_acknowledgeEventWatermark k n) r = acknowledgeEventWatermark k n r"
| "do_relay_call (RC_ingestEvent e) r = snd (ingestEvent e r)"
| "do_relay_call (RC_setKillSwitch b) r = setKillSwitch b r"

lemmas relay_defs = changed_def on_state_def store_snapshot_def audit_def auditRateLimited_def createPairing_def
  consumePairing_def registerRunner_def reserveRunnerGeneration_def enrollRunnerAtGeneration_def
  restoreDurableRunnerIdentity_def markSeen_def revokeRunnerSessions_def enqueueCommand_def put_command_def
  put_runner_def acknowledgeEventWatermark_def ingestEvent_def setKillSwitch_def

text \<open>An invariant of \<^verbatim>\<open>setCommandState\<close> is one of the outbox loop.\<close>

lemma pending_loop_keeps:
  assumes "\<And>r k. I r \<Longrightarrow> I (snd (setCommandState k C_expired now r))"
  shows "I r \<Longrightarrow> I (snd (pending_loop k executed now xs r))"
proof (induction xs arbitrary: r)
  case (Cons x xs)
  then show ?case by (simp add: assms case_prod_beta)
qed simp

lemma pendingCommandsFor_keeps:
  assumes "\<And>r k. I r \<Longrightarrow> I (snd (setCommandState k C_expired now r))" and "I r"
  shows "I (snd (pendingCommandsFor k executed now r))"
  using pending_loop_keeps [of I now r k executed "jvalues (ss_commands (rl_state r))"] assms
  by (auto simp: pendingCommandsFor_def split: prod.splits)

subsection \<open>The cached snapshot\<close>

definition cache_ok :: "relay_stores \<Rightarrow> bool" where
  "cache_ok r \<longleftrightarrow> (\<forall>s. rl_serializedSnapshot r = Some s \<longrightarrow> s = rl_state r)"

lemma setCommandState_cache: "cache_ok r \<Longrightarrow> cache_ok (snd (setCommandState k s t r))"
  by (simp add: setCommandState_def cache_ok_def relay_defs split: option.splits)

interpretation relay_cache: object_invariant do_relay_call "\<lambda>_ _. True" cache_ok
proof
  fix c r assume ok: "cache_ok r"
  show "cache_ok (do_relay_call c r)"
  proof (cases c)
    case (RC_setCommandState k s t)
    with ok show ?thesis by (simp add: setCommandState_cache)
  next
    case (RC_pendingCommandsFor k xs t)
    with ok show ?thesis by (simp add: pendingCommandsFor_keeps setCommandState_cache)
  qed (use ok in \<open>auto simp: cache_ok_def relay_defs Let_def split: option.splits\<close>)
qed

text \<open>
  Persistence never misses a change. Whatever calls are made on the stores after a restore, the
  serialized snapshot, cached or not, encodes exactly the current state; and restoring from it gives
  that state back unless the audit trail is compacted.
\<close>

theorem snapshot_is_current:
  "fst (store_snapshot (fold do_relay_call cs (store_restore s))) = rl_state (fold do_relay_call cs (store_restore s))
   \<and> (\<not> fst (compactPathologicalRunnerRejections s) \<longrightarrow> rl_state (store_restore s) = s)"
proof -
  have "cache_ok (store_restore s)"
    by (auto simp: store_restore_def cache_ok_def new_stores_def compactPathologicalRunnerRejections_def
        split: prod.splits if_splits)
  then have "cache_ok (fold do_relay_call cs (store_restore s))"
    by (intro relay_cache.calls_keep) (simp_all add: obeys_stateless list_all_iff)
  moreover have "rl_state (store_restore s) = s" if "\<not> fst (compactPathologicalRunnerRejections s)"
    using that by (auto simp: store_restore_def new_stores_def compactPathologicalRunnerRejections_def
        split: prod.splits if_splits)
  ultimately show ?thesis by (auto simp: store_snapshot_def cache_ok_def split: option.splits)
qed

theorem snapshot_is_current_witness:
  "rl_state (store_restore empty_state) = empty_state
   \<and> fst (store_snapshot (fold do_relay_call [RC_snapshot, RC_setKillSwitch True] (store_restore empty_state)))
     = rl_state (fold do_relay_call [RC_snapshot, RC_setKillSwitch True] (store_restore empty_state))"
  using snapshot_is_current [of "[RC_snapshot, RC_setKillSwitch True]" empty_state]
  by (simp add: compactPathologicalRunnerRejections_def empty_state_def RELAY_AUDIT_COMPACTION_THRESHOLD_def)

subsection \<open>The event log\<close>

text \<open>
  The log of a runner holds its own events in strictly increasing sequence, none above the
  watermark; it is contiguous when the watermark was never acknowledged from elsewhere.
\<close>

definition log_ok :: "relay_stores \<Rightarrow> bool" where
  "log_ok r \<longleftrightarrow> (\<forall>k. sorted_wrt (<) (map ev_event_seq (eventsFor k r))
     \<and> (\<forall>e \<in> set (eventsFor k r). ev_runner_id e = k \<and> 1 \<le> ev_event_seq e \<and> ev_event_seq e \<le> eventWatermark k r)
     \<and> 0 \<le> eventWatermark k r)"

definition log_contiguous :: "relay_stores \<Rightarrow> bool" where
  "log_contiguous r \<longleftrightarrow> (\<forall>k. map ev_event_seq (eventsFor k r) = map int [1..<Suc (length (eventsFor k r))]
     \<and> eventWatermark k r = int (length (eventsFor k r)))"

lemma log_views:
  "eventsFor k (snd (ingestEvent e r)) =
     (if k = ev_runner_id e \<and> ev_event_seq e = eventWatermark k r + 1 then eventsFor k r @ [e] else eventsFor k r)"
  "eventWatermark k (snd (ingestEvent e r)) =
     (if k = ev_runner_id e \<and> ev_event_seq e = eventWatermark k r + 1 then ev_event_seq e else eventWatermark k r)"
  by (auto simp: ingestEvent_def eventsFor_def eventWatermark_def changed_def on_state_def Let_def)

lemma ack_views:
  "eventsFor k (acknowledgeEventWatermark k' n r) = eventsFor k r"
  "eventWatermark k (acknowledgeEventWatermark k' n r) =
     (if k = k' \<and> 0 \<le> n \<and> n \<le> MAX_SAFE_INTEGER \<and> eventWatermark k r < n then n else eventWatermark k r)"
  by (auto simp: acknowledgeEventWatermark_def eventsFor_def eventWatermark_def changed_def on_state_def)

definition touches_events :: "relay_call \<Rightarrow> bool" where
  "touches_events c \<longleftrightarrow> (\<exists>e. c = RC_ingestEvent e) \<or> (\<exists>k n. c = RC_acknowledgeEventWatermark k n)"

definition event_view :: "relay_stores \<Rightarrow> (ident, event_envelope list) jmap \<times> (ident, int) jmap" where
  "event_view r = (ss_eventsByRunner (rl_state r), ss_watermark (rl_state r))"

lemma setCommandState_events: "event_view (snd (setCommandState k s t r)) = event_view r"
  by (simp add: setCommandState_def event_view_def relay_defs split: option.splits)

lemma untouched_events: "\<not> touches_events c \<Longrightarrow> event_view (do_relay_call c r) = event_view r"
proof (cases c)
  case (RC_setCommandState k s t)
  then show ?thesis by (simp add: setCommandState_events)
next
  case (RC_pendingCommandsFor k xs t)
  then show ?thesis
    using pendingCommandsFor_keeps [of "\<lambda>q. event_view q = event_view r" t r k xs]
    by (simp add: setCommandState_events)
qed (auto simp: event_view_def touches_events_def relay_defs Let_def split: option.splits)

lemma view_eq:
  "event_view r' = event_view r \<Longrightarrow> eventsFor k r' = eventsFor k r \<and> eventWatermark k r' = eventWatermark k r"
  by (simp add: event_view_def eventsFor_def eventWatermark_def)

lemma ingest_log_ok: "log_ok r \<Longrightarrow> log_ok (snd (ingestEvent e r))"
proof -
  assume ok: "log_ok r"
  have "sorted_wrt (<) (map ev_event_seq (eventsFor k r) @ [ev_event_seq e])"
    if "ev_event_seq e = eventWatermark k r + 1" for k
    using ok that by (force simp: log_ok_def sorted_wrt_append)
  moreover have "ev_event_seq x \<le> eventWatermark k r + 1" if "x \<in> set (eventsFor k r)" for k x
    using ok that by (fastforce simp: log_ok_def)
  ultimately show ?thesis using ok unfolding log_ok_def log_views by (auto simp: ball_Un)
qed

lemma ack_log_ok: "log_ok r \<Longrightarrow> log_ok (acknowledgeEventWatermark k n r)"
  unfolding log_ok_def ack_views by fastforce

interpretation relay_log: object_invariant do_relay_call "\<lambda>_ _. True" log_ok
proof
  fix c r assume ok: "log_ok r"
  show "log_ok (do_relay_call c r)"
  proof (cases "touches_events c")
    case True
    with ok show ?thesis by (auto simp: touches_events_def ingest_log_ok ack_log_ok)
  next
    case False
    with ok view_eq [OF untouched_events [OF False]] show ?thesis by (simp add: log_ok_def)
  qed
qed

lemma ingest_contiguous: "log_contiguous r \<Longrightarrow> log_contiguous (snd (ingestEvent e r))"
  unfolding log_contiguous_def log_views by auto

interpretation relay_contiguous: object_invariant do_relay_call
    "\<lambda>c _. \<forall>k n. c \<noteq> RC_acknowledgeEventWatermark k n" log_contiguous
proof
  fix c r assume no: "\<forall>k n. c \<noteq> RC_acknowledgeEventWatermark k n" and ok: "log_contiguous r"
  show "log_contiguous (do_relay_call c r)"
  proof (cases "touches_events c")
    case True
    with no ok show ?thesis by (auto simp: touches_events_def ingest_contiguous)
  next
    case False
    with ok view_eq [OF untouched_events [OF False]] show ?thesis by (simp add: log_contiguous_def)
  qed
qed

lemma new_stores_log: "log_ok (new_stores None)" "log_contiguous (new_stores None)"
  by (simp_all add: log_ok_def log_contiguous_def new_stores_def empty_state_def eventsFor_def eventWatermark_def)

text \<open>
  C26: The event log of every runner is sound under any sequence of calls: it holds only that runner's
  events, in strictly increasing sequence, so none twice and none out of order, and none above the
  watermark. As long as the watermark is not acknowledged from outside, the log is exactly the
  events numbered 1 to the watermark.
\<close>

theorem event_log_sound:
  "let r = fold do_relay_call cs (new_stores None) in
     sorted_wrt (<) (map ev_event_seq (eventsFor k r))
     \<and> (\<forall>e \<in> set (eventsFor k r). ev_runner_id e = k \<and> ev_event_seq e \<le> eventWatermark k r)
     \<and> (list_all (\<lambda>c. \<forall>k n. c \<noteq> RC_acknowledgeEventWatermark k n) cs \<longrightarrow>
          map ev_event_seq (eventsFor k r) = map int [1..<Suc (length (eventsFor k r))]
          \<and> eventWatermark k r = int (length (eventsFor k r)))"
proof -
  let ?r = "fold do_relay_call cs (new_stores None)"
  have "log_ok ?r"
    by (rule relay_log.calls_keep) (simp_all add: obeys_stateless list_all_iff new_stores_log)
  moreover have "log_contiguous ?r" if "list_all (\<lambda>c. \<forall>k n. c \<noteq> RC_acknowledgeEventWatermark k n) cs"
    by (rule relay_contiguous.calls_keep) (use that in \<open>simp_all add: obeys_stateless new_stores_log\<close>)
  ultimately show ?thesis unfolding Let_def log_ok_def log_contiguous_def by blast
qed

definition sample_event :: "int \<Rightarrow> event_envelope" where
  "sample_event n = \<lparr>ev_event_seq = n, ev_runner_id = ''r'', ev_generation = 1, ev_correlation_id = ''c'',
     ev_causation_id = None, ev_occurred_at = 0, ev_payload = EP_heartbeat\<rparr>"

theorem event_log_sound_witness:
  "eventsFor ''r'' (fold do_relay_call (map (RC_ingestEvent \<circ> sample_event) [1, 3, 1, 2]) (new_stores None))
     = [sample_event 1, sample_event 2]
   \<and> eventWatermark ''r'' (fold do_relay_call (map (RC_ingestEvent \<circ> sample_event) [1, 3, 1, 2]) (new_stores None)) = 2"
proof -
  let ?cs = "map (RC_ingestEvent \<circ> sample_event) [1, 3, 1, 2]"
  have e: "eventsFor ''r'' (fold do_relay_call ?cs (new_stores None)) = [sample_event 1, sample_event 2]"
    by code_simp
  have "list_all (\<lambda>c. \<forall>k n. c \<noteq> RC_acknowledgeEventWatermark k n) ?cs" by simp
  with event_log_sound [of ?cs "''r''"] e show ?thesis by (simp add: Let_def del: list.map fold_simps)
qed

subsection \<open>Commands\<close>

abbreviation outbox :: "relay_stores \<Rightarrow> (ident, command_record) jmap" where
  "outbox r \<equiv> ss_commands (rl_state r)"

text \<open>A command that has come from the record \<open>x\<close> by legal transitions.\<close>

definition evolved :: "ident \<Rightarrow> command_record \<Rightarrow> relay_stores \<Rightarrow> bool" where
  "evolved k x r \<longleftrightarrow> (\<exists>x'. jget (outbox r) k = Some x' \<and> cr_envelope x' = cr_envelope x
     \<and> canCommandTransition\<^sup>*\<^sup>* (cr_state x) (cr_state x'))"

definition command_after :: "command_state \<Rightarrow> millis \<Rightarrow> command_record \<Rightarrow> command_record" where
  "command_after s t x =
     (if cr_state x = s then x
      else if terminal_command (cr_state x) then
        (if terminal_command s then x\<lparr>cr_superseded_terminal := Some s\<rparr> else x)
      else if canCommandTransition (cr_state x) s then x\<lparr>cr_state := s, cr_updated_at := t\<rparr> else x)"

lemma superseded_idem: "cr_superseded_terminal x = Some s \<Longrightarrow> x\<lparr>cr_superseded_terminal := Some s\<rparr> = x"
  by simp

lemma setCommandState_get:
  "jget (outbox (snd (setCommandState k s t r))) k' =
     (if k' = k then map_option (command_after s t) (jget (outbox r) k) else jget (outbox r) k')"
  by (auto simp: setCommandState_def put_command_def changed_def on_state_def command_after_def superseded_idem
      split: option.splits)

lemma command_after_step:
  "cr_envelope (command_after s t x) = cr_envelope x
   \<and> canCommandTransition\<^sup>*\<^sup>* (cr_state x) (cr_state (command_after s t x))"
  by (auto simp: command_after_def)

lemma setCommandState_evolved: "evolved k x r \<Longrightarrow> evolved k x (snd (setCommandState k' s t r))"
proof -
  assume "evolved k x r"
  then obtain x' where x': "jget (outbox r) k = Some x'" "cr_envelope x' = cr_envelope x"
    "canCommandTransition\<^sup>*\<^sup>* (cr_state x) (cr_state x')" by (auto simp: evolved_def)
  with command_after_step [of s t x'] show ?thesis
    unfolding evolved_def setCommandState_get by (cases "k = k'") (auto intro: rtranclp_trans)
qed

lemma untouched_outbox:
  assumes "\<And>k s t. c \<noteq> RC_setCommandState k s t" "\<And>k xs t. c \<noteq> RC_pendingCommandsFor k xs t"
    and "jget (outbox r) k = Some x"
  shows "jget (outbox (do_relay_call c r)) k = Some x"
  using assms by (cases c) (auto simp: relay_defs Let_def split: option.splits)

interpretation relay_commands: object_invariant do_relay_call "\<lambda>_ _. True" "evolved k x"
proof
  fix c r assume ev: "evolved k x r"
  show "evolved k x (do_relay_call c r)"
  proof (cases "(\<exists>k s t. c = RC_setCommandState k s t) \<or> (\<exists>k xs t. c = RC_pendingCommandsFor k xs t)")
    case True
    with ev show ?thesis by (auto simp: setCommandState_evolved pendingCommandsFor_keeps)
  next
    case False
    with ev untouched_outbox [of c r k] show ?thesis unfolding evolved_def by blast
  qed
qed

lemma terminal_command_final:
  "canCommandTransition\<^sup>*\<^sup>* a b \<Longrightarrow> terminal_command a \<Longrightarrow> b = a"
  by (induction rule: converse_rtranclp_induct) (auto dest: command_table.terminal_stuck)

text \<open>
  C28: A command evolves only along its state machine. Through any sequence of calls on the stores a
  queued command keeps its envelope, its state is reached from the earlier one by legal transitions,
  and a command that has reached a terminal state keeps that state for good.
\<close>

theorem command_evolves_legally:
  assumes "jget (outbox r) k = Some x"
  shows "\<exists>x'. jget (outbox (fold do_relay_call cs r)) k = Some x' \<and> cr_envelope x' = cr_envelope x
     \<and> canCommandTransition\<^sup>*\<^sup>* (cr_state x) (cr_state x')
     \<and> (terminal_command (cr_state x) \<longrightarrow> cr_state x' = cr_state x)"
proof -
  have "evolved k x r" using assms by (simp add: evolved_def)
  then have "evolved k x (fold do_relay_call cs r)"
    by (intro relay_commands.calls_keep) (simp_all add: obeys_stateless list_all_iff)
  then show ?thesis unfolding evolved_def using terminal_command_final by blast
qed

definition sample_command :: "ident \<Rightarrow> millis \<Rightarrow> command_envelope" where
  "sample_command k expires = \<lparr>ce_command_id = k, ce_idempotency_key = ''i'', ce_correlation_id = ''c'',
     ce_causation_id = None, ce_project_id = ''p'', ce_runner_id = ''r'', ce_generation = 1,
     ce_issued_by_session = ''s'', ce_issued_at = 0, ce_expires_at = expires, ce_payload = CP_interrupt ''x''\<rparr>"

definition sample_relay :: relay_stores where
  "sample_relay = fold do_relay_call [RC_enqueueCommand (sample_command ''k1'' 10) 0,
     RC_setCommandState ''k1'' C_delivered 1, RC_setCommandState ''k1'' C_accepted 1,
     RC_setCommandState ''k1'' C_executing 1, RC_enqueueCommand (sample_command ''k2'' 5) 0,
     RC_enqueueCommand (sample_command ''k3'' 50) 0] (new_stores None)"

theorem command_evolves_legally_witness:
  "\<exists>x x'. jget (outbox sample_relay) ''k1'' = Some x
     \<and> jget (outbox (fold do_relay_call [RC_setCommandState ''k1'' C_queued 2] sample_relay)) ''k1'' = Some x'
     \<and> canCommandTransition\<^sup>*\<^sup>* (cr_state x) (cr_state x')"
proof -
  obtain x where "jget (outbox sample_relay) ''k1'' = Some x"
  proof -
    have "jget (outbox sample_relay) ''k1'' \<noteq> None" by code_simp
    then show thesis using that by blast
  qed
  with command_evolves_legally [OF this, of "[RC_setCommandState ''k1'' C_queued 2]"] show ?thesis by blast
qed

text \<open>
  Of two racing terminal acknowledgements of an executing command the first one commits and the
  second is recorded as superseded, in either order; replaying either of them afterwards changes
  nothing.
\<close>

theorem terminal_race:
  assumes "jget (outbox r) k = Some x" and "cr_state x = C_executing"
    and "canCommandTransition C_executing a" and "terminal_command b" and "a \<noteq> b"
    and "r' = snd (setCommandState k b t2 (snd (setCommandState k a t1 r)))"
  shows "jget (outbox r') k = Some (x\<lparr>cr_state := a, cr_updated_at := t1, cr_superseded_terminal := Some b\<rparr>)
     \<and> snd (setCommandState k a t3 r') = r' \<and> snd (setCommandState k b t3 r') = r'"
proof -
  have term_a: "terminal_command a"
    using assms(3) by (auto simp: canCommandTransition_def TERMINAL_COMMAND_STATES_def)
  have ne: "a \<noteq> C_executing" using assms(3) by (auto simp: canCommandTransition_def)
  have "\<not> terminal_command C_executing" by (simp add: TERMINAL_COMMAND_STATES_def)
  with assms ne term_a have get: "jget (outbox r') k
      = Some (x\<lparr>cr_state := a, cr_updated_at := t1, cr_superseded_terminal := Some b\<rparr>)"
    by (simp add: setCommandState_get command_after_def)
  with term_a assms(5) show ?thesis by (simp add: setCommandState_def)
qed

theorem terminal_race_witness:
  "\<exists>x. jget (outbox (snd (setCommandState ''k1'' C_cancelled 3 (snd (setCommandState ''k1'' C_succeeded 2 sample_relay))))) ''k1''
     = Some x \<and> cr_state x = C_succeeded \<and> cr_superseded_terminal x = Some C_cancelled"
proof -
  have "map_option cr_state (jget (outbox sample_relay) ''k1'') = Some C_executing" by code_simp
  then obtain x where x: "jget (outbox sample_relay) ''k1'' = Some x" "cr_state x = C_executing" by auto
  have "canCommandTransition C_executing C_succeeded" "terminal_command C_cancelled"
    by (simp_all add: canCommandTransition_def TERMINAL_COMMAND_STATES_def)
  from terminal_race [OF x this _ refl, of 3 2] show ?thesis by auto
qed

subsection \<open>Redelivery\<close>

definition outbox_ok :: "relay_stores \<Rightarrow> bool" where
  "outbox_ok r \<longleftrightarrow> jwf (outbox r) \<and> (\<forall>k x. jget (outbox r) k = Some x \<longrightarrow> ce_command_id (cr_envelope x) = k)"

definition due :: "ident \<Rightarrow> ident list \<Rightarrow> command_record \<Rightarrow> bool" where
  "due k executed x \<longleftrightarrow> ce_runner_id (cr_envelope x) = k \<and> cr_state x \<in> {C_queued, C_delivered}
     \<and> ce_command_id (cr_envelope x) \<notin> set executed"

lemma pending_loop_list:
  "fst (pending_loop k executed now xs r) =
     map cr_envelope (filter (\<lambda>x. due k executed x \<and> \<not> isCommandExpired (cr_envelope x) now) xs)"
proof (induction xs arbitrary: r)
  case (Cons x xs)
  then show ?case by (cases "cr_state x") (simp_all add: due_def case_prod_beta)
qed simp

lemma pending_loop_get:
  assumes "distinct (map (ce_command_id \<circ> cr_envelope) xs)"
    and "\<And>x. x \<in> set xs \<Longrightarrow> jget (outbox r) (ce_command_id (cr_envelope x)) = Some x"
  shows "jget (outbox (snd (pending_loop k executed now xs r))) c =
     (case jget (outbox r) c of
        None \<Rightarrow> None
      | Some x \<Rightarrow> Some (if x \<in> set xs \<and> c = ce_command_id (cr_envelope x) \<and> due k executed x
                          \<and> isCommandExpired (cr_envelope x) now
                        then command_after C_expired now x else x))"
  using assms
proof (induction xs arbitrary: r)
  case (Cons x xs)
  let ?id = "ce_command_id (cr_envelope x)"
  let ?exp = "due k executed x \<and> isCommandExpired (cr_envelope x) now"
  define r1 where "r1 = (if ?exp then snd (setCommandState ?id C_expired now r) else r)"
  have loop: "snd (pending_loop k executed now (x # xs) r) = snd (pending_loop k executed now xs r1)"
    by (auto simp: r1_def due_def split: prod.splits)
  have x: "jget (outbox r) ?id = Some x" using Cons.prems(2) by simp
  have get1: "jget (outbox r1) c' = (if c' = ?id \<and> ?exp then Some (command_after C_expired now x) else jget (outbox r) c')" for c'
    using x by (simp add: r1_def setCommandState_get)
  have other: "ce_command_id (cr_envelope y) \<noteq> ?id" if "y \<in> set xs" for y
    using Cons.prems(1) that by (auto simp: image_iff)
  have "jget (outbox r1) (ce_command_id (cr_envelope y)) = Some y" if "y \<in> set xs" for y
    using that other [OF that] Cons.prems(2) [of y] get1 by simp
  then have IH: "jget (outbox (snd (pending_loop k executed now xs r1))) c =
     (case jget (outbox r1) c of None \<Rightarrow> None
      | Some y \<Rightarrow> Some (if y \<in> set xs \<and> c = ce_command_id (cr_envelope y) \<and> due k executed y
                          \<and> isCommandExpired (cr_envelope y) now
                        then command_after C_expired now y else y))"
    using Cons.prems(1) by (intro Cons.IH) auto
  have nin: "command_after C_expired now x \<notin> set xs"
    using other command_after_step [of C_expired now x] by metis
  show ?case
  proof (cases "c = ?id")
    case True
    then have "x \<notin> set xs" using other by blast
    with True x nin show ?thesis unfolding loop IH get1 by simp
  next
    case False
    then show ?thesis unfolding loop IH get1 by (auto split: option.splits)
  qed
qed (simp split: option.splits)

text \<open>
  What is resent to a reconnecting runner: exactly the commands of that runner that are queued or
  delivered, have not been executed by it and have not expired, in the order they were issued; and
  the call moves exactly the overdue ones among them to \<^verbatim>\<open>expired\<close> and changes no other command.
\<close>

theorem pendingCommandsFor_exact:
  assumes "outbox_ok r" and "pendingCommandsFor k executed now r = (es, r')"
  shows "set es = {cr_envelope x |x c. jget (outbox r) c = Some x \<and> due k executed x
            \<and> \<not> isCommandExpired (cr_envelope x) now}
     \<and> sorted (map ce_issued_at es)
     \<and> (\<forall>c. jget (outbox r') c = map_option (\<lambda>x. if due k executed x \<and> isCommandExpired (cr_envelope x) now
            then x\<lparr>cr_state := C_expired, cr_updated_at := now\<rparr> else x) (jget (outbox r) c))"
proof -
  let ?xs = "jvalues (outbox r)"
  have wf: "jwf (outbox r)" and ids: "\<And>c x. jget (outbox r) c = Some x \<Longrightarrow> ce_command_id (cr_envelope x) = c"
    using assms(1) by (auto simp: outbox_ok_def)
  have keys: "map (ce_command_id \<circ> cr_envelope) ?xs = jkeys (outbox r)"
    using ids jget_of_mem [OF wf] by (auto simp: map_eq_conv)
  have mem: "x \<in> set ?xs \<longleftrightarrow> (\<exists>c. jget (outbox r) c = Some x)" for x
    using jget_of_mem [OF wf] jget_mem by force
  have at: "jget (outbox r) (ce_command_id (cr_envelope x)) = Some x" if "x \<in> set ?xs" for x
    using that mem ids by metis
  have d: "distinct (map (ce_command_id \<circ> cr_envelope) ?xs)" unfolding keys by (rule wf)
  have get: "jget (outbox (snd (pending_loop k executed now ?xs r))) c =
     (case jget (outbox r) c of None \<Rightarrow> None
      | Some x \<Rightarrow> Some (if x \<in> set ?xs \<and> c = ce_command_id (cr_envelope x) \<and> due k executed x
                          \<and> isCommandExpired (cr_envelope x) now
                        then command_after C_expired now x else x))" for c
    by (rule pending_loop_get [OF d]) (rule at)
  have es: "es = sort_key ce_issued_at (fst (pending_loop k executed now ?xs r))"
    and r': "r' = snd (pending_loop k executed now ?xs r)"
    using assms(2) by (auto simp: pendingCommandsFor_def split: prod.splits)
  have "set es = {cr_envelope x |x c. jget (outbox r) c = Some x \<and> due k executed x \<and> \<not> isCommandExpired (cr_envelope x) now}"
    unfolding es pending_loop_list using mem by auto
  moreover have "command_after C_expired now x = x\<lparr>cr_state := C_expired, cr_updated_at := now\<rparr>" if "due k executed x" for x
    using that by (auto simp: due_def command_after_def TERMINAL_COMMAND_STATES_def canCommandTransition_def)
  then have "jget (outbox r') c = map_option (\<lambda>x. if due k executed x \<and> isCommandExpired (cr_envelope x) now
      then x\<lparr>cr_state := C_expired, cr_updated_at := now\<rparr> else x) (jget (outbox r) c)" for c
    unfolding r' get using mem ids by (cases "jget (outbox r) c") auto
  ultimately show ?thesis by (simp add: es)
qed

theorem pendingCommandsFor_exact_witness:
  "map ce_command_id (fst (pendingCommandsFor ''r'' [] 7 sample_relay)) = [''k3'']
   \<and> set (fst (pendingCommandsFor ''r'' [] 7 sample_relay)) = {cr_envelope x |x c.
       jget (outbox sample_relay) c = Some x \<and> due ''r'' [] x \<and> \<not> isCommandExpired (cr_envelope x) 7}"
proof -
  have wf: "jwf (outbox sample_relay)"
    and ids: "map (\<lambda>p. ce_command_id (cr_envelope (snd p))) (outbox sample_relay) = map fst (outbox sample_relay)"
    and l: "map ce_command_id (fst (pendingCommandsFor ''r'' [] 7 sample_relay)) = [''k3'']"
    by code_simp+
  have "outbox_ok sample_relay"
    using wf ids by (auto simp: outbox_ok_def map_eq_conv dest!: jget_mem)
  from pendingCommandsFor_exact [OF this surjective_pairing, of "''r''" "[]" 7] l show ?thesis by blast
qed

lemma setCommandState_outbox_ok: "outbox_ok r \<Longrightarrow> outbox_ok (snd (setCommandState k s t r))"
proof -
  assume ok: "outbox_ok r"
  have "jwf (outbox (snd (setCommandState k s t r)))"
    using ok by (simp add: outbox_ok_def setCommandState_def put_command_def changed_def on_state_def split: option.splits)
  moreover have "ce_command_id (cr_envelope x) = c" if "jget (outbox (snd (setCommandState k s t r))) c = Some x" for c x
    using that ok command_after_step by (auto simp: outbox_ok_def setCommandState_get split: if_splits)
  ultimately show ?thesis by (simp add: outbox_ok_def)
qed

lemma enqueue_outbox_ok: "outbox_ok r \<Longrightarrow> outbox_ok (snd (enqueueCommand e t r))"
proof (cases "jget (outbox r) (ce_command_id e)")
  case None
  assume ok: "outbox_ok r"
  define x where "x = \<lparr>cr_envelope = e, cr_state = C_queued, cr_updated_at = t, cr_superseded_terminal = None\<rparr>"
  have eq: "outbox (snd (enqueueCommand e t r)) = jset (ce_command_id e) x (outbox r)"
    using None by (simp add: enqueueCommand_def changed_def on_state_def x_def Let_def)
  have "ce_command_id (cr_envelope y) = c" if "jget (jset (ce_command_id e) x (outbox r)) c = Some y" for c y
    using that ok unfolding outbox_ok_def by (cases "c = ce_command_id e") (auto simp: x_def)
  with ok show ?thesis unfolding outbox_ok_def eq by (simp only: jwf_jset) blast
qed (simp add: enqueueCommand_def)

interpretation relay_outbox: object_invariant do_relay_call "\<lambda>_ _. True" outbox_ok
proof
  fix c r assume ok: "outbox_ok r"
  show "outbox_ok (do_relay_call c r)"
  proof (cases c)
    case (RC_setCommandState k s t)
    with ok show ?thesis by (simp add: setCommandState_outbox_ok)
  next
    case (RC_pendingCommandsFor k xs t)
    with ok show ?thesis by (simp add: pendingCommandsFor_keeps setCommandState_outbox_ok)
  next
    case (RC_enqueueCommand e t)
    with ok show ?thesis by (simp add: enqueue_outbox_ok)
  qed (use ok in \<open>auto simp: outbox_ok_def relay_defs Let_def split: option.splits\<close>)
qed

subsection \<open>Fencing\<close>

definition generation :: "ident \<Rightarrow> relay_stores \<Rightarrow> nat" where
  "generation k r = (case jget (ss_runners (rl_state r)) k of Some x \<Rightarrow> rr_generation x | None \<Rightarrow> 0)"

fun trusted_call :: "relay_call \<Rightarrow> bool" where
  "trusted_call (RC_restoreDurableRunnerIdentity k p g) \<longleftrightarrow> False"
| "trusted_call _ \<longleftrightarrow> True"

definition runners_ok :: "relay_stores \<Rightarrow> bool" where
  "runners_ok r \<longleftrightarrow> (\<forall>k x. jget (ss_runners (rl_state r)) k = Some x \<longrightarrow> rr_runner_id x = k)"

lemma setCommandState_runners: "ss_runners (rl_state (snd (setCommandState k s t r))) = ss_runners (rl_state r)"
  by (simp add: setCommandState_def relay_defs split: option.splits)

lemma pending_runners: "ss_runners (rl_state (snd (pendingCommandsFor k xs t r))) = ss_runners (rl_state r)"
  using pendingCommandsFor_keeps [of "\<lambda>q. ss_runners (rl_state q) = ss_runners (rl_state r)" t r k xs]
  by (simp add: setCommandState_runners)

lemma generation_mono: "trusted_call c \<Longrightarrow> generation k r \<le> generation k (do_relay_call c r)"
  by (cases c) (auto simp: generation_def relay_defs next_generation_def setCommandState_runners pending_runners Let_def
      split: option.splits)

lemma generations_mono: "list_all trusted_call cs \<Longrightarrow> generation k r \<le> generation k (fold do_relay_call cs r)"
proof (induction cs arbitrary: r)
  case (Cons c cs)
  then have "generation k r \<le> generation k (do_relay_call c r)" by (simp add: generation_mono)
  also have "\<dots> \<le> generation k (fold do_relay_call cs (do_relay_call c r))" using Cons by simp
  finally show ?case by simp
qed simp

text \<open>The calls that fence a runner off.\<close>

fun fences :: "ident \<Rightarrow> relay_call \<Rightarrow> relay_stores \<Rightarrow> bool" where
  "fences k (RC_registerRunner k' p) r \<longleftrightarrow> k' = k"
| "fences k (RC_reserveRunnerGeneration k') r \<longleftrightarrow> k' = k"
| "fences k (RC_revokeRunnerSessions k') r \<longleftrightarrow> k' = k \<and> jget (ss_runners (rl_state r)) k \<noteq> None"
| "fences k _ r \<longleftrightarrow> False"

text \<open>
  A fenced generation never comes back. Pairing, reserving a generation, or revoking a known
  runner's sessions raises its generation, and no later call lowers it again, except the explicit
  restore of a durable identity: the generation the runner held before is smaller than its
  generation ever after.
\<close>

theorem fencing_is_permanent:
  assumes "fences k c r" and "list_all trusted_call cs"
  shows "generation k r < generation k (fold do_relay_call cs (do_relay_call c r))"
proof -
  have "generation k r < generation k (do_relay_call c r)"
    using assms(1)
    by (cases c) (auto simp: generation_def relay_defs next_generation_def Let_def split: option.splits)
  also have "\<dots> \<le> generation k (fold do_relay_call cs (do_relay_call c r))"
    using assms(2) by (rule generations_mono)
  finally show ?thesis .
qed

theorem fencing_is_permanent_witness:
  "generation ''r'' (new_stores None)
     < generation ''r'' (fold do_relay_call [RC_markSeen ''r'' 1] (do_relay_call (RC_registerRunner ''r'' ''k'') (new_stores None)))"
  by (rule fencing_is_permanent) simp_all

subsection \<open>Compaction of the audit trail\<close>

lemma compact_loop_spec:
  assumes "compact_loop seen es = (kept, removed)"
  shows "subseq kept es \<and> length kept + removed = length es
     \<and> filter (\<lambda>e. bucket_of e = None) kept = filter (\<lambda>e. bucket_of e = None) es
     \<and> distinct (List.map_filter bucket_of kept) \<and> set (List.map_filter bucket_of kept) \<inter> set seen = {}
     \<and> set (List.map_filter bucket_of es) \<subseteq> set (List.map_filter bucket_of kept) \<union> set seen"
  using assms
proof (induction es arbitrary: seen kept removed)
  case (Cons e es)
  show ?case
  proof (cases "bucket_of e")
    case None
    with Cons.prems obtain kept' where k: "compact_loop seen es = (kept', removed)" "kept = e # kept'"
      by (auto split: prod.splits)
    from Cons.IH [OF k(1)] k(2) None show ?thesis by (simp add: List.map_filter_simps)
  next
    case (Some b)
    show ?thesis
    proof (cases "b \<in> set seen")
      case True
      with Some Cons.prems obtain removed' where "compact_loop seen es = (kept, removed')" "removed = removed' + 1"
        by (auto split: prod.splits)
      with Cons.IH [of seen kept removed'] Some True show ?thesis
        by (auto simp: List.map_filter_simps intro: list_emb_Cons)
    next
      case False
      with Some Cons.prems obtain kept' where k: "compact_loop (b # seen) es = (kept', removed)" "kept = e # kept'"
        by (auto split: prod.splits)
      from Cons.IH [OF k(1)] k(2) Some False show ?thesis by (auto simp: List.map_filter_simps)
    qed
  qed
qed (simp add: List.map_filter_simps)

text \<open>
  Compaction of the audit trail loses no evidence. What it keeps is a subsequence of the trail in
  order; every entry that is not a datable runner rejection is kept; every rejection it drops has
  the same actor, detail and minute as one it keeps; and the note it appends is the only new entry.
\<close>

theorem compaction_keeps_evidence:
  assumes "compactPathologicalRunnerRejections s = (True, s')"
  shows "\<exists>kept note. ss_audit s' = kept @ [note] \<and> subseq kept (ss_audit s)
     \<and> filter (\<lambda>e. bucket_of e = None) kept = filter (\<lambda>e. bucket_of e = None) (ss_audit s)
     \<and> set (List.map_filter bucket_of (ss_audit s)) = set (List.map_filter bucket_of kept)
     \<and> distinct (List.map_filter bucket_of kept) \<and> s' = s\<lparr>ss_audit := ss_audit s'\<rparr>"
proof -
  obtain kept removed where c: "compact_loop [] (ss_audit s) = (kept, removed)" by (cases "compact_loop [] (ss_audit s)")
  note spec = compact_loop_spec [OF c]
  have "set (List.map_filter bucket_of kept) \<subseteq> set (List.map_filter bucket_of (ss_audit s))"
    using spec by (auto simp: List.map_filter_def dest: subseq_order.order_trans list_emb_set)
  with spec assms c show ?thesis
    by (auto simp: compactPathologicalRunnerRejections_def split: if_splits)
qed

definition sample_rejection :: audit_entry where
  "sample_rejection = \<lparr>ae_at = Some 0, ae_actor = ''r'', ae_action = RUNNER_EVENT_REJECTED_ACTION, ae_detail = ''d''\<rparr>"

lemma compact_replicate:
  "bucket_of e = Some b \<Longrightarrow> b \<in> set seen \<Longrightarrow> compact_loop seen (replicate n e) = ([], n)"
  by (induction n) auto

theorem compaction_keeps_evidence_witness:
  "\<exists>s' kept note. compactPathologicalRunnerRejections (empty_state\<lparr>ss_audit := replicate 10000 sample_rejection\<rparr>) = (True, s')
     \<and> ss_audit s' = kept @ [note] \<and> subseq kept (replicate 10000 sample_rejection)"
proof -
  have b: "bucket_of sample_rejection = Some (''r'', ''d'', 0)"
    by (simp add: bucket_of_def sample_rejection_def RUNNER_EVENT_REJECTION_AUDIT_WINDOW_MS_def)
  have "replicate 10000 sample_rejection = sample_rejection # replicate 9999 sample_rejection"
    by (simp flip: replicate_Suc)
  then have c: "compact_loop [] (replicate 10000 sample_rejection) = ([sample_rejection], 9999)"
    using compact_replicate [OF b, of "[(''r'', ''d'', 0)]" 9999] b by simp
  obtain s' where s': "compactPathologicalRunnerRejections (empty_state\<lparr>ss_audit := replicate 10000 sample_rejection\<rparr>) = (True, s')"
    using c by (simp add: compactPathologicalRunnerRejections_def RELAY_AUDIT_COMPACTION_THRESHOLD_def)
  from compaction_keeps_evidence [OF s'] s' show ?thesis by auto
qed

end
