(* ===== verification/Relay_Server.thy ===== *)
theory Relay_Server
  imports Relay_Props
begin

section \<open>The relay server\<close>

text \<open>
  The handlers of \<^verbatim>\<open>apps/server/src/server.ts\<close> that speak the runner protocol on \<^verbatim>\<open>/ws/runner\<close> (legacy
  runner branch), the routes that pair, revoke and command a runner, and the delivery of pending
  commands. A socket is a number. What an awaited service answers (the signature check of the runner,
  the durable identity of an Actions runner, the durable command queue, the persistence of an event)
  is an argument of the operation that runs after the await. A handler reads the clock once. The
  broadcasts to browsers are left out.
\<close>

subsection \<open>State\<close>

type_synonym socket = nat

datatype server_frame =
    SF_auth_ok
  | SF_auth_error
  | SF_fenced nat
  | SF_reconcile_response reconcile_response
  | SF_command command_envelope
  | SF_event_ack int

datatype auth_state = AU_awaiting | AU_authenticating | AU_legacy_runner | AU_closed

text \<open>
  One connection: the variables of the closure. \<open>wc_delivery\<close> is the promise chain, the event at its
  head first; \<open>wc_applying\<close> says that the head has passed its check and waits for its persistence.
\<close>

record runner_connection =
  wc_authenticationState :: auth_state
  wc_authedRunnerId :: "ident option"
  wc_ingressOpen :: bool
  wc_delivery :: "event_envelope list"
  wc_applying :: bool

definition new_connection :: runner_connection where
  "new_connection = \<lparr>wc_authenticationState = AU_awaiting, wc_authedRunnerId = None, wc_ingressOpen = True,
     wc_delivery = [], wc_applying = False\<rparr>"

record relay_server =
  sv_stores :: relay_stores
  sv_runnerSockets :: "(ident, socket) jmap"
  sv_reconciledRunners :: "(ident, socket \<times> nat) jmap"
  sv_connections :: "(socket, runner_connection) jmap"
  sv_sent :: "(socket \<times> server_frame) list"
  sv_closed :: "socket list"

definition new_server :: relay_server where
  "new_server = \<lparr>sv_stores = new_stores None, sv_runnerSockets = [], sv_reconciledRunners = [],
     sv_connections = [], sv_sent = [], sv_closed = []\<rparr>"

definition connection :: "socket \<Rightarrow> relay_server \<Rightarrow> runner_connection" where
  "connection sock sv = (case jget (sv_connections sv) sock of Some c \<Rightarrow> c | None \<Rightarrow> new_connection)"

definition on_connection :: "socket \<Rightarrow> (runner_connection \<Rightarrow> runner_connection) \<Rightarrow> relay_server \<Rightarrow> relay_server" where
  "on_connection sock f sv = sv\<lparr>sv_connections := jset sock (f (connection sock sv)) (sv_connections sv)\<rparr>"

definition on_stores :: "(relay_stores \<Rightarrow> relay_stores) \<Rightarrow> relay_server \<Rightarrow> relay_server" where
  "on_stores f sv = sv\<lparr>sv_stores := f (sv_stores sv)\<rparr>"

definition sendFrame :: "socket \<Rightarrow> server_frame \<Rightarrow> relay_server \<Rightarrow> relay_server" where
  "sendFrame sock frame sv = sv\<lparr>sv_sent := sv_sent sv @ [(sock, frame)]\<rparr>"

definition close_socket :: "socket \<Rightarrow> relay_server \<Rightarrow> relay_server" where
  "close_socket sock sv = sv\<lparr>sv_closed := sock # sv_closed sv\<rparr>"

definition runner_of :: "ident \<Rightarrow> relay_server \<Rightarrow> runner_record option" where
  "runner_of k sv = jget (ss_runners (rl_state (sv_stores sv))) k"

definition runner_actor :: "ident \<Rightarrow> string" where
  "runner_actor k = ''runner:'' @ k"

subsection \<open>Authentication\<close>

record auth_frame =
  af_runner_id :: ident
  af_generation :: nat
  af_protocol_version :: int
  af_transcript_signature :: string

definition PROTOCOL_VERSION :: int where
  "PROTOCOL_VERSION = 1"

definition rejectAuthentication :: "socket \<Rightarrow> string \<Rightarrow> string \<Rightarrow> millis \<Rightarrow> relay_server \<Rightarrow> relay_server" where
  "rejectAuthentication sock who act now sv =
     (if wc_authenticationState (connection sock sv) = AU_closed then sv
      else close_socket sock (sendFrame sock SF_auth_error
        (on_stores (audit who act ''authentication failed'' now)
          (on_connection sock (\<lambda>c. c\<lparr>wc_authenticationState := AU_closed\<rparr>) sv))))"

definition auth_begin :: "socket \<Rightarrow> auth_frame \<Rightarrow> millis \<Rightarrow> relay_server \<Rightarrow> relay_server" where
  "auth_begin sock frame now sv =
     (if wc_authenticationState (connection sock sv) \<noteq> AU_awaiting
      then rejectAuthentication sock (runner_actor (af_runner_id frame)) ''runner.auth_failed'' now sv
      else on_connection sock (\<lambda>c. c\<lparr>wc_authenticationState := AU_authenticating\<rparr>) sv)"

text \<open>
  The rest of the handler. \<open>known\<close> is the runner looked up before the await; \<open>restored\<close> is \<open>None\<close> when
  the runner is no Actions runner, an error when the lookup of the durable identity failed, and
  otherwise that identity (key and generation), if there is one. \<open>legacyAuth\<close> is the deployment
  option and \<open>verify\<close> the signature check of the transcript under a public key.
\<close>

definition restored_runner ::
    "auth_frame \<Rightarrow> runner_record option \<Rightarrow> (string + (string \<times> nat) option) option \<Rightarrow> relay_server
      \<Rightarrow> runner_record option \<times> relay_server" where
  "restored_runner frame known restored sv =
     (case restored of
        Some (Inr (Some (pem, g))) \<Rightarrow>
          (case restoreDurableRunnerIdentity (af_runner_id frame) pem g (sv_stores sv) of
             (x, r) \<Rightarrow> (Some x, sv\<lparr>sv_stores := r\<rparr>))
      | Some _ \<Rightarrow> (None, sv)
      | None \<Rightarrow> (known, sv))"

definition durable_identity :: "(string + (string \<times> nat) option) option \<Rightarrow> bool" where
  "durable_identity restored = (case restored of Some (Inr (Some _)) \<Rightarrow> True | _ \<Rightarrow> False)"

definition auth_end ::
    "(string \<Rightarrow> auth_frame \<Rightarrow> bool) \<Rightarrow> bool \<Rightarrow> socket \<Rightarrow> auth_frame \<Rightarrow> runner_record option
      \<Rightarrow> (string + (string \<times> nat) option) option \<Rightarrow> millis \<Rightarrow> relay_server \<Rightarrow> relay_server" where
  "auth_end verify legacyAuth sock frame known restored now sv =
     (let actor = runner_actor (af_runner_id frame);
          shut = on_connection sock (\<lambda>c. c\<lparr>wc_authenticationState := AU_closed\<rparr>)
      in (case restored of
        Some (Inl err) \<Rightarrow> close_socket sock (shut (on_stores (audit actor ''runner.auth_restore_failed'' err now) sv))
      | _ \<Rightarrow>
        (case restored_runner frame known restored sv of (runner, sv1) \<Rightarrow>
         if \<not> durable_identity restored \<and> \<not> legacyAuth
         then rejectAuthentication sock actor ''runner.auth_disabled'' now sv1
         else if wc_authenticationState (connection sock sv1) \<noteq> AU_authenticating then sv1
         else (case runner of
           None \<Rightarrow> rejectAuthentication sock actor ''runner.auth_failed'' now sv1
         | Some x \<Rightarrow>
             if af_protocol_version frame \<noteq> PROTOCOL_VERSION \<or> \<not> verify (rr_public_key_pem x) frame
             then rejectAuthentication sock actor ''runner.auth_failed'' now sv1
             else if af_generation frame \<noteq> rr_generation x
             then close_socket sock (sendFrame sock (SF_fenced (rr_generation x))
                    (on_stores (audit actor ''runner.fenced''
                        (''stale generation '' @ dec (af_generation frame) @ '' (current '' @ dec (rr_generation x) @ '')'') now)
                      (shut sv1)))
             else sendFrame sock SF_auth_ok
                    (on_connection sock (\<lambda>c. c\<lparr>wc_authenticationState := AU_legacy_runner,
                                               wc_authedRunnerId := Some (af_runner_id frame)\<rparr>) sv1)))))"

subsection \<open>Reconciliation\<close>

text \<open>The runner an authenticated frame speaks for.\<close>

definition speaking_runner :: "socket \<Rightarrow> relay_server \<Rightarrow> (ident \<times> runner_record) option" where
  "speaking_runner sock sv =
     (let c = connection sock sv in
      if wc_authenticationState c \<noteq> AU_legacy_runner then None
      else case wc_authedRunnerId c of
             None \<Rightarrow> None
           | Some k \<Rightarrow> (case runner_of k sv of None \<Rightarrow> None | Some x \<Rightarrow> Some (k, x)))"

definition supersede_socket :: "ident \<Rightarrow> socket \<Rightarrow> relay_server \<Rightarrow> relay_server" where
  "supersede_socket k sock sv =
     (case jget (sv_runnerSockets sv) k of
        Some prior \<Rightarrow>
          if prior \<noteq> sock
          then close_socket prior (sv\<lparr>sv_reconciledRunners := jdel k (sv_reconciledRunners sv)\<rparr>)
          else sv
      | None \<Rightarrow> sv)"

text \<open>Up to the await; the result is the runner and the generation the rest of the handler goes on with.\<close>

definition reconcile_begin ::
    "socket \<Rightarrow> reconcile_request \<Rightarrow> millis \<Rightarrow> relay_server \<Rightarrow> (ident \<times> nat) option \<times> relay_server" where
  "reconcile_begin sock body now sv =
     (case speaking_runner sock sv of
        None \<Rightarrow> (None, sv)
      | Some (k, x) \<Rightarrow>
          if rq_generation body \<noteq> rr_generation x
          then (None, close_socket sock (sendFrame sock (SF_fenced (rr_generation x))
                 (on_stores (audit (runner_actor k) ''runner.fenced''
                   (''stale generation '' @ dec (rq_generation body) @ '' (current '' @ dec (rr_generation x) @ '')'') now) sv)))
          else
            (let sv1 = supersede_socket k sock sv;
                 sv2 = sv1\<lparr>sv_runnerSockets := jset k sock (sv_runnerSockets sv1),
                           sv_reconciledRunners := jset k (sock, rr_generation x) (sv_reconciledRunners sv1)\<rparr>
             in (Some (k, rr_generation x),
                 on_stores (audit (runner_actor k) ''runner.connected'' [] now \<circ> markSeen k now) sv2)))"

fun mark_delivered :: "millis \<Rightarrow> command_envelope list \<Rightarrow> relay_stores \<Rightarrow> relay_stores" where
  "mark_delivered now [] r = r"
| "mark_delivered now (e # es) r = mark_delivered now es (snd (setCommandState (ce_command_id e) C_delivered now r))"

fun send_commands :: "socket \<Rightarrow> command_envelope list \<Rightarrow> relay_server \<Rightarrow> relay_server" where
  "send_commands sock [] sv = sv"
| "send_commands sock (e # es) sv = send_commands sock es (sendFrame sock (SF_command e) sv)"

text \<open>
  After the await: \<open>durable\<close> is the error of the durable queue, or the commands it holds for the
  runner. \<open>knowledge\<close> says that the deployment processes knowledge events.
\<close>

definition reconcile_end ::
    "bool \<Rightarrow> socket \<Rightarrow> reconcile_request \<Rightarrow> ident \<times> nat \<Rightarrow> string + command_envelope list \<Rightarrow> millis
      \<Rightarrow> relay_server \<Rightarrow> relay_server" where
  "reconcile_end knowledge sock body kg durable now sv =
     (case (kg, durable) of
        ((k, g), Inl err) \<Rightarrow>
          close_socket sock (on_stores (audit (runner_actor k) ''runner.reconcile_failed'' err now) sv)
      | ((k, g), Inr commands) \<Rightarrow>
          (let durablePending = filter (\<lambda>c. ce_command_id c \<notin> set (rq_recently_executed_command_ids body)) commands;
               inMemoryPending = fst (pendingCommandsFor k (rq_recently_executed_command_ids body) now (sv_stores sv));
               sv1 = on_stores (\<lambda>r. snd (pendingCommandsFor k (rq_recently_executed_command_ids body) now r)) sv;
               sv2 = sendFrame sock (SF_reconcile_response
                       \<lparr>rp_ack_event_seq = eventWatermark k (sv_stores sv1), rp_generation = g,
                        rp_capabilities = Some (if knowledge \<and> RC_knowledge_transport \<in> set (rq_capabilities body)
                                                then [RC_knowledge_transport] else []),
                        rp_resend_commands = inMemoryPending\<rparr>) sv1;
               sv3 = on_stores (mark_delivered now inMemoryPending) (send_commands sock durablePending sv2)
           in on_stores (\<lambda>r. audit (runner_actor k) ''runner.reconciled''
                (''ack_seq='' @ dec (nat (eventWatermark k r))) now r) sv3))"

subsection \<open>Events\<close>

definition rejectRunnerEvents ::
    "socket \<Rightarrow> ident \<Rightarrow> string \<Rightarrow> nat option \<Rightarrow> millis \<Rightarrow> relay_server \<Rightarrow> relay_server" where
  "rejectRunnerEvents sock k detail fencedGeneration now sv =
     (if \<not> wc_ingressOpen (connection sock sv) then sv
      else
        (let sv1 = on_stores (\<lambda>r. snd (auditRateLimited (runner_actor k) RUNNER_EVENT_REJECTED_ACTION detail now
                     RUNNER_EVENT_REJECTION_AUDIT_WINDOW_MS r))
                     (on_connection sock (\<lambda>c. c\<lparr>wc_ingressOpen := False\<rparr>) sv);
             sv2 = (case fencedGeneration of Some g \<Rightarrow> sendFrame sock (SF_fenced g) sv1 | None \<Rightarrow> sv1)
         in close_socket sock sv2))"

definition event_current :: "socket \<Rightarrow> ident \<Rightarrow> event_envelope \<Rightarrow> relay_server \<Rightarrow> bool" where
  "event_current sock k e sv \<longleftrightarrow>
     jget (sv_runnerSockets sv) k = Some sock
   \<and> (case jget (sv_reconciledRunners sv) k of
        Some (s, g) \<Rightarrow> s = sock \<and> ev_runner_id e = k \<and> ev_generation e = g
          \<and> (case runner_of k sv of Some x \<Rightarrow> g = rr_generation x | None \<Rightarrow> False)
      | None \<Rightarrow> False)"

definition mismatch_detail :: string where
  "mismatch_detail = ''event did not match the current reconciled runner generation''"

definition fence_event :: "socket \<Rightarrow> ident \<Rightarrow> event_envelope \<Rightarrow> millis \<Rightarrow> relay_server \<Rightarrow> relay_server" where
  "fence_event sock k e now sv = rejectRunnerEvents sock k mismatch_detail
     (Some (case runner_of k sv of Some x \<Rightarrow> rr_generation x | None \<Rightarrow> ev_generation e + 1)) now sv"

definition event_receive :: "socket \<Rightarrow> event_envelope \<Rightarrow> millis \<Rightarrow> relay_server \<Rightarrow> relay_server" where
  "event_receive sock e now sv =
     (case speaking_runner sock sv of
        None \<Rightarrow> sv
      | Some (k, x) \<Rightarrow>
          if \<not> wc_ingressOpen (connection sock sv) then sv
          else if \<not> event_current sock k e sv then fence_event sock k e now sv
          else on_connection sock (\<lambda>c. c\<lparr>wc_delivery := wc_delivery c @ [e]\<rparr>) sv)"

text \<open>
  The promise chain works on one event at a time: a second check of the head, the persistence of the
  event, and then either the rejection of the connection or ingestion and acknowledgement.
\<close>

definition drop_head :: "socket \<Rightarrow> relay_server \<Rightarrow> relay_server" where
  "drop_head sock = on_connection sock (\<lambda>c. c\<lparr>wc_delivery := tl (wc_delivery c), wc_applying := False\<rparr>)"

definition event_check :: "socket \<Rightarrow> millis \<Rightarrow> relay_server \<Rightarrow> relay_server" where
  "event_check sock now sv =
     (let c = connection sock sv in
      case (wc_delivery c, wc_authedRunnerId c) of
        (e # _, Some k) \<Rightarrow>
          if wc_applying c then sv
          else if \<not> wc_ingressOpen c then drop_head sock sv
          else if \<not> event_current sock k e sv then fence_event sock k e now (drop_head sock sv)
          else on_connection sock (\<lambda>c. c\<lparr>wc_applying := True\<rparr>) sv
      | _ \<Rightarrow> sv)"

definition state_name :: "command_state \<Rightarrow> string" where
  "state_name s = (case s of C_created \<Rightarrow> ''created'' | C_queued \<Rightarrow> ''queued'' | C_delivered \<Rightarrow> ''delivered'' | C_accepted \<Rightarrow> ''accepted''
     | C_executing \<Rightarrow> ''executing'' | C_waiting_for_human \<Rightarrow> ''waiting_for_human'' | C_succeeded \<Rightarrow> ''succeeded''
     | C_failed \<Rightarrow> ''failed'' | C_rejected \<Rightarrow> ''rejected'' | C_expired \<Rightarrow> ''expired'' | C_cancelled \<Rightarrow> ''cancelled'')"

definition applyEventSideEffects :: "event_envelope \<Rightarrow> millis \<Rightarrow> relay_stores \<Rightarrow> relay_stores" where
  "applyEventSideEffects e now r =
     (let r1 = markSeen (ev_runner_id e) now r in
      case ev_payload e of
        EP_command_ack c st detail \<Rightarrow>
          audit (runner_actor (ev_runner_id e)) ''command.ack'' (c @ '' -> '' @ state_name st) now
            (snd (setCommandState c st now r1))
      | _ \<Rightarrow> r1)"

definition ingest_and_ack :: "socket \<Rightarrow> event_envelope \<Rightarrow> millis \<Rightarrow> relay_server \<Rightarrow> relay_server" where
  "ingest_and_ack sock e now sv =
     (let sv1 = (case ingestEvent e (sv_stores sv) of
                   (IO_accepted, r) \<Rightarrow> sv\<lparr>sv_stores := applyEventSideEffects e now r\<rparr>
                 | (_, r) \<Rightarrow> sv\<lparr>sv_stores := r\<rparr>)
      in sendFrame sock (SF_event_ack (eventWatermark (ev_runner_id e) (sv_stores sv1))) sv1)"

definition event_apply :: "socket \<Rightarrow> string option \<Rightarrow> millis \<Rightarrow> relay_server \<Rightarrow> relay_server" where
  "event_apply sock failed now sv =
     (let c = connection sock sv in
      case (wc_delivery c, wc_authedRunnerId c) of
        (e # _, Some k) \<Rightarrow>
          if \<not> wc_applying c then sv
          else (case failed of
                  Some err \<Rightarrow> rejectRunnerEvents sock k err None now (drop_head sock sv)
                | None \<Rightarrow> ingest_and_ack sock e now (drop_head sock sv))
      | _ \<Rightarrow> sv)"

subsection \<open>Disconnection, pairing, revocation, commands\<close>

definition socket_closed :: "socket \<Rightarrow> millis \<Rightarrow> relay_server \<Rightarrow> relay_server" where
  "socket_closed sock now sv =
     (let sv1 = on_connection sock (\<lambda>c. c\<lparr>wc_authenticationState := AU_closed\<rparr>) sv in
      case wc_authedRunnerId (connection sock sv) of
        Some k \<Rightarrow>
          if jget (sv_runnerSockets sv1) k = Some sock
          then on_stores (audit (runner_actor k) ''runner.disconnected'' [] now)
                 (sv1\<lparr>sv_runnerSockets := jdel k (sv_runnerSockets sv1),
                      sv_reconciledRunners := jdel k (sv_reconciledRunners sv1)\<rparr>)
          else sv1
      | None \<Rightarrow> sv1)"

definition fence_socket :: "ident \<Rightarrow> nat option \<Rightarrow> relay_server \<Rightarrow> relay_server" where
  "fence_socket k g sv =
     (let sv1 = sv\<lparr>sv_reconciledRunners := jdel k (sv_reconciledRunners sv)\<rparr> in
      case jget (sv_runnerSockets sv1) k of
        None \<Rightarrow> sv1
      | Some sock \<Rightarrow>
          (let sv2 = sv1\<lparr>sv_runnerSockets := jdel k (sv_runnerSockets sv1)\<rparr> in
           close_socket sock (case g of Some n \<Rightarrow> sendFrame sock (SF_fenced n) sv2 | None \<Rightarrow> sv2)))"

definition pairing_complete :: "string \<Rightarrow> ident \<Rightarrow> string \<Rightarrow> millis \<Rightarrow> relay_server \<Rightarrow> nat option \<times> relay_server" where
  "pairing_complete code k pem now sv =
     (case consumePairing code now (sv_stores sv) of
        (False, r) \<Rightarrow> (None, sv\<lparr>sv_stores := audit (runner_actor k) ''pairing.rejected'' ''invalid or expired code'' now r\<rparr>)
      | (True, r) \<Rightarrow>
          (case registerRunner k pem r of (x, r1) \<Rightarrow>
             (Some (rr_generation x),
              on_stores (audit (runner_actor k) ''pairing.completed'' (''generation='' @ dec (rr_generation x)) now)
                (fence_socket k (Some (rr_generation x)) (sv\<lparr>sv_stores := r1\<rparr>)))))"

definition revoke_runner :: "ident \<Rightarrow> relay_server \<Rightarrow> relay_server" where
  "revoke_runner k sv =
     (case revokeRunnerSessions k (sv_stores sv) of
        (Inl _, r) \<Rightarrow> sv\<lparr>sv_stores := r\<rparr>
      | (Inr _, r) \<Rightarrow>
          (let sv1 = sv\<lparr>sv_stores := r\<rparr> in fence_socket k (map_option rr_generation (runner_of k sv1)) sv1))"

fun deliver_each :: "socket \<Rightarrow> millis \<Rightarrow> command_envelope list \<Rightarrow> relay_server \<Rightarrow> relay_server" where
  "deliver_each sock now [] sv = sv"
| "deliver_each sock now (e # es) sv = deliver_each sock now es
     (on_stores (audit ''server'' ''command.delivered'' (ce_command_id e) now \<circ>
                 (\<lambda>r. snd (setCommandState (ce_command_id e) C_delivered now r)))
       (sendFrame sock (SF_command e) sv))"

definition deliverPending :: "ident \<Rightarrow> ident list \<Rightarrow> millis \<Rightarrow> relay_server \<Rightarrow> relay_server" where
  "deliverPending k executed now sv =
     (case jget (sv_runnerSockets sv) k of
        None \<Rightarrow> sv
      | Some sock \<Rightarrow>
          (case pendingCommandsFor k executed now (sv_stores sv) of
             (es, r) \<Rightarrow> deliver_each sock now es (sv\<lparr>sv_stores := r\<rparr>)))"

datatype issue_error = IE_unknown_runner | IE_kill_switch_engaged | IE_replayed relay_error

text \<open>
  \<^verbatim>\<open>POST /api/commands\<close> for a session that may use the runner; \<open>commandId\<close>, \<open>corr\<close> and \<open>kind\<close> (the printed
  kind of the payload) are generated values, \<open>ttl\<close> is the requested or the default time to live.
\<close>

definition issue_command ::
    "ident \<Rightarrow> command_payload \<Rightarrow> ident \<Rightarrow> ident \<Rightarrow> ident \<Rightarrow> ident \<Rightarrow> string \<Rightarrow> millis \<Rightarrow> millis
      \<Rightarrow> relay_server \<Rightarrow> (issue_error + ident) \<times> relay_server" where
  "issue_command k payload project corr session commandId kind ttl now sv =
     (case runner_of k sv of
        None \<Rightarrow> (Inl IE_unknown_runner, sv)
      | Some x \<Rightarrow>
          if ss_killSwitch (rl_state (sv_stores sv))
          then (Inl IE_kill_switch_engaged, on_stores (audit ''operator'' ''command.refused'' ''kill switch engaged'' now) sv)
          else
            (let envelope = \<lparr>ce_command_id = commandId, ce_idempotency_key = commandId, ce_correlation_id = corr,
                   ce_causation_id = None, ce_project_id = project, ce_runner_id = k, ce_generation = rr_generation x,
                   ce_issued_by_session = session, ce_issued_at = now, ce_expires_at = now + ttl, ce_payload = payload\<rparr>
             in case enqueueCommand envelope now (sv_stores sv) of
                  (Inl err, r) \<Rightarrow> (Inl (IE_replayed err), sv\<lparr>sv_stores := r\<rparr>)
                | (Inr _, r) \<Rightarrow>
                    (Inr commandId, deliverPending k [] now
                      (sv\<lparr>sv_stores := audit ''operator'' ''command.issued'' (commandId @ '' '' @ kind) now r\<rparr>))))"

end
