(* ===== verification/Runner_Executors.thy ===== *)
theory Runner_Executors
  imports Protocol
begin

section \<open>Executors of the runner\<close>

text \<open>
  \<^verbatim>\<open>apps/runner/src/fixture.ts\<close>, the scripted executor of the first phase, and
  \<^verbatim>\<open>apps/runner/src/liveRuns.ts\<close>, the registry through which a live coding run is controlled. An
  operation of the fixture returns the events it emits, in order, with the state it leaves; an
  operation of the registry returns the callbacks it makes into the run. Converting a string to a
  number and printing a number are parameters (\<^verbatim>\<open>None\<close> is \<^verbatim>\<open>NaN\<close>).
\<close>

record run_meta =
  mt_correlation :: "ident option"
  mt_causation :: "ident option"

type_synonym emission = "event_payload \<times> run_meta"

subsection \<open>The fixture\<close>

record fixture_run =
  fx_tick :: nat
  fx_ticks :: "rat option"
  fx_intervalMs :: "rat option"
  fx_paused :: bool
  fx_stopAfterCurrent :: bool
  fx_meta :: run_meta

type_synonym fixture_runs = "(ident, fixture_run) jmap"

record number_syntax =
  nx_parse :: "string \<Rightarrow> rat option"
  nx_show :: "rat option \<Rightarrow> string"

fun split_on :: "char \<Rightarrow> string \<Rightarrow> string list" where
  "split_on sep [] = [[]]"
| "split_on sep (c # cs) =
     (if c = sep then [] # split_on sep cs
      else (case split_on sep cs of p # ps \<Rightarrow> (c # p) # ps | [] \<Rightarrow> [[c]]))"

definition nth_part :: "nat \<Rightarrow> string list \<Rightarrow> string option" where
  "nth_part n parts = (if n < length parts then Some (parts ! n) else None)"

definition number_or :: "number_syntax \<Rightarrow> string option \<Rightarrow> rat \<Rightarrow> rat option" where
  "number_or nx raw dflt = (case raw of None \<Rightarrow> Some dflt | Some s \<Rightarrow> nx_parse nx s)"

definition fixture_launch ::
    "number_syntax \<Rightarrow> ident \<Rightarrow> string \<Rightarrow> run_meta \<Rightarrow> fixture_runs \<Rightarrow> emission list \<times> fixture_runs" where
  "fixture_launch nx runId fixture meta runs =
     (if jget runs runId \<noteq> None then ([], runs)
      else if take 5 fixture = ''leak:'' then
        ([(EP_run_status runId ST_started None, meta),
          (EP_run_log runId (''credential dump: '' @ drop 5 fixture), meta),
          (EP_run_status runId ST_completed None, meta)], runs)
      else
        (let parts = split_on (CHR '':'') fixture;
             run = \<lparr>fx_tick = 0, fx_ticks = number_or nx (nth_part 1 parts) 10,
                    fx_intervalMs = number_or nx (nth_part 2 parts) 100,
                    fx_paused = False, fx_stopAfterCurrent = False, fx_meta = meta\<rparr>
         in ([(EP_run_status runId ST_started None, meta)], jset runId run runs)))"

definition fixture_finish :: "ident \<Rightarrow> run_status \<Rightarrow> fixture_runs \<Rightarrow> emission list \<times> fixture_runs" where
  "fixture_finish runId status runs =
     (case jget runs runId of
        None \<Rightarrow> ([], runs)
      | Some run \<Rightarrow> ([(EP_run_status runId status None, fx_meta run)], jdel runId runs))"

text \<open>One firing of the interval timer of a run.\<close>

definition fixture_fire :: "number_syntax \<Rightarrow> ident \<Rightarrow> fixture_runs \<Rightarrow> emission list \<times> fixture_runs" where
  "fixture_fire nx runId runs =
     (case jget runs runId of
        None \<Rightarrow> ([], runs)
      | Some run \<Rightarrow>
          if fx_paused run then ([], runs)
          else
            (let run' = run\<lparr>fx_tick := fx_tick run + 1\<rparr>;
                 logged = (EP_run_log runId (''tick '' @ dec (fx_tick run') @ ''/'' @ nx_show nx (fx_ticks run')),
                           fx_meta run);
                 runs' = jset runId run' runs;
                 over = (case fx_ticks run' of None \<Rightarrow> False | Some n \<Rightarrow> n \<le> of_nat (fx_tick run'))
             in if over \<or> fx_stopAfterCurrent run'
                then (let (es, runs'') = fixture_finish runId ST_completed runs' in (logged # es, runs''))
                else ([logged], runs')))"

definition fixture_interrupt :: "ident \<Rightarrow> fixture_runs \<Rightarrow> emission list \<times> fixture_runs" where
  "fixture_interrupt runId runs =
     (case jget runs runId of
        None \<Rightarrow> ([], runs)
      | Some run \<Rightarrow>
          if fx_paused run then ([], runs)
          else ([(EP_run_status runId ST_paused None, fx_meta run)], jset runId (run\<lparr>fx_paused := True\<rparr>) runs))"

definition fixture_resume :: "ident \<Rightarrow> fixture_runs \<Rightarrow> emission list \<times> fixture_runs" where
  "fixture_resume runId runs =
     (case jget runs runId of
        None \<Rightarrow> ([], runs)
      | Some run \<Rightarrow>
          if \<not> fx_paused run then ([], runs)
          else ([(EP_run_status runId ST_resumed None, fx_meta run)], jset runId (run\<lparr>fx_paused := False\<rparr>) runs))"

definition fixture_stopAfterCurrent :: "ident \<Rightarrow> fixture_runs \<Rightarrow> emission list \<times> fixture_runs" where
  "fixture_stopAfterCurrent runId runs =
     (case jget runs runId of
        None \<Rightarrow> ([], runs)
      | Some run \<Rightarrow> ([], jset runId (run\<lparr>fx_stopAfterCurrent := True\<rparr>) runs))"

definition fixture_cancel :: "ident \<Rightarrow> fixture_runs \<Rightarrow> emission list \<times> fixture_runs" where
  "fixture_cancel runId runs =
     (if jget runs runId \<noteq> None then fixture_finish runId ST_cancelled runs else ([], runs))"

fun fixture_cancel_each :: "ident list \<Rightarrow> fixture_runs \<Rightarrow> emission list \<times> fixture_runs" where
  "fixture_cancel_each [] runs = ([], runs)"
| "fixture_cancel_each (r # rs) runs =
     (let (es, runs') = fixture_cancel r runs; (es', runs'') = fixture_cancel_each rs runs' in (es @ es', runs''))"

definition fixture_cancelAll :: "fixture_runs \<Rightarrow> emission list \<times> fixture_runs" where
  "fixture_cancelAll runs = fixture_cancel_each (jkeys runs) runs"

definition fixture_isActive :: "ident \<Rightarrow> fixture_runs \<Rightarrow> bool" where
  "fixture_isActive runId runs \<longleftrightarrow> jget runs runId \<noteq> None"

lemmas fixture_defs = fixture_launch_def fixture_finish_def fixture_fire_def fixture_interrupt_def
  fixture_resume_def fixture_stopAfterCurrent_def fixture_cancel_def

text \<open>The fixture emits logs and statuses only, never an acknowledgement.\<close>

fun fixture_payload :: "event_payload \<Rightarrow> bool" where
  "fixture_payload (EP_run_log r c) \<longleftrightarrow> True"
| "fixture_payload (EP_run_status r s f) \<longleftrightarrow> True"
| "fixture_payload _ \<longleftrightarrow> False"

abbreviation fixture_only :: "emission list \<Rightarrow> bool" where
  "fixture_only es \<equiv> list_all (fixture_payload \<circ> fst) es"

lemma fixture_only_ops [simp]:
  "fixture_only (fst (fixture_launch nx r f m runs))" "fixture_only (fst (fixture_finish r s runs))"
  "fixture_only (fst (fixture_fire nx r runs))" "fixture_only (fst (fixture_interrupt r runs))"
  "fixture_only (fst (fixture_resume r runs))" "fixture_only (fst (fixture_stopAfterCurrent r runs))"
  "fixture_only (fst (fixture_cancel r runs))"
  by (simp_all add: fixture_defs Let_def split: option.split)

lemma fixture_only_cancel_each [simp]: "fixture_only (fst (fixture_cancel_each rs runs))"
  by (induction rs arbitrary: runs) (simp_all add: Let_def case_prod_beta)

lemma fixture_only_cancelAll [simp]: "fixture_only (fst (fixture_cancelAll runs))"
  by (simp add: fixture_cancelAll_def)

subsection \<open>The registry of live runs\<close>

record runtime_capabilities =
  cap_interrupt :: bool
  cap_suspend :: bool
  cap_resume_session :: bool
  cap_cancel :: bool
  cap_stop_after_current :: bool
  cap_send_message :: bool

record live_session =
  lsn_sendMessage :: bool
  lsn_interrupt :: bool

record live_registration =
  lv_runId :: ident
  lv_runtimeName :: string
  lv_capabilities :: runtime_capabilities
  lv_session :: "live_session option"

record terminal_facts =
  tf_outcome :: string
  tf_process_tree_reaped :: bool

record live_entry =
  ly_id :: nat
  ly_registration :: live_registration

record live_registry =
  lg_live :: "(ident, live_entry) jmap"
  lg_finished :: "(ident, terminal_facts \<times> millis) jmap"
  lg_next :: nat

definition empty_registry :: live_registry where
  "empty_registry = \<lparr>lg_live = [], lg_finished = [], lg_next = 0\<rparr>"

definition FINISHED_RUN_MEMORY :: nat where
  "FINISHED_RUN_MEMORY = 200"

text \<open>The callbacks into a run; a cancellation tells whether publication is fenced.\<close>

datatype live_effect = LV_cancel ident string bool | LV_interrupt ident | LV_send ident string

text \<open>\<^verbatim>\<open>register\<close> returns the release function of the entry; the entry is known by its number.\<close>

definition live_register :: "live_registration \<Rightarrow> live_registry \<Rightarrow> nat \<times> live_registry" where
  "live_register r g =
     (lg_next g, g\<lparr>lg_live := jset (lv_runId r) \<lparr>ly_id = lg_next g, ly_registration = r\<rparr> (lg_live g),
                   lg_next := lg_next g + 1\<rparr>)"

definition live_publish :: "ident \<Rightarrow> live_session \<Rightarrow> live_registry \<Rightarrow> live_registry" where
  "live_publish runId sn g =
     (case jget (lg_live g) runId of
        None \<Rightarrow> g
      | Some e \<Rightarrow> g\<lparr>lg_live := jset runId
          (e\<lparr>ly_registration := (ly_registration e)\<lparr>lv_session := Some sn\<rparr>\<rparr>) (lg_live g)\<rparr>)"

fun evict :: "('k, 'v) jmap \<Rightarrow> ('k, 'v) jmap" where
  "evict [] = []"
| "evict (p # m) = (if FINISHED_RUN_MEMORY < length (p # m) then evict m else p # m)"

definition live_release ::
    "ident \<Rightarrow> nat \<Rightarrow> string \<Rightarrow> bool \<Rightarrow> millis \<Rightarrow> live_registry \<Rightarrow> live_registry" where
  "live_release runId entry outcome reaped now g =
     (let live = (case jget (lg_live g) runId of
                    Some e \<Rightarrow> if ly_id e = entry then jdel runId (lg_live g) else lg_live g
                  | None \<Rightarrow> lg_live g)
      in g\<lparr>lg_live := live,
           lg_finished := evict (jset runId (\<lparr>tf_outcome = outcome, tf_process_tree_reaped = reaped\<rparr>, now)
                                  (lg_finished g))\<rparr>)"

definition isLive :: "ident \<Rightarrow> live_registry \<Rightarrow> bool" where
  "isLive runId g \<longleftrightarrow> jget (lg_live g) runId \<noteq> None"

definition live_cancelAll :: "string \<Rightarrow> live_registry \<Rightarrow> live_effect list" where
  "live_cancelAll reason g = map (\<lambda>e. LV_cancel (lv_runId (ly_registration e)) reason True) (jvalues (lg_live g))"

definition terminalFacts :: "ident \<Rightarrow> live_registry \<Rightarrow> terminal_facts option" where
  "terminalFacts runId g = map_option fst (jget (lg_finished g) runId)"

definition liveCount :: "live_registry \<Rightarrow> nat" where
  "liveCount g = length (lg_live g)"

record stop_outcome =
  so_found :: bool
  so_outcome :: string
  so_process_tree_reaped :: bool
  so_confirmation_timed_out :: bool

text \<open>
  \<^verbatim>\<open>cancelAndWait\<close> up to its await: the callback into a live run whose terminal facts are then awaited,
  or the answer for a run that is not live. The wait ends with the facts or with the timeout.
\<close>

definition cancelAndWait_begin ::
    "ident \<Rightarrow> string \<Rightarrow> bool \<Rightarrow> live_registry \<Rightarrow> live_effect list \<times> stop_outcome option" where
  "cancelAndWait_begin runId reason fenced g =
     (case jget (lg_live g) runId of
        Some e \<Rightarrow> ([LV_cancel (lv_runId (ly_registration e)) reason fenced], None)
      | None \<Rightarrow> ([], Some (case terminalFacts runId g of
            Some f \<Rightarrow> \<lparr>so_found = True, so_outcome = tf_outcome f,
                       so_process_tree_reaped = tf_process_tree_reaped f, so_confirmation_timed_out = False\<rparr>
          | None \<Rightarrow> \<lparr>so_found = False, so_outcome = ''unknown'', so_process_tree_reaped = False,
                     so_confirmation_timed_out = False\<rparr>)))"

definition cancelAndWait_end :: "terminal_facts option \<Rightarrow> stop_outcome" where
  "cancelAndWait_end facts =
     (case facts of
        None \<Rightarrow> \<lparr>so_found = True, so_outcome = ''cancellation_requested'', so_process_tree_reaped = False,
                 so_confirmation_timed_out = True\<rparr>
      | Some f \<Rightarrow> \<lparr>so_found = True, so_outcome = tf_outcome f,
                   so_process_tree_reaped = tf_process_tree_reaped f, so_confirmation_timed_out = False\<rparr>)"

record stop_summary =
  sm_stop_requested :: nat
  sm_process_trees_reaped :: nat
  sm_unconfirmed :: nat

definition cancelAllAndWait_end :: "terminal_facts option list \<Rightarrow> stop_summary" where
  "cancelAllAndWait_end facts =
     (let reaped = length (filter (\<lambda>f. map_option tf_process_tree_reaped f = Some True) facts)
      in \<lparr>sm_stop_requested = length facts, sm_process_trees_reaped = reaped,
          sm_unconfirmed = length facts - reaped\<rparr>)"

datatype control_kind =
    CK_cancel | CK_interrupt | CK_suspend | CK_resume_session | CK_stop_after_current | CK_send_message

fun control_kind_str :: "control_kind \<Rightarrow> string" where
  "control_kind_str CK_cancel = ''cancel''"
| "control_kind_str CK_interrupt = ''interrupt''"
| "control_kind_str CK_suspend = ''suspend''"
| "control_kind_str CK_resume_session = ''resume_session''"
| "control_kind_str CK_stop_after_current = ''stop_after_current''"
| "control_kind_str CK_send_message = ''send_message''"

record control_outcome =
  ct_applied :: bool
  ct_state :: command_state
  ct_detail :: string

definition refused :: "string \<Rightarrow> control_outcome" where
  "refused detail = \<lparr>ct_applied = False, ct_state = C_rejected, ct_detail = detail\<rparr>"

definition applied :: "string \<Rightarrow> control_outcome" where
  "applied detail = \<lparr>ct_applied = True, ct_state = C_succeeded, ct_detail = detail\<rparr>"

text \<open>
  \<^verbatim>\<open>control\<close> up to its await: \<^verbatim>\<open>null\<close>, a decision, or a session call whose completion gives the outcome
  and whose failure is thrown.
\<close>

datatype control_result = CT_unknown | CT_decided control_outcome | CT_awaiting control_outcome

definition live_control :: "ident \<Rightarrow> control_kind \<Rightarrow> string \<Rightarrow> live_registry \<Rightarrow> live_effect list \<times> control_result" where
  "live_control runId kind message g =
     (case jget (lg_live g) runId of
        None \<Rightarrow>
          (case terminalFacts runId g of
             None \<Rightarrow> ([], CT_unknown)
           | Some ended \<Rightarrow> ([], CT_decided (refused
               (''run '' @ runId @ '' has already ended ('' @ tf_outcome ended @ ''); the ''
                @ control_kind_str kind @ '' was not delivered''))))
      | Some e \<Rightarrow>
          (let r = ly_registration e; runtime = lv_runtimeName r; cap = lv_capabilities r in
           case kind of
             CK_cancel \<Rightarrow>
               ([LV_cancel (lv_runId r) ''cancelled by operator'' False],
                CT_decided (applied (''run '' @ runId @ '' cancelled; work already committed will still be published'')))
           | CK_interrupt \<Rightarrow>
               (if opt_ok (Not \<circ> lsn_interrupt) (lv_session r)
                then ([], CT_decided (refused
                  (if cap_interrupt cap
                   then ''runtime '' @ runtime @ '' supports interrupt but this run has no live session yet''
                   else ''runtime '' @ runtime @ '' cannot interrupt a turn in flight; use cancel to stop the run'')))
                else ([LV_interrupt runId], CT_awaiting (applied (''run '' @ runId @ '' interrupted''))))
           | CK_send_message \<Rightarrow>
               (if message = [] then ([], CT_decided (refused ''send_message carried no message''))
                else if opt_ok (Not \<circ> lsn_sendMessage) (lv_session r)
                then ([], CT_decided (refused
                  (if cap_send_message cap
                   then ''runtime '' @ runtime @ '' accepts mid-session input but this run has no live session yet''
                   else ''runtime '' @ runtime @ '' cannot accept input while a turn is running; the message was not delivered'')))
                else ([LV_send runId message], CT_awaiting (applied (''message delivered to run '' @ runId))))
           | CK_suspend \<Rightarrow>
               ([], CT_decided (refused
                 (''runtime '' @ runtime @ '' cannot suspend a run in place; cancel the run and start a follow-up run instead'')))
           | CK_resume_session \<Rightarrow>
               ([], CT_decided (refused
                 (''run '' @ runId @ '' is already executing; resume_session applies to a run that ended with a resumable session'')))
           | CK_stop_after_current \<Rightarrow>
               ([], CT_decided (refused
                 (if cap_stop_after_current cap
                  then ''runtime '' @ runtime @ '' declares stop_after_current but exposes no control for it''
                  else ''runtime '' @ runtime @ '' cannot stop after the current step; use cancel to stop the run'')))))"

subsection \<open>What the registry promises\<close>

lemma evict_drop: "evict m = drop (length m - FINISHED_RUN_MEMORY) m"
  by (induction m) (auto simp: Suc_diff_le)

lemma evict_bounded: "length (evict m) \<le> FINISHED_RUN_MEMORY"
  by (simp add: evict_drop)

lemma finished_bounded: "length (lg_finished (live_release r i outcome reaped now g)) \<le> FINISHED_RUN_MEMORY"
  unfolding live_release_def Let_def by (simp add: evict_bounded del: evict.simps)

lemma just_finished_remembered:
  assumes "jwf (lg_finished g)" and "jget (lg_finished g) r = None"
  shows "terminalFacts r (live_release r i outcome reaped now g)
           = Some \<lparr>tf_outcome = outcome, tf_process_tree_reaped = reaped\<rparr>"
proof -
  let ?m = "jset r (\<lparr>tf_outcome = outcome, tf_process_tree_reaped = reaped\<rparr>, now) (lg_finished g)"
  have m: "?m = lg_finished g @ [(r, \<lparr>tf_outcome = outcome, tf_process_tree_reaped = reaped\<rparr>, now)]"
    using assms(2) by (simp add: jset_fresh map_of_eq_None_iff)
  have "r \<notin> fst ` set (drop k (lg_finished g))" for k
    using assms(2) by (auto simp: map_of_eq_None_iff dest: in_set_dropD)
  moreover have "length ?m - FINISHED_RUN_MEMORY \<le> length (lg_finished g)"
    by (simp add: m FINISHED_RUN_MEMORY_def)
  ultimately show ?thesis
    unfolding terminalFacts_def live_release_def Let_def
    by (simp add: evict_drop m map_add_Some_iff map_of_eq_None_iff [THEN iffD2] del: evict.simps)
qed

text \<open>
  A control is never silently dropped and never mapped to another one. The registry has no
  opinion exactly about a run that is neither live nor remembered; a refusal makes no call into the
  run and says \<^verbatim>\<open>rejected\<close>; and a control that is applied reached a live run by exactly one call, the one
  it names: a cancellation that lets committed work be published, an interrupt, or the delivery of the
  given message. \<^verbatim>\<open>cancel\<close> on a live run is always applied.
\<close>

theorem live_control_honest:
  "case live_control r kind msg g of (calls, res) \<Rightarrow>
     (res = CT_unknown \<longleftrightarrow> \<not> isLive r g \<and> terminalFacts r g = None)
   \<and> (case res of
        CT_unknown \<Rightarrow> calls = []
      | CT_decided oc \<Rightarrow>
          (ct_applied oc \<longrightarrow> kind = CK_cancel \<and> isLive r g \<and> ct_state oc = C_succeeded
             \<and> (\<exists>e. jget (lg_live g) r = Some e
                  \<and> calls = [LV_cancel (lv_runId (ly_registration e)) ''cancelled by operator'' False]))
        \<and> (\<not> ct_applied oc \<longrightarrow> calls = [] \<and> ct_state oc = C_rejected)
      | CT_awaiting oc \<Rightarrow>
          isLive r g \<and> ct_applied oc \<and> ct_state oc = C_succeeded
        \<and> (kind = CK_interrupt \<and> calls = [LV_interrupt r]
           \<or> kind = CK_send_message \<and> msg \<noteq> [] \<and> calls = [LV_send r msg]))
   \<and> (kind = CK_cancel \<and> isLive r g \<longrightarrow> (\<exists>oc. res = CT_decided oc \<and> ct_applied oc))"
proof (cases "jget (lg_live g) r")
  case None
  then show ?thesis
    by (simp add: live_control_def isLive_def refused_def split: option.split)
next
  case (Some e)
  then show ?thesis
    by (cases kind) (simp_all add: live_control_def isLive_def refused_def applied_def Let_def)
qed

definition sample_registry :: live_registry where
  "sample_registry = snd (live_register
     \<lparr>lv_runId = ''run1'', lv_runtimeName = ''codex'',
      lv_capabilities = \<lparr>cap_interrupt = False, cap_suspend = False, cap_resume_session = True, cap_cancel = True,
        cap_stop_after_current = False, cap_send_message = False\<rparr>,
      lv_session = None\<rparr> empty_registry)"

lemma sample_control:
  "live_control ''run1'' CK_suspend [] sample_registry = ([], CT_decided (refused
     ''runtime codex cannot suspend a run in place; cancel the run and start a follow-up run instead''))"
  "isLive ''run1'' sample_registry"
  by code_simp+

theorem live_control_honest_witness:
  "ct_state (refused ''runtime codex cannot suspend a run in place; cancel the run and start a follow-up run instead'')
     = C_rejected
   \<and> (\<exists>oc. snd (live_control ''run1'' CK_cancel [] sample_registry) = CT_decided oc \<and> ct_applied oc)"
  using live_control_honest [where r = "''run1''" and kind = CK_suspend and msg = "[]" and g = sample_registry]
    live_control_honest [where r = "''run1''" and kind = CK_cancel and msg = "[]" and g = sample_registry] sample_control(2)
  unfolding sample_control(1) by (auto simp: refused_def split: prod.splits)

end
