(* ===== verification/Runner_State.thy ===== *)
theory Runner_State
  imports Runner_Executors
begin

section \<open>Durable state of the runner\<close>

text \<open>
  \<^verbatim>\<open>apps/runner/src/state.ts\<close>: the state a runner keeps in \<^verbatim>\<open>runner-state.json\<close>, the event buffer and the
  record of executed commands. A state file is the state in memory and the trace of what the process
  has done that can be observed from outside: every write of the file, with the event that the write
  put into the buffer when there is one, every frame sent, and every execution started. The file on
  disk is the last write. A crash cuts the trace anywhere; what a restart finds is the last write that
  the cut leaves, so a property of all writes is a property of all crashes.

  A write is the state that it writes, and opening a file gives back the state of the last write: that
  \<^verbatim>\<open>JSON.parse\<close> inverts \<^verbatim>\<open>JSON.stringify\<close> on this state, of strings, numbers and plain objects, is taken from the
  language and not shown here. Failures of the file system are not modelled, nor are torn writes:
  \<^verbatim>\<open>writeFileSync\<close> truncates the file before it writes, and after a crash in between \<^verbatim>\<open>JSON.parse\<close> throws in the
  constructor and the runner cannot start again. What is shown of restarts is about the crashes between two writes;
  after a crash within a write there is no next process.
\<close>

subsection \<open>What is stored\<close>

record runner_file =
  rn_runner_id :: ident
  rn_private_key_pem :: string
  rn_generation :: nat
  rn_seq :: int
  rn_buffer :: "event_envelope list"
  rn_executed :: "(ident, command_state) jmap"

record runner_persisted = runner_file +
  rn_terminal_acks :: "(ident, int) jmap"

text \<open>A file written before the tombstones existed has no \<^verbatim>\<open>terminal_acks\<close>.\<close>

datatype file_content = Legacy_file runner_file | Current_file runner_persisted

datatype observation =
    O_write runner_persisted "event_envelope option"
  | O_send_event event_envelope
  | O_send_reconcile reconcile_request
  | O_start_fixture ident string
  | O_start_v2 ident dispatch_command bool
  | O_start_visual ident visual_evidence_request
  | O_live live_effect
  | O_settled ident command_state

record state_file =
  sf_state :: runner_persisted
  sf_trace :: "observation list"

definition observe :: "observation \<Rightarrow> 'a state_file_scheme \<Rightarrow> 'a state_file_scheme" where
  "observe ob f = f\<lparr>sf_trace := sf_trace f @ [ob]\<rparr>"

text \<open>What a trace tells: the file on disk, the events ever buffered, the frames sent, the starts.\<close>

fun write_of :: "observation \<Rightarrow> runner_persisted option" where
  "write_of (O_write st ev) = Some st"
| "write_of _ = None"

fun event_of :: "observation \<Rightarrow> event_envelope list" where
  "event_of (O_write st (Some e)) = [e]"
| "event_of _ = []"

fun sent_by :: "observation \<Rightarrow> event_envelope list" where
  "sent_by (O_send_event e) = [e]"
| "sent_by _ = []"

fun started_by :: "observation \<Rightarrow> ident list" where
  "started_by (O_start_fixture c fixture) = [c]"
| "started_by (O_start_v2 c dispatch knowledge) = [c]"
| "started_by (O_start_visual c request) = [c]"
| "started_by _ = []"

definition disk :: "observation list \<Rightarrow> runner_persisted option" where
  "disk tr = fold (\<lambda>ob d. case write_of ob of None \<Rightarrow> d | Some st \<Rightarrow> Some st) tr None"

definition emitted :: "observation list \<Rightarrow> event_envelope list" where
  "emitted tr = concat (map event_of tr)"

definition sent :: "observation list \<Rightarrow> event_envelope list" where
  "sent tr = concat (map sent_by tr)"

definition started :: "observation list \<Rightarrow> ident list" where
  "started tr = concat (map started_by tr)"

lemma trace_views_Nil [simp]: "disk [] = None" "emitted [] = []" "sent [] = []" "started [] = []"
  by (simp_all add: disk_def emitted_def sent_def started_def)

lemma trace_views_append [simp]:
  "emitted (tr @ tr') = emitted tr @ emitted tr'" "sent (tr @ tr') = sent tr @ sent tr'"
  "started (tr @ tr') = started tr @ started tr'"
  by (simp_all add: emitted_def sent_def started_def)

lemma trace_views_single [simp]:
  "emitted [ob] = event_of ob" "sent [ob] = sent_by ob" "started [ob] = started_by ob"
  "disk [ob] = write_of ob"
  "disk (tr @ [ob]) = (case write_of ob of None \<Rightarrow> disk tr | Some st \<Rightarrow> Some st)"
  by (simp_all add: emitted_def sent_def started_def disk_def split: option.split)

subsection \<open>Operations of the state file\<close>

definition persist :: "event_envelope option \<Rightarrow> 'a state_file_scheme \<Rightarrow> 'a state_file_scheme" where
  "persist ev f = observe (O_write (sf_state f) ev) f"

definition terminal_ack_of :: "event_envelope \<Rightarrow> ident option" where
  "terminal_ack_of e =
     (case ev_payload e of
        EP_command_ack c st detail \<Rightarrow> (if terminal_command st then Some c else None)
      | _ \<Rightarrow> None)"

definition inferredTerminalAcks :: "event_envelope list \<Rightarrow> (ident, int) jmap" where
  "inferredTerminalAcks buffer =
     fold (\<lambda>e acks. case terminal_ack_of e of Some c \<Rightarrow> jset c (ev_event_seq e) acks | None \<Rightarrow> acks) buffer []"

definition with_acks :: "runner_file \<Rightarrow> (ident, int) jmap \<Rightarrow> runner_persisted" where
  "with_acks f acks = runner_file.extend f (runner_persisted.fields acks)"

text \<open>
  The constructor: the state it loads or creates, and whether it writes it back. The initial state is
  that of a fresh enrollment.
\<close>

definition opened :: "file_content option \<Rightarrow> ident \<Rightarrow> string \<Rightarrow> nat \<Rightarrow> runner_persisted \<times> bool" where
  "opened content runner_id private_key_pem generation =
     (case content of
        Some (Current_file st) \<Rightarrow> (st, False)
      | Some (Legacy_file f) \<Rightarrow> (with_acks f (inferredTerminalAcks (rn_buffer f)), True)
      | None \<Rightarrow>
          (\<lparr>rn_runner_id = runner_id, rn_private_key_pem = private_key_pem, rn_generation = generation,
            rn_seq = 0, rn_buffer = [], rn_executed = [], rn_terminal_acks = []\<rparr>, True))"

definition open_file ::
    "file_content option \<Rightarrow> ident \<Rightarrow> string \<Rightarrow> nat \<Rightarrow> observation list \<Rightarrow> state_file" where
  "open_file content runner_id private_key_pem generation tr =
     (let (st, write) = opened content runner_id private_key_pem generation;
          f = \<lparr>sf_state = st, sf_trace = tr\<rparr>
      in if write then persist None f else f)"

definition nextSeq :: "'a state_file_scheme \<Rightarrow> 'a state_file_scheme" where
  "nextSeq f = persist None (f\<lparr>sf_state := (sf_state f)\<lparr>rn_seq := rn_seq (sf_state f) + 1\<rparr>\<rparr>)"

definition bufferEvent :: "event_envelope \<Rightarrow> 'a state_file_scheme \<Rightarrow> 'a state_file_scheme" where
  "bufferEvent e f =
     persist (Some e) (f\<lparr>sf_state := (sf_state f)\<lparr>rn_buffer := rn_buffer (sf_state f) @ [e]\<rparr>\<rparr>)"

definition unackedSince :: "int \<Rightarrow> runner_persisted \<Rightarrow> event_envelope list" where
  "unackedSince ackSeq st = filter (\<lambda>e. ackSeq < ev_event_seq e) (rn_buffer st)"

definition pruneAcked :: "int \<Rightarrow> 'a state_file_scheme \<Rightarrow> 'a state_file_scheme" where
  "pruneAcked ackSeq f =
     (let f' = f\<lparr>sf_state := (sf_state f)\<lparr>rn_buffer := unackedSince ackSeq (sf_state f)\<rparr>\<rparr>
      in if length (rn_buffer (sf_state f')) \<noteq> length (rn_buffer (sf_state f)) then persist None f' else f')"

definition recordExecution :: "ident \<Rightarrow> command_state \<Rightarrow> 'a state_file_scheme \<Rightarrow> 'a state_file_scheme" where
  "recordExecution commandId st f =
     persist None (f\<lparr>sf_state := (sf_state f)\<lparr>rn_executed := jset commandId st (rn_executed (sf_state f))\<rparr>\<rparr>)"

definition executionState :: "ident \<Rightarrow> runner_persisted \<Rightarrow> command_state option" where
  "executionState commandId st = jget (rn_executed st) commandId"

definition executedIds :: "runner_persisted \<Rightarrow> ident list" where
  "executedIds st = jkeys (rn_executed st)"

definition terminalExecutions :: "runner_persisted \<Rightarrow> (ident \<times> command_state) list" where
  "terminalExecutions st = filter (\<lambda>(c, s). terminal_command s) (rn_executed st)"

definition orphanedExecutingIds :: "ident list \<Rightarrow> runner_persisted \<Rightarrow> ident list" where
  "orphanedExecutingIds liveCommandIds st =
     map fst (filter (\<lambda>(c, s). s = C_executing \<and> c \<notin> set liveCommandIds) (rn_executed st))"

record terminal_ack_input =
  ta_command_id :: ident
  ta_state :: command_state
  ta_runner_id :: ident
  ta_generation :: nat
  ta_correlation_id :: ident
  ta_causation_id :: "ident option"
  ta_occurred_at :: millis
  ta_detail :: string

datatype runner_error = NonterminalAck command_state | CredentialFenced

definition ack_event :: "int \<Rightarrow> terminal_ack_input \<Rightarrow> event_envelope" where
  "ack_event seq i =
     \<lparr>ev_event_seq = seq, ev_runner_id = ta_runner_id i, ev_generation = ta_generation i,
      ev_correlation_id = ta_correlation_id i, ev_causation_id = ta_causation_id i,
      ev_occurred_at = ta_occurred_at i,
      ev_payload = EP_command_ack (ta_command_id i) (ta_state i) (ta_detail i)\<rparr>"

definition ensureTerminalAck ::
    "terminal_ack_input \<Rightarrow> ('a state_file_scheme, runner_error, event_envelope option \<times> bool) action" where
  "ensureTerminalAck i f =
     (if \<not> terminal_command (ta_state i) then (Inl (NonterminalAck (ta_state i)), f)
      else (let st = sf_state f; c = ta_command_id i in
        case List.find (\<lambda>e. terminal_ack_of e = Some c) (rn_buffer st) of
          Some existing \<Rightarrow>
            (Inr (Some existing, False),
             if jget (rn_terminal_acks st) c = None
             then persist None (f\<lparr>sf_state := st\<lparr>rn_terminal_acks := jset c (ev_event_seq existing) (rn_terminal_acks st)\<rparr>\<rparr>)
             else f)
        | None \<Rightarrow>
            if jget (rn_terminal_acks st) c \<noteq> None then (Inr (None, False), f)
            else (let e = ack_event (rn_seq st + 1) i in
              (Inr (Some e, True),
               persist (Some e) (f\<lparr>sf_state := st\<lparr>rn_seq := ev_event_seq e, rn_buffer := rn_buffer st @ [e],
                 rn_terminal_acks := jset c (ev_event_seq e) (rn_terminal_acks st)\<rparr>\<rparr>)))))"

subsection \<open>Invariant of every cut\<close>

text \<open>
  What the stored state says about the events ever buffered, \<open>h\<close>: their sequence numbers increase and
  do not exceed the counter, they carry the runner's identity, the buffer holds those above some
  acknowledged number, the tombstones are exactly the sequence numbers of the terminal
  acknowledgements, and a terminal acknowledgement states the recorded outcome.
\<close>

fun truthful :: "(ident, command_state) jmap \<Rightarrow> event_payload \<Rightarrow> bool" where
  "truthful executed (EP_command_ack c s detail) \<longleftrightarrow> (terminal_command s \<longrightarrow> jget executed c = Some s)"
| "truthful executed _ \<longleftrightarrow> True"

abbreviation in_order :: "event_envelope list \<Rightarrow> bool" where
  "in_order h \<equiv> sorted_wrt (\<lambda>a b. ev_event_seq a < ev_event_seq b) h"

definition own_event :: "runner_persisted \<Rightarrow> event_envelope \<Rightarrow> bool" where
  "own_event st e \<longleftrightarrow> 0 < ev_event_seq e \<and> ev_event_seq e \<le> rn_seq st
     \<and> ev_runner_id e = rn_runner_id st \<and> ev_generation e = rn_generation st
     \<and> truthful (rn_executed st) (ev_payload e)"

definition buffers_tail :: "event_envelope list \<Rightarrow> event_envelope list \<Rightarrow> bool" where
  "buffers_tail buf h \<longleftrightarrow> (\<exists>k. buf = filter (\<lambda>e. k < ev_event_seq e) h)"

definition tombstones :: "(ident, int) jmap \<Rightarrow> event_envelope list \<Rightarrow> bool" where
  "tombstones acks h \<longleftrightarrow>
     (\<forall>c n. jget acks c = Some n \<longleftrightarrow> (\<exists>e \<in> set h. terminal_ack_of e = Some c \<and> ev_event_seq e = n))"

definition runner_inv :: "runner_persisted \<Rightarrow> event_envelope list \<Rightarrow> bool" where
  "runner_inv st h \<longleftrightarrow> in_order h \<and> (\<forall>e \<in> set h. own_event st e) \<and> 0 \<le> rn_seq st
     \<and> buffers_tail (rn_buffer st) h \<and> tombstones (rn_terminal_acks st) h \<and> jwf (rn_executed st)"

definition cut_ok :: "observation list \<Rightarrow> bool" where
  "cut_ok tr \<longleftrightarrow> distinct (started tr) \<and> set (sent tr) \<subseteq> set (emitted tr)
     \<and> (case disk tr of
          None \<Rightarrow> emitted tr = [] \<and> started tr = []
        | Some st \<Rightarrow> runner_inv st (emitted tr)
            \<and> (\<forall>c \<in> set (started tr). jget (rn_executed st) c \<noteq> None))"

definition trace_ok :: "observation list \<Rightarrow> bool" where
  "trace_ok tr \<longleftrightarrow> (\<forall>n. cut_ok (take n tr))"

definition file_ok :: "'a state_file_scheme \<Rightarrow> bool" where
  "file_ok f \<longleftrightarrow> trace_ok (sf_trace f) \<and> disk (sf_trace f) = Some (sf_state f)"

lemma trace_ok_snoc: "trace_ok (tr @ [ob]) \<longleftrightarrow> trace_ok tr \<and> cut_ok (tr @ [ob])"
proof
  assume all: "trace_ok (tr @ [ob])"
  have "cut_ok (take n tr)" for n
  proof -
    have "take n tr = take (min n (length tr)) (tr @ [ob])" by (simp add: min_def)
    with all show ?thesis unfolding trace_ok_def by metis
  qed
  moreover have "cut_ok (take (length (tr @ [ob])) (tr @ [ob]))" using all unfolding trace_ok_def by blast
  ultimately show "trace_ok tr \<and> cut_ok (tr @ [ob])" by (simp add: trace_ok_def)
next
  assume l: "trace_ok tr \<and> cut_ok (tr @ [ob])"
  show "trace_ok (tr @ [ob])" unfolding trace_ok_def
  proof
    fix n
    from l show "cut_ok (take n (tr @ [ob]))"
      by (cases "n \<le> length tr") (simp_all add: trace_ok_def)
  qed
qed

lemma trace_ok_now: "trace_ok tr \<Longrightarrow> cut_ok tr"
  unfolding trace_ok_def by (metis order_refl take_all)

lemma file_okD:
  assumes "file_ok f"
  shows "runner_inv (sf_state f) (emitted (sf_trace f))" "distinct (started (sf_trace f))"
    "set (sent (sf_trace f)) \<subseteq> set (emitted (sf_trace f))"
    "c \<in> set (started (sf_trace f)) \<Longrightarrow> jget (rn_executed (sf_state f)) c \<noteq> None"
  using assms trace_ok_now [of "sf_trace f"] by (auto simp: file_ok_def cut_ok_def)

text \<open>A write keeps the invariant when the new state explains the events and forgets no execution.\<close>

lemma persist_ok:
  assumes f: "file_ok f"
    and inv: "runner_inv st (emitted (sf_trace f) @ (case ev of None \<Rightarrow> [] | Some e \<Rightarrow> [e]))"
    and ex: "\<And>c. jget (rn_executed (sf_state f)) c \<noteq> None \<Longrightarrow> jget (rn_executed st) c \<noteq> None"
  shows "file_ok (persist ev (f\<lparr>sf_state := st\<rparr>))"
proof -
  have "event_of (O_write st ev) = (case ev of None \<Rightarrow> [] | Some e \<Rightarrow> [e])" by (cases ev) simp_all
  moreover have "cut_ok (sf_trace f @ [O_write st ev])"
    using file_okD [OF f] inv ex calculation unfolding cut_ok_def by (cases ev) auto
  ultimately show ?thesis
    using f by (simp add: file_ok_def persist_def observe_def trace_ok_snoc)
qed

lemma observe_ok:
  assumes f: "file_ok f" and w: "write_of ob = None"
    and s: "set (sent_by ob) \<subseteq> set (emitted (sf_trace f))"
    and st: "started_by ob = [] \<or> (\<exists>c. started_by ob = [c] \<and> c \<notin> set (started (sf_trace f))
               \<and> jget (rn_executed (sf_state f)) c \<noteq> None)"
  shows "file_ok (observe ob f)"
proof -
  have e: "event_of ob = []" using w by (cases ob) auto
  have d: "disk (sf_trace f) = Some (sf_state f)" using f by (simp add: file_ok_def)
  have "cut_ok (sf_trace f @ [ob])"
    using file_okD [OF f] e d w s st unfolding cut_ok_def by auto
  then show ?thesis using f w d by (simp add: file_ok_def observe_def trace_ok_snoc)
qed

lemma observe_plain_ok:
  "file_ok f \<Longrightarrow> write_of ob = None \<Longrightarrow> sent_by ob = [] \<Longrightarrow> started_by ob = [] \<Longrightarrow> file_ok (observe ob f)"
  by (rule observe_ok) auto

lemma file_ok_cong: "sf_state g = sf_state f \<Longrightarrow> sf_trace g = sf_trace f \<Longrightarrow> file_ok g = file_ok f"
  by (simp add: file_ok_def)

subsection \<open>Operations keep the invariant\<close>

lemma runner_invD:
  assumes "runner_inv st h"
  shows "in_order h" "\<And>e. e \<in> set h \<Longrightarrow> own_event st e" "0 \<le> rn_seq st"
    "buffers_tail (rn_buffer st) h" "tombstones (rn_terminal_acks st) h" "jwf (rn_executed st)"
  using assms by (auto simp: runner_inv_def)

lemma buffer_subset: "buffers_tail buf h \<Longrightarrow> set buf \<subseteq> set h"
  by (auto simp: buffers_tail_def)

lemma own_event_upd [simp]:
  "own_event (st\<lparr>rn_buffer := b\<rparr>) e = own_event st e"
  "own_event (st\<lparr>rn_terminal_acks := a\<rparr>) e = own_event st e"
  by (simp_all add: own_event_def)

lemma own_event_seq: "own_event st e \<Longrightarrow> rn_seq st \<le> n \<Longrightarrow> own_event (st\<lparr>rn_seq := n\<rparr>) e"
  by (auto simp: own_event_def)

lemma tombstone_None:
  "tombstones acks h \<Longrightarrow> jget acks c = None \<longleftrightarrow> (\<forall>e \<in> set h. terminal_ack_of e \<noteq> Some c)"
  unfolding tombstones_def by (metis not_None_eq)

lemma terminal_ack_of_Some:
  "terminal_ack_of e = Some c \<longleftrightarrow> (\<exists>s detail. ev_payload e = EP_command_ack c s detail \<and> terminal_command s)"
  by (auto simp: terminal_ack_of_def split: event_payload.splits)

text \<open>A tombstone of a command means its outcome is recorded.\<close>

lemma tombstone_recorded:
  assumes inv: "runner_inv st h" and t: "jget (rn_terminal_acks st) c = Some n"
  shows "\<exists>s. jget (rn_executed st) c = Some s \<and> terminal_command s"
proof -
  from t runner_invD(5) [OF inv] obtain e where e: "e \<in> set h" "terminal_ack_of e = Some c"
    by (auto simp: tombstones_def)
  then obtain s detail where "ev_payload e = EP_command_ack c s detail" "terminal_command s"
    by (auto simp: terminal_ack_of_Some)
  with runner_invD(2) [OF inv e(1)] show ?thesis by (auto simp: own_event_def)
qed

lemma nextSeq_ok [norns_inv]: "file_ok f \<Longrightarrow> file_ok (nextSeq f)"
  unfolding nextSeq_def
  by (rule persist_ok) (auto simp: runner_inv_def dest!: file_okD(1) intro: own_event_seq)

lemma recordExecution_ok:
  assumes f: "file_ok f" and c: "jget (rn_terminal_acks (sf_state f)) c = None"
  shows "file_ok (recordExecution c s f)"
  unfolding recordExecution_def
proof (rule persist_ok [OF f])
  let ?st = "sf_state f" and ?h = "emitted (sf_trace f)"
  note inv = file_okD(1) [OF f]
  have "own_event (?st\<lparr>rn_executed := jset c s (rn_executed ?st)\<rparr>) e" if e: "e \<in> set ?h" for e
  proof -
    have "terminal_ack_of e \<noteq> Some c"
      using tombstone_None [OF runner_invD(5) [OF inv]] c e by blast
    with runner_invD(2) [OF inv e] show ?thesis
      by (cases "ev_payload e") (auto simp: own_event_def terminal_ack_of_Some)
  qed
  with inv show "runner_inv (?st\<lparr>rn_executed := jset c s (rn_executed ?st)\<rparr>)
      (?h @ (case None of None \<Rightarrow> [] | Some e \<Rightarrow> [e]))"
    by (auto simp: runner_inv_def)
qed simp

lemma pruneAcked_state:
  "sf_state (pruneAcked k f) = (sf_state f)\<lparr>rn_buffer := unackedSince k (sf_state f)\<rparr>"
  "emitted (sf_trace (pruneAcked k f)) = emitted (sf_trace f)"
  by (simp_all add: pruneAcked_def Let_def persist_def observe_def)

lemma pruneAcked_ok [norns_inv]:
  assumes f: "file_ok f"
  shows "file_ok (pruneAcked k f)"
proof (cases "length (unackedSince k (sf_state f)) = length (rn_buffer (sf_state f))")
  case True
  then have "unackedSince k (sf_state f) = rn_buffer (sf_state f)"
    unfolding unackedSince_def by (metis filter_id_conv length_filter_less less_irrefl)
  then have "sf_state (pruneAcked k f) = sf_state f" "sf_trace (pruneAcked k f) = sf_trace f"
    by (simp_all add: pruneAcked_def Let_def)
  with f show ?thesis by (simp add: file_ok_def)
next
  case False
  have "file_ok (persist None (f\<lparr>sf_state := (sf_state f)\<lparr>rn_buffer := unackedSince k (sf_state f)\<rparr>\<rparr>))"
  proof (rule persist_ok [OF f])
    note inv = file_okD(1) [OF f]
    obtain j where "rn_buffer (sf_state f) = filter (\<lambda>e. j < ev_event_seq e) (emitted (sf_trace f))"
      using runner_invD(4) [OF inv] by (auto simp: buffers_tail_def)
    then have "unackedSince k (sf_state f)
        = filter (\<lambda>e. max j k < ev_event_seq e) (emitted (sf_trace f))"
      by (auto simp: unackedSince_def intro!: filter_cong)
    then have "buffers_tail (unackedSince k (sf_state f)) (emitted (sf_trace f))"
      unfolding buffers_tail_def by blast
    with inv show "runner_inv ((sf_state f)\<lparr>rn_buffer := unackedSince k (sf_state f)\<rparr>)
        (emitted (sf_trace f) @ (case None of None \<Rightarrow> [] | Some e \<Rightarrow> [e]))"
      by (simp add: runner_inv_def)
  qed simp
  with False show ?thesis by (simp add: pruneAcked_def Let_def)
qed

lemma in_order_snoc: "in_order h \<Longrightarrow> (\<And>x. x \<in> set h \<Longrightarrow> ev_event_seq x < ev_event_seq e) \<Longrightarrow> in_order (h @ [e])"
  by (simp add: sorted_wrt_append)

lemma buffers_tail_snoc:
  assumes "buffers_tail buf h" and "\<And>x. x \<in> set h \<Longrightarrow> ev_event_seq x < ev_event_seq e"
  shows "buffers_tail (buf @ [e]) (h @ [e])"
proof -
  obtain k where k: "buf = filter (\<lambda>x. k < ev_event_seq x) h" using assms(1) by (auto simp: buffers_tail_def)
  show ?thesis
  proof (cases "k < ev_event_seq e")
    case True
    then show ?thesis unfolding buffers_tail_def k by (intro exI [of _ k]) simp
  next
    case False
    then have "buf = []" unfolding k by (auto simp: filter_empty_conv dest: assms(2))
    moreover have "filter (\<lambda>x. ev_event_seq e - 1 < ev_event_seq x) h = []"
      by (auto simp: filter_empty_conv dest: assms(2))
    ultimately show ?thesis unfolding buffers_tail_def by (intro exI [of _ "ev_event_seq e - 1"]) simp
  qed
qed

text \<open>
  A new event gets the counter as its number; it carries the runner's identity. What \<^verbatim>\<open>emit\<close> and
  \<^verbatim>\<open>ensureTerminalAck\<close> write, seen from the state before \<^verbatim>\<open>nextSeq\<close>.
\<close>

lemma append_event_inv:
  assumes inv: "runner_inv st h"
    and e: "ev_event_seq e = rn_seq st + 1" "ev_runner_id e = rn_runner_id st"
      "ev_generation e = rn_generation st" "truthful (rn_executed st) (ev_payload e)"
    and t: "tombstones acks (h @ [e])"
  shows "runner_inv (st\<lparr>rn_seq := rn_seq st + 1, rn_buffer := rn_buffer st @ [e], rn_terminal_acks := acks\<rparr>) (h @ [e])"
proof -
  note inv' = runner_invD [OF inv]
  have lt: "ev_event_seq x < ev_event_seq e" if "x \<in> set h" for x
    using inv'(2) [OF that] e(1) by (auto simp: own_event_def)
  have "own_event (st\<lparr>rn_seq := rn_seq st + 1\<rparr>) x" if "x \<in> set (h @ [e])" for x
  proof (cases "x = e")
    case False
    with that have "own_event st x" by (intro inv'(2)) simp
    then show ?thesis by (rule own_event_seq) simp
  qed (use inv'(3) e in \<open>simp add: own_event_def\<close>)
  then show ?thesis
    using in_order_snoc [OF inv'(1) lt] buffers_tail_snoc [OF inv'(4) lt] inv'(3,6) t
    by (simp add: runner_inv_def own_event_def)
qed

lemma tombstones_other: "tombstones acks h \<Longrightarrow> terminal_ack_of e = None \<Longrightarrow> tombstones acks (h @ [e])"
  by (auto simp: tombstones_def)

lemma tombstones_new:
  assumes t: "tombstones acks h" and c: "jget acks c = None" and e: "terminal_ack_of e = Some c"
  shows "tombstones (jset c (ev_event_seq e) acks) (h @ [e])"
  using t e tombstone_None [OF t, of c] c unfolding tombstones_def by auto

lemma buffer_next_event_ok:
  assumes f: "file_ok f"
    and e: "ev_event_seq e = rn_seq (sf_state f) + 1" "ev_runner_id e = rn_runner_id (sf_state f)"
      "ev_generation e = rn_generation (sf_state f)" and n: "terminal_ack_of e = None"
  shows "file_ok (bufferEvent e (nextSeq f))"
  unfolding bufferEvent_def
proof (rule persist_ok [OF nextSeq_ok [OF f]])
  note inv = file_okD(1) [OF f]
  have "truthful (rn_executed (sf_state f)) (ev_payload e)"
    using n by (cases "ev_payload e") (auto simp: terminal_ack_of_def split: if_splits)
  from append_event_inv [OF inv e this tombstones_other [OF runner_invD(5) [OF inv] n]]
  show "runner_inv ((sf_state (nextSeq f))\<lparr>rn_buffer := rn_buffer (sf_state (nextSeq f)) @ [e]\<rparr>)
      (emitted (sf_trace (nextSeq f)) @ (case Some e of None \<Rightarrow> [] | Some e \<Rightarrow> [e]))"
    by (simp add: nextSeq_def persist_def observe_def)
qed simp

lemma find_ack:
  "List.find (\<lambda>e. terminal_ack_of e = Some c) buf = Some e \<Longrightarrow> e \<in> set buf \<and> terminal_ack_of e = Some c"
  by (auto simp: find_Some_iff)

lemma ensureTerminalAck_cases:
  assumes f: "file_ok f" and t: "terminal_command (ta_state i)"
  obtains (known) e where "ensureTerminalAck i f = (Inr (e, False), f)"
      "jget (rn_terminal_acks (sf_state f)) (ta_command_id i) \<noteq> None"
  | (created) "jget (rn_terminal_acks (sf_state f)) (ta_command_id i) = None"
      "ensureTerminalAck i f = (let st = sf_state f; e = ack_event (rn_seq st + 1) i in
         (Inr (Some e, True),
          persist (Some e) (f\<lparr>sf_state := st\<lparr>rn_seq := rn_seq st + 1, rn_buffer := rn_buffer st @ [e],
             rn_terminal_acks := jset (ta_command_id i) (rn_seq st + 1) (rn_terminal_acks st)\<rparr>\<rparr>)))"
proof -
  note inv = file_okD(1) [OF f]
  let ?find = "List.find (\<lambda>e. terminal_ack_of e = Some (ta_command_id i)) (rn_buffer (sf_state f))"
  have "jget (rn_terminal_acks (sf_state f)) (ta_command_id i) \<noteq> None" if "?find = Some e" for e
    using find_ack [OF that] buffer_subset [OF runner_invD(4) [OF inv]]
      tombstone_None [OF runner_invD(5) [OF inv], of "ta_command_id i"] by blast
  then show ?thesis
    using that t by (cases ?find; cases "jget (rn_terminal_acks (sf_state f)) (ta_command_id i)")
      (simp_all add: ensureTerminalAck_def Let_def ack_event_def)
qed

lemma ensureTerminalAck_ok:
  assumes f: "file_ok f" and t: "terminal_command (ta_state i)"
    and c: "jget (rn_executed (sf_state f)) (ta_command_id i) = Some (ta_state i)"
    and own: "ta_runner_id i = rn_runner_id (sf_state f)" "ta_generation i = rn_generation (sf_state f)"
  shows "file_ok (snd (ensureTerminalAck i f))"
  using f t
proof (cases rule: ensureTerminalAck_cases)
  case (known e)
  with f show ?thesis by simp
next
  case created
  let ?st = "sf_state f" and ?e = "ack_event (rn_seq (sf_state f) + 1) i"
  note inv = file_okD(1) [OF f]
  have a: "terminal_ack_of ?e = Some (ta_command_id i)" using t by (simp add: ack_event_def terminal_ack_of_def)
  have "tombstones (jset (ta_command_id i) (rn_seq ?st + 1) (rn_terminal_acks ?st)) (emitted (sf_trace f) @ [?e])"
    using tombstones_new [OF runner_invD(5) [OF inv] created(1) a] by (simp add: ack_event_def)
  from append_event_inv [OF inv _ _ _ _ this] c own
  have "file_ok (persist (Some ?e) (f\<lparr>sf_state := ?st\<lparr>rn_seq := rn_seq ?st + 1, rn_buffer := rn_buffer ?st @ [?e],
      rn_terminal_acks := jset (ta_command_id i) (rn_seq ?st + 1) (rn_terminal_acks ?st)\<rparr>\<rparr>))"
    by (intro persist_ok [OF f]) (simp_all add: ack_event_def)
  with created(2) show ?thesis by (simp add: Let_def)
qed

subsection \<open>Opening the file\<close>

lemma disk_cut_ok: "trace_ok tr \<Longrightarrow> trace_ok (take n tr)"
  unfolding trace_ok_def by (metis take_take)

lemma reopen_ok:
  assumes "trace_ok tr" "disk tr = Some st"
  shows "file_ok (open_file (Some (Current_file st)) r k g tr)"
    and "sf_state (open_file (Some (Current_file st)) r k g tr) = st"
  using assms by (simp_all add: open_file_def opened_def file_ok_def)

lemma fresh_ok: "file_ok (open_file None r k g [])"
proof -
  have "trace_ok []" by (simp add: trace_ok_def cut_ok_def)
  then show ?thesis
    by (simp add: open_file_def opened_def persist_def observe_def file_ok_def cut_ok_def
        runner_inv_def buffers_tail_def tombstones_def trace_ok_snoc [of "[]", simplified])
qed

end
