(* ===== verification/Daemon.thy ===== *)
theory Daemon
  imports Runner_State
begin

section \<open>The runner daemon\<close>

text \<open>
  \<^verbatim>\<open>apps/runner/src/daemon.ts\<close>: emission and acknowledgement, the bounded send window, reconciliation,
  the execution of commands with durable deduplication, the routing of controls, fencing and the local
  stops. The daemon extends the state file, so that every durable write goes through the operations of
  \<^verbatim>\<open>Runner_State\<close>. What an asynchronous handler does after its await is a separate operation on the
  promise it left in \<^verbatim>\<open>dm_pending\<close>; between the two any other operation may run.

  Parameters: the syntax of numbers and the redaction of log text, grouped in
  \<^verbatim>\<open>daemon_env\<close>. \<open>dx_redact\<close> is the method \<^verbatim>\<open>redact\<close> of the process's \<^verbatim>\<open>Redactor\<close>. Each process creates
  its own (daemon.ts, line 132), with no known secrets, and no code outside of the tests calls
  \<^verbatim>\<open>registerSecret\<close>; so in the program it is the same function, \<open>redact []\<close> of theory \<^verbatim>\<open>Redaction\<close>, at every moment
  and in every process. A handler reads the clock once. Authentication, workspace requests and proxied
  inference are side channels of the same socket and are not modelled; \<^verbatim>\<open>inference.abortAll\<close>, which the
  stops call, touches no state modelled here.
\<close>

record daemon_env = number_syntax +
  dx_redact :: "string \<Rightarrow> string"

datatype pending_work =
    PW_v2 command_envelope dispatch_command
  | PW_visual command_envelope visual_evidence_request
  | PW_control command_envelope control_kind ident control_result

fun pending_command :: "pending_work \<Rightarrow> command_envelope" where
  "pending_command (PW_v2 c d) = c"
| "pending_command (PW_visual c v) = c"
| "pending_command (PW_control c k r res) = c"

record daemon = state_file +
  dm_executeV2 :: bool
  dm_collectVisualEvidence :: bool
  dm_onRunSettled :: bool
  dm_deviceExecution :: bool
  dm_launchCommands :: "ident list"
  dm_inFlightCommands :: "ident list"
  dm_settledReported :: bool
  dm_connected :: bool
  dm_heartbeat :: bool
  dm_stopped :: bool
  dm_fenced :: bool
  dm_executionPaused :: bool
  dm_highestEventSeqSent :: int
  dm_serverAckSeq :: int
  dm_knowledgeTransportEnabled :: bool
  dm_fixture :: fixture_runs
  dm_live :: live_registry
  dm_pending :: "pending_work list"

definition RUNNER_EVENT_SEND_WINDOW :: int where
  "RUNNER_EVENT_SEND_WINDOW = 32"

record daemon_options =
  do_executeV2 :: bool
  do_collectVisualEvidence :: bool
  do_onRunSettled :: bool
  do_deviceExecution :: bool

text \<open>A new process over an opened state file.\<close>

definition new_daemon :: "daemon_options \<Rightarrow> state_file \<Rightarrow> daemon" where
  "new_daemon opts f = state_file.extend f (daemon.fields
     (do_executeV2 opts) (do_collectVisualEvidence opts) (do_onRunSettled opts) (do_deviceExecution opts)
     [] [] False False False False False False 0 0 False [] empty_registry [])"

subsection \<open>Sending\<close>

fun send_events :: "event_envelope list \<Rightarrow> daemon \<Rightarrow> daemon" where
  "send_events [] d = d"
| "send_events (e # es) d =
     (if \<not> dm_connected d then d
      else send_events es ((observe (O_send_event e) d)\<lparr>dm_highestEventSeqSent := ev_event_seq e\<rparr>))"

definition sendBufferedEvents :: "daemon \<Rightarrow> daemon" where
  "sendBufferedEvents d =
     (if \<not> dm_connected d \<or> dm_fenced d then d
      else
        (let inFlight = max 0 (dm_highestEventSeqSent d - dm_serverAckSeq d);
             avail = max 0 (RUNNER_EVENT_SEND_WINDOW - inFlight)
         in if avail = 0 then d
            else send_events
              (take (nat avail) (filter (\<lambda>e. dm_highestEventSeqSent d < ev_event_seq e)
                 (unackedSince (dm_serverAckSeq d) (sf_state d)))) d))"

definition correlation_of :: "run_meta \<Rightarrow> daemon \<Rightarrow> ident" where
  "correlation_of meta d =
     (case mt_correlation meta of Some c \<Rightarrow> c | None \<Rightarrow> ''runner:'' @ rn_runner_id (sf_state d))"

fun safe_payload :: "daemon_env \<Rightarrow> event_payload \<Rightarrow> event_payload" where
  "safe_payload env (EP_run_log r chunk) = EP_run_log r (dx_redact env chunk)"
| "safe_payload env p = p"

definition emitted_event :: "daemon_env \<Rightarrow> millis \<Rightarrow> event_payload \<Rightarrow> run_meta \<Rightarrow> daemon \<Rightarrow> event_envelope" where
  "emitted_event env now p meta d =
     \<lparr>ev_event_seq = rn_seq (sf_state d) + 1, ev_runner_id = rn_runner_id (sf_state d),
      ev_generation = rn_generation (sf_state d), ev_correlation_id = correlation_of meta d,
      ev_causation_id = mt_causation meta, ev_occurred_at = now, ev_payload = safe_payload env p\<rparr>"

definition emit :: "daemon_env \<Rightarrow> millis \<Rightarrow> event_payload \<Rightarrow> run_meta \<Rightarrow> daemon \<Rightarrow> daemon" where
  "emit env now p meta d =
     (if dm_fenced d then d
      else sendBufferedEvents (bufferEvent (emitted_event env now p meta d) (nextSeq d)))"

definition emit_all :: "daemon_env \<Rightarrow> millis \<Rightarrow> emission list \<Rightarrow> daemon \<Rightarrow> daemon" where
  "emit_all env now es d = fold (\<lambda>(p, meta). emit env now p meta) es d"

subsection \<open>Acknowledging\<close>

definition reportRunSettled :: "ident \<Rightarrow> command_state \<Rightarrow> daemon \<Rightarrow> daemon" where
  "reportRunSettled commandId ackState d =
     (if dm_onRunSettled d \<and> \<not> dm_settledReported d \<and> commandId \<in> set (dm_launchCommands d)
         \<and> terminal_command ackState
      then observe (O_settled commandId ackState) (d\<lparr>dm_settledReported := True\<rparr>)
      else d)"

definition ack_input :: "millis \<Rightarrow> ident \<Rightarrow> command_state \<Rightarrow> run_meta \<Rightarrow> string \<Rightarrow> daemon \<Rightarrow> terminal_ack_input" where
  "ack_input now commandId ackState meta detail d =
     \<lparr>ta_command_id = commandId, ta_state = ackState, ta_runner_id = rn_runner_id (sf_state d),
      ta_generation = rn_generation (sf_state d), ta_correlation_id = correlation_of meta d,
      ta_causation_id = mt_causation meta, ta_occurred_at = now, ta_detail = detail\<rparr>"

text \<open>An error of \<^verbatim>\<open>ensureTerminalAck\<close> would leave the daemon as it is; the callers never cause one.\<close>

definition terminalAck :: "millis \<Rightarrow> ident \<Rightarrow> command_state \<Rightarrow> run_meta \<Rightarrow> string \<Rightarrow> daemon \<Rightarrow> daemon" where
  "terminalAck now commandId ackState meta detail d =
     (if dm_fenced d then d
      else
        (case ensureTerminalAck (ack_input now commandId ackState meta detail d) d of
           (Inl err, d') \<Rightarrow> d'
         | (Inr (ev, created), d') \<Rightarrow>
             reportRunSettled commandId ackState (if created then sendBufferedEvents d' else d')))"

definition ack :: "daemon_env \<Rightarrow> millis \<Rightarrow> ident \<Rightarrow> command_state \<Rightarrow> run_meta \<Rightarrow> string \<Rightarrow> daemon \<Rightarrow> daemon" where
  "ack env now commandId ackState meta detail d =
     (if terminal_command ackState then terminalAck now commandId ackState meta detail d
      else reportRunSettled commandId ackState (emit env now (EP_command_ack commandId ackState detail) meta d))"

text \<open>The pair of steps that ends every command: the durable outcome, then its acknowledgement.\<close>

definition conclude :: "daemon_env \<Rightarrow> millis \<Rightarrow> ident \<Rightarrow> command_state \<Rightarrow> run_meta \<Rightarrow> string \<Rightarrow> daemon \<Rightarrow> daemon" where
  "conclude env now commandId st meta detail d =
     ack env now commandId st meta detail (recordExecution commandId st d)"

subsection \<open>Stopping\<close>

definition observe_live :: "live_effect list \<Rightarrow> daemon \<Rightarrow> daemon" where
  "observe_live effects d = fold (\<lambda>e. observe (O_live e)) effects d"

definition stopHeartbeat :: "daemon \<Rightarrow> daemon" where
  "stopHeartbeat d = d\<lparr>dm_heartbeat := False\<rparr>"

definition startHeartbeat :: "daemon \<Rightarrow> daemon" where
  "startHeartbeat d = (stopHeartbeat d)\<lparr>dm_heartbeat := True\<rparr>"

definition cancel_fixtures :: "daemon_env \<Rightarrow> millis \<Rightarrow> daemon \<Rightarrow> daemon" where
  "cancel_fixtures env now d =
     (let (es, runs) = fixture_cancelAll (dm_fixture d) in emit_all env now es (d\<lparr>dm_fixture := runs\<rparr>))"

definition fenceInstallation :: "daemon_env \<Rightarrow> millis \<Rightarrow> string \<Rightarrow> daemon \<Rightarrow> daemon" where
  "fenceInstallation env now reason d =
     (if dm_fenced d then d
      else
        (let d1 = cancel_fixtures env now (d\<lparr>dm_fenced := True, dm_executionPaused := True\<rparr>);
             d2 = observe_live (live_cancelAll reason (dm_live d1)) d1
         in (stopHeartbeat d2)\<lparr>dm_connected := False\<rparr>))"

text \<open>\<^verbatim>\<open>emergencyStop\<close> up to its await, \<^verbatim>\<open>stop\<close>, and \<^verbatim>\<open>start\<close>, which refuses a fenced credential.\<close>

definition emergencyStop :: "daemon_env \<Rightarrow> millis \<Rightarrow> daemon \<Rightarrow> daemon" where
  "emergencyStop env now d =
     (let d1 = cancel_fixtures env now (d\<lparr>dm_executionPaused := True\<rparr>)
      in observe_live (live_cancelAll ''local emergency stop'' (dm_live d1)) d1)"

definition daemon_stop :: "daemon_env \<Rightarrow> millis \<Rightarrow> daemon \<Rightarrow> daemon" where
  "daemon_stop env now d =
     (let d1 = cancel_fixtures env now (stopHeartbeat (d\<lparr>dm_stopped := True, dm_executionPaused := True\<rparr>));
          d2 = observe_live (live_cancelAll ''runner stopped'' (dm_live d1)) d1
      in d2\<lparr>dm_connected := False\<rparr>)"

definition daemon_start :: "daemon \<Rightarrow> (runner_error + unit) \<times> daemon" where
  "daemon_start d =
     (if dm_fenced d then (Inl CredentialFenced, d)
      else (Inr (), d\<lparr>dm_stopped := False, dm_executionPaused := False\<rparr>))"

subsection \<open>Connection\<close>

definition executionCapabilities :: "daemon \<Rightarrow> runner_capability list" where
  "executionCapabilities d =
     [RC_workspace_picker, RC_workspace_repository_inventory, RC_workspace_clone,
      RC_workspace_clone_destination, RC_workspace_delete, RC_repository_graphify]
     @ (if dm_deviceExecution d then [] else [RC_model_proxy]) @ [RC_knowledge_transport]"

definition reconcile_request_of :: "daemon \<Rightarrow> reconcile_request" where
  "reconcile_request_of d =
     \<lparr>rq_runner_id = rn_runner_id (sf_state d), rq_generation = rn_generation (sf_state d),
      rq_capabilities = executionCapabilities d, rq_last_event_seq_sent = rn_seq (sf_state d),
      rq_recently_executed_command_ids = executedIds (sf_state d)\<rparr>"

definition sendReconcileRequest :: "daemon \<Rightarrow> daemon" where
  "sendReconcileRequest d =
     (if dm_connected d then observe (O_send_reconcile (reconcile_request_of d)) d else d)"

text \<open>
  The legacy socket opens: from now on \<^verbatim>\<open>connected\<close> holds, also before the server has accepted the
  authentication. The device channel is connected only when it is authenticated.
\<close>

definition runner_socket_opens :: "daemon \<Rightarrow> daemon" where
  "runner_socket_opens d =
     (if dm_stopped d \<or> dm_fenced d \<or> dm_deviceExecution d then d else d\<lparr>dm_connected := True\<rparr>)"

text \<open>
  The server has accepted the authentication, on an open socket. On the device channel
  \<^verbatim>\<open>authenticateDeviceExecution\<close> also forgets what the previous connection had acknowledged.
\<close>

definition authenticated :: "daemon \<Rightarrow> daemon" where
  "authenticated d =
     (if dm_stopped d \<or> dm_fenced d then d
      else if dm_deviceExecution d
      then sendReconcileRequest (d\<lparr>dm_connected := True, dm_serverAckSeq := 0, dm_highestEventSeqSent := 0\<rparr>)
      else sendReconcileRequest (d\<lparr>dm_connected := True\<rparr>))"

definition disconnected :: "daemon \<Rightarrow> daemon" where
  "disconnected d =
     (stopHeartbeat d)\<lparr>dm_connected := False, dm_highestEventSeqSent := dm_serverAckSeq d\<rparr>"

definition handleEventAcknowledgement :: "int \<Rightarrow> daemon \<Rightarrow> daemon" where
  "handleEventAcknowledgement eventSequence d =
     (let a = max (dm_serverAckSeq d) eventSequence;
          d1 = pruneAcked a (d\<lparr>dm_serverAckSeq := a\<rparr>)
      in sendBufferedEvents (d1\<lparr>dm_highestEventSeqSent := max (dm_highestEventSeqSent d1) a\<rparr>))"

subsection \<open>Executing commands\<close>

definition meta_of :: "command_envelope \<Rightarrow> run_meta" where
  "meta_of c = \<lparr>mt_correlation = Some (ce_correlation_id c), mt_causation = Some (ce_command_id c)\<rparr>"

definition caused_by :: "ident \<Rightarrow> run_meta" where
  "caused_by c = \<lparr>mt_correlation = None, mt_causation = Some c\<rparr>"

definition RECOVERED :: string where
  "RECOVERED = ''recovered terminal acknowledgement from durable execution state''"

fun is_launch :: "command_payload \<Rightarrow> bool" where
  "is_launch (CP_launch_run n r p d) \<longleftrightarrow> True"
| "is_launch (CP_collect_visual_evidence v) \<longleftrightarrow> True"
| "is_launch _ \<longleftrightarrow> False"

fun is_work :: "command_payload \<Rightarrow> bool" where
  "is_work (CP_launch_fixture f) \<longleftrightarrow> True"
| "is_work (CP_launch_run n r p d) \<longleftrightarrow> True"
| "is_work (CP_collect_visual_evidence v) \<longleftrightarrow> True"
| "is_work (CP_run_verification n c) \<longleftrightarrow> True"
| "is_work _ \<longleftrightarrow> False"

definition executing :: "daemon_env \<Rightarrow> millis \<Rightarrow> command_envelope \<Rightarrow> daemon \<Rightarrow> daemon" where
  "executing env now c d = ack env now (ce_command_id c) C_executing (meta_of c) [] d"

definition await :: "pending_work \<Rightarrow> daemon \<Rightarrow> daemon" where
  "await w d = d\<lparr>dm_pending := dm_pending d @ [w]\<rparr>"

text \<open>\<^verbatim>\<open>routeControl\<close> up to its await: the registry decides, and may already have called into the run.\<close>

definition route_begin :: "command_envelope \<Rightarrow> control_kind \<Rightarrow> ident \<Rightarrow> string \<Rightarrow> daemon \<Rightarrow> daemon" where
  "route_begin c kind runId message d =
     (let (effects, res) = live_control runId kind message (dm_live d)
      in await (PW_control c kind runId res) (observe_live effects d))"

text \<open>The \<^verbatim>\<open>switch\<close> of \<^verbatim>\<open>handleCommand\<close>, once the command is recorded as executing and accepted.\<close>

fun perform :: "daemon_env \<Rightarrow> millis \<Rightarrow> command_envelope \<Rightarrow> command_payload \<Rightarrow> daemon \<Rightarrow> daemon" where
  "perform env now c (CP_launch_fixture fixture) d =
     (let d1 = observe (O_start_fixture (ce_command_id c) fixture) (executing env now c d);
          (es, runs) = fixture_launch (number_syntax.truncate env) (''run_'' @ ce_command_id c) fixture (meta_of c) (dm_fixture d1)
      in conclude env now (ce_command_id c) C_succeeded (meta_of c) []
           (emit_all env now es (d1\<lparr>dm_fixture := runs\<rparr>)))"
| "perform env now c (CP_launch_run node run prompt dispatch) d =
     (case dispatch of
        Some dc \<Rightarrow>
          if dm_executeV2 d
          then (let d1 = executing env now c d in
            await (PW_v2 c dc) (observe (O_start_v2 (ce_command_id c) dc (dm_knowledgeTransportEnabled d1)) d1))
          else conclude env now (ce_command_id c) C_rejected (meta_of c) ''this runner cannot execute a V2 dispatch'' d
      | None \<Rightarrow> conclude env now (ce_command_id c) C_rejected (meta_of c) ''this runner cannot execute a V2 dispatch'' d)"
| "perform env now c (CP_collect_visual_evidence v) d =
     (if dm_collectVisualEvidence d
      then await (PW_visual c v) (observe (O_start_visual (ce_command_id c) v) (executing env now c d))
      else conclude env now (ce_command_id c) C_rejected (meta_of c) ''this runner cannot collect visual evidence'' d)"
| "perform env now c (CP_interrupt r) d = route_begin c CK_interrupt r [] d"
| "perform env now c (CP_resume_session r) d = route_begin c CK_resume_session r [] d"
| "perform env now c (CP_suspend r) d = route_begin c CK_suspend r [] d"
| "perform env now c (CP_stop_after_current r) d = route_begin c CK_stop_after_current r [] d"
| "perform env now c (CP_cancel r) d = route_begin c CK_cancel r [] d"
| "perform env now c (CP_send_message r m) d = route_begin c CK_send_message r m d"
| "perform env now c (CP_run_verification n sha) d =
     conclude env now (ce_command_id c) C_rejected (meta_of c) ''run_verification is not implemented here'' d"

definition add_once :: "'a \<Rightarrow> 'a list \<Rightarrow> 'a list" where
  "add_once x xs = (if x \<in> set xs then xs else xs @ [x])"

definition register_launch :: "command_envelope \<Rightarrow> daemon \<Rightarrow> daemon" where
  "register_launch c d =
     (if is_launch (ce_payload c) then d\<lparr>dm_launchCommands := add_once (ce_command_id c) (dm_launchCommands d)\<rparr> else d)"

text \<open>A new command is recorded as executing and in flight before it is accepted.\<close>

definition admit :: "daemon_env \<Rightarrow> millis \<Rightarrow> command_envelope \<Rightarrow> daemon \<Rightarrow> daemon" where
  "admit env now c d =
     (let d1 = recordExecution (ce_command_id c) C_executing d
      in ack env now (ce_command_id c) C_accepted (meta_of c) []
           (d1\<lparr>dm_inFlightCommands := add_once (ce_command_id c) (dm_inFlightCommands d1)\<rparr>))"

definition handleCommand :: "daemon_env \<Rightarrow> millis \<Rightarrow> command_envelope \<Rightarrow> daemon \<Rightarrow> daemon" where
  "handleCommand env now c d =
     (if ce_runner_id c \<noteq> rn_runner_id (sf_state d) \<or> ce_generation c \<noteq> rn_generation (sf_state d)
      then fenceInstallation env now ''runner generation fenced'' d
      else
        (let k = ce_command_id c; meta = meta_of c; d1 = register_launch c d in
         case executionState k (sf_state d1) of
           Some recorded \<Rightarrow>
             if terminal_command recorded then terminalAck now k recorded meta RECOVERED d1
             else ack env now k recorded meta [] d1
         | None \<Rightarrow>
             if isCommandExpired c now then conclude env now k C_expired meta [] d1
             else if dm_executionPaused d1 \<and> is_work (ce_payload c)
             then conclude env now k C_rejected meta
               ''local emergency stop is engaged; restart the daemon before dispatching work'' d1
             else perform env now c (ce_payload c) (admit env now c d1)))"

definition handleReconcileResponse :: "daemon_env \<Rightarrow> millis \<Rightarrow> reconcile_response \<Rightarrow> daemon \<Rightarrow> daemon" where
  "handleReconcileResponse env now resp d =
     (if rp_generation resp \<noteq> rn_generation (sf_state d)
      then fenceInstallation env now ''runner reconciliation identity changed'' d
      else
        (let d1 = pruneAcked (rp_ack_event_seq resp)
                    (d\<lparr>dm_serverAckSeq := rp_ack_event_seq resp,
                       dm_knowledgeTransportEnabled :=
                         (case rp_capabilities resp of None \<Rightarrow> False | Some cs \<Rightarrow> RC_knowledge_transport \<in> set cs)\<rparr>);
             d2 = sendBufferedEvents (d1\<lparr>dm_highestEventSeqSent := rp_ack_event_seq resp\<rparr>);
             d3 = fold (\<lambda>(k, st). terminalAck now k st (caused_by k) RECOVERED) (terminalExecutions (sf_state d2)) d2;
             d4 = fold (\<lambda>k x. terminalAck now k C_failed (caused_by k)
                          ''runner restarted; the execution process was lost before it reported a result''
                          (recordExecution k C_failed x))
                    (orphanedExecutingIds (dm_inFlightCommands d3) (sf_state d3)) d3;
             d5 = fold (handleCommand env now) (rp_resend_commands resp) d4
         in startHeartbeat d5))"

subsection \<open>What follows an await\<close>

definition settled :: "pending_work \<Rightarrow> daemon \<Rightarrow> daemon" where
  "settled w d = d\<lparr>dm_pending := remove1 w (dm_pending d)\<rparr>"

definition landed :: "ident \<Rightarrow> daemon \<Rightarrow> daemon" where
  "landed k d = d\<lparr>dm_inFlightCommands := filter (\<lambda>x. x \<noteq> k) (dm_inFlightCommands d)\<rparr>"

datatype v2_outcome = VO_succeeded | VO_waiting_for_human | VO_failed | VO_cancelled

fun v2_outcome_state :: "v2_outcome \<Rightarrow> command_state" where
  "v2_outcome_state VO_succeeded = C_succeeded"
| "v2_outcome_state VO_waiting_for_human = C_waiting_for_human"
| "v2_outcome_state VO_failed = C_failed"
| "v2_outcome_state VO_cancelled = C_cancelled"

text \<open>An event of a running V2 execution, and its end: the outcome or the error that was thrown.\<close>

definition v2_emits :: "daemon_env \<Rightarrow> millis \<Rightarrow> event_payload \<Rightarrow> command_envelope \<Rightarrow> daemon \<Rightarrow> daemon" where
  "v2_emits env now p c d = emit env now p (meta_of c) d"

definition finish_v2 ::
    "daemon_env \<Rightarrow> millis \<Rightarrow> command_envelope \<Rightarrow> dispatch_command \<Rightarrow> string + v2_outcome \<Rightarrow> daemon \<Rightarrow> daemon" where
  "finish_v2 env now c dc res d =
     (let k = ce_command_id c; d1 = landed k (settled (PW_v2 c dc) d) in
      case res of
        Inr outcome \<Rightarrow> conclude env now k (v2_outcome_state outcome) (meta_of c) [] d1
      | Inl err \<Rightarrow> conclude env now k C_failed (meta_of c) []
          (emit env now (EP_run_log (dc_run_id dc) (''runner execution failed: '' @ err)) (meta_of c) d1))"

definition finish_visual ::
    "daemon_env \<Rightarrow> millis \<Rightarrow> command_envelope \<Rightarrow> visual_evidence_request \<Rightarrow> string + unit \<Rightarrow> daemon \<Rightarrow> daemon" where
  "finish_visual env now c v res d =
     (let k = ce_command_id c; d1 = settled (PW_visual c v) d in
      case res of
        Inr _ \<Rightarrow> conclude env now k C_succeeded (meta_of c) [] d1
      | Inl err \<Rightarrow> conclude env now k C_failed (meta_of c) err d1)"

definition settle_control ::
    "daemon_env \<Rightarrow> millis \<Rightarrow> command_envelope \<Rightarrow> ident \<Rightarrow> command_state \<Rightarrow> string \<Rightarrow> bool \<Rightarrow> daemon \<Rightarrow> daemon" where
  "settle_control env now c runId ackState detail visible d =
     (let d1 = (if visible then emit env now (EP_run_log runId detail) (meta_of c) d else d);
          d2 = (if ackState \<noteq> C_rejected then executing env now c d1 else d1)
      in conclude env now (ce_command_id c) ackState (meta_of c) detail d2)"

definition on_fixture ::
    "daemon_env \<Rightarrow> millis \<Rightarrow> (fixture_runs \<Rightarrow> emission list \<times> fixture_runs) \<Rightarrow> daemon \<Rightarrow> daemon" where
  "on_fixture env now f d =
     (let (es, runs) = f (dm_fixture d) in emit_all env now es (d\<lparr>dm_fixture := runs\<rparr>))"

text \<open>A control of a run that only the fixture may know.\<close>

definition route_fixture :: "daemon_env \<Rightarrow> millis \<Rightarrow> command_envelope \<Rightarrow> control_kind \<Rightarrow> ident \<Rightarrow> daemon \<Rightarrow> daemon" where
  "route_fixture env now c kind runId d =
     (if \<not> fixture_isActive runId (dm_fixture d)
      then settle_control env now c runId C_rejected (''run '' @ runId @ '' is not running on this runner'') False d
      else
        (case kind of
           CK_send_message \<Rightarrow> settle_control env now c runId C_rejected ''the fixture executor cannot receive a message'' True d
         | CK_interrupt \<Rightarrow> settle_control env now c runId C_succeeded [] False (on_fixture env now (fixture_interrupt runId) d)
         | CK_suspend \<Rightarrow> settle_control env now c runId C_succeeded [] False (on_fixture env now (fixture_interrupt runId) d)
         | CK_resume_session \<Rightarrow> settle_control env now c runId C_succeeded [] False (on_fixture env now (fixture_resume runId) d)
         | CK_stop_after_current \<Rightarrow> settle_control env now c runId C_succeeded [] False (on_fixture env now (fixture_stopAfterCurrent runId) d)
         | CK_cancel \<Rightarrow> settle_control env now c runId C_succeeded [] False (on_fixture env now (fixture_cancel runId) d)))"

text \<open>
  The rest of \<^verbatim>\<open>routeControl\<close>. \<open>thrown\<close> is the error of the session call when the registry made one and it
  failed.
\<close>

definition route_end ::
    "daemon_env \<Rightarrow> millis \<Rightarrow> command_envelope \<Rightarrow> control_kind \<Rightarrow> ident \<Rightarrow> control_result \<Rightarrow> string option \<Rightarrow> daemon \<Rightarrow> daemon" where
  "route_end env now c kind runId res thrown d =
     (let d1 = settled (PW_control c kind runId res) d in
      case res of
        CT_unknown \<Rightarrow> route_fixture env now c kind runId d1
      | CT_decided oc \<Rightarrow> settle_control env now c runId (ct_state oc) (ct_detail oc) (\<not> ct_applied oc) d1
      | CT_awaiting oc \<Rightarrow>
          (case thrown of
             None \<Rightarrow> settle_control env now c runId (ct_state oc) (ct_detail oc) (\<not> ct_applied oc) d1
           | Some err \<Rightarrow> settle_control env now c runId C_failed
               (''the '' @ control_kind_str kind @ '' could not be applied to run '' @ runId @ '': '' @ err) True d1))"

text \<open>A firing of the heartbeat timer, and of the timer of a fixture run.\<close>

definition heartbeat :: "daemon_env \<Rightarrow> millis \<Rightarrow> daemon \<Rightarrow> daemon" where
  "heartbeat env now d =
     (if dm_heartbeat d then emit env now EP_heartbeat \<lparr>mt_correlation = None, mt_causation = None\<rparr> d else d)"

definition fixture_timer :: "daemon_env \<Rightarrow> millis \<Rightarrow> ident \<Rightarrow> daemon \<Rightarrow> daemon" where
  "fixture_timer env now runId d = on_fixture env now (fixture_fire (number_syntax.truncate env) runId) d"

end
