(* ===== verification/Daemon_Props.thy ===== *)
theory Daemon_Props
  imports Daemon Replay
begin

section \<open>What the daemon guarantees\<close>

text \<open>
  The durable guarantees of the daemon, through any sequence of handlers and through crashes at any
  point of a handler: a command is started at most once, it gets at most one terminal acknowledgement,
  which states its recorded outcome, and only events that are on disk are sent.
\<close>

subsection \<open>What the sending and acknowledging operations leave alone\<close>

text \<open>The part of the daemon that decides about commands.\<close>

definition core where
  "core d = (rn_executed (sf_state d), rn_runner_id (sf_state d), rn_generation (sf_state d),
     dm_pending d, dm_inFlightCommands d, started (sf_trace d), dm_fenced d, dm_executionPaused d)"

lemma coreD:
  assumes "core d' = core d"
  shows "rn_executed (sf_state d') = rn_executed (sf_state d)"
    "rn_runner_id (sf_state d') = rn_runner_id (sf_state d)"
    "rn_generation (sf_state d') = rn_generation (sf_state d)"
    "dm_pending d' = dm_pending d" "dm_inFlightCommands d' = dm_inFlightCommands d"
    "started (sf_trace d') = started (sf_trace d)" "dm_fenced d' = dm_fenced d"
    "dm_executionPaused d' = dm_executionPaused d"
  using assms by (simp_all add: core_def)

lemma core_observe [simp]: "started_by ob = [] \<Longrightarrow> core (observe ob d) = core d"
  by (simp add: core_def observe_def)

lemma core_persist [simp]: "core (persist ev d) = core d"
  by (simp add: persist_def)

lemma core_send_events [simp]: "core (send_events es d) = core d"
proof (induction es arbitrary: d)
  case (Cons e es)
  have "core ((observe (O_send_event e) d)\<lparr>dm_highestEventSeqSent := s\<rparr>) = core (observe (O_send_event e) d)" for s
    by (simp add: core_def)
  with Cons show ?case by simp
qed simp

lemma core_sendBufferedEvents [simp]: "core (sendBufferedEvents d) = core d"
  by (simp add: sendBufferedEvents_def Let_def)

lemma core_nextSeq [simp]: "core (nextSeq d) = core d"
  by (simp add: nextSeq_def) (simp add: core_def)

lemma core_bufferEvent [simp]: "core (bufferEvent e d) = core d"
  by (simp add: bufferEvent_def) (simp add: core_def)

lemma core_pruneAcked [simp]: "core (pruneAcked k d) = core d"
  by (simp add: pruneAcked_def Let_def) (simp add: core_def)

lemma core_emit [simp]: "core (emit env now p meta d) = core d"
  by (simp add: emit_def)

lemma core_emit_all [simp]: "core (emit_all env now es d) = core d"
  unfolding emit_all_def by (induction es arbitrary: d) (simp_all add: case_prod_beta)

lemma core_reportRunSettled [simp]: "core (reportRunSettled k st d) = core d"
proof -
  have "core (d\<lparr>dm_settledReported := b\<rparr>) = core d" for b by (simp add: core_def)
  then show ?thesis by (simp add: reportRunSettled_def)
qed

lemma core_ensureTerminalAck [simp]: "core (snd (ensureTerminalAck i d)) = core d"
proof -
  have "core (d\<lparr>sf_state := (sf_state d)\<lparr>rn_terminal_acks := a\<rparr>\<rparr>) = core d"
    "core (d\<lparr>sf_state := (sf_state d)\<lparr>rn_seq := s, rn_buffer := b, rn_terminal_acks := a\<rparr>\<rparr>) = core d" for a b s
    by (simp_all add: core_def)
  then show ?thesis by (simp add: ensureTerminalAck_def Let_def split: option.split)
qed

lemma core_terminalAck [simp]: "core (terminalAck now k st meta detail d) = core d"
proof -
  have "core d' = core d" if "ensureTerminalAck i d = (r, d')" for i r d'
    using core_ensureTerminalAck [of i d] that by simp
  then show ?thesis by (auto simp: terminalAck_def split: prod.split sum.split)
qed

lemma core_ack [simp]: "core (ack env now k st meta detail d) = core d"
  by (simp add: ack_def)

lemma core_executing [simp]: "core (executing env now c d) = core d"
  by (simp add: executing_def)

lemma core_observe_live [simp]: "core (observe_live es d) = core d"
  unfolding observe_live_def by (induction es arbitrary: d) simp_all

subsection \<open>The durable invariant\<close>

lemma file_ok_fields [simp]:
  "file_ok (d\<lparr>dm_launchCommands := a\<rparr>) = file_ok d" "file_ok (d\<lparr>dm_inFlightCommands := a\<rparr>) = file_ok d"
  "file_ok (d\<lparr>dm_settledReported := b\<rparr>) = file_ok d" "file_ok (d\<lparr>dm_connected := b\<rparr>) = file_ok d"
  "file_ok (d\<lparr>dm_heartbeat := b\<rparr>) = file_ok d" "file_ok (d\<lparr>dm_stopped := b\<rparr>) = file_ok d"
  "file_ok (d\<lparr>dm_fenced := b\<rparr>) = file_ok d" "file_ok (d\<lparr>dm_executionPaused := b\<rparr>) = file_ok d"
  "file_ok (d\<lparr>dm_highestEventSeqSent := s\<rparr>) = file_ok d" "file_ok (d\<lparr>dm_serverAckSeq := s\<rparr>) = file_ok d"
  "file_ok (d\<lparr>dm_knowledgeTransportEnabled := b\<rparr>) = file_ok d" "file_ok (d\<lparr>dm_fixture := fr\<rparr>) = file_ok d"
  "file_ok (d\<lparr>dm_live := lg\<rparr>) = file_ok d" "file_ok (d\<lparr>dm_pending := ps\<rparr>) = file_ok d"
  by (simp_all add: file_ok_def)

lemma send_events_ok:
  "file_ok d \<Longrightarrow> set es \<subseteq> set (emitted (sf_trace d)) \<Longrightarrow> file_ok (send_events es d)"
proof (induction es arbitrary: d)
  case (Cons e es)
  have "file_ok (observe (O_send_event e) d)" using Cons.prems by (intro observe_ok) auto
  with Cons show ?case by (auto simp: observe_def)
qed simp

lemma sendBufferedEvents_ok [norns_inv]:
  assumes "file_ok d"
  shows "file_ok (sendBufferedEvents d)"
proof -
  have "set (rn_buffer (sf_state d)) \<subseteq> set (emitted (sf_trace d))"
    by (rule buffer_subset [OF runner_invD(4) [OF file_okD(1) [OF assms]]])
  then have "set (take n (filter P (unackedSince k (sf_state d)))) \<subseteq> set (emitted (sf_trace d))" for n P k
    by (auto simp: unackedSince_def dest!: in_set_takeD)
  with assms show ?thesis by (simp add: sendBufferedEvents_def Let_def send_events_ok)
qed

lemma emit_ok:
  assumes "file_ok d" and "terminal_ack_of (emitted_event env now p meta d) = None"
  shows "file_ok (emit env now p meta d)"
  using assms
  by (simp add: emit_def sendBufferedEvents_ok buffer_next_event_ok emitted_event_def)

fun plain_payload :: "event_payload \<Rightarrow> bool" where
  "plain_payload (EP_command_ack c st detail) \<longleftrightarrow> \<not> terminal_command st"
| "plain_payload _ \<longleftrightarrow> True"

lemma emit_plain_ok [norns_inv]: "file_ok d \<Longrightarrow> plain_payload p \<Longrightarrow> file_ok (emit env now p meta d)"
  by (rule emit_ok) (cases p; simp add: terminal_ack_of_def emitted_event_def)+

lemma emit_all_ok [norns_inv]:
  "file_ok d \<Longrightarrow> list_all (plain_payload \<circ> fst) es \<Longrightarrow> file_ok (emit_all env now es d)"
  unfolding emit_all_def by (induction es arbitrary: d) (auto simp: emit_plain_ok)

lemma fixture_only_plain: "fixture_only es \<Longrightarrow> list_all (plain_payload \<circ> fst) es"
proof -
  have "fixture_payload p \<Longrightarrow> plain_payload p" for p by (cases p) auto
  then show "fixture_only es \<Longrightarrow> list_all (plain_payload \<circ> fst) es" by (auto simp: list_all_iff)
qed

lemma reportRunSettled_ok [norns_inv]: "file_ok d \<Longrightarrow> file_ok (reportRunSettled k st d)"
  by (auto simp: reportRunSettled_def intro!: observe_plain_ok)

lemma terminalAck_ok [norns_inv]:
  assumes d: "file_ok d" and t: "terminal_command st" and k: "jget (rn_executed (sf_state d)) k = Some st"
  shows "file_ok (terminalAck now k st meta detail d)"
proof -
  let ?i = "ack_input now k st meta detail d"
  have ok: "file_ok (snd (ensureTerminalAck ?i d))"
    using d t k by (intro ensureTerminalAck_ok) (simp_all add: ack_input_def)
  obtain r d' where e: "ensureTerminalAck ?i d = (r, d')" by (cases "ensureTerminalAck ?i d")
  with ok have "file_ok d'" by simp
  then have "file_ok (reportRunSettled k st (if b then sendBufferedEvents d' else d'))" for b
    by (auto intro: norns_inv)
  with d e \<open>file_ok d'\<close> show ?thesis by (auto simp: terminalAck_def split: sum.split)
qed

lemma ack_ok [norns_inv]:
  "file_ok d \<Longrightarrow> (terminal_command st \<Longrightarrow> jget (rn_executed (sf_state d)) k = Some st) \<Longrightarrow>
     file_ok (ack env now k st meta detail d)"
  by (auto simp: ack_def intro!: terminalAck_ok reportRunSettled_ok emit_plain_ok)

lemma executing_ok [norns_inv]: "file_ok d \<Longrightarrow> file_ok (executing env now c d)"
  unfolding executing_def by (rule ack_ok) (simp_all add: TERMINAL_COMMAND_STATES_def)

lemma observe_live_ok [norns_inv]: "file_ok d \<Longrightarrow> file_ok (observe_live es d)"
  unfolding observe_live_def by (induction es arbitrary: d) (simp_all add: observe_plain_ok)

text \<open>A command without a recorded terminal outcome has no tombstone, and its outcome can be recorded.\<close>

definition open_command :: "ident \<Rightarrow> daemon \<Rightarrow> bool" where
  "open_command k d \<longleftrightarrow> (\<forall>st. jget (rn_executed (sf_state d)) k = Some st \<longrightarrow> \<not> terminal_command st)"

lemma record_open_ok: "file_ok d \<Longrightarrow> open_command k d \<Longrightarrow> file_ok (recordExecution k st d)"
  using tombstone_recorded [OF file_okD(1)] recordExecution_ok unfolding open_command_def
  by (metis not_None_eq)

lemma executed_recordExecution [simp]:
  "rn_executed (sf_state (recordExecution k st d)) = jset k st (rn_executed (sf_state d))"
  "emitted (sf_trace (recordExecution k st d)) = emitted (sf_trace d)"
  by (simp_all add: recordExecution_def persist_def observe_def)

lemma conclude_ok [norns_inv]:
  "file_ok d \<Longrightarrow> open_command k d \<Longrightarrow> file_ok (conclude env now k st meta detail d)"
  unfolding conclude_def by (intro ack_ok record_open_ok) simp_all

subsection \<open>Promises and the commands they stand for\<close>

abbreviation pending_ids :: "daemon \<Rightarrow> ident list" where
  "pending_ids d \<equiv> map (ce_command_id \<circ> pending_command) (dm_pending d)"

text \<open>An unsettled promise belongs to one command, which is recorded as executing and is in flight.\<close>

definition pending_ok :: "daemon \<Rightarrow> bool" where
  "pending_ok d \<longleftrightarrow> distinct (pending_ids d)
     \<and> (\<forall>k \<in> set (pending_ids d). jget (rn_executed (sf_state d)) k = Some C_executing
          \<and> k \<in> set (dm_inFlightCommands d))"

definition daemon_ok :: "daemon \<Rightarrow> bool" where
  "daemon_ok d \<longleftrightarrow> file_ok d \<and> pending_ok d"

text \<open>A command that is being executed and has no promise yet.\<close>

definition working :: "ident \<Rightarrow> daemon \<Rightarrow> bool" where
  "working k d \<longleftrightarrow> jget (rn_executed (sf_state d)) k = Some C_executing
     \<and> k \<in> set (dm_inFlightCommands d) \<and> k \<notin> set (pending_ids d)"

lemma core_cong:
  assumes "core d' = core d"
  shows "pending_ok d' = pending_ok d" "working k d' = working k d" "open_command k d' = open_command k d"
  using coreD [OF assms] by (simp_all add: pending_ok_def working_def open_command_def)

lemma pending_ok_fields [simp]:
  "pending_ok (d\<lparr>dm_launchCommands := a\<rparr>) = pending_ok d" "pending_ok (d\<lparr>dm_settledReported := b\<rparr>) = pending_ok d"
  "pending_ok (d\<lparr>dm_connected := b\<rparr>) = pending_ok d" "pending_ok (d\<lparr>dm_heartbeat := b\<rparr>) = pending_ok d"
  "pending_ok (d\<lparr>dm_stopped := b\<rparr>) = pending_ok d" "pending_ok (d\<lparr>dm_fenced := b\<rparr>) = pending_ok d"
  "pending_ok (d\<lparr>dm_executionPaused := b\<rparr>) = pending_ok d"
  "pending_ok (d\<lparr>dm_highestEventSeqSent := s\<rparr>) = pending_ok d" "pending_ok (d\<lparr>dm_serverAckSeq := s\<rparr>) = pending_ok d"
  "pending_ok (d\<lparr>dm_knowledgeTransportEnabled := b\<rparr>) = pending_ok d" "pending_ok (d\<lparr>dm_fixture := fr\<rparr>) = pending_ok d"
  "pending_ok (d\<lparr>dm_live := lg\<rparr>) = pending_ok d"
  by (simp_all add: pending_ok_def)

lemma working_fixture [simp]:
  "working k (d\<lparr>dm_fixture := fr\<rparr>) = working k d" "open_command k (d\<lparr>dm_fixture := fr\<rparr>) = open_command k d"
  by (simp_all add: working_def open_command_def)

lemma working_open: "working k d \<Longrightarrow> open_command k d"
  by (simp add: working_def open_command_def TERMINAL_COMMAND_STATES_def)

lemmas ack_core = core_cong [OF core_ack] and emit_core = core_cong [OF core_emit]
  and emit_all_core = core_cong [OF core_emit_all] and executing_core = core_cong [OF core_executing]
  and send_core = core_cong [OF core_sendBufferedEvents] and live_core = core_cong [OF core_observe_live]
  and terminal_core = core_cong [OF core_terminalAck] and prune_core = core_cong [OF core_pruneAcked]

lemmas handler_core [simp] = ack_core emit_core emit_all_core executing_core send_core live_core
  terminal_core prune_core

lemma recordExecution_pending [simp]:
  "dm_pending (recordExecution k st d) = dm_pending d"
  "dm_inFlightCommands (recordExecution k st d) = dm_inFlightCommands d"
  by (simp_all add: recordExecution_def persist_def observe_def)

lemma pending_ok_record: "pending_ok d \<Longrightarrow> k \<notin> set (pending_ids d) \<Longrightarrow> pending_ok (recordExecution k st d)"
  by (auto simp: pending_ok_def)

lemma conclude_daemon_ok [norns_inv]:
  "daemon_ok d \<Longrightarrow> open_command k d \<Longrightarrow> k \<notin> set (pending_ids d) \<Longrightarrow> daemon_ok (conclude env now k st meta detail d)"
  by (simp add: daemon_ok_def conclude_ok) (simp add: conclude_def pending_ok_record)

lemma await_ok:
  "daemon_ok d \<Longrightarrow> working (ce_command_id (pending_command w)) d \<Longrightarrow> daemon_ok (await w d)"
  by (auto simp: daemon_ok_def await_def pending_ok_def working_def)

lemma start_ok:
  assumes "daemon_ok d" "started_by ob = [k]" "working k d" "k \<notin> set (started (sf_trace d))" "write_of ob = None"
    "sent_by ob = []"
  shows "daemon_ok (observe ob d)" "working k' (observe ob d) = working k' d"
proof -
  have "pending_ok (observe ob d) = pending_ok d" by (simp add: pending_ok_def observe_def)
  moreover have "file_ok (observe ob d)"
    using assms by (intro observe_ok) (auto simp: daemon_ok_def working_def)
  ultimately show "daemon_ok (observe ob d)" using assms by (simp add: daemon_ok_def)
  show "working k' (observe ob d) = working k' d" by (simp add: working_def observe_def)
qed

subsection \<open>Every handler keeps the invariant\<close>

lemma daemon_okD: "daemon_ok d \<Longrightarrow> file_ok d" "daemon_ok d \<Longrightarrow> pending_ok d"
  by (simp_all add: daemon_ok_def)

lemma emit_all_daemon_ok [norns_inv]: "daemon_ok d \<Longrightarrow> fixture_only es \<Longrightarrow> daemon_ok (emit_all env now es d)"
  by (simp add: daemon_ok_def emit_all_ok fixture_only_plain)

lemma daemon_ok_fixture [simp]: "daemon_ok (d\<lparr>dm_fixture := fr\<rparr>) = daemon_ok d"
  by (simp add: daemon_ok_def)

lemma executing_daemon_ok [norns_inv]: "daemon_ok d \<Longrightarrow> daemon_ok (executing env now c d)"
  by (simp add: daemon_ok_def executing_ok)

lemma route_begin_ok:
  assumes "daemon_ok d" "working (ce_command_id c) d"
  shows "daemon_ok (route_begin c kind r m d)"
proof -
  obtain effects res where e: "live_control r kind m (dm_live d) = (effects, res)" by fastforce
  have "daemon_ok (observe_live effects d)" using assms(1) by (simp add: daemon_ok_def observe_live_ok)
  then show ?thesis using assms(2) by (simp add: route_begin_def e await_ok)
qed

lemma reject_ok: "daemon_ok d \<Longrightarrow> working k d \<Longrightarrow> daemon_ok (conclude env now k st meta detail d)"
  by (rule conclude_daemon_ok) (auto simp: working_open working_def)

lemma perform_fixture_ok:
  assumes d: "daemon_ok d" and w: "working (ce_command_id c) d"
    and ns: "ce_command_id c \<notin> set (started (sf_trace d))"
  shows "daemon_ok (perform env now c (CP_launch_fixture fixture) d)"
proof -
  let ?k = "ce_command_id c"
  define d1 where "d1 = observe (O_start_fixture ?k fixture) (executing env now c d)"
  have "daemon_ok (executing env now c d)" using d by (rule executing_daemon_ok)
  moreover have "?k \<notin> set (started (sf_trace (executing env now c d)))" using ns by (simp add: coreD(6) [OF core_executing])
  ultimately have d1: "daemon_ok d1" "working ?k d1" using w unfolding d1_def
    by (simp_all add: start_ok [where k = ?k])
  obtain es runs where
    l: "fixture_launch (number_syntax.truncate env) (''run_'' @ ?k) fixture (meta_of c) (dm_fixture d1) = (es, runs)"
    by fastforce
  then have "fixture_only es" by (metis fixture_only_ops(1) fst_conv)
  then have "daemon_ok (conclude env now ?k C_succeeded (meta_of c) [] (emit_all env now es (d1\<lparr>dm_fixture := runs\<rparr>)))"
    using d1 by (intro reject_ok emit_all_daemon_ok) simp_all
  with l show ?thesis by (simp add: Let_def flip: d1_def)
qed

lemma perform_ok:
  assumes d: "daemon_ok d" and w: "working (ce_command_id c) d"
    and ns: "ce_command_id c \<notin> set (started (sf_trace d))"
  shows "daemon_ok (perform env now c p d)"
proof -
  let ?x = "executing env now c d"
  have x: "daemon_ok ?x" "working (ce_command_id c) ?x" "ce_command_id c \<notin> set (started (sf_trace ?x))"
    using d w ns by (simp_all add: executing_daemon_ok coreD(6) [OF core_executing])
  note started = start_ok [OF x(1) _ x(2) x(3)]
  show ?thesis
  proof (cases p)
    case (CP_launch_fixture f)
    with perform_fixture_ok [OF assms] show ?thesis by simp
  next
    case (CP_launch_run n r pr dispatch)
    then show ?thesis
      using reject_ok [OF d w] x started by (auto simp: Let_def split: option.split intro!: await_ok)
  next
    case (CP_collect_visual_evidence v)
    then show ?thesis using reject_ok [OF d w] x started by (auto intro!: await_ok)
  qed (simp_all add: route_begin_ok [OF d w] reject_ok [OF d w])
qed

lemma cancel_fixtures_ok [norns_inv]: "daemon_ok d \<Longrightarrow> daemon_ok (cancel_fixtures env now d)"
proof -
  assume d: "daemon_ok d"
  obtain es runs where r: "fixture_cancelAll (dm_fixture d) = (es, runs)" by fastforce
  then have "fixture_only es" by (metis fixture_only_cancelAll fst_conv)
  with d r show ?thesis by (simp add: cancel_fixtures_def emit_all_daemon_ok)
qed

lemma observe_live_daemon_ok [norns_inv]: "daemon_ok d \<Longrightarrow> daemon_ok (observe_live es d)"
  by (simp add: daemon_ok_def observe_live_ok)

lemma daemon_ok_fields [simp]:
  "daemon_ok (d\<lparr>dm_connected := b\<rparr>) = daemon_ok d" "daemon_ok (d\<lparr>dm_stopped := b\<rparr>) = daemon_ok d"
  "daemon_ok (d\<lparr>dm_fenced := b\<rparr>) = daemon_ok d" "daemon_ok (d\<lparr>dm_executionPaused := b\<rparr>) = daemon_ok d"
  "daemon_ok (d\<lparr>dm_launchCommands := ks\<rparr>) = daemon_ok d" "daemon_ok (d\<lparr>dm_serverAckSeq := s\<rparr>) = daemon_ok d"
  "daemon_ok (d\<lparr>dm_highestEventSeqSent := s\<rparr>) = daemon_ok d" "daemon_ok (d\<lparr>dm_heartbeat := b\<rparr>) = daemon_ok d"
  "daemon_ok (d\<lparr>dm_knowledgeTransportEnabled := b\<rparr>) = daemon_ok d" "daemon_ok (d\<lparr>dm_live := lg\<rparr>) = daemon_ok d"
  by (simp_all add: daemon_ok_def)

lemma daemon_ok_heartbeat [simp]:
  "daemon_ok (stopHeartbeat d) = daemon_ok d" "daemon_ok (startHeartbeat d) = daemon_ok d"
  by (simp_all add: stopHeartbeat_def startHeartbeat_def)

lemma fence_ok [norns_inv]: "daemon_ok d \<Longrightarrow> daemon_ok (fenceInstallation env now reason d)"
  by (simp add: fenceInstallation_def Let_def norns_inv)

lemma stops_ok [norns_inv]:
  "daemon_ok d \<Longrightarrow> daemon_ok (emergencyStop env now d)" "daemon_ok d \<Longrightarrow> daemon_ok (daemon_stop env now d)"
  "daemon_ok d \<Longrightarrow> daemon_ok (snd (daemon_start d))"
  by (simp_all add: emergencyStop_def daemon_stop_def daemon_start_def Let_def norns_inv)

lemma unrecorded:
  assumes "daemon_ok d" "jget (rn_executed (sf_state d)) k = None"
  shows "open_command k d" "k \<notin> set (pending_ids d)" "k \<notin> set (started (sf_trace d))"
  using assms file_okD(4) [of d k] by (auto simp: daemon_ok_def open_command_def pending_ok_def)

lemma register_launch_simps [simp]:
  "daemon_ok (register_launch c d) = daemon_ok d" "sf_state (register_launch c d) = sf_state d"
  "sf_trace (register_launch c d) = sf_trace d" "dm_fenced (register_launch c d) = dm_fenced d"
  "dm_inFlightCommands (register_launch c d) = dm_inFlightCommands d"
  "dm_executionPaused (register_launch c d) = dm_executionPaused d"
  by (simp_all add: register_launch_def)

lemma admit_ok:
  assumes d: "daemon_ok d" and n: "executionState (ce_command_id c) (sf_state d) = None"
  shows "daemon_ok (admit env now c d)" "working (ce_command_id c) (admit env now c d)"
    "ce_command_id c \<notin> set (started (sf_trace (admit env now c d)))"
proof -
  let ?k = "ce_command_id c"
  note u = unrecorded [OF d n [unfolded executionState_def]]
  define d1 where "d1 = (recordExecution ?k C_executing d)
     \<lparr>dm_inFlightCommands := add_once ?k (dm_inFlightCommands (recordExecution ?k C_executing d))\<rparr>"
  have a: "admit env now c d = ack env now ?k C_accepted (meta_of c) [] d1"
    by (simp add: admit_def Let_def d1_def)
  have "file_ok d1" using record_open_ok [OF daemon_okD(1) [OF d] u(1)] by (simp add: d1_def)
  moreover have "pending_ok d1" using daemon_okD(2) [OF d] u(2) by (auto simp: d1_def pending_ok_def add_once_def)
  ultimately show "daemon_ok (admit env now c d)"
    by (auto simp: a daemon_ok_def TERMINAL_COMMAND_STATES_def intro!: ack_ok)
  have "working ?k d1" using u(2) by (simp add: d1_def working_def add_once_def)
  then show "working ?k (admit env now c d)" by (simp add: a)
  show "?k \<notin> set (started (sf_trace (admit env now c d)))"
    using u(3) by (simp add: a coreD(6) [OF core_ack] d1_def recordExecution_def persist_def observe_def)
qed

lemma handleCommand_ok [norns_inv]:
  assumes d: "daemon_ok d"
  shows "daemon_ok (handleCommand env now c d)"
proof -
  let ?k = "ce_command_id c" and ?d1 = "register_launch c d"
  have d1: "daemon_ok ?d1" using d by simp
  have known: "daemon_ok (if terminal_command st then terminalAck now ?k st (meta_of c) RECOVERED ?d1
      else ack env now ?k st (meta_of c) [] ?d1)" if "executionState ?k (sf_state ?d1) = Some st" for st
    using that d1 by (auto simp: daemon_ok_def executionState_def intro!: terminalAck_ok ack_ok)
  have refused: "daemon_ok (conclude env now ?k st (meta_of c) detail ?d1)"
    if "executionState ?k (sf_state ?d1) = None" for st detail
    using unrecorded [OF d1 that [unfolded executionState_def]] by (intro conclude_daemon_ok d1)
  have new: "daemon_ok (perform env now c (ce_payload c) (admit env now c ?d1))"
    if "executionState ?k (sf_state ?d1) = None"
    using admit_ok [OF d1 that] by (rule perform_ok)
  show ?thesis
    unfolding handleCommand_def Let_def
    using known refused new fence_ok [OF d] by (simp split: option.split)
qed

lemma reack_ok:
  assumes "daemon_ok d" "\<And>k st. (k, st) \<in> set ks \<Longrightarrow> terminal_command st \<and> jget (rn_executed (sf_state d)) k = Some st"
  shows "daemon_ok (fold (\<lambda>(k, st). terminalAck now k st (caused_by k) detail) ks d)
    \<and> core (fold (\<lambda>(k, st). terminalAck now k st (caused_by k) detail) ks d) = core d"
  using assms
proof (induction ks arbitrary: d)
  case (Cons p ks)
  obtain k st where p: "p = (k, st)" by (cases p)
  have "daemon_ok (terminalAck now k st (caused_by k) detail d)"
    using Cons.prems p by (auto simp: daemon_ok_def intro!: terminalAck_ok)
  moreover have "terminal_command s \<and> jget (rn_executed (sf_state (terminalAck now k st (caused_by k) detail d))) j = Some s"
    if "(j, s) \<in> set ks" for j s
    using Cons.prems(2) [of j s] that by (simp add: coreD(1) [OF core_terminalAck])
  ultimately show ?case using Cons.IH p by simp
qed simp

lemma reap_ok:
  assumes "daemon_ok d" "distinct ks"
    "\<And>k. k \<in> set ks \<Longrightarrow> jget (rn_executed (sf_state d)) k = Some C_executing \<and> k \<notin> set (dm_inFlightCommands d)"
  shows "daemon_ok (fold (\<lambda>k x. terminalAck now k C_failed (caused_by k) detail (recordExecution k C_failed x)) ks d)"
  using assms
proof (induction ks arbitrary: d)
  case (Cons k ks)
  let ?d = "terminalAck now k C_failed (caused_by k) detail (recordExecution k C_failed d)"
  have k: "open_command k d" "k \<notin> set (pending_ids d)"
    using Cons.prems(1,3) by (auto simp: open_command_def daemon_ok_def pending_ok_def TERMINAL_COMMAND_STATES_def)
  have "file_ok (recordExecution k C_failed d)" by (rule record_open_ok [OF daemon_okD(1) [OF Cons.prems(1)] k(1)])
  then have "daemon_ok ?d"
    using daemon_okD(2) [OF Cons.prems(1)] k(2)
    by (auto simp: daemon_ok_def pending_ok_record TERMINAL_COMMAND_STATES_def intro!: terminalAck_ok)
  moreover have "jget (rn_executed (sf_state ?d)) j = Some C_executing \<and> j \<notin> set (dm_inFlightCommands ?d)"
    if "j \<in> set ks" for j
    using Cons.prems(2) Cons.prems(3) [of j] that
    by (auto simp: coreD(1) [OF core_terminalAck] coreD(5) [OF core_terminalAck])
  ultimately show ?case using Cons.IH Cons.prems(2) by simp
qed simp

lemma fold_handleCommand_ok: "daemon_ok d \<Longrightarrow> daemon_ok (fold (handleCommand env now) cs d)"
  by (induction cs arbitrary: d) (simp_all add: handleCommand_ok)

lemma prune_daemon_ok [norns_inv]: "daemon_ok d \<Longrightarrow> daemon_ok (pruneAcked a d)"
  by (simp add: daemon_ok_def pruneAcked_ok)

lemma send_daemon_ok [norns_inv]: "daemon_ok d \<Longrightarrow> daemon_ok (sendBufferedEvents d)"
  by (simp add: daemon_ok_def sendBufferedEvents_ok)

lemma terminalExecutions_mem:
  assumes "file_ok d" "(k, st) \<in> set (terminalExecutions (sf_state d))"
  shows "terminal_command st \<and> jget (rn_executed (sf_state d)) k = Some st"
  using assms runner_invD(6) [OF file_okD(1) [OF assms(1)]]
  by (auto simp: terminalExecutions_def)

lemma orphans_mem:
  assumes "file_ok d"
  shows "distinct (orphanedExecutingIds live (sf_state d))"
    "k \<in> set (orphanedExecutingIds live (sf_state d)) \<longleftrightarrow>
       jget (rn_executed (sf_state d)) k = Some C_executing \<and> k \<notin> set live"
proof -
  have wf: "jwf (rn_executed (sf_state d))" by (rule runner_invD(6) [OF file_okD(1) [OF assms]])
  then show "distinct (orphanedExecutingIds live (sf_state d))"
    unfolding orphanedExecutingIds_def by (rule distinct_map_filter)
  show "k \<in> set (orphanedExecutingIds live (sf_state d)) \<longleftrightarrow>
       jget (rn_executed (sf_state d)) k = Some C_executing \<and> k \<notin> set live"
    using wf by (auto simp: orphanedExecutingIds_def image_iff)
qed

lemma handleReconcileResponse_ok [norns_inv]:
  assumes d: "daemon_ok d"
  shows "daemon_ok (handleReconcileResponse env now resp d)"
proof (cases "rp_generation resp = rn_generation (sf_state d)")
  case True
  define d2 where "d2 = sendBufferedEvents ((pruneAcked (rp_ack_event_seq resp)
      (d\<lparr>dm_serverAckSeq := rp_ack_event_seq resp, dm_knowledgeTransportEnabled :=
         (case rp_capabilities resp of None \<Rightarrow> False | Some cs \<Rightarrow> RC_knowledge_transport \<in> set cs)\<rparr>))
      \<lparr>dm_highestEventSeqSent := rp_ack_event_seq resp\<rparr>)"
  define d3 where "d3 = fold (\<lambda>(k, st). terminalAck now k st (caused_by k) RECOVERED) (terminalExecutions (sf_state d2)) d2"
  have d2: "daemon_ok d2" using d by (simp add: d2_def norns_inv)
  then have d3: "daemon_ok d3"
    unfolding d3_def using reack_ok terminalExecutions_mem daemon_okD(1) by blast
  show ?thesis
    using True reap_ok [OF d3 orphans_mem(1) [OF daemon_okD(1) [OF d3]]] orphans_mem(2) [OF daemon_okD(1) [OF d3]]
    by (simp add: handleReconcileResponse_def Let_def fold_handleCommand_ok flip: d2_def d3_def)
qed (simp add: handleReconcileResponse_def fence_ok d)

lemma handleEventAcknowledgement_ok [norns_inv]: "daemon_ok d \<Longrightarrow> daemon_ok (handleEventAcknowledgement s d)"
  by (simp add: handleEventAcknowledgement_def Let_def norns_inv)

lemma connection_ok [norns_inv]:
  "daemon_ok d \<Longrightarrow> daemon_ok (authenticated d)" "daemon_ok d \<Longrightarrow> daemon_ok (disconnected d)"
  "daemon_ok d \<Longrightarrow> daemon_ok (runner_socket_opens d)"
proof -
  have "daemon_ok (sendReconcileRequest d)" if "daemon_ok d" for d
  proof -
    have "pending_ok (observe ob d) = pending_ok d" for ob by (simp add: pending_ok_def observe_def)
    with that show ?thesis
      by (auto simp: sendReconcileRequest_def daemon_ok_def intro: observe_plain_ok)
  qed
  then show "daemon_ok d \<Longrightarrow> daemon_ok (authenticated d)" by (simp add: authenticated_def)
  show "daemon_ok d \<Longrightarrow> daemon_ok (disconnected d)" by (simp add: disconnected_def)
  show "daemon_ok d \<Longrightarrow> daemon_ok (runner_socket_opens d)" by (simp add: runner_socket_opens_def)
qed

subsection \<open>After an await\<close>

lemma settled_ok:
  assumes "daemon_ok d" "w \<in> set (dm_pending d)"
  shows "daemon_ok (settled w d)" "working (ce_command_id (pending_command w)) (settled w d)"
proof -
  from assms(2) obtain xs ys where ps: "dm_pending d = xs @ w # ys" "w \<notin> set xs"
    by (meson split_list_first)
  then have "dm_pending (settled w d) = xs @ ys" by (simp add: settled_def remove1_append)
  with assms ps show "daemon_ok (settled w d)" "working (ce_command_id (pending_command w)) (settled w d)"
    by (auto simp: daemon_ok_def pending_ok_def working_def) (auto simp: settled_def)
qed

lemma landed_ok:
  assumes "daemon_ok d" "working k d"
  shows "daemon_ok (landed k d)" "open_command k (landed k d)" "k \<notin> set (pending_ids (landed k d))"
  using assms working_open [OF assms(2)]
  by (auto simp: landed_def daemon_ok_def pending_ok_def working_def open_command_def)

lemma emit_daemon_ok [norns_inv]: "daemon_ok d \<Longrightarrow> plain_payload p \<Longrightarrow> daemon_ok (emit env now p meta d)"
  by (simp add: daemon_ok_def emit_plain_ok)

lemma pending_emit [simp]: "dm_pending (emit env now p meta d) = dm_pending d"
  by (rule coreD(4)) simp

lemma finish_v2_ok [norns_inv]:
  assumes "daemon_ok d" "PW_v2 c dc \<in> set (dm_pending d)"
  shows "daemon_ok (finish_v2 env now c dc res d)"
proof -
  note l = landed_ok [OF settled_ok [OF assms, simplified]]
  then show ?thesis
    by (auto simp: finish_v2_def Let_def split: sum.split intro!: conclude_daemon_ok emit_daemon_ok)
qed

lemma finish_visual_ok [norns_inv]:
  assumes "daemon_ok d" "PW_visual c v \<in> set (dm_pending d)"
  shows "daemon_ok (finish_visual env now c v res d)"
  using reject_ok [OF settled_ok [OF assms, simplified]] by (simp add: finish_visual_def Let_def split: sum.split)

lemma settle_control_ok:
  assumes "daemon_ok d" "working (ce_command_id c) d"
  shows "daemon_ok (settle_control env now c r st detail visible d)"
  using assms by (simp add: settle_control_def Let_def norns_inv reject_ok)

lemma on_fixture_ok:
  assumes "daemon_ok d" "fixture_only (fst (f (dm_fixture d)))"
  shows "daemon_ok (on_fixture env now f d)" "working k (on_fixture env now f d) = working k d"
  using assms by (auto simp: on_fixture_def emit_all_daemon_ok split: prod.splits)

lemma route_end_ok [norns_inv]:
  assumes "daemon_ok d" "PW_control c kind r res \<in> set (dm_pending d)"
  shows "daemon_ok (route_end env now c kind r res thrown d)"
proof -
  note s = settled_ok [OF assms, simplified]
  have "daemon_ok (route_fixture env now c kind r (settled (PW_control c kind r res) d))"
    using s by (auto simp: route_fixture_def on_fixture_ok split: control_kind.split intro!: settle_control_ok)
  with s show ?thesis
    by (auto simp: route_end_def Let_def split: control_result.split option.split intro!: settle_control_ok)
qed

lemma timers_ok [norns_inv]:
  "daemon_ok d \<Longrightarrow> daemon_ok (heartbeat env now d)" "daemon_ok d \<Longrightarrow> daemon_ok (fixture_timer env now r d)"
  by (simp_all add: heartbeat_def fixture_timer_def emit_daemon_ok on_fixture_ok)

subsection \<open>Runs of the daemon, with crashes\<close>

datatype daemon_call =
    DC_socket_open
  | DC_authenticated
  | DC_disconnected
  | DC_event_ack int
  | DC_command millis command_envelope
  | DC_reconcile millis reconcile_response
  | DC_v2_emits millis event_payload command_envelope dispatch_command
  | DC_finish_v2 millis command_envelope dispatch_command "string + v2_outcome"
  | DC_finish_visual millis command_envelope visual_evidence_request "string + unit"
  | DC_route_end millis command_envelope control_kind ident control_result "string option"
  | DC_heartbeat millis
  | DC_fixture_timer millis ident
  | DC_fence millis string
  | DC_emergencyStop millis
  | DC_stop millis
  | DC_start
  | DC_register live_registration
  | DC_publish ident live_session
  | DC_release ident nat string bool millis

fun do_daemon_call :: "daemon_env \<Rightarrow> daemon_call \<Rightarrow> daemon \<Rightarrow> daemon" where
  "do_daemon_call env DC_socket_open d = runner_socket_opens d"
| "do_daemon_call env DC_authenticated d = authenticated d"
| "do_daemon_call env DC_disconnected d = disconnected d"
| "do_daemon_call env (DC_event_ack s) d = handleEventAcknowledgement s d"
| "do_daemon_call env (DC_command now c) d = handleCommand env now c d"
| "do_daemon_call env (DC_reconcile now resp) d = handleReconcileResponse env now resp d"
| "do_daemon_call env (DC_v2_emits now p c dc) d = v2_emits env now p c d"
| "do_daemon_call env (DC_finish_v2 now c dc res) d = finish_v2 env now c dc res d"
| "do_daemon_call env (DC_finish_visual now c v res) d = finish_visual env now c v res d"
| "do_daemon_call env (DC_route_end now c kind r res thrown) d = route_end env now c kind r res thrown d"
| "do_daemon_call env (DC_heartbeat now) d = heartbeat env now d"
| "do_daemon_call env (DC_fixture_timer now r) d = fixture_timer env now r d"
| "do_daemon_call env (DC_fence now reason) d = fenceInstallation env now reason d"
| "do_daemon_call env (DC_emergencyStop now) d = emergencyStop env now d"
| "do_daemon_call env (DC_stop now) d = daemon_stop env now d"
| "do_daemon_call env DC_start d = snd (daemon_start d)"
| "do_daemon_call env (DC_register r) d = d\<lparr>dm_live := snd (live_register r (dm_live d))\<rparr>"
| "do_daemon_call env (DC_publish r sn) d = d\<lparr>dm_live := live_publish r sn (dm_live d)\<rparr>"
| "do_daemon_call env (DC_release r i outcome reaped now) d =
     d\<lparr>dm_live := live_release r i outcome reaped now (dm_live d)\<rparr>"

text \<open>
  A promise settles once, so only pending work continues; an execution emits events of its own, never
  a terminal acknowledgement.
\<close>

fun daemon_call_ok :: "daemon_call \<Rightarrow> daemon \<Rightarrow> bool" where
  "daemon_call_ok (DC_v2_emits now p c dc) d \<longleftrightarrow> PW_v2 c dc \<in> set (dm_pending d) \<and> plain_payload p"
| "daemon_call_ok (DC_finish_v2 now c dc res) d \<longleftrightarrow> PW_v2 c dc \<in> set (dm_pending d)"
| "daemon_call_ok (DC_finish_visual now c v res) d \<longleftrightarrow> PW_visual c v \<in> set (dm_pending d)"
| "daemon_call_ok (DC_route_end now c kind r res thrown) d \<longleftrightarrow> PW_control c kind r res \<in> set (dm_pending d)"
| "daemon_call_ok _ d \<longleftrightarrow> True"

interpretation daemon_object: object_invariant "do_daemon_call env" daemon_call_ok daemon_ok for env
proof
  fix c d assume "daemon_call_ok c d" "daemon_ok d"
  then show "daemon_ok (do_daemon_call env c d)"
    by (cases c) (simp_all add: norns_inv v2_emits_def)
qed

text \<open>
  The processes a runner can be in. A crash hits a handler after any number of its observable effects;
  the next process opens what is then on disk.
\<close>

inductive runner_reachable :: "daemon_env \<Rightarrow> daemon \<Rightarrow> bool" for env where
  enroll: "runner_reachable env (new_daemon opts (open_file None r key g []))"
| call: "runner_reachable env d \<Longrightarrow> daemon_call_ok c d \<Longrightarrow> runner_reachable env (do_daemon_call env c d)"
| crash: "runner_reachable env d \<Longrightarrow> daemon_call_ok c d \<Longrightarrow> length (sf_trace d) \<le> n \<Longrightarrow>
     disk (take n (sf_trace (do_daemon_call env c d))) = Some st \<Longrightarrow>
     runner_reachable env (new_daemon opts
       (open_file (Some (Current_file st)) r key g (take n (sf_trace (do_daemon_call env c d)))))"

lemma new_daemon_fields [simp]:
  "sf_state (new_daemon opts f) = sf_state f" "sf_trace (new_daemon opts f) = sf_trace f"
  "dm_pending (new_daemon opts f) = []" "dm_fenced (new_daemon opts f) = False"
  "dm_inFlightCommands (new_daemon opts f) = []"
  by (simp_all add: new_daemon_def state_file.defs daemon.defs)

lemma new_daemon_ok: "file_ok f \<Longrightarrow> daemon_ok (new_daemon opts f)"
  by (simp add: daemon_ok_def pending_ok_def file_ok_def)

lemma reachable_ok: "runner_reachable env d \<Longrightarrow> daemon_ok d"
proof (induction rule: runner_reachable.induct)
  case (enroll opts r key g)
  show ?case by (intro new_daemon_ok fresh_ok)
next
  case (call d c)
  then show ?case by (simp add: daemon_object.call_keeps)
next
  case (crash d c n st opts r key g)
  then have "daemon_ok (do_daemon_call env c d)" by (intro daemon_object.call_keeps)
  then have "trace_ok (take n (sf_trace (do_daemon_call env c d)))"
    by (simp add: daemon_ok_def file_ok_def disk_cut_ok)
  with crash.hyps(4) show ?case by (intro new_daemon_ok reopen_ok(1))
qed

text \<open>
  C8: A command is executed at most once. Through redelivery, reconciliation, restarts and crashes at
  any point, no command is started twice (as a fixture, a V2 execution or a collection of visual
  evidence), and every started command is in the durable record of executed commands.
\<close>

theorem command_started_at_most_once:
  assumes "runner_reachable env d"
  shows "distinct (started (sf_trace d))
    \<and> (\<forall>c \<in> set (started (sf_trace d)). executionState c (sf_state d) \<noteq> None)"
  using file_okD(2,4) [OF daemon_okD(1) [OF reachable_ok [OF assms]]] by (auto simp: executionState_def)

text \<open>
  C9: A command gets at most one terminal acknowledgement, ever, and it tells the truth: of all events
  a runner has buffered since its enrollment, in this process and in the crashed ones before, at most
  one acknowledges a given command with a terminal state, and that state is the durably recorded
  outcome. What is sent has been written to disk before.
\<close>

theorem one_truthful_terminal_ack:
  assumes "runner_reachable env d" and "e \<in> set (emitted (sf_trace d))" and "terminal_ack_of e = Some c"
  shows "(\<forall>e' \<in> set (emitted (sf_trace d)). terminal_ack_of e' = Some c \<longrightarrow> e' = e)
    \<and> (\<exists>st detail. ev_payload e = EP_command_ack c st detail \<and> executionState c (sf_state d) = Some st)
    \<and> set (sent (sf_trace d)) \<subseteq> set (emitted (sf_trace d))"
proof -
  note f = daemon_okD(1) [OF reachable_ok [OF assms(1)]]
  note inv = file_okD(1) [OF f]
  have seq: "x = y" if "x \<in> set (emitted (sf_trace d))" "y \<in> set (emitted (sf_trace d))"
    "ev_event_seq x = ev_event_seq y" for x y
    using runner_invD(1) [OF inv] that
    by (metis (no_types, lifting) in_set_conv_nth less_irrefl linorder_neqE_nat sorted_wrt_iff_nth_less)
  have "e' = e" if "e' \<in> set (emitted (sf_trace d))" "terminal_ack_of e' = Some c" for e'
    using runner_invD(5) [OF inv] that assms(2,3) seq unfolding tombstones_def by (metis option.inject)
  moreover obtain st detail where p: "ev_payload e = EP_command_ack c st detail" "terminal_command st"
    using assms(3) by (auto simp: terminal_ack_of_Some)
  moreover have "executionState c (sf_state d) = Some st"
    using runner_invD(2) [OF inv assms(2)] p by (simp add: own_event_def executionState_def)
  ultimately show ?thesis using file_okD(3) [OF f] by blast
qed

text \<open>
  Every handler writes through. In every reachable process the last write of the file is the state in memory,
  so that nothing is held back in memory that a process which opens this write would miss.
\<close>

theorem restart_restores_state:
  assumes "runner_reachable env d"
  shows "disk (sf_trace d) = Some (sf_state d)
    \<and> sf_state (new_daemon opts (open_file (map_option Current_file (disk (sf_trace d))) r key g (sf_trace d)))
        = sf_state d"
  using reachable_ok [OF assms] by (simp add: daemon_ok_def file_ok_def reopen_ok(2))

definition sample_env :: daemon_env where
  "sample_env = \<lparr>nx_parse = (\<lambda>s. None), nx_show = (\<lambda>n. ''NaN''), dx_redact = (\<lambda>s. s)\<rparr>"

definition sample_command :: "command_payload \<Rightarrow> command_envelope" where
  "sample_command p =
     \<lparr>ce_command_id = ''c1'', ce_idempotency_key = ''c1'', ce_correlation_id = ''k'', ce_causation_id = None,
      ce_project_id = ''p'', ce_runner_id = ''r1'', ce_generation = 1, ce_issued_by_session = ''s'',
      ce_issued_at = 0, ce_expires_at = 100, ce_payload = p\<rparr>"

definition sample_options :: daemon_options where
  "sample_options = \<lparr>do_executeV2 = False, do_collectVisualEvidence = False, do_onRunSettled = False,
     do_deviceExecution = False\<rparr>"

text \<open>A runner that has executed a fixture, and was then redelivered the same command.\<close>

definition sample_daemon :: daemon where
  "sample_daemon = do_daemon_call sample_env (DC_command 2 (sample_command (CP_launch_fixture ''count:1:1'')))
     (do_daemon_call sample_env (DC_command 1 (sample_command (CP_launch_fixture ''count:1:1'')))
       (new_daemon sample_options (open_file None ''r1'' [] 1 [])))"

lemma sample_reachable: "runner_reachable sample_env sample_daemon"
  unfolding sample_daemon_def
  by (intro runner_reachable.call runner_reachable.enroll daemon_call_ok.simps(5) [THEN iffD2]) simp_all

lemma sample_started: "started (sf_trace sample_daemon) = [''c1'']"
  by code_simp

theorem command_started_at_most_once_witness:
  "started (sf_trace sample_daemon) = [''c1'']
   \<and> distinct (started (sf_trace sample_daemon)) \<and> executionState ''c1'' (sf_state sample_daemon) \<noteq> None"
  using command_started_at_most_once [OF sample_reachable] sample_started by simp

lemma sample_last_event: "terminal_ack_of (last (emitted (sf_trace sample_daemon))) = Some ''c1''
    \<and> emitted (sf_trace sample_daemon) \<noteq> []"
  by code_simp

theorem one_truthful_terminal_ack_witness:
  "(\<exists>st detail. ev_payload (last (emitted (sf_trace sample_daemon))) = EP_command_ack ''c1'' st detail
      \<and> executionState ''c1'' (sf_state sample_daemon) = Some st)
   \<and> set (sent (sf_trace sample_daemon)) \<subseteq> set (emitted (sf_trace sample_daemon))"
  using one_truthful_terminal_ack [OF sample_reachable last_in_set sample_last_event [THEN conjunct1]]
    sample_last_event by blast

theorem restart_restores_state_witness:
  "sf_state (new_daemon sample_options (open_file (map_option Current_file (disk (sf_trace sample_daemon)))
      ''r1'' [] 1 (sf_trace sample_daemon))) = sf_state sample_daemon"
  using restart_restores_state [OF sample_reachable] by blast

end
