(* ===== verification/Daemon_Recovery.thy ===== *)
theory Daemon_Recovery
  imports Daemon_Props
begin

section \<open>Recovery at reconciliation\<close>

text \<open>
  A crash between the durable record of an outcome and its acknowledgement leaves a terminal command
  without an acknowledgement, and a crash during an execution leaves a command recorded as executing
  that no process works on. \<^verbatim>\<open>handleReconcileResponse\<close> repairs both.
\<close>

subsection \<open>Acknowledged outcomes\<close>

definition outcomes where
  "outcomes d = (rn_executed (sf_state d), rn_terminal_acks (sf_state d), dm_fenced d, dm_inFlightCommands d)"

lemma outcomesD:
  assumes "outcomes d' = outcomes d"
  shows "rn_executed (sf_state d') = rn_executed (sf_state d)"
    "rn_terminal_acks (sf_state d') = rn_terminal_acks (sf_state d)" "dm_fenced d' = dm_fenced d"
    "dm_inFlightCommands d' = dm_inFlightCommands d"
  using assms by (simp_all add: outcomes_def)

lemma outcomes_observe [simp]: "outcomes (observe ob d) = outcomes d"
  by (simp add: outcomes_def observe_def)

lemma outcomes_persist [simp]: "outcomes (persist ev d) = outcomes d"
  by (simp add: persist_def)

lemma outcomes_fields [simp]:
  "outcomes (d\<lparr>dm_highestEventSeqSent := s\<rparr>) = outcomes d" "outcomes (d\<lparr>dm_settledReported := b\<rparr>) = outcomes d"
  "outcomes (d\<lparr>dm_fixture := fr\<rparr>) = outcomes d" "outcomes (d\<lparr>dm_pending := ps\<rparr>) = outcomes d"
  "outcomes (d\<lparr>dm_launchCommands := ks\<rparr>) = outcomes d" "outcomes (d\<lparr>dm_serverAckSeq := s\<rparr>) = outcomes d"
  "outcomes (d\<lparr>dm_knowledgeTransportEnabled := b\<rparr>) = outcomes d" "outcomes (d\<lparr>dm_heartbeat := b\<rparr>) = outcomes d"
  by (simp_all add: outcomes_def)

lemma outcomes_send_events [simp]: "outcomes (send_events es d) = outcomes d"
  by (induction es arbitrary: d) simp_all

lemma outcomes_send [simp]: "outcomes (sendBufferedEvents d) = outcomes d"
  by (simp add: sendBufferedEvents_def Let_def)

lemma outcomes_emit [simp]: "outcomes (emit env now p meta d) = outcomes d"
proof -
  have "outcomes (bufferEvent e (nextSeq d)) = outcomes d" for e
    by (simp add: bufferEvent_def nextSeq_def persist_def observe_def outcomes_def)
  then show ?thesis by (simp add: emit_def)
qed

lemma outcomes_emit_all [simp]: "outcomes (emit_all env now es d) = outcomes d"
  unfolding emit_all_def by (induction es arbitrary: d) (simp_all add: case_prod_beta)

lemma outcomes_report [simp]: "outcomes (reportRunSettled k st d) = outcomes d"
  by (simp add: reportRunSettled_def)

lemma outcomes_prune [simp]: "outcomes (pruneAcked a d) = outcomes d"
  by (simp add: outcomes_def pruneAcked_def Let_def persist_def observe_def)

lemma outcomes_observe_live [simp]: "outcomes (observe_live es d) = outcomes d"
  unfolding observe_live_def by (induction es arbitrary: d) simp_all

lemma outcomes_await [simp]: "outcomes (await w d) = outcomes d"
  by (simp add: await_def)

lemma outcomes_executing [simp]: "outcomes (executing env now c d) = outcomes d"
  by (simp add: executing_def ack_def TERMINAL_COMMAND_STATES_def)

text \<open>The terminal acknowledgement of a process that is not fenced leaves a tombstone and removes none.\<close>

lemma terminalAck_acks:
  assumes "file_ok d" "terminal_command st" "\<not> dm_fenced d"
  shows "jget (rn_terminal_acks (sf_state (terminalAck now k st meta detail d))) k \<noteq> None"
    "jget (rn_terminal_acks (sf_state d)) j \<noteq> None \<Longrightarrow>
       jget (rn_terminal_acks (sf_state (terminalAck now k st meta detail d))) j \<noteq> None"
proof -
  let ?i = "ack_input now k st meta detail d"
  have i: "ta_command_id ?i = k" "ta_state ?i = st" by (simp_all add: ack_input_def)
  have t: "terminal_command (ta_state ?i)" using assms(2) i by simp
  define d' where "d' = snd (ensureTerminalAck ?i d)"
  have "(\<exists>x. ensureTerminalAck ?i d = (Inr x, d')) \<and> jget (rn_terminal_acks (sf_state d')) k \<noteq> None
      \<and> (\<forall>j. jget (rn_terminal_acks (sf_state d)) j \<noteq> None \<longrightarrow> jget (rn_terminal_acks (sf_state d')) j \<noteq> None)"
    using assms(1) t
  proof (cases rule: ensureTerminalAck_cases)
    case (known e)
    then show ?thesis by (auto simp: d'_def i)
  next
    case created
    show ?thesis unfolding d'_def created(2) by (auto simp: Let_def persist_def observe_def i)
  qed
  then obtain x where e: "ensureTerminalAck ?i d = (Inr x, d')"
    and n: "jget (rn_terminal_acks (sf_state d')) k \<noteq> None"
    and o: "\<And>j. jget (rn_terminal_acks (sf_state d)) j \<noteq> None \<Longrightarrow> jget (rn_terminal_acks (sf_state d')) j \<noteq> None"
    by blast
  have "rn_terminal_acks (sf_state (terminalAck now k st meta detail d)) = rn_terminal_acks (sf_state d')"
    using e assms(3) by (simp add: terminalAck_def outcomesD(2) [OF outcomes_send] outcomesD(2) [OF outcomes_report] split: prod.split)
  with n o show "jget (rn_terminal_acks (sf_state (terminalAck now k st meta detail d))) k \<noteq> None"
    "jget (rn_terminal_acks (sf_state d)) j \<noteq> None \<Longrightarrow>
       jget (rn_terminal_acks (sf_state (terminalAck now k st meta detail d))) j \<noteq> None" by simp_all
qed

definition unacked :: "daemon \<Rightarrow> ident set" where
  "unacked d = {k. (\<exists>st. jget (rn_executed (sf_state d)) k = Some st \<and> terminal_command st)
                 \<and> jget (rn_terminal_acks (sf_state d)) k = None}"

lemma unacked_cong:
  assumes "outcomes d' = outcomes d"
  shows "unacked d' = unacked d"
  using outcomesD(1,2) [OF assms] by (simp add: unacked_def)

lemma unacked_terminalAck:
  assumes "file_ok d" "terminal_command st" "\<not> dm_fenced d"
  shows "unacked (terminalAck now k st meta detail d) \<subseteq> unacked d - {k}"
  using terminalAck_acks [OF assms, where now = now and k = k and meta = meta and detail = detail] unfolding unacked_def coreD(1) [OF core_terminalAck]
  by blast

lemma unacked_record: "unacked (recordExecution k st d) \<subseteq> insert k (unacked d)"
proof
  fix j assume "j \<in> unacked (recordExecution k st d)"
  moreover have "rn_terminal_acks (sf_state (recordExecution k st d)) = rn_terminal_acks (sf_state d)"
    by (simp add: recordExecution_def persist_def observe_def)
  ultimately show "j \<in> insert k (unacked d)" by (auto simp: unacked_def split: if_splits)
qed

lemma unacked_record_running: "\<not> terminal_command st \<Longrightarrow> unacked (recordExecution k st d) \<subseteq> unacked d"
  by (auto simp: unacked_def recordExecution_def persist_def observe_def split: if_splits)

lemma fenced_record [simp]: "dm_fenced (recordExecution k st d) = dm_fenced d"
  by (simp add: recordExecution_def persist_def observe_def)

lemma unacked_conclude:
  assumes "file_ok d" "open_command k d" "\<not> dm_fenced d"
  shows "unacked (conclude env now k st meta detail d) \<subseteq> unacked d"
proof (cases "terminal_command st")
  case True
  have "file_ok (recordExecution k st d)" by (rule record_open_ok [OF assms(1,2)])
  from unacked_terminalAck [OF this True, where now = now and k = k and meta = meta and detail = detail] assms(3)
  have "unacked (terminalAck now k st meta detail (recordExecution k st d)) \<subseteq> unacked (recordExecution k st d) - {k}"
    by simp
  with unacked_record [of k st d] True show ?thesis unfolding conclude_def ack_def by auto
next
  case False
  have "unacked (conclude env now k st meta detail d) = unacked (recordExecution k st d)"
    unfolding conclude_def using False by (intro unacked_cong) (simp add: ack_def)
  with unacked_record_running [OF False] show ?thesis by simp
qed

lemma unacked_perform:
  assumes d: "daemon_ok d" and w: "working (ce_command_id c) d" and ns: "ce_command_id c \<notin> set (started (sf_trace d))"
    and nf: "\<not> dm_fenced d"
  shows "unacked (perform env now c p d) \<subseteq> unacked d"
proof -
  note reject = unacked_conclude [OF daemon_okD(1) [OF d] working_open [OF w] nf]
  have routed: "unacked (route_begin c kind r m d) = unacked d" for kind r m
    by (rule unacked_cong) (simp add: route_begin_def split: prod.split)
  show ?thesis
  proof (cases p)
    case (CP_launch_fixture fixture)
    let ?k = "ce_command_id c"
    define d1 where "d1 = observe (O_start_fixture ?k fixture) (executing env now c d)"
    have "?k \<notin> set (started (sf_trace (executing env now c d)))"
      using ns by (simp add: coreD(6) [OF core_executing])
    then have d1: "daemon_ok d1" "working ?k d1" using executing_daemon_ok [OF d] w unfolding d1_def
      by (simp_all add: start_ok [where k = ?k])
    obtain es runs where
      l: "fixture_launch (number_syntax.truncate env) (''run_'' @ ?k) fixture (meta_of c) (dm_fixture d1) = (es, runs)"
      by fastforce
    let ?d2 = "emit_all env now es (d1\<lparr>dm_fixture := runs\<rparr>)"
    have es: "fixture_only es" using l by (metis fixture_only_ops(1) fst_conv)
    have "daemon_ok ?d2" using d1 es by (intro emit_all_daemon_ok) simp_all
    moreover have "open_command ?k ?d2" using working_open [OF d1(2)] by simp
    moreover have o2: "outcomes ?d2 = outcomes d" by (simp add: d1_def)
    ultimately have "unacked (conclude env now ?k C_succeeded (meta_of c) [] ?d2) \<subseteq> unacked ?d2"
      using nf by (intro unacked_conclude daemon_okD(1)) (simp_all add: outcomesD(3) [OF o2])
    then show ?thesis using CP_launch_fixture l unacked_cong [OF o2] by (simp add: Let_def flip: d1_def)
  next
    case (CP_launch_run n r pr dispatch)
    have "unacked (await w' (observe ob (executing env now c d))) = unacked d" for w' ob
      by (rule unacked_cong) simp
    with CP_launch_run reject show ?thesis by (auto simp: Let_def split: option.split)
  next
    case (CP_collect_visual_evidence v)
    have "unacked (await w' (observe ob (executing env now c d))) = unacked d" for w' ob
      by (rule unacked_cong) simp
    with CP_collect_visual_evidence reject show ?thesis by auto
  qed (use reject routed in simp_all)
qed

subsection \<open>Orphaned executions\<close>

definition orphans :: "daemon \<Rightarrow> ident set" where
  "orphans d = {k. jget (rn_executed (sf_state d)) k = Some C_executing \<and> k \<notin> set (dm_inFlightCommands d)}"

lemma orphans_cong:
  assumes "core d' = core d"
  shows "orphans d' = orphans d"
  using coreD(1,5) [OF assms] by (simp add: orphans_def)

lemma core_conclude: "core (conclude env now k st meta detail d) = core (recordExecution k st d)"
  by (simp add: conclude_def)

lemma conclude_inFlight:
  "dm_fenced (conclude env now k st meta detail d) = dm_fenced d"
  using coreD(7) [OF core_conclude] by simp

lemma orphans_conclude: "st \<noteq> C_executing \<Longrightarrow> orphans (conclude env now k st meta detail d) \<subseteq> orphans d"
  unfolding orphans_cong [OF core_conclude] by (auto simp: orphans_def split: if_splits)

lemma perform_frame:
  "dm_fenced (perform env now c p d) = dm_fenced d \<and> orphans (perform env now c p d) \<subseteq> orphans d"
proof -
  have obs: "orphans (observe ob x) = orphans x" "dm_fenced (observe ob x) = dm_fenced x" for ob x
    by (simp_all add: orphans_def observe_def)
  have ex: "orphans (executing env now c d) = orphans d" "dm_fenced (executing env now c d) = dm_fenced d"
    by (simp_all add: orphans_cong [OF core_executing] coreD(7) [OF core_executing])
  have aw: "orphans (await w x) = orphans x" "dm_fenced (await w x) = dm_fenced x" for w x
    by (simp_all add: orphans_def await_def)
  have em: "orphans (emit_all env now es x) = orphans x" "dm_fenced (emit_all env now es x) = dm_fenced x" for es x
    by (simp_all add: orphans_cong [OF core_emit_all] coreD(7) [OF core_emit_all])
  have fx: "orphans (x\<lparr>dm_fixture := fr\<rparr>) = orphans x" for x fr by (simp add: orphans_def)
  have rt: "orphans (route_begin c kind r m d) = orphans d" "dm_fenced (route_begin c kind r m d) = dm_fenced d" for kind r m
    by (simp_all add: route_begin_def aw orphans_cong [OF core_observe_live] coreD(7) [OF core_observe_live] split: prod.split)
  note cl = orphans_conclude [of _ env now "ce_command_id c" "meta_of c"]
  show ?thesis
  proof (cases p)
    case (CP_launch_fixture fixture)
    then show ?thesis
      using cl [of C_succeeded] by (force simp: Let_def conclude_inFlight em fx obs ex split: prod.split)
  qed (use cl [of C_rejected] in \<open>auto simp: Let_def conclude_inFlight aw obs ex rt split: option.split\<close>)
qed

subsection \<open>Handling a command does no damage\<close>

lemma admit_damage:
  "unacked (admit env now c d) \<subseteq> unacked d" "orphans (admit env now c d) \<subseteq> orphans d"
  "dm_fenced (admit env now c d) = dm_fenced d"
proof -
  let ?k = "ce_command_id c"
  define d1 where "d1 = (recordExecution ?k C_executing d)
     \<lparr>dm_inFlightCommands := add_once ?k (dm_inFlightCommands (recordExecution ?k C_executing d))\<rparr>"
  have a: "admit env now c d = ack env now ?k C_accepted (meta_of c) [] d1"
    by (simp add: admit_def Let_def d1_def)
  have "unacked (admit env now c d) = unacked d1"
    unfolding a by (rule unacked_cong) (simp add: ack_def TERMINAL_COMMAND_STATES_def)
  also have "\<dots> = unacked (recordExecution ?k C_executing d)" by (simp add: d1_def unacked_def)
  also have "\<dots> \<subseteq> unacked d" by (rule unacked_record_running) (simp add: TERMINAL_COMMAND_STATES_def)
  finally show "unacked (admit env now c d) \<subseteq> unacked d" .
  have "orphans d1 \<subseteq> orphans d" by (auto simp: d1_def orphans_def add_once_def split: if_splits)
  then show "orphans (admit env now c d) \<subseteq> orphans d" unfolding a orphans_cong [OF core_ack] .
  show "dm_fenced (admit env now c d) = dm_fenced d"
    unfolding a coreD(7) [OF core_ack] by (simp add: d1_def)
qed

lemma register_launch_damage [simp]:
  "unacked (register_launch c d) = unacked d" "orphans (register_launch c d) = orphans d"
  by (simp_all add: unacked_def orphans_def)

lemma handleCommand_match:
  assumes "\<not> dm_fenced (handleCommand env now c d)"
  shows "ce_runner_id c = rn_runner_id (sf_state d)" "ce_generation c = rn_generation (sf_state d)"
  using assms
  by (auto simp: handleCommand_def fenceInstallation_def Let_def stopHeartbeat_def coreD(7) [OF core_observe_live]
      cancel_fixtures_def coreD(7) [OF core_emit_all] split: if_splits prod.splits)

lemma handleCommand_fenced:
  assumes nf: "\<not> dm_fenced (handleCommand env now c d)"
  shows "\<not> dm_fenced d"
proof -
  have "dm_fenced (handleCommand env now c d) = dm_fenced d"
    unfolding handleCommand_def Let_def using handleCommand_match [OF nf]
    by (simp add: conclude_inFlight coreD(7) [OF core_ack] coreD(7) [OF core_terminalAck] perform_frame
        admit_damage(3) split: option.split)
  with nf show ?thesis by simp
qed

lemma handleCommand_repaired:
  assumes d: "daemon_ok d" and nf: "\<not> dm_fenced (handleCommand env now c d)"
  shows "unacked (handleCommand env now c d) \<subseteq> unacked d \<and> orphans (handleCommand env now c d) \<subseteq> orphans d"
proof -
  let ?k = "ce_command_id c" and ?d1 = "register_launch c d"
  have d1: "daemon_ok ?d1" "\<not> dm_fenced ?d1" using d handleCommand_fenced [OF nf] by simp_all
  have some: "unacked (terminalAck now ?k st m detail ?d1) \<subseteq> unacked d \<and> orphans (terminalAck now ?k st m detail ?d1) \<subseteq> orphans d"
    if "terminal_command st" for st m detail
    using unacked_terminalAck [OF daemon_okD(1) [OF d1(1)] that d1(2), where now = now and k = ?k and meta = m and detail = detail]
    unfolding orphans_cong [OF core_terminalAck] by auto
  have again: "unacked (ack env now ?k st m detail ?d1) \<subseteq> unacked d \<and> orphans (ack env now ?k st m detail ?d1) \<subseteq> orphans d"
    if "\<not> terminal_command st" for st m detail
  proof -
    have "unacked (ack env now ?k st m detail ?d1) = unacked ?d1"
      using that by (intro unacked_cong) (simp add: ack_def)
    then show ?thesis unfolding orphans_cong [OF core_ack] by simp
  qed
  have refused: "unacked (conclude env now ?k st m detail ?d1) \<subseteq> unacked d"
    if "executionState ?k (sf_state ?d1) = None" for st m detail
    using unacked_conclude [OF daemon_okD(1) [OF d1(1)] unrecorded(1) [OF d1(1) that [unfolded executionState_def]] d1(2)]
    by simp
  have dropped: "st \<noteq> C_executing \<Longrightarrow> orphans (conclude env now ?k st m detail ?d1) \<subseteq> orphans d" for st m detail
    using orphans_conclude [of st env now ?k m detail ?d1] by simp
  have new: "unacked (perform env now c (ce_payload c) (admit env now c ?d1)) \<subseteq> unacked d
      \<and> orphans (perform env now c (ce_payload c) (admit env now c ?d1)) \<subseteq> orphans d"
    if "executionState ?k (sf_state ?d1) = None"
  proof -
    have "unacked (perform env now c (ce_payload c) (admit env now c ?d1)) \<subseteq> unacked (admit env now c ?d1)"
      by (rule unacked_perform [OF admit_ok [OF d1(1) that]]) (use d1(2) in \<open>simp add: admit_damage(3)\<close>)
    then show ?thesis
      using perform_frame [of env now c "ce_payload c" "admit env now c ?d1"] admit_damage(1,2) [of env now c ?d1]
      unfolding register_launch_damage by blast
  qed
  show ?thesis
    unfolding handleCommand_def Let_def
    using handleCommand_match [OF nf] some again refused dropped new by (simp split: option.split)
qed

lemma fold_handleCommand_repaired:
  assumes "daemon_ok d" "\<not> dm_fenced (fold (handleCommand env now) cs d)"
  shows "\<not> dm_fenced d \<and> unacked (fold (handleCommand env now) cs d) \<subseteq> unacked d
    \<and> orphans (fold (handleCommand env now) cs d) \<subseteq> orphans d"
  using assms
proof (induction cs arbitrary: d)
  case (Cons c cs)
  have i: "\<not> dm_fenced (handleCommand env now c d)"
    "unacked (fold (handleCommand env now) (c # cs) d) \<subseteq> unacked (handleCommand env now c d)"
    "orphans (fold (handleCommand env now) (c # cs) d) \<subseteq> orphans (handleCommand env now c d)"
    using Cons.IH [OF handleCommand_ok [OF Cons.prems(1)]] Cons.prems(2) by auto
  from handleCommand_repaired [OF Cons.prems(1) i(1)] handleCommand_fenced [OF i(1)] i(2,3)
  show ?case by blast
qed simp

subsection \<open>The two repair loops\<close>

lemma reack_unacked:
  assumes "daemon_ok d" "\<not> dm_fenced d"
    "\<And>k st. (k, st) \<in> set ks \<Longrightarrow> terminal_command st \<and> jget (rn_executed (sf_state d)) k = Some st"
  shows "unacked (fold (\<lambda>(k, st). terminalAck now k st (caused_by k) detail) ks d) \<subseteq> unacked d - fst ` set ks"
  using assms
proof (induction ks arbitrary: d)
  case (Cons p ks)
  obtain k st where p: "p = (k, st)" by (cases p)
  let ?d = "terminalAck now k st (caused_by k) detail d"
  have k: "terminal_command st" "jget (rn_executed (sf_state d)) k = Some st"
    using Cons.prems(3) [of k st] p by simp_all
  have d': "daemon_ok ?d" using k Cons.prems(1) by (auto simp: daemon_ok_def intro!: terminalAck_ok)
  have f: "\<not> dm_fenced ?d" using Cons.prems(2) by (simp add: coreD(7) [OF core_terminalAck])
  have e: "terminal_command s \<and> jget (rn_executed (sf_state ?d)) j = Some s" if "(j, s) \<in> set ks" for j s
    using Cons.prems(3) [of j s] that by (simp add: coreD(1) [OF core_terminalAck])
  from Cons.IH [OF d' f e] p
    unacked_terminalAck [OF daemon_okD(1) [OF Cons.prems(1)] k(1) Cons.prems(2), of now k "caused_by k" detail]
  show ?case by auto
qed simp

lemma reap_repairs:
  assumes "daemon_ok d" "distinct ks" "\<not> dm_fenced d" "unacked d = {}"
    "\<And>k. k \<in> set ks \<Longrightarrow> jget (rn_executed (sf_state d)) k = Some C_executing \<and> k \<notin> set (dm_inFlightCommands d)"
  shows "unacked (fold (\<lambda>k x. terminalAck now k C_failed (caused_by k) detail (recordExecution k C_failed x)) ks d) = {}
    \<and> orphans (fold (\<lambda>k x. terminalAck now k C_failed (caused_by k) detail (recordExecution k C_failed x)) ks d)
        \<subseteq> orphans d - set ks"
  using assms
proof (induction ks arbitrary: d)
  case (Cons k ks)
  let ?r = "recordExecution k C_failed d"
  let ?d = "terminalAck now k C_failed (caused_by k) detail ?r"
  have k: "open_command k d" "k \<notin> set (pending_ids d)"
    using Cons.prems(1,5) by (auto simp: open_command_def daemon_ok_def pending_ok_def TERMINAL_COMMAND_STATES_def)
  have r: "file_ok ?r" by (rule record_open_ok [OF daemon_okD(1) [OF Cons.prems(1)] k(1)])
  have t: "terminal_command C_failed" by (simp add: TERMINAL_COMMAND_STATES_def)
  have d': "daemon_ok ?d" using reap_ok [OF Cons.prems(1), of "[k]"] Cons.prems(5) [of k] by simp
  have u: "unacked ?d = {}"
    using unacked_terminalAck [OF r t, of now k "caused_by k" detail] unacked_record [of k C_failed d] Cons.prems(3,4) by auto
  have f: "\<not> dm_fenced ?d" using Cons.prems(3) by (simp add: coreD(7) [OF core_terminalAck])
  have e: "jget (rn_executed (sf_state ?d)) j = Some C_executing \<and> j \<notin> set (dm_inFlightCommands ?d)"
    if "j \<in> set ks" for j
    using Cons.prems(2) Cons.prems(5) [of j] that
    by (auto simp: coreD(1) [OF core_terminalAck] coreD(5) [OF core_terminalAck])
  have o: "orphans ?d \<subseteq> orphans d - {k}"
    unfolding orphans_cong [OF core_terminalAck] by (auto simp: orphans_def split: if_splits)
  from Cons.IH [OF d' _ f u e] Cons.prems(2) o show ?case by auto
qed simp

lemma handleReconcileResponse_repairs:
  assumes d: "daemon_ok d" and g: "rp_generation resp = rn_generation (sf_state d)"
    and nf: "\<not> dm_fenced (handleReconcileResponse env now resp d)"
  shows "unacked (handleReconcileResponse env now resp d) = {} \<and> orphans (handleReconcileResponse env now resp d) = {}"
proof -
  define d2 where "d2 = sendBufferedEvents ((pruneAcked (rp_ack_event_seq resp)
      (d\<lparr>dm_serverAckSeq := rp_ack_event_seq resp, dm_knowledgeTransportEnabled :=
         (case rp_capabilities resp of None \<Rightarrow> False | Some cs \<Rightarrow> RC_knowledge_transport \<in> set cs)\<rparr>))
      \<lparr>dm_highestEventSeqSent := rp_ack_event_seq resp\<rparr>)"
  define d3 where "d3 = fold (\<lambda>(k, st). terminalAck now k st (caused_by k) RECOVERED) (terminalExecutions (sf_state d2)) d2"
  define d4 where "d4 = fold (\<lambda>k x. terminalAck now k C_failed (caused_by k)
      ''runner restarted; the execution process was lost before it reported a result'' (recordExecution k C_failed x))
      (orphanedExecutingIds (dm_inFlightCommands d3) (sf_state d3)) d3"
  define d5 where "d5 = fold (handleCommand env now) (rp_resend_commands resp) d4"
  have end': "handleReconcileResponse env now resp d = startHeartbeat d5"
    using g by (simp add: handleReconcileResponse_def Let_def flip: d2_def d3_def d4_def d5_def)
  have hb: "outcomes (startHeartbeat x) = outcomes x" for x by (simp add: startHeartbeat_def stopHeartbeat_def)
  have d2: "daemon_ok d2" unfolding d2_def by (intro send_daemon_ok daemon_ok_fields [THEN iffD2] prune_daemon_ok) (simp_all add: d)
  have mem: "terminal_command st \<and> jget (rn_executed (sf_state d2)) k = Some st"
    if "(k, st) \<in> set (terminalExecutions (sf_state d2))" for k st
    using terminalExecutions_mem [OF daemon_okD(1) [OF d2] that] .
  have d3: "daemon_ok d3" "core d3 = core d2" unfolding d3_def using reack_ok [OF d2 mem] by blast+
  note o = orphans_mem [OF daemon_okD(1) [OF d3(1)]]
  have d4: "daemon_ok d4" unfolding d4_def using reap_ok [OF d3(1) o(1)] o(2) by blast
  have f5: "\<not> dm_fenced d5" using nf unfolding end' outcomesD(3) [OF hb] .
  have f4: "\<not> dm_fenced d4" and sub: "unacked d5 \<subseteq> unacked d4" "orphans d5 \<subseteq> orphans d4"
    using fold_handleCommand_repaired [OF d4, of env now "rp_resend_commands resp"] f5 unfolding d5_def by blast+
  have f3: "dm_fenced d4 = dm_fenced d3" unfolding d4_def
    by (rule fold_invariant [where Q = "\<lambda>_. True" and P = "\<lambda>x. dm_fenced x = dm_fenced d3"])
      (simp_all add: coreD(7) [OF core_terminalAck])
  have f2: "\<not> dm_fenced d2" using f4 f3 coreD(7) [OF d3(2)] by simp
  have "unacked d2 \<subseteq> fst ` set (terminalExecutions (sf_state d2))"
    by (force simp: unacked_def terminalExecutions_def dest: jget_mem)
  with reack_unacked [OF d2 f2 mem, where detail = RECOVERED and now = now] have u3: "unacked d3 = {}" unfolding d3_def by blast
  have "unacked d4 = {} \<and> orphans d4 \<subseteq> orphans d3 - set (orphanedExecutingIds (dm_inFlightCommands d3) (sf_state d3))"
    unfolding d4_def using f4 f3 o by (intro reap_repairs [OF d3(1) o(1) _ u3]) simp_all
  with sub o(2) have "unacked d5 = {} \<and> orphans d5 = {}" by (auto simp: orphans_def)
  moreover have "orphans (startHeartbeat d5) = orphans d5"
    using outcomesD(1,4) [OF hb [of d5]] by (simp add: orphans_def)
  ultimately show ?thesis unfolding end' unacked_cong [OF hb] by simp
qed

text \<open>
  C27: Reconciliation repairs what a crash left behind. After a reachable runner has handled the
  reconciliation response of its own generation without being fenced, every execution it has recorded
  as ended has its terminal acknowledgement among the emitted events, and every execution it has
  recorded as running is one this process is working on.
\<close>

theorem reconcile_repairs:
  assumes "runner_reachable env d" and "rp_generation resp = rn_generation (sf_state d)"
    and "\<not> dm_fenced (handleReconcileResponse env now resp d)"
    and "executionState k (sf_state (handleReconcileResponse env now resp d)) = Some st"
  shows "(terminal_command st \<longrightarrow>
       (\<exists>e \<in> set (emitted (sf_trace (handleReconcileResponse env now resp d))). terminal_ack_of e = Some k))
    \<and> (st = C_executing \<longrightarrow> k \<in> set (dm_inFlightCommands (handleReconcileResponse env now resp d)))"
proof -
  note r = handleReconcileResponse_repairs [OF reachable_ok [OF assms(1)] assms(2,3)]
  note inv = file_okD(1) [OF daemon_okD(1) [OF handleReconcileResponse_ok [OF reachable_ok [OF assms(1)]]]]
  from r assms(4) runner_invD(5) [OF inv, of env now resp] show ?thesis
    by (auto simp: unacked_def orphans_def executionState_def tombstones_def)
qed

text \<open>A runner that crashed during a fixture run, before it could record how the run ended.\<close>

definition enrolled_daemon :: daemon where
  "enrolled_daemon = new_daemon sample_options (open_file None ''r1'' [] 1 [])"

definition sample_trace :: "observation list" where
  "sample_trace = sf_trace (do_daemon_call sample_env
     (DC_command 1 (sample_command (CP_launch_fixture ''count:1:1''))) enrolled_daemon)"

definition crashed_daemon :: "nat \<Rightarrow> daemon" where
  "crashed_daemon n = new_daemon sample_options
     (open_file (map_option Current_file (disk (take n sample_trace))) ''r1'' [] 1 (take n sample_trace))"

lemma crashed_reachable:
  assumes "1 \<le> n" and "disk (take n sample_trace) \<noteq> None"
  shows "runner_reachable sample_env (crashed_daemon n)"
proof -
  obtain st where st: "disk (take n sample_trace) = Some st" using assms(2) by blast
  have "length (sf_trace enrolled_daemon) = 1" by code_simp
  with assms(1) have n: "length (sf_trace enrolled_daemon) \<le> n" by simp
  have e: "runner_reachable sample_env enrolled_daemon"
    unfolding enrolled_daemon_def by (rule runner_reachable.enroll)
  have "runner_reachable sample_env (new_daemon sample_options
      (open_file (Some (Current_file st)) ''r1'' [] 1 (take n sample_trace)))"
    unfolding sample_trace_def by (rule runner_reachable.crash [OF e _ n st [unfolded sample_trace_def]]) simp
  then show ?thesis by (simp add: crashed_daemon_def st)
qed

definition sample_response :: reconcile_response where
  "sample_response = \<lparr>rp_ack_event_seq = 0, rp_generation = 1, rp_capabilities = None, rp_resend_commands = []\<rparr>"

definition recovers_view :: "daemon \<Rightarrow> bool" where
  "recovers_view d \<longleftrightarrow> rp_generation sample_response = rn_generation (sf_state d)
     \<and> executionState ''c1'' (sf_state d) = Some C_executing
     \<and> (case handleReconcileResponse sample_env 9 sample_response d of
           d' \<Rightarrow> \<not> dm_fenced d' \<and> executionState ''c1'' (sf_state d') = Some C_failed)"

lemma crashed_view: "disk (take 5 sample_trace) \<noteq> None" "recovers_view (crashed_daemon 5)"
  by code_simp+

lemma crashed_recovers:
  "disk (take 5 sample_trace) \<noteq> None"
  "rp_generation sample_response = rn_generation (sf_state (crashed_daemon 5))"
  "\<not> dm_fenced (handleReconcileResponse sample_env 9 sample_response (crashed_daemon 5))"
  "executionState ''c1'' (sf_state (handleReconcileResponse sample_env 9 sample_response (crashed_daemon 5))) = Some C_failed"
  "executionState ''c1'' (sf_state (crashed_daemon 5)) = Some C_executing"
  using crashed_view unfolding recovers_view_def by blast+

theorem reconcile_repairs_witness:
  "executionState ''c1'' (sf_state (crashed_daemon 5)) = Some C_executing
   \<and> (\<exists>e \<in> set (emitted (sf_trace (handleReconcileResponse sample_env 9 sample_response (crashed_daemon 5)))).
        terminal_ack_of e = Some ''c1'')"
proof
  show "executionState ''c1'' (sf_state (crashed_daemon 5)) = Some C_executing" by (rule crashed_recovers)
  have "runner_reachable sample_env (crashed_daemon 5)" by (rule crashed_reachable [OF _ crashed_recovers(1)]) simp
  from reconcile_repairs [OF this crashed_recovers(2-4)]
  show "\<exists>e \<in> set (emitted (sf_trace (handleReconcileResponse sample_env 9 sample_response (crashed_daemon 5)))).
      terminal_ack_of e = Some ''c1''" by (simp add: TERMINAL_COMMAND_STATES_def)
qed

end
