(* ===== verification/Daemon_Frame.thy ===== *)
theory Daemon_Frame
  imports Daemon_Recovery
begin

section \<open>What the handlers of the daemon are made of\<close>

text \<open>
  The handlers act on the state file and on the socket through a few operations. A predicate that
  these keep is kept by every handler, except for the handlers that move the acknowledged sequence
  number, which have to be looked at one by one.
\<close>

locale daemon_primitives =
  fixes I :: "daemon \<Rightarrow> bool" and env :: daemon_env
  assumes record_I: "I d \<Longrightarrow> I (recordExecution k st d)"
    and buffer_I: "I d \<Longrightarrow> I (bufferEvent (emitted_event env now p meta d) (nextSeq d))"
    and ensure_I: "I d \<Longrightarrow> I (snd (ensureTerminalAck (ack_input now k st meta detail d) d))"
    and send_I: "I d \<Longrightarrow> I (sendBufferedEvents d)"
    and observe_I: "I d \<Longrightarrow> write_of ob = None \<Longrightarrow> sent_by ob = [] \<Longrightarrow> I (observe ob d)"
    and fields_I: "I (d\<lparr>dm_launchCommands := ks\<rparr>) = I d" "I (d\<lparr>dm_inFlightCommands := ks\<rparr>) = I d"
      "I (d\<lparr>dm_settledReported := b\<rparr>) = I d" "I (d\<lparr>dm_connected := b\<rparr>) = I d" "I (d\<lparr>dm_heartbeat := b\<rparr>) = I d"
      "I (d\<lparr>dm_stopped := b\<rparr>) = I d" "I (d\<lparr>dm_fenced := b\<rparr>) = I d" "I (d\<lparr>dm_executionPaused := b\<rparr>) = I d"
      "I (d\<lparr>dm_knowledgeTransportEnabled := b\<rparr>) = I d" "I (d\<lparr>dm_fixture := fr\<rparr>) = I d"
      "I (d\<lparr>dm_live := lg\<rparr>) = I d" "I (d\<lparr>dm_pending := ps\<rparr>) = I d"
begin

lemma emit_I: "I d \<Longrightarrow> I (emit env now p meta d)"
  by (simp add: emit_def send_I buffer_I)

lemma emit_all_I: "I d \<Longrightarrow> I (emit_all env now es d)"
  unfolding emit_all_def by (induction es arbitrary: d) (auto simp: emit_I)

lemma report_I: "I d \<Longrightarrow> I (reportRunSettled k st d)"
  by (simp add: reportRunSettled_def observe_I fields_I)

lemma terminalAck_I:
  assumes "I d"
  shows "I (terminalAck now k st meta detail d)"
proof -
  obtain r d' where e: "ensureTerminalAck (ack_input now k st meta detail d) d = (r, d')" by fastforce
  have "I d'" using ensure_I [OF assms, where now = now and k = k and st = st and meta = meta and detail = detail] e
    by simp
  then show ?thesis using assms e by (auto simp: terminalAck_def report_I send_I split: sum.split)
qed

lemma ack_I: "I d \<Longrightarrow> I (ack env now k st meta detail d)"
  by (simp add: ack_def terminalAck_I report_I emit_I)

lemma conclude_I: "I d \<Longrightarrow> I (conclude env now k st meta detail d)"
  by (simp add: conclude_def ack_I record_I)

lemma observe_live_I: "I d \<Longrightarrow> I (observe_live es d)"
  unfolding observe_live_def by (induction es arbitrary: d) (simp_all add: observe_I)

lemma on_fixture_I: "I d \<Longrightarrow> I (on_fixture env now f d)"
  by (simp add: on_fixture_def emit_all_I fields_I split: prod.split)

lemma cancel_fixtures_I: "I d \<Longrightarrow> I (cancel_fixtures env now d)"
  by (simp add: cancel_fixtures_def emit_all_I fields_I split: prod.split)

lemma stops_I:
  assumes "I d"
  shows "I (fenceInstallation env now reason d)" "I (emergencyStop env now d)" "I (daemon_stop env now d)"
    "I (snd (daemon_start d))" "I (startHeartbeat d)" "I (stopHeartbeat d)"
  using assms
  by (simp_all add: fenceInstallation_def emergencyStop_def daemon_stop_def daemon_start_def Let_def
      observe_live_I cancel_fixtures_I stopHeartbeat_def startHeartbeat_def fields_I)

lemma await_I: "I d \<Longrightarrow> I (await w d)"
  by (simp add: await_def fields_I)

lemma route_begin_I: "I d \<Longrightarrow> I (route_begin c kind r m d)"
  by (simp add: route_begin_def await_I observe_live_I split: prod.split)

lemma executing_I: "I d \<Longrightarrow> I (executing env now c d)"
  by (simp add: executing_def ack_I)

lemma perform_I: "I d \<Longrightarrow> I (perform env now c p d)"
  by (cases p) (auto simp: Let_def conclude_I emit_all_I fields_I observe_I executing_I await_I route_begin_I
      split: prod.split option.split)

lemma admit_I: "I d \<Longrightarrow> I (admit env now c d)"
  by (simp add: admit_def Let_def ack_I fields_I record_I)

lemma handleCommand_I:
  assumes "I d"
  shows "I (handleCommand env now c d)"
proof -
  have "I (register_launch c d)" using assms by (simp add: register_launch_def fields_I)
  then show ?thesis
    using assms by (auto simp: handleCommand_def Let_def stops_I(1) terminalAck_I ack_I conclude_I perform_I admit_I
        split: option.split)
qed

text \<open>What a reconciliation response makes the daemon do after it has taken over the acknowledged number.\<close>

lemma reconcile_rest_I:
  assumes "I d"
  shows "I (startHeartbeat (fold (handleCommand env now) cs
      (fold (\<lambda>k x. terminalAck now k C_failed (caused_by k) detail (recordExecution k C_failed x)) ks
        (fold (\<lambda>(k, st). terminalAck now k st (caused_by k) RECOVERED) ts d))))"
proof -
  define d1 where "d1 = fold (\<lambda>(k, st). terminalAck now k st (caused_by k) RECOVERED) ts d"
  have "I d1" unfolding d1_def using assms by (induction ts arbitrary: d) (auto simp: terminalAck_I)
  define d2 where "d2 = fold (\<lambda>k x. terminalAck now k C_failed (caused_by k) detail (recordExecution k C_failed x)) ks d1"
  have "I d2" unfolding d2_def using \<open>I d1\<close>
    by (induction ks arbitrary: d1) (simp_all add: terminalAck_I record_I)
  then have "I (fold (handleCommand env now) cs d2)"
    by (induction cs arbitrary: d2) (simp_all add: handleCommand_I)
  then show ?thesis unfolding d2_def d1_def by (simp add: stops_I)
qed

lemma settled_I: "I d \<Longrightarrow> I (settled w d)" "I d \<Longrightarrow> I (landed k d)"
  by (simp_all add: settled_def landed_def fields_I)

lemma settle_control_I: "I d \<Longrightarrow> I (settle_control env now c r st detail visible d)"
  by (simp add: settle_control_def Let_def conclude_I executing_I emit_I)

lemma continuations_I:
  assumes "I d"
  shows "I (finish_v2 env now c dc res d)" "I (finish_visual env now c v vres d)"
    "I (route_end env now c kind r cres thrown d)"
proof -
  show "I (finish_v2 env now c dc res d)" "I (finish_visual env now c v vres d)"
    using assms by (auto simp: finish_v2_def finish_visual_def Let_def conclude_I emit_I settled_I split: sum.split)
  have "I (route_fixture env now c kind r (settled w d))" for w
    using assms by (auto simp: route_fixture_def settle_control_I on_fixture_I settled_I split: control_kind.split)
  then show "I (route_end env now c kind r cres thrown d)"
    using assms by (auto simp: route_end_def Let_def settle_control_I settled_I split: control_result.split option.split)
qed

lemma timers_I: "I d \<Longrightarrow> I (heartbeat env now d)" "I d \<Longrightarrow> I (fixture_timer env now r d)"
  by (simp_all add: heartbeat_def fixture_timer_def emit_I on_fixture_I)

lemma sendReconcileRequest_I: "I d \<Longrightarrow> I (sendReconcileRequest d)"
  by (simp add: sendReconcileRequest_def observe_I)

end

text \<open>
  The calls in which the acknowledged number moves, and what they must keep; the rest of the handlers
  follows.
\<close>

definition take_over :: "reconcile_response \<Rightarrow> daemon \<Rightarrow> daemon" where
  "take_over resp d = sendBufferedEvents ((pruneAcked (rp_ack_event_seq resp)
      (d\<lparr>dm_serverAckSeq := rp_ack_event_seq resp, dm_knowledgeTransportEnabled :=
         (case rp_capabilities resp of None \<Rightarrow> False | Some cs \<Rightarrow> RC_knowledge_transport \<in> set cs)\<rparr>))
      \<lparr>dm_highestEventSeqSent := rp_ack_event_seq resp\<rparr>)"

lemma handleReconcileResponse_split:
  "handleReconcileResponse env now resp d =
     (if rp_generation resp \<noteq> rn_generation (sf_state d)
      then fenceInstallation env now ''runner reconciliation identity changed'' d
      else (let d2 = take_over resp d;
                d3 = fold (\<lambda>(k, st). terminalAck now k st (caused_by k) RECOVERED) (terminalExecutions (sf_state d2)) d2;
                d4 = fold (\<lambda>k x. terminalAck now k C_failed (caused_by k)
                       ''runner restarted; the execution process was lost before it reported a result''
                       (recordExecution k C_failed x)) (orphanedExecutingIds (dm_inFlightCommands d3) (sf_state d3)) d3
            in startHeartbeat (fold (handleCommand env now) (rp_resend_commands resp) d4)))"
  by (simp add: handleReconcileResponse_def take_over_def Let_def)

locale daemon_wide = daemon_primitives +
  fixes acked :: "int \<Rightarrow> bool"
  assumes ack_event_I: "I d \<Longrightarrow> acked s \<Longrightarrow> I (handleEventAcknowledgement s d)"
    and take_over_I: "I d \<Longrightarrow> acked (rp_ack_event_seq resp) \<Longrightarrow> I (take_over resp d)"
    and opens_I: "I d \<Longrightarrow> I (runner_socket_opens d)"
    and authenticated_I: "I d \<Longrightarrow> I (authenticated d)"
    and disconnected_I: "I d \<Longrightarrow> I (disconnected d)"
begin

lemma daemon_call_I:
  assumes "I d" and "\<And>s. c = DC_event_ack s \<Longrightarrow> acked s"
    and "\<And>now resp. c = DC_reconcile now resp \<Longrightarrow> acked (rp_ack_event_seq resp)"
  shows "I (do_daemon_call env c d)"
proof (cases c)
  case (DC_reconcile now resp)
  with assms(3) have a: "acked (rp_ack_event_seq resp)" by simp
  have "I (handleReconcileResponse env now resp d)"
    unfolding handleReconcileResponse_split Let_def
    using reconcile_rest_I [OF take_over_I [OF assms(1) a]] stops_I(1) [OF assms(1)] by simp
  with DC_reconcile show ?thesis by simp
qed (use assms(1,2) in \<open>simp_all add: ack_event_I opens_I authenticated_I disconnected_I handleCommand_I stops_I timers_I
      continuations_I v2_emits_def emit_I fields_I\<close>)

end

end
