(* ===== verification/Retention.thy ===== *)
theory Retention
  imports Daemon_Frame
begin

section \<open>What a runner retains until it is acknowledged\<close>

text \<open>
  Three more invariants of the daemon through every handler: an event stays in the buffer, in memory
  and on disk at any point of a handler, until a number at least as high has been acknowledged; the
  events in flight never exceed the send window; and a sequence number that was skipped by a crash is
  never used again.
\<close>

subsection \<open>Cuts of a trace\<close>

definition all_cuts :: "('a list \<Rightarrow> bool) \<Rightarrow> 'a list \<Rightarrow> bool" where
  "all_cuts P tr \<longleftrightarrow> (\<forall>n. P (take n tr))"

lemma all_cuts_snoc: "all_cuts P (tr @ [ob]) \<longleftrightarrow> all_cuts P tr \<and> P (tr @ [ob])"
proof
  assume all: "all_cuts P (tr @ [ob])"
  have "P (take n tr)" for n
  proof -
    have "take n tr = take (min n (length tr)) (tr @ [ob])" by (simp add: min_def)
    with all show ?thesis unfolding all_cuts_def by metis
  qed
  moreover have "P (take (length (tr @ [ob])) (tr @ [ob]))" using all unfolding all_cuts_def by blast
  ultimately show "all_cuts P tr \<and> P (tr @ [ob])" by (simp add: all_cuts_def)
next
  assume l: "all_cuts P tr \<and> P (tr @ [ob])"
  show "all_cuts P (tr @ [ob])" unfolding all_cuts_def
  proof
    fix n
    from l show "P (take n (tr @ [ob]))" by (cases "n \<le> length tr") (simp_all add: all_cuts_def)
  qed
qed

lemma all_cuts_now: "all_cuts P tr \<Longrightarrow> P tr"
  unfolding all_cuts_def by (metis order_refl take_all)

lemma all_cuts_take: "all_cuts P tr \<Longrightarrow> all_cuts P (take n tr)"
  by (simp add: all_cuts_def)

subsection \<open>Unacknowledged events are kept\<close>

definition held :: "int \<Rightarrow> runner_persisted \<Rightarrow> event_envelope list \<Rightarrow> bool" where
  "held w st h \<longleftrightarrow> (\<forall>e \<in> set h. e \<in> set (rn_buffer st) \<or> ev_event_seq e \<le> w)"

definition cut_held :: "int \<Rightarrow> observation list \<Rightarrow> bool" where
  "cut_held w tr \<longleftrightarrow> (case disk tr of None \<Rightarrow> True | Some st \<Rightarrow> held w st (emitted tr))"

definition retains :: "int \<Rightarrow> daemon \<Rightarrow> bool" where
  "retains w d \<longleftrightarrow> 0 \<le> w \<and> dm_serverAckSeq d \<le> w \<and> held w (sf_state d) (emitted (sf_trace d))
     \<and> all_cuts (cut_held w) (sf_trace d)"

lemma retains_persist:
  assumes "retains w d" and "held w st (emitted (sf_trace d) @ (case ev of None \<Rightarrow> [] | Some e \<Rightarrow> [e]))"
  shows "retains w (persist ev (d\<lparr>sf_state := st\<rparr>))"
proof -
  have ev: "event_of (O_write st ev) = (case ev of None \<Rightarrow> [] | Some e \<Rightarrow> [e])" by (cases ev) simp_all
  have "cut_held w (sf_trace d @ [O_write st ev])" using assms(2) by (simp add: cut_held_def ev)
  with assms show ?thesis by (simp add: retains_def persist_def observe_def all_cuts_snoc ev)
qed

lemma retains_observe:
  assumes "retains w d" "write_of ob = None"
  shows "retains w (observe ob d)"
proof -
  have e: "event_of ob = []" using assms(2) by (cases ob) auto
  have "cut_held w (sf_trace d)" using assms(1) by (simp add: retains_def all_cuts_now)
  then have "cut_held w (sf_trace d @ [ob])" using assms(2) e by (simp add: cut_held_def split: option.splits)
  with assms e show ?thesis by (simp add: retains_def observe_def all_cuts_snoc)
qed

lemma retains_fields [simp]:
  "retains w (d\<lparr>dm_launchCommands := ks\<rparr>) = retains w d" "retains w (d\<lparr>dm_inFlightCommands := ks\<rparr>) = retains w d"
  "retains w (d\<lparr>dm_settledReported := b\<rparr>) = retains w d" "retains w (d\<lparr>dm_connected := b\<rparr>) = retains w d"
  "retains w (d\<lparr>dm_heartbeat := b\<rparr>) = retains w d" "retains w (d\<lparr>dm_stopped := b\<rparr>) = retains w d"
  "retains w (d\<lparr>dm_fenced := b\<rparr>) = retains w d" "retains w (d\<lparr>dm_executionPaused := b\<rparr>) = retains w d"
  "retains w (d\<lparr>dm_knowledgeTransportEnabled := b\<rparr>) = retains w d" "retains w (d\<lparr>dm_fixture := fr\<rparr>) = retains w d"
  "retains w (d\<lparr>dm_live := lg\<rparr>) = retains w d" "retains w (d\<lparr>dm_pending := ps\<rparr>) = retains w d"
  "retains w (d\<lparr>dm_highestEventSeqSent := s\<rparr>) = retains w d"
  by (simp_all add: retains_def)

lemma retains_held: "retains w d \<Longrightarrow> held w (sf_state d) (emitted (sf_trace d))"
  by (simp add: retains_def)

lemma retains_send: "retains w d \<Longrightarrow> retains w (sendBufferedEvents d)"
proof -
  have "retains w (send_events es d)" if "retains w d" for es d
    using that by (induction es arbitrary: d) (simp_all add: retains_observe)
  then show "retains w d \<Longrightarrow> retains w (sendBufferedEvents d)" by (simp add: sendBufferedEvents_def Let_def)
qed

lemma retains_prune:
  assumes "retains w d" "a \<le> w"
  shows "retains w (pruneAcked a d)"
proof -
  have h: "held w ((sf_state d)\<lparr>rn_buffer := unackedSince a (sf_state d)\<rparr>) (emitted (sf_trace d))"
    using retains_held [OF assms(1)] assms(2) by (auto simp: held_def unackedSince_def)
  then have "retains w (persist None (d\<lparr>sf_state := (sf_state d)\<lparr>rn_buffer := unackedSince a (sf_state d)\<rparr>\<rparr>))"
    by (intro retains_persist [OF assms(1)]) simp
  moreover have "retains w (d\<lparr>sf_state := (sf_state d)\<lparr>rn_buffer := unackedSince a (sf_state d)\<rparr>\<rparr>)"
    using assms(1) h by (simp add: retains_def)
  ultimately show ?thesis by (simp add: pruneAcked_def Let_def)
qed

lemma retains_ack_field: "retains w d \<Longrightarrow> a \<le> w \<Longrightarrow> retains w (d\<lparr>dm_serverAckSeq := a\<rparr>)"
  by (simp add: retains_def)

interpretation kept: daemon_wide "retains w" env "\<lambda>s. s \<le> w" for w env
proof
  fix d k st assume d: "retains w d"
  have "held w ((sf_state d)\<lparr>rn_executed := x\<rparr>) (emitted (sf_trace d))" for x
    using retains_held [OF d] by (simp add: held_def)
  then show "retains w (recordExecution k st d)"
    unfolding recordExecution_def by (intro retains_persist [OF d]) simp
next
  fix now p meta d assume d: "retains w d"
  have n: "retains w (nextSeq d)"
    unfolding nextSeq_def using retains_held [OF d] by (intro retains_persist [OF d]) (simp add: held_def)
  show "retains w (bufferEvent (emitted_event env now p meta d) (nextSeq d))"
    unfolding bufferEvent_def using retains_held [OF n] by (intro retains_persist [OF n]) (auto simp: held_def)
next
  fix now k st meta detail d assume d: "retains w d"
  show "retains w (snd (ensureTerminalAck (ack_input now k st meta detail d) d))"
    using retains_held [OF d]
    by (auto simp: ensureTerminalAck_def Let_def d held_def intro!: retains_persist [OF d] split: option.split)
next
  fix s d assume d: "retains w d" "s \<le> w"
  then have "max (dm_serverAckSeq d) s \<le> w" by (simp add: retains_def)
  with d show "retains w (handleEventAcknowledgement s d)"
    by (simp add: handleEventAcknowledgement_def Let_def retains_send retains_prune retains_ack_field)
next
  fix resp :: reconcile_response and d assume d: "retains w d" and a: "rp_ack_event_seq resp \<le> w"
  have "retains w (d\<lparr>dm_serverAckSeq := rp_ack_event_seq resp, dm_knowledgeTransportEnabled := b\<rparr>)" for b
    using retains_ack_field [OF d a] by simp
  then show "retains w (take_over resp d)" unfolding take_over_def using a by (simp add: retains_send retains_prune)
next
  fix d assume d: "retains w d"
  then have "retains w (d\<lparr>dm_connected := True, dm_serverAckSeq := 0, dm_highestEventSeqSent := 0\<rparr>)"
    by (simp add: retains_def)
  moreover have "retains w (d\<lparr>dm_connected := True\<rparr>)" using d by simp
  ultimately show "retains w (authenticated d)"
    using d by (simp add: authenticated_def sendReconcileRequest_def retains_observe)
  show "retains w (runner_socket_opens d)" using d by (simp add: runner_socket_opens_def)
  show "retains w (disconnected d)" using d by (simp add: disconnected_def stopHeartbeat_def)
qed (simp_all add: retains_send retains_observe)

lemma retains_mono:
  assumes "retains w d" "w \<le> w'"
  shows "retains w' d"
proof -
  have h: "held w st h \<Longrightarrow> held w' st h" for st h using assms(2) by (force simp: held_def)
  then have "cut_held w tr \<Longrightarrow> cut_held w' tr" for tr by (auto simp: cut_held_def split: option.split)
  with assms h show ?thesis by (auto simp: retains_def all_cuts_def)
qed

lemma retains_reopened:
  assumes "retains w d" "disk (take n (sf_trace d)) = Some st"
  shows "retains w (new_daemon opts (open_file (Some (Current_file st)) r key g (take n (sf_trace d))))"
proof -
  have f: "open_file (Some (Current_file st)) r key g (take n (sf_trace d)) = \<lparr>sf_state = st, sf_trace = take n (sf_trace d)\<rparr>"
    by (simp add: open_file_def opened_def)
  have "cut_held w (take n (sf_trace d))" using assms(1) by (simp add: retains_def all_cuts_def)
  with assms show ?thesis
    by (auto simp: f retains_def all_cuts_take cut_held_def new_daemon_def state_file.defs daemon.defs)
qed

subsection \<open>The send window\<close>

definition in_flight :: "daemon \<Rightarrow> event_envelope list" where
  "in_flight d = filter (\<lambda>e. dm_serverAckSeq d < ev_event_seq e \<and> ev_event_seq e \<le> dm_highestEventSeqSent d)
     (rn_buffer (sf_state d))"

definition window :: "daemon \<Rightarrow> bool" where
  "window d \<longleftrightarrow> in_order (rn_buffer (sf_state d)) \<and> (\<forall>e \<in> set (rn_buffer (sf_state d)). ev_event_seq e \<le> rn_seq (sf_state d))
     \<and> int (length (in_flight d)) \<le> RUNNER_EVENT_SEND_WINDOW
     \<and> (dm_highestEventSeqSent d \<le> dm_serverAckSeq d \<or> dm_highestEventSeqSent d \<le> rn_seq (sf_state d))"

lemma windowD:
  assumes "window d"
  shows "in_order (rn_buffer (sf_state d))" "\<And>e. e \<in> set (rn_buffer (sf_state d)) \<Longrightarrow> ev_event_seq e \<le> rn_seq (sf_state d)"
    "int (length (in_flight d)) \<le> RUNNER_EVENT_SEND_WINDOW"
    "dm_highestEventSeqSent d \<le> dm_serverAckSeq d \<or> dm_highestEventSeqSent d \<le> rn_seq (sf_state d)"
  using assms by (auto simp: window_def)

lemma window_same:
  assumes "window d" "rn_buffer (sf_state d') = rn_buffer (sf_state d)" "rn_seq (sf_state d') = rn_seq (sf_state d)"
    "dm_serverAckSeq d' = dm_serverAckSeq d" "dm_highestEventSeqSent d' = dm_highestEventSeqSent d"
  shows "window d'"
  using assms by (simp add: window_def in_flight_def)

lemma window_append:
  assumes "window d" "rn_buffer (sf_state d') = rn_buffer (sf_state d) @ [e]" "ev_event_seq e = rn_seq (sf_state d) + 1"
    "rn_seq (sf_state d') = rn_seq (sf_state d) + 1"
    "dm_serverAckSeq d' = dm_serverAckSeq d" "dm_highestEventSeqSent d' = dm_highestEventSeqSent d"
  shows "window d'"
proof -
  have "in_flight d' = in_flight d" using assms(2,3,5,6) windowD(4) [OF assms(1)] by (auto simp: in_flight_def)
  moreover have "in_order (rn_buffer (sf_state d'))"
    unfolding assms(2) using windowD(2) [OF assms(1)] assms(3) by (intro in_order_snoc windowD(1) [OF assms(1)]) force
  moreover have "ev_event_seq x \<le> rn_seq (sf_state d')" if "x \<in> set (rn_buffer (sf_state d'))" for x
    using that windowD(2) [OF assms(1), of x] assms(2-4) by auto
  ultimately show ?thesis using windowD(3,4) [OF assms(1)] assms(4-6) by (auto simp: window_def)
qed

text \<open>Events with distinct numbers of an interval are not more than its length.\<close>

lemma interval_count:
  assumes "in_order es" "\<And>e. e \<in> set es \<Longrightarrow> a < ev_event_seq e \<and> ev_event_seq e \<le> b"
  shows "int (length es) \<le> max 0 (b - a)"
proof -
  have "distinct (map ev_event_seq es)" using assms(1) by (induction es) auto
  then have "length es = card (ev_event_seq ` set es)" using distinct_card by fastforce
  also have "\<dots> \<le> card {a<..b}" using assms(2) by (intro card_mono) auto
  finally show ?thesis by simp
qed

lemma in_order_filter: "in_order es \<Longrightarrow> in_order (filter P es)"
  by (induction es) auto

lemma sent_prefix:
  assumes "in_order xs" "take n xs \<noteq> []"
  shows "filter (\<lambda>e. ev_event_seq e \<le> ev_event_seq (last (take n xs))) xs = take n xs"
proof -
  have o: "in_order (take n xs @ drop n xs)" using assms(1) by simp
  have below: "filter (\<lambda>e. ev_event_seq e \<le> ev_event_seq (last (take n xs))) (take n xs) = take n xs"
  proof (intro filter_True ballI)
    fix e assume e: "e \<in> set (take n xs)"
    have "in_order (butlast (take n xs) @ [last (take n xs)])" using o assms(2) by (simp add: sorted_wrt_append)
    moreover have "e \<in> set (butlast (take n xs) @ [last (take n xs)])" using e assms(2) by simp
    ultimately show "ev_event_seq e \<le> ev_event_seq (last (take n xs))" by (force simp: sorted_wrt_append)
  qed
  have above: "filter (\<lambda>e. ev_event_seq e \<le> ev_event_seq (last (take n xs))) (drop n xs) = []"
    using o [unfolded sorted_wrt_append] last_in_set [OF assms(2)] unfolding filter_empty_conv by (meson leD)
  have "filter P (take n xs @ drop n xs) = filter P (take n xs) @ filter P (drop n xs)" for P by (rule filter_append)
  with below above show ?thesis by simp
qed

lemma send_events_effect:
  assumes "dm_connected d"
  shows "sf_state (send_events es d) = sf_state d \<and> dm_serverAckSeq (send_events es d) = dm_serverAckSeq d
    \<and> dm_highestEventSeqSent (send_events es d) = (if es = [] then dm_highestEventSeqSent d else ev_event_seq (last es))"
  using assms by (induction es arbitrary: d) (auto simp: observe_def)

lemma length_filter_split:
  "(\<And>x. P x \<Longrightarrow> Q x \<or> R x) \<Longrightarrow> length (filter P xs) \<le> length (filter Q xs) + length (filter R xs)"
  by (induction xs) (auto simp: le_Suc_eq)

lemma window_send:
  assumes w: "window d"
  shows "window (sendBufferedEvents d)"
proof -
  let ?a = "dm_serverAckSeq d" and ?h = "dm_highestEventSeqSent d" and ?b = "rn_buffer (sf_state d)"
  define room where "room = nat (max 0 (RUNNER_EVENT_SEND_WINDOW - max 0 (?h - ?a)))"
  define xs where "xs = filter (\<lambda>e. ?h < ev_event_seq e) (unackedSince ?a (sf_state d))"
  show ?thesis
  proof (cases "\<not> dm_connected d \<or> dm_fenced d \<or> room = 0 \<or> take room xs = []")
    case True
    then have "sendBufferedEvents d = d"
      unfolding sendBufferedEvents_def Let_def room_def [symmetric] xs_def [symmetric] by (cases "room = 0") auto
    then show ?thesis using w by simp
  next
    case False
    define d' where "d' = send_events (take room xs) d"
    have s: "sendBufferedEvents d = d'"
      using False by (auto simp: sendBufferedEvents_def Let_def room_def xs_def d'_def)
    have e: "sf_state d' = sf_state d" "dm_serverAckSeq d' = ?a"
      "dm_highestEventSeqSent d' = ev_event_seq (last (take room xs))"
      using send_events_effect [of d "take room xs"] False by (auto simp: d'_def)
    have xs: "in_order xs" unfolding xs_def unackedSince_def by (intro in_order_filter windowD(1) [OF w])
    let ?l = "ev_event_seq (last (take room xs))"
    have "length (in_flight d') \<le> length (in_flight d) + length (filter (\<lambda>e. ?a < ev_event_seq e \<and> ?h < ev_event_seq e \<and> ev_event_seq e \<le> ?l) ?b)"
      unfolding in_flight_def e by (rule length_filter_split) auto
    also have "filter (\<lambda>e. ?a < ev_event_seq e \<and> ?h < ev_event_seq e \<and> ev_event_seq e \<le> ?l) ?b
        = filter (\<lambda>e. ev_event_seq e \<le> ?l) xs"
      by (auto simp: xs_def unackedSince_def intro!: filter_cong)
    also have "\<dots> = take room xs" using sent_prefix [OF xs] False by blast
    finally have "int (length (in_flight d')) \<le> int (length (in_flight d)) + int room" by auto
    moreover have "int (length (in_flight d)) \<le> max 0 (?h - ?a)"
      by (rule interval_count) (auto simp: in_flight_def intro!: in_order_filter windowD(1) [OF w])
    ultimately have "int (length (in_flight d')) \<le> RUNNER_EVENT_SEND_WINDOW" using False by (auto simp: room_def)
    moreover have "?l \<le> rn_seq (sf_state d)"
    proof -
      have "last (take room xs) \<in> set xs" using False last_in_set in_set_takeD by metis
      then have "last (take room xs) \<in> set ?b" by (simp add: xs_def unackedSince_def)
      then show ?thesis by (rule windowD(2) [OF w])
    qed
    ultimately show ?thesis using windowD(1,2) [OF w] by (simp add: s window_def e)
  qed
qed

lemma window_prune:
  assumes w: "window d" and a: "dm_serverAckSeq d \<le> a \<or> dm_highestEventSeqSent d' \<le> a"
    and d': "sf_state d' = (sf_state d)\<lparr>rn_buffer := unackedSince a (sf_state d)\<rparr>" "dm_serverAckSeq d' = a"
      "dm_highestEventSeqSent d' \<le> max (dm_highestEventSeqSent d) a"
  shows "window d'"
proof -
  have "length (in_flight d') \<le> length (in_flight d)"
  proof (cases "dm_highestEventSeqSent d' \<le> a")
    case False
    then have "dm_serverAckSeq d \<le> a" using a by blast
    have "in_flight d' = filter (\<lambda>e. a < ev_event_seq e \<and> ev_event_seq e \<le> dm_highestEventSeqSent d') (in_flight d)"
      unfolding in_flight_def d' using False \<open>dm_serverAckSeq d \<le> a\<close> d'(3)
      by (auto simp: unackedSince_def intro!: filter_cong)
    then show ?thesis by simp
  qed (auto simp: in_flight_def d' unackedSince_def)
  moreover have "dm_highestEventSeqSent d' \<le> a \<or> dm_highestEventSeqSent d' \<le> rn_seq (sf_state d)"
    using windowD(4) [OF w] a d'(3) by linarith
  ultimately show ?thesis
    using windowD(1-3) [OF w] by (auto simp: window_def d' unackedSince_def in_order_filter)
qed

lemma window_ensure:
  assumes "window d"
  shows "window (snd (ensureTerminalAck i d))"
proof (cases "List.find (\<lambda>e. terminal_ack_of e = Some (ta_command_id i)) (rn_buffer (sf_state d))")
  case None
  show ?thesis
  proof (cases "terminal_command (ta_state i) \<and> jget (rn_terminal_acks (sf_state d)) (ta_command_id i) = None")
    case True
    show ?thesis
      by (rule window_append [OF assms, where e = "ack_event (rn_seq (sf_state d) + 1) i"])
        (use None True in \<open>simp_all add: ensureTerminalAck_def Let_def persist_def observe_def ack_event_def\<close>)
  qed (use assms None in \<open>auto simp: ensureTerminalAck_def Let_def\<close>)
next
  case (Some e)
  show ?thesis
    by (rule window_same [OF assms]) (use Some in \<open>simp_all add: ensureTerminalAck_def Let_def persist_def observe_def\<close>)
qed

lemma pruneAcked_fields:
  "dm_serverAckSeq (pruneAcked a d) = dm_serverAckSeq d" "dm_highestEventSeqSent (pruneAcked a d) = dm_highestEventSeqSent d"
  by (simp_all add: pruneAcked_def Let_def persist_def observe_def)

interpretation windowed: daemon_wide window env "\<lambda>_. True" for env
proof
  fix d k st assume d: "window d"
  show "window (recordExecution k st d)"
    by (rule window_same [OF d]) (simp_all add: recordExecution_def persist_def observe_def)
next
  fix now p meta d assume d: "window d"
  show "window (bufferEvent (emitted_event env now p meta d) (nextSeq d))"
    by (rule window_append [OF d, where e = "emitted_event env now p meta d"])
      (simp_all add: bufferEvent_def nextSeq_def persist_def observe_def emitted_event_def)
next
  fix ob d assume d: "window d"
  show "window (observe ob d)" by (rule window_same [OF d]) (simp_all add: observe_def)
next
  fix s d assume d: "window d"
  define a where "a = max (dm_serverAckSeq d) s"
  define d1 where "d1 = pruneAcked a (d\<lparr>dm_serverAckSeq := a\<rparr>)"
  have "window (d1\<lparr>dm_highestEventSeqSent := max (dm_highestEventSeqSent d1) a\<rparr>)"
    by (rule window_prune [OF d, where a = a]) (simp_all add: d1_def pruneAcked_state pruneAcked_fields a_def unackedSince_def)
  then show "window (handleEventAcknowledgement s d)"
    by (simp add: handleEventAcknowledgement_def Let_def window_send flip: a_def d1_def)
next
  fix resp :: reconcile_response and d assume d: "window d"
  define a where "a = rp_ack_event_seq resp"
  define b where "b = (case rp_capabilities resp of None \<Rightarrow> False | Some cs \<Rightarrow> RC_knowledge_transport \<in> set cs)"
  have "window ((pruneAcked a (d\<lparr>dm_serverAckSeq := a, dm_knowledgeTransportEnabled := b\<rparr>))\<lparr>dm_highestEventSeqSent := a\<rparr>)"
    by (rule window_prune [OF d, where a = a]) (simp_all add: pruneAcked_state pruneAcked_fields unackedSince_def)
  then show "window (take_over resp d)" by (simp add: take_over_def window_send flip: a_def b_def)
next
  fix d assume d: "window d"
  have "window (d\<lparr>dm_connected := True, dm_serverAckSeq := 0, dm_highestEventSeqSent := 0\<rparr>)" "window (d\<lparr>dm_connected := True\<rparr>)"
    using d by (simp_all add: window_def in_flight_def RUNNER_EVENT_SEND_WINDOW_def)
  moreover have "window (observe ob x)" if "window x" for ob x
    by (rule window_same [OF that]) (simp_all add: observe_def)
  ultimately show "window (authenticated d)" using d by (simp add: authenticated_def sendReconcileRequest_def)
  show "window (runner_socket_opens d)"
    using d by (simp add: runner_socket_opens_def window_def in_flight_def RUNNER_EVENT_SEND_WINDOW_def)
  show "window (disconnected d)"
    using d by (simp add: disconnected_def stopHeartbeat_def window_def in_flight_def RUNNER_EVENT_SEND_WINDOW_def)
qed (simp_all add: window_send window_ensure, simp_all add: window_def in_flight_def)

lemma window_new:
  assumes "runner_inv (sf_state f) h"
  shows "window (new_daemon opts f)"
proof -
  obtain k where b: "rn_buffer (sf_state f) = filter (\<lambda>e. k < ev_event_seq e) h"
    using runner_invD(4) [OF assms] by (auto simp: buffers_tail_def)
  have "ev_event_seq e \<le> rn_seq (sf_state f)" if "e \<in> set h" for e
    using runner_invD(2) [OF assms that] by (simp add: own_event_def)
  then show ?thesis
    using b in_order_filter [OF runner_invD(1) [OF assms]]
    by (auto simp: window_def in_flight_def RUNNER_EVENT_SEND_WINDOW_def new_daemon_def state_file.defs daemon.defs)
qed

text \<open>
  C34: The runner never floods the relay: in every reachable process, at most 32 of the events it has
  sent on the current connection await their acknowledgement.
\<close>

theorem send_window_bounded:
  assumes "runner_reachable env d"
  shows "length (filter (\<lambda>e. dm_serverAckSeq d < ev_event_seq e \<and> ev_event_seq e \<le> dm_highestEventSeqSent d)
           (rn_buffer (sf_state d))) \<le> 32"
proof -
  have "window d" using assms
  proof (induction rule: runner_reachable.induct)
    case (enroll opts r key g)
    show ?case by (rule window_new [OF file_okD(1) [OF fresh_ok]])
  next
    case (call d c)
    then show ?case by (simp add: windowed.daemon_call_I)
  next
    case (crash d c n st opts r key g)
    then have "daemon_ok (do_daemon_call env c d)" by (intro daemon_object.call_keeps reachable_ok)
    then have "trace_ok (take n (sf_trace (do_daemon_call env c d)))"
      by (simp add: daemon_ok_def file_ok_def disk_cut_ok)
    then show ?case by (rule window_new [OF file_okD(1) [OF reopen_ok(1) [OF _ crash.hyps(4)]]])
  qed
  then show ?thesis by (simp add: window_def in_flight_def RUNNER_EVENT_SEND_WINDOW_def)
qed

definition connected_daemon :: daemon where
  "connected_daemon = do_daemon_call sample_env (DC_command 1 (sample_command (CP_launch_fixture ''leak:k'')))
     (do_daemon_call sample_env DC_authenticated enrolled_daemon)"

lemma connected_reachable: "runner_reachable sample_env connected_daemon"
  unfolding connected_daemon_def enrolled_daemon_def
  by (intro runner_reachable.call runner_reachable.enroll) simp_all

theorem send_window_bounded_witness:
  "length (filter (\<lambda>e. dm_serverAckSeq connected_daemon < ev_event_seq e
       \<and> ev_event_seq e \<le> dm_highestEventSeqSent connected_daemon) (rn_buffer (sf_state connected_daemon))) \<le> 32
   \<and> map ev_event_seq (sent (sf_trace connected_daemon)) = [1, 2, 3, 4, 5, 6]"
  using send_window_bounded [OF connected_reachable] by (rule conjI) code_simp

subsection \<open>A skipped sequence number\<close>

text \<open>
  \<^verbatim>\<open>emit\<close> writes the file twice: \<^verbatim>\<open>nextSeq\<close> stores the incremented counter before \<^verbatim>\<open>bufferEvent\<close> stores
  the event. A crash between the two writes skips a number, and no later event takes it.
\<close>

definition cut_skips :: "nat \<Rightarrow> int \<Rightarrow> observation list \<Rightarrow> bool" where
  "cut_skips n w tr \<longleftrightarrow> n \<le> length tr \<longrightarrow> (case disk tr of None \<Rightarrow> True | Some st \<Rightarrow> w < rn_seq st)"

definition skips :: "nat \<Rightarrow> int \<Rightarrow> daemon \<Rightarrow> bool" where
  "skips n w d \<longleftrightarrow> n \<le> length (sf_trace d) \<and> w < rn_seq (sf_state d) \<and> w + 1 \<notin> ev_event_seq ` set (emitted (sf_trace d))
     \<and> all_cuts (cut_skips n w) (sf_trace d)"

lemma skips_persist:
  assumes "skips n w d" "w < rn_seq st" "\<And>e. ev = Some e \<Longrightarrow> ev_event_seq e \<noteq> w + 1"
  shows "skips n w (persist ev (d\<lparr>sf_state := st\<rparr>))"
proof -
  have ev: "event_of (O_write st ev) = (case ev of None \<Rightarrow> [] | Some e \<Rightarrow> [e])" by (cases ev) simp_all
  have "cut_skips n w (sf_trace d @ [O_write st ev])" using assms(2) by (simp add: cut_skips_def)
  with assms show ?thesis by (auto simp: skips_def persist_def observe_def all_cuts_snoc ev split: option.splits)
qed

lemma skips_observe:
  assumes "skips n w d" "write_of ob = None"
  shows "skips n w (observe ob d)"
proof -
  have e: "event_of ob = []" using assms(2) by (cases ob) auto
  have "cut_skips n w (sf_trace d)" using assms(1) by (simp add: skips_def all_cuts_now)
  then have "cut_skips n w (sf_trace d @ [ob])" using assms by (auto simp: cut_skips_def skips_def split: option.splits)
  with assms e show ?thesis by (simp add: skips_def observe_def all_cuts_snoc)
qed

lemma skips_fields [simp]:
  "skips n w (d\<lparr>dm_highestEventSeqSent := s\<rparr>) = skips n w d" "skips n w (d\<lparr>dm_serverAckSeq := s\<rparr>) = skips n w d"
  "skips n w (d\<lparr>dm_connected := b\<rparr>) = skips n w d" "skips n w (d\<lparr>dm_knowledgeTransportEnabled := b\<rparr>) = skips n w d"
  "skips n w (d\<lparr>dm_heartbeat := b\<rparr>) = skips n w d"
  by (simp_all add: skips_def)

lemma skips_send: "skips n w d \<Longrightarrow> skips n w (sendBufferedEvents d)"
proof -
  have "skips n w (send_events es d)" if "skips n w d" for es d
    using that by (induction es arbitrary: d) (simp_all add: skips_observe)
  then show "skips n w d \<Longrightarrow> skips n w (sendBufferedEvents d)" by (simp add: sendBufferedEvents_def Let_def)
qed

lemma skips_prune:
  assumes "skips n w d"
  shows "skips n w (pruneAcked a d)"
proof -
  have "skips n w (d\<lparr>sf_state := (sf_state d)\<lparr>rn_buffer := b\<rparr>\<rparr>)" for b using assms by (simp add: skips_def)
  moreover have "skips n w (persist None (d\<lparr>sf_state := (sf_state d)\<lparr>rn_buffer := b\<rparr>\<rparr>))" for b
    using assms by (intro skips_persist) (simp_all add: skips_def)
  ultimately show ?thesis by (simp add: pruneAcked_def Let_def)
qed

interpretation skipped: daemon_wide "skips n w" env "\<lambda>_. True" for n w env
proof
  fix d k st assume d: "skips n w d"
  show "skips n w (recordExecution k st d)"
    unfolding recordExecution_def using d by (intro skips_persist) (simp_all add: skips_def)
next
  fix now p meta d assume d: "skips n w d"
  have s: "skips n w (nextSeq d)" unfolding nextSeq_def using d by (intro skips_persist) (simp_all add: skips_def)
  show "skips n w (bufferEvent (emitted_event env now p meta d) (nextSeq d))"
    unfolding bufferEvent_def
  proof (rule skips_persist [OF s])
    fix e assume "Some (emitted_event env now p meta d) = Some e"
    then have "ev_event_seq e = rn_seq (sf_state d) + 1" by (auto simp: emitted_event_def)
    with d show "ev_event_seq e \<noteq> w + 1" by (simp add: skips_def)
  qed (use s in \<open>simp add: skips_def\<close>)
next
  fix now k st meta detail d assume d: "skips n w d"
  then show "skips n w (snd (ensureTerminalAck (ack_input now k st meta detail d) d))"
    by (auto simp: ensureTerminalAck_def Let_def ack_event_def intro!: skips_persist [OF d] split: option.split)
      (simp_all add: skips_def)
next
  fix resp :: reconcile_response and d assume d: "skips n w d"
  show "skips n w (take_over resp d)" using d by (simp add: take_over_def skips_send skips_prune)
qed (simp_all add: skips_send skips_observe handleEventAcknowledgement_def Let_def skips_prune authenticated_def
    runner_socket_opens_def sendReconcileRequest_def disconnected_def stopHeartbeat_def, simp_all add: skips_def)

end
