(* ===== verification/Delivery.thy ===== *)
theory Delivery
  imports Relay_Server Retention
begin

section \<open>From the runner to the relay\<close>

text \<open>
  The runner and the relay server together. The network between them may lose, repeat and reorder
  frames; both sides may be disconnected and reconnected, and the runner may crash at any point of a
  handler. The event log of the relay is nevertheless a prefix of the events the runner has emitted,
  and an event that is not in the log is still in the buffer of the runner.
\<close>

subsection \<open>What the calls of the server leave alone\<close>

lemma connection_simps [simp]:
  "connection s (on_connection sock f sv) = (if s = sock then f (connection sock sv) else connection s sv)"
  "connection s (on_stores g sv) = connection s sv"
  "connection s (sendFrame sock fr sv) = connection s sv"
  "connection s (close_socket sock sv) = connection s sv"
  "connection s (sv\<lparr>sv_stores := r\<rparr>) = connection s sv"
  "connection s (sv\<lparr>sv_runnerSockets := m\<rparr>) = connection s sv"
  "connection s (sv\<lparr>sv_reconciledRunners := m'\<rparr>) = connection s sv"
  by (simp_all add: connection_def on_connection_def on_stores_def sendFrame_def close_socket_def)

lemma stores_simps [simp]:
  "sv_stores (on_connection sock f sv) = sv_stores sv" "sv_stores (on_stores g sv) = g (sv_stores sv)"
  "sv_stores (sendFrame sock fr sv) = sv_stores sv" "sv_stores (close_socket sock sv) = sv_stores sv"
  by (simp_all add: on_connection_def on_stores_def sendFrame_def close_socket_def)

lemma sent_simps [simp]:
  "sv_sent (on_connection sock f sv) = sv_sent sv" "sv_sent (on_stores g sv) = sv_sent sv"
  "sv_sent (sendFrame sock fr sv) = sv_sent sv @ [(sock, fr)]" "sv_sent (close_socket sock sv) = sv_sent sv"
  by (simp_all add: on_connection_def on_stores_def sendFrame_def close_socket_def)

lemma calls_keep_events [simp]:
  "event_view (audit a b c t r) = event_view r"
  "event_view (snd (auditRateLimited a b c t t' r)) = event_view r"
  "event_view (markSeen k t r) = event_view r"
  "event_view (snd (setCommandState k s t r)) = event_view r"
  "event_view (snd (pendingCommandsFor k xs t r)) = event_view r"
  "event_view (snd (consumePairing code t r)) = event_view r"
  "event_view (createPairing code t r) = event_view r"
  "event_view (snd (registerRunner k pem r)) = event_view r"
  "event_view (snd (restoreDurableRunnerIdentity k pem g r)) = event_view r"
  "event_view (snd (revokeRunnerSessions k r)) = event_view r"
  "event_view (snd (enqueueCommand e t r)) = event_view r"
  "event_view (setKillSwitch b' r) = event_view r"
  using untouched_events [of "RC_audit a b c t" r] untouched_events [of "RC_auditRateLimited a b c t t'" r]
    untouched_events [of "RC_markSeen k t" r] untouched_events [of "RC_setCommandState k s t" r]
    untouched_events [of "RC_pendingCommandsFor k xs t" r] untouched_events [of "RC_consumePairing code t" r]
    untouched_events [of "RC_createPairing code t" r] untouched_events [of "RC_registerRunner k pem" r]
    untouched_events [of "RC_restoreDurableRunnerIdentity k pem g" r] untouched_events [of "RC_revokeRunnerSessions k" r]
    untouched_events [of "RC_enqueueCommand e t" r] untouched_events [of "RC_setKillSwitch b'" r]
  by (simp_all add: touches_events_def)

lemma snd_event_view:
  "p = (x, r') \<Longrightarrow> event_view (snd p) = event_view r \<Longrightarrow> event_view r' = event_view r"
  by simp

text \<open>The sequence numbers a socket has been told.\<close>

fun told_by :: "server_frame \<Rightarrow> int option" where
  "told_by (SF_event_ack n) = Some n"
| "told_by (SF_reconcile_response resp) = Some (rp_ack_event_seq resp)"
| "told_by _ = None"

definition told :: "relay_server \<Rightarrow> (socket \<times> int) set" where
  "told sv = {(sock, n). \<exists>fr. (sock, fr) \<in> set (sv_sent sv) \<and> told_by fr = Some n}"

lemma told_simps [simp]:
  "told (on_connection sock f sv) = told sv" "told (on_stores g sv) = told sv" "told (close_socket sock sv) = told sv"
  "told (sv\<lparr>sv_stores := r\<rparr>) = told sv" "told (sv\<lparr>sv_runnerSockets := m\<rparr>) = told sv"
  "told (sv\<lparr>sv_reconciledRunners := m'\<rparr>) = told sv"
  "told (sendFrame sock fr sv) = (case told_by fr of None \<Rightarrow> told sv | Some n \<Rightarrow> insert (sock, n) (told sv))"
  by (auto simp: told_def split: option.split)

definition calm :: "relay_server \<Rightarrow> relay_server \<Rightarrow> bool" where
  "calm sv sv' \<longleftrightarrow> event_view (sv_stores sv') = event_view (sv_stores sv) \<and> told sv' = told sv
     \<and> (\<forall>s. set (wc_delivery (connection s sv')) \<subseteq> set (wc_delivery (connection s sv))
          \<and> wc_authedRunnerId (connection s sv') = wc_authedRunnerId (connection s sv)
          \<and> (wc_authenticationState (connection s sv') = wc_authenticationState (connection s sv)
             \<or> wc_authenticationState (connection s sv') = AU_closed))"

lemma calm_refl [simp]: "calm sv sv"
  by (simp add: calm_def)

lemma calm_trans: "calm sv sv' \<Longrightarrow> calm sv' sv'' \<Longrightarrow> calm sv sv''"
  unfolding calm_def by (metis subset_trans)

lemma calm_stores: "event_view (f (sv_stores sv)) = event_view (sv_stores sv) \<Longrightarrow> calm sv' sv \<Longrightarrow> calm sv' (on_stores f sv)"
  by (simp add: calm_def)

lemma calm_set_stores: "event_view r = event_view (sv_stores sv) \<Longrightarrow> calm sv' sv \<Longrightarrow> calm sv' (sv\<lparr>sv_stores := r\<rparr>)"
  by (simp add: calm_def)

lemma calm_frame:
  "told_by fr = None \<Longrightarrow> calm sv' sv \<Longrightarrow> calm sv' (sendFrame sock fr sv)"
  by (simp add: calm_def)

lemma calm_connection:
  "calm sv' sv \<Longrightarrow> set (wc_delivery (f (connection sock sv))) \<subseteq> set (wc_delivery (connection sock sv)) \<Longrightarrow>
   wc_authedRunnerId (f (connection sock sv)) = wc_authedRunnerId (connection sock sv) \<Longrightarrow>
   wc_authenticationState (f (connection sock sv)) = wc_authenticationState (connection sock sv)
     \<or> wc_authenticationState (f (connection sock sv)) = AU_closed \<Longrightarrow> calm sv' (on_connection sock f sv)"
  by (fastforce simp: calm_def)

lemma calm_fields:
  "calm sv' sv \<Longrightarrow> calm sv' (close_socket sock sv)" "calm sv' sv \<Longrightarrow> calm sv' (sv\<lparr>sv_runnerSockets := m\<rparr>)"
  "calm sv' sv \<Longrightarrow> calm sv' (sv\<lparr>sv_reconciledRunners := m'\<rparr>)"
  by (simp_all add: calm_def)

lemmas calm_intros = calm_stores calm_set_stores calm_frame calm_connection calm_fields

lemma calm_rejectAuthentication: "calm sv' sv \<Longrightarrow> calm sv' (rejectAuthentication sock who act now sv)"
  by (auto simp: rejectAuthentication_def intro!: calm_intros)

lemma calm_rejectRunnerEvents: "calm sv' sv \<Longrightarrow> calm sv' (rejectRunnerEvents sock k detail g now sv)"
  by (auto simp: rejectRunnerEvents_def Let_def intro!: calm_intros split: option.split)

lemma calm_fence_event: "calm sv' sv \<Longrightarrow> calm sv' (fence_event sock k e now sv)"
  unfolding fence_event_def by (rule calm_rejectRunnerEvents)

lemma list_nonempty_tl: "x \<in> set (tl xs) \<Longrightarrow> xs \<noteq> []"
  by auto

lemma calm_drop_head: "calm sv' sv \<Longrightarrow> calm sv' (drop_head sock sv)"
  unfolding drop_head_def by (rule calm_connection) (auto dest: list.set_sel(2) [OF list_nonempty_tl])


lemma calm_event_check: "calm sv' sv \<Longrightarrow> calm sv' (event_check sock now sv)"
  by (auto simp: event_check_def Let_def intro!: calm_drop_head calm_fence_event calm_connection
      split: list.split option.split)

lemma mark_delivered_events: "event_view (mark_delivered now es r) = event_view r"
  by (induction es arbitrary: r) simp_all

lemma calm_send_commands: "calm sv' sv \<Longrightarrow> calm sv' (send_commands sock es sv)"
  by (induction es arbitrary: sv) (simp_all add: calm_frame)

lemma calm_deliver_each: "calm sv' sv \<Longrightarrow> calm sv' (deliver_each sock now es sv)"
  by (induction es arbitrary: sv) (simp_all add: calm_frame calm_stores)

lemma calm_deliverPending: "calm sv' sv \<Longrightarrow> calm sv' (deliverPending k executed now sv)"
  by (auto simp: deliverPending_def split: option.split prod.split
      intro!: calm_deliver_each calm_set_stores dest: snd_event_view [OF _ calls_keep_events(5)])

lemma calm_fence_socket: "calm sv' sv \<Longrightarrow> calm sv' (fence_socket k g sv)"
  by (auto simp: fence_socket_def Let_def intro!: calm_intros split: option.split)

lemma calm_routes:
  assumes "calm sv' sv"
  shows "calm sv' (snd (pairing_complete code k pem now sv))" "calm sv' (revoke_runner k sv)"
    "calm sv' (snd (issue_command k payload project corr session cid kind ttl now sv))"
    "calm sv' (socket_closed sock now sv)"
proof -
  have "event_view r2 = event_view (sv_stores sv)"
    if "consumePairing code now (sv_stores sv) = (b, r1)" "registerRunner k pem r1 = (x, r2)" for b r1 x r2
    using snd_event_view [OF that(1) calls_keep_events(6)] snd_event_view [OF that(2) calls_keep_events(8)] by simp
  then show "calm sv' (snd (pairing_complete code k pem now sv))"
    using assms by (auto simp: pairing_complete_def intro!: calm_stores calm_fence_socket calm_set_stores
        dest: snd_event_view [OF _ calls_keep_events(6)] split: prod.split bool.split)
  show "calm sv' (revoke_runner k sv)"
    using assms by (auto simp: revoke_runner_def Let_def intro!: calm_fence_socket calm_set_stores
        dest: snd_event_view [OF _ calls_keep_events(10)] split: prod.split sum.split)
  show "calm sv' (snd (issue_command k payload project corr session cid kind ttl now sv))"
    using assms by (auto simp: issue_command_def Let_def intro!: calm_deliverPending calm_stores calm_set_stores
        dest: snd_event_view [OF _ calls_keep_events(11)] split: prod.split sum.split option.split)
  show "calm sv' (socket_closed sock now sv)"
    using assms by (auto simp: socket_closed_def Let_def intro!: calm_intros split: option.split)
qed

lemma calm_reconcile_begin: "calm sv' sv \<Longrightarrow> calm sv' (snd (reconcile_begin sock body now sv))"
proof -
  have "calm sv' sv \<Longrightarrow> calm sv' (supersede_socket k sock sv)" for k
    by (auto simp: supersede_socket_def intro!: calm_fields split: option.split)
  then show "calm sv' sv \<Longrightarrow> calm sv' (snd (reconcile_begin sock body now sv))"
    by (auto simp: reconcile_begin_def Let_def intro!: calm_intros split: option.split prod.split)
qed

subsection \<open>What the server knows about a runner\<close>

text \<open>
  \<open>E\<close> is the set of events the runner \<open>k\<close> has emitted. Sockets authenticated as another runner may carry
  any events.
\<close>

definition server_ok :: "ident \<Rightarrow> event_envelope set \<Rightarrow> relay_server \<Rightarrow> bool" where
  "server_ok k E sv \<longleftrightarrow> log_ok (sv_stores sv) \<and> log_contiguous (sv_stores sv)
     \<and> set (eventsFor k (sv_stores sv)) \<subseteq> E
     \<and> (\<forall>s. \<forall>e \<in> set (wc_delivery (connection s sv)). wc_authedRunnerId (connection s sv) = Some (ev_runner_id e)
          \<and> (ev_runner_id e = k \<longrightarrow> e \<in> E))
     \<and> (\<forall>s n. (s, n) \<in> told sv \<longrightarrow>
          (\<exists>j. wc_authedRunnerId (connection s sv) = Some j \<and> n \<le> eventWatermark j (sv_stores sv)))
     \<and> (\<forall>s. wc_authedRunnerId (connection s sv) \<noteq> None \<longrightarrow>
          wc_authenticationState (connection s sv) \<in> {AU_legacy_runner, AU_closed})"

lemma log_cong:
  assumes "event_view r' = event_view r"
  shows "log_ok r' = log_ok r" "log_contiguous r' = log_contiguous r"
proof -
  have v: "eventsFor j r' = eventsFor j r" "eventWatermark j r' = eventWatermark j r" for j
    using view_eq [OF assms] by simp_all
  show "log_ok r' = log_ok r" "log_contiguous r' = log_contiguous r"
    by (simp_all only: log_ok_def log_contiguous_def v)
qed

lemma calm_ok:
  assumes "calm sv sv'" "server_ok k E sv"
  shows "server_ok k E sv'"
proof -
  have c: "event_view (sv_stores sv') = event_view (sv_stores sv)" "told sv' = told sv"
    "\<And>s. wc_authedRunnerId (connection s sv') = wc_authedRunnerId (connection s sv)"
    "\<And>s. set (wc_delivery (connection s sv')) \<subseteq> set (wc_delivery (connection s sv))"
    "\<And>s. wc_authenticationState (connection s sv') = wc_authenticationState (connection s sv)
        \<or> wc_authenticationState (connection s sv') = AU_closed"
    using assms(1) by (auto simp: calm_def)
  have v: "eventsFor j (sv_stores sv') = eventsFor j (sv_stores sv)"
    "eventWatermark j (sv_stores sv') = eventWatermark j (sv_stores sv)" for j
    using view_eq [OF c(1)] by simp_all
  note l = log_cong [OF c(1)]
  show ?thesis
    unfolding server_ok_def l v c(2,3)
  proof (intro conjI)
    show "\<forall>s. wc_authedRunnerId (connection s sv) \<noteq> None \<longrightarrow> wc_authenticationState (connection s sv') \<in> {AU_legacy_runner, AU_closed}"
      using assms(2) c(5) unfolding server_ok_def by (metis insertCI)
    show "\<forall>s. \<forall>e \<in> set (wc_delivery (connection s sv')). wc_authedRunnerId (connection s sv) = Some (ev_runner_id e)
        \<and> (ev_runner_id e = k \<longrightarrow> e \<in> E)"
      using assms(2) c(4) unfolding server_ok_def by blast
  qed (use assms(2) in \<open>simp_all add: server_ok_def\<close>)
qed

lemma server_ok_mono: "server_ok k E sv \<Longrightarrow> E \<subseteq> E' \<Longrightarrow> server_ok k E' sv"
  unfolding server_ok_def by blast

lemma server_okD:
  assumes "server_ok k E sv"
  shows "log_ok (sv_stores sv)" "log_contiguous (sv_stores sv)" "set (eventsFor k (sv_stores sv)) \<subseteq> E"
    "e \<in> set (wc_delivery (connection s sv)) \<Longrightarrow> wc_authedRunnerId (connection s sv) = Some (ev_runner_id e)"
    "e \<in> set (wc_delivery (connection s sv)) \<Longrightarrow> ev_runner_id e = k \<Longrightarrow> e \<in> E"
    "(s, n) \<in> told sv \<Longrightarrow> \<exists>j. wc_authedRunnerId (connection s sv) = Some j \<and> n \<le> eventWatermark j (sv_stores sv)"
    "wc_authedRunnerId (connection s sv) = Some j \<Longrightarrow> wc_authenticationState (connection s sv) \<in> {AU_legacy_runner, AU_closed}"
  using assms unfolding server_ok_def by auto

text \<open>Nothing is delivered or told on a socket that has not been authenticated.\<close>

lemma unauthenticated:
  assumes "server_ok k E sv" "wc_authenticationState (connection s sv) \<in> {AU_awaiting, AU_authenticating}"
  shows "wc_authedRunnerId (connection s sv) = None" "wc_delivery (connection s sv) = []" "(s, n) \<notin> told sv"
proof -
  show a: "wc_authedRunnerId (connection s sv) = None"
    using server_okD(7) [OF assms(1), of s] assms(2) by (cases "wc_authedRunnerId (connection s sv)") auto
  have "e \<notin> set (wc_delivery (connection s sv))" for e using server_okD(4) [OF assms(1)] a by force
  then show "wc_delivery (connection s sv) = []" by (meson last_in_set)
  show "(s, n) \<notin> told sv" using server_okD(6) [OF assms(1)] a by force
qed

lemma auth_begin_ok:
  assumes ok: "server_ok k E sv"
  shows "server_ok k E (auth_begin sock frame now sv)"
proof (cases "wc_authenticationState (connection sock sv) = AU_awaiting")
  case True
  with unauthenticated [OF ok, of sock] ok show ?thesis unfolding auth_begin_def server_ok_def by auto
next
  case False
  then show ?thesis using calm_ok [OF calm_rejectAuthentication [OF calm_refl] ok] by (simp add: auth_begin_def)
qed

lemma authenticate_ok:
  assumes ok: "server_ok k E sv" and a: "wc_authenticationState (connection sock sv) = AU_authenticating"
  shows "server_ok k E (on_connection sock (\<lambda>c. c\<lparr>wc_authenticationState := AU_legacy_runner, wc_authedRunnerId := Some j\<rparr>) sv)"
  using unauthenticated [OF ok, of sock] a ok unfolding server_ok_def by auto

lemma auth_end_ok:
  assumes ok: "server_ok k E sv"
  shows "server_ok k E (auth_end verify legacyAuth sock frame known restored now sv)"
proof -
  let ?shut = "on_connection sock (\<lambda>c. c\<lparr>wc_authenticationState := AU_closed\<rparr>)"
  obtain runner sv1 where r: "restored_runner frame known restored sv = (runner, sv1)" by fastforce
  have "calm sv sv1"
    using r by (auto simp: restored_runner_def split: option.splits sum.splits prod.splits
        intro!: calm_set_stores dest: snd_event_view [OF _ calls_keep_events(9)])
  with ok have ok1: "server_ok k E sv1" by (rule calm_ok [rotated])
  have shut: "calm x (?shut x)" for x by (rule calm_connection) simp_all
  note rejected = calm_ok [OF calm_rejectAuthentication [OF calm_refl] ok1]
  have gone: "server_ok k E (close_socket sock (?shut (on_stores (audit a b c t) sv)))" for a b c t
    by (rule calm_ok [OF _ ok]) (intro calm_intros calm_refl; simp)
  have fenced: "server_ok k E (close_socket sock (sendFrame sock (SF_fenced g) (on_stores (audit a b c t) (?shut sv1))))" for a b c t g
    by (rule calm_ok [OF _ ok1]) (intro calm_intros calm_refl; simp)
  have fine: "server_ok k E (sendFrame sock SF_auth_ok (on_connection sock (\<lambda>c. c\<lparr>wc_authenticationState := AU_legacy_runner,
      wc_authedRunnerId := Some j\<rparr>) sv1))" if "wc_authenticationState (connection sock sv1) = AU_authenticating" for j
    by (rule calm_ok [OF calm_frame [OF _ calm_refl] authenticate_ok [OF ok1 that]]) simp
  show ?thesis
    unfolding auth_end_def Let_def r prod.case using gone rejected fenced fine ok1
    by (auto split: option.split sum.split)
qed

lemma reconcile_end_ok:
  assumes ok: "server_ok k E sv" and a: "wc_authedRunnerId (connection sock sv) = Some (fst kg)"
  shows "server_ok k E (reconcile_end knowledge sock body kg durable now sv)"
proof (cases durable)
  case (Inl err)
  have "calm sv (close_socket sock (on_stores (audit b c err now) sv))" for b c by (intro calm_intros calm_refl) simp
  with Inl ok show ?thesis by (auto simp: reconcile_end_def intro: calm_ok split: prod.split)
next
  case (Inr commands)
  obtain j g where kg: "kg = (j, g)" by (cases kg)
  define sv1 where "sv1 = on_stores (\<lambda>r. snd (pendingCommandsFor j (rq_recently_executed_command_ids body) now r)) sv"
  have "calm sv sv1" unfolding sv1_def by (rule calm_stores) simp_all
  then have ok1: "server_ok k E sv1" using ok by (rule calm_ok)
  have a1: "wc_authedRunnerId (connection sock sv1) = Some j" using a kg by (simp add: sv1_def)
  have answered: "server_ok k E (sendFrame sock (SF_reconcile_response resp) sv1)"
    if "rp_ack_event_seq resp = eventWatermark j (sv_stores sv1)" for resp
    using ok1 a1 that unfolding server_ok_def by auto
  have "server_ok k E (on_stores f (on_stores (mark_delivered now ps) (send_commands sock es
      (sendFrame sock (SF_reconcile_response resp) sv1))))"
    if "rp_ack_event_seq resp = eventWatermark j (sv_stores sv1)" "\<And>r. event_view (f r) = event_view r" for f ps es resp
  proof (rule calm_ok)
    show "calm (sendFrame sock (SF_reconcile_response resp) sv1) (on_stores f (on_stores (mark_delivered now ps)
        (send_commands sock es (sendFrame sock (SF_reconcile_response resp) sv1))))"
      by (intro calm_stores calm_send_commands calm_refl) (simp_all add: that(2) mark_delivered_events)
  qed (rule answered [OF that(1)])
  then show ?thesis unfolding reconcile_end_def kg Inr Let_def by (simp flip: sv1_def)
qed

lemma event_receive_ok:
  assumes ok: "server_ok k E sv" and e: "wc_authedRunnerId (connection sock sv) = Some k \<Longrightarrow> e \<in> E"
  shows "server_ok k E (event_receive sock e now sv)"
proof (cases "speaking_runner sock sv")
  case (Some jx)
  then obtain j x where j: "jx = (j, x)" "wc_authedRunnerId (connection sock sv) = Some j"
    by (auto simp: speaking_runner_def Let_def split: if_splits option.splits)
  have "server_ok k E (on_connection sock (\<lambda>c. c\<lparr>wc_delivery := wc_delivery c @ [e]\<rparr>) sv)" if "event_current sock j e sv"
  proof -
    have "ev_runner_id e = j" using that by (auto simp: event_current_def split: option.splits)
    with ok j(2) e show ?thesis unfolding server_ok_def by (auto 0 3)
  qed
  with Some j calm_ok [OF calm_fence_event [OF calm_refl] ok] ok show ?thesis by (auto simp: event_receive_def)
qed (simp add: event_receive_def ok)

lemma ingest_event_view: "event_view (snd (ingestEvent e r)) = event_view r"
  if "ev_event_seq e \<noteq> eventWatermark (ev_runner_id e) r + 1"
  using that by (auto simp: ingestEvent_def Let_def)

lemma side_effects_event_view: "event_view (applyEventSideEffects e now r) = event_view r"
  by (simp add: applyEventSideEffects_def Let_def split: event_payload.split)

lemma ingest_and_ack_view:
  "event_view (sv_stores (ingest_and_ack sock e now sv)) = event_view (snd (ingestEvent e (sv_stores sv)))"
  "connection s (ingest_and_ack sock e now sv) = connection s sv"
  "told (ingest_and_ack sock e now sv) =
     insert (sock, eventWatermark (ev_runner_id e) (snd (ingestEvent e (sv_stores sv)))) (told sv)"
proof -
  have v: "event_view (sv_stores (ingest_and_ack sock e now sv)) = event_view (snd (ingestEvent e (sv_stores sv)))"
    by (simp add: ingest_and_ack_def Let_def side_effects_event_view split: prod.split ingest_outcome.split)
  then show "event_view (sv_stores (ingest_and_ack sock e now sv)) = event_view (snd (ingestEvent e (sv_stores sv)))" .
  show "connection s (ingest_and_ack sock e now sv) = connection s sv"
    by (simp add: ingest_and_ack_def Let_def split: prod.split ingest_outcome.split)
  show "told (ingest_and_ack sock e now sv) =
     insert (sock, eventWatermark (ev_runner_id e) (snd (ingestEvent e (sv_stores sv)))) (told sv)"
    by (auto simp: ingest_and_ack_def Let_def view_eq [OF side_effects_event_view] split: prod.split ingest_outcome.split)
qed

lemma ingest_and_ack_ok:
  assumes ok: "server_ok k E sv" and a: "wc_authedRunnerId (connection sock sv) = Some (ev_runner_id e)"
    and e: "ev_runner_id e = k \<Longrightarrow> e \<in> E"
  shows "server_ok k E (ingest_and_ack sock e now sv)"
proof -
  let ?r = "snd (ingestEvent e (sv_stores sv))"
  have v: "eventsFor j (sv_stores (ingest_and_ack sock e now sv)) = eventsFor j ?r"
    "eventWatermark j (sv_stores (ingest_and_ack sock e now sv)) = eventWatermark j ?r" for j
    using view_eq [OF ingest_and_ack_view(1)] by simp_all
  have mono: "eventWatermark j (sv_stores sv) \<le> eventWatermark j ?r" for j by (simp add: log_views)
  show ?thesis
    unfolding server_ok_def ingest_and_ack_view(2,3) log_cong [OF ingest_and_ack_view(1)] v
  proof (intro conjI)
    show "log_ok ?r" "log_contiguous ?r" by (intro ingest_log_ok ingest_contiguous server_okD [OF ok])+
    show "set (eventsFor k ?r) \<subseteq> E" using server_okD(3) [OF ok] e by (auto simp: log_views)
    show "\<forall>s n. (s, n) \<in> insert (sock, eventWatermark (ev_runner_id e) ?r) (told sv) \<longrightarrow>
        (\<exists>j. wc_authedRunnerId (connection s sv) = Some j \<and> n \<le> eventWatermark j ?r)"
      using a server_okD(6) [OF ok] mono by (auto dest!: server_okD(6) [OF ok]) (meson order_trans)
  qed (use ok in \<open>simp_all add: server_ok_def\<close>)
qed

lemma event_apply_ok:
  assumes ok: "server_ok k E sv"
  shows "server_ok k E (event_apply sock failed now sv)"
proof (cases "wc_delivery (connection sock sv)")
  case (Cons e es)
  then have e: "wc_authedRunnerId (connection sock sv) = Some (ev_runner_id e)" "ev_runner_id e = k \<Longrightarrow> e \<in> E"
    using server_okD(4,5) [OF ok, of e sock] by auto
  have d: "server_ok k E (drop_head sock sv)" by (rule calm_ok [OF calm_drop_head [OF calm_refl] ok])
  have "wc_authedRunnerId (connection sock (drop_head sock sv)) = Some (ev_runner_id e)" using e(1) by (simp add: drop_head_def)
  then have "server_ok k E (ingest_and_ack sock e now (drop_head sock sv))" by (rule ingest_and_ack_ok [OF d _ e(2)])
  moreover have "server_ok k E (rejectRunnerEvents sock j err None now (drop_head sock sv))" for j err
    by (rule calm_ok [OF calm_rejectRunnerEvents [OF calm_refl] d])
  ultimately show ?thesis using Cons ok e(1) by (auto simp: event_apply_def Let_def split: option.split)
qed (simp add: event_apply_def Let_def ok)

subsection \<open>Calls of the server\<close>

record deployment =
  dp_verify :: "string \<Rightarrow> auth_frame \<Rightarrow> bool"
  dp_legacyAuth :: bool
  dp_knowledge :: bool

datatype server_call =
    VC_auth_begin socket auth_frame millis
  | VC_auth_end socket auth_frame "runner_record option" "(string + (string \<times> nat) option) option" millis
  | VC_reconcile_begin socket reconcile_request millis
  | VC_reconcile_end socket reconcile_request "ident \<times> nat" "string + command_envelope list" millis
  | VC_event_receive socket event_envelope millis
  | VC_event_check socket millis
  | VC_event_apply socket "string option" millis
  | VC_closed socket millis
  | VC_createPairing string millis
  | VC_pairing string ident string millis
  | VC_revoke ident
  | VC_issue ident command_payload ident ident ident ident string millis millis
  | VC_deliverPending ident "ident list" millis
  | VC_killSwitch bool

fun do_server_call :: "deployment \<Rightarrow> server_call \<Rightarrow> relay_server \<Rightarrow> relay_server" where
  "do_server_call dp (VC_auth_begin s f now) sv = auth_begin s f now sv"
| "do_server_call dp (VC_auth_end s f known restored now) sv =
     auth_end (dp_verify dp) (dp_legacyAuth dp) s f known restored now sv"
| "do_server_call dp (VC_reconcile_begin s body now) sv = snd (reconcile_begin s body now sv)"
| "do_server_call dp (VC_reconcile_end s body kg durable now) sv = reconcile_end (dp_knowledge dp) s body kg durable now sv"
| "do_server_call dp (VC_event_receive s e now) sv = event_receive s e now sv"
| "do_server_call dp (VC_event_check s now) sv = event_check s now sv"
| "do_server_call dp (VC_event_apply s failed now) sv = event_apply s failed now sv"
| "do_server_call dp (VC_closed s now) sv = socket_closed s now sv"
| "do_server_call dp (VC_createPairing code t) sv = on_stores (createPairing code t) sv"
| "do_server_call dp (VC_pairing code k pem now) sv = snd (pairing_complete code k pem now sv)"
| "do_server_call dp (VC_revoke k) sv = revoke_runner k sv"
| "do_server_call dp (VC_issue k payload project corr session cid kind ttl now) sv =
     snd (issue_command k payload project corr session cid kind ttl now sv)"
| "do_server_call dp (VC_deliverPending k executed now) sv = deliverPending k executed now sv"
| "do_server_call dp (VC_killSwitch b) sv = on_stores (setKillSwitch b) sv"

text \<open>
  The rest of a reconciliation goes on for the runner of its socket, and what arrives on a socket
  authenticated as \<open>k\<close> has been sent by the holder of the key of \<open>k\<close>.
\<close>

fun server_call_ok :: "ident \<Rightarrow> event_envelope set \<Rightarrow> server_call \<Rightarrow> relay_server \<Rightarrow> bool" where
  "server_call_ok k E (VC_reconcile_end s body kg durable now) sv \<longleftrightarrow> wc_authedRunnerId (connection s sv) = Some (fst kg)"
| "server_call_ok k E (VC_event_receive s e now) sv \<longleftrightarrow> (wc_authedRunnerId (connection s sv) = Some k \<longrightarrow> e \<in> E)"
| "server_call_ok k E _ sv \<longleftrightarrow> True"

interpretation relay_server: object_invariant "do_server_call dp" "server_call_ok k E" "server_ok k E" for dp k E
proof
  fix c sv assume c: "server_call_ok k E c sv" and ok: "server_ok k E sv"
  have "calm sv (on_stores (createPairing code t) sv)" "calm sv (on_stores (setKillSwitch b) sv)" for code t b
    by (intro calm_stores calm_refl; simp)+
  with c ok show "server_ok k E (do_server_call dp c sv)"
    by (cases c) (auto intro: auth_begin_ok auth_end_ok reconcile_end_ok event_receive_ok event_apply_ok
        calm_ok [OF calm_reconcile_begin [OF calm_refl]] calm_ok [OF calm_event_check [OF calm_refl]]
        calm_ok [OF calm_routes(1) [OF calm_refl]] calm_ok [OF calm_routes(2) [OF calm_refl]]
        calm_ok [OF calm_routes(3) [OF calm_refl]] calm_ok [OF calm_routes(4) [OF calm_refl]]
        calm_ok [OF calm_deliverPending [OF calm_refl]] calm_ok)
qed

lemma server_log_step:
  "event_view (sv_stores (do_server_call dp c sv)) = event_view (sv_stores sv)
   \<or> (\<exists>e. event_view (sv_stores (do_server_call dp c sv)) = event_view (snd (ingestEvent e (sv_stores sv))))"
proof -
  have view: "event_view (sv_stores sv') = event_view (sv_stores sv)" if "calm sv sv'" for sv' using that by (simp add: calm_def)
  have head: "event_view (sv_stores (drop_head sock sv)) = event_view (sv_stores sv)" "sv_stores (drop_head sock sv) = sv_stores sv" for sock
    by (simp_all add: drop_head_def)
  show ?thesis
  proof (cases c)
    case (VC_auth_begin s f now)
    then show ?thesis using view [OF calm_rejectAuthentication [OF calm_refl]] by (auto simp: auth_begin_def)
  next
    case (VC_auth_end s f known restored now)
    obtain runner sv1 where r: "restored_runner f known restored sv = (runner, sv1)" by fastforce
    then have "event_view (sv_stores sv1) = event_view (sv_stores sv)"
      by (auto simp: restored_runner_def split: option.splits sum.splits prod.splits dest: snd_event_view [OF _ calls_keep_events(9)])
    moreover have "event_view (sv_stores (rejectAuthentication a b e t x)) = event_view (sv_stores x)" for a b e t x
      using calm_rejectAuthentication [OF calm_refl] unfolding calm_def by blast
    ultimately show ?thesis using VC_auth_end r by (auto simp: auth_end_def Let_def split: option.split sum.split)
  next
    case (VC_reconcile_end s body kg durable now)
    have "event_view (sv_stores (send_commands a es x)) = event_view (sv_stores x)" for a es x
      using calm_send_commands [OF calm_refl] unfolding calm_def by blast
    with VC_reconcile_end show ?thesis
      by (auto simp: reconcile_end_def Let_def mark_delivered_events split: sum.split prod.split)
  next
    case (VC_event_receive s e now)
    then show ?thesis using view [OF calm_fence_event [OF calm_refl]] by (auto simp: event_receive_def split: option.split)
  next
    case (VC_event_check s now)
    then show ?thesis using view [OF calm_event_check [OF calm_refl]] by simp
  next
    case (VC_event_apply s failed now)
    have "event_view (sv_stores (rejectRunnerEvents s j err None now (drop_head s sv))) = event_view (sv_stores sv)" for j err
      using calm_rejectRunnerEvents [OF calm_refl, of "drop_head s sv"] head unfolding calm_def by metis
    with VC_event_apply head show ?thesis
      by (auto simp: event_apply_def Let_def ingest_and_ack_view(1) split: list.split option.split)
  qed (simp_all add: view [OF calm_reconcile_begin [OF calm_refl]] view [OF calm_routes(1) [OF calm_refl]]
      view [OF calm_routes(2) [OF calm_refl]] view [OF calm_routes(3) [OF calm_refl]] view [OF calm_routes(4) [OF calm_refl]]
      view [OF calm_deliverPending [OF calm_refl]])
qed

lemma server_log_grows:
  "\<exists>es. eventsFor k (sv_stores (do_server_call dp c sv)) = eventsFor k (sv_stores sv) @ es"
  "eventWatermark k (sv_stores sv) \<le> eventWatermark k (sv_stores (do_server_call dp c sv))"
  using server_log_step [of dp c sv] by (auto dest!: view_eq [where k = k] simp: log_views)

subsection \<open>The system\<close>

text \<open>
  A pair of the relay server and the daemon of the runner \<open>k\<close>. A frame that one side has sent may reach
  the other at any later time, any number of times or never; a crash cuts a handler of the daemon.
\<close>

fun heard :: "ident \<Rightarrow> relay_server \<Rightarrow> daemon_call \<Rightarrow> bool" where
  "heard k sv (DC_event_ack n) \<longleftrightarrow>
     (\<exists>s. wc_authedRunnerId (connection s sv) = Some k \<and> (s, SF_event_ack n) \<in> set (sv_sent sv))"
| "heard k sv (DC_reconcile now resp) \<longleftrightarrow>
     (\<exists>s. wc_authedRunnerId (connection s sv) = Some k \<and> (s, SF_reconcile_response resp) \<in> set (sv_sent sv))"
| "heard k sv _ \<longleftrightarrow> True"

inductive system_step :: "daemon_env \<Rightarrow> deployment \<Rightarrow> ident \<Rightarrow> relay_server \<times> daemon \<Rightarrow> relay_server \<times> daemon \<Rightarrow> bool"
  for env dp k where
  server: "server_call_ok k (set (sent (sf_trace d))) c sv \<Longrightarrow> system_step env dp k (sv, d) (do_server_call dp c sv, d)"
| runner: "daemon_call_ok c d \<Longrightarrow> heard k sv c \<Longrightarrow> system_step env dp k (sv, d) (sv, do_daemon_call env c d)"
| crash: "daemon_call_ok c d \<Longrightarrow> heard k sv c \<Longrightarrow> length (sf_trace d) \<le> n \<Longrightarrow>
     disk (take n (sf_trace (do_daemon_call env c d))) = Some st \<Longrightarrow>
     system_step env dp k (sv, d) (sv, new_daemon opts
       (open_file (Some (Current_file st)) r key g (take n (sf_trace (do_daemon_call env c d)))))"

inductive_cases system_stepE: "system_step env dp k s s'"

definition system_reachable :: "daemon_env \<Rightarrow> deployment \<Rightarrow> ident \<Rightarrow> relay_server \<times> daemon \<Rightarrow> bool" where
  "system_reachable env dp k s \<longleftrightarrow>
     (\<exists>opts key g. (system_step env dp k)\<^sup>*\<^sup>* (new_server, new_daemon opts (open_file None k key g [])) s)"

definition system_ok :: "ident \<Rightarrow> relay_server \<times> daemon \<Rightarrow> bool" where
  "system_ok k s \<longleftrightarrow> server_ok k (set (emitted (sf_trace (snd s)))) (fst s)
     \<and> retains (eventWatermark k (sv_stores (fst s))) (snd s) \<and> daemon_ok (snd s)"

text \<open>A handler only adds to the trace.\<close>

interpretation extending: daemon_wide "\<lambda>d. prefix tr (sf_trace d)" env "\<lambda>_. True" for tr env
proof -
  have p: "prefix tr (xs @ [ob]) = (prefix tr xs \<or> tr = xs @ [ob])" for xs ob by auto
  have s: "prefix tr (sf_trace (send_events es d))" if "prefix tr (sf_trace d)" for es and d :: daemon
    using that by (induction es arbitrary: d) (simp_all add: observe_def p)
  have send: "prefix tr (sf_trace (sendBufferedEvents d))" if "prefix tr (sf_trace d)" for d
    using that s by (simp add: sendBufferedEvents_def Let_def)
  show "daemon_wide (\<lambda>d. prefix tr (sf_trace d)) env (\<lambda>_. True)"
    by unfold_locales (auto simp: send recordExecution_def bufferEvent_def nextSeq_def persist_def observe_def
        ensureTerminalAck_def Let_def p handleEventAcknowledgement_def take_over_def pruneAcked_def
        authenticated_def runner_socket_opens_def sendReconcileRequest_def disconnected_def stopHeartbeat_def split: option.split)
qed

end
