(* ===== verification/Delivery_Props.thy ===== *)
theory Delivery_Props
  imports Delivery "HOL-Library.Sublist"
begin

section \<open>The relay log refines a reliable channel\<close>

subsection \<open>The invariant of the system\<close>

lemma heard_acked:
  assumes "server_ok k E sv" "heard k sv c"
  shows "c = DC_event_ack n \<Longrightarrow> n \<le> eventWatermark k (sv_stores sv)"
    "c = DC_reconcile now resp \<Longrightarrow> rp_ack_event_seq resp \<le> eventWatermark k (sv_stores sv)"
proof -
  have told: "n \<le> eventWatermark k (sv_stores sv)"
    if "wc_authedRunnerId (connection s sv) = Some k" "(s, fr) \<in> set (sv_sent sv)" "told_by fr = Some n" for s fr n
    using server_okD(6) [OF assms(1), of s n] that by (auto simp: told_def)
  show "c = DC_event_ack n \<Longrightarrow> n \<le> eventWatermark k (sv_stores sv)"
    "c = DC_reconcile now resp \<Longrightarrow> rp_ack_event_seq resp \<le> eventWatermark k (sv_stores sv)"
    using assms(2) told by auto
qed

lemma daemon_call_kept:
  assumes "system_ok k (sv, d)" "daemon_call_ok c d" "heard k sv c"
  shows "retains (eventWatermark k (sv_stores sv)) (do_daemon_call env c d)" "daemon_ok (do_daemon_call env c d)"
    "prefix (sf_trace d) (sf_trace (do_daemon_call env c d))"
proof -
  have s: "server_ok k (set (emitted (sf_trace d))) sv" "retains (eventWatermark k (sv_stores sv)) d" "daemon_ok d"
    using assms(1) by (simp_all add: system_ok_def)
  show "retains (eventWatermark k (sv_stores sv)) (do_daemon_call env c d)"
    by (rule kept.daemon_call_I [OF s(2)]) (use heard_acked [OF s(1) assms(3)] in blast)+
  show "daemon_ok (do_daemon_call env c d)" using assms(2) s(3) by (rule daemon_object.call_keeps)
  show "prefix (sf_trace d) (sf_trace (do_daemon_call env c d))" by (rule extending.daemon_call_I) simp_all
qed

lemma emitted_prefix: "prefix tr tr' \<Longrightarrow> prefix (emitted tr) (emitted tr')"
  by (auto simp: prefix_def)

lemma system_step_ok:
  assumes "system_step env dp k s s'" "system_ok k s"
  shows "system_ok k s' \<and> prefix (emitted (sf_trace (snd s))) (emitted (sf_trace (snd s')))
    \<and> (\<exists>es. eventsFor k (sv_stores (fst s')) = eventsFor k (sv_stores (fst s)) @ es)"
  using assms
proof (cases rule: system_step.cases)
  case (server d c sv)
  have ok: "server_ok k (set (emitted (sf_trace d))) sv" "daemon_ok d" "retains (eventWatermark k (sv_stores sv)) d"
    using assms(2) server by (simp_all add: system_ok_def)
  have "set (sent (sf_trace d)) \<subseteq> set (emitted (sf_trace d))" by (rule file_okD(3) [OF daemon_okD(1) [OF ok(2)]])
  then have "server_call_ok k (set (emitted (sf_trace d))) c sv" using server(3) by (cases c) auto
  then have "server_ok k (set (emitted (sf_trace d))) (do_server_call dp c sv)"
    using ok(1) by (rule relay_server.call_keeps)
  with server ok(2) retains_mono [OF ok(3) server_log_grows(2)] server_log_grows(1) show ?thesis by (simp add: system_ok_def)
next
  case (runner c d sv)
  note kept = daemon_call_kept [OF assms(2) [unfolded runner(1)] runner(3,4), of env]
  have "prefix (emitted (sf_trace d)) (emitted (sf_trace (do_daemon_call env c d)))" by (rule emitted_prefix [OF kept(3)])
  with kept assms(2) runner show ?thesis by (auto simp: system_ok_def intro: server_ok_mono dest: set_mono_prefix)
next
  case (crash c d sv n st opts r key g)
  note kept = daemon_call_kept [OF assms(2) [unfolded crash(1)] crash(3,4), of env]
  let ?tr = "take n (sf_trace (do_daemon_call env c d))"
  have p: "prefix (sf_trace d) ?tr" using kept(3) crash(5) by (auto simp: prefix_def)
  have "trace_ok ?tr" using kept(2) by (simp add: daemon_ok_def file_ok_def disk_cut_ok)
  from reopen_ok(1) [OF this crash(6)]
  have "daemon_ok (new_daemon opts (open_file (Some (Current_file st)) r key g ?tr))" by (rule new_daemon_ok)
  moreover have t: "sf_trace (open_file (Some (Current_file st)) r key g ?tr) = ?tr" by (simp add: open_file_def opened_def)
  moreover note retains_reopened [OF kept(1) crash(6), of opts r key g]
  ultimately show ?thesis
    using assms(2) crash emitted_prefix [OF p] by (auto simp: system_ok_def intro: server_ok_mono dest: set_mono_prefix)
qed

lemma system_steps_ok:
  assumes "(system_step env dp k)\<^sup>*\<^sup>* s s'" "system_ok k s"
  shows "system_ok k s'"
  using assms by (induction rule: rtranclp_induct) (auto dest: system_step_ok)

lemma initial_ok: "system_ok k (new_server, new_daemon opts (open_file None k key g []))"
proof -
  have c: "connection s new_server = new_connection" for s by (simp add: connection_def new_server_def)
  have l: "eventsFor j (new_stores None) = []" "eventWatermark j (new_stores None) = 0" for j
    by (simp_all add: new_stores_def empty_state_def eventsFor_def eventWatermark_def)
  have f: "open_file None k key g [] = \<lparr>sf_state = fst (opened None k key g), sf_trace = [O_write (fst (opened None k key g)) None]\<rparr>"
    by (simp add: open_file_def opened_def persist_def observe_def)
  have "server_ok k E new_server" for E
    using new_stores_log unfolding server_ok_def c by (simp add: new_connection_def told_def l new_server_def)
  moreover have "retains 0 (new_daemon opts (open_file None k key g []))"
    by (auto simp: retains_def f held_def all_cuts_def cut_held_def take_Cons' new_daemon_def state_file.defs daemon.defs)
  ultimately show ?thesis by (simp add: system_ok_def new_daemon_ok fresh_ok) (simp add: new_server_def l)
qed

lemma system_reachable_ok: "system_reachable env dp k s \<Longrightarrow> system_ok k s"
  unfolding system_reachable_def using system_steps_ok [OF _ initial_ok] by blast

subsection \<open>A reliable channel\<close>

text \<open>
  The specification: a list of numbered messages that have been sent, and the list of those that have
  been delivered, which takes the next message in order, each once.
\<close>

inductive channel_step :: "event_envelope list \<times> event_envelope list \<Rightarrow> event_envelope list \<times> event_envelope list \<Rightarrow> bool" where
  send: "(\<And>x. x \<in> set es \<Longrightarrow> ev_event_seq x < ev_event_seq e) \<Longrightarrow> channel_step (es, lg) (es @ [e], lg)"
| deliver: "es = lg @ e # rest \<Longrightarrow> channel_step (es, lg) (es, lg @ [e])"

definition channel_of :: "ident \<Rightarrow> relay_server \<times> daemon \<Rightarrow> event_envelope list \<times> event_envelope list" where
  "channel_of k s = (emitted (sf_trace (snd s)), eventsFor k (sv_stores (fst s)))"

lemma channel_sends: "in_order (es @ xs) \<Longrightarrow> channel_step\<^sup>*\<^sup>* (es, lg) (es @ xs, lg)"
proof (induction xs rule: rev_induct)
  case (snoc x xs)
  then have "channel_step\<^sup>*\<^sup>* (es, lg) (es @ xs, lg)" by (simp add: sorted_wrt_append)
  moreover have "channel_step (es @ xs, lg) ((es @ xs) @ [x], lg)"
    using snoc.prems by (intro channel_step.send) (auto simp: sorted_wrt_append)
  ultimately show ?case by simp
qed simp

lemma channel_delivers: "prefix (lg @ ys) es \<Longrightarrow> channel_step\<^sup>*\<^sup>* (es, lg) (es, lg @ ys)"
proof (induction ys rule: rev_induct)
  case (snoc y ys)
  then have "channel_step\<^sup>*\<^sup>* (es, lg) (es, lg @ ys)" by (metis append_assoc append_prefixD)
  moreover obtain rest where "es = (lg @ ys) @ y # rest" using snoc.prems by (auto simp: prefix_def)
  then have "channel_step (es, lg @ ys) (es, (lg @ ys) @ [y])" by (rule channel_step.deliver)
  ultimately show ?case by simp
qed simp

text \<open>Events numbered from one without a gap, out of an ordered list, are a prefix of it.\<close>

lemma contiguous_prefix:
  assumes h: "in_order h" "\<And>e. e \<in> set h \<Longrightarrow> 0 < ev_event_seq e"
    and l: "set l \<subseteq> set h" "map ev_event_seq l = map int [1..<Suc (length l)]"
  shows "prefix l h"
  using l
proof (induction l rule: rev_induct)
  case (snoc x l)
  have seqs: "map ev_event_seq l = map int [1..<Suc (length l)]" "ev_event_seq x = int (length l) + 1"
    using snoc.prems(2) by simp_all
  then have in_l: "\<exists>e \<in> set l. ev_event_seq e = n" if "0 < n" "n \<le> int (length l)" for n
  proof -
    have "n \<in> set (map int [1..<Suc (length l)])" using that by (auto simp: image_iff intro!: bexI [of _ "nat n"])
    then show ?thesis unfolding seqs(1) [symmetric] by auto
  qed
  have "prefix l h" using snoc.IH snoc.prems(1) seqs(1) by simp
  then obtain t where t: "h = l @ t" by (auto simp: prefix_def)
  have below: "ev_event_seq e \<le> int (length l)" if "e \<in> set l" for e
  proof -
    have "ev_event_seq e \<in> set (map ev_event_seq l)" using that by simp
    then show ?thesis unfolding seqs(1) by auto
  qed
  have "x \<in> set t" using snoc.prems(1) t below [of x] seqs(2) by auto
  then obtain y t' where y: "t = y # t'" by (cases t) auto
  have "y = x"
  proof (rule ccontr)
    assume "y \<noteq> x"
    with \<open>x \<in> set t\<close> y t h(1) have "ev_event_seq y < ev_event_seq x" by (auto simp: sorted_wrt_append)
    then obtain e where "e \<in> set l" "ev_event_seq e = ev_event_seq y"
      using in_l [of "ev_event_seq y"] h(2) [of y] t y seqs(2) by auto
    with h(1) t y show False by (auto simp: sorted_wrt_append)
  qed
  with t y show ?case by simp
qed simp

lemma in_order_unique: "in_order h \<Longrightarrow> x \<in> set h \<Longrightarrow> y \<in> set h \<Longrightarrow> ev_event_seq x = ev_event_seq y \<Longrightarrow> x = y"
  by (induction h) auto

lemma system_log:
  assumes "system_ok k (sv, d)"
  shows "in_order (emitted (sf_trace d))" "prefix (eventsFor k (sv_stores sv)) (emitted (sf_trace d))"
    "set (emitted (sf_trace d)) \<subseteq> set (eventsFor k (sv_stores sv)) \<union> set (rn_buffer (sf_state d))"
proof -
  have s: "server_ok k (set (emitted (sf_trace d))) sv" "retains (eventWatermark k (sv_stores sv)) d" "daemon_ok d"
    using assms by (simp_all add: system_ok_def)
  note inv = file_okD(1) [OF daemon_okD(1) [OF s(3)]]
  show o: "in_order (emitted (sf_trace d))" by (rule runner_invD(1) [OF inv])
  have c: "map ev_event_seq (eventsFor k (sv_stores sv)) = map int [1..<Suc (length (eventsFor k (sv_stores sv)))]"
    "eventWatermark k (sv_stores sv) = int (length (eventsFor k (sv_stores sv)))"
    using server_okD(2) [OF s(1)] unfolding log_contiguous_def by blast+
  have pos: "0 < ev_event_seq e" if "e \<in> set (emitted (sf_trace d))" for e
    using runner_invD(2) [OF inv that] by (simp add: own_event_def)
  show p: "prefix (eventsFor k (sv_stores sv)) (emitted (sf_trace d))"
    by (rule contiguous_prefix [OF o pos server_okD(3) [OF s(1)] c(1)])
  show "set (emitted (sf_trace d)) \<subseteq> set (eventsFor k (sv_stores sv)) \<union> set (rn_buffer (sf_state d))"
  proof
    fix e assume e: "e \<in> set (emitted (sf_trace d))"
    show "e \<in> set (eventsFor k (sv_stores sv)) \<union> set (rn_buffer (sf_state d))"
    proof (cases "ev_event_seq e \<le> eventWatermark k (sv_stores sv)")
      case True
      then have "ev_event_seq e \<in> set (map int [1..<Suc (length (eventsFor k (sv_stores sv)))])"
        using pos [OF e] c(2) by (auto simp: image_iff intro!: bexI [of _ "nat (ev_event_seq e)"])
      then obtain e' where e': "e' \<in> set (eventsFor k (sv_stores sv))" "ev_event_seq e' = ev_event_seq e"
        unfolding c(1) [symmetric] by auto
      then have "e' = e" using in_order_unique [OF o _ e] server_okD(3) [OF s(1)] by blast
      with e'(1) show ?thesis by simp
    qed (use retains_held [OF s(2)] e in \<open>auto simp: held_def\<close>)
  qed
qed

text \<open>
  C3: The runner and the relay together refine a reliable channel. Whatever the network loses, repeats
  or reorders, however often the runner reconnects, restarts or crashes, a step of the system changes
  the list of emitted events and the event log of the relay by a number of steps of the channel: a new
  event is emitted with a higher number, or the next emitted event is appended to the log.
\<close>

theorem delivery_refines_channel:
  assumes "system_reachable env dp k s" and "system_step env dp k s s'"
  shows "channel_step\<^sup>*\<^sup>* (channel_of k s) (channel_of k s')"
proof -
  obtain sv d sv' d' where s: "s = (sv, d)" "s' = (sv', d')" by (cases s; cases s')
  note step = system_step_ok [OF assms(2) system_reachable_ok [OF assms(1)], unfolded s]
  then have ok': "system_ok k (sv', d')" by blast
  note log' = system_log [OF ok']
  obtain xs where xs: "emitted (sf_trace d') = emitted (sf_trace d) @ xs" using step by (auto simp: prefix_def)
  obtain ys where ys: "eventsFor k (sv_stores sv') = eventsFor k (sv_stores sv) @ ys" using step by auto
  have "channel_step\<^sup>*\<^sup>* (emitted (sf_trace d), eventsFor k (sv_stores sv)) (emitted (sf_trace d'), eventsFor k (sv_stores sv))"
    unfolding xs using log'(1) by (intro channel_sends) (simp add: xs)
  also have "channel_step\<^sup>*\<^sup>* \<dots> (emitted (sf_trace d'), eventsFor k (sv_stores sv'))"
    unfolding ys using log'(2) by (intro channel_delivers) (simp add: ys)
  finally show ?thesis by (simp add: channel_of_def s)
qed

text \<open>
  C4: No event is lost and none is invented. In every reachable state of the system the event log of
  the relay is a prefix of the events the runner has emitted, in their order and each once, and an
  emitted event that the relay does not have yet is still in the buffer of the runner.
\<close>

theorem no_event_lost:
  assumes "system_reachable env dp k (sv, d)"
  shows "prefix (eventsFor k (sv_stores sv)) (emitted (sf_trace d))
    \<and> set (emitted (sf_trace d)) \<subseteq> set (eventsFor k (sv_stores sv)) \<union> set (rn_buffer (sf_state d))"
  using system_log(2,3) [OF system_reachable_ok [OF assms]] by blast

subsection \<open>A sample delivery\<close>

lemma system_reachable_step: "system_reachable env dp k s \<Longrightarrow> system_step env dp k s s' \<Longrightarrow> system_reachable env dp k s'"
  unfolding system_reachable_def by (meson rtranclp.rtrancl_into_rtrancl)

definition sample_deployment :: deployment where
  "sample_deployment = \<lparr>dp_verify = (\<lambda>pem frame. True), dp_legacyAuth = True, dp_knowledge = False\<rparr>"

definition sample_auth :: auth_frame where
  "sample_auth = \<lparr>af_runner_id = ''r1'', af_generation = 1, af_protocol_version = 1, af_transcript_signature = ''s''\<rparr>"

text \<open>The calls that pair, authenticate and reconcile the runner on socket 7.\<close>

definition sample_handshake :: "server_call list" where
  "sample_handshake =
     [VC_createPairing ''code'' 100, VC_pairing ''code'' ''r1'' ''pem'' 1, VC_auth_begin 7 sample_auth 2,
      VC_auth_end 7 sample_auth (Some \<lparr>rr_runner_id = ''r1'', rr_public_key_pem = ''pem'', rr_generation = 1, rr_last_seen_at = None\<rparr>) None 2,
      VC_reconcile_begin 7 (reconcile_request_of connected_daemon) 3,
      VC_reconcile_end 7 (reconcile_request_of connected_daemon) (''r1'', 1) (Inr []) 3]"

definition sample_arrival :: "server_call list" where
  "sample_arrival = [VC_event_receive 7 (hd (sent (sf_trace connected_daemon))) 4, VC_event_check 7 4]"

fun server_calls_ok :: "deployment \<Rightarrow> ident \<Rightarrow> event_envelope set \<Rightarrow> server_call list \<Rightarrow> relay_server \<Rightarrow> bool" where
  "server_calls_ok dp k E [] sv \<longleftrightarrow> True"
| "server_calls_ok dp k E (c # cs) sv \<longleftrightarrow> server_call_ok k E c sv \<and> server_calls_ok dp k E cs (do_server_call dp c sv)"

lemma server_calls_reachable:
  "system_reachable env dp k (sv, d) \<Longrightarrow> server_calls_ok dp k (set (sent (sf_trace d))) cs sv \<Longrightarrow>
     system_reachable env dp k (fold (do_server_call dp) cs sv, d)"
  by (induction cs arbitrary: sv) (auto intro: system_reachable_step system_step.server)

definition sample_server :: relay_server where
  "sample_server = fold (do_server_call sample_deployment) (sample_handshake @ sample_arrival) new_server"

lemma sample_system_reachable: "system_reachable sample_env sample_deployment ''r1'' (sample_server, connected_daemon)"
proof -
  have "system_reachable sample_env sample_deployment ''r1'' (new_server, enrolled_daemon)"
    unfolding system_reachable_def enrolled_daemon_def by blast
  then have "system_reachable sample_env sample_deployment ''r1'' (new_server, do_daemon_call sample_env DC_authenticated enrolled_daemon)"
    by (rule system_reachable_step) (rule system_step.runner; simp)
  then have r: "system_reachable sample_env sample_deployment ''r1'' (new_server, connected_daemon)"
    unfolding connected_daemon_def by (rule system_reachable_step) (rule system_step.runner; simp)
  have "server_calls_ok sample_deployment ''r1'' (set (sent (sf_trace connected_daemon))) (sample_handshake @ sample_arrival) new_server"
    by code_simp
  from server_calls_reachable [OF r this] show ?thesis unfolding sample_server_def .
qed

definition arrival_logged :: "relay_server \<Rightarrow> bool" where
  "arrival_logged sv \<longleftrightarrow> eventsFor ''r1'' (sv_stores sv) = []
     \<and> eventsFor ''r1'' (sv_stores (do_server_call sample_deployment (VC_event_apply 7 None 5) sv))
         = [hd (emitted (sf_trace connected_daemon))]"

lemma sample_arrival_logged: "arrival_logged sample_server"
  by code_simp

lemma sample_logs:
  "eventsFor ''r1'' (sv_stores sample_server) = []"
  "eventsFor ''r1'' (sv_stores (do_server_call sample_deployment (VC_event_apply 7 None 5) sample_server))
     = [hd (emitted (sf_trace connected_daemon))]"
  using sample_arrival_logged by (simp_all add: arrival_logged_def)

theorem delivery_refines_channel_witness:
  "channel_step\<^sup>*\<^sup>* (emitted (sf_trace connected_daemon), [])
     (emitted (sf_trace connected_daemon), [hd (emitted (sf_trace connected_daemon))])"
proof -
  have "system_step sample_env sample_deployment ''r1'' (sample_server, connected_daemon)
      (do_server_call sample_deployment (VC_event_apply 7 None 5) sample_server, connected_daemon)"
    by (rule system_step.server) simp
  from delivery_refines_channel [OF sample_system_reachable this] show ?thesis
    by (simp only: channel_of_def fst_conv snd_conv sample_logs)
qed

theorem no_event_lost_witness:
  "prefix [hd (emitted (sf_trace connected_daemon))] (emitted (sf_trace connected_daemon))
   \<and> set (emitted (sf_trace connected_daemon))
       \<subseteq> {hd (emitted (sf_trace connected_daemon))} \<union> set (rn_buffer (sf_state connected_daemon))"
proof -
  have "system_reachable sample_env sample_deployment ''r1''
      (do_server_call sample_deployment (VC_event_apply 7 None 5) sample_server, connected_daemon)"
    by (rule system_reachable_step [OF sample_system_reachable]) (rule system_step.server, simp)
  from no_event_lost [OF this] show ?thesis unfolding sample_logs(2) by simp
qed

subsection \<open>A skipped number stops the delivery\<close>

lemma skips_start:
  assumes "daemon_ok d" "w < rn_seq (sf_state d)" "w + 1 \<notin> ev_event_seq ` set (emitted (sf_trace d))"
  shows "skips (length (sf_trace d)) w d"
proof -
  have d: "disk (sf_trace d) = Some (sf_state d)" using assms(1) by (simp add: daemon_ok_def file_ok_def)
  have "cut_skips (length (sf_trace d)) w (take n (sf_trace d))" for n
    using assms(2) d by (cases "n < length (sf_trace d)") (simp_all add: cut_skips_def)
  with assms(2,3) show ?thesis by (simp add: skips_def all_cuts_def)
qed

lemma skips_reopened:
  assumes s: "skips n w d" and st: "disk (take m (sf_trace d)) = Some st" and m: "n \<le> m"
  shows "skips n w (new_daemon opts (open_file (Some (Current_file st)) r key g (take m (sf_trace d))))"
proof -
  let ?tr = "take m (sf_trace d)"
  have n: "n \<le> length ?tr" using s m by (simp add: skips_def)
  have "cut_skips n w ?tr" using s unfolding skips_def all_cuts_def by blast
  then have "w < rn_seq st" using st n by (simp add: cut_skips_def)
  moreover have "set (emitted ?tr) \<subseteq> set (emitted (sf_trace d))"
    using emitted_prefix [OF take_is_prefix] by (rule set_mono_prefix)
  moreover have "sf_trace (open_file (Some (Current_file st)) r key g ?tr) = ?tr" "sf_state (open_file (Some (Current_file st)) r key g ?tr) = st"
    by (simp_all add: open_file_def opened_def)
  ultimately show ?thesis using s n by (auto simp: skips_def all_cuts_take)
qed

lemma skipping_step:
  assumes "system_step env dp k s s'" "system_ok k s" "skips n w (snd s)" "eventWatermark k (sv_stores (fst s)) = w"
  shows "skips n w (snd s') \<and> eventWatermark k (sv_stores (fst s')) = w
    \<and> eventsFor k (sv_stores (fst s')) = eventsFor k (sv_stores (fst s))"
  using assms(1)
proof (cases rule: system_step.cases)
  case (server d c sv)
  have ok: "system_ok k s'" using system_step_ok [OF assms(1,2)] by blast
  have sub: "set (eventsFor k (sv_stores (do_server_call dp c sv))) \<subseteq> set (emitted (sf_trace d))"
    using ok server server_okD(3) by (auto simp: system_ok_def)
  have "eventsFor k (sv_stores (do_server_call dp c sv)) = eventsFor k (sv_stores sv)
      \<and> eventWatermark k (sv_stores (do_server_call dp c sv)) = eventWatermark k (sv_stores sv)"
    using server_log_step [of dp c sv]
  proof (elim disjE exE)
    fix e assume v: "event_view (sv_stores (do_server_call dp c sv)) = event_view (snd (ingestEvent e (sv_stores sv)))"
    have "e \<in> set (emitted (sf_trace d))" if "k = ev_runner_id e \<and> ev_event_seq e = eventWatermark k (sv_stores sv) + 1"
      using view_eq [OF v, of k] sub that by (auto simp: log_views)
    then have "\<not> (k = ev_runner_id e \<and> ev_event_seq e = eventWatermark k (sv_stores sv) + 1)"
      using assms(3,4) server by (force simp: skips_def image_iff)
    with view_eq [OF v, of k] show ?thesis by (auto simp: log_views)
  qed (auto dest: view_eq [where k = k])
  with assms(3,4) server show ?thesis by simp
next
  case (runner c d sv)
  with assms(3,4) skipped.daemon_call_I [of n w d c env] show ?thesis by simp
next
  case (crash c d sv m st opts r key g)
  have "skips n w (do_daemon_call env c d)" using crash assms(3) by (simp add: skipped.daemon_call_I)
  moreover have "n \<le> m" using assms(3) crash by (simp add: skips_def)
  ultimately show ?thesis using skips_reopened crash assms(4) by simp
qed

text \<open>
  C38: A skipped sequence number stops the event channel for good. When the counter of a runner has
  passed the number the relay waits for and no emitted event carries it, then the relay accepts no
  further event of this runner, whatever happens afterwards: reconnecting, reconciling and restarting
  included. (A crash between the two writes of \<^verbatim>\<open>emit\<close> skips a number, see the witness.)
\<close>

theorem skipped_number_stops_delivery:
  assumes "system_reachable env dp k (sv, d)"
    and "eventWatermark k (sv_stores sv) < rn_seq (sf_state d)"
    and "eventWatermark k (sv_stores sv) + 1 \<notin> ev_event_seq ` set (emitted (sf_trace d))"
    and "(system_step env dp k)\<^sup>*\<^sup>* (sv, d) (sv', d')"
  shows "eventsFor k (sv_stores sv') = eventsFor k (sv_stores sv)"
proof -
  define w where "w = eventWatermark k (sv_stores sv)"
  define n where "n = length (sf_trace d)"
  have ok: "system_ok k (sv, d)" by (rule system_reachable_ok [OF assms(1)])
  have s: "skips n w d" unfolding n_def w_def using ok assms(2,3) by (intro skips_start) (simp_all add: system_ok_def)
  have "system_ok k s' \<and> skips n w (snd s') \<and> eventWatermark k (sv_stores (fst s')) = w
      \<and> eventsFor k (sv_stores (fst s')) = eventsFor k (sv_stores sv)"
    if "(system_step env dp k)\<^sup>*\<^sup>* (sv, d) s'" for s'
    using that
  proof (induction rule: rtranclp_induct)
    case base
    show ?case using ok s by (simp add: w_def)
  next
    case (step y z)
    then show ?case using skipping_step [OF step.hyps(2)] system_step_ok [OF step.hyps(2)] by metis
  qed
  from this [OF assms(4)] show ?thesis by simp
qed

text \<open>
  The runner that crashed after the write of \<^verbatim>\<open>nextSeq\<close>; it then connects and acknowledges the redelivered
  command with number 2. The relay receives that event, and answers that it has none.
\<close>

lemma crashed_system_reachable: "system_reachable sample_env sample_deployment ''r1'' (new_server, crashed_daemon 3)"
proof -
  have "system_reachable sample_env sample_deployment ''r1'' (new_server, enrolled_daemon)"
    unfolding system_reachable_def enrolled_daemon_def by blast
  moreover obtain st where st: "disk (take 3 sample_trace) = Some st"
    and c: "crashed_daemon 3 = new_daemon sample_options (open_file (Some (Current_file st)) ''r1'' [] 1 (take 3 sample_trace))"
  proof -
    have "disk (take 3 sample_trace) \<noteq> None" by code_simp
    then show thesis using that by (auto simp: crashed_daemon_def)
  qed
  moreover have "length (sf_trace enrolled_daemon) \<le> 3" by code_simp
  ultimately show ?thesis
    unfolding c sample_trace_def by (intro system_reachable_step [OF _ system_step.crash]) simp_all
qed

definition restarted_daemon :: daemon where
  "restarted_daemon = do_daemon_call sample_env (DC_command 6 (sample_command (CP_launch_fixture ''count:1:1'')))
     (do_daemon_call sample_env DC_authenticated (crashed_daemon 3))"

definition stalled_server :: relay_server where
  "stalled_server = fold (do_server_call sample_deployment)
     (sample_handshake @ [VC_event_receive 7 (hd (sent (sf_trace restarted_daemon))) 8, VC_event_check 7 8, VC_event_apply 7 None 8])
     new_server"

lemma server_calls_steps:
  "server_calls_ok dp k (set (sent (sf_trace d))) cs sv \<Longrightarrow> (system_step env dp k)\<^sup>*\<^sup>* (sv, d) (fold (do_server_call dp) cs sv, d)"
proof (induction cs arbitrary: sv)
  case (Cons c cs)
  then have "system_step env dp k (sv, d) (do_server_call dp c sv, d)" by (intro system_step.server) simp
  with Cons show ?case by (simp add: converse_rtranclp_into_rtranclp)
qed simp

definition skips_one :: "daemon \<Rightarrow> bool" where
  "skips_one d \<longleftrightarrow> eventWatermark ''r1'' (sv_stores new_server) < rn_seq (sf_state d)
     \<and> eventWatermark ''r1'' (sv_stores new_server) + 1 \<notin> ev_event_seq ` set (emitted (sf_trace d))"

lemma crashed_skips_one: "skips_one (crashed_daemon 3)"
  by code_simp

theorem skipped_number_stops_delivery_witness:
  "map ev_event_seq (sent (sf_trace restarted_daemon)) = [2] \<and> eventsFor ''r1'' (sv_stores stalled_server) = []
   \<and> last (sv_sent stalled_server) = (7, SF_event_ack 0)"
proof (intro conjI)
  have g: "eventWatermark ''r1'' (sv_stores new_server) < rn_seq (sf_state (crashed_daemon 3))"
    "eventWatermark ''r1'' (sv_stores new_server) + 1 \<notin> ev_event_seq ` set (emitted (sf_trace (crashed_daemon 3)))"
    using crashed_skips_one unfolding skips_one_def by blast+
  let ?step = "system_step sample_env sample_deployment ''r1''"
  have "?step (new_server, crashed_daemon 3) (new_server, do_daemon_call sample_env DC_authenticated (crashed_daemon 3))"
    by (rule system_step.runner) simp_all
  moreover have "?step (new_server, do_daemon_call sample_env DC_authenticated (crashed_daemon 3)) (new_server, restarted_daemon)"
    unfolding restarted_daemon_def by (rule system_step.runner) simp_all
  moreover have "?step\<^sup>*\<^sup>* (new_server, restarted_daemon) (stalled_server, restarted_daemon)"
    unfolding stalled_server_def by (rule server_calls_steps) code_simp
  ultimately have "?step\<^sup>*\<^sup>* (new_server, crashed_daemon 3) (stalled_server, restarted_daemon)"
    by (meson converse_rtranclp_into_rtranclp)
  then have "eventsFor ''r1'' (sv_stores stalled_server) = eventsFor ''r1'' (sv_stores new_server)"
    by (rule skipped_number_stops_delivery [OF crashed_system_reachable g])
  also have "\<dots> = []" by code_simp
  finally show "eventsFor ''r1'' (sv_stores stalled_server) = []" .
  show "map ev_event_seq (sent (sf_trace restarted_daemon)) = [2]" by code_simp
  show "last (sv_sent stalled_server) = (7, SF_event_ack 0)" by code_simp
qed

subsection \<open>A command that is reaped before it was executing\<close>

text \<open>
  The daemon records \<^verbatim>\<open>executing\<close> durably before it acknowledges \<^verbatim>\<open>accepted\<close>, and acknowledges
  \<^verbatim>\<open>executing\<close> only later. When it crashes in between, the reconciliation emits \<^verbatim>\<open>failed\<close> for the command,
  but the state machine of the relay has no transition from \<^verbatim>\<open>accepted\<close> to \<^verbatim>\<open>failed\<close>: the command stays
  \<^verbatim>\<open>accepted\<close>, although its only terminal acknowledgement is in the log.
\<close>

definition reaped_daemon :: daemon where
  "reaped_daemon = do_daemon_call sample_env (DC_reconcile 9 sample_response)
     (do_daemon_call sample_env DC_authenticated (crashed_daemon 4))"

definition reaping_server :: relay_server where
  "reaping_server = fold (do_server_call sample_deployment)
     (sample_handshake @ VC_issue ''r1'' (CP_launch_fixture ''count:1:1'') ''p'' ''k'' ''s'' ''c1'' ''launch_fixture'' 100 4
        # concat (map (\<lambda>e. [VC_event_receive 7 e 9, VC_event_check 7 9, VC_event_apply 7 None 9]) (sent (sf_trace reaped_daemon))))
     new_server"

definition stays_accepted :: "relay_stores \<Rightarrow> bool" where
  "stays_accepted r \<longleftrightarrow> map ev_payload (eventsFor ''r1'' r) =
       [EP_command_ack ''c1'' C_accepted [],
        EP_command_ack ''c1'' C_failed ''runner restarted; the execution process was lost before it reported a result'']
     \<and> map_option cr_state (jget (ss_commands (rl_state r)) ''c1'') = Some C_accepted"

lemma reaped_stays_accepted: "stays_accepted (sv_stores reaping_server)"
  by code_simp

lemma reaped_command_stays_accepted:
  "map ev_payload (eventsFor ''r1'' (sv_stores reaping_server)) =
     [EP_command_ack ''c1'' C_accepted [],
      EP_command_ack ''c1'' C_failed ''runner restarted; the execution process was lost before it reported a result'']"
  "map_option cr_state (jget (ss_commands (rl_state (sv_stores reaping_server))) ''c1'') = Some C_accepted"
  using reaped_stays_accepted unfolding stays_accepted_def by blast+

subsection \<open>Pairing again over an existing state file\<close>

text \<open>
  \<^verbatim>\<open>pair\<close> stores the new key and the new generation by opening the state file with them, but an existing
  file wins. A runner that is paired again in its data directory retains the key and the generation that
  the relay has just fenced.
\<close>

lemma pairing_again_fences_itself:
  assumes "pairing_complete code (rn_runner_id st) pem now sv = (Some g, sv')"
    and "map_option rr_generation (runner_of (rn_runner_id st) sv) = Some (rn_generation st)"
  shows "map_option rr_generation (runner_of (rn_runner_id st) sv') = Some (rn_generation st + 1)"
    "sf_state (open_file (Some (Current_file st)) (rn_runner_id st) key g tr) = st"
proof -
  obtain r x r1 where c: "consumePairing code now (sv_stores sv) = (True, r)" "registerRunner (rn_runner_id st) pem r = (x, r1)"
    and sv': "sv' = on_stores (audit (runner_actor (rn_runner_id st)) ''pairing.completed'' (''generation='' @ dec (rr_generation x)) now)
        (fence_socket (rn_runner_id st) (Some (rr_generation x)) (sv\<lparr>sv_stores := r1\<rparr>))"
    using assms(1) by (auto simp: pairing_complete_def split: prod.splits bool.splits)
  have "ss_runners (rl_state r) = ss_runners (rl_state (sv_stores sv))"
    using c(1) by (auto simp: consumePairing_def changed_def on_state_def split: option.splits)
  with c(2) assms(2) have "map_option rr_generation (jget (ss_runners (rl_state r1)) (rn_runner_id st)) = Some (rn_generation st + 1)"
    by (auto simp: registerRunner_def put_runner_def changed_def on_state_def Let_def next_generation_def runner_of_def)
  moreover have "sv_stores (fence_socket k g' v) = sv_stores v" for k g' v
    by (simp add: fence_socket_def Let_def sendFrame_def close_socket_def split: option.split)
  ultimately show "map_option rr_generation (runner_of (rn_runner_id st) sv') = Some (rn_generation st + 1)"
    by (simp add: sv' runner_of_def audit_def changed_def on_state_def on_stores_def)
  show "sf_state (open_file (Some (Current_file st)) (rn_runner_id st) key g tr) = st"
    by (simp add: open_file_def opened_def)
qed

end
