(* ===== verification/Dispatch.thy ===== *)
theory Dispatch
  imports Replay
begin

section \<open>Durable dispatch jobs and the dispatch loop\<close>

text \<open>
  \<^verbatim>\<open>apps/server/src/engine/dispatch.ts\<close> (class \<^verbatim>\<open>DispatchStore\<close>) and
  \<^verbatim>\<open>apps/server/src/engine/dispatchLoop.ts\<close> (class \<^verbatim>\<open>DispatchLoop\<close>).

  A job is an object of the map \<^verbatim>\<open>jobs\<close>; the methods assign to its fields in place, which here
  is an update of the map at its key. The clock and the deliverer are arguments: iteration
  \<open>n\<close> of a tick reads the clock when it claims (\<open>tw_claim_time n\<close>) and, when the
  delivery was rejected, once more (\<open>tw_fail_time n\<close>); \<open>tw_deliver n job\<close> is the command
  identifier that \<^verbatim>\<open>deliver\<close> resolved to, or \<^term>\<open>None\<close> when it rejected; \<open>tw_others n\<close> is what
  the other users of the store do to it while that delivery is awaited.

  \<^verbatim>\<open>for (;;)\<close> of \<^verbatim>\<open>tick\<close> has no bound of its own, so the loop is a partial function and
  \<^term>\<open>None\<close> means that it never returns.
\<close>

subsection \<open>Jobs\<close>

datatype job_status = J_queued | J_leased | J_done | J_failed

record 'p dispatch_job =
  dj_id :: ident
  dj_node_id :: ident
  dj_command_id :: "ident option"
  dj_runner_id :: ident
  dj_status :: job_status
  dj_attempts :: nat
  dj_available_at :: millis
  dj_lease_owner :: "ident option"
  dj_lease_expires_at :: "millis option"
  dj_payload :: 'p

record 'p dispatch_store =
  ds_jobs :: "(ident, 'p dispatch_job) jmap"
  ds_counter :: nat

definition new_dispatch_store :: "'p dispatch_store" where
  "new_dispatch_store = \<lparr>ds_jobs = [], ds_counter = 0\<rparr>"

definition job_name :: "nat \<Rightarrow> ident" where
  "job_name n = ''job_'' @ dec n"

definition enqueue ::
    "ident \<Rightarrow> ident \<Rightarrow> 'p \<Rightarrow> millis option \<Rightarrow> 'p dispatch_store \<Rightarrow> 'p dispatch_job \<times> 'p dispatch_store" where
  "enqueue node_id runner_id payload available_at s =
     (let n = ds_counter s + 1;
          job = \<lparr>dj_id = job_name n, dj_node_id = node_id, dj_command_id = None, dj_runner_id = runner_id,
                 dj_status = J_queued, dj_attempts = 0,
                 dj_available_at = (case available_at of None \<Rightarrow> 0 | Some t \<Rightarrow> t),
                 dj_lease_owner = None, dj_lease_expires_at = None, dj_payload = payload\<rparr>
      in (job, \<lparr>ds_jobs = jset (dj_id job) job (ds_jobs s), ds_counter = n\<rparr>))"

definition lease_expired :: "millis \<Rightarrow> 'p dispatch_job \<Rightarrow> bool" where
  "lease_expired now job \<longleftrightarrow>
     dj_status job = J_leased \<and> (case dj_lease_expires_at job of None \<Rightarrow> False | Some t \<Rightarrow> t \<le> now)"

definition eligible :: "millis \<Rightarrow> 'p dispatch_job \<Rightarrow> bool" where
  "eligible now job \<longleftrightarrow>
     (dj_status job = J_queued \<or> lease_expired now job) \<and> dj_available_at job \<le> now"

definition leased_to :: "ident \<Rightarrow> millis \<Rightarrow> 'p dispatch_job \<Rightarrow> 'p dispatch_job" where
  "leased_to owner expires job =
     job\<lparr>dj_status := J_leased, dj_attempts := dj_attempts job + 1, dj_lease_owner := Some owner,
         dj_lease_expires_at := Some expires\<rparr>"

definition claim ::
    "ident \<Rightarrow> millis \<Rightarrow> millis \<Rightarrow> 'p dispatch_store \<Rightarrow> 'p dispatch_job option \<times> 'p dispatch_store" where
  "claim owner now leaseMs s =
     (case List.find (\<lambda>e. eligible now (snd e)) (ds_jobs s) of
        None \<Rightarrow> (None, s)
      | Some (k, job) \<Rightarrow>
          let job' = leased_to owner (now + leaseMs) job
          in (Some job', s\<lparr>ds_jobs := jset k job' (ds_jobs s)\<rparr>))"

definition on_job ::
    "ident \<Rightarrow> ('p dispatch_job \<Rightarrow> 'p dispatch_job) \<Rightarrow> 'p dispatch_store \<Rightarrow> 'p dispatch_store" where
  "on_job jobId f s =
     (case jget (ds_jobs s) jobId of
        None \<Rightarrow> s
      | Some job \<Rightarrow> s\<lparr>ds_jobs := jset jobId (f job) (ds_jobs s)\<rparr>)"

definition completed_job :: "ident option \<Rightarrow> 'p dispatch_job \<Rightarrow> 'p dispatch_job" where
  "completed_job commandId job =
     job\<lparr>dj_status := J_done,
         dj_command_id := (case commandId of None \<Rightarrow> dj_command_id job | Some c \<Rightarrow> Some c),
         dj_lease_owner := None, dj_lease_expires_at := None\<rparr>"

definition complete_job :: "ident \<Rightarrow> ident option \<Rightarrow> 'p dispatch_store \<Rightarrow> 'p dispatch_store" where
  "complete_job jobId commandId s = on_job jobId (completed_job commandId) s"

definition requeued_job :: "millis \<Rightarrow> 'p dispatch_job \<Rightarrow> 'p dispatch_job" where
  "requeued_job available job =
     job\<lparr>dj_status := J_queued, dj_lease_owner := None, dj_lease_expires_at := None,
         dj_available_at := available\<rparr>"

definition fail_job :: "ident \<Rightarrow> millis \<Rightarrow> millis \<Rightarrow> 'p dispatch_store \<Rightarrow> 'p dispatch_store" where
  "fail_job jobId now retryDelayMs s = on_job jobId (requeued_job (now + retryDelayMs)) s"

definition get_job :: "ident \<Rightarrow> 'p dispatch_store \<Rightarrow> 'p dispatch_job option" where
  "get_job jobId s = jget (ds_jobs s) jobId"

subsection \<open>The loop\<close>

record loop_options =
  lo_owner :: ident
  lo_leaseMs :: millis
  lo_retryDelayMs :: millis

definition default_loop_options :: loop_options where
  "default_loop_options =
     \<lparr>lo_owner = ''dispatcher-1'', lo_leaseMs = 30000, lo_retryDelayMs = 1000\<rparr>"

record 'p tick_world =
  tw_claim_time :: "nat \<Rightarrow> millis"
  tw_deliver :: "nat \<Rightarrow> 'p dispatch_job \<Rightarrow> ident option"
  tw_fail_time :: "nat \<Rightarrow> millis"
  tw_others :: "nat \<Rightarrow> 'p dispatch_store \<Rightarrow> 'p dispatch_store"

definition settle_delivery ::
    "loop_options \<Rightarrow> 'p tick_world \<Rightarrow> nat \<Rightarrow> 'p dispatch_job \<Rightarrow> 'p dispatch_store \<Rightarrow> 'p dispatch_store" where
  "settle_delivery opts w n job s =
     (case tw_deliver w n job of
        Some commandId \<Rightarrow> complete_job (dj_id job) (Some commandId) (tw_others w n s)
      | None \<Rightarrow> fail_job (dj_id job) (tw_fail_time w n) (lo_retryDelayMs opts) (tw_others w n s))"

partial_function (option) tick_loop ::
    "loop_options \<Rightarrow> 'p tick_world \<Rightarrow> nat \<Rightarrow> nat \<Rightarrow> 'p dispatch_store \<Rightarrow> (nat \<times> 'p dispatch_store) option" where
  "tick_loop opts w n delivered s =
     (case claim (lo_owner opts) (tw_claim_time w n) (lo_leaseMs opts) s of
        (None, s') \<Rightarrow> Some (delivered, s')
      | (Some job, s') \<Rightarrow>
          tick_loop opts w (Suc n)
            (if tw_deliver w n job = None then delivered else Suc delivered)
            (settle_delivery opts w n job s'))"

definition tick ::
    "loop_options \<Rightarrow> bool \<Rightarrow> 'p tick_world \<Rightarrow> 'p dispatch_store \<Rightarrow> (nat \<times> 'p dispatch_store) option" where
  "tick opts killSwitchEngaged w s =
     (if killSwitchEngaged then Some (0, s) else tick_loop opts w 0 0 s)"

subsection \<open>The invariant of the store\<close>

definition job_ok :: "nat \<Rightarrow> ident \<Rightarrow> 'p dispatch_job \<Rightarrow> bool" where
  "job_ok n k job \<longleftrightarrow>
     dj_id job = k \<and> (\<exists>i\<in>{1..n}. k = job_name i) \<and> dj_status job \<noteq> J_failed \<and>
     (dj_status job = J_leased \<longleftrightarrow> dj_lease_owner job \<noteq> None) \<and>
     (dj_status job = J_leased \<longleftrightarrow> dj_lease_expires_at job \<noteq> None)"

definition dispatch_ok :: "'p dispatch_store \<Rightarrow> bool" where
  "dispatch_ok s \<longleftrightarrow>
     jwf (ds_jobs s) \<and> (\<forall>k job. jget (ds_jobs s) k = Some job \<longrightarrow> job_ok (ds_counter s) k job)"

datatype 'p store_call =
    SC_enqueue ident ident 'p "millis option"
  | SC_claim ident millis millis
  | SC_complete ident "ident option"
  | SC_fail ident millis millis

fun do_store_call :: "'p store_call \<Rightarrow> 'p dispatch_store \<Rightarrow> 'p dispatch_store" where
  "do_store_call (SC_enqueue n r p t) s = snd (enqueue n r p t s)"
| "do_store_call (SC_claim owner now lease) s = snd (claim owner now lease s)"
| "do_store_call (SC_complete j c) s = complete_job j c s"
| "do_store_call (SC_fail j now d) s = fail_job j now d s"

lemma job_name_inject [simp]: "job_name m = job_name n \<longleftrightarrow> m = n"
  by (simp add: job_name_def)

lemma find_SomeD: "List.find P xs = Some x \<Longrightarrow> x \<in> set xs \<and> P x"
  by (metis find_Some_iff nth_mem)

lemma claim_NoneD: "claim owner now lease s = (None, s') \<Longrightarrow> s' = s \<and> (\<forall>e \<in> set (ds_jobs s). \<not> eligible now (snd e))"
  by (auto simp: claim_def Let_def find_None_iff split: option.splits prod.splits)

lemma claim_SomeD:
  assumes "claim owner now lease s = (Some job', s')" "dispatch_ok s"
  obtains k job where "jget (ds_jobs s) k = Some job" "eligible now job" "dj_id job = k"
    "job' = leased_to owner (now + lease) job" "s' = s\<lparr>ds_jobs := jset k job' (ds_jobs s)\<rparr>"
proof -
  from assms(1) obtain k job where f: "List.find (\<lambda>e. eligible now (snd e)) (ds_jobs s) = Some (k, job)"
    and "job' = leased_to owner (now + lease) job" "s' = s\<lparr>ds_jobs := jset k job' (ds_jobs s)\<rparr>"
    by (auto simp: claim_def Let_def split: option.splits)
  moreover from find_SomeD [OF f] assms(2) have "jget (ds_jobs s) k = Some job" "eligible now job"
    by (auto simp: dispatch_ok_def)
  moreover from this assms(2) have "dj_id job = k"
    by (auto simp: dispatch_ok_def job_ok_def)
  ultimately show ?thesis using that by blast
qed

lemma job_ok_changes [simp]:
  "job_ok n k job \<Longrightarrow> job_ok n k (leased_to owner t job)"
  "job_ok n k job \<Longrightarrow> job_ok n k (completed_job c job)"
  "job_ok n k job \<Longrightarrow> job_ok n k (requeued_job t job)"
  by (auto simp: job_ok_def leased_to_def completed_job_def requeued_job_def)

lemma dispatch_ok_enqueue: "dispatch_ok s \<Longrightarrow> dispatch_ok (snd (enqueue n r p t s))"
  by (fastforce simp: dispatch_ok_def enqueue_def Let_def job_ok_def split: if_splits)

lemma dispatch_okD: "dispatch_ok s \<Longrightarrow> jget (ds_jobs s) k = Some job \<Longrightarrow> job_ok (ds_counter s) k job"
  by (simp add: dispatch_ok_def)

lemma dispatch_ok_update:
  "dispatch_ok s \<Longrightarrow> job_ok (ds_counter s) k job \<Longrightarrow> dispatch_ok (s\<lparr>ds_jobs := jset k job (ds_jobs s)\<rparr>)"
  unfolding dispatch_ok_def by (simp del: map_of_eq_Some_iff)

lemma dispatch_ok_claim: "dispatch_ok s \<Longrightarrow> dispatch_ok (snd (claim owner now lease s))"
  by (cases "claim owner now lease s"; cases "fst (claim owner now lease s)")
     (auto dest!: claim_NoneD elim!: claim_SomeD intro!: dispatch_ok_update dest: dispatch_okD)

lemma dispatch_ok_on_job:
  "dispatch_ok s \<Longrightarrow> (\<And>n k job. job_ok n k job \<Longrightarrow> job_ok n k (f job)) \<Longrightarrow> dispatch_ok (on_job j f s)"
  by (auto simp: on_job_def intro!: dispatch_ok_update dest: dispatch_okD split: option.splits)

lemma dispatch_ok_complete_fail [simp]:
  "dispatch_ok s \<Longrightarrow> dispatch_ok (complete_job j c s)"
  "dispatch_ok s \<Longrightarrow> dispatch_ok (fail_job j now d s)"
  by (simp_all add: complete_job_def fail_job_def dispatch_ok_on_job)

lemma dispatch_ok_new: "dispatch_ok new_dispatch_store"
  by (simp add: dispatch_ok_def new_dispatch_store_def)

interpretation dispatch: object_invariant do_store_call "\<lambda>c s. True" dispatch_ok
proof
  fix c and s :: "'p dispatch_store"
  assume "dispatch_ok s"
  then show "dispatch_ok (do_store_call c s)"
    by (cases c) (simp_all add: dispatch_ok_enqueue dispatch_ok_claim)
qed

subsection \<open>Leases\<close>

definition respects_lease :: "ident \<Rightarrow> millis \<Rightarrow> 'p store_call \<Rightarrow> bool" where
  "respects_lease k expires c =
     (case c of
        SC_enqueue _ _ _ _ \<Rightarrow> True
      | SC_claim _ now _ \<Rightarrow> now < expires
      | SC_complete j _ \<Rightarrow> j \<noteq> k
      | SC_fail j _ _ \<Rightarrow> j \<noteq> k)"

lemma leased_not_eligible:
  "now < expires \<Longrightarrow> \<not> eligible now (leased_to owner expires job)"
  by (simp add: eligible_def lease_expired_def leased_to_def)

lemma claim_other:
  assumes "dispatch_ok s" "get_job k s = Some job" "\<not> eligible now job"
  shows "get_job k (snd (claim owner now lease s)) = Some job"
    and "fst (claim owner now lease s) = Some job' \<Longrightarrow> dj_id job' \<noteq> k"
  using assms
  by (cases "claim owner now lease s"; cases "fst (claim owner now lease s)";
      auto dest!: claim_NoneD elim!: claim_SomeD simp: get_job_def leased_to_def)+

lemma on_job_other: "j \<noteq> k \<Longrightarrow> get_job k (on_job j f s) = get_job k s"
  by (simp add: on_job_def get_job_def split: option.splits)

lemma enqueue_other:
  assumes "dispatch_ok s" "get_job k s = Some job"
  shows "get_job k (snd (enqueue n r p t s)) = Some job"
proof -
  from dispatch_okD [OF assms(1)] assms(2) have "k \<noteq> job_name (ds_counter s + 1)"
    by (fastforce simp: get_job_def job_ok_def)
  with assms(2) show ?thesis by (simp add: enqueue_def Let_def get_job_def)
qed

lemma lease_lasts:
  assumes "respects_lease k expires c" "dispatch_ok s" "get_job k s = Some (leased_to owner expires job)"
  shows "get_job k (do_store_call c s) = Some (leased_to owner expires job)"
  using assms
  by (cases c) (simp_all add: respects_lease_def enqueue_other claim_other leased_not_eligible
      complete_job_def fail_job_def on_job_other)

lemma lease_lasts_calls:
  assumes "list_all (respects_lease k expires) cs" "dispatch_ok s"
    "get_job k s = Some (leased_to owner expires job)"
  shows "get_job k (fold do_store_call cs s) = Some (leased_to owner expires job)"
  using assms
proof (induction cs arbitrary: s)
  case (Cons c cs)
  from Cons.prems show ?case
    by (simp add: Cons.IH dispatch.call_keeps lease_lasts)
qed simp

lemma reachable_dispatch_ok: "dispatch_ok (fold do_store_call cs new_dispatch_store)"
  using dispatch.calls_keep [OF _ dispatch_ok_new, of cs] by (simp add: obeys_stateless list_all_iff)

text \<open>C11: A claimed job belongs to its claimant. Whatever calls the users of the store make after the
  claim, as long as nobody completes or fails that job and no claim is made at a time when the
  lease has expired, every later claim returns another job and the claimed job stays exactly
  as its claimant got it.\<close>

theorem lease_exclusive:
  assumes "claim owner now lease (fold do_store_call before new_dispatch_store) = (Some job, s)"
    and "list_all (respects_lease (dj_id job) (now + lease)) calls"
    and "claim other later lease' (fold do_store_call calls s) = (Some job', s')"
    and "later < now + lease"
  shows "dj_id job' \<noteq> dj_id job \<and> get_job (dj_id job) s' = Some job"
proof -
  let ?s = "fold do_store_call calls s"
  obtain k job0 where k: "jget (ds_jobs (fold do_store_call before new_dispatch_store)) k = Some job0"
    "dj_id job0 = k" "job = leased_to owner (now + lease) job0"
    "s = (fold do_store_call before new_dispatch_store)\<lparr>ds_jobs :=
        jset k job (ds_jobs (fold do_store_call before new_dispatch_store))\<rparr>"
    using claim_SomeD [OF assms(1) reachable_dispatch_ok] by metis
  then have id: "dj_id job = k" and got: "get_job k s = Some job"
    by (simp_all add: leased_to_def get_job_def)
  have ok: "dispatch_ok s"
    using dispatch_ok_claim [OF reachable_dispatch_ok [of before], of owner now lease] assms(1) by simp
  have "get_job k ?s = Some job"
    using lease_lasts_calls [of k "now + lease" calls s owner job0] assms(2) ok got k(3) id by simp
  moreover have "dispatch_ok ?s"
    using dispatch.calls_keep [OF _ ok, of calls] by (simp add: obeys_stateless list_all_iff)
  moreover have "\<not> eligible later job"
    using leased_not_eligible [OF assms(4)] k(3) by simp
  ultimately show ?thesis
    using claim_other [of ?s k job later other lease'] assms(3) id by simp
qed

theorem lease_exclusive_witness:
  "let calls = [SC_enqueue ''a'' ''r'' () None, SC_enqueue ''b'' ''r'' () None];
       s = snd (claim ''d1'' 10 30 (fold do_store_call calls new_dispatch_store));
       r = claim ''d2'' 39 30 (do_store_call (SC_complete ''job_7'' None) s)
   in map_option dj_id (fst r) = Some ''job_2'' \<and>
      map_option dj_lease_owner (get_job ''job_1'' (snd r)) = Some (Some ''d1'')"
proof -
  let ?calls = "[SC_enqueue ''a'' ''r'' () None, SC_enqueue ''b'' ''r'' () None]"
  let ?c = "claim ''d1'' 10 30 (fold do_store_call ?calls new_dispatch_store)"
  let ?r = "claim ''d2'' 39 30 (do_store_call (SC_complete ''job_7'' None) (snd ?c))"
  have c: "?c = (Some (the (fst ?c)), snd ?c)" and r: "?r = (Some (the (fst ?r)), snd ?r)"
    and id: "dj_id (the (fst ?c)) = ''job_1''"
    and ow: "dj_lease_owner (the (fst ?c)) = Some ''d1''"
    and two: "map_option dj_id (fst ?r) = Some ''job_2''"
    by code_simp+
  have "get_job ''job_1'' (snd ?r) = Some (the (fst ?c))"
    using lease_exclusive [OF c, of "[SC_complete ''job_7'' None]" "''d2''" 39 30 "the (fst ?r)" "snd ?r"] r id
    by (simp add: respects_lease_def)
  with ow two show ?thesis by (simp add: Let_def)
qed

text \<open>
  \<^verbatim>\<open>complete\<close> and \<^verbatim>\<open>fail\<close> do not look at the owner of the lease. When a dispatcher outlives
  its lease, another one claims the job, and the late failure of the first releases the lease
  of the second, so that a third dispatcher gets the job while the second is still working on it.
\<close>

lemma stale_failure_breaks_lease:
  "let s0 = snd (enqueue ''n'' ''r'' () None new_dispatch_store);
       s1 = snd (claim ''d1'' 0 10 s0);
       (second, s2) = claim ''d2'' 10 10 s1;
       (third, s3) = claim ''d3'' 12 10 (fail_job ''job_1'' 11 1 s2)
   in map_option dj_id second = Some ''job_1'' \<and>
      map_option dj_lease_expires_at second = Some (Some 20) \<and> map_option dj_id third = Some ''job_1''"
  by code_simp

subsection \<open>The loop drains the store\<close>

definition attempted :: "loop_options \<Rightarrow> 'p tick_world \<Rightarrow> nat \<Rightarrow> 'p dispatch_job \<Rightarrow> 'p dispatch_job" where
  "attempted opts w n job =
     (let claimed = leased_to (lo_owner opts) (tw_claim_time w n + lo_leaseMs opts) job
      in case tw_deliver w n claimed of
           Some commandId \<Rightarrow> completed_job (Some commandId) claimed
         | None \<Rightarrow> requeued_job (tw_fail_time w n + lo_retryDelayMs opts) claimed)"

definition retries_later :: "loop_options \<Rightarrow> 'p tick_world \<Rightarrow> bool" where
  "retries_later opts w \<longleftrightarrow>
     (\<forall>i j job. i < j \<longrightarrow> tw_deliver w i job = None \<longrightarrow>
        tw_claim_time w j < tw_fail_time w i + lo_retryDelayMs opts)"

definition undisturbed :: "'p tick_world \<Rightarrow> bool" where
  "undisturbed w \<longleftrightarrow> (\<forall>n s. tw_others w n s = s)"

definition job_is_done :: "'p dispatch_job \<Rightarrow> bool" where
  "job_is_done job \<longleftrightarrow> dj_status job = J_done"

definition done_jobs :: "'p dispatch_store \<Rightarrow> nat" where
  "done_jobs s = length (filter job_is_done (jvalues (ds_jobs s)))"

lemma jset_jset [simp]: "jset k v (jset k v' m) = jset k v m"
  by (induction m) auto

lemma filter_jset:
  "jwf m \<Longrightarrow> jget m k = Some v \<Longrightarrow>
     length (filter P (jvalues (jset k v' m))) + (if P v then 1 else 0) =
     length (filter P (jvalues m)) + (if P v' then 1 else 0)"
  by (induction m) (auto simp: jget_key)

lemma iteration:
  assumes "claim (lo_owner opts) (tw_claim_time w n) (lo_leaseMs opts) s = (Some job', s')"
    "dispatch_ok s" "undisturbed w"
  obtains k job where "get_job k s = Some job" "eligible (tw_claim_time w n) job"
    "settle_delivery opts w n job' s' = s\<lparr>ds_jobs := jset k (attempted opts w n job) (ds_jobs s)\<rparr>"
    "tw_deliver w n job' \<noteq> None \<longleftrightarrow> job_is_done (attempted opts w n job)"
proof -
  from assms(1,2) obtain k job where k: "jget (ds_jobs s) k = Some job" "eligible (tw_claim_time w n) job"
    "dj_id job = k" "job' = leased_to (lo_owner opts) (tw_claim_time w n + lo_leaseMs opts) job"
    "s' = s\<lparr>ds_jobs := jset k job' (ds_jobs s)\<rparr>"
    by (rule claim_SomeD) blast
  then have "dj_id job' = k" by (simp add: leased_to_def)
  with k assms(3) show ?thesis
    by (intro that [of k job])
       (auto simp: get_job_def settle_delivery_def undisturbed_def attempted_def Let_def complete_job_def
          fail_job_def on_job_def job_is_done_def completed_job_def requeued_job_def split: option.splits)
qed

lemma attempted_not_eligible:
  assumes "retries_later opts w" "i < j"
  shows "\<not> eligible (tw_claim_time w j) (attempted opts w i job)"
proof (cases "tw_deliver w i (leased_to (lo_owner opts) (tw_claim_time w i + lo_leaseMs opts) job)")
  case None
  with assms have "tw_claim_time w j < tw_fail_time w i + lo_retryDelayMs opts"
    unfolding retries_later_def by blast
  with None show ?thesis by (simp add: attempted_def eligible_def requeued_job_def)
next
  case (Some c)
  then show ?thesis
    by (simp add: attempted_def eligible_def lease_expired_def completed_job_def)
qed

lemma job_ok_attempted [simp]: "job_ok n k job \<Longrightarrow> job_ok n k (attempted opts w i job)"
  by (simp add: attempted_def Let_def split: option.split)

definition outcome_of ::
    "loop_options \<Rightarrow> 'p tick_world \<Rightarrow> nat \<Rightarrow> nat \<Rightarrow> 'p dispatch_job \<Rightarrow> 'p dispatch_job \<Rightarrow> bool" where
  "outcome_of opts w n m job job' \<longleftrightarrow>
     (job' = job \<and> \<not> eligible (tw_claim_time w m) job) \<or>
     (\<exists>i. n \<le> i \<and> i < m \<and> eligible (tw_claim_time w i) job \<and> job' = attempted opts w i job)"

definition claimable_from :: "'p tick_world \<Rightarrow> nat \<Rightarrow> 'p dispatch_store \<Rightarrow> ident set" where
  "claimable_from w n s =
     {k. \<exists>job j. get_job k s = Some job \<and> n \<le> j \<and> eligible (tw_claim_time w j) job}"

lemma finite_claimable: "finite (claimable_from w n s)"
proof (rule finite_subset)
  show "claimable_from w n s \<subseteq> set (jkeys (ds_jobs s))"
  proof
    fix k
    assume "k \<in> claimable_from w n s"
    then obtain job where "jget (ds_jobs s) k = Some job"
      unfolding claimable_from_def get_job_def by blast
    then show "k \<in> set (jkeys (ds_jobs s))" by (rule jget_key)
  qed
qed simp

lemma claimable_decreases:
  assumes "retries_later opts w" "get_job k s = Some job" "eligible (tw_claim_time w n) job"
    "s' = s\<lparr>ds_jobs := jset k (attempted opts w n job) (ds_jobs s)\<rparr>"
  shows "card (claimable_from w (Suc n) s') < card (claimable_from w n s)"
proof -
  have "k \<in> claimable_from w n s"
    using assms(2,3) by (auto simp: claimable_from_def)
  moreover have "k \<notin> claimable_from w (Suc n) s'"
    using attempted_not_eligible [OF assms(1), of n] by (auto simp: assms(4) claimable_from_def get_job_def)
  moreover have "l \<in> claimable_from w n s" if "l \<in> claimable_from w (Suc n) s'" "l \<noteq> k" for l
    using that unfolding claimable_from_def assms(4) get_job_def
    by (simp del: map_of_eq_Some_iff) (meson Suc_leD)
  ultimately have "claimable_from w (Suc n) s' \<subset> claimable_from w n s" by blast
  then show ?thesis using finite_claimable by (rule psubset_card_mono [rotated])
qed

lemma outcome_of_unclaimed: "\<not> eligible (tw_claim_time w m) job \<Longrightarrow> outcome_of opts w n m job job"
  by (simp add: outcome_of_def)

lemma outcome_of_attempted:
  "n \<le> i \<Longrightarrow> i < m \<Longrightarrow> eligible (tw_claim_time w i) job \<Longrightarrow> outcome_of opts w n m job (attempted opts w i job)"
  unfolding outcome_of_def by blast

lemma outcome_of_cases [consumes 1, case_names unclaimed attempted]:
  assumes "outcome_of opts w n m job job'"
  obtains "job' = job" "\<not> eligible (tw_claim_time w m) job"
  | i where "n \<le> i" "i < m" "eligible (tw_claim_time w i) job" "job' = attempted opts w i job"
  using assms unfolding outcome_of_def by blast

lemma outcome_of_later:
  assumes "retries_later opts w" "eligible (tw_claim_time w n) job" "Suc n \<le> m"
    "outcome_of opts w (Suc n) m (attempted opts w n job) job'"
  shows "outcome_of opts w n m job job'"
  using assms(4)
proof (cases rule: outcome_of_cases)
  case unclaimed
  with assms(2,3) show ?thesis by (simp add: outcome_of_attempted)
next
  case (attempted i)
  with attempted_not_eligible [OF assms(1), of n i job] show ?thesis by simp
qed

lemma outcome_of_Suc: "outcome_of opts w (Suc n) m job job' \<Longrightarrow> outcome_of opts w n m job job'"
  by (erule outcome_of_cases) (simp_all add: outcome_of_unclaimed outcome_of_attempted)

definition drained :: "loop_options \<Rightarrow> 'p tick_world \<Rightarrow> nat \<Rightarrow> nat \<Rightarrow> 'p dispatch_store \<Rightarrow> 'p dispatch_store \<Rightarrow> bool" where
  "drained opts w n m s s' \<longleftrightarrow>
     (\<forall>k. case get_job k s of
            None \<Rightarrow> get_job k s' = None
          | Some job \<Rightarrow> \<exists>job'. get_job k s' = Some job' \<and> outcome_of opts w n m job job')"

lemma drained_step:
  assumes "retries_later opts w" "get_job k s = Some job" "eligible (tw_claim_time w n) job" "Suc n \<le> m"
    "drained opts w (Suc n) m (s\<lparr>ds_jobs := jset k (attempted opts w n job) (ds_jobs s)\<rparr>) s'"
  shows "drained opts w n m s s'"
  unfolding drained_def
proof
  fix l
  show "case get_job l s of None \<Rightarrow> get_job l s' = None
      | Some job \<Rightarrow> \<exists>job'. get_job l s' = Some job' \<and> outcome_of opts w n m job job'"
    using assms(2) spec [OF assms(5) [unfolded drained_def], of l]
    by (cases "l = k")
       (auto simp: get_job_def simp del: map_of_eq_Some_iff split: option.splits
          intro: outcome_of_later [OF assms(1,3,4)] outcome_of_Suc)
qed

lemma tick_loop_drains:
  assumes "retries_later opts w" "undisturbed w" "dispatch_ok s"
  shows "\<exists>m d s'. n \<le> m \<and> tick_loop opts w n delivered s = Some (delivered + d, s') \<and>
           drained opts w n m s s' \<and> done_jobs s' = done_jobs s + d"
  using assms(3)
proof (induction "card (claimable_from w n s)" arbitrary: n delivered s rule: less_induct)
  case less
  obtain r s1 where c: "claim (lo_owner opts) (tw_claim_time w n) (lo_leaseMs opts) s = (r, s1)"
    by fastforce
  show ?case
  proof (cases r)
    case None
    with claim_NoneD c have "s1 = s" and no: "\<forall>e \<in> set (ds_jobs s). \<not> eligible (tw_claim_time w n) (snd e)"
      by blast+
    with None c have "tick_loop opts w n delivered s = Some (delivered + 0, s)"
      by (subst tick_loop.simps) simp
    moreover have "drained opts w n n s s"
      using no by (fastforce simp: drained_def outcome_of_def get_job_def dest: jget_mem split: option.splits)
    ultimately show ?thesis by fastforce
  next
    case (Some job')
    then obtain k job where k: "get_job k s = Some job" "eligible (tw_claim_time w n) job"
      and s2: "settle_delivery opts w n job' s1 = s\<lparr>ds_jobs := jset k (attempted opts w n job) (ds_jobs s)\<rparr>"
      and del: "tw_deliver w n job' \<noteq> None \<longleftrightarrow> job_is_done (attempted opts w n job)"
      using iteration c less.prems assms(2) by metis
    let ?s2 = "s\<lparr>ds_jobs := jset k (attempted opts w n job) (ds_jobs s)\<rparr>"
    let ?d = "if tw_deliver w n job' = None then 0 else Suc 0"
    have ok: "dispatch_ok ?s2"
      using dispatch_okD [OF less.prems] k(1) by (simp add: get_job_def dispatch_ok_update less.prems)
    from less.hyps [OF claimable_decreases [OF assms(1) k refl] ok, of "delivered + ?d"]
    obtain m d s' where m: "Suc n \<le> m" "tick_loop opts w (Suc n) (delivered + ?d) ?s2 = Some (delivered + ?d + d, s')"
      "drained opts w (Suc n) m ?s2 s'" "done_jobs s' = done_jobs ?s2 + d"
      by blast
    have "tick_loop opts w n delivered s = Some (delivered + (?d + d), s')"
      by (subst tick_loop.simps) (use c Some s2 m(2) in \<open>cases "tw_deliver w n job'"; simp\<close>)
    moreover have "done_jobs ?s2 = done_jobs s + ?d"
      using filter_jset [of "ds_jobs s" k job job_is_done "attempted opts w n job"] less.prems k del
      by (auto simp: done_jobs_def dispatch_ok_def get_job_def job_is_done_def eligible_def lease_expired_def
          simp del: map_of_eq_Some_iff)
    moreover have "drained opts w n m s s'"
      using drained_step [OF assms(1) k m(1,3)] .
    ultimately show ?thesis using m(1,4) by (intro exI [of _ m] exI [of _ "?d + d"] exI [of _ s']) simp
  qed
qed

text \<open>C24: A tick that begins with the kill switch off and has the store to itself ends and drains it. Three
  things are assumed of the world: while a delivery is awaited nobody else changes the store (\<open>undisturbed\<close>), no
  claim of the tick is made so late that a job it has already failed is available again (\<open>retries_later\<close>), and no
  claim reads the clock earlier than the first one did. Then, for a store made by any calls of its interface, the loop
  returns; the number it returns is the number of jobs it completed; no job is lost or added; every
  job that could be claimed when the tick began was attempted in exactly one iteration, which
  left it done with the command identifier of its delivery or queued again after the retry
  delay; and every other job was attempted once in the same way or is unchanged. Without the second
  assumption the loop need not end, as the lemmas on the tick that never returns show.\<close>

theorem tick_drains:
  assumes "retries_later opts w" "undisturbed w"
    and "\<And>i. tw_claim_time w 0 \<le> tw_claim_time w i"
    and "s = fold do_store_call calls new_dispatch_store"
  obtains d s' where "tick opts False w s = Some (d, s')" "done_jobs s' = done_jobs s + d"
    "\<And>k. get_job k s = None \<Longrightarrow> get_job k s' = None"
    "\<And>k job. get_job k s = Some job \<Longrightarrow> eligible (tw_claim_time w 0) job \<Longrightarrow>
       \<exists>i. get_job k s' = Some (attempted opts w i job)"
    "\<And>k job. get_job k s = Some job \<Longrightarrow>
       get_job k s' = Some job \<or> (\<exists>i. get_job k s' = Some (attempted opts w i job))"
proof -
  have ok: "dispatch_ok s" using assms(4) reachable_dispatch_ok by simp
  from tick_loop_drains [OF assms(1,2) ok, of 0 0]
  obtain m d s' where t: "tick_loop opts w 0 0 s = Some (d, s')" and d: "done_jobs s' = done_jobs s + d"
    and dr: "drained opts w 0 m s s'"
    by auto
  have out: "\<exists>job'. get_job k s' = Some job' \<and> outcome_of opts w 0 m job job'" if "get_job k s = Some job" for k job
    using spec [OF dr [unfolded drained_def], of k] that by simp
  have el: "eligible (tw_claim_time w m) job" if "eligible (tw_claim_time w 0) job" for job :: "'a dispatch_job"
    using that assms(3) [of m] by (auto simp: eligible_def lease_expired_def split: option.splits)
  show thesis
  proof (rule that [OF _ d])
    show "tick opts False w s = Some (d, s')" by (simp add: tick_def t)
    show "get_job k s' = None" if "get_job k s = None" for k
      using spec [OF dr [unfolded drained_def], of k] that by simp
    show "\<exists>i. get_job k s' = Some (attempted opts w i job)"
      if "get_job k s = Some job" "eligible (tw_claim_time w 0) job" for k job
      using out [OF that(1)] el [OF that(2)] unfolding outcome_of_def by blast
    show "get_job k s' = Some job \<or> (\<exists>i. get_job k s' = Some (attempted opts w i job))"
      if "get_job k s = Some job" for k job
      using out [OF that] unfolding outcome_of_def by blast
  qed
qed

text \<open>With the kill switch engaged a tick returns at once and touches nothing.\<close>

lemma tick_killed: "tick opts True w s = Some (0, s)"
  by (simp add: tick_def)

subsection \<open>A tick that never returns\<close>

lemma tick_loop_diverges:
  assumes inv: "I n s"
    and step: "\<And>n s. I n s \<Longrightarrow> \<exists>job s'. claim (lo_owner opts) (tw_claim_time w n) (lo_leaseMs opts) s = (Some job, s') \<and>
                 I (Suc n) (settle_delivery opts w n job s')"
  shows "tick_loop opts w n delivered s = None"
proof (rule ccontr)
  assume "tick_loop opts w n delivered s \<noteq> None"
  then obtain r where ret: "tick_loop opts w n delivered s = Some r" by blast
  have "opts = opts \<longrightarrow> w = w \<longrightarrow> \<not> I n s"
  proof (rule tick_loop.raw_induct [where P = "\<lambda>o' w' n delivered s r. o' = opts \<longrightarrow> w' = w \<longrightarrow> \<not> I n s", OF _ ret],
      intro impI notI)
    fix f and o' w' n delivered s r
    assume IH: "\<And>o' w' n d s r. f o' w' n d s = Some r \<Longrightarrow> o' = opts \<longrightarrow> w' = w \<longrightarrow> \<not> I n s"
      and eq: "(case claim (lo_owner o') (tw_claim_time w' n) (lo_leaseMs o') s of
        (None, s') \<Rightarrow> Some (delivered, s')
      | (Some job, s') \<Rightarrow> f o' w' (Suc n) (if tw_deliver w' n job = None then delivered else Suc delivered)
            (settle_delivery o' w' n job s')) = Some r"
      and "o' = opts" "w' = w" "I n s"
    then show False using step [of n s] by (auto dest: IH)
  qed
  with inv show False by blast
qed

text \<open>
  Two jobs and deliveries that are rejected after one second each, the default retry delay: when the
  second job has failed, the first is available again, and so on. The tick that started never
  returns, so that it also never looks at the kill switch again.
\<close>

definition slow_world :: "unit tick_world" where
  "slow_world =
     \<lparr>tw_claim_time = (\<lambda>n. 1000 * int n), tw_deliver = (\<lambda>n job. None),
      tw_fail_time = (\<lambda>n. 1000 * int n + 1000), tw_others = (\<lambda>n s. s)\<rparr>"

definition two_jobs :: "unit dispatch_store" where
  "two_jobs = snd (enqueue ''b'' ''r'' () None (snd (enqueue ''a'' ''r'' () None new_dispatch_store)))"

definition ping_pong :: "nat \<Rightarrow> unit dispatch_store \<Rightarrow> bool" where
  "ping_pong n s \<longleftrightarrow>
     (\<exists>j1 j2. ds_jobs s = [(''job_1'', j1), (''job_2'', j2)] \<and> dj_id j1 = ''job_1'' \<and> dj_id j2 = ''job_2'' \<and>
        dj_status j1 = J_queued \<and> dj_status j2 = J_queued \<and>
        (let a = dj_available_at j1; b = dj_available_at j2; t = 1000 * int n
         in a \<le> t \<and> b \<le> t + 1000 \<or> a \<le> t + 1000 \<and> b \<le> t))"

lemma ping_pong_step:
  assumes "ping_pong n s"
  shows "\<exists>job s'. claim (lo_owner default_loop_options) (tw_claim_time slow_world n) (lo_leaseMs default_loop_options) s =
           (Some job, s') \<and> ping_pong (Suc n) (settle_delivery default_loop_options slow_world n job s')"
proof -
  from assms obtain j1 j2 where s: "ds_jobs s = [(''job_1'', j1), (''job_2'', j2)]"
    "dj_id j1 = ''job_1''" "dj_id j2 = ''job_2''" "dj_status j1 = J_queued" "dj_status j2 = J_queued"
    and t: "dj_available_at j1 \<le> 1000 * int n \<and> dj_available_at j2 \<le> 1000 * int n + 1000 \<or>
            dj_available_at j1 \<le> 1000 * int n + 1000 \<and> dj_available_at j2 \<le> 1000 * int n"
    unfolding ping_pong_def Let_def by blast
  show ?thesis
    using s t
    by (cases "dj_available_at j1 \<le> 1000 * int n";
        simp add: claim_def Let_def eligible_def slow_world_def default_loop_options_def settle_delivery_def
          fail_job_def on_job_def leased_to_def requeued_job_def ping_pong_def; linarith)
qed

text \<open>The default options do not protect the loop: with two jobs whose deliveries are rejected after
  a second each, a tick on them never returns.\<close>

theorem tick_never_returns:
  "tick default_loop_options False slow_world two_jobs = None"
proof -
  have "ping_pong 0 two_jobs"
    by (simp add: ping_pong_def two_jobs_def enqueue_def new_dispatch_store_def job_name_def dec_digits
        numeral_2_eq_2 [symmetric] Let_def)
  then show ?thesis
    unfolding tick_def using tick_loop_diverges [of ping_pong, OF _ ping_pong_step] by simp
qed

definition mixed_world :: "unit tick_world" where
  "mixed_world =
     \<lparr>tw_claim_time = (\<lambda>n. 0), tw_deliver = (\<lambda>n job. if dj_id job = ''job_1'' then Some ''cmd'' else None),
      tw_fail_time = (\<lambda>n. 1), tw_others = (\<lambda>n s. s)\<rparr>"

theorem tick_drains_witness:
  "\<exists>d s' i. tick default_loop_options False mixed_world two_jobs = Some (d, s') \<and> done_jobs s' = d \<and>
     get_job ''job_2'' s' = map_option (attempted default_loop_options mixed_world i) (get_job ''job_2'' two_jobs)"
proof -
  have w: "retries_later default_loop_options mixed_world" "undisturbed mixed_world"
    "\<And>i. tw_claim_time mixed_world 0 \<le> tw_claim_time mixed_world i"
    by (simp_all add: retries_later_def undisturbed_def mixed_world_def default_loop_options_def)
  have two: "two_jobs = fold do_store_call [SC_enqueue ''a'' ''r'' () None, SC_enqueue ''b'' ''r'' () None] new_dispatch_store"
    by (simp add: two_jobs_def)
  have j: "get_job ''job_2'' two_jobs = Some (the (get_job ''job_2'' two_jobs))"
    "eligible 0 (the (get_job ''job_2'' two_jobs))" and none: "done_jobs two_jobs = 0"
    by code_simp+
  have e: "eligible (tw_claim_time mixed_world 0) (the (get_job ''job_2'' two_jobs))"
    using j(2) by (simp add: mixed_world_def)
  show ?thesis
  proof (rule tick_drains [OF w two])
    fix d s'
    assume t: "tick default_loop_options False mixed_world two_jobs = Some (d, s')"
      "done_jobs s' = done_jobs two_jobs + d"
      and att: "\<And>k job. get_job k two_jobs = Some job \<Longrightarrow> eligible (tw_claim_time mixed_world 0) job \<Longrightarrow>
        \<exists>i. get_job k s' = Some (attempted default_loop_options mixed_world i job)"
    from att [OF j(1) e] obtain i where
      "get_job ''job_2'' s' = Some (attempted default_loop_options mixed_world i (the (get_job ''job_2'' two_jobs)))"
      by blast
    then have "get_job ''job_2'' s' = map_option (attempted default_loop_options mixed_world i) (get_job ''job_2'' two_jobs)"
      by (metis j(1) option.simps(9))
    with t none show ?thesis by auto
  qed
qed

end
