(* ===== verification/Budget.thy ===== *)
theory Budget
  imports Replay
begin

section \<open>Budget ledger and reservations\<close>

text \<open>
  \<^verbatim>\<open>apps/server/src/engine/budget.ts\<close> (the in-memory ledger with per-node reservations and a project
  cap), the two budget functions of \<^verbatim>\<open>packages/contracts/src/usage.ts\<close>, and
  \<^verbatim>\<open>packages/contracts/src/v2/budget.ts\<close> (the resolution of a reservation at a terminal outcome).
  Amounts are exact rationals; the rounding of binary floating point is not modelled. The
  notification hook is an output: the node identifiers it was called with, when it is registered.
\<close>

subsection \<open>Budget arithmetic\<close>

definition availableBudgetUsd :: "usd \<Rightarrow> usd \<Rightarrow> usd \<Rightarrow> usd" where
  "availableBudgetUsd approved settled active = approved - settled - active"

definition budgetThresholdReached :: "usd \<Rightarrow> usd \<Rightarrow> usd \<Rightarrow> usd \<Rightarrow> bool" where
  "budgetThresholdReached approved settled active threshold \<longleftrightarrow>
     (if approved \<le> 0 then True else threshold \<le> (settled + active) / approved)"

abbreviation default_threshold :: usd where
  "default_threshold \<equiv> 4 / 5"

subsection \<open>The ledger\<close>

datatype budget_scope = BS_node | BS_project

datatype budget_error =
    BudgetExceededError ident usd usd budget_scope
  | NoApprovedBudget ident
  | UnknownReservation ident

record node_budget =
  nb_approvedUsd :: usd
  nb_settledUsd :: usd
  nb_reservations :: "(ident, usd) jmap"

record budget_ledger =
  bl_nodes :: "(ident, node_budget) jmap"
  bl_reservationCounter :: nat
  bl_onThreshold :: bool
  bl_notified :: "ident list"
  bl_projectCapUsd :: usd

definition new_ledger :: "usd \<Rightarrow> budget_ledger" where
  "new_ledger cap = \<lparr>bl_nodes = [], bl_reservationCounter = 0, bl_onThreshold = False,
     bl_notified = [], bl_projectCapUsd = cap\<rparr>"

definition notifyThreshold :: "budget_ledger \<Rightarrow> budget_ledger" where
  "notifyThreshold L = L\<lparr>bl_onThreshold := True\<rparr>"

definition activeUsd :: "node_budget \<Rightarrow> usd" where
  "activeUsd n = jsum (\<lambda>x. x) (nb_reservations n)"

definition projectActiveUsd :: "budget_ledger \<Rightarrow> usd" where
  "projectActiveUsd L = jsum activeUsd (bl_nodes L)"

definition projectSettledUsd :: "budget_ledger \<Rightarrow> usd" where
  "projectSettledUsd L = jsum nb_settledUsd (bl_nodes L)"

definition require_node :: "ident \<Rightarrow> budget_ledger \<Rightarrow> budget_error + node_budget" where
  "require_node k L = (case jget (bl_nodes L) k of None \<Rightarrow> Inl (NoApprovedBudget k) | Some n \<Rightarrow> Inr n)"

definition approve :: "ident \<Rightarrow> usd \<Rightarrow> budget_ledger \<Rightarrow> budget_ledger" where
  "approve k amount L = L\<lparr>bl_nodes := jset k
     \<lparr>nb_approvedUsd = amount, nb_settledUsd = 0, nb_reservations = []\<rparr> (bl_nodes L)\<rparr>"

definition node_available :: "node_budget \<Rightarrow> usd" where
  "node_available n = availableBudgetUsd (nb_approvedUsd n) (nb_settledUsd n) (activeUsd n)"

definition available :: "ident \<Rightarrow> budget_ledger \<Rightarrow> budget_error + usd" where
  "available k L = (case require_node k L of Inl e \<Rightarrow> Inl e | Inr n \<Rightarrow> Inr (node_available n))"

definition reserve :: "ident \<Rightarrow> usd \<Rightarrow> (budget_ledger, budget_error, ident) action" where
  "reserve k maxChargeUsd L =
     (case require_node k L of
        Inl e \<Rightarrow> (Inl e, L)
      | Inr node \<Rightarrow>
          if maxChargeUsd > node_available node then
            (Inl (BudgetExceededError k maxChargeUsd (node_available node) BS_node), L)
          else if projectActiveUsd L + projectSettledUsd L + maxChargeUsd > bl_projectCapUsd L then
            (Inl (BudgetExceededError ''project-cap'' maxChargeUsd (bl_projectCapUsd L) BS_project), L)
          else
            let counter = bl_reservationCounter L + 1;
                rid = ''res_'' @ dec counter;
                node' = node\<lparr>nb_reservations := jset rid maxChargeUsd (nb_reservations node)\<rparr>;
                L' = L\<lparr>bl_reservationCounter := counter, bl_nodes := jset k node' (bl_nodes L)\<rparr>
            in (Inr rid,
                if bl_onThreshold L \<and> budgetThresholdReached (nb_approvedUsd node') (nb_settledUsd node')
                     (activeUsd node') default_threshold
                then L'\<lparr>bl_notified := bl_notified L' @ [k]\<rparr> else L'))"

definition settle :: "ident \<Rightarrow> ident \<Rightarrow> usd \<Rightarrow> (budget_ledger, budget_error, unit) action" where
  "settle k rid actualUsd L =
     (case require_node k L of
        Inl e \<Rightarrow> (Inl e, L)
      | Inr node \<Rightarrow>
          (case jget (nb_reservations node) rid of
             None \<Rightarrow> (Inl (UnknownReservation rid), L)
           | Some held \<Rightarrow>
               (Inr (), L\<lparr>bl_nodes := jset k
                  (node\<lparr>nb_reservations := jdel rid (nb_reservations node),
                        nb_settledUsd := nb_settledUsd node + min actualUsd held\<rparr>) (bl_nodes L)\<rparr>)))"

definition release :: "ident \<Rightarrow> ident \<Rightarrow> (budget_ledger, budget_error, unit) action" where
  "release k rid L =
     (case require_node k L of
        Inl e \<Rightarrow> (Inl e, L)
      | Inr node \<Rightarrow>
          (Inr (), L\<lparr>bl_nodes := jset k
             (node\<lparr>nb_reservations := jdel rid (nb_reservations node)\<rparr>) (bl_nodes L)\<rparr>))"

definition settledUsd :: "ident \<Rightarrow> budget_ledger \<Rightarrow> budget_error + usd" where
  "settledUsd k L = (case require_node k L of Inl e \<Rightarrow> Inl e | Inr n \<Rightarrow> Inr (nb_settledUsd n))"

definition activeReservationsUsd :: "ident \<Rightarrow> budget_ledger \<Rightarrow> budget_error + usd" where
  "activeReservationsUsd k L = (case require_node k L of Inl e \<Rightarrow> Inl e | Inr n \<Rightarrow> Inr (activeUsd n))"

definition projectHardCapReached :: "budget_ledger \<Rightarrow> bool" where
  "projectHardCapReached L \<longleftrightarrow> projectSettledUsd L + projectActiveUsd L \<ge> bl_projectCapUsd L"

record ledger_summary =
  ls_settled_usd :: usd
  ls_active_reservations_usd :: usd
  ls_approved_usd :: usd
  ls_project_cap_usd :: usd

definition ledger_summary_of :: "budget_ledger \<Rightarrow> ledger_summary" where
  "ledger_summary_of L = \<lparr>ls_settled_usd = projectSettledUsd L,
     ls_active_reservations_usd = projectActiveUsd L,
     ls_approved_usd = jsum nb_approvedUsd (bl_nodes L), ls_project_cap_usd = bl_projectCapUsd L\<rparr>"

subsection \<open>No oversubscription\<close>

definition node_budget_ok :: "node_budget \<Rightarrow> bool" where
  "node_budget_ok n \<longleftrightarrow> jwf (nb_reservations n) \<and> 0 \<le> nb_settledUsd n
     \<and> (\<forall>r x. jget (nb_reservations n) r = Some x \<longrightarrow> 0 \<le> x)
     \<and> nb_settledUsd n + activeUsd n \<le> nb_approvedUsd n"

definition ledger_ok :: "budget_ledger \<Rightarrow> bool" where
  "ledger_ok L \<longleftrightarrow> jwf (bl_nodes L) \<and> (\<forall>k n. jget (bl_nodes L) k = Some n \<longrightarrow> node_budget_ok n)
     \<and> projectSettledUsd L + projectActiveUsd L \<le> bl_projectCapUsd L"

text \<open>What replacing the entry of one node does to the project totals.\<close>

lemma project_totals_jset:
  assumes "jwf (bl_nodes L)" and "jget (bl_nodes L) k = Some n"
  shows "jsum activeUsd (jset k n' (bl_nodes L)) = projectActiveUsd L + activeUsd n' - activeUsd n"
    and "jsum nb_settledUsd (jset k n' (bl_nodes L))
      = projectSettledUsd L + nb_settledUsd n' - nb_settledUsd n"
  using assms by (simp_all add: jsum_jset projectActiveUsd_def projectSettledUsd_def)

lemma activeUsd_jset:
  "jwf (nb_reservations n) \<Longrightarrow> jget (nb_reservations n) r = None \<Longrightarrow>
     activeUsd (n\<lparr>nb_reservations := jset r x (nb_reservations n)\<rparr>) = activeUsd n + x"
  by (simp add: activeUsd_def jsum_jset)

lemma activeUsd_jdel:
  "jwf (nb_reservations n) \<Longrightarrow>
     activeUsd (n\<lparr>nb_reservations := jdel r (nb_reservations n)\<rparr>)
       = activeUsd n - (case jget (nb_reservations n) r of None \<Rightarrow> 0 | Some x \<Rightarrow> x)"
  by (simp add: activeUsd_def jsum_jdel)

lemma activeUsd_settle [simp]: "activeUsd (n\<lparr>nb_settledUsd := x\<rparr>) = activeUsd n"
  by (simp add: activeUsd_def)

text \<open>Reservation identifiers are printed counters, so a new one is fresh.\<close>

definition ids_fresh :: "budget_ledger \<Rightarrow> bool" where
  "ids_fresh L \<longleftrightarrow> (\<forall>k n r x. jget (bl_nodes L) k = Some n \<longrightarrow> jget (nb_reservations n) r = Some x \<longrightarrow>
     (\<exists>i. i \<le> bl_reservationCounter L \<and> r = ''res_'' @ dec i))"

definition ledger_inv :: "budget_ledger \<Rightarrow> bool" where
  "ledger_inv L \<longleftrightarrow> ledger_ok L \<and> ids_fresh L"

lemma fresh_reservation:
  "ids_fresh L \<Longrightarrow> jget (bl_nodes L) k = Some n \<Longrightarrow>
     jget (nb_reservations n) (''res_'' @ dec (bl_reservationCounter L + 1)) = None"
  by (cases "jget (nb_reservations n) (''res_'' @ dec (bl_reservationCounter L + 1))")
    (force simp: ids_fresh_def)+

lemma ledger_okD:
  "ledger_ok L \<Longrightarrow> jget (bl_nodes L) k = Some n \<Longrightarrow> node_budget_ok n"
  by (simp add: ledger_ok_def)

text \<open>Replacing one node's entry by a sound one that commits no more than the cap allows.\<close>

lemma ledger_ok_replace:
  assumes "ledger_ok L" "jget (bl_nodes L) k = Some n" "node_budget_ok n'"
    and "projectSettledUsd L + projectActiveUsd L + nb_settledUsd n' + activeUsd n'
       \<le> bl_projectCapUsd L + nb_settledUsd n + activeUsd n"
    and "bl_nodes L' = jset k n' (bl_nodes L)" "bl_projectCapUsd L' = bl_projectCapUsd L"
  shows "ledger_ok L'"
proof -
  have wf: "jwf (bl_nodes L)" using assms(1) by (simp add: ledger_ok_def)
  have "projectSettledUsd L' + projectActiveUsd L' \<le> bl_projectCapUsd L'"
    unfolding projectSettledUsd_def [of L'] projectActiveUsd_def [of L'] assms(5,6)
      project_totals_jset [OF wf assms(2)]
    using assms(4) by simp
  with assms(1,3,5) wf show ?thesis by (simp add: ledger_ok_def)
qed

lemma reserve_cases:
  assumes "reserve k x L = (res, L')"
  obtains (refused) e where "res = Inl e" "L' = L"
  | (granted) n where "jget (bl_nodes L) k = Some n" "x \<le> node_available n"
      "projectActiveUsd L + projectSettledUsd L + x \<le> bl_projectCapUsd L"
      "res = Inr (''res_'' @ dec (bl_reservationCounter L + 1))"
      "bl_nodes L' = jset k (n\<lparr>nb_reservations :=
         jset (''res_'' @ dec (bl_reservationCounter L + 1)) x (nb_reservations n)\<rparr>) (bl_nodes L)"
      "bl_projectCapUsd L' = bl_projectCapUsd L"
      "bl_reservationCounter L' = bl_reservationCounter L + 1"
  using assms
  by (auto simp: reserve_def require_node_def Let_def not_less split: option.splits if_splits)

lemma reserve_keeps:
  assumes inv: "ledger_inv L" and x: "0 \<le> x" and r: "reserve k x L = (res, L')"
  shows "ledger_inv L'"
  using r
proof (cases rule: reserve_cases)
  case refused
  with inv show ?thesis by simp
next
  case (granted n)
  let ?rid = "''res_'' @ dec (bl_reservationCounter L + 1)"
  let ?n = "n\<lparr>nb_reservations := jset ?rid x (nb_reservations n)\<rparr>"
  have ok: "ledger_ok L" "ids_fresh L" and n: "node_budget_ok n"
    using inv granted(1) ledger_okD by (auto simp: ledger_inv_def)
  have active: "activeUsd ?n = activeUsd n + x"
    by (rule activeUsd_jset) (use n fresh_reservation [OF ok(2) granted(1)] in
        \<open>auto simp: node_budget_ok_def\<close>)
  have "node_budget_ok ?n"
    using n x granted(2) active by (auto simp: node_budget_ok_def node_available_def availableBudgetUsd_def)
  then have "ledger_ok L'"
    by (rule ledger_ok_replace [OF ok(1) granted(1) _ _ granted(5,6)]) (use granted(3) active in simp)
  moreover have "ids_fresh L'"
    unfolding ids_fresh_def granted(5,7)
  proof (intro allI impI)
    fix k' n' r y
    assume "jget (jset k ?n (bl_nodes L)) k' = Some n'" and "jget (nb_reservations n') r = Some y"
    then have "r = ?rid \<or> jget (nb_reservations n) r = Some y
        \<or> jget (bl_nodes L) k' = Some n' \<and> jget (nb_reservations n') r = Some y"
      by (cases "k' = k"; cases "r = ?rid") auto
    with granted(1)
    have "r = ?rid \<or> (\<exists>k n. jget (bl_nodes L) k = Some n \<and> jget (nb_reservations n) r = Some y)"
      by blast
    then show "\<exists>i. i \<le> bl_reservationCounter L + 1 \<and> r = ''res_'' @ dec i"
    proof
      assume "\<exists>k n. jget (bl_nodes L) k = Some n \<and> jget (nb_reservations n) r = Some y"
      then obtain i where "i \<le> bl_reservationCounter L" "r = ''res_'' @ dec i"
        using ok(2) unfolding ids_fresh_def by blast
      then show ?thesis by (intro exI [of _ i]) simp
    qed blast
  qed
  ultimately show ?thesis by (simp add: ledger_inv_def)
qed

text \<open>Settling and releasing only shrink the reservations of a node.\<close>

lemma ids_fresh_shrink:
  assumes "ids_fresh L" "jget (bl_nodes L) k = Some n"
    and "\<And>r x. jget (nb_reservations n') r = Some x \<Longrightarrow> jget (nb_reservations n) r = Some x"
  shows "ids_fresh (L\<lparr>bl_nodes := jset k n' (bl_nodes L)\<rparr>)"
  using assms unfolding ids_fresh_def by (simp add: split: if_splits) metis

lemma settle_keeps:
  assumes inv: "ledger_inv L" and x: "0 \<le> x"
  shows "ledger_inv (snd (settle k r x L))"
proof (cases "\<exists>n h. jget (bl_nodes L) k = Some n \<and> jget (nb_reservations n) r = Some h")
  case False
  then have "snd (settle k r x L) = L"
    by (auto simp: settle_def require_node_def split: option.splits)
  with inv show ?thesis by simp
next
  case True
  then obtain n h where n: "jget (bl_nodes L) k = Some n" and h: "jget (nb_reservations n) r = Some h"
    by blast
  let ?n = "n\<lparr>nb_reservations := jdel r (nb_reservations n), nb_settledUsd := nb_settledUsd n + min x h\<rparr>"
  have ok: "ledger_ok L" "ids_fresh L" and nok: "node_budget_ok n"
    using inv n ledger_okD by (auto simp: ledger_inv_def)
  have active: "activeUsd ?n = activeUsd n - h"
    using nok h activeUsd_jdel [of n r] by (simp add: node_budget_ok_def activeUsd_def)
  have eq: "snd (settle k r x L) = L\<lparr>bl_nodes := jset k ?n (bl_nodes L)\<rparr>"
    using n h by (simp add: settle_def require_node_def)
  have "node_budget_ok ?n" using nok x h active by (auto simp: node_budget_ok_def)
  then have "ledger_ok (snd (settle k r x L))"
    by (rule ledger_ok_replace [OF ok(1) n]) (use ok(1) active eq in \<open>auto simp: ledger_ok_def\<close>)
  moreover have "ids_fresh (snd (settle k r x L))"
    unfolding eq by (rule ids_fresh_shrink [OF ok(2) n]) (simp split: if_splits)
  ultimately show ?thesis by (simp add: ledger_inv_def)
qed

lemma release_keeps:
  assumes inv: "ledger_inv L"
  shows "ledger_inv (snd (release k r L))"
proof (cases "jget (bl_nodes L) k")
  case None
  with inv show ?thesis by (simp add: release_def require_node_def)
next
  case (Some n)
  let ?n = "n\<lparr>nb_reservations := jdel r (nb_reservations n)\<rparr>"
  have ok: "ledger_ok L" "ids_fresh L" and nok: "node_budget_ok n"
    using inv Some ledger_okD by (auto simp: ledger_inv_def)
  have less: "activeUsd ?n \<le> activeUsd n"
    using nok activeUsd_jdel [of n r] by (auto simp: node_budget_ok_def split: option.splits)
  have eq: "snd (release k r L) = L\<lparr>bl_nodes := jset k ?n (bl_nodes L)\<rparr>"
    using Some by (simp add: release_def require_node_def)
  have "node_budget_ok ?n" using nok less by (auto simp: node_budget_ok_def)
  then have "ledger_ok (snd (release k r L))"
    by (rule ledger_ok_replace [OF ok(1) Some]) (use ok(1) less eq in \<open>auto simp: ledger_ok_def\<close>)
  moreover have "ids_fresh (snd (release k r L))"
    unfolding eq by (rule ids_fresh_shrink [OF ok(2) Some]) (simp split: if_splits)
  ultimately show ?thesis by (simp add: ledger_inv_def)
qed

lemma node_budget_ok_nonneg: "node_budget_ok n \<Longrightarrow> 0 \<le> nb_settledUsd n \<and> 0 \<le> activeUsd n"
  unfolding node_budget_ok_def activeUsd_def
  by (metis (no_types, lifting) jget_of_mem jsum_nonneg)

lemma approve_keeps:
  assumes inv: "ledger_inv L" and x: "0 \<le> x"
  shows "ledger_inv (approve k x L)"
proof -
  let ?n = "\<lparr>nb_approvedUsd = x, nb_settledUsd = 0, nb_reservations = []\<rparr>"
  have ok: "ledger_ok L" "ids_fresh L" using inv by (auto simp: ledger_inv_def)
  have wf: "jwf (bl_nodes L)" using ok by (simp add: ledger_ok_def)
  have nn: "0 \<le> (case jget (bl_nodes L) k of None \<Rightarrow> 0 | Some n \<Rightarrow> activeUsd n)"
    "0 \<le> (case jget (bl_nodes L) k of None \<Rightarrow> 0 | Some n \<Rightarrow> nb_settledUsd n)"
    using ok(1) node_budget_ok_nonneg ledger_okD by (auto split: option.splits)
  have "projectSettledUsd (approve k x L) + projectActiveUsd (approve k x L)
      \<le> projectSettledUsd L + projectActiveUsd L"
    using nn by (simp add: projectSettledUsd_def projectActiveUsd_def approve_def jsum_jset wf activeUsd_def)
  with ok wf x have "ledger_ok (approve k x L)"
    by (auto simp: ledger_ok_def approve_def node_budget_ok_def activeUsd_def)
  moreover have "ids_fresh (approve k x L)" using ok(2) unfolding ids_fresh_def approve_def by simp
  ultimately show ?thesis by (simp add: ledger_inv_def)
qed

subsection \<open>The ledger as an object\<close>

datatype ledger_call =
    LC_notifyThreshold
  | LC_approve ident usd
  | LC_reserve ident usd
  | LC_settle ident ident usd
  | LC_release ident ident

fun do_ledger_call :: "ledger_call \<Rightarrow> budget_ledger \<Rightarrow> budget_ledger" where
  "do_ledger_call LC_notifyThreshold L = notifyThreshold L"
| "do_ledger_call (LC_approve k x) L = approve k x L"
| "do_ledger_call (LC_reserve k x) L = snd (reserve k x L)"
| "do_ledger_call (LC_settle k r x) L = snd (settle k r x L)"
| "do_ledger_call (LC_release k r) L = snd (release k r L)"

fun nonneg_call :: "ledger_call \<Rightarrow> bool" where
  "nonneg_call (LC_approve k x) \<longleftrightarrow> 0 \<le> x"
| "nonneg_call (LC_reserve k x) \<longleftrightarrow> 0 \<le> x"
| "nonneg_call (LC_settle k r x) \<longleftrightarrow> 0 \<le> x"
| "nonneg_call _ \<longleftrightarrow> True"

lemma notifyThreshold_keeps: "ledger_inv L \<Longrightarrow> ledger_inv (notifyThreshold L)"
  by (simp add: notifyThreshold_def ledger_inv_def ledger_ok_def ids_fresh_def projectSettledUsd_def
      projectActiveUsd_def)

interpretation ledger: object_invariant do_ledger_call "\<lambda>c L. nonneg_call c" ledger_inv
proof
  fix c L assume "nonneg_call c" "ledger_inv L"
  then show "ledger_inv (do_ledger_call c L)"
    by (cases c) (auto intro: notifyThreshold_keeps approve_keeps settle_keeps release_keeps
        reserve_keeps [OF _ _ surjective_pairing])
qed

lemma new_ledger_inv: "0 \<le> cap \<Longrightarrow> ledger_inv (new_ledger cap)"
  by (simp add: ledger_inv_def ledger_ok_def ids_fresh_def new_ledger_def projectSettledUsd_def
      projectActiveUsd_def)

text \<open>
  C2: No sequence of ledger calls with nonnegative amounts (approvals, reservations granted or
  refused, settlements, releases, failing calls included) oversubscribes: at every node the settled
  amount plus the active reservations stays within the approved amount, over the project it stays
  within the cap, and no amount is negative.
\<close>

theorem ledger_never_oversubscribed:
  assumes "0 \<le> cap" and "list_all nonneg_call cs" and "L = fold do_ledger_call cs (new_ledger cap)"
  shows "projectSettledUsd L + projectActiveUsd L \<le> bl_projectCapUsd L
     \<and> (\<forall>k n. jget (bl_nodes L) k = Some n \<longrightarrow>
          0 \<le> nb_settledUsd n \<and> 0 \<le> activeUsd n
          \<and> nb_settledUsd n + activeUsd n \<le> nb_approvedUsd n \<and> available k L = Inr (node_available n)
          \<and> 0 \<le> node_available n)"
proof -
  have ok: "ledger_ok L"
    using ledger.calls_keep [OF _ new_ledger_inv [OF assms(1)], of cs] assms(2,3)
    by (simp add: ledger_inv_def obeys_stateless)
  have "0 \<le> nb_settledUsd n \<and> 0 \<le> activeUsd n \<and> nb_settledUsd n + activeUsd n \<le> nb_approvedUsd n"
    if "jget (bl_nodes L) k = Some n" for k n
    using node_budget_ok_nonneg ledger_okD [OF ok that] by (simp add: node_budget_ok_def)
  moreover have "0 \<le> node_available n" if "jget (bl_nodes L) k = Some n" for k n
    using ledger_okD [OF ok that]
    by (simp add: node_budget_ok_def node_available_def availableBudgetUsd_def algebra_simps)
  ultimately show ?thesis
    using ok by (simp add: ledger_ok_def available_def require_node_def)
qed

theorem ledger_never_oversubscribed_witness:
  "let L = fold do_ledger_call [LC_approve ''a'' 10, LC_reserve ''a'' 6, LC_reserve ''a'' 5,
       LC_settle ''a'' ''res_1'' 4] (new_ledger 100)
   in projectSettledUsd L + projectActiveUsd L \<le> bl_projectCapUsd L \<and> available ''a'' L = Inr 6"
proof -
  let ?cs = "[LC_approve ''a'' 10, LC_reserve ''a'' 6, LC_reserve ''a'' 5, LC_settle ''a'' ''res_1'' 4]"
  note evals = new_ledger_def approve_def reserve_def settle_def require_node_def node_available_def
    availableBudgetUsd_def activeUsd_def projectActiveUsd_def projectSettledUsd_def dec_digits
    Let_def numeral_2_eq_2
  have "available ''a'' (fold do_ledger_call ?cs (new_ledger 100)) = Inr 6"
    by (simp add: evals available_def)
  with ledger_never_oversubscribed [OF _ _ refl, of 100 ?cs] show ?thesis by (simp add: Let_def)
qed

lemma reserve_granted:
  assumes "ledger_inv L" "jget (bl_nodes L) k = Some n" "x \<le> node_available n"
    "projectActiveUsd L + projectSettledUsd L + x \<le> bl_projectCapUsd L"
  shows "\<exists>rid L'. reserve k x L = (Inr rid, L') \<and> jget (nb_reservations n) rid = None
     \<and> available k L' = Inr (node_available n - x)
     \<and> (\<forall>k'. k' \<noteq> k \<longrightarrow> jget (bl_nodes L') k' = jget (bl_nodes L) k')"
proof -
  obtain res L' where r: "reserve k x L = (res, L')" by (cases "reserve k x L")
  from r show ?thesis
  proof (cases rule: reserve_cases)
    case (refused e)
    with r assms show ?thesis by (simp add: reserve_def require_node_def Let_def)
  next
    case (granted n')
    have n': "n' = n" using granted(1) assms(2) by simp
    have fresh: "jget (nb_reservations n) (''res_'' @ dec (bl_reservationCounter L + 1)) = None"
      by (rule fresh_reservation [OF _ assms(2)]) (use assms(1) in \<open>simp add: ledger_inv_def\<close>)
    have wf: "jwf (nb_reservations n)"
      using assms(1) ledger_okD [OF _ assms(2)] by (simp add: ledger_inv_def node_budget_ok_def)
    have "available k L' = Inr (node_available n - x)"
      using activeUsd_jset [OF wf fresh, of x]
      by (simp add: available_def require_node_def granted(5) n' node_available_def availableBudgetUsd_def)
    with granted(4) fresh r show ?thesis by (simp add: granted(5) n')
  qed
qed

text \<open>
  Reserving is an atomic check-and-set. It returns exactly when the node has an approved budget,
  the charge fits what is available there, and it fits under the project cap; then the identifier
  is new, the node's available amount drops by exactly the charge, and no other node changes.
  Otherwise it throws and the ledger is untouched.
\<close>

theorem reserve_check_and_set:
  assumes "ledger_inv L"
  shows "if \<exists>n. jget (bl_nodes L) k = Some n \<and> x \<le> node_available n
            \<and> projectActiveUsd L + projectSettledUsd L + x \<le> bl_projectCapUsd L
     then \<exists>rid L' n. reserve k x L = (Inr rid, L') \<and> jget (bl_nodes L) k = Some n
            \<and> jget (nb_reservations n) rid = None \<and> available k L' = Inr (node_available n - x)
            \<and> (\<forall>k'. k' \<noteq> k \<longrightarrow> jget (bl_nodes L') k' = jget (bl_nodes L) k')
     else \<exists>e. reserve k x L = (Inl e, L)"
proof (cases "\<exists>n. jget (bl_nodes L) k = Some n \<and> x \<le> node_available n
            \<and> projectActiveUsd L + projectSettledUsd L + x \<le> bl_projectCapUsd L")
  case True
  then obtain n where n: "jget (bl_nodes L) k = Some n" "x \<le> node_available n"
    "projectActiveUsd L + projectSettledUsd L + x \<le> bl_projectCapUsd L" by blast
  with reserve_granted [OF assms n] True show ?thesis by auto
next
  case False
  then have "\<exists>e. reserve k x L = (Inl e, L)"
    by (cases "jget (bl_nodes L) k") (auto simp: reserve_def require_node_def not_less)
  with False show ?thesis by (simp only: if_False)
qed

definition sample_ledger :: budget_ledger where
  "sample_ledger = approve ''a'' 10 (new_ledger 100)"

lemma sample_ledger_inv: "ledger_inv sample_ledger"
  unfolding sample_ledger_def by (intro approve_keeps new_ledger_inv) simp_all

theorem reserve_check_and_set_witness:
  "(\<exists>rid L'. reserve ''a'' 7 sample_ledger = (Inr rid, L') \<and> available ''a'' L' = Inr 3)
   \<and> (\<exists>e. reserve ''a'' 11 sample_ledger = (Inl e, sample_ledger))"
proof -
  have n: "jget (bl_nodes sample_ledger) ''a''
      = Some \<lparr>nb_approvedUsd = 10, nb_settledUsd = 0, nb_reservations = []\<rparr>"
    and p: "projectActiveUsd sample_ledger = 0" "projectSettledUsd sample_ledger = 0"
      "bl_projectCapUsd sample_ledger = 100"
    by (simp_all add: sample_ledger_def approve_def new_ledger_def projectActiveUsd_def
        projectSettledUsd_def activeUsd_def)
  have av: "node_available \<lparr>nb_approvedUsd = 10, nb_settledUsd = 0, nb_reservations = []\<rparr> = 10"
    by (simp add: node_available_def availableBudgetUsd_def activeUsd_def)
  show ?thesis
    using reserve_check_and_set [OF sample_ledger_inv, of "''a''" 7]
      reserve_check_and_set [OF sample_ledger_inv, of "''a''" 11]
    by (auto simp: n p av)
qed

text \<open>
  Settling a held reservation charges the actual usage, but never more than was held, and gives
  the rest back: the settled amount grows by the smaller of the two, the reservation disappears, and
  the available amount grows by what was not used. An unknown node or reservation throws and
  changes nothing.
\<close>

theorem settle_charges_at_most_held:
  assumes "ledger_inv L" and "jget (bl_nodes L) k = Some n"
  shows "case jget (nb_reservations n) rid of
       None \<Rightarrow> settle k rid actual L = (Inl (UnknownReservation rid), L)
     | Some held \<Rightarrow> \<exists>L' n'. settle k rid actual L = (Inr (), L') \<and> jget (bl_nodes L') k = Some n'
         \<and> jget (nb_reservations n') rid = None
         \<and> nb_settledUsd n' = nb_settledUsd n + min actual held
         \<and> node_available n' = node_available n + (held - min actual held)
         \<and> (\<forall>k'. k' \<noteq> k \<longrightarrow> jget (bl_nodes L') k' = jget (bl_nodes L) k')"
proof (cases "jget (nb_reservations n) rid")
  case None
  with assms(2) show ?thesis by (simp add: settle_def require_node_def)
next
  case (Some held)
  have wf: "jwf (nb_reservations n)"
    using assms(1) ledger_okD [OF _ assms(2)] by (simp add: ledger_inv_def node_budget_ok_def)
  have "jsum (\<lambda>x. x) (jdel rid (nb_reservations n)) = activeUsd n - held"
    using jsum_jdel [OF wf] Some by (simp add: activeUsd_def)
  with Some assms(2) show ?thesis
    by (simp add: settle_def require_node_def node_available_def availableBudgetUsd_def activeUsd_def)
qed

theorem settle_charges_at_most_held_witness:
  "\<exists>rid L L' n'. reserve ''a'' 7 sample_ledger = (Inr rid, L) \<and> settle ''a'' rid 9 L = (Inr (), L')
     \<and> jget (bl_nodes L') ''a'' = Some n' \<and> nb_settledUsd n' = 7"
proof -
  obtain rid L where r: "reserve ''a'' 7 sample_ledger = (Inr rid, L)"
    and n: "jget (bl_nodes L) ''a'' = Some \<lparr>nb_approvedUsd = 10, nb_settledUsd = 0, nb_reservations = [(rid, 7)]\<rparr>"
    by (simp add: reserve_def require_node_def sample_ledger_def approve_def new_ledger_def Let_def
        node_available_def availableBudgetUsd_def projectActiveUsd_def projectSettledUsd_def activeUsd_def)
  have "ledger_inv L" using reserve_keeps [OF sample_ledger_inv _ r] by simp
  from settle_charges_at_most_held [OF this n, of rid 9] r show ?thesis by auto
qed

end
