(* ===== verification/Workflow.thy ===== *)
theory Workflow
  imports Lifecycle Budget Plan
begin

section \<open>The workflow engine\<close>

text \<open>
  \<^verbatim>\<open>apps/server/src/engine/workflow.ts\<close>: the event-sourced engine. Its state is the append-only log,
  the per-node metadata, the recorded approvals, the budget ledger it shares, the kill switch, the
  event counter and the started flag. A node's state is never stored: \<^verbatim>\<open>stateOf\<close> reduces the log
  each time. Every method is an action on that state; what it wrote before it threw stays.
\<close>

subsection \<open>State\<close>

datatype approval_kind = AK_plan | AK_allocation | AK_budget_extension | AK_merge | AK_review_exception

record approval =
  ap_id :: ident
  ap_kind :: approval_kind
  ap_actor :: string
  ap_approved_at :: string
  ap_content_hash :: string

record node_meta =
  nm_dependencies :: "ident list"
  nm_blockedFrom :: "node_state option"
  nm_activeReservation :: "ident option"

record engine =
  en_log :: "lifecycle_event list"
  en_meta :: "(ident, node_meta) jmap"
  en_approvals :: "(approval_kind, approval) jmap"
  en_budget :: budget_ledger
  en_killSwitch :: bool
  en_eventCounter :: nat
  en_started :: bool

datatype engine_error =
    EE_unknown_node ident
  | EE_node_exists ident
  | EE_not_blocked ident
  | EE_invalid_transition node_state node_state ident
  | EE_approvals_required
  | EE_plan_hash_mismatch
  | EE_allocation_hash_mismatch
  | KillSwitchEngagedError
  | EE_budget budget_error
  | EE_js js_error

definition fresh_meta :: "ident list \<Rightarrow> node_meta" where
  "fresh_meta deps = \<lparr>nm_dependencies = deps, nm_blockedFrom = None, nm_activeReservation = None\<rparr>"

definition new_engine :: "plan_contract \<Rightarrow> budget_ledger \<Rightarrow> engine" where
  "new_engine plan budget =
     \<lparr>en_log = [],
      en_meta = fold (\<lambda>m. jset (pm_id m) (fresh_meta (pm_dependencies m))) (pc_modules plan) [],
      en_approvals = [], en_budget = budget, en_killSwitch = False, en_eventCounter = 0,
      en_started = False\<rparr>"

subsection \<open>Internals\<close>

definition requireMeta :: "ident \<Rightarrow> (engine, engine_error, node_meta) action" where
  "requireMeta k E = (case jget (en_meta E) k of
       None \<Rightarrow> (Inl (EE_unknown_node k), E) | Some m \<Rightarrow> (Inr m, E))"

definition stateOf :: "ident \<Rightarrow> (engine, engine_error, node_state) action" where
  "stateOf k E = (case reduceLifecycle (en_log E) of
       Inl e \<Rightarrow> (Inl (EE_js e), E) | Inr st \<Rightarrow> (Inr (node_state_in st k), E))"

definition states :: "(engine, engine_error, (ident, node_state) jmap) action" where
  "states E = (case reduceLifecycle (en_log E) of
       Inl e \<Rightarrow> (Inl (EE_js e), E)
     | Inr st \<Rightarrow> (Inr (map (\<lambda>k. (k, node_state_in st k)) (jkeys (en_meta E))), E))"

definition replayFrom ::
  "lifecycle_event list \<Rightarrow> (engine, engine_error, (ident, node_state) jmap) action" where
  "replayFrom evs E = (case reduceLifecycle evs of
       Inl e \<Rightarrow> (Inl (EE_js e), E)
     | Inr st \<Rightarrow> (Inr (map (\<lambda>k. (k, node_state_in st k)) (jkeys (en_meta E))), E))"

definition push_event :: "ident \<Rightarrow> node_state \<Rightarrow> string option \<Rightarrow> engine \<Rightarrow> engine" where
  "push_event k dest reason E =
     E\<lparr>en_eventCounter := en_eventCounter E + 1,
       en_log := en_log E @ [\<lparr>le_event_id = ''evt_'' @ dec (en_eventCounter E + 1), le_node_id = k,
                             le_to = dest, le_reason = reason\<rparr>]\<rparr>"

definition append_event ::
  "ident \<Rightarrow> node_state \<Rightarrow> string option \<Rightarrow> (engine, engine_error, unit) action" where
  "append_event k dest reason =
     and_then (requireMeta k) (\<lambda>_.
     and_then (stateOf k) (\<lambda>from.
     and_then (guarding (\<lambda>_. canTransition from dest) (\<lambda>_. EE_invalid_transition from dest k)) (\<lambda>_.
     modifying (push_event k dest reason))))"

text \<open>Writing a field of the metadata object held by the map.\<close>

definition upd_meta :: "ident \<Rightarrow> (node_meta \<Rightarrow> node_meta) \<Rightarrow> engine \<Rightarrow> engine" where
  "upd_meta k f E = (case jget (en_meta E) k of
       None \<Rightarrow> E | Some m \<Rightarrow> E\<lparr>en_meta := jset k (f m) (en_meta E)\<rparr>)"

definition on_budget :: "(budget_ledger, budget_error, 'a) action \<Rightarrow> (engine, engine_error, 'a) action" where
  "on_budget m E = (case m (en_budget E) of
       (Inl e, L) \<Rightarrow> (Inl (EE_budget e), E\<lparr>en_budget := L\<rparr>)
     | (Inr a, L) \<Rightarrow> (Inr a, E\<lparr>en_budget := L\<rparr>))"

fun all_integrated :: "ident list \<Rightarrow> (engine, engine_error, bool) action" where
  "all_integrated [] = returning True"
| "all_integrated (d # ds) =
     and_then (stateOf d) (\<lambda>s. if s = N_integrated then all_integrated ds else returning False)"

definition cascade_node :: "ident \<times> node_meta \<Rightarrow> (engine, engine_error, unit) action" where
  "cascade_node p =
     and_then (stateOf (fst p)) (\<lambda>s.
       if s \<noteq> N_pending then returning ()
       else and_then (all_integrated (nm_dependencies (snd p))) (\<lambda>ready.
              if ready then append_event (fst p) N_ready None else returning ()))"

definition cascadeReady :: "(engine, engine_error, unit) action" where
  "cascadeReady E = (if \<not> en_started E then (Inr (), E) else for_each (en_meta E) cascade_node E)"

subsection \<open>Approvals, kill switch and graph mutations\<close>

definition recordApproval :: "approval \<Rightarrow> engine \<Rightarrow> engine" where
  "recordApproval a E = E\<lparr>en_approvals := jset (ap_kind a) a (en_approvals E)\<rparr>"

definition engageKillSwitch :: "engine \<Rightarrow> engine" where
  "engageKillSwitch E = E\<lparr>en_killSwitch := True\<rparr>"

definition disengageKillSwitch :: "engine \<Rightarrow> engine" where
  "disengageKillSwitch E = E\<lparr>en_killSwitch := False\<rparr>"

definition registerNode :: "ident \<Rightarrow> ident list \<Rightarrow> (engine, engine_error, unit) action" where
  "registerNode k deps =
     and_then (guarding (\<lambda>E. jget (en_meta E) k = None) (\<lambda>_. EE_node_exists k)) (\<lambda>_.
     and_then (modifying (\<lambda>E. E\<lparr>en_meta := jset k (fresh_meta deps) (en_meta E)\<rparr>)) (\<lambda>_.
     cascadeReady))"

definition replaceDependency :: "ident \<Rightarrow> ident \<Rightarrow> ident \<Rightarrow> (engine, engine_error, unit) action" where
  "replaceDependency k oldDep newDep =
     and_then (requireMeta k) (\<lambda>_. modifying (upd_meta k (\<lambda>m. m\<lparr>nm_dependencies :=
       map (\<lambda>dep. if dep = oldDep then newDep else dep) (nm_dependencies m)\<rparr>)))"

definition dependenciesOf :: "ident \<Rightarrow> (engine, engine_error, ident list) action" where
  "dependenciesOf k = and_then (requireMeta k) (\<lambda>m. returning (nm_dependencies m))"

definition nodeIds :: "engine \<Rightarrow> ident list" where
  "nodeIds E = jkeys (en_meta E)"

subsection \<open>Lifecycle drives\<close>

text \<open>The expected hashes are optional, as are the two fields of the argument.\<close>

definition start :: "string option \<Rightarrow> string option \<Rightarrow> (engine, engine_error, unit) action" where
  "start planHash allocationHash E =
     (case (jget (en_approvals E) AK_plan, jget (en_approvals E) AK_allocation) of
        (Some plan, Some allocation) \<Rightarrow>
          if planHash \<noteq> None \<and> Some (ap_content_hash plan) \<noteq> planHash then (Inl EE_plan_hash_mismatch, E)
          else if allocationHash \<noteq> None \<and> Some (ap_content_hash allocation) \<noteq> allocationHash then
            (Inl EE_allocation_hash_mismatch, E)
          else cascadeReady (E\<lparr>en_started := True\<rparr>)
      | _ \<Rightarrow> (Inl EE_approvals_required, E))"

definition assign :: "ident \<Rightarrow> (engine, engine_error, unit) action" where
  "assign k = append_event k N_assigned None"

fun blocked_reason_str :: "blocked_reason \<Rightarrow> string" where
  "blocked_reason_str BR_dependency = ''dependency''"
| "blocked_reason_str BR_budget = ''budget''"
| "blocked_reason_str BR_runner = ''runner''"
| "blocked_reason_str BR_integration = ''integration''"

definition block :: "ident \<Rightarrow> blocked_reason \<Rightarrow> (engine, engine_error, unit) action" where
  "block k reason =
     and_then (requireMeta k) (\<lambda>_.
     and_then (stateOf k) (\<lambda>s.
     and_then (modifying (upd_meta k (\<lambda>m. m\<lparr>nm_blockedFrom := Some s\<rparr>))) (\<lambda>_.
     append_event k N_blocked (Some (blocked_reason_str reason)))))"

definition try_run :: "ident \<Rightarrow> usd \<Rightarrow> (engine, engine_error, ident) action" where
  "try_run k maxChargeUsd =
     and_then (on_budget (reserve k maxChargeUsd)) (\<lambda>rid.
     and_then (modifying (upd_meta k (\<lambda>m. m\<lparr>nm_activeReservation := Some rid\<rparr>))) (\<lambda>_.
     and_then (append_event k N_running None) (\<lambda>_. returning rid)))"

text \<open>The handler: it blocks the node, may engage the kill switch, and rethrows.\<close>

definition catch_run :: "ident \<Rightarrow> engine_error \<Rightarrow> (engine, engine_error, ident) action" where
  "catch_run k err =
     (case err of
        EE_budget (BudgetExceededError n x a scope) \<Rightarrow>
          and_then (block k BR_budget) (\<lambda>_.
          and_then (modifying (\<lambda>E. if scope = BS_project \<or> projectHardCapReached (en_budget E)
                                   then engageKillSwitch E else E)) (\<lambda>_.
          throwing err))
      | _ \<Rightarrow> throwing err)"

definition startRun :: "ident \<Rightarrow> usd \<Rightarrow> (engine, engine_error, ident) action" where
  "startRun k maxChargeUsd =
     and_then (guarding (\<lambda>E. \<not> en_killSwitch E) (\<lambda>_. KillSwitchEngagedError)) (\<lambda>_.
     and_then (requireMeta k) (\<lambda>_ E.
       case try_run k maxChargeUsd E of
         (Inr rid, E') \<Rightarrow> (Inr rid, E')
       | (Inl err, E') \<Rightarrow> catch_run k err E'))"

definition completeRun :: "ident \<Rightarrow> usd \<Rightarrow> (engine, engine_error, unit) action" where
  "completeRun k actualUsd =
     and_then (requireMeta k) (\<lambda>m.
     and_then (case nm_activeReservation m of
         Some rid \<Rightarrow>
           if rid \<noteq> [] then
             and_then (on_budget (settle k rid actualUsd)) (\<lambda>_.
             modifying (upd_meta k (\<lambda>m. m\<lparr>nm_activeReservation := None\<rparr>)))
           else returning ()
       | None \<Rightarrow> returning ()) (\<lambda>_.
     append_event k N_verifying None))"

definition recordVerification :: "ident \<Rightarrow> bool \<Rightarrow> (engine, engine_error, unit) action" where
  "recordVerification k passed = append_event k (if passed then N_in_review else N_failed) None"

datatype reviewer_decision = RD_approve | RD_rework

definition reviewerDecision :: "ident \<Rightarrow> reviewer_decision \<Rightarrow> (engine, engine_error, unit) action" where
  "reviewerDecision k d = append_event k (if d = RD_approve then N_verified else N_assigned) None"

definition integrate :: "ident \<Rightarrow> (engine, engine_error, unit) action" where
  "integrate k = and_then (append_event k N_integrated None) (\<lambda>_. cascadeReady)"

definition resume :: "ident \<Rightarrow> (engine, engine_error, unit) action" where
  "resume k =
     and_then (requireMeta k) (\<lambda>m.
       case nm_blockedFrom m of
         None \<Rightarrow> throwing (EE_not_blocked k)
       | Some target \<Rightarrow>
           and_then (modifying (upd_meta k (\<lambda>m. m\<lparr>nm_blockedFrom := None\<rparr>))) (\<lambda>_.
           append_event k target None))"

definition cancel :: "ident \<Rightarrow> (engine, engine_error, unit) action" where
  "cancel k = append_event k N_cancelled None"

definition supersede :: "ident \<Rightarrow> (engine, engine_error, unit) action" where
  "supersede k = append_event k N_superseded None"

end
