(* ===== verification/Workflow_Safety.thy ===== *)
theory Workflow_Safety
  imports Workflow
begin

section \<open>Safety of the workflow engine\<close>

text \<open>
  The invariant of the engine and its preservation by every method, thrown or not: the log reduces
  without rejections and its identifiers count up; nothing starts before the approvals are recorded;
  a node that has left \<^verbatim>\<open>pending\<close> other than by cancellation has only integrated dependencies; and the
  ledger is never oversubscribed.
\<close>

subsection \<open>The state of a node\<close>

definition node_state_of :: "engine \<Rightarrow> ident \<Rightarrow> node_state" where
  "node_state_of E k = (case reduceLifecycle (en_log E) of Inr st \<Rightarrow> node_state_in st k | Inl _ \<Rightarrow> N_pending)"

definition log_sound :: "engine \<Rightarrow> bool" where
  "log_sound E \<longleftrightarrow>
     map le_event_id (en_log E) = map (\<lambda>i. ''evt_'' @ dec i) [1..<Suc (en_eventCounter E)]
     \<and> (\<exists>st. reduceLifecycle (en_log E) = Inr st \<and> rs_rejected st = [])
     \<and> (\<forall>k. jget (en_meta E) k = None \<longrightarrow> node_state_of E k = N_pending)
     \<and> jwf (en_meta E) \<and> (\<forall>k \<in> fst ` set (en_meta E). \<not> inherited_key k)"

lemma log_soundE:
  assumes "log_sound E"
  obtains st where "reduceLifecycle (en_log E) = Inr st" "rs_rejected st = []"
    "node_state_in st = node_state_of E"
  using assms by (auto simp: log_sound_def node_state_of_def fun_eq_iff)

lemma stateOf_eq: "log_sound E \<Longrightarrow> stateOf k E = (Inr (node_state_of E k), E)"
  by (erule log_soundE) (simp add: stateOf_def)

lemma all_integrated_eq:
  "log_sound E \<Longrightarrow> all_integrated ds E = (Inr (\<forall>d \<in> set ds. node_state_of E d = N_integrated), E)"
  by (induction ds) (simp_all add: and_then_def stateOf_eq)

lemma append_event_cases:
  assumes "log_sound E"
  obtains (unknown) "jget (en_meta E) k = None"
      "append_event k dest reason E = (Inl (EE_unknown_node k), E)"
  | (invalid) m where "jget (en_meta E) k = Some m" "\<not> canTransition (node_state_of E k) dest"
      "append_event k dest reason E = (Inl (EE_invalid_transition (node_state_of E k) dest k), E)"
  | (pushed) m where "jget (en_meta E) k = Some m" "canTransition (node_state_of E k) dest"
      "append_event k dest reason E = (Inr (), push_event k dest reason E)"
  using stateOf_eq [OF assms, of k]
  by (cases "jget (en_meta E) k"; cases "canTransition (node_state_of E k) dest")
    (auto simp: append_event_def requireMeta_def method_simps)

lemma push_event_fields [simp]:
  "en_meta (push_event k d r E) = en_meta E" "en_started (push_event k d r E) = en_started E"
  "en_approvals (push_event k d r E) = en_approvals E" "en_budget (push_event k d r E) = en_budget E"
  "en_killSwitch (push_event k d r E) = en_killSwitch E"
  by (simp_all add: push_event_def)

lemma fresh_event_id:
  "map le_event_id es = map (\<lambda>i. ''evt_'' @ dec i) [1..<Suc n] \<Longrightarrow>
     ''evt_'' @ dec (n + 1) \<notin> set (map le_event_id es)"
  by (auto simp del: upt_Suc)

lemma push_event_sound:
  assumes s: "log_sound E" and m: "jget (en_meta E) k = Some m"
    and can: "canTransition (node_state_of E k) dest"
  shows "log_sound (push_event k dest r E)"
    and "node_state_of (push_event k dest r E) = (node_state_of E)(k := dest)"
proof -
  let ?e = "\<lparr>le_event_id = ''evt_'' @ dec (en_eventCounter E + 1), le_node_id = k, le_to = dest, le_reason = r\<rparr>"
  from s obtain st where st: "reduceLifecycle (en_log E) = Inr st" "rs_rejected st = []"
    "node_state_in st = node_state_of E" by (rule log_soundE)
  have ids: "map le_event_id (en_log E) = map (\<lambda>i. ''evt_'' @ dec i) [1..<Suc (en_eventCounter E)]"
    using s by (simp add: log_sound_def)
  have "\<not> inherited_key k" using s m by (auto simp: log_sound_def dest: jget_mem)
  then obtain st' where step: "reduce_event st ?e = Inr st'" using reduce_event_total [of ?e st] by auto
  have red: "reduceLifecycle (en_log E @ [?e]) = Inr st'"
    using reduceLifecycle_snoc [OF st(1), of ?e] fresh_event_id [OF ids] step by simp
  have rej: "rs_rejected st' = []"
    using step can st(2,3)
    by (auto simp: reduce_event_def node_or_initial_def node_state_in_def INITIAL_STATE_def fun_eq_iff
        split: option.splits if_splits dest!: spec [of _ k])
  have eff: "node_state_in st' = (node_state_of E)(k := dest)"
    using reduce_event_effect [OF step] can st(3) by simp
  show 2: "node_state_of (push_event k dest r E) = (node_state_of E)(k := dest)"
    using red eff by (simp add: node_state_of_def push_event_def fun_eq_iff)
  show "log_sound (push_event k dest r E)"
    unfolding log_sound_def 2
    using s m red rej by (auto simp: push_event_def log_sound_def)
qed

subsection \<open>The invariant\<close>

definition block_memory_ok :: "engine \<Rightarrow> bool" where
  "block_memory_ok E \<longleftrightarrow> (\<forall>k m. jget (en_meta E) k = Some m \<longrightarrow> node_state_of E k = N_pending \<longrightarrow>
     nm_blockedFrom m = None \<or> nm_blockedFrom m = Some N_pending)"

definition approval_gate :: "engine \<Rightarrow> bool" where
  "approval_gate E \<longleftrightarrow> (en_started E \<longrightarrow>
     jget (en_approvals E) AK_plan \<noteq> None \<and> jget (en_approvals E) AK_allocation \<noteq> None)"

definition deps_integrated :: "engine \<Rightarrow> node_meta \<Rightarrow> bool" where
  "deps_integrated E m \<longleftrightarrow> (\<forall>d \<in> set (nm_dependencies m). node_state_of E d = N_integrated)"

definition dependency_gate :: "engine \<Rightarrow> bool" where
  "dependency_gate E \<longleftrightarrow> (\<forall>k m. jget (en_meta E) k = Some m \<longrightarrow>
     node_state_of E k \<notin> {N_pending, N_cancelled} \<longrightarrow> en_started E \<and> deps_integrated E m)"

definition engine_inv :: "engine \<Rightarrow> bool" where
  "engine_inv E \<longleftrightarrow> log_sound E \<and> block_memory_ok E \<and> approval_gate E \<and> dependency_gate E
     \<and> ledger_inv (en_budget E)"

lemma never_back_to_pending: "\<not> canTransition s N_pending"
  by (cases s) (simp_all add: canTransition_def)

lemma integrated_stays: "canTransition s dest \<Longrightarrow> s \<noteq> N_integrated \<and> s \<noteq> N_cancelled"
  by (auto simp: canTransition_def)

lemma leave_pending: "canTransition N_pending dest \<Longrightarrow> dest = N_ready \<or> dest = N_cancelled"
  by (auto simp: canTransition_def)

lemma deps_integrated_push:
  assumes "log_sound E" "jget (en_meta E) k = Some m'" "canTransition (node_state_of E k) dest"
    and "deps_integrated E m"
  shows "deps_integrated (push_event k dest r E) m"
  using assms integrated_stays [OF assms(3)]
  by (auto simp: deps_integrated_def push_event_sound(2))

lemma dependency_gate_push:
  assumes inv: "log_sound E" "dependency_gate E" and m: "jget (en_meta E) k = Some m"
    and can: "canTransition (node_state_of E k) dest"
    and gate: "node_state_of E k = N_pending \<Longrightarrow> dest = N_ready \<Longrightarrow> en_started E \<and> deps_integrated E m"
  shows "dependency_gate (push_event k dest r E)"
  unfolding dependency_gate_def push_event_fields push_event_sound(2) [OF inv(1) m can]
proof (intro allI impI)
  fix k' m'
  assume m': "jget (en_meta E) k' = Some m'"
    and st: "((node_state_of E)(k := dest)) k' \<notin> {N_pending, N_cancelled}"
  have "en_started E \<and> deps_integrated E m'"
  proof (cases "k' = k \<and> node_state_of E k = N_pending")
    case True
    then have "dest = N_ready" using st leave_pending can by auto
    with True m m' gate show ?thesis by auto
  next
    case False
    then have "node_state_of E k' \<notin> {N_pending, N_cancelled}"
      using st integrated_stays [OF can] by (auto split: if_splits)
    with inv(2) m' show ?thesis by (auto simp: dependency_gate_def)
  qed
  then show "en_started E \<and> deps_integrated (push_event k dest r E) m'"
    using deps_integrated_push [OF inv(1) m can] by blast
qed

lemma engine_inv_push:
  assumes inv: "engine_inv E" and m: "jget (en_meta E) k = Some m"
    and can: "canTransition (node_state_of E k) dest"
    and gate: "node_state_of E k = N_pending \<Longrightarrow> dest = N_ready \<Longrightarrow> en_started E \<and> deps_integrated E m"
  shows "engine_inv (push_event k dest r E)"
proof -
  have s: "log_sound E" "dependency_gate E" using inv by (simp_all add: engine_inv_def)
  have "dest \<noteq> N_pending" using can never_back_to_pending by auto
  then have "block_memory_ok (push_event k dest r E)"
    using inv by (auto simp: block_memory_ok_def engine_inv_def push_event_sound(2) [OF s(1) m can])
  with inv push_event_sound(1) [OF s(1) m can] dependency_gate_push [OF s m can gate]
  show ?thesis by (simp add: engine_inv_def approval_gate_def)
qed

subsection \<open>Every method keeps the invariant\<close>

lemma append_event_keeps [norns_inv]: "dest \<noteq> N_ready \<Longrightarrow> keeps engine_inv (append_event k dest r)"
proof (rule keepsI)
  fix E assume "dest \<noteq> N_ready" and inv: "engine_inv E"
  then have "log_sound E" by (simp add: engine_inv_def)
  then show "engine_inv (snd (append_event k dest r E))"
    by (cases rule: append_event_cases [of E k dest r])
      (use inv \<open>dest \<noteq> N_ready\<close> in \<open>auto intro: engine_inv_push\<close>)
qed

lemma requireMeta_keeps [norns_inv]: "keeps I (requireMeta k)"
  by (rule keepsI) (simp add: requireMeta_def split: option.splits)

lemma stateOf_keeps [norns_inv]: "keeps I (stateOf k)"
  by (rule keepsI) (simp add: stateOf_def split: sum.splits)

lemma node_state_of_meta [simp]:
  "node_state_of (E\<lparr>en_meta := M\<rparr>) = node_state_of E"
  "node_state_of (E\<lparr>en_budget := L\<rparr>) = node_state_of E"
  "node_state_of (E\<lparr>en_started := b\<rparr>) = node_state_of E"
  "node_state_of (E\<lparr>en_killSwitch := b\<rparr>) = node_state_of E"
  "node_state_of (E\<lparr>en_approvals := A\<rparr>) = node_state_of E"
  by (simp_all add: node_state_of_def fun_eq_iff)

lemma deps_integrated_meta [simp]:
  "deps_integrated (E\<lparr>en_meta := M\<rparr>) = deps_integrated E"
  "deps_integrated (E\<lparr>en_budget := L\<rparr>) = deps_integrated E"
  "deps_integrated (E\<lparr>en_started := b\<rparr>) = deps_integrated E"
  "deps_integrated (E\<lparr>en_killSwitch := b\<rparr>) = deps_integrated E"
  "deps_integrated (E\<lparr>en_approvals := A\<rparr>) = deps_integrated E"
  by (simp_all add: deps_integrated_def fun_eq_iff)

lemma log_sound_cong:
  "en_log E' = en_log E \<Longrightarrow> en_eventCounter E' = en_eventCounter E \<Longrightarrow> en_meta E' = en_meta E \<Longrightarrow>
     log_sound E' = log_sound E"
  by (simp add: log_sound_def node_state_of_def)

lemma log_sound_meta [simp]:
  "log_sound (E\<lparr>en_budget := L\<rparr>) = log_sound E" "log_sound (E\<lparr>en_started := b\<rparr>) = log_sound E"
  "log_sound (E\<lparr>en_killSwitch := b\<rparr>) = log_sound E" "log_sound (E\<lparr>en_approvals := A\<rparr>) = log_sound E"
  by (rule log_sound_cong; simp)+

lemma inv_budget:
  "ledger_inv L \<Longrightarrow> engine_inv E \<Longrightarrow> engine_inv (E\<lparr>en_budget := L\<rparr>)"
  by (simp add: engine_inv_def block_memory_ok_def approval_gate_def dependency_gate_def)

lemma inv_killSwitch: "engine_inv E \<Longrightarrow> engine_inv (E\<lparr>en_killSwitch := b\<rparr>)"
  by (simp add: engine_inv_def block_memory_ok_def approval_gate_def dependency_gate_def)

lemma inv_approvals:
  "engine_inv E \<Longrightarrow> engine_inv (E\<lparr>en_approvals := jset k a (en_approvals E)\<rparr>)"
  by (simp add: engine_inv_def block_memory_ok_def approval_gate_def dependency_gate_def)

lemma inv_started:
  "engine_inv E \<Longrightarrow> jget (en_approvals E) AK_plan \<noteq> None \<Longrightarrow> jget (en_approvals E) AK_allocation \<noteq> None \<Longrightarrow>
     engine_inv (E\<lparr>en_started := True\<rparr>)"
  by (simp add: engine_inv_def block_memory_ok_def approval_gate_def dependency_gate_def)

text \<open>Replacing the metadata of a known node.\<close>

lemma log_sound_set_meta:
  "log_sound E \<Longrightarrow> jget (en_meta E) k \<noteq> None \<or> \<not> inherited_key k \<Longrightarrow>
     log_sound (E\<lparr>en_meta := jset k m (en_meta E)\<rparr>)"
  by (auto simp: log_sound_def dom_update dest!: jget_mem)

lemma inv_set_meta:
  assumes inv: "engine_inv E" and k: "jget (en_meta E) k \<noteq> None \<or> \<not> inherited_key k"
    and deps: "node_state_of E k \<notin> {N_pending, N_cancelled} \<Longrightarrow> deps_integrated E m \<and> en_started E"
    and mem: "node_state_of E k = N_pending \<Longrightarrow> nm_blockedFrom m = None \<or> nm_blockedFrom m = Some N_pending"
  shows "engine_inv (E\<lparr>en_meta := jset k m (en_meta E)\<rparr>)"
proof -
  let ?E = "E\<lparr>en_meta := jset k m (en_meta E)\<rparr>"
  have "log_sound ?E" using inv k by (intro log_sound_set_meta) (auto simp: engine_inv_def)
  moreover have "block_memory_ok ?E" using inv mem by (simp add: engine_inv_def block_memory_ok_def)
  moreover have "dependency_gate ?E"
    using inv deps by (simp add: engine_inv_def dependency_gate_def)
  ultimately show ?thesis using inv by (simp add: engine_inv_def approval_gate_def)
qed

lemma upd_meta_inv:
  assumes inv: "engine_inv E"
    and deps: "\<And>m. nm_dependencies (f m) = nm_dependencies m"
    and mem: "\<And>m. jget (en_meta E) k = Some m \<Longrightarrow> node_state_of E k = N_pending \<Longrightarrow>
        nm_blockedFrom (f m) = None \<or> nm_blockedFrom (f m) = Some N_pending"
  shows "engine_inv (upd_meta k f E)"
proof (cases "jget (en_meta E) k")
  case None
  with inv show ?thesis by (simp add: upd_meta_def)
next
  case (Some m)
  have eq: "upd_meta k f E = E\<lparr>en_meta := jset k (f m) (en_meta E)\<rparr>"
    using Some by (simp add: upd_meta_def)
  have "dependency_gate E" using inv by (simp add: engine_inv_def)
  then have d: "node_state_of E k \<notin> {N_pending, N_cancelled} \<Longrightarrow> deps_integrated E (f m) \<and> en_started E"
    using Some unfolding dependency_gate_def deps_integrated_def deps by blast
  show ?thesis unfolding eq
    by (rule inv_set_meta [OF inv _ d mem [OF Some]]) (simp add: Some)
qed

lemma on_budget_keeps:
  assumes "\<And>L. ledger_inv L \<Longrightarrow> ledger_inv (snd (f L))"
  shows "keeps engine_inv (on_budget f)"
proof (rule keepsI)
  fix E assume inv: "engine_inv E"
  obtain r L where f: "f (en_budget E) = (r, L)" by (cases "f (en_budget E)")
  with assms [of "en_budget E"] inv have "ledger_inv L" by (simp add: engine_inv_def)
  then have "engine_inv (E\<lparr>en_budget := L\<rparr>)" using inv by (rule inv_budget)
  with f show "engine_inv (snd (on_budget f E))" by (simp add: on_budget_def split: sum.splits)
qed


lemma keeps_block [norns_inv]: "keeps engine_inv (block k reason)"
proof (rule keepsI)
  fix E assume inv: "engine_inv E"
  let ?E = "upd_meta k (\<lambda>m. m\<lparr>nm_blockedFrom := Some (node_state_of E k)\<rparr>) E"
  have s: "log_sound E" using inv by (simp add: engine_inv_def)
  have "engine_inv ?E" by (rule upd_meta_inv [OF inv]) simp_all
  then have "engine_inv (snd (append_event k N_blocked (Some (blocked_reason_str reason)) ?E))"
    using append_event_keeps [of N_blocked k "Some (blocked_reason_str reason)"] by (simp add: keeps_def)
  with inv stateOf_eq [OF s, of k] show "engine_inv (snd (block k reason E))"
    by (simp add: block_def requireMeta_def and_then_def split: option.splits)
qed

lemma keeps_resume [norns_inv]: "keeps engine_inv (resume k)"
proof (rule keepsI)
  fix E assume inv: "engine_inv E"
  show "engine_inv (snd (resume k E))"
  proof (cases "\<exists>m t. jget (en_meta E) k = Some m \<and> nm_blockedFrom m = Some t")
    case False
    with inv show ?thesis
      by (auto simp: resume_def requireMeta_def and_then_def split: option.splits)
  next
    case True
    then obtain m t where m: "jget (en_meta E) k = Some m" "nm_blockedFrom m = Some t" by blast
    let ?E = "upd_meta k (\<lambda>m. m\<lparr>nm_blockedFrom := None\<rparr>) E"
    have inv': "engine_inv ?E" by (rule upd_meta_inv [OF inv]) simp_all
    then have s: "log_sound ?E" by (simp add: engine_inv_def)
    have st: "node_state_of ?E = node_state_of E" using m by (simp add: upd_meta_def)
    have t: "node_state_of E k = N_pending \<Longrightarrow> t = N_pending"
      using inv m unfolding engine_inv_def block_memory_ok_def by (metis option.inject option.discI)
    have "engine_inv (snd (append_event k t None ?E))"
      using s
    proof (cases rule: append_event_cases [of ?E k t None])
      case (pushed m')
      with inv' t st show ?thesis by (auto intro: engine_inv_push)
    qed (use inv' in auto)
    with m show ?thesis by (simp add: resume_def requireMeta_def and_then_def)
  qed
qed

lemma cascade_node_keeps:
  assumes "p \<in> set M" and "jwf M"
  shows "keeps (\<lambda>E. engine_inv E \<and> en_started E \<and> en_meta E = M) (cascade_node p)"
proof (rule keepsI)
  fix E assume E: "engine_inv E \<and> en_started E \<and> en_meta E = M"
  let ?k = "fst p" and ?m = "snd p"
  have s: "log_sound E" using E by (simp add: engine_inv_def)
  have m: "jget (en_meta E) ?k = Some ?m" using assms E by (simp add: jget_of_mem)
  show "engine_inv (snd (cascade_node p E)) \<and> en_started (snd (cascade_node p E))
      \<and> en_meta (snd (cascade_node p E)) = M"
  proof (cases "node_state_of E ?k = N_pending \<and> deps_integrated E ?m")
    case False
    then have "snd (cascade_node p E) = E"
      by (auto simp: cascade_node_def and_then_def stateOf_eq [OF s] all_integrated_eq [OF s]
          deps_integrated_def)
    with E show ?thesis by simp
  next
    case True
    then have can: "canTransition (node_state_of E ?k) N_ready" by (simp add: canTransition_def)
    from s have "append_event ?k N_ready None E = (Inr (), push_event ?k N_ready None E)"
      by (cases rule: append_event_cases [of E ?k N_ready None]) (use m can in auto)
    then have eq: "snd (cascade_node p E) = push_event ?k N_ready None E"
      using True by (simp add: cascade_node_def and_then_def stateOf_eq [OF s] all_integrated_eq [OF s]
          deps_integrated_def)
    have "engine_inv (push_event ?k N_ready None E)"
      by (rule engine_inv_push [OF _ m can]) (use E True in auto)
    with eq E show ?thesis by simp
  qed
qed

lemma cascadeReady_keeps [norns_inv]: "keeps engine_inv cascadeReady"
proof (rule keepsI)
  fix E assume inv: "engine_inv E"
  show "engine_inv (snd (cascadeReady E))"
  proof (cases "en_started E")
    case True
    have wf: "jwf (en_meta E)" using inv by (simp add: engine_inv_def log_sound_def)
    have "keeps (\<lambda>F. engine_inv F \<and> en_started F \<and> en_meta F = en_meta E) (for_each (en_meta E) cascade_node)"
      by (intro keeps_for_each_mem cascade_node_keeps wf)
    with inv True show ?thesis by (simp add: cascadeReady_def keeps_def)
  qed (use inv in \<open>simp add: cascadeReady_def\<close>)
qed

lemma keeps_set_reservation [norns_inv]:
  "keeps engine_inv (modifying (upd_meta k (\<lambda>m. m\<lparr>nm_activeReservation := r\<rparr>)))"
  by (rule keeps_modifying, rule upd_meta_inv)
    (auto simp: engine_inv_def block_memory_ok_def)

lemma keeps_kill_switch [norns_inv]:
  "keeps engine_inv (modifying (\<lambda>E. if P E then engageKillSwitch E else E))"
  by (rule keeps_modifying) (simp add: engageKillSwitch_def inv_killSwitch)

lemma keeps_reserve: "0 \<le> x \<Longrightarrow> keeps engine_inv (on_budget (reserve k x))"
  by (rule on_budget_keeps) (rule reserve_keeps [OF _ _ surjective_pairing])

lemma keeps_settle: "0 \<le> x \<Longrightarrow> keeps engine_inv (on_budget (settle k r x))"
  by (rule on_budget_keeps) (rule settle_keeps)

lemma keeps_catch_run: "keeps engine_inv (catch_run k err)"
  unfolding catch_run_def
  by (auto intro!: norns_inv split: engine_error.splits budget_error.splits)

lemma keeps_startRun: "0 \<le> x \<Longrightarrow> keeps engine_inv (startRun k x)"
proof -
  assume x: "0 \<le> x"
  have t: "keeps engine_inv (try_run k x)"
    unfolding try_run_def by (intro norns_inv keeps_reserve x) simp
  have "keeps engine_inv (\<lambda>E. case try_run k x E of
      (Inr rid, E') \<Rightarrow> (Inr rid, E') | (Inl err, E') \<Rightarrow> catch_run k err E')"
    using keepsD [OF t] keeps_catch_run [of k]
    by (intro keepsI) (fastforce simp: keeps_def split: prod.splits sum.splits)
  then show ?thesis unfolding startRun_def by (intro norns_inv)
qed

lemma keeps_completeRun: "0 \<le> x \<Longrightarrow> keeps engine_inv (completeRun k x)"
  unfolding completeRun_def
  by (auto intro!: norns_inv keeps_settle split: option.splits)

lemma keeps_start: "keeps engine_inv (start h1 h2)"
proof (rule keepsI)
  fix E assume inv: "engine_inv E"
  show "engine_inv (snd (start h1 h2 E))"
    using inv inv_started [OF inv] cascadeReady_keeps
    by (auto simp: start_def keeps_def split: option.splits)
qed

lemma keeps_registerNode: "\<not> inherited_key k \<Longrightarrow> keeps engine_inv (registerNode k ds)"
proof (rule keepsI)
  fix E assume k: "\<not> inherited_key k" and inv: "engine_inv E"
  show "engine_inv (snd (registerNode k ds E))"
  proof (cases "jget (en_meta E) k")
    case None
    then have "node_state_of E k = N_pending" using inv by (simp add: engine_inv_def log_sound_def)
    then have "engine_inv (E\<lparr>en_meta := jset k (fresh_meta ds) (en_meta E)\<rparr>)"
      by (intro inv_set_meta inv) (use k in \<open>simp_all add: fresh_meta_def\<close>)
    with None cascadeReady_keeps show ?thesis
      by (simp add: registerNode_def method_simps keeps_def)
  qed (use inv in \<open>simp add: registerNode_def method_simps\<close>)
qed

lemma replaceDependency_inv:
  assumes inv: "engine_inv E" and st: "node_state_of E k = N_pending"
  shows "engine_inv (snd (replaceDependency k a b E))"
proof (cases "jget (en_meta E) k")
  case (Some m)
  have mem: "nm_blockedFrom m = None \<or> nm_blockedFrom m = Some N_pending"
    using inv st Some by (simp add: engine_inv_def block_memory_ok_def)
  have "engine_inv (E\<lparr>en_meta := jset k (m\<lparr>nm_dependencies :=
      map (\<lambda>dep. if dep = a then b else dep) (nm_dependencies m)\<rparr>) (en_meta E)\<rparr>)"
    by (rule inv_set_meta [OF inv]) (use st mem Some in simp_all)
  with Some show ?thesis by (simp add: replaceDependency_def requireMeta_def and_then_def upd_meta_def)
qed (use inv in \<open>simp add: replaceDependency_def requireMeta_def and_then_def\<close>)

subsection \<open>The engine as an object\<close>

datatype engine_call =
    EC_recordApproval approval
  | EC_engageKillSwitch
  | EC_disengageKillSwitch
  | EC_registerNode ident "ident list"
  | EC_replaceDependency ident ident ident
  | EC_start "string option" "string option"
  | EC_assign ident
  | EC_startRun ident usd
  | EC_completeRun ident usd
  | EC_recordVerification ident bool
  | EC_reviewerDecision ident reviewer_decision
  | EC_integrate ident
  | EC_block ident blocked_reason
  | EC_resume ident
  | EC_cancel ident
  | EC_supersede ident
  | EC_ledger ledger_call

fun do_engine_call :: "engine_call \<Rightarrow> engine \<Rightarrow> engine" where
  "do_engine_call (EC_recordApproval a) E = recordApproval a E"
| "do_engine_call EC_engageKillSwitch E = engageKillSwitch E"
| "do_engine_call EC_disengageKillSwitch E = disengageKillSwitch E"
| "do_engine_call (EC_registerNode k ds) E = snd (registerNode k ds E)"
| "do_engine_call (EC_replaceDependency k a b) E = snd (replaceDependency k a b E)"
| "do_engine_call (EC_start h1 h2) E = snd (start h1 h2 E)"
| "do_engine_call (EC_assign k) E = snd (assign k E)"
| "do_engine_call (EC_startRun k x) E = snd (startRun k x E)"
| "do_engine_call (EC_completeRun k x) E = snd (completeRun k x E)"
| "do_engine_call (EC_recordVerification k b) E = snd (recordVerification k b E)"
| "do_engine_call (EC_reviewerDecision k d) E = snd (reviewerDecision k d E)"
| "do_engine_call (EC_integrate k) E = snd (integrate k E)"
| "do_engine_call (EC_block k r) E = snd (block k r E)"
| "do_engine_call (EC_resume k) E = snd (resume k E)"
| "do_engine_call (EC_cancel k) E = snd (cancel k E)"
| "do_engine_call (EC_supersede k) E = snd (supersede k E)"
| "do_engine_call (EC_ledger c) E = E\<lparr>en_budget := do_ledger_call c (en_budget E)\<rparr>"

text \<open>
  What the callers respect: amounts are nonnegative, a registered identifier is not a property of
  \<^verbatim>\<open>Object.prototype\<close>, and a dependency is replaced only at a node that is still pending.
\<close>

fun engine_call_ok :: "engine_call \<Rightarrow> engine \<Rightarrow> bool" where
  "engine_call_ok (EC_registerNode k ds) E \<longleftrightarrow> \<not> inherited_key k"
| "engine_call_ok (EC_replaceDependency k a b) E \<longleftrightarrow> node_state_of E k = N_pending"
| "engine_call_ok (EC_startRun k x) E \<longleftrightarrow> 0 \<le> x"
| "engine_call_ok (EC_completeRun k x) E \<longleftrightarrow> 0 \<le> x"
| "engine_call_ok (EC_ledger c) E \<longleftrightarrow> nonneg_call c"
| "engine_call_ok _ E \<longleftrightarrow> True"

lemmas simple_drives = assign_def recordVerification_def reviewerDecision_def cancel_def supersede_def

lemma keeps_simple [norns_inv]:
  "keeps engine_inv (assign k)" "keeps engine_inv (recordVerification k b)"
  "keeps engine_inv (reviewerDecision k d)" "keeps engine_inv (cancel k)"
  "keeps engine_inv (supersede k)"
  unfolding simple_drives by (auto intro!: norns_inv)

lemma keeps_integrate [norns_inv]: "keeps engine_inv (integrate k)"
  unfolding integrate_def by (intro norns_inv) simp

lemma keeps_snd: "keeps I m \<Longrightarrow> I s \<Longrightarrow> I (snd (m s))"
  by (simp add: keeps_def)

interpretation engine: object_invariant do_engine_call engine_call_ok engine_inv
proof
  fix c E assume ok: "engine_call_ok c E" and inv: "engine_inv E"
  then have L: "ledger_inv (en_budget E)" by (simp add: engine_inv_def)
  from ok inv show "engine_inv (do_engine_call c E)"
  proof (cases c)
    case (EC_ledger lc)
    with ok inv ledger.call_keeps [OF _ L] show ?thesis by (simp add: inv_budget)
  qed (auto simp: recordApproval_def engageKillSwitch_def disengageKillSwitch_def inv_approvals
      inv_killSwitch replaceDependency_inv
      intro: keeps_snd [OF keeps_registerNode] keeps_snd [OF keeps_start] keeps_snd [OF keeps_simple(1)]
        keeps_snd [OF keeps_startRun] keeps_snd [OF keeps_completeRun] keeps_snd [OF keeps_simple(2)]
        keeps_snd [OF keeps_simple(3)] keeps_snd [OF keeps_integrate] keeps_snd [OF keeps_block]
        keeps_snd [OF keeps_resume] keeps_snd [OF keeps_simple(4)] keeps_snd [OF keeps_simple(5)])
qed

end
