(* ===== verification/Workflow_Props.thy ===== *)
theory Workflow_Props
  imports Workflow_Safety
begin

section \<open>Properties of the workflow engine\<close>

text \<open>
  What the invariant of the engine means for its clients: the approval and dependency gates, the
  replayable log, the budget gate of a dispatch, the cascade that unlocks nodes, and blocking and
  resuming.
\<close>

lemma new_engine_meta_get:
  "jget (en_meta (new_engine plan L)) k = Some m \<Longrightarrow>
     k \<in> pm_id ` set (pc_modules plan) \<and> nm_blockedFrom m = None"
proof -
  have gen: "jget (fold (\<lambda>m. jset (pm_id m) (fresh_meta (pm_dependencies m))) ms acc) k = Some m \<Longrightarrow>
      k \<in> pm_id ` set ms \<and> nm_blockedFrom m = None \<or> jget acc k = Some m" for ms acc
    by (induction ms arbitrary: acc) (fastforce simp: fresh_meta_def split: if_splits)+
  assume "jget (en_meta (new_engine plan L)) k = Some m"
  with gen [of "pc_modules plan" "[]"] show ?thesis by (simp add: new_engine_def)
qed

lemma new_engine_keys: "fst ` set (en_meta (new_engine plan L)) = pm_id ` set (pc_modules plan)"
proof -
  have "fst ` set (fold (\<lambda>m. jset (pm_id m) (fresh_meta (pm_dependencies m))) ms acc)
      = pm_id ` set ms \<union> fst ` set acc" for ms acc
    by (induction ms arbitrary: acc) (auto simp: dom_update)
  from this [of "pc_modules plan" "[]"] show ?thesis by (simp add: new_engine_def)
qed

lemma new_engine_wf: "jwf (en_meta (new_engine plan L))"
proof -
  have "jwf acc \<Longrightarrow> jwf (fold (\<lambda>m. jset (pm_id m) (fresh_meta (pm_dependencies m))) ms acc)" for ms acc
    by (induction ms arbitrary: acc) auto
  from this [of "[]" "pc_modules plan"] show ?thesis by (simp add: new_engine_def)
qed

lemma new_engine_inv:
  assumes "ledger_inv L" and "list_all (\<lambda>m. \<not> inherited_key (pm_id m)) (pc_modules plan)"
  shows "engine_inv (new_engine plan L)"
proof -
  let ?E = "new_engine plan L"
  have st: "node_state_of ?E k = N_pending" for k by (simp add: node_state_of_def new_engine_def)
  have "log_sound ?E"
    unfolding log_sound_def new_engine_keys using assms(2) new_engine_wf [of plan L]
    by (auto simp: st list_all_iff) (auto simp: new_engine_def empty_reduced_def)
  moreover have "block_memory_ok ?E"
    using new_engine_meta_get [of plan L] by (auto simp: block_memory_ok_def)
  moreover have "approval_gate ?E" "dependency_gate ?E" "ledger_inv (en_budget ?E)"
    using assms(1) by (simp_all add: approval_gate_def dependency_gate_def st) (simp_all add: new_engine_def)
  ultimately show ?thesis by (simp add: engine_inv_def)
qed

text \<open>An engine as its callers can reach it.\<close>

definition engine_run :: "plan_contract \<Rightarrow> budget_ledger \<Rightarrow> engine_call list \<Rightarrow> engine \<Rightarrow> bool" where
  "engine_run plan L cs E \<longleftrightarrow> ledger_inv L
     \<and> list_all (\<lambda>m. \<not> inherited_key (pm_id m)) (pc_modules plan)
     \<and> obeys do_engine_call engine_call_ok cs (new_engine plan L)
     \<and> E = fold do_engine_call cs (new_engine plan L)"

lemma engine_run_inv: "engine_run plan L cs E \<Longrightarrow> engine_inv E"
  by (auto simp: engine_run_def intro: engine.calls_keep new_engine_inv)

text \<open>
  C1: The approval and dependency gates hold in every state that the calls of a new engine reach, failing calls
  included: if a node of the engine is in any state but \<^verbatim>\<open>pending\<close> and \<^verbatim>\<open>cancelled\<close>, then execution was
  started, a plan approval and an allocation approval are on record, and all the dependencies it has now are
  integrated. A node may be cancelled while it is pending, without an approval, so \<^verbatim>\<open>cancelled\<close> is excepted. The
  calls are those of \<open>engine_call_ok\<close>: amounts are nonnegative, no identifier is a property of
  \<^verbatim>\<open>Object.prototype\<close>, and \<^verbatim>\<open>replaceDependency\<close>, which the engine does not guard, is called for nodes
  that are still pending only; the ledger given to the engine satisfies its invariant \<open>ledger_inv\<close>, as a new one does.
\<close>

theorem engine_gates:
  assumes "engine_run plan L cs E" and "jget (en_meta E) k = Some m"
    and "stateOf k E = (Inr s, E)" and "s \<notin> {N_pending, N_cancelled}"
  shows "en_started E \<and> jget (en_approvals E) AK_plan \<noteq> None
     \<and> jget (en_approvals E) AK_allocation \<noteq> None
     \<and> (\<forall>d \<in> set (nm_dependencies m). stateOf d E = (Inr N_integrated, E))"
proof -
  have inv: "engine_inv E" using assms(1) by (rule engine_run_inv)
  then have s: "log_sound E" by (simp add: engine_inv_def)
  have "node_state_of E k = s" using assms(3) stateOf_eq [OF s] by simp
  then have "en_started E \<and> deps_integrated E m"
    using inv assms(2,4) unfolding engine_inv_def dependency_gate_def by blast
  with inv show ?thesis
    by (simp add: engine_inv_def approval_gate_def deps_integrated_def stateOf_eq [OF s])
qed

lemma applied_of_accounts:
  assumes "reduceLifecycle evs = Inr st" "rs_rejected st = []" "distinct (map le_event_id evs)"
  shows "rs_applied st = map le_event_id evs"
  using assms
proof (induction evs arbitrary: st rule: rev_induct)
  case (snoc e evs)
  obtain st' where st': "reduceLifecycle evs = Inr st'"
    using snoc.prems(1)
    by (cases "reduceLifecycle evs") (auto simp: reduceLifecycle_def node_reducer.loop_append)
  have fresh: "le_event_id e \<notin> set (map le_event_id evs)" using snoc.prems(3) by auto
  have step: "reduce_event st' e = Inr st"
    using reduceLifecycle_snoc [OF st' fresh] snoc.prems(1) by simp
  with snoc.prems(2) have "rs_rejected st' = []" "rs_applied st = rs_applied st' @ [le_event_id e]"
    by (auto elim: reduce_event_cases)
  with snoc.IH [OF st'] snoc.prems(3) show ?case by simp
qed (simp add: empty_reduced_def)

text \<open>
  The log of the engine replays: in every reachable state reducing the log succeeds, applies
  all of it in order under the identifiers \<^verbatim>\<open>evt_1\<close> to \<^verbatim>\<open>evt_n\<close>, rejects nothing, and replaying
  a copy of the log with any of its events redelivered at the end reconstructs the states the
  engine reports.
\<close>

theorem engine_log_replays:
  assumes "engine_run plan L cs E" and "set ys \<subseteq> set (en_log E)"
  shows "\<exists>st. reduceLifecycle (en_log E) = Inr st \<and> rs_rejected st = []
       \<and> rs_applied st = map (\<lambda>i. ''evt_'' @ dec i) [1..<Suc (en_eventCounter E)]
       \<and> replayFrom (en_log E @ ys) E = states E \<and> fst (states E) \<noteq> Inl (EE_js TypeError)"
proof -
  have s: "log_sound E" using engine_run_inv [OF assms(1)] by (simp add: engine_inv_def)
  then obtain st where st: "reduceLifecycle (en_log E) = Inr st" "rs_rejected st = []"
    by (auto simp: log_sound_def)
  have ids: "map le_event_id (en_log E) = map (\<lambda>i. ''evt_'' @ dec i) [1..<Suc (en_eventCounter E)]"
    using s by (simp add: log_sound_def)
  have "distinct (map le_event_id (en_log E))"
    unfolding ids by (auto simp: distinct_map inj_on_def)
  from applied_of_accounts [OF st this] ids
  have "rs_applied st = map (\<lambda>i. ''evt_'' @ dec i) [1..<Suc (en_eventCounter E)]" by simp
  moreover have "reduceLifecycle (en_log E @ ys) = Inr st"
    using reduce_replayed [of ys "en_log E"] st assms(2) by auto
  ultimately show ?thesis using st by (simp add: replayFrom_def states_def)
qed


subsection \<open>A sample run\<close>

definition sample_plan :: plan_contract where
  "sample_plan = mk_plan [mk_module ''a'' [], mk_module ''b'' [''a'']]"

definition sample_approval :: "approval_kind \<Rightarrow> approval" where
  "sample_approval kind = \<lparr>ap_id = ''ap'', ap_kind = kind, ap_actor = ''human'', ap_approved_at = ''t'',
     ap_content_hash = ''h''\<rparr>"

definition sample_calls :: "engine_call list" where
  "sample_calls = [EC_assign ''a'', EC_recordApproval (sample_approval AK_plan),
     EC_recordApproval (sample_approval AK_allocation), EC_start (Some ''h'') None, EC_assign ''a'',
     EC_startRun ''a'' 6]"

definition sample_engine :: engine where
  "sample_engine = fold do_engine_call sample_calls (new_engine sample_plan sample_ledger)"

lemma sample_run: "engine_run sample_plan sample_ledger sample_calls sample_engine"
  by (simp add: engine_run_def sample_ledger_inv sample_engine_def)
    (simp add: sample_plan_def mk_plan_def mk_module_def object_prototype_keys_def sample_calls_def)

lemma sample_state:
  "stateOf ''a'' sample_engine = (Inr N_running, sample_engine)"
  "stateOf ''b'' sample_engine = (Inr N_pending, sample_engine)"
  by code_simp+

lemma sample_meta: "jget (en_meta sample_engine) ''a'' =
    Some \<lparr>nm_dependencies = [], nm_blockedFrom = None, nm_activeReservation = Some ''res_1''\<rparr>"
  "en_log sample_engine = [\<lparr>le_event_id = ''evt_1'', le_node_id = ''a'', le_to = N_ready, le_reason = None\<rparr>,
     \<lparr>le_event_id = ''evt_2'', le_node_id = ''a'', le_to = N_assigned, le_reason = None\<rparr>,
     \<lparr>le_event_id = ''evt_3'', le_node_id = ''a'', le_to = N_running, le_reason = None\<rparr>]"
  by code_simp+

theorem engine_gates_witness:
  "stateOf ''a'' sample_engine = (Inr N_running, sample_engine)
   \<and> jget (en_approvals sample_engine) AK_plan \<noteq> None"
  using engine_gates [OF sample_run sample_meta(1) sample_state(1)] sample_state(1) by simp

theorem engine_log_replays_witness:
  "\<exists>st. reduceLifecycle (en_log sample_engine) = Inr st \<and> rs_rejected st = []
     \<and> replayFrom (en_log sample_engine @ [hd (en_log sample_engine)]) sample_engine = states sample_engine"
  using engine_log_replays [OF sample_run, of "[hd (en_log sample_engine)]"]
  by (auto simp: sample_meta(2))

subsection \<open>The cascade\<close>

lemma cascade_node_result:
  assumes inv: "engine_inv E" and m: "jget (en_meta E) k = Some m"
  shows "cascade_node (k, m) E =
     (Inr (), if node_state_of E k = N_pending \<and> deps_integrated E m then push_event k N_ready None E else E)"
proof -
  have s: "log_sound E" using inv by (simp add: engine_inv_def)
  show ?thesis
  proof (cases "node_state_of E k = N_pending \<and> deps_integrated E m")
    case True
    then have can: "canTransition (node_state_of E k) N_ready" by (simp add: canTransition_def)
    from s have "append_event k N_ready None E = (Inr (), push_event k N_ready None E)"
      by (cases rule: append_event_cases [of E k N_ready None]) (use m can in auto)
    with True show ?thesis
      by (simp add: cascade_node_def and_then_def stateOf_eq [OF s] all_integrated_eq [OF s] deps_integrated_def)
  next
    case False
    then show ?thesis
      by (auto simp: cascade_node_def and_then_def stateOf_eq [OF s] all_integrated_eq [OF s] deps_integrated_def)
  qed
qed

definition unlocked :: "engine \<Rightarrow> (ident, node_meta) jmap \<Rightarrow> ident \<Rightarrow> bool" where
  "unlocked E xs k \<longleftrightarrow> (\<exists>m. (k, m) \<in> set xs \<and> node_state_of E k = N_pending \<and> deps_integrated E m)"

lemma cascade_loop:
  assumes "engine_inv E" "en_started E" "set xs \<subseteq> set (en_meta E)" "jwf xs"
  shows "\<exists>E'. for_each xs cascade_node E = (Inr (), E') \<and> engine_inv E' \<and> en_meta E' = en_meta E
     \<and> (\<forall>k. node_state_of E' k = (if unlocked E xs k then N_ready else node_state_of E k))"
  using assms
proof (induction xs arbitrary: E)
  case Nil
  then show ?case by (auto simp: unlocked_def)
next
  case (Cons p xs)
  obtain k m where p: "p = (k, m)" by (cases p)
  have s: "log_sound E" using Cons.prems by (simp add: engine_inv_def)
  then have m: "jget (en_meta E) k = Some m"
    using Cons.prems(3) p by (auto simp: log_sound_def intro: jget_of_mem)
  let ?go = "node_state_of E k = N_pending \<and> deps_integrated E m"
  define F where "F = (if ?go then push_event k N_ready None E else E)"
  have step: "cascade_node p E = (Inr (), F)"
    using cascade_node_result [OF Cons.prems(1) m] by (simp add: F_def p)
  have can: "?go \<Longrightarrow> canTransition (node_state_of E k) N_ready" by (simp add: canTransition_def)
  have F: "engine_inv F" "en_started F" "en_meta F = en_meta E"
    using Cons.prems engine_inv_push [OF Cons.prems(1) m can] by (auto simp: F_def)
  have st: "node_state_of F = (if ?go then (node_state_of E)(k := N_ready) else node_state_of E)"
    using push_event_sound(2) [OF s m can] by (simp add: F_def)
  have "node_state_of F d = N_integrated \<longleftrightarrow> node_state_of E d = N_integrated" for d
    unfolding st by auto
  then have deps: "deps_integrated F = deps_integrated E" by (simp add: deps_integrated_def fun_eq_iff)
  obtain E' where E': "for_each xs cascade_node F = (Inr (), E')" "engine_inv E'" "en_meta E' = en_meta F"
    "\<And>k'. node_state_of E' k' = (if unlocked F xs k' then N_ready else node_state_of F k')"
    using Cons.IH [OF F(1,2)] Cons.prems F(3) by auto
  have out: "\<not> unlocked G xs k" for G
    using Cons.prems(4) p by (force simp: unlocked_def)
  have un: "unlocked E (p # xs) k' \<longleftrightarrow> k' = k \<and> ?go \<or> unlocked E xs k'" for k'
    by (auto simp: unlocked_def p)
  have unF: "unlocked F xs k' \<longleftrightarrow> unlocked E xs k'" for k'
    using out by (cases "k' = k") (simp_all add: unlocked_def deps st)
  have "node_state_of E' k' = (if unlocked E (p # xs) k' then N_ready else node_state_of E k')" for k'
    unfolding E'(4) un unF using out [of E] st by (cases "k' = k") simp_all
  with E' F step show ?case by (auto simp: and_then_def)
qed

lemma cascade_end:
  assumes "engine_inv E" and "en_started E" and "cascadeReady E = (Inr (), E')"
  shows "en_meta E' = en_meta E"
    and "node_state_of E' k = (if unlocked E (en_meta E) k then N_ready else node_state_of E k)"
    and "\<not> unlocked E' (en_meta E') k"
proof -
  from assms(1) have "jwf (en_meta E)" by (simp add: engine_inv_def log_sound_def)
  then show meta: "en_meta E' = en_meta E"
    and st: "node_state_of E' k = (if unlocked E (en_meta E) k then N_ready else node_state_of E k)" for k
    using cascade_loop [OF assms(1,2), of "en_meta E"] assms(2,3) by (auto simp: cascadeReady_def)
  have "node_state_of E' d = N_integrated \<longleftrightarrow> node_state_of E d = N_integrated" for d
    unfolding st by (auto simp: unlocked_def)
  then have "deps_integrated E' = deps_integrated E" by (simp add: deps_integrated_def fun_eq_iff)
  then show "\<not> unlocked E' (en_meta E') k"
    unfolding unlocked_def meta st by (auto simp: unlocked_def split: if_splits)
qed

lemma cascade_completes:
  assumes "engine_inv E" and "en_started E"
  obtains E' where "cascadeReady E = (Inr (), E')"
proof -
  from assms(1) have "jwf (en_meta E)" by (simp add: engine_inv_def log_sound_def)
  then show thesis using cascade_loop [OF assms, of "en_meta E"] assms(2) that by (auto simp: cascadeReady_def)
qed

text \<open>
  The cascade is complete and exact. In a started engine it always returns, moves to \<^verbatim>\<open>ready\<close>
  exactly the pending nodes whose dependencies are all integrated, and leaves every other node where
  it was; so afterwards no pending node is unlocked.
\<close>

theorem cascadeReady_exact:
  assumes "engine_run plan L cs E" and "en_started E"
  shows "\<exists>E'. cascadeReady E = (Inr (), E')
     \<and> (\<forall>k. node_state_of E' k = (if unlocked E (en_meta E) k then N_ready else node_state_of E k))
     \<and> (\<forall>k. \<not> unlocked E' (en_meta E') k)"
proof -
  have inv: "engine_inv E" using assms(1) by (rule engine_run_inv)
  obtain E' where E': "cascadeReady E = (Inr (), E')" using cascade_completes [OF inv assms(2)] .
  from cascade_end [OF inv assms(2) E'] E' show ?thesis by blast
qed

theorem cascadeReady_exact_witness:
  "\<exists>E'. cascadeReady sample_engine = (Inr (), E') \<and> \<not> unlocked E' (en_meta E') ''b''"
proof -
  have "en_started sample_engine" by code_simp
  from cascadeReady_exact [OF sample_run this] show ?thesis by blast
qed

subsection \<open>Dispatch under the budget gate\<close>

lemma append_pushes:
  assumes "log_sound E" "jget (en_meta E) k = Some m" "canTransition (node_state_of E k) dest"
  shows "append_event k dest r E = (Inr (), push_event k dest r E)"
  using assms(1) by (cases rule: append_event_cases [of E k dest r]) (use assms in auto)

lemma append_refuses:
  assumes "log_sound E" "jget (en_meta E) k = Some m" "\<not> canTransition (node_state_of E k) dest"
  shows "append_event k dest r E = (Inl (EE_invalid_transition (node_state_of E k) dest k), E)"
  using assms(1) by (cases rule: append_event_cases [of E k dest r]) (use assms in auto)

lemma upd_meta_known:
  "jget (en_meta E) k = Some m \<Longrightarrow> upd_meta k f E = E\<lparr>en_meta := jset k (f m) (en_meta E)\<rparr>"
  by (simp add: upd_meta_def)

lemma log_sound_upd:
  "log_sound E \<Longrightarrow> jget (en_meta E) k = Some m \<Longrightarrow> log_sound (E\<lparr>en_meta := jset k m' (en_meta E)\<rparr>)"
  by (intro log_sound_set_meta) simp_all

lemma block_result:
  assumes s: "log_sound E" and m: "jget (en_meta E) k = Some m"
  shows "block k reason E =
     (let E1 = E\<lparr>en_meta := jset k (m\<lparr>nm_blockedFrom := Some (node_state_of E k)\<rparr>) (en_meta E)\<rparr> in
      if canTransition (node_state_of E k) N_blocked
      then (Inr (), push_event k N_blocked (Some (blocked_reason_str reason)) E1)
      else (Inl (EE_invalid_transition (node_state_of E k) N_blocked k), E1))"
proof -
  let ?E1 = "E\<lparr>en_meta := jset k (m\<lparr>nm_blockedFrom := Some (node_state_of E k)\<rparr>) (en_meta E)\<rparr>"
  have s1: "log_sound ?E1" by (rule log_sound_upd [OF s m])
  have st: "node_state_of ?E1 k = node_state_of E k" by simp
  have m1: "jget (en_meta ?E1) k = Some (m\<lparr>nm_blockedFrom := Some (node_state_of E k)\<rparr>)" by simp
  show ?thesis
    using append_pushes [OF s1 m1] append_refuses [OF s1 m1] st
    by (simp add: block_def requireMeta_def and_then_def stateOf_eq [OF s] m upd_meta_known Let_def)
qed

lemma startRun_outcome:
  assumes s: "log_sound E" and m: "jget (en_meta E) k = Some m" and st: "node_state_of E k = N_assigned"
  shows "if en_killSwitch E then startRun k x E = (Inl KillSwitchEngagedError, E)
     else case reserve k x (en_budget E) of
       (Inr rid, L) \<Rightarrow> \<exists>E'. startRun k x E = (Inr rid, E') \<and> en_budget E' = L \<and> \<not> en_killSwitch E'
          \<and> node_state_of E' = (node_state_of E)(k := N_running)
          \<and> jget (en_meta E') k = Some (m\<lparr>nm_activeReservation := Some rid\<rparr>)
     | (Inl (BudgetExceededError n y a scope), L) \<Rightarrow>
          \<exists>E'. startRun k x E = (Inl (EE_budget (BudgetExceededError n y a scope)), E')
          \<and> en_budget E' = en_budget E \<and> node_state_of E' = (node_state_of E)(k := N_blocked)
          \<and> jget (en_meta E') k = Some (m\<lparr>nm_blockedFrom := Some N_assigned\<rparr>)
          \<and> (en_killSwitch E' \<longleftrightarrow> scope = BS_project \<or> projectHardCapReached (en_budget E))
     | (Inl e, L) \<Rightarrow> startRun k x E = (Inl (EE_budget e), E)"
proof -
  obtain res L where r: "reserve k x (en_budget E) = (res, L)" by (cases "reserve k x (en_budget E)")
  show ?thesis
  proof (cases res)
    case (Inr rid)
    let ?F = "E\<lparr>en_budget := L\<rparr>"
    let ?m = "m\<lparr>nm_activeReservation := Some rid\<rparr>"
    have mF: "jget (en_meta ?F) k = Some m" using m by simp
    let ?G = "?F\<lparr>en_meta := jset k ?m (en_meta ?F)\<rparr>"
    have sG: "log_sound ?G" using log_sound_upd [OF _ mF] s by simp
    have mG: "jget (en_meta ?G) k = Some ?m" by simp
    have can: "canTransition (node_state_of ?G k) N_running"
      using st by (simp add: canTransition_def)
    note app = append_pushes [OF sG mG can] and push = push_event_sound(2) [OF sG mG can]
    have t: "try_run k x E = (Inr rid, push_event k N_running None ?G)"
      using r Inr app upd_meta_known [OF mF] by (simp add: try_run_def on_budget_def and_then_def)
    have "startRun k x E = (Inr rid, push_event k N_running None ?G)" if "\<not> en_killSwitch E"
      using t that m by (simp add: startRun_def method_simps requireMeta_def)
    with r Inr push mG show ?thesis by (auto simp: startRun_def method_simps)
  next
    case (Inl e)
    have same: "L = en_budget E" using r Inl by (auto elim: reserve_cases)
    have t: "try_run k x E = (Inl (EE_budget e), E)"
      using r Inl same by (simp add: try_run_def on_budget_def and_then_def)
    show ?thesis
    proof (cases e)
      case (BudgetExceededError n y a scope)
      let ?m = "m\<lparr>nm_blockedFrom := Some N_assigned\<rparr>"
      let ?F = "E\<lparr>en_meta := jset k ?m (en_meta E)\<rparr>"
      have mF: "jget (en_meta ?F) k = Some ?m" by simp
      have can: "canTransition (node_state_of ?F k) N_blocked" using st by (simp add: canTransition_def)
      let ?G = "push_event k N_blocked (Some (blocked_reason_str BR_budget)) ?F"
      note push = push_event_sound(2) [OF log_sound_upd [OF s m] mF can]
      have b: "block k BR_budget E = (Inr (), ?G)"
        using block_result [OF s m] can st by (simp add: Let_def)
      have "startRun k x E = (Inl (EE_budget e), if scope = BS_project \<or> projectHardCapReached (en_budget E)
          then engageKillSwitch ?G else ?G)" if "\<not> en_killSwitch E"
        using t b that BudgetExceededError m
        by (simp add: startRun_def method_simps requireMeta_def catch_run_def)
      with r Inl BudgetExceededError push mF show ?thesis
        by (auto simp: startRun_def method_simps engageKillSwitch_def)
    qed (use r Inl t m in \<open>simp_all add: startRun_def method_simps requireMeta_def catch_run_def\<close>)
  qed
qed

text \<open>
  Dispatching an assigned node meters it first. With the kill switch engaged it is refused and
  nothing changes. If the ledger grants the reservation, the node runs, holding that reservation. If
  the ledger refuses for lack of budget, the node does not run: it is blocked, remembering that it
  was assigned, the ledger is unchanged, and the kill switch is engaged when the project cap was the
  reason or is reached.
\<close>

theorem startRun_budget_gate:
  assumes "engine_run plan L0 cs E" and "jget (en_meta E) k = Some m" and "node_state_of E k = N_assigned"
  shows "if en_killSwitch E then startRun k x E = (Inl KillSwitchEngagedError, E)
     else case reserve k x (en_budget E) of
       (Inr rid, L) \<Rightarrow> \<exists>E'. startRun k x E = (Inr rid, E') \<and> en_budget E' = L \<and> \<not> en_killSwitch E'
          \<and> node_state_of E' = (node_state_of E)(k := N_running)
          \<and> jget (en_meta E') k = Some (m\<lparr>nm_activeReservation := Some rid\<rparr>)
     | (Inl (BudgetExceededError n y a scope), L) \<Rightarrow>
          \<exists>E'. startRun k x E = (Inl (EE_budget (BudgetExceededError n y a scope)), E')
          \<and> en_budget E' = en_budget E \<and> node_state_of E' = (node_state_of E)(k := N_blocked)
          \<and> jget (en_meta E') k = Some (m\<lparr>nm_blockedFrom := Some N_assigned\<rparr>)
          \<and> (en_killSwitch E' \<longleftrightarrow> scope = BS_project \<or> projectHardCapReached (en_budget E))
     | (Inl e, L) \<Rightarrow> startRun k x E = (Inl (EE_budget e), E)"
  using startRun_outcome [OF _ assms(2,3)] engine_run_inv [OF assms(1)] by (simp add: engine_inv_def)

definition assigned_engine :: engine where
  "assigned_engine = fold do_engine_call (take 5 sample_calls) (new_engine sample_plan sample_ledger)"

lemma assigned_run: "engine_run sample_plan sample_ledger (take 5 sample_calls) assigned_engine"
  by (simp add: engine_run_def sample_ledger_inv assigned_engine_def)
    (simp add: sample_plan_def mk_plan_def mk_module_def object_prototype_keys_def sample_calls_def)

lemma assigned_meta:
  "jget (en_meta assigned_engine) ''a'' =
     Some \<lparr>nm_dependencies = [], nm_blockedFrom = None, nm_activeReservation = None\<rparr>"
  "node_state_of assigned_engine ''a'' = N_assigned"
  by code_simp+

theorem startRun_budget_gate_witness:
  "\<exists>E'. startRun ''a'' 11 assigned_engine
       = (Inl (EE_budget (BudgetExceededError ''a'' 11 10 BS_node)), E')
     \<and> node_state_of E' ''a'' = N_blocked \<and> \<not> en_killSwitch E'"
proof -
  have r: "reserve ''a'' 11 (en_budget assigned_engine)
      = (Inl (BudgetExceededError ''a'' 11 10 BS_node), en_budget assigned_engine)"
    and k: "\<not> en_killSwitch assigned_engine" "\<not> projectHardCapReached (en_budget assigned_engine)"
    by code_simp+
  show ?thesis
    using startRun_budget_gate [OF assigned_run assigned_meta, of 11] by (auto simp: r k)
qed

subsection \<open>Blocking and resuming\<close>

text \<open>
  Blocking a node and resuming it is a round trip: from every state that can be blocked both
  calls return and every node is in the state it was in before.
\<close>

theorem block_resume_roundtrip:
  assumes "engine_run plan L cs E" and "jget (en_meta E) k = Some m"
    and "canTransition (node_state_of E k) N_blocked"
  shows "\<exists>E1 E2. block k reason E = (Inr (), E1) \<and> node_state_of E1 k = N_blocked
     \<and> resume k E1 = (Inr (), E2) \<and> node_state_of E2 = node_state_of E"
proof -
  have "engine_inv E" using assms(1) by (rule engine_run_inv)
  then have s: "log_sound E" by (simp add: engine_inv_def)
  let ?s = "node_state_of E k" and ?m = "m\<lparr>nm_blockedFrom := Some (node_state_of E k)\<rparr>"
  let ?F = "E\<lparr>en_meta := jset k ?m (en_meta E)\<rparr>"
  let ?E1 = "push_event k N_blocked (Some (blocked_reason_str reason)) ?F"
  have sF: "log_sound ?F" by (rule log_sound_upd [OF s assms(2)])
  have mF: "jget (en_meta ?F) k = Some ?m" by simp
  have canF: "canTransition (node_state_of ?F k) N_blocked" using assms(3) by simp
  have b: "block k reason E = (Inr (), ?E1)" using block_result [OF s assms(2)] assms(3) by (simp add: Let_def)
  have s1: "log_sound ?E1" by (rule push_event_sound(1) [OF sF mF canF])
  have st1: "node_state_of ?E1 = (node_state_of E)(k := N_blocked)"
    using push_event_sound(2) [OF sF mF canF] by simp
  have m1: "jget (en_meta ?E1) k = Some ?m" by simp
  let ?G = "?E1\<lparr>en_meta := jset k (?m\<lparr>nm_blockedFrom := None\<rparr>) (en_meta ?E1)\<rparr>"
  have sG: "log_sound ?G" by (rule log_sound_upd [OF s1 m1])
  have mG: "jget (en_meta ?G) k = Some (?m\<lparr>nm_blockedFrom := None\<rparr>)" by simp
  have stG: "node_state_of ?G = (node_state_of E)(k := N_blocked)" using st1 by simp
  have canG: "canTransition (node_state_of ?G k) ?s"
    unfolding stG using assms(3) by (cases ?s) (simp_all add: canTransition_def)
  have "resume k ?E1 = (Inr (), push_event k ?s None ?G)"
    using append_pushes [OF sG mG canG] upd_meta_known [OF m1] m1
    by (simp add: resume_def requireMeta_def and_then_def)
  moreover have "node_state_of (push_event k ?s None ?G) = node_state_of E"
    using push_event_sound(2) [OF sG mG canG] stG by simp
  ultimately show ?thesis using b st1 by auto
qed

theorem block_resume_roundtrip_witness:
  "\<exists>E1 E2. block ''a'' BR_runner sample_engine = (Inr (), E1) \<and> resume ''a'' E1 = (Inr (), E2)
     \<and> node_state_of E2 ''a'' = N_running"
proof -
  have st: "node_state_of sample_engine ''a'' = N_running" by code_simp
  have "canTransition (node_state_of sample_engine ''a'') N_blocked" by (simp add: st canTransition_def)
  from block_resume_roundtrip [OF sample_run sample_meta(1) this, of BR_runner] st show ?thesis by auto
qed

text \<open>
  Blocking a node that is already blocked loses the way back. The second call throws, but it has
  already overwritten the remembered state with \<^verbatim>\<open>blocked\<close>; the next \<^verbatim>\<open>resume\<close> then throws too and
  clears the memory, after which every \<^verbatim>\<open>resume\<close> fails and the node stays blocked.
\<close>

theorem double_block_loses_resume:
  assumes "engine_run plan L cs E" and "jget (en_meta E) k = Some m" and "node_state_of E k = N_blocked"
  shows "\<exists>E1 E2. block k reason E = (Inl (EE_invalid_transition N_blocked N_blocked k), E1)
     \<and> resume k E1 = (Inl (EE_invalid_transition N_blocked N_blocked k), E2)
     \<and> resume k E2 = (Inl (EE_not_blocked k), E2) \<and> node_state_of E2 k = N_blocked"
proof -
  have "engine_inv E" using assms(1) by (rule engine_run_inv)
  then have s: "log_sound E" by (simp add: engine_inv_def)
  let ?E1 = "E\<lparr>en_meta := jset k (m\<lparr>nm_blockedFrom := Some N_blocked\<rparr>) (en_meta E)\<rparr>"
  have no: "\<not> canTransition N_blocked N_blocked" by (simp add: canTransition_def)
  have b: "block k reason E = (Inl (EE_invalid_transition N_blocked N_blocked k), ?E1)"
    using block_result [OF s assms(2)] no assms(3) by (simp add: Let_def)
  have s1: "log_sound ?E1" by (rule log_sound_upd [OF s assms(2)])
  have m1: "jget (en_meta ?E1) k = Some (m\<lparr>nm_blockedFrom := Some N_blocked\<rparr>)" by simp
  let ?m2 = "m\<lparr>nm_blockedFrom := None\<rparr>"
  let ?E2 = "?E1\<lparr>en_meta := jset k ?m2 (en_meta ?E1)\<rparr>"
  have s2: "log_sound ?E2" by (rule log_sound_upd [OF s1 m1])
  have m2: "jget (en_meta ?E2) k = Some ?m2" by simp
  have st2: "node_state_of ?E2 k = N_blocked" using assms(3) by simp
  have "resume k ?E1 = (Inl (EE_invalid_transition N_blocked N_blocked k), ?E2)"
    using append_refuses [OF s2 m2] st2 no upd_meta_known [OF m1] m1
    by (simp add: resume_def requireMeta_def and_then_def)
  moreover have "resume k ?E2 = (Inl (EE_not_blocked k), ?E2)"
    using m2 by (simp add: resume_def requireMeta_def and_then_def)
  ultimately show ?thesis using b st2 by blast
qed

definition blocked_engine :: engine where
  "blocked_engine = fold do_engine_call (sample_calls @ [EC_block ''a'' BR_runner]) (new_engine sample_plan sample_ledger)"

theorem double_block_loses_resume_witness:
  "\<exists>E1 E2. block ''a'' BR_budget blocked_engine = (Inl (EE_invalid_transition N_blocked N_blocked ''a''), E1)
     \<and> resume ''a'' E1 = (Inl (EE_invalid_transition N_blocked N_blocked ''a''), E2)
     \<and> resume ''a'' E2 = (Inl (EE_not_blocked ''a''), E2)"
proof -
  have r: "engine_run sample_plan sample_ledger (sample_calls @ [EC_block ''a'' BR_runner]) blocked_engine"
    using sample_run by (simp add: engine_run_def blocked_engine_def obeys_append)
  have m: "jget (en_meta blocked_engine) ''a'' = Some \<lparr>nm_dependencies = [], nm_blockedFrom = Some N_running,
      nm_activeReservation = Some ''res_1''\<rparr>" and st: "node_state_of blocked_engine ''a'' = N_blocked"
    by code_simp+
  from double_block_loses_resume [OF r m st, of BR_budget] show ?thesis by blast
qed

text \<open>
  A dispatch of a node that cannot run leaks its reservation. When the ledger grants the charge
  but the node is not in a state from which it can start running, \<^verbatim>\<open>startRun\<close> throws the invalid
  transition and leaves the granted reservation active in the ledger, recorded over whatever
  reservation the node held before.
\<close>

theorem startRun_leaks_reservation:
  assumes "engine_run plan L0 cs E" and "jget (en_meta E) k = Some m" and "\<not> en_killSwitch E"
    and "\<not> canTransition (node_state_of E k) N_running" and "reserve k x (en_budget E) = (Inr rid, L)"
  shows "\<exists>E'. startRun k x E = (Inl (EE_invalid_transition (node_state_of E k) N_running k), E')
     \<and> en_budget E' = L \<and> node_state_of E' = node_state_of E
     \<and> jget (en_meta E') k = Some (m\<lparr>nm_activeReservation := Some rid\<rparr>)"
proof -
  have "engine_inv E" using assms(1) by (rule engine_run_inv)
  then have s: "log_sound E" by (simp add: engine_inv_def)
  let ?F = "E\<lparr>en_budget := L\<rparr>"
  let ?m = "m\<lparr>nm_activeReservation := Some rid\<rparr>"
  have mF: "jget (en_meta ?F) k = Some m" using assms(2) by simp
  let ?G = "?F\<lparr>en_meta := jset k ?m (en_meta ?F)\<rparr>"
  have sG: "log_sound ?G" using log_sound_upd [OF _ mF] s by simp
  have mG: "jget (en_meta ?G) k = Some ?m" by simp
  have "\<not> canTransition (node_state_of ?G k) N_running" using assms(4) by simp
  from append_refuses [OF sG mG this]
  have "try_run k x E = (Inl (EE_invalid_transition (node_state_of E k) N_running k), ?G)"
    using assms(5) upd_meta_known [OF mF] by (simp add: try_run_def on_budget_def and_then_def)
  then have "startRun k x E = (Inl (EE_invalid_transition (node_state_of E k) N_running k), ?G)"
    using assms(2,3) by (simp add: startRun_def method_simps requireMeta_def catch_run_def)
  with mG show ?thesis by simp
qed

theorem startRun_leaks_reservation_witness:
  "\<exists>E'. startRun ''a'' 1 sample_engine = (Inl (EE_invalid_transition N_running N_running ''a''), E')
     \<and> activeReservationsUsd ''a'' (en_budget E') = Inr 7"
proof -
  obtain L where r: "reserve ''a'' 1 (en_budget sample_engine) = (Inr ''res_2'', L)"
    and a: "activeReservationsUsd ''a'' L = Inr 7"
  proof -
    have "fst (reserve ''a'' 1 (en_budget sample_engine)) = Inr ''res_2''"
      "activeReservationsUsd ''a'' (snd (reserve ''a'' 1 (en_budget sample_engine))) = Inr 7"
      by code_simp+
    then show thesis using that [of "snd (reserve ''a'' 1 (en_budget sample_engine))"]
      by (metis prod.collapse)
  qed
  have st: "node_state_of sample_engine ''a'' = N_running" and k: "\<not> en_killSwitch sample_engine"
    by code_simp+
  have no: "\<not> canTransition (node_state_of sample_engine ''a'') N_running"
    by (simp add: st canTransition_def)
  from startRun_leaks_reservation [OF sample_run sample_meta(1) k no r] a st show ?thesis by auto
qed

end
