(* ===== verification/Workflow_Cascade.thy ===== *)
theory Workflow_Cascade
  imports Workflow_Props
begin

section \<open>The engine never forgets to unlock a node\<close>

text \<open>
  Every method after which a dependency may have become integrated, or a node may have been added or
  execution started, ends with \<^verbatim>\<open>cascadeReady\<close>. Here this is an invariant of the calls of the engine: no pending
  node has all its dependencies integrated. With the acyclic plan of theory \<^verbatim>\<open>Plan\<close> it gives that pending
  nodes never wait for each other only. The one method outside the invariant is \<^verbatim>\<open>replaceDependency\<close>, which changes
  the dependencies without a cascade.
\<close>

definition cascaded :: "engine \<Rightarrow> bool" where
  "cascaded E \<longleftrightarrow> (en_started E \<longrightarrow>
     (\<forall>k m. jget (en_meta E) k = Some m \<longrightarrow> node_state_of E k = N_pending \<longrightarrow> \<not> deps_integrated E m))"

text \<open>A resumed node cannot become integrated.\<close>

definition resume_safe :: "engine \<Rightarrow> bool" where
  "resume_safe E \<longleftrightarrow> (\<forall>k m. jget (en_meta E) k = Some m \<longrightarrow> nm_blockedFrom m = Some N_integrated \<longrightarrow>
     node_state_of E k = N_integrated)"

text \<open>The dependencies that the nodes had at the beginning.\<close>

definition wired :: "(ident \<Rightarrow> ident list option) \<Rightarrow> engine \<Rightarrow> bool" where
  "wired W E \<longleftrightarrow> (\<forall>k ds. W k = Some ds \<longrightarrow> (\<exists>m. jget (en_meta E) k = Some m \<and> nm_dependencies m = ds))"

definition cascade_inv :: "(ident \<Rightarrow> ident list option) \<Rightarrow> engine \<Rightarrow> bool" where
  "cascade_inv W E \<longleftrightarrow> engine_inv E \<and> cascaded E \<and> resume_safe E \<and> wired W E"

lemma cascade_push:
  assumes "cascade_inv W E" "jget (en_meta E) k = Some m" "canTransition (node_state_of E k) dest"
    and "engine_inv (push_event k dest r E)" "dest \<noteq> N_integrated"
  shows "cascade_inv W (push_event k dest r E)"
proof -
  have s: "log_sound E" using assms(1) by (simp add: cascade_inv_def engine_inv_def)
  note st = push_event_sound(2) [OF s assms(2,3), of r]
  have "dest \<noteq> N_pending" using assms(3) never_back_to_pending by auto
  moreover have "node_state_of E k \<noteq> N_integrated" using integrated_stays [OF assms(3)] by simp
  ultimately show ?thesis
    using assms(1,4,5)
    by (auto simp: cascade_inv_def cascaded_def resume_safe_def wired_def st deps_integrated_def)
       metis+
qed

lemma cascade_append [norns_inv]:
  assumes "dest \<noteq> N_ready" "dest \<noteq> N_integrated"
  shows "keeps (cascade_inv W) (append_event k dest r)"
proof (rule keepsI)
  fix E assume inv: "cascade_inv W E"
  then have s: "log_sound E" and e: "engine_inv E" by (simp_all add: cascade_inv_def engine_inv_def)
  have "engine_inv (snd (append_event k dest r E))" using append_event_keeps [OF assms(1)] e by (rule keeps_snd)
  note e' = this
  show "cascade_inv W (snd (append_event k dest r E))"
    using s
    by (cases rule: append_event_cases [of E k dest r]) (use inv assms(2) e' in \<open>auto intro: cascade_push\<close>)
qed

lemma cascade_upd_meta:
  assumes inv: "cascade_inv W E" and e: "engine_inv (upd_meta k f E)"
    and deps: "\<And>m. nm_dependencies (f m) = nm_dependencies m"
    and mem: "\<And>m. jget (en_meta E) k = Some m \<Longrightarrow> nm_blockedFrom (f m) = Some N_integrated \<Longrightarrow>
        node_state_of E k = N_integrated"
  shows "cascade_inv W (upd_meta k f E)"
proof (cases "jget (en_meta E) k")
  case (Some m)
  have "deps_integrated E (f m) = deps_integrated E m" by (simp add: deps_integrated_def deps)
  then have "cascaded (upd_meta k f E)" "resume_safe (upd_meta k f E)"
    using inv mem [OF Some] Some by (auto simp: cascade_inv_def cascaded_def resume_safe_def upd_meta_def)
  moreover have "wired W (upd_meta k f E)"
    unfolding wired_def
  proof (intro allI impI)
    fix j ds assume "W j = Some ds"
    with inv obtain n where "jget (en_meta E) j = Some n" "nm_dependencies n = ds"
      by (auto simp: cascade_inv_def wired_def)
    with Some deps [of m] show "\<exists>n. jget (en_meta (upd_meta k f E)) j = Some n \<and> nm_dependencies n = ds"
      by (cases "j = k") (auto simp: upd_meta_def)
  qed
  ultimately show ?thesis using e by (simp add: cascade_inv_def)
qed (use inv in \<open>simp add: upd_meta_def\<close>)

lemma cascade_other_fields:
  "cascade_inv W E \<Longrightarrow> ledger_inv L \<Longrightarrow> cascade_inv W (E\<lparr>en_budget := L\<rparr>)"
  "cascade_inv W E \<Longrightarrow> cascade_inv W (E\<lparr>en_killSwitch := b\<rparr>)"
  "cascade_inv W E \<Longrightarrow> cascade_inv W (E\<lparr>en_approvals := jset a x (en_approvals E)\<rparr>)"
  by (auto simp: cascade_inv_def cascaded_def resume_safe_def wired_def intro: inv_budget inv_killSwitch inv_approvals)

lemma cascade_on_budget:
  assumes "\<And>L. ledger_inv L \<Longrightarrow> ledger_inv (snd (f L))"
  shows "keeps (cascade_inv W) (on_budget f)"
proof (rule keepsI)
  fix E assume inv: "cascade_inv W E"
  obtain r L where f: "f (en_budget E) = (r, L)" by (cases "f (en_budget E)")
  with assms [of "en_budget E"] inv have "ledger_inv L" by (simp add: cascade_inv_def engine_inv_def)
  with inv f show "cascade_inv W (snd (on_budget f E))"
    by (simp add: on_budget_def cascade_other_fields split: sum.splits)
qed

subsection \<open>The methods\<close>

lemma cascade_requires [norns_inv]:
  "keeps (cascade_inv W) (modifying (upd_meta k (\<lambda>m. m\<lparr>nm_activeReservation := r\<rparr>)))"
  "keeps (cascade_inv W) (modifying (\<lambda>E. if P E then engageKillSwitch E else E))"
proof -
  have "engine_inv (upd_meta k (\<lambda>m. m\<lparr>nm_activeReservation := r\<rparr>) E)" if "engine_inv E" for E
    using keeps_snd [OF keeps_set_reservation that] by simp
  then show "keeps (cascade_inv W) (modifying (upd_meta k (\<lambda>m. m\<lparr>nm_activeReservation := r\<rparr>)))"
    by (intro keeps_modifying cascade_upd_meta) (auto simp: cascade_inv_def resume_safe_def)
  show "keeps (cascade_inv W) (modifying (\<lambda>E. if P E then engageKillSwitch E else E))"
    by (rule keeps_modifying) (simp add: engageKillSwitch_def cascade_other_fields)
qed

lemma cascade_block [norns_inv]: "keeps (cascade_inv W) (block k reason)"
proof (rule keepsI)
  fix E assume inv: "cascade_inv W E"
  let ?E = "upd_meta k (\<lambda>m. m\<lparr>nm_blockedFrom := Some (node_state_of E k)\<rparr>) E"
  have e: "engine_inv E" and s: "log_sound E" using inv by (simp_all add: cascade_inv_def engine_inv_def)
  have "engine_inv ?E" by (rule upd_meta_inv [OF e]) simp_all
  then have "cascade_inv W ?E" by (rule cascade_upd_meta [OF inv]) simp_all
  then have "cascade_inv W (snd (append_event k N_blocked (Some (blocked_reason_str reason)) ?E))"
    by (rule keeps_snd [OF cascade_append, rotated 2]) simp_all
  with inv stateOf_eq [OF s, of k] show "cascade_inv W (snd (block k reason E))"
    by (simp add: block_def requireMeta_def and_then_def split: option.splits)
qed

lemma cascade_resume [norns_inv]: "keeps (cascade_inv W) (resume k)"
proof (rule keepsI)
  fix E assume inv: "cascade_inv W E"
  then have e: "engine_inv E" by (simp add: cascade_inv_def)
  show "cascade_inv W (snd (resume k E))"
  proof (cases "\<exists>m t. jget (en_meta E) k = Some m \<and> nm_blockedFrom m = Some t")
    case False
    with inv show ?thesis
      by (auto simp: resume_def requireMeta_def and_then_def split: option.splits)
  next
    case True
    then obtain m t where m: "jget (en_meta E) k = Some m" "nm_blockedFrom m = Some t" by blast
    let ?E = "upd_meta k (\<lambda>m. m\<lparr>nm_blockedFrom := None\<rparr>) E"
    have e': "engine_inv ?E" by (rule upd_meta_inv [OF e]) simp_all
    then have s: "log_sound ?E" by (simp add: engine_inv_def)
    have inv': "cascade_inv W ?E" by (rule cascade_upd_meta [OF inv e']) simp_all
    have st: "node_state_of ?E = node_state_of E" using m by (simp add: upd_meta_def)
    have run: "snd (resume k E) = snd (append_event k t None ?E)"
      using m by (simp add: resume_def requireMeta_def and_then_def)
    have "engine_inv (snd (append_event k t None ?E))" using keeps_snd [OF keeps_resume e, of k] run by simp
    note e'' = this
    have t: "t \<noteq> N_integrated" if "canTransition (node_state_of ?E k) t"
      using inv m that integrated_stays [OF that] unfolding st cascade_inv_def resume_safe_def by blast
    show ?thesis
      unfolding run using s
      by (cases rule: append_event_cases [of ?E k t None]) (use inv' e'' t in \<open>auto intro: cascade_push\<close>)
  qed
qed

lemma cascade_startRun: "0 \<le> x \<Longrightarrow> keeps (cascade_inv W) (startRun k x)"
proof -
  assume x: "0 \<le> x"
  have "keeps (cascade_inv W) (on_budget (reserve k x))"
    by (rule cascade_on_budget) (rule reserve_keeps [OF _ x surjective_pairing])
  then have t: "keeps (cascade_inv W) (try_run k x)"
    unfolding try_run_def by (intro norns_inv) simp_all
  have c: "keeps (cascade_inv W) (catch_run k err)" for err
    unfolding catch_run_def
    by (auto intro!: norns_inv split: engine_error.splits budget_error.splits)
  have "keeps (cascade_inv W) (\<lambda>E. case try_run k x E of
      (Inr rid, E') \<Rightarrow> (Inr rid, E') | (Inl err, E') \<Rightarrow> catch_run k err E')"
    using keepsD [OF t] c
    by (intro keepsI) (fastforce simp: keeps_def split: prod.splits sum.splits)
  then show ?thesis unfolding startRun_def by (intro norns_inv)
qed

lemma cascade_completeRun: "0 \<le> x \<Longrightarrow> keeps (cascade_inv W) (completeRun k x)"
  unfolding completeRun_def
  by (auto intro!: norns_inv cascade_on_budget settle_keeps split: option.splits)

lemma cascade_simple [norns_inv]:
  "keeps (cascade_inv W) (assign k)" "keeps (cascade_inv W) (recordVerification k b)"
  "keeps (cascade_inv W) (reviewerDecision k d)" "keeps (cascade_inv W) (cancel k)"
  "keeps (cascade_inv W) (supersede k)"
  unfolding simple_drives by (auto intro!: norns_inv)

text \<open>The methods that end with the cascade.\<close>

lemma cascade_restores:
  assumes e: "engine_inv E" and mem: "resume_safe E" and w: "wired W E"
  shows "cascade_inv W (snd (cascadeReady E))"
proof (cases "en_started E")
  case False
  with assms show ?thesis by (simp add: cascadeReady_def cascade_inv_def cascaded_def)
next
  case True
  obtain E' where E': "cascadeReady E = (Inr (), E')" using cascade_completes [OF e True] .
  note fin = cascade_end [OF e True E']
  have "engine_inv E'" using keeps_snd [OF cascadeReady_keeps e] E' by simp
  moreover have "cascaded E'"
    unfolding cascaded_def
  proof (intro impI allI)
    fix k m assume "jget (en_meta E') k = Some m" "node_state_of E' k = N_pending"
    with fin(3) [of k] jget_mem [of "en_meta E'" k m] show "\<not> deps_integrated E' m"
      unfolding unlocked_def by blast
  qed
  moreover have "resume_safe E'"
    unfolding resume_safe_def fin(1)
  proof (intro allI impI)
    fix k m assume "jget (en_meta E) k = Some m" "nm_blockedFrom m = Some N_integrated"
    with mem have "node_state_of E k = N_integrated" by (simp add: resume_safe_def)
    then show "node_state_of E' k = N_integrated" unfolding fin(2) by (simp add: unlocked_def)
  qed
  moreover have "wired W E'" using w by (simp add: wired_def fin(1))
  ultimately show ?thesis using E' by (simp add: cascade_inv_def)
qed

lemma cascade_integrate: "keeps (cascade_inv W) (integrate k)"
proof (rule keepsI)
  fix E assume inv: "cascade_inv W E"
  then have s: "log_sound E" and e: "engine_inv E" by (simp_all add: cascade_inv_def engine_inv_def)
  have e': "engine_inv (snd (append_event k N_integrated None E))"
    by (rule keeps_snd [OF append_event_keeps e]) simp
  show "cascade_inv W (snd (integrate k E))"
    using s
  proof (cases rule: append_event_cases [of E k N_integrated None])
    case (pushed m)
    let ?E = "push_event k N_integrated None E"
    have "resume_safe ?E" "wired W ?E"
      using inv push_event_sound(2) [OF s pushed(1,2)] by (auto simp: cascade_inv_def resume_safe_def wired_def)
    with e' pushed show ?thesis by (simp add: integrate_def cascade_restores)
  qed (use inv in \<open>simp_all add: integrate_def\<close>)
qed

lemma cascade_registerNode: "\<not> inherited_key k \<Longrightarrow> keeps (cascade_inv W) (registerNode k ds)"
proof (rule keepsI)
  fix E assume k: "\<not> inherited_key k" and inv: "cascade_inv W E"
  then have e: "engine_inv E" by (simp add: cascade_inv_def)
  show "cascade_inv W (snd (registerNode k ds E))"
  proof (cases "jget (en_meta E) k")
    case None
    let ?E = "E\<lparr>en_meta := jset k (fresh_meta ds) (en_meta E)\<rparr>"
    have "node_state_of E k = N_pending" using e None by (simp add: engine_inv_def log_sound_def)
    then have "engine_inv ?E" by (intro inv_set_meta e) (use k in \<open>simp_all add: fresh_meta_def\<close>)
    moreover have "resume_safe ?E" using inv by (auto simp: cascade_inv_def resume_safe_def fresh_meta_def)
    moreover have "wired W ?E" using inv None by (force simp: cascade_inv_def wired_def)
    ultimately show ?thesis using None by (simp add: registerNode_def method_simps cascade_restores)
  qed (use inv in \<open>simp add: registerNode_def method_simps\<close>)
qed

lemma cascade_start: "keeps (cascade_inv W) (start h1 h2)"
proof (rule keepsI)
  fix E assume inv: "cascade_inv W E"
  then have "resume_safe (E\<lparr>en_started := True\<rparr>)" "wired W (E\<lparr>en_started := True\<rparr>)" and e: "engine_inv E"
    by (simp_all add: cascade_inv_def resume_safe_def wired_def)
  with inv inv_started [OF e] show "cascade_inv W (snd (start h1 h2 E))"
    by (auto simp: start_def intro: cascade_restores split: option.splits)
qed

subsection \<open>The invariant of the calls\<close>

fun rewires :: "engine_call \<Rightarrow> bool" where
  "rewires (EC_replaceDependency k a b) \<longleftrightarrow> True"
| "rewires _ \<longleftrightarrow> False"

interpretation cascading: object_invariant do_engine_call "\<lambda>c E. engine_call_ok c E \<and> \<not> rewires c" "cascade_inv W" for W
proof
  fix c E assume ok: "engine_call_ok c E \<and> \<not> rewires c" and inv: "cascade_inv W E"
  then have L: "ledger_inv (en_budget E)" by (simp add: cascade_inv_def engine_inv_def)
  from ok inv show "cascade_inv W (do_engine_call c E)"
  proof (cases c)
    case (EC_ledger lc)
    with ok inv ledger.call_keeps [OF _ L] show ?thesis by (simp add: cascade_other_fields)
  qed (auto simp: recordApproval_def engageKillSwitch_def disengageKillSwitch_def cascade_other_fields
      intro: keeps_snd [OF cascade_registerNode] keeps_snd [OF cascade_start] keeps_snd [OF cascade_simple(1)]
        keeps_snd [OF cascade_startRun] keeps_snd [OF cascade_completeRun] keeps_snd [OF cascade_simple(2)]
        keeps_snd [OF cascade_simple(3)] keeps_snd [OF cascade_integrate] keeps_snd [OF cascade_block]
        keeps_snd [OF cascade_resume] keeps_snd [OF cascade_simple(4)] keeps_snd [OF cascade_simple(5)])
qed

lemma obeys_unwired:
  "obeys do_engine_call engine_call_ok cs E \<Longrightarrow> list_all (\<lambda>c. \<not> rewires c) cs \<Longrightarrow>
     obeys do_engine_call (\<lambda>c E. engine_call_ok c E \<and> \<not> rewires c) cs E"
  by (induction cs arbitrary: E) simp_all

definition plan_wiring :: "plan_contract \<Rightarrow> ident \<Rightarrow> ident list option" where
  "plan_wiring plan k = map_option pm_dependencies (List.find (\<lambda>m. pm_id m = k) (pc_modules plan))"

lemma find_module: "distinct (map pm_id ms) \<Longrightarrow> m \<in> set ms \<Longrightarrow> List.find (\<lambda>n. pm_id n = pm_id m) ms = Some m"
  by (induction ms) auto

lemma new_engine_wired:
  assumes "distinct (map pm_id (pc_modules plan))" and "m \<in> set (pc_modules plan)"
  shows "jget (en_meta (new_engine plan L)) (pm_id m) = Some (fresh_meta (pm_dependencies m))"
proof -
  have keep: "k \<notin> pm_id ` set ms \<Longrightarrow>
      jget (fold (\<lambda>m. jset (pm_id m) (fresh_meta (pm_dependencies m))) ms acc) k = jget acc k" for ms k acc
    by (induction ms arbitrary: acc) auto
  have "distinct (map pm_id ms) \<Longrightarrow> m \<in> set ms \<Longrightarrow>
      jget (fold (\<lambda>m. jset (pm_id m) (fresh_meta (pm_dependencies m))) ms acc) (pm_id m) =
        Some (fresh_meta (pm_dependencies m))" for ms acc
    by (induction ms arbitrary: acc) (auto simp: keep)
  with assms show ?thesis by (simp add: new_engine_def)
qed

lemma engine_run_cascades:
  assumes "distinct (map pm_id (pc_modules plan))" "engine_run plan L cs E" "list_all (\<lambda>c. \<not> rewires c) cs"
  shows "cascade_inv (plan_wiring plan) E"
proof -
  let ?E = "new_engine plan L"
  have "resume_safe ?E" using new_engine_meta_get [of plan L] by (auto simp: resume_safe_def)
  moreover have "cascaded ?E" by (simp add: cascaded_def new_engine_def)
  moreover have "wired (plan_wiring plan) ?E"
    unfolding wired_def plan_wiring_def
    by (auto simp: find_Some_iff new_engine_wired [OF assms(1)] fresh_meta_def)
  moreover have "engine_inv ?E" using assms(2) by (auto simp: engine_run_def intro: new_engine_inv)
  ultimately have "cascade_inv (plan_wiring plan) ?E" by (simp add: cascade_inv_def)
  with assms(2,3) show ?thesis
    by (auto simp: engine_run_def intro: cascading.calls_keep obeys_unwired)
qed



end
