(* ===== verification/Workflow_Frame.thy ===== *)
theory Workflow_Frame
  imports Workflow_Props
begin

section \<open>Calls for other nodes do not touch a node\<close>

text \<open>
  Several nodes are worked on at the same time, each by an asynchronous pipeline that calls the engine
  between its awaits. This theory shows that the engine isolates them: a call that does not name a
  node leaves the state of that node (once it is no longer pending), its metadata and its budget as
  they are, whatever it does and whether it returns or throws.
\<close>

fun ledger_names :: "ledger_call \<Rightarrow> ident \<Rightarrow> bool" where
  "ledger_names (LC_approve j x) k \<longleftrightarrow> j = k"
| "ledger_names (LC_reserve j x) k \<longleftrightarrow> j = k"
| "ledger_names (LC_settle j r x) k \<longleftrightarrow> j = k"
| "ledger_names (LC_release j r) k \<longleftrightarrow> j = k"
| "ledger_names _ k \<longleftrightarrow> False"

fun call_names :: "engine_call \<Rightarrow> ident \<Rightarrow> bool" where
  "call_names (EC_registerNode j ds) k \<longleftrightarrow> j = k"
| "call_names (EC_replaceDependency j a b) k \<longleftrightarrow> j = k"
| "call_names (EC_assign j) k \<longleftrightarrow> j = k"
| "call_names (EC_startRun j x) k \<longleftrightarrow> j = k"
| "call_names (EC_completeRun j x) k \<longleftrightarrow> j = k"
| "call_names (EC_recordVerification j b) k \<longleftrightarrow> j = k"
| "call_names (EC_reviewerDecision j d) k \<longleftrightarrow> j = k"
| "call_names (EC_integrate j) k \<longleftrightarrow> j = k"
| "call_names (EC_block j r) k \<longleftrightarrow> j = k"
| "call_names (EC_resume j) k \<longleftrightarrow> j = k"
| "call_names (EC_cancel j) k \<longleftrightarrow> j = k"
| "call_names (EC_supersede j) k \<longleftrightarrow> j = k"
| "call_names (EC_ledger c) k \<longleftrightarrow> ledger_names c k"
| "call_names _ k \<longleftrightarrow> False"

text \<open>
  A call of others. A registered identifier must not be a property of \<^verbatim>\<open>Object.prototype\<close>: the log
  would become unreadable (theory \<^verbatim>\<open>Lifecycle\<close>).
\<close>

definition foreign :: "ident \<Rightarrow> engine_call \<Rightarrow> bool" where
  "foreign k c \<longleftrightarrow>
     \<not> call_names c k \<and> (case c of EC_registerNode j ds \<Rightarrow> \<not> inherited_key j | _ \<Rightarrow> True)"

definition node_is :: "ident \<Rightarrow> node_state \<Rightarrow> node_meta \<Rightarrow> node_budget option \<Rightarrow> engine \<Rightarrow> bool" where
  "node_is k s m nb E \<longleftrightarrow>
     log_sound E \<and> node_state_of E k = s \<and> jget (en_meta E) k = Some m \<and> jget (bl_nodes (en_budget E)) k = nb"

lemma frame_append [norns_inv]: "j \<noteq> k \<Longrightarrow> keeps (node_is k s m nb) (append_event j dest r)"
proof (rule keepsI)
  fix E
  assume "j \<noteq> k" and i: "node_is k s m nb E"
  then have "log_sound E" by (simp add: node_is_def)
  then show "node_is k s m nb (snd (append_event j dest r E))"
    by (cases rule: append_event_cases [of E j dest r])
       (use \<open>j \<noteq> k\<close> i in \<open>simp_all add: node_is_def push_event_sound\<close>)
qed

lemma frame_upd_meta [norns_inv]: "j \<noteq> k \<Longrightarrow> keeps (node_is k s m nb) (modifying (upd_meta j f))"
  by (rule keeps_modifying) (simp add: node_is_def upd_meta_def log_sound_upd split: option.splits)

lemma frame_budget:
  "(\<And>L. jget (bl_nodes (snd (act L))) k = jget (bl_nodes L) k) \<Longrightarrow> keeps (node_is k s m nb) (on_budget act)"
  by (rule keepsI) (auto simp: node_is_def on_budget_def split: prod.splits sum.splits, (metis snd_conv)+)

lemma ledger_frame:
  "j \<noteq> k \<Longrightarrow> jget (bl_nodes (snd (reserve j x L))) k = jget (bl_nodes L) k"
  "j \<noteq> k \<Longrightarrow> jget (bl_nodes (snd (settle j r x L))) k = jget (bl_nodes L) k"
  "\<not> ledger_names c k \<Longrightarrow> jget (bl_nodes (do_ledger_call c L)) k = jget (bl_nodes L) k"
  subgoal by (simp add: reserve_def Let_def split: sum.splits option.splits if_splits)
  subgoal by (simp add: settle_def Let_def split: sum.splits option.splits if_splits)
  subgoal
    by (cases c; simp add: approve_def reserve_def settle_def release_def notifyThreshold_def Let_def
        split: sum.splits option.splits if_splits)
  done

lemmas frame_ledger = frame_budget [OF ledger_frame(1)] frame_budget [OF ledger_frame(2)]

lemma frame_cascade_node: "s \<noteq> N_pending \<Longrightarrow> keeps (node_is k s m nb) (cascade_node p)"
proof (cases "fst p = k")
  case False
  have "keeps (node_is k s m nb) (all_integrated ds)" for ds
    by (induction ds) (simp_all only: all_integrated.simps keeps_returning keeps_and_then keeps_if stateOf_keeps)
  with False show ?thesis unfolding cascade_node_def by (auto intro!: norns_inv stateOf_keeps)
next
  case True
  assume "s \<noteq> N_pending"
  with True show ?thesis
    by (intro keepsI) (simp add: cascade_node_def and_then_def stateOf_eq node_is_def)
qed

lemma frame_cascadeReady [norns_inv]: "s \<noteq> N_pending \<Longrightarrow> keeps (node_is k s m nb) cascadeReady"
  by (rule keepsI)
     (simp add: cascadeReady_def keepsD [OF keeps_for_each [OF frame_cascade_node], OF _ _ surjective_pairing])

lemma frame_block [norns_inv]: "j \<noteq> k \<Longrightarrow> keeps (node_is k s m nb) (block j r)"
  unfolding block_def by (intro norns_inv requireMeta_keeps stateOf_keeps)

lemma frame_killSwitch [norns_inv]:
  "keeps (node_is k s m nb) (modifying (\<lambda>E. if b E then engageKillSwitch E else E))"
  by (rule keeps_modifying) (simp add: node_is_def engageKillSwitch_def)

lemma frame_startRun: "j \<noteq> k \<Longrightarrow> keeps (node_is k s m nb) (startRun j x)"
proof -
  assume j: "j \<noteq> k"
  have t: "keeps (node_is k s m nb) (try_run j x)"
    unfolding try_run_def using j by (intro norns_inv frame_ledger) auto
  have c: "keeps (node_is k s m nb) (catch_run j err)" for err
    unfolding catch_run_def using j
    by (auto intro!: norns_inv split: engine_error.splits budget_error.splits)
  have "keeps (node_is k s m nb) (\<lambda>E. case try_run j x E of (Inr rid, E') \<Rightarrow> (Inr rid, E') | (Inl err, E') \<Rightarrow> catch_run j err E')"
    using t c by (fastforce simp: keeps_def split: prod.splits sum.splits)
  then show ?thesis unfolding startRun_def by (intro norns_inv requireMeta_keeps)
qed

lemma frame_completeRun: "j \<noteq> k \<Longrightarrow> keeps (node_is k s m nb) (completeRun j x)"
  unfolding completeRun_def
  by (auto intro!: norns_inv requireMeta_keeps frame_ledger split: option.split)

lemma frame_resume: "j \<noteq> k \<Longrightarrow> keeps (node_is k s m nb) (resume j)"
  unfolding resume_def by (auto intro!: norns_inv requireMeta_keeps split: option.split)

lemma frame_simple:
  "j \<noteq> k \<Longrightarrow> keeps (node_is k s m nb) (assign j)"
  "j \<noteq> k \<Longrightarrow> keeps (node_is k s m nb) (recordVerification j b)"
  "j \<noteq> k \<Longrightarrow> keeps (node_is k s m nb) (reviewerDecision j d)"
  "j \<noteq> k \<Longrightarrow> keeps (node_is k s m nb) (cancel j)"
  "j \<noteq> k \<Longrightarrow> keeps (node_is k s m nb) (supersede j)"
  "j \<noteq> k \<Longrightarrow> keeps (node_is k s m nb) (replaceDependency j a c)"
  unfolding simple_drives replaceDependency_def by (auto intro!: norns_inv requireMeta_keeps)

lemma frame_cascading:
  "s \<noteq> N_pending \<Longrightarrow> j \<noteq> k \<Longrightarrow> keeps (node_is k s m nb) (integrate j)"
  "s \<noteq> N_pending \<Longrightarrow> keeps (node_is k s m nb) (start h1 h2)"
  subgoal unfolding integrate_def by (auto intro!: norns_inv)
  subgoal
    by (rule keepsI)
       (auto simp: start_def node_is_def split: option.splits
         intro!: keeps_snd [OF frame_cascadeReady, unfolded node_is_def])
  done

lemma frame_registerNode:
  "s \<noteq> N_pending \<Longrightarrow> j \<noteq> k \<Longrightarrow> \<not> inherited_key j \<Longrightarrow> keeps (node_is k s m nb) (registerNode j ds)"
  by (rule keepsI)
     (auto simp: registerNode_def method_simps node_is_def log_sound_set_meta
       intro!: keeps_snd [OF frame_cascadeReady, unfolded node_is_def])

text \<open>The calls of others, in any number and order.\<close>

lemma node_is_switches:
  "node_is k s m nb (recordApproval a E) = node_is k s m nb E"
  "node_is k s m nb (engageKillSwitch E) = node_is k s m nb E"
  "node_is k s m nb (disengageKillSwitch E) = node_is k s m nb E"
  by (simp_all add: node_is_def recordApproval_def engageKillSwitch_def disengageKillSwitch_def)

lemmas frame_methods = keeps_snd [OF frame_registerNode] keeps_snd [OF frame_simple(1)]
  keeps_snd [OF frame_simple(2)] keeps_snd [OF frame_simple(3)] keeps_snd [OF frame_simple(4)]
  keeps_snd [OF frame_simple(5)] keeps_snd [OF frame_simple(6)] keeps_snd [OF frame_cascading(1)]
  keeps_snd [OF frame_cascading(2)] keeps_snd [OF frame_startRun] keeps_snd [OF frame_completeRun]
  keeps_snd [OF frame_resume] keeps_snd [OF frame_block]

lemma frame_call:
  assumes "node_is k s m nb E" "s \<noteq> N_pending" "foreign k c"
  shows "node_is k s m nb (do_engine_call c E)"
proof (cases c)
  case (EC_ledger lc)
  with assms show ?thesis by (simp add: node_is_def ledger_frame foreign_def)
qed (use assms in \<open>simp_all add: node_is_switches frame_methods foreign_def\<close>)

lemma frame_calls:
  assumes "node_is k s m nb E" "s \<noteq> N_pending" "list_all (foreign k) cs"
  shows "node_is k s m nb (fold do_engine_call cs E)"
  using assms by (induction cs arbitrary: E) (auto intro: frame_call)

text \<open>C10: Nodes do not interfere. Whatever sequence of calls is made for other nodes, returning or
  throwing, a node that has left \<^verbatim>\<open>pending\<close> keeps its state, its dependencies, remembered state and
  reservation, and its budget.\<close>

theorem other_nodes_unaffected:
  assumes "engine_run plan L before E" "node_state_of E k \<noteq> N_pending"
    and "list_all (foreign k) cs"
  shows "node_state_of (fold do_engine_call cs E) k = node_state_of E k
     \<and> jget (en_meta (fold do_engine_call cs E)) k = jget (en_meta E) k
     \<and> jget (bl_nodes (en_budget (fold do_engine_call cs E))) k = jget (bl_nodes (en_budget E)) k"
proof -
  have s: "log_sound E" using engine_run_inv [OF assms(1)] by (simp add: engine_inv_def)
  with assms(2) obtain m where "jget (en_meta E) k = Some m" by (force simp: log_sound_def)
  with s frame_calls [OF _ assms(2,3), of m "jget (bl_nodes (en_budget E)) k"] show ?thesis
    by (simp add: node_is_def)
qed

theorem other_nodes_unaffected_witness:
  "node_state_of (fold do_engine_call [EC_startRun ''b'' 5, EC_cancel ''b''] assigned_engine) ''a'' = N_assigned"
proof -
  have "list_all (foreign ''a'') [EC_startRun ''b'' 5, EC_cancel ''b'']" by (simp add: foreign_def)
  with other_nodes_unaffected [OF assigned_run, of "''a''" "[EC_startRun ''b'' 5, EC_cancel ''b'']"] assigned_meta
  show ?thesis by simp
qed

subsection \<open>What a call does to its own node\<close>

lemma sound_append [norns_inv]: "keeps log_sound (append_event k dest r)"
proof (rule keepsI)
  fix E
  assume s: "log_sound E"
  then show "log_sound (snd (append_event k dest r E))"
    by (cases rule: append_event_cases [of E k dest r]) (simp_all add: s push_event_sound)
qed

lemma sound_upd_meta [norns_inv]: "keeps log_sound (modifying (upd_meta k f))"
  by (rule keeps_modifying) (simp add: upd_meta_def log_sound_upd split: option.splits)

lemma sound_budget [norns_inv]: "keeps log_sound (on_budget act)"
  by (rule keepsI) (simp add: on_budget_def split: prod.splits sum.splits)

lemma sound_block [norns_inv]: "keeps log_sound (block k r)"
  unfolding block_def by (intro norns_inv requireMeta_keeps stateOf_keeps)

lemma sound_catch_run: "keeps log_sound (catch_run k err)"
proof -
  have "keeps log_sound (modifying (\<lambda>E. if b E then engageKillSwitch E else E))" for b
    by (rule keeps_modifying) (simp add: engageKillSwitch_def)
  then show ?thesis
    unfolding catch_run_def by (auto intro!: norns_inv split: engine_error.splits budget_error.splits)
qed

lemma sound_startRun: "keeps log_sound (startRun k x)"
proof -
  have "keeps log_sound (try_run k x)" unfolding try_run_def by (intro norns_inv)
  with sound_catch_run
  have "keeps log_sound (\<lambda>E. case try_run k x E of (Inr rid, E') \<Rightarrow> (Inr rid, E') | (Inl err, E') \<Rightarrow> catch_run k err E')"
    by (fastforce simp: keeps_def split: prod.splits sum.splits)
  then show ?thesis unfolding startRun_def by (intro norns_inv requireMeta_keeps)
qed

lemma startRun_node:
  assumes "node_is k N_assigned m nb E" "startRun k x E = (Inr rid, E')"
  obtains nb' where "node_is k N_running (m\<lparr>nm_activeReservation := Some rid\<rparr>) (Some nb') E'"
    "jget (nb_reservations nb') rid = Some x" "rid \<noteq> []"
proof -
  have s: "log_sound E" and m: "jget (en_meta E) k = Some m" "node_state_of E k = N_assigned"
    using assms(1) by (simp_all add: node_is_def)
  have ls: "log_sound E'"
    using keepsD [OF sound_startRun s assms(2)] .
  obtain res L where r: "reserve k x (en_budget E) = (res, L)" by fastforce
  with startRun_outcome [OF s m, of x] assms(2)
  have out: "res = Inr rid" "en_budget E' = L" "node_state_of E' k = N_running"
    "jget (en_meta E') k = Some (m\<lparr>nm_activeReservation := Some rid\<rparr>)"
    by (auto split: if_splits sum.splits budget_error.splits)
  from r show ?thesis
  proof (cases rule: reserve_cases)
    case (granted n)
    then show ?thesis
      using that [of "n\<lparr>nb_reservations := jset rid x (nb_reservations n)\<rparr>"] out ls
      by (simp add: node_is_def)
  qed (use out in simp)
qed

lemma startRun_refused_node:
  assumes "node_is k N_assigned m nb E" "startRun k x E = (Inl e, E')"
  shows "node_state_of E' k \<in> {N_assigned, N_blocked} \<and> jget (bl_nodes (en_budget E')) k = nb"
proof -
  have s: "log_sound E" and m: "jget (en_meta E) k = Some m" "node_state_of E k = N_assigned"
    and nb: "jget (bl_nodes (en_budget E)) k = nb"
    using assms(1) by (simp_all add: node_is_def)
  obtain res L where r: "reserve k x (en_budget E) = (res, L)" by fastforce
  show ?thesis
  proof (cases "en_killSwitch E")
    case False
    with startRun_outcome [OF s m, of x] assms(2) r obtain b where "res = Inl b" by (cases res) auto
    with False startRun_outcome [OF s m, of x] assms(2) r m nb show ?thesis by (cases b) auto
  qed (use startRun_outcome [OF s m, of x] assms(2) m nb in auto)
qed

lemma completeRun_node:
  assumes "node_is k N_running m (Some nb) E" "nm_activeReservation m = Some rid" "rid \<noteq> []"
    "jget (nb_reservations nb) rid = Some held"
  obtains E' where "completeRun k actual E = (Inr (), E')"
    "node_is k N_verifying (m\<lparr>nm_activeReservation := None\<rparr>)
       (Some (nb\<lparr>nb_reservations := jdel rid (nb_reservations nb), nb_settledUsd := nb_settledUsd nb + min actual held\<rparr>)) E'"
proof -
  let ?nb = "nb\<lparr>nb_reservations := jdel rid (nb_reservations nb), nb_settledUsd := nb_settledUsd nb + min actual held\<rparr>"
  let ?m = "m\<lparr>nm_activeReservation := None\<rparr>"
  have s: "log_sound E" and m: "jget (en_meta E) k = Some m" and st: "node_state_of E k = N_running"
    and b: "jget (bl_nodes (en_budget E)) k = Some nb"
    using assms(1) by (simp_all add: node_is_def)
  define E1 where "E1 = E\<lparr>en_budget := (en_budget E)\<lparr>bl_nodes := jset k ?nb (bl_nodes (en_budget E))\<rparr>\<rparr>"
  have "on_budget (settle k rid actual) E = (Inr (), E1)"
    using b assms(4) by (simp add: on_budget_def settle_def require_node_def E1_def)
  moreover have s1: "log_sound E1" and m1: "jget (en_meta E1) k = Some m" and st1: "node_state_of E1 k = N_running"
    using s m st by (simp_all add: E1_def)
  let ?E2 = "E1\<lparr>en_meta := jset k ?m (en_meta E1)\<rparr>"
  have s2: "log_sound ?E2" using log_sound_upd [OF s1 m1] .
  have can: "canTransition (node_state_of ?E2 k) N_verifying" using st1 by (simp add: canTransition_def)
  have m2: "jget (en_meta ?E2) k = Some ?m" by simp
  ultimately have "completeRun k actual E = (Inr (), push_event k N_verifying None ?E2)"
    using m assms(2,3) append_pushes [OF s2 m2 can]
    by (simp add: completeRun_def requireMeta_def and_then_def upd_meta_known [OF m1])
  moreover have "node_is k N_verifying ?m (Some ?nb) (push_event k N_verifying None ?E2)"
    using push_event_sound [OF s2 m2 can] by (simp add: node_is_def E1_def)
  ultimately show ?thesis using that by blast
qed

lemma recordVerification_node:
  assumes "node_is k N_verifying m nb E"
  obtains E' where "recordVerification k passed E = (Inr (), E')"
    "node_is k (if passed then N_in_review else N_failed) m nb E'"
proof -
  let ?d = "if passed then N_in_review else N_failed"
  have s: "log_sound E" and m: "jget (en_meta E) k = Some m" and "node_state_of E k = N_verifying"
    using assms by (simp_all add: node_is_def)
  then have can: "canTransition (node_state_of E k) ?d" by (simp add: canTransition_def)
  show ?thesis
    using that [of "push_event k ?d None E"] append_pushes [OF s m can] push_event_sound [OF s m can] assms
    by (simp add: recordVerification_def node_is_def)
qed

end
