(* ===== verification/Node_Execution.thy ===== *)
theory Node_Execution
  imports Workflow_Frame Graph_Props Runner_Executors
begin

section \<open>Executing a node\<close>

text \<open>
  \<^verbatim>\<open>apps/server/src/engine/git.ts\<close> (class \<^verbatim>\<open>LocalGitRepo\<close>) and
  \<^verbatim>\<open>apps/server/src/engine/execution.ts\<close>: the pipeline that drives an assigned node through its
  worktree, the run of the coding runtime and the verification at the exact commit.

  Processes, the coding runtime, the file system, the clock and the random identifiers belong to the
  host, a record of functions over a host state of any type: \<open>h_exec\<close> is \<^verbatim>\<open>execFile\<close>, which
  rejects with a message or resolves with the two output streams, \<open>h_run\<close> is \<^verbatim>\<open>run\<close> of the runtime.
  While an operation of the host is awaited the other pipelines of the server go on: \<open>h_others\<close>
  gives, for the host state that the operation left, the calls that they made on the shared engine in
  the meantime.
\<close>

subsection \<open>The host\<close>

record exec_call =
  ex_program :: string
  ex_args :: "string list"
  ex_cwd :: string
  ex_author :: "string option"
  ex_timeout :: "millis option"


record run_request =
  rq_runId :: ident
  rq_worktreePath :: string
  rq_prompt :: string

record run_result =
  rr_outcome :: runtime_outcome
  rr_detail :: string

record 'g host =
  h_exec :: "exec_call \<Rightarrow> 'g \<Rightarrow> (string + string \<times> string) \<times> 'g"
  h_run :: "run_request \<Rightarrow> 'g \<Rightarrow> (string + run_result) \<times> 'g"
  h_realpath :: "string \<Rightarrow> 'g \<Rightarrow> (string + string) \<times> 'g"
  h_newId :: "string \<Rightarrow> 'g \<Rightarrow> (string + ident) \<times> 'g"
  h_now :: "'g \<Rightarrow> nat"
  h_sha256 :: "string \<Rightarrow> string"
  h_others :: "'g \<Rightarrow> engine_call list"

text \<open>
  The shared objects: the engine, the graph of the project when there is one, what was escalated
  to a human, and the host.
\<close>

record 'g pipeline =
  pl_engine :: engine
  pl_graph :: "workflow_graph option"
  pl_escalated :: "(ident \<times> string) list"
  pl_host :: 'g

datatype pipeline_error =
    PE_engine engine_error
  | PE_host string
  | PE_graph graph_edit_error
  | PE_work_units nat nat
  | PE_human_confirmation ident
  | PE_merge_approval string

type_synonym ('g, 'a) piped = "('g pipeline, pipeline_error, 'a) action"

definition lift_host :: "(string + 'a) \<Rightarrow> pipeline_error + 'a" where
  "lift_host r = (case r of Inl e \<Rightarrow> Inl (PE_host e) | Inr a \<Rightarrow> Inr a)"

text \<open>A synchronous call of the host, and one that is awaited.\<close>

definition on_host :: "('g \<Rightarrow> (string + 'a) \<times> 'g) \<Rightarrow> ('g, 'a) piped" where
  "on_host act p = (case act (pl_host p) of (r, g) \<Rightarrow> (lift_host r, p\<lparr>pl_host := g\<rparr>))"

definition awaiting :: "'g host \<Rightarrow> ('g \<Rightarrow> (string + 'a) \<times> 'g) \<Rightarrow> ('g, 'a) piped" where
  "awaiting h act p =
     (case act (pl_host p) of (r, g) \<Rightarrow>
        (lift_host r, p\<lparr>pl_engine := fold do_engine_call (h_others h g) (pl_engine p), pl_host := g\<rparr>))"

definition on_engine :: "(engine, engine_error, 'a) action \<Rightarrow> ('g, 'a) piped" where
  "on_engine act p =
     (case act (pl_engine p) of
        (Inl e, E) \<Rightarrow> (Inl (PE_engine e), p\<lparr>pl_engine := E\<rparr>)
      | (Inr a, E) \<Rightarrow> (Inr a, p\<lparr>pl_engine := E\<rparr>))"

text \<open>
  \<^verbatim>\<open>try { m } catch\<close> with the error as a value, \<^verbatim>\<open>m.catch(() => undefined)\<close>, and
  \<^verbatim>\<open>try { m } finally { c }\<close> for a \<open>c\<close> whose own errors are caught.
\<close>

definition attempting :: "('s, 'e, 'a) action \<Rightarrow> ('s, 'e, 'e + 'a) action" where
  "attempting m s = (case m s of (r, s') \<Rightarrow> (Inr r, s'))"

definition ignoring :: "('s, 'e, 'a) action \<Rightarrow> ('s, 'e, unit) action" where
  "ignoring m s = (Inr (), snd (m s))"

definition finally_do :: "('s, 'e, 'a) action \<Rightarrow> ('s, 'e, unit) action \<Rightarrow> ('s, 'e, 'a) action" where
  "finally_do m c s = (case m s of (r, s') \<Rightarrow> (r, snd (c s')))"

fun collect_each :: "'x list \<Rightarrow> ('x \<Rightarrow> ('s, 'e, 'b) action) \<Rightarrow> ('s, 'e, 'b list) action" where
  "collect_each [] f = returning []"
| "collect_each (x # xs) f = and_then (f x) (\<lambda>b. and_then (collect_each xs f) (\<lambda>bs. returning (b # bs)))"

subsection \<open>The local repository\<close>

text \<open>\<^verbatim>\<open>path.join\<close> of two arguments, as Node defines it for POSIX paths.\<close>

fun normal_parts :: "bool \<Rightarrow> string list \<Rightarrow> string list \<Rightarrow> string list" where
  "normal_parts absolute acc [] = rev acc"
| "normal_parts absolute acc (p # ps) =
     (if p = [] \<or> p = ''.'' then normal_parts absolute acc ps
      else if p = ''..'' then
        (if acc \<noteq> [] \<and> hd acc \<noteq> ''..'' then normal_parts absolute (tl acc) ps
         else if absolute then normal_parts absolute acc ps
         else normal_parts absolute (p # acc) ps)
      else normal_parts absolute (p # acc) ps)"

definition path_normalize :: "string \<Rightarrow> string" where
  "path_normalize p =
     (let absolute = (p \<noteq> [] \<and> hd p = CHR ''/'');
          trailing = (p \<noteq> [] \<and> last p = CHR ''/'');
          body = join ''/'' (normal_parts absolute [] (split_on (CHR ''/'') p))
      in if body = [] then (if absolute then ''/'' else if trailing then ''./'' else ''.'')
         else (if absolute then ''/'' else []) @ body @ (if trailing then ''/'' else []))"

definition path_join :: "string \<Rightarrow> string \<Rightarrow> string" where
  "path_join a b = path_normalize (join ''/'' (filter nonempty_str [a, b]))"

record local_git_repo =
  lr_repoDir :: string
  lr_projectSlug :: string
  lr_worktreesDir :: string

record worktree_handle =
  wh_path :: string
  wh_branch :: string

definition run_git ::
    "'g host \<Rightarrow> string option \<Rightarrow> string \<Rightarrow> string list \<Rightarrow> ('g, string) piped" where
  "run_git h author cwd args =
     and_then (awaiting h (h_exec h \<lparr>ex_program = ''git'', ex_args = args, ex_cwd = cwd,
                                    ex_author = author, ex_timeout = None\<rparr>))
       (\<lambda>out. returning (fst out))"

definition git :: "'g host \<Rightarrow> string \<Rightarrow> string list \<Rightarrow> ('g, string) piped" where
  "git h cwd args = and_then (run_git h (Some ''norns'') cwd args) (\<lambda>stdout. returning (js_trim stdout))"

definition int_str :: "int \<Rightarrow> string" where
  "int_str i = (if i < 0 then ''-'' else []) @ dec (nat \<bar>i\<bar>)"

definition branchFor :: "local_git_repo \<Rightarrow> ident \<Rightarrow> int option \<Rightarrow> string" where
  "branchFor repo nodeId worker =
     ''norns/'' @ lr_projectSlug repo @ ''/'' @ nodeId @
       (case worker of None \<Rightarrow> [] | Some w \<Rightarrow> ''-w'' @ int_str w)"

definition integrationBranch :: "local_git_repo \<Rightarrow> string" where
  "integrationBranch repo = ''norns/'' @ lr_projectSlug repo @ ''/integration''"

definition ensureIntegrationBranch :: "'g host \<Rightarrow> local_git_repo \<Rightarrow> ('g, string) piped" where
  "ensureIntegrationBranch h repo =
     (let branch = integrationBranch repo in
      and_then (git h (lr_repoDir repo) [''branch'', ''--list'', branch]) (\<lambda>existing.
      and_then (if existing = [] then
                  and_then (git h (lr_repoDir repo) [''branch'', branch, ''main'']) (\<lambda>_. returning ())
                else returning ()) (\<lambda>_.
      returning branch)))"

definition slashes_doubled :: "string \<Rightarrow> string" where
  "slashes_doubled s = concat (map (\<lambda>c. if c = CHR ''/'' then ''__'' else [c]) s)"

definition createWorktree ::
    "'g host \<Rightarrow> local_git_repo \<Rightarrow> ident \<Rightarrow> int option \<Rightarrow> ('g, worktree_handle) piped" where
  "createWorktree h repo nodeId worker =
     (let branch = branchFor repo nodeId worker;
          path = path_join (lr_worktreesDir repo) (slashes_doubled branch) in
      and_then (git h (lr_repoDir repo) [''worktree'', ''add'', ''-b'', branch, path, ''main'']) (\<lambda>_.
      and_then (on_host (h_realpath h path)) (\<lambda>real.
      returning \<lparr>wh_path = real, wh_branch = branch\<rparr>)))"

definition removeWorktree :: "'g host \<Rightarrow> local_git_repo \<Rightarrow> worktree_handle \<Rightarrow> ('g, unit) piped" where
  "removeWorktree h repo handle =
     and_then (git h (lr_repoDir repo) [''worktree'', ''remove'', ''--force'', wh_path handle]) (\<lambda>_. returning ())"

definition starts_with :: "string \<Rightarrow> string \<Rightarrow> bool" where
  "starts_with pre s \<longleftrightarrow> take (length pre) s = pre"

definition listWorktreePaths :: "'g host \<Rightarrow> local_git_repo \<Rightarrow> ('g, string list) piped" where
  "listWorktreePaths h repo =
     and_then (git h (lr_repoDir repo) [''worktree'', ''list'', ''--porcelain'']) (\<lambda>out.
     returning (map (drop (length ''worktree ''))
       (filter (starts_with ''worktree '') (split_on (CHR 0x0A) out))))"

definition branchExists :: "'g host \<Rightarrow> local_git_repo \<Rightarrow> string \<Rightarrow> ('g, bool) piped" where
  "branchExists h repo branch =
     and_then (git h (lr_repoDir repo) [''branch'', ''--list'', branch]) (\<lambda>out. returning (out \<noteq> []))"

definition deleteBranch :: "'g host \<Rightarrow> local_git_repo \<Rightarrow> string \<Rightarrow> ('g, unit) piped" where
  "deleteBranch h repo branch = ignoring (git h (lr_repoDir repo) [''branch'', ''-D'', branch])"

subsection \<open>Verification at the exact commit\<close>

datatype verification_kind = VK_required | VK_module

record verification_plan =
  vp_required :: "string list"
  vp_module :: "string list"

record verification_result =
  vr_id :: ident
  vr_node_id :: ident
  vr_run_id :: ident
  vr_commit_sha :: string
  vr_command :: string
  vr_kind :: verification_kind
  vr_passed :: bool
  vr_output_digest :: string
  vr_executed_at :: nat

definition headOf :: "'g host \<Rightarrow> string \<Rightarrow> ('g, string) piped" where
  "headOf h worktreePath =
     and_then (run_git h None worktreePath [''rev-parse'', ''HEAD'']) (\<lambda>stdout. returning (js_trim stdout))"

definition plan_commands :: "verification_plan \<Rightarrow> (string \<times> verification_kind) list" where
  "plan_commands plan =
     map (\<lambda>c. (c, VK_required)) (vp_required plan) @ map (\<lambda>c. (c, VK_module)) (vp_module plan)"

definition sh_call :: "string \<Rightarrow> string \<Rightarrow> exec_call" where
  "sh_call verifyPath command =
     \<lparr>ex_program = ''sh'', ex_args = [''-c'', command], ex_cwd = verifyPath, ex_author = None,
      ex_timeout = Some 60000\<rparr>"

fun command_output :: "pipeline_error + string \<times> string \<Rightarrow> string" where
  "command_output (Inr (stdout, stderr)) = stdout @ stderr"
| "command_output (Inl (PE_host message)) = message"
| "command_output (Inl _) = []"

definition verify_command ::
    "'g host \<Rightarrow> string \<Rightarrow> string \<Rightarrow> ident \<Rightarrow> ident \<Rightarrow> string \<times> verification_kind \<Rightarrow> ('g, verification_result) piped" where
  "verify_command h verifyPath commit nodeId runId entry =
     and_then (attempting (awaiting h (h_exec h (sh_call verifyPath (fst entry))))) (\<lambda>out.
     and_then (on_host (h_newId h ''verif'')) (\<lambda>vid.
     and_then (reading (\<lambda>p. h_now h (pl_host p))) (\<lambda>now.
     returning \<lparr>vr_id = vid, vr_node_id = nodeId, vr_run_id = runId, vr_commit_sha = commit,
                vr_command = fst entry, vr_kind = snd entry, vr_passed = \<not> isl out,
                vr_output_digest = h_sha256 h (command_output out), vr_executed_at = now\<rparr>)))"

definition runVerification ::
    "'g host \<Rightarrow> local_git_repo \<Rightarrow> string \<Rightarrow> ident \<Rightarrow> ident \<Rightarrow> verification_plan \<Rightarrow> ('g, verification_result list) piped" where
  "runVerification h repo commit nodeId runId plan =
     and_then (reading (\<lambda>p. lr_worktreesDir repo @ ''/verify-'' @ nodeId @ ''-'' @ dec (h_now h (pl_host p)))) (\<lambda>verifyPath.
     and_then (run_git h None (lr_repoDir repo) [''worktree'', ''add'', ''--detach'', verifyPath, commit]) (\<lambda>_.
     finally_do
       (collect_each (plan_commands plan) (verify_command h verifyPath commit nodeId runId))
       (ignoring (run_git h None (lr_repoDir repo) [''worktree'', ''remove'', ''--force'', verifyPath]))))"

subsection \<open>The pipeline\<close>

record execute_options =
  xo_nodeId :: ident
  xo_prompt :: string
  xo_maxChargeUsd :: usd
  xo_verification :: verification_plan
  xo_actualUsd :: "usd option"

datatype execute_outcome = XO_in_review | XO_failed

record execute_result =
  xr_outcome :: execute_outcome
  xr_commit :: "string option"
  xr_branch :: string
  xr_verification :: "verification_result list"
  xr_runtimeDetail :: string

text \<open>
  The two ways in which a run ends, here and in \<^verbatim>\<open>coordination.ts\<close>: the failed run is settled and
  recorded as a failed verification, the completed one is settled, verified and recorded.
\<close>

definition fail_run :: "ident \<Rightarrow> usd \<Rightarrow> ('g, unit) piped" where
  "fail_run nodeId actualUsd =
     and_then (on_engine (completeRun nodeId actualUsd)) (\<lambda>_. on_engine (recordVerification nodeId False))"

definition verify_run ::
    "'g host \<Rightarrow> local_git_repo \<Rightarrow> ident \<Rightarrow> usd \<Rightarrow> string \<Rightarrow> ident \<Rightarrow> verification_plan \<Rightarrow> ('g, bool \<times> verification_result list) piped" where
  "verify_run h repo nodeId actualUsd commit runId plan =
     and_then (on_engine (completeRun nodeId actualUsd)) (\<lambda>_.
     and_then (runVerification h repo commit nodeId runId plan) (\<lambda>verification.
     let allPassed = list_all vr_passed verification in
     and_then (on_engine (recordVerification nodeId allPassed)) (\<lambda>_.
     returning (allPassed, verification))))"

text \<open>The \<^verbatim>\<open>try\<close> block once the worktree exists.\<close>

definition execute_in ::
    "'g host \<Rightarrow> local_git_repo \<Rightarrow> execute_options \<Rightarrow> worktree_handle \<Rightarrow> ('g, execute_result) piped" where
  "execute_in h repo opts worktree =
     and_then (reading (\<lambda>p. ''run_'' @ xo_nodeId opts @ ''_'' @ dec (h_now h (pl_host p)))) (\<lambda>runId.
     and_then (awaiting h (h_run h \<lparr>rq_runId = runId, rq_worktreePath = wh_path worktree,
                                    rq_prompt = xo_prompt opts\<rparr>)) (\<lambda>result.
     if rr_outcome result \<noteq> RO_completed then
       and_then (fail_run (xo_nodeId opts) (or_else (xo_actualUsd opts) 0)) (\<lambda>_.
       returning \<lparr>xr_outcome = XO_failed, xr_commit = None, xr_branch = wh_branch worktree,
                  xr_verification = [], xr_runtimeDetail = rr_detail result\<rparr>)
     else
       and_then (headOf h (wh_path worktree)) (\<lambda>commit.
       and_then (verify_run h repo (xo_nodeId opts) (or_else (xo_actualUsd opts) (xo_maxChargeUsd opts / 2))
                  commit runId (xo_verification opts)) (\<lambda>(allPassed, verification).
       returning \<lparr>xr_outcome = (if allPassed then XO_in_review else XO_failed), xr_commit = Some commit,
                  xr_branch = wh_branch worktree, xr_verification = verification,
                  xr_runtimeDetail = rr_detail result\<rparr>))))"

definition executeNode ::
    "'g host \<Rightarrow> local_git_repo \<Rightarrow> execute_options \<Rightarrow> ('g, execute_result) piped" where
  "executeNode h repo opts =
     and_then (on_engine (startRun (xo_nodeId opts) (xo_maxChargeUsd opts))) (\<lambda>_.
     and_then (createWorktree h repo (xo_nodeId opts) None) (\<lambda>worktree.
     finally_do (execute_in h repo opts worktree) (ignoring (removeWorktree h repo worktree))))"

subsection \<open>The pipeline drives its node\<close>

text \<open>The other pipelines call the engine for their own nodes only.\<close>

definition isolated :: "'g host \<Rightarrow> ident \<Rightarrow> bool" where
  "isolated h k \<longleftrightarrow> (\<forall>g. list_all (foreign k) (h_others h g))"

abbreviation piped_is :: "ident \<Rightarrow> node_state \<Rightarrow> node_meta \<Rightarrow> node_budget option \<Rightarrow> 'g pipeline \<Rightarrow> bool" where
  "piped_is k s m nb p \<equiv> node_is k s m nb (pl_engine p)"

text \<open>
  An operation of the host never changes the node, and it throws only what the host rejected with.
\<close>

definition quiet :: "ident \<Rightarrow> ('g, 'a) piped \<Rightarrow> bool" where
  "quiet k act \<longleftrightarrow>
     (\<forall>p. (\<forall>s m nb. s \<noteq> N_pending \<longrightarrow> piped_is k s m nb p \<longrightarrow> piped_is k s m nb (snd (act p))) \<and>
          (case fst (act p) of Inl (PE_host e) \<Rightarrow> True | Inl _ \<Rightarrow> False | Inr a \<Rightarrow> True))"

lemma quietI:
  assumes "\<And>p s m nb. s \<noteq> N_pending \<Longrightarrow> piped_is k s m nb p \<Longrightarrow> piped_is k s m nb (snd (act p))"
    and "\<And>p e. fst (act p) = Inl e \<Longrightarrow> \<exists>x. e = PE_host x"
  shows "quiet k act"
  unfolding quiet_def
proof (intro allI conjI impI)
  fix p
  show "case fst (act p) of Inl (PE_host e) \<Rightarrow> True | Inl _ \<Rightarrow> False | Inr a \<Rightarrow> True"
    using assms(2) [of p] by (cases "fst (act p)") (auto split: pipeline_error.splits)
qed (use assms(1) in blast)

lemma quiet_keeps: "quiet k act \<Longrightarrow> s \<noteq> N_pending \<Longrightarrow> piped_is k s m nb p \<Longrightarrow> piped_is k s m nb (snd (act p))"
  by (simp add: quiet_def)

lemma quiet_error: "quiet k act \<Longrightarrow> fst (act p) = Inl e \<Longrightarrow> \<exists>x. e = PE_host x"
  unfolding quiet_def by (drule spec [of _ p]) (auto split: pipeline_error.splits)

lemma quiet_awaiting [norns_inv]: "isolated h k \<Longrightarrow> quiet k (awaiting h act)"
  by (rule quietI)
     (auto simp: awaiting_def isolated_def frame_calls lift_host_def split: prod.splits sum.splits)

lemma quiet_on_host [norns_inv]: "quiet k (on_host act)"
  by (rule quietI) (auto simp: on_host_def lift_host_def split: prod.splits sum.splits)

lemma quiet_returning [norns_inv]: "quiet k (returning a)" "quiet k (reading f)"
  by (rule quietI; simp)+

lemma quiet_and_then [norns_inv]:
  assumes "quiet k act" "\<And>a. quiet k (f a)"
  shows "quiet k (and_then act f)"
proof (rule quietI)
  fix p :: "'a pipeline" and s m nb
  assume s: "s \<noteq> N_pending" "piped_is k s m nb p"
  with quiet_keeps [OF assms(1) s] quiet_keeps [OF assms(2) s(1)]
  show "piped_is k s m nb (snd (and_then act f p))"
    by (auto simp: and_then_def split: prod.split sum.split)
next
  fix p :: "'a pipeline" and e
  assume "fst (and_then act f p) = Inl e"
  then show "\<exists>x. e = PE_host x"
    using quiet_error [OF assms(1), of p] quiet_error [OF assms(2)]
    by (auto simp: and_then_def split: prod.splits sum.splits)
qed

lemma quiet_attempting [norns_inv]: "quiet k act \<Longrightarrow> quiet k (attempting act)"
  by (rule quietI) (auto simp: attempting_def split: prod.splits, metis quiet_keeps snd_conv)

lemma quiet_ignoring [norns_inv]: "quiet k act \<Longrightarrow> quiet k (ignoring act)"
  by (rule quietI) (auto simp: ignoring_def quiet_keeps)

lemma quiet_finally [norns_inv]: "quiet k act \<Longrightarrow> quiet k c \<Longrightarrow> quiet k (finally_do act c)"
  by (rule quietI)
     (auto simp: finally_do_def split: prod.splits, (metis quiet_keeps snd_conv | metis quiet_error fst_conv)+)

lemma quiet_collect_each [norns_inv]: "(\<And>x. quiet k (f x)) \<Longrightarrow> quiet k (collect_each xs f)"
  by (induction xs) (simp_all only: collect_each.simps quiet_and_then quiet_returning)

lemma quiet_git [norns_inv]:
  "isolated h k \<Longrightarrow> quiet k (run_git h author cwd args)" "isolated h k \<Longrightarrow> quiet k (git h cwd args)"
  subgoal unfolding run_git_def by (intro norns_inv)
  subgoal unfolding git_def run_git_def by (intro norns_inv)
  done

lemma quiet_repo [norns_inv]:
  assumes "isolated h k"
  shows "quiet k (createWorktree h repo n w)"
    and "quiet k (removeWorktree h repo t)"
    and "quiet k (headOf h path)"
    and "quiet k (runVerification h repo commit n r vp)"
  subgoal unfolding createWorktree_def Let_def by (intro norns_inv assms)
  subgoal unfolding removeWorktree_def by (intro norns_inv assms)
  subgoal unfolding headOf_def by (intro norns_inv assms)
  subgoal unfolding runVerification_def verify_command_def by (intro norns_inv assms)
  done

lemma finally_do_iff: "finally_do act c s = (r, t) \<longleftrightarrow> (\<exists>u. act s = (r, u) \<and> t = snd (c u))"
  by (auto simp: finally_do_def split: prod.splits)

text \<open>What the verification records.\<close>

lemma collect_each_results:
  assumes "collect_each xs f s = (Inr ys, s')" "\<And>x s y s'. f x s = (Inr y, s') \<Longrightarrow> P x y"
  shows "list_all2 P xs ys"
  using assms(1)
  by (induction xs arbitrary: s ys) (auto simp: and_then_Inr_iff intro: assms(2))

definition records_run ::
    "'g host \<Rightarrow> string \<Rightarrow> string \<Rightarrow> ident \<Rightarrow> ident \<Rightarrow> string \<times> verification_kind \<Rightarrow> verification_result \<Rightarrow> bool" where
  "records_run h path commit n r entry v \<longleftrightarrow>
     (vr_command v, vr_kind v) = entry \<and> vr_commit_sha v = commit \<and> vr_node_id v = n \<and> vr_run_id v = r \<and>
     (\<exists>g. vr_passed v \<longleftrightarrow> \<not> isl (fst (h_exec h (sh_call path (fst entry)) g)))"

lemma isl_lift_host [simp]: "isl (lift_host r) = isl r"
  by (cases r) (simp_all add: lift_host_def)

lemma verify_command_records:
  assumes "verify_command h path commit n r entry p = (Inr v, p')"
  shows "records_run h path commit n r entry v"
proof -
  obtain x g where x: "h_exec h (sh_call path (fst entry)) (pl_host p) = (x, g)" by fastforce
  with assms show ?thesis
    unfolding records_run_def
    by (cases entry)
       (auto simp: verify_command_def and_then_Inr_iff attempting_def awaiting_def intro: exI [of _ "pl_host p"])
qed

lemma runVerification_records:
  assumes "runVerification h repo commit n r vp p = (Inr vs, p')"
  shows "\<exists>path. list_all2 (records_run h path commit n r) (plan_commands vp) vs \<and>
           (\<exists>g out. fst (h_exec h \<lparr>ex_program = ''git'', ex_args = [''worktree'', ''add'', ''--detach'', path, commit],
                            ex_cwd = lr_repoDir repo, ex_author = None, ex_timeout = None\<rparr> g) = Inr out)"
proof -
  from assms obtain path u q q' where
    add: "run_git h None (lr_repoDir repo) [''worktree'', ''add'', ''--detach'', path, commit] p = (Inr u, q)"
    and c: "collect_each (plan_commands vp) (verify_command h path commit n r) q = (Inr vs, q')"
    by (auto simp: runVerification_def and_then_Inr_iff finally_do_iff)
  from c have "list_all2 (records_run h path commit n r) (plan_commands vp) vs"
    by (rule collect_each_results) (rule verify_command_records)
  moreover from add have "\<exists>g out. fst (h_exec h \<lparr>ex_program = ''git'', ex_args = [''worktree'', ''add'', ''--detach'', path, commit],
                            ex_cwd = lr_repoDir repo, ex_author = None, ex_timeout = None\<rparr> g) = Inr out"
    by (auto simp: run_git_def and_then_Inr_iff awaiting_def lift_host_def split: prod.splits sum.splits
        intro!: exI [of _ "pl_host p"])
  ultimately show ?thesis by blast
qed

text \<open>
  What holds of a node and the result after each stage. An operation of the host that rejects leaves
  the node in the state it had.
\<close>

definition verified_by ::
    "'g host \<Rightarrow> local_git_repo \<Rightarrow> ident \<Rightarrow> verification_plan \<Rightarrow> string option \<Rightarrow> verification_result list \<Rightarrow> bool" where
  "verified_by h repo n plan reported results \<longleftrightarrow>
     (\<exists>commit path r. reported = Some commit \<and>
        (\<exists>g out. fst (h_exec h \<lparr>ex_program = ''git'', ex_args = [''worktree'', ''add'', ''--detach'', path, commit],
                         ex_cwd = lr_repoDir repo, ex_author = None, ex_timeout = None\<rparr> g) = Inr out) \<and>
        list_all2 (records_run h path commit n r) (plan_commands plan) results)"

text \<open>A result as far as it concerns the node: whether it is in review, the commit, the evidence.\<close>

type_synonym run_summary = "bool \<times> string option \<times> verification_result list"

definition settled_as :: "ident \<Rightarrow> node_state \<Rightarrow> engine \<Rightarrow> bool" where
  "settled_as k s E \<longleftrightarrow> (\<exists>m nb. node_is k s m nb E \<and> nm_activeReservation m = None)"

lemma settled_asI: "node_is k s (m\<lparr>nm_activeReservation := None\<rparr>) nb E \<Longrightarrow> settled_as k s E"
  unfolding settled_as_def by (intro exI) auto

fun stage_ok ::
    "'g host \<Rightarrow> local_git_repo \<Rightarrow> ident \<Rightarrow> verification_plan \<Rightarrow> pipeline_error + run_summary \<Rightarrow> engine \<Rightarrow> bool" where
  "stage_ok h repo k plan (Inr (passed, commit, vs)) E \<longleftrightarrow>
     settled_as k (if passed then N_in_review else N_failed) E \<and>
     (passed \<longrightarrow> verified_by h repo k plan commit vs \<and> list_all vr_passed vs)"
| "stage_ok h repo k plan (Inl (PE_host e)) E \<longleftrightarrow>
     (\<exists>m nb. node_is k N_running m nb E \<or> node_is k N_verifying m nb E)"
| "stage_ok h repo k plan (Inl _) E \<longleftrightarrow> False"

lemma stage_ok_quiet:
  assumes "stage_ok h repo k plan r (pl_engine p)" "quiet k act"
  shows "stage_ok h repo k plan r (pl_engine (snd (act p)))"
  using assms(1)
  by (cases "(h, repo, k, plan, r, pl_engine p)" rule: stage_ok.cases)
     (auto simp: settled_as_def, (metis quiet_keeps [OF assms(2)] node_state.distinct)+)

lemma stage_ok_host_error:
  "\<exists>x. e = PE_host x \<Longrightarrow> s \<in> {N_running, N_verifying} \<Longrightarrow> node_is k s m nb E \<Longrightarrow>
     stage_ok h repo k plan (Inl e) E"
  by (elim exE insertE emptyE; simp; blast)

definition staged ::
    "('a \<Rightarrow> run_summary) \<Rightarrow> 'g host \<Rightarrow> local_git_repo \<Rightarrow> ident \<Rightarrow> verification_plan \<Rightarrow>
       (pipeline_error + 'a) \<times> 'g pipeline \<Rightarrow> bool" where
  "staged view h repo k plan out \<longleftrightarrow> stage_ok h repo k plan (map_sum id view (fst out)) (pl_engine (snd out))"

lemma staged_and_then:
  assumes "quiet k act" "piped_is k s m nb p" "s \<in> {N_running, N_verifying}"
    and "\<And>a q. act p = (Inr a, q) \<Longrightarrow> piped_is k s m nb q \<Longrightarrow> staged view h repo k plan (f a q)"
  shows "staged view h repo k plan (and_then act f p)"
proof -
  obtain r q where rq: "act p = (r, q)" by fastforce
  have q: "piped_is k s m nb q"
    using quiet_keeps [OF assms(1) _ assms(2)] assms(3) rq by fastforce
  show ?thesis
  proof (cases r)
    case (Inl e)
    with rq quiet_error [OF assms(1), of p e] stage_ok_host_error [OF _ assms(3) q] show ?thesis
      by (simp add: staged_def)
  qed (use rq q assms(4) in simp)
qed

lemma staged_engine:
  assumes "act (pl_engine p) = (Inr a, E)" "staged view h repo k plan (f a (p\<lparr>pl_engine := E\<rparr>))"
  shows "staged view h repo k plan (and_then (on_engine act) f p)"
  using assms by (simp add: and_then_def on_engine_def)

lemma staged_result:
  assumes "view res = (passed, commit, vs)"
    and "settled_as k (if passed then N_in_review else N_failed) (pl_engine q)"
    and "passed \<Longrightarrow> verified_by h repo k plan commit vs \<and> list_all vr_passed vs"
  shows "staged view h repo k plan (returning res q)"
  using assms by (simp add: staged_def)

text \<open>The node while its run holds a reservation.\<close>

definition running_with :: "ident \<Rightarrow> node_meta \<Rightarrow> node_budget \<Rightarrow> engine \<Rightarrow> bool" where
  "running_with k m nb E \<longleftrightarrow>
     node_is k N_running m (Some nb) E \<and>
     (\<exists>rid held. nm_activeReservation m = Some rid \<and> rid \<noteq> [] \<and> jget (nb_reservations nb) rid = Some held)"

lemma completeRun_running:
  assumes "running_with k m nb E"
  obtains E' nb' where "completeRun k actual E = (Inr (), E')"
    "node_is k N_verifying (m\<lparr>nm_activeReservation := None\<rparr>) nb' E'"
  using assms unfolding running_with_def by (metis completeRun_node)

lemma quiet_running:
  "quiet k act \<Longrightarrow> running_with k m nb (pl_engine p) \<Longrightarrow> running_with k m nb (pl_engine (snd (act p)))"
  unfolding running_with_def by (auto dest: quiet_keeps)

lemma staged_running:
  assumes "quiet k act" "running_with k m nb (pl_engine p)"
    and "\<And>a q. act p = (Inr a, q) \<Longrightarrow> running_with k m nb (pl_engine q) \<Longrightarrow> staged view h repo k plan (f a q)"
  shows "staged view h repo k plan (and_then act f p)"
proof (rule staged_and_then [OF assms(1)])
  show "piped_is k N_running m (Some nb) p" using assms(2) by (simp add: running_with_def)
  fix a q
  assume q: "act p = (Inr a, q)"
  with quiet_running [OF assms(1,2)] show "staged view h repo k plan (f a q)" by (intro assms(3)) simp_all
qed simp

lemma fail_run_staged:
  assumes "running_with k m nb (pl_engine p)"
    and "\<And>q. settled_as k N_failed (pl_engine q) \<Longrightarrow> staged view h repo k plan (f () q)"
  shows "staged view h repo k plan (and_then (fail_run k actual) f p)"
proof -
  let ?m = "m\<lparr>nm_activeReservation := None\<rparr>"
  obtain E1 nb1 where c: "completeRun k actual (pl_engine p) = (Inr (), E1)" and v: "node_is k N_verifying ?m nb1 E1"
    using completeRun_running [OF assms(1)] .
  obtain E2 where r: "recordVerification k False E1 = (Inr (), E2)" and n: "node_is k N_failed ?m nb1 E2"
    using recordVerification_node [OF v, of False] by auto
  have "fail_run k actual p = (Inr (), p\<lparr>pl_engine := E2\<rparr>)"
    by (simp add: fail_run_def and_then_def on_engine_def c r)
  moreover have "staged view h repo k plan (f () (p\<lparr>pl_engine := E2\<rparr>))"
    by (rule assms(2)) (use settled_asI [OF n] in simp)
  ultimately show ?thesis by simp
qed

lemma verify_run_staged:
  assumes iso: "isolated h k" and run: "running_with k m nb (pl_engine p)"
    and cont: "\<And>q passed vs. settled_as k (if passed then N_in_review else N_failed) (pl_engine q) \<Longrightarrow>
       passed = list_all vr_passed vs \<Longrightarrow> verified_by h repo k plan (Some commit) vs \<Longrightarrow>
       staged view h repo k plan (f (passed, vs) q)"
  shows "staged view h repo k plan (and_then (verify_run h repo k actual commit runId plan) f p)"
proof -
  let ?m = "m\<lparr>nm_activeReservation := None\<rparr>"
  obtain E1 nb1 where c: "completeRun k actual (pl_engine p) = (Inr (), E1)"
    and v: "node_is k N_verifying ?m nb1 E1"
    using completeRun_running [OF run] .
  let ?p = "p\<lparr>pl_engine := E1\<rparr>"
  obtain r q where rv: "runVerification h repo commit k runId plan ?p = (r, q)" by fastforce
  have quiet: "quiet k (runVerification h repo commit k runId plan)" by (intro norns_inv iso)
  have q: "node_is k N_verifying ?m nb1 (pl_engine q)"
    using quiet_keeps [OF quiet _, of N_verifying ?m nb1 ?p] v rv by simp
  show ?thesis
  proof (cases r)
    case (Inl e)
    then have "and_then (verify_run h repo k actual commit runId plan) f p = (Inl e, q)"
      by (simp add: verify_run_def and_then_def on_engine_def c rv)
    with quiet_error [OF quiet, of ?p e] stage_ok_host_error [OF _ _ q] rv Inl show ?thesis
      by (simp add: staged_def)
  next
    case (Inr vs)
    obtain E2 where w: "recordVerification k (list_all vr_passed vs) (pl_engine q) = (Inr (), E2)"
      and n: "node_is k (if list_all vr_passed vs then N_in_review else N_failed) ?m nb1 E2"
      using recordVerification_node [OF q] by blast
    have "verify_run h repo k actual commit runId plan p = (Inr (list_all vr_passed vs, vs), q\<lparr>pl_engine := E2\<rparr>)"
      by (simp add: verify_run_def and_then_def on_engine_def c rv Inr w Let_def)
    moreover have "verified_by h repo k plan (Some commit) vs"
      using runVerification_records [OF rv [unfolded Inr]] unfolding verified_by_def by auto
    then have "staged view h repo k plan (f (list_all vr_passed vs, vs) (q\<lparr>pl_engine := E2\<rparr>))"
      by (intro cont) (use settled_asI [OF n] in simp_all)
    ultimately show ?thesis by simp
  qed
qed

definition execute_summary :: "execute_result \<Rightarrow> run_summary" where
  "execute_summary res = (xr_outcome res = XO_in_review, xr_commit res, xr_verification res)"

lemma execute_in_staged:
  assumes iso: "isolated h (xo_nodeId opts)" and run: "running_with (xo_nodeId opts) m nb (pl_engine p)"
  shows "staged execute_summary h repo (xo_nodeId opts) (xo_verification opts) (execute_in h repo opts w p)"
  unfolding execute_in_def
proof (rule staged_running [OF _ run], goal_cases)
  case (2 runId q)
  show ?case
  proof (rule staged_running [OF _ 2(2)], goal_cases)
    case (2 result q)
    show ?case
    proof (cases "rr_outcome result = RO_completed")
      case True
      then show ?thesis
        by (simp, intro staged_running [OF _ 2(2)] verify_run_staged)
           (auto intro!: norns_inv iso simp: staged_def execute_summary_def)
    next
      case False
      then show ?thesis
        by (simp, intro fail_run_staged [OF 2(2)])
           (auto simp: staged_def execute_summary_def)
    qed
  qed (intro norns_inv iso)
qed (intro norns_inv)

lemma assigned_node:
  assumes "engine_run plan L before E" "node_state_of E k = N_assigned"
  obtains m where "node_is k N_assigned m (jget (bl_nodes (en_budget E)) k) E"
proof -
  have "log_sound E" using engine_run_inv [OF assms(1)] by (simp add: engine_inv_def)
  with assms(2) that show ?thesis
    by (cases "jget (en_meta E) k") (auto simp: node_is_def log_sound_def)
qed

text \<open>C5: \<^verbatim>\<open>executeNode\<close> tells the truth, whatever git, the runtime, the commands and the other pipelines
  do. If it returns \<^verbatim>\<open>in_review\<close>, the node is in review, every required and every module command
  was run by the server itself in a worktree that git had added at exactly the reported
  commit, in the order of the plan, and all of them passed; if it returns \<^verbatim>\<open>failed\<close>, the node is
  failed; in both cases the reservation is settled. If the engine refused the dispatch, the node is
  assigned or blocked. If an operation of the host rejected, the node is left running or verifying.\<close>

theorem executeNode_truthful:
  assumes "engine_run plan L before (pl_engine p)" "node_state_of (pl_engine p) (xo_nodeId opts) = N_assigned"
    and "isolated h (xo_nodeId opts)"
    and "executeNode h repo opts p = (r, p')"
  shows "case r of
       Inr res \<Rightarrow>
         node_state_of (pl_engine p') (xo_nodeId opts) =
           (if xr_outcome res = XO_in_review then N_in_review else N_failed) \<and>
         (\<exists>m. jget (en_meta (pl_engine p')) (xo_nodeId opts) = Some m \<and> nm_activeReservation m = None) \<and>
         (xr_outcome res = XO_in_review \<longrightarrow>
            verified_by h repo (xo_nodeId opts) (xo_verification opts) (xr_commit res) (xr_verification res) \<and>
            list_all vr_passed (xr_verification res))
     | Inl (PE_host e) \<Rightarrow> node_state_of (pl_engine p') (xo_nodeId opts) \<in> {N_running, N_verifying}
     | Inl (PE_engine e) \<Rightarrow> node_state_of (pl_engine p') (xo_nodeId opts) \<in> {N_assigned, N_blocked}
     | Inl _ \<Rightarrow> False"
proof -
  let ?k = "xo_nodeId opts"
  obtain m where a: "node_is ?k N_assigned m (jget (bl_nodes (en_budget (pl_engine p))) ?k) (pl_engine p)"
    using assigned_node [OF assms(1,2)] .
  obtain x E1 where st: "startRun ?k (xo_maxChargeUsd opts) (pl_engine p) = (x, E1)" by fastforce
  show ?thesis
  proof (cases x)
    case (Inl e)
    with assms(4) st have "r = Inl (PE_engine e)" "pl_engine p' = E1"
      by (auto simp: executeNode_def and_then_def on_engine_def)
    with startRun_refused_node [OF a] st Inl show ?thesis by simp
  next
    case (Inr rid)
    let ?p1 = "p\<lparr>pl_engine := E1\<rparr>"
    obtain nb where "running_with ?k (m\<lparr>nm_activeReservation := Some rid\<rparr>) nb (pl_engine ?p1)"
      by (rule startRun_node [OF a st [unfolded Inr]]) (auto simp: running_with_def)
    then have "staged execute_summary h repo ?k (xo_verification opts) (and_then (createWorktree h repo ?k None)
        (\<lambda>w. finally_do (execute_in h repo opts w) (ignoring (removeWorktree h repo w))) ?p1)"
    proof (rule staged_running [rotated])
      fix w and q :: "'a pipeline" and m nb
      assume "running_with ?k (m\<lparr>nm_activeReservation := Some rid\<rparr>) nb (pl_engine q)"
      then have "staged execute_summary h repo ?k (xo_verification opts) (execute_in h repo opts w q)" by (rule execute_in_staged [OF assms(3)])
      then show "staged execute_summary h repo ?k (xo_verification opts) (finally_do (execute_in h repo opts w) (ignoring (removeWorktree h repo w)) q)"
        by (auto simp: staged_def finally_do_def split: prod.splits
            intro!: stage_ok_quiet quiet_ignoring quiet_repo assms(3))
    qed (intro norns_inv assms(3))
    with st Inr assms(4) have "staged execute_summary h repo ?k (xo_verification opts) (r, p')"
      by (simp add: executeNode_def and_then_def on_engine_def)
    then show ?thesis
      by (cases "(h, repo, ?k, xo_verification opts, map_sum id execute_summary r, pl_engine p')" rule: stage_ok.cases;
          cases r)
         (auto simp: staged_def node_is_def settled_as_def execute_summary_def split: if_splits)
  qed
qed

text \<open>Evaluation unfolds an operation only when it is given its state.\<close>

lemmas pipeline_code [code] = collect_each.simps [THEN fun_cong] run_git_def [THEN fun_cong]
  git_def [THEN fun_cong] createWorktree_def [THEN fun_cong] removeWorktree_def [THEN fun_cong]
  deleteBranch_def [THEN fun_cong] headOf_def [THEN fun_cong] verify_command_def [THEN fun_cong]
  runVerification_def [THEN fun_cong] fail_run_def [THEN fun_cong] verify_run_def [THEN fun_cong]
  execute_in_def [THEN fun_cong] executeNode_def [THEN fun_cong]

text \<open>A host whose runtime completes, whose git always answers \<open>abc1234\<close> and where \<^verbatim>\<open>false\<close> fails.\<close>

definition calm_host :: "unit host" where
  "calm_host =
     \<lparr>h_exec = (\<lambda>c g. (if ex_program c = ''sh'' \<and> ex_args c = [''-c'', ''false''] then Inl ''exit 1'' else Inr (''abc1234 '', []), g)),
      h_run = (\<lambda>q g. (Inr \<lparr>rr_outcome = RO_completed, rr_detail = ''done''\<rparr>, g)),
      h_realpath = (\<lambda>path g. (Inr path, g)), h_newId = (\<lambda>pre g. (Inr (pre @ ''_1''), g)), h_now = (\<lambda>g. 7),
      h_sha256 = (\<lambda>s. s), h_others = (\<lambda>g. [EC_disengageKillSwitch])\<rparr>"

definition lost_host :: "unit host" where
  "lost_host = calm_host\<lparr>h_exec := (\<lambda>c g. (Inl ''fatal: a branch already exists'', g))\<rparr>"

definition sample_repo :: local_git_repo where
  "sample_repo = \<lparr>lr_repoDir = ''/r'', lr_projectSlug = ''p'', lr_worktreesDir = ''/w''\<rparr>"

definition sample_options :: "string list \<Rightarrow> execute_options" where
  "sample_options cmds = \<lparr>xo_nodeId = ''a'', xo_prompt = ''go'', xo_maxChargeUsd = 6,
     xo_verification = \<lparr>vp_required = [''true''], vp_module = cmds\<rparr>, xo_actualUsd = None\<rparr>"

definition assigned_pipeline :: "unit pipeline" where
  "assigned_pipeline = \<lparr>pl_engine = assigned_engine, pl_graph = None, pl_escalated = [], pl_host = ()\<rparr>"

lemma calm_host_isolated: "isolated calm_host ''a''"
  by (simp add: isolated_def calm_host_def foreign_def)

theorem executeNode_truthful_witness:
  "\<exists>res p'. executeNode calm_host sample_repo (sample_options [''lint'']) assigned_pipeline = (Inr res, p')
     \<and> xr_outcome res = XO_in_review \<and> node_state_of (pl_engine p') ''a'' = N_in_review
     \<and> verified_by calm_host sample_repo ''a'' \<lparr>vp_required = [''true''], vp_module = [''lint'']\<rparr>
         (xr_commit res) (xr_verification res)"
proof -
  let ?r = "executeNode calm_host sample_repo (sample_options [''lint'']) assigned_pipeline"
  have run: "engine_run sample_plan sample_ledger (take 5 sample_calls) (pl_engine assigned_pipeline)"
    "node_state_of (pl_engine assigned_pipeline) (xo_nodeId (sample_options [''lint''])) = N_assigned"
    "isolated calm_host (xo_nodeId (sample_options [''lint'']))"
    using assigned_run assigned_meta(2) calm_host_isolated by (simp_all add: assigned_pipeline_def sample_options_def)
  have run_ok: "case fst ?r of Inr res \<Rightarrow> xr_outcome res = XO_in_review | Inl e \<Rightarrow> False" by code_simp
  then have out: "xr_outcome (projr (fst ?r)) = XO_in_review" by (cases "fst ?r") simp_all
  have eq: "?r = (Inr (projr (fst ?r)), snd ?r)" using run_ok by (cases ?r; cases "fst ?r") simp_all
  from executeNode_truthful [OF run eq] out eq show ?thesis
    by (auto simp: sample_options_def)
qed

lemma failing_command_fails_node:
  "\<exists>res p'. executeNode calm_host sample_repo (sample_options [''false'', ''lint'']) assigned_pipeline = (Inr res, p')
     \<and> xr_outcome res = XO_failed \<and> map vr_passed (xr_verification res) = [True, False, True]"
proof -
  let ?r = "executeNode calm_host sample_repo (sample_options [''false'', ''lint'']) assigned_pipeline"
  have "case fst ?r of Inr res \<Rightarrow> xr_outcome res = XO_failed \<and> map vr_passed (xr_verification res) = [True, False, True]
      | Inl e \<Rightarrow> False" by code_simp
  then show ?thesis by (cases ?r; cases "fst ?r") auto
qed

text \<open>
  When the worktree cannot be created the run has already been started: the node stays running with
  the whole charge reserved, and running it again is refused by the transition table.
\<close>

lemma rejected_worktree_leaves_running:
  "let (r, p) = executeNode lost_host sample_repo (sample_options []) assigned_pipeline;
       (r', p') = executeNode calm_host sample_repo (sample_options []\<lparr>xo_maxChargeUsd := 1\<rparr>) p
   in isl r \<and> node_state_of (pl_engine p) ''a'' = N_running \<and> projectActiveUsd (en_budget (pl_engine p)) = 6
      \<and> isl r' \<and> node_state_of (pl_engine p') ''a'' = N_running"
  by code_simp

end
