(* ===== verification/Coordination.thy ===== *)
theory Coordination
  imports Node_Execution
begin

section \<open>Several workers on one node\<close>

text \<open>
  \<^verbatim>\<open>apps/server/src/engine/coordination.ts\<close>: a module lead splits a node into work units; each worker
  runs in its own worktree on its own branch, once more from a fresh one when it failed; the lead
  merges the branches in order and the node is verified as in theory \<^verbatim>\<open>Node_Execution\<close>.

  \<^verbatim>\<open>Promise.all\<close> runs the workers concurrently. Workers share no state of the server, only the host,
  and the host is arbitrary: every list of answers that some interleaving of their operations can
  get is also one that a host gives when the workers are asked one after the other. The model asks them
  in order. When workers reject, \<^verbatim>\<open>Promise.all\<close> rejects with the rejection that comes first in time,
  which the order of the list does not tell: \<open>race\<close>, a parameter of the operations, picks it among the
  rejections. The workers that are still running then go on in the background; all that they
  touch is the host, so in the model they end before the rejection is seen.
\<close>

record worker_spec =
  ws_worker :: int
  ws_prompt :: string

record 'g multi_options =
  mo_nodeId :: ident
  mo_module :: plan_module
  mo_split :: "plan_module \<Rightarrow> worker_spec list"
  mo_runtimeFor :: "worker_spec \<Rightarrow> run_request \<Rightarrow> 'g \<Rightarrow> (string + run_result) \<times> 'g"
  mo_maxChargeUsd :: usd
  mo_verification :: verification_plan
  mo_actualUsd :: "usd option"
  mo_workerCap :: "nat option"
  mo_onEscalate :: bool

record multi_result =
  mr_outcome :: execute_outcome
  mr_branch :: string
  mr_commit :: "string option"
  mr_workerBranches :: "string list"
  mr_attempts :: "(int, nat) jmap"
  mr_verification :: "verification_result list"

record worker_outcome =
  wo_spec :: worker_spec
  wo_branch :: string
  wo_succeeded :: bool
  wo_attempts :: nat
  wo_detail :: string

definition attempt_worker ::
    "'g host \<Rightarrow> local_git_repo \<Rightarrow> 'g multi_options \<Rightarrow> worker_spec \<Rightarrow> nat \<Rightarrow> ('g, run_result) piped" where
  "attempt_worker h repo opts spec attempt =
     and_then (deleteBranch h repo (branchFor repo (mo_nodeId opts) (Some (ws_worker spec)))) (\<lambda>_.
     and_then (createWorktree h repo (mo_nodeId opts) (Some (ws_worker spec))) (\<lambda>worktree.
     finally_do
       (awaiting h (mo_runtimeFor opts spec
          \<lparr>rq_runId = ''run_'' @ mo_nodeId opts @ ''_w'' @ int_str (ws_worker spec) @ ''_a'' @ dec attempt,
           rq_worktreePath = wh_path worktree, rq_prompt = ws_prompt spec\<rparr>))
       (ignoring (removeWorktree h repo worktree))))"

fun worker_attempts ::
    "'g host \<Rightarrow> local_git_repo \<Rightarrow> 'g multi_options \<Rightarrow> worker_spec \<Rightarrow> nat list \<Rightarrow> string \<Rightarrow> ('g, worker_outcome) piped" where
  "worker_attempts h repo opts spec [] detail =
     returning \<lparr>wo_spec = spec, wo_branch = branchFor repo (mo_nodeId opts) (Some (ws_worker spec)),
                wo_succeeded = False, wo_attempts = 2, wo_detail = detail\<rparr>"
| "worker_attempts h repo opts spec (attempt # attempts) detail =
     and_then (attempt_worker h repo opts spec attempt) (\<lambda>result.
     if rr_outcome result = RO_completed then
       returning \<lparr>wo_spec = spec, wo_branch = branchFor repo (mo_nodeId opts) (Some (ws_worker spec)),
                  wo_succeeded = True, wo_attempts = attempt, wo_detail = rr_detail result\<rparr>
     else worker_attempts h repo opts spec attempts (rr_detail result))"

definition runWorkerWithRetry ::
    "'g host \<Rightarrow> local_git_repo \<Rightarrow> 'g multi_options \<Rightarrow> worker_spec \<Rightarrow> ('g, worker_outcome) piped" where
  "runWorkerWithRetry h repo opts spec = worker_attempts h repo opts spec [1, 2] []"

definition all_settled :: "nat \<Rightarrow> ('e + 'a) list \<Rightarrow> ('s, 'e, 'a list) action" where
  "all_settled race rs =
     (let rejections = filter isl rs in
      if rejections = [] then returning (map projr rs)
      else throwing (projl (rejections ! (race mod length rejections))))"

definition run_workers ::
    "'g host \<Rightarrow> nat \<Rightarrow> local_git_repo \<Rightarrow> 'g multi_options \<Rightarrow> worker_spec list \<Rightarrow> ('g, worker_outcome list) piped" where
  "run_workers h race repo opts specs =
     and_then (collect_each specs (\<lambda>spec. attempting (runWorkerWithRetry h repo opts spec))) (all_settled race)"

subsection \<open>Assembly\<close>

datatype assembly = AS_ok string string | AS_conflict "string list"

definition conflict_files :: "string \<Rightarrow> string list" where
  "conflict_files stdout = filter nonempty_str (split_on (CHR 0x0A) (js_trim stdout))"

fun merge_branches ::
    "'g host \<Rightarrow> worktree_handle \<Rightarrow> string list \<Rightarrow> ('g, assembly) piped" where
  "merge_branches h worktree [] =
     and_then (run_git h (Some ''norns-lead'') (wh_path worktree) [''rev-parse'', ''HEAD'']) (\<lambda>stdout.
     returning (AS_ok (js_trim stdout) (wh_branch worktree)))"
| "merge_branches h worktree (branch # branches) =
     and_then (attempting (run_git h (Some ''norns-lead'') (wh_path worktree)
                [''merge'', ''--no-ff'', ''-m'', ''assemble '' @ branch, branch])) (\<lambda>merged.
     if isl merged then
       and_then (run_git h (Some ''norns-lead'') (wh_path worktree)
                  [''diff'', ''--name-only'', ''--diff-filter=U'']) (\<lambda>stdout.
       and_then (ignoring (run_git h (Some ''norns-lead'') (wh_path worktree) [''merge'', ''--abort''])) (\<lambda>_.
       returning (AS_conflict (conflict_files stdout))))
     else merge_branches h worktree branches)"

definition assemble :: "'g host \<Rightarrow> local_git_repo \<Rightarrow> ident \<Rightarrow> string list \<Rightarrow> ('g, assembly) piped" where
  "assemble h repo nodeId workerBranches =
     and_then (createWorktree h repo nodeId None) (\<lambda>worktree.
     finally_do (merge_branches h worktree workerBranches) (ignoring (removeWorktree h repo worktree)))"

subsection \<open>The node\<close>

definition escalate :: "bool \<Rightarrow> ident \<Rightarrow> string \<Rightarrow> ('g, unit) piped" where
  "escalate wanted nodeId reason =
     (if wanted then modifying (\<lambda>p. p\<lparr>pl_escalated := pl_escalated p @ [(nodeId, reason)]\<rparr>) else returning ())"

definition attempts_of :: "worker_outcome list \<Rightarrow> (int, nat) jmap" where
  "attempts_of outcomes = fold (\<lambda>w. jset (ws_worker (wo_spec w)) (wo_attempts w)) outcomes []"

definition fail_node ::
    "local_git_repo \<Rightarrow> 'g multi_options \<Rightarrow> worker_outcome list \<Rightarrow> string \<Rightarrow> ('g, multi_result) piped" where
  "fail_node repo opts outcomes reason =
     and_then (fail_run (mo_nodeId opts) (or_else (mo_actualUsd opts) 0)) (\<lambda>_.
     and_then (escalate (mo_onEscalate opts) (mo_nodeId opts) reason) (\<lambda>_.
     returning \<lparr>mr_outcome = XO_failed, mr_branch = branchFor repo (mo_nodeId opts) None, mr_commit = None,
                mr_workerBranches = map wo_branch outcomes,
                mr_attempts = attempts_of outcomes,
                mr_verification = []\<rparr>))"

definition verify_node ::
    "'g host \<Rightarrow> local_git_repo \<Rightarrow> 'g multi_options \<Rightarrow> worker_outcome list \<Rightarrow> string \<Rightarrow> string \<Rightarrow> ('g, multi_result) piped" where
  "verify_node h repo opts outcomes commit branch =
     and_then (verify_run h repo (mo_nodeId opts) (or_else (mo_actualUsd opts) (mo_maxChargeUsd opts / 2))
                commit (''run_'' @ mo_nodeId opts @ ''_assembled'') (mo_verification opts)) (\<lambda>(allPassed, verification).
     returning \<lparr>mr_outcome = (if allPassed then XO_in_review else XO_failed), mr_branch = branch,
                mr_commit = Some commit, mr_workerBranches = map wo_branch outcomes,
                mr_attempts = attempts_of outcomes,
                mr_verification = verification\<rparr>)"

definition worker_failure :: "worker_outcome \<Rightarrow> string" where
  "worker_failure w =
     ''worker '' @ int_str (ws_worker (wo_spec w)) @ '' failed after '' @ dec (wo_attempts w) @ '' attempts: '' @
       take 300 (wo_detail w)"

definition assembly_conflict :: "string list \<Rightarrow> string" where
  "assembly_conflict files = ''lead assembly conflict on ['' @ join '', '' files @ '']''"

definition finish_node ::
    "'g host \<Rightarrow> local_git_repo \<Rightarrow> 'g multi_options \<Rightarrow> worker_outcome list \<Rightarrow> ('g, multi_result) piped" where
  "finish_node h repo opts outcomes =
     (case List.find (\<lambda>w. \<not> wo_succeeded w) outcomes of
        Some failedWorker \<Rightarrow> fail_node repo opts outcomes (worker_failure failedWorker)
      | None \<Rightarrow>
          and_then (assemble h repo (mo_nodeId opts) (map wo_branch outcomes)) (\<lambda>assembly.
          case assembly of
            AS_conflict files \<Rightarrow> fail_node repo opts outcomes (assembly_conflict files)
          | AS_ok commit branch \<Rightarrow> verify_node h repo opts outcomes commit branch))"

definition executeMultiWorkerNode ::
    "'g host \<Rightarrow> nat \<Rightarrow> local_git_repo \<Rightarrow> 'g multi_options \<Rightarrow> ('g, multi_result) piped" where
  "executeMultiWorkerNode h race repo opts =
     (let cap = or_else (mo_workerCap opts) 2; specs = mo_split opts (mo_module opts) in
      and_then (guarding (\<lambda>_. specs \<noteq> [] \<and> length specs \<le> cap) (\<lambda>_. PE_work_units (length specs) cap)) (\<lambda>_.
      and_then (on_engine (startRun (mo_nodeId opts) (mo_maxChargeUsd opts))) (\<lambda>_.
      and_then (run_workers h race repo opts specs) (finish_node h repo opts))))"

subsection \<open>The node follows the result\<close>

lemma quiet_if [norns_inv]: "quiet k a \<Longrightarrow> quiet k b \<Longrightarrow> quiet k (if c then a else b)"
  by simp

lemma quiet_worker [norns_inv]:
  assumes "isolated h k"
  shows "quiet k (attempt_worker h repo opts spec n)"
    and "quiet k (worker_attempts h repo opts spec ns detail)"
    and "quiet k (runWorkerWithRetry h repo opts spec)"
    and "quiet k (merge_branches h t bs)"
    and "quiet k (assemble h repo n' bs)"
proof -
  show a: "quiet k (attempt_worker h repo opts spec n)" for n
    unfolding attempt_worker_def deleteBranch_def by (intro norns_inv assms)
  show w: "quiet k (worker_attempts h repo opts spec ns detail)" for ns detail
    by (induction ns arbitrary: detail) (simp_all only: worker_attempts.simps quiet_returning quiet_and_then quiet_if a)
  show "quiet k (runWorkerWithRetry h repo opts spec)"
    unfolding runWorkerWithRetry_def by (rule w)
  show m: "quiet k (merge_branches h t bs)" for t bs
    by (induction bs)
       (auto simp only: merge_branches.simps intro!: norns_inv assms)
  show "quiet k (assemble h repo n' bs)"
    unfolding assemble_def by (intro norns_inv assms m)
qed

lemma attempting_Inr: "attempting act s = (Inr r, t) \<longleftrightarrow> act s = (r, t)"
  by (auto simp: attempting_def split: prod.splits)

subsection \<open>What the host did\<close>

text \<open>
  The calls that a result rests on, as a chain of host states: the call of git, the fresh worktree
  of an attempt, one attempt, and a work unit with the number of its attempts and whether the last
  one completed.
\<close>

definition git_call :: "string \<Rightarrow> string \<Rightarrow> string list \<Rightarrow> exec_call" where
  "git_call author cwd args =
     \<lparr>ex_program = ''git'', ex_args = args, ex_cwd = cwd, ex_author = Some author, ex_timeout = None\<rparr>"

definition worktree_added ::
    "'g host \<Rightarrow> local_git_repo \<Rightarrow> ident \<Rightarrow> int option \<Rightarrow> string \<Rightarrow> 'g \<Rightarrow> 'g \<Rightarrow> bool" where
  "worktree_added h repo k worker wt g g' \<longleftrightarrow>
     (\<exists>path out g1.
        path = path_join (lr_worktreesDir repo) (slashes_doubled (branchFor repo k worker)) \<and>
        h_exec h (git_call ''norns'' (lr_repoDir repo)
          [''worktree'', ''add'', ''-b'', branchFor repo k worker, path, ''main'']) g = (Inr out, g1) \<and>
        h_realpath h path g1 = (Inr wt, g'))"

definition attempt_ran ::
    "'g host \<Rightarrow> local_git_repo \<Rightarrow> 'g multi_options \<Rightarrow> worker_spec \<Rightarrow> nat \<Rightarrow> 'g \<Rightarrow> bool \<Rightarrow> 'g \<Rightarrow> bool" where
  "attempt_ran h repo opts spec n g completed g' \<longleftrightarrow>
     (\<exists>x g1 wt g2 result g3 y.
        h_exec h (git_call ''norns'' (lr_repoDir repo)
          [''branch'', ''-D'', branchFor repo (mo_nodeId opts) (Some (ws_worker spec))]) g = (x, g1) \<and>
        worktree_added h repo (mo_nodeId opts) (Some (ws_worker spec)) wt g1 g2 \<and>
        mo_runtimeFor opts spec
          \<lparr>rq_runId = ''run_'' @ mo_nodeId opts @ ''_w'' @ int_str (ws_worker spec) @ ''_a'' @ dec n,
           rq_worktreePath = wt, rq_prompt = ws_prompt spec\<rparr> g2 = (Inr result, g3) \<and>
        completed = (rr_outcome result = RO_completed) \<and>
        h_exec h (git_call ''norns'' (lr_repoDir repo) [''worktree'', ''remove'', ''--force'', wt]) g3 = (y, g'))"

definition unit_ran ::
    "'g host \<Rightarrow> local_git_repo \<Rightarrow> 'g multi_options \<Rightarrow> worker_spec \<Rightarrow> nat \<Rightarrow> bool \<Rightarrow> 'g \<Rightarrow> 'g \<Rightarrow> bool" where
  "unit_ran h repo opts spec n succeeded g g' \<longleftrightarrow>
     n = 1 \<and> succeeded \<and> attempt_ran h repo opts spec 1 g True g' \<or>
     n = 2 \<and> (\<exists>g1. attempt_ran h repo opts spec 1 g False g1 \<and> attempt_ran h repo opts spec 2 g1 succeeded g')"

fun units_ran ::
    "'g host \<Rightarrow> local_git_repo \<Rightarrow> 'g multi_options \<Rightarrow> worker_spec list \<Rightarrow> (nat \<times> bool) list \<Rightarrow> 'g \<Rightarrow> 'g \<Rightarrow> bool" where
  "units_ran h repo opts [] [] g g' \<longleftrightarrow> g' = g"
| "units_ran h repo opts (spec # specs) ((n, succeeded) # us) g g' \<longleftrightarrow>
     (\<exists>g1. unit_ran h repo opts spec n succeeded g g1 \<and> units_ran h repo opts specs us g1 g')"
| "units_ran h repo opts _ _ g g' \<longleftrightarrow> False"

text \<open>The assembly: all branches merged in order, or some branch that git refused to merge.\<close>

fun merges_ran :: "'g host \<Rightarrow> string \<Rightarrow> string list \<Rightarrow> 'g \<Rightarrow> 'g \<Rightarrow> bool" where
  "merges_ran h path [] g g' \<longleftrightarrow> g' = g"
| "merges_ran h path (branch # branches) g g' \<longleftrightarrow>
     (\<exists>out g1. h_exec h (git_call ''norns-lead'' path [''merge'', ''--no-ff'', ''-m'', ''assemble '' @ branch, branch]) g = (Inr out, g1)
        \<and> merges_ran h path branches g1 g')"

definition assembled :: "'g host \<Rightarrow> local_git_repo \<Rightarrow> ident \<Rightarrow> string list \<Rightarrow> string \<Rightarrow> 'g \<Rightarrow> bool" where
  "assembled h repo k branches commit g \<longleftrightarrow>
     (\<exists>wt g1 g2 out g3. worktree_added h repo k None wt g g1 \<and> merges_ran h wt branches g1 g2 \<and>
        h_exec h (git_call ''norns-lead'' wt [''rev-parse'', ''HEAD'']) g2 = (Inr out, g3) \<and>
        commit = js_trim (fst out))"

definition merge_refused :: "'g host \<Rightarrow> local_git_repo \<Rightarrow> ident \<Rightarrow> string list \<Rightarrow> 'g \<Rightarrow> bool" where
  "merge_refused h repo k branches g \<longleftrightarrow>
     (\<exists>wt g1 merged branch rest g2 e g3. worktree_added h repo k None wt g g1 \<and>
        branches = merged @ branch # rest \<and> merges_ran h wt merged g1 g2 \<and>
        h_exec h (git_call ''norns-lead'' wt [''merge'', ''--no-ff'', ''-m'', ''assemble '' @ branch, branch]) g2 = (Inl e, g3))"

text \<open>
  What a returned result says of the work units, given the host state \<open>g\<close> from which they ran: which
  attempts were made, what the branches became, and which evidence there is.
\<close>

definition attempts_table :: "worker_spec list \<Rightarrow> (nat \<times> bool) list \<Rightarrow> (int, nat) jmap" where
  "attempts_table specs us = fold (\<lambda>(spec, n, succeeded). jset (ws_worker spec) n) (zip specs us) []"

definition result_true ::
    "'g host \<Rightarrow> local_git_repo \<Rightarrow> 'g multi_options \<Rightarrow> worker_spec list \<Rightarrow> multi_result \<Rightarrow> 'g \<Rightarrow> bool" where
  "result_true h repo opts specs res g \<longleftrightarrow>
     (\<exists>us g'. units_ran h repo opts specs us g g' \<and>
        mr_workerBranches res = map (\<lambda>spec. branchFor repo (mo_nodeId opts) (Some (ws_worker spec))) specs \<and>
        mr_attempts res = attempts_table specs us \<and>
        mr_branch res = branchFor repo (mo_nodeId opts) None \<and>
        (case mr_commit res of
           None \<Rightarrow> mr_outcome res = XO_failed \<and> mr_verification res = [] \<and>
             ((\<exists>(n, succeeded) \<in> set us. \<not> succeeded) \<or>
              merge_refused h repo (mo_nodeId opts) (mr_workerBranches res) g')
         | Some commit \<Rightarrow> (\<forall>(n, succeeded) \<in> set us. succeeded) \<and>
             assembled h repo (mo_nodeId opts) (mr_workerBranches res) commit g' \<and>
             verified_by h repo (mo_nodeId opts) (mo_verification opts) (Some commit) (mr_verification res) \<and>
             (mr_outcome res = XO_in_review \<longleftrightarrow> list_all vr_passed (mr_verification res))))"

subsection \<open>What the operations report of it\<close>

lemma run_git_call:
  assumes "run_git h (Some author) cwd args p = (r, q)"
  shows "\<exists>x. h_exec h (git_call author cwd args) (pl_host p) = (x, pl_host q) \<and>
           (case r of Inr s \<Rightarrow> \<exists>err. x = Inr (s, err) | Inl _ \<Rightarrow> isl x)"
  using assms
  by (auto simp: run_git_def git_call_def and_then_def awaiting_def lift_host_def
      split: prod.splits sum.splits)

lemma git_call_ran: "git h cwd args p = (Inr s, q) \<Longrightarrow>
    \<exists>out. h_exec h (git_call ''norns'' cwd args) (pl_host p) = (Inr out, pl_host q) \<and> s = js_trim (fst out)"
  unfolding git_def and_then_Inr_iff by (auto dest!: run_git_call)

lemma git_host: "\<exists>x. h_exec h (git_call ''norns'' cwd args) (pl_host p) = (x, pl_host (snd (git h cwd args p)))"
proof -
  obtain r q where r: "run_git h (Some ''norns'') cwd args p = (r, q)" by fastforce
  with run_git_call [OF this] show ?thesis
    by (cases r) (auto simp: git_def)
qed

lemma createWorktree_ran:
  assumes "createWorktree h repo k w p = (Inr t, q)"
  shows "worktree_added h repo k w (wh_path t) (pl_host p) (pl_host q) \<and> wh_branch t = branchFor repo k w"
proof -
  let ?path = "path_join (lr_worktreesDir repo) (slashes_doubled (branchFor repo k w))"
  from assms obtain s u where g: "git h (lr_repoDir repo) [''worktree'', ''add'', ''-b'', branchFor repo k w, ?path, ''main''] p = (Inr s, u)"
    and r: "on_host (h_realpath h ?path) u = (Inr (wh_path t), q)" and b: "wh_branch t = branchFor repo k w"
    by (auto simp: createWorktree_def Let_def and_then_Inr_iff)
  from r have "h_realpath h ?path (pl_host u) = (Inr (wh_path t), pl_host q)"
    by (auto simp: on_host_def lift_host_def split: prod.splits sum.splits)
  with git_call_ran [OF g] b show ?thesis unfolding worktree_added_def by blast
qed

lemma deleteBranch_ran:
  "deleteBranch h repo b p = (r, q) \<Longrightarrow> r = Inr () \<and>
     (\<exists>x. h_exec h (git_call ''norns'' (lr_repoDir repo) [''branch'', ''-D'', b]) (pl_host p) = (x, pl_host q))"
  using git_host [of h "lr_repoDir repo" "[''branch'', ''-D'', b]" p] by (auto simp: deleteBranch_def ignoring_def)

lemma removeWorktree_ran:
  "\<exists>x. h_exec h (git_call ''norns'' (lr_repoDir repo) [''worktree'', ''remove'', ''--force'', wh_path t]) (pl_host p) =
     (x, pl_host (snd (ignoring (removeWorktree h repo t) p)))"
proof -
  let ?args = "[''worktree'', ''remove'', ''--force'', wh_path t]"
  have "snd (removeWorktree h repo t p) = snd (git h (lr_repoDir repo) ?args p)"
    by (auto simp: removeWorktree_def and_then_def split: prod.split sum.split)
  with git_host [of h "lr_repoDir repo" ?args p] show ?thesis by (simp add: ignoring_def)
qed

lemma awaiting_host: "awaiting h act p = (Inr a, q) \<Longrightarrow> act (pl_host p) = (Inr a, pl_host q)"
  by (auto simp: awaiting_def lift_host_def split: prod.splits sum.splits)

lemma attempt_worker_ran:
  assumes "attempt_worker h repo opts spec n p = (Inr result, q)"
  shows "attempt_ran h repo opts spec n (pl_host p) (rr_outcome result = RO_completed) (pl_host q)"
proof -
  let ?b = "branchFor repo (mo_nodeId opts) (Some (ws_worker spec))"
  from assms obtain u t v w where d: "deleteBranch h repo ?b p = (Inr (), u)"
    and c: "createWorktree h repo (mo_nodeId opts) (Some (ws_worker spec)) u = (Inr t, v)"
    and a: "awaiting h (mo_runtimeFor opts spec
          \<lparr>rq_runId = ''run_'' @ mo_nodeId opts @ ''_w'' @ int_str (ws_worker spec) @ ''_a'' @ dec n,
           rq_worktreePath = wh_path t, rq_prompt = ws_prompt spec\<rparr>) v = (Inr result, w)"
    and q: "q = snd (ignoring (removeWorktree h repo t) w)"
    by (auto simp: attempt_worker_def and_then_Inr_iff finally_do_iff)
  from deleteBranch_ran [OF d] createWorktree_ran [OF c] awaiting_host [OF a] removeWorktree_ran [of h repo t w]
  show ?thesis unfolding attempt_ran_def q by blast
qed

text \<open>What a worker reports.\<close>

definition worker_report ::
    "'g host \<Rightarrow> local_git_repo \<Rightarrow> 'g multi_options \<Rightarrow> worker_spec \<Rightarrow> worker_outcome \<Rightarrow> 'g \<Rightarrow> 'g \<Rightarrow> bool" where
  "worker_report h repo opts spec w g g' \<longleftrightarrow>
     wo_spec w = spec \<and> wo_branch w = branchFor repo (mo_nodeId opts) (Some (ws_worker spec)) \<and>
     unit_ran h repo opts spec (wo_attempts w) (wo_succeeded w) g g'"

lemma runWorkerWithRetry_report:
  assumes "runWorkerWithRetry h repo opts spec p = (Inr w, q)"
  shows "worker_report h repo opts spec w (pl_host p) (pl_host q)"
proof -
  from assms obtain r u where a: "attempt_worker h repo opts spec 1 p = (Inr r, u)"
    and rest: "(if rr_outcome r = RO_completed then
        returning \<lparr>wo_spec = spec, wo_branch = branchFor repo (mo_nodeId opts) (Some (ws_worker spec)),
                   wo_succeeded = True, wo_attempts = 1, wo_detail = rr_detail r\<rparr>
      else worker_attempts h repo opts spec [2] (rr_detail r)) u = (Inr w, q)"
    by (auto simp: runWorkerWithRetry_def and_then_Inr_iff simp del: One_nat_def)
  note first = attempt_worker_ran [OF a]
  show ?thesis
  proof (cases "rr_outcome r = RO_completed")
    case True
    with rest first show ?thesis by (auto simp: worker_report_def unit_ran_def)
  next
    case False
    with rest obtain r' v where a': "attempt_worker h repo opts spec 2 u = (Inr r', v)"
      and "v = q" "wo_spec w = spec" "wo_branch w = branchFor repo (mo_nodeId opts) (Some (ws_worker spec))"
        "wo_attempts w = 2" "wo_succeeded w \<longleftrightarrow> rr_outcome r' = RO_completed"
      by (auto simp: and_then_Inr_iff split: if_splits)
    with first False attempt_worker_ran [OF a'] show ?thesis
      unfolding worker_report_def unit_ran_def by auto
  qed
qed

fun reported :: "worker_outcome list \<Rightarrow> (nat \<times> bool) list" where
  "reported [] = []"
| "reported (w # ws) = (wo_attempts w, wo_succeeded w) # reported ws"

lemma collect_workers_report:
  assumes "collect_each specs (\<lambda>spec. attempting (runWorkerWithRetry h repo opts spec)) p = (Inr rs, q)"
    and "list_all (\<lambda>r. \<not> isl r) rs"
  shows "units_ran h repo opts specs (reported (map projr rs)) (pl_host p) (pl_host q) \<and>
    map wo_spec (map projr rs) = specs \<and>
    map wo_branch (map projr rs) = map (\<lambda>spec. branchFor repo (mo_nodeId opts) (Some (ws_worker spec))) specs"
  using assms
proof (induction specs arbitrary: p rs)
  case (Cons spec specs)
  then obtain r u rs' where r: "runWorkerWithRetry h repo opts spec p = (r, u)" and rs: "rs = r # rs'"
    and c: "collect_each specs (\<lambda>spec. attempting (runWorkerWithRetry h repo opts spec)) u = (Inr rs', q)"
    by (auto simp: and_then_Inr_iff attempting_Inr)
  from Cons.prems(2) rs obtain w where w: "r = Inr w" by (cases r) auto
  from runWorkerWithRetry_report [OF r [unfolded w]] Cons.IH [OF c] Cons.prems(2) show ?case
    by (auto simp: rs w worker_report_def)
qed simp

lemma run_workers_report:
  assumes "run_workers h race repo opts specs p = (Inr outcomes, q)"
  shows "units_ran h repo opts specs (reported outcomes) (pl_host p) (pl_host q)"
    and "map wo_spec outcomes = specs"
    and "map wo_branch outcomes = map (\<lambda>spec. branchFor repo (mo_nodeId opts) (Some (ws_worker spec))) specs"
proof -
  from assms obtain rs u where c: "collect_each specs (\<lambda>spec. attempting (runWorkerWithRetry h repo opts spec)) p = (Inr rs, u)"
    and all: "all_settled race rs u = (Inr outcomes, q)"
    by (auto simp: run_workers_def and_then_Inr_iff)
  from all have "list_all (\<lambda>r. \<not> isl r) rs" "outcomes = map projr rs" "q = u"
    by (auto simp: all_settled_def Let_def list_all_iff filter_empty_conv split: if_splits)
  with collect_workers_report [OF c]
  show "units_ran h repo opts specs (reported outcomes) (pl_host p) (pl_host q)" "map wo_spec outcomes = specs"
    "map wo_branch outcomes = map (\<lambda>spec. branchFor repo (mo_nodeId opts) (Some (ws_worker spec))) specs"
    by simp_all
qed

definition multi_summary :: "multi_result \<Rightarrow> run_summary" where
  "multi_summary res = (mr_outcome res = XO_in_review, mr_commit res, mr_verification res)"

lemma all_settled_state: "snd (all_settled race rs p) = p"
  by (simp add: all_settled_def Let_def)

lemma all_settled_rejects:
  assumes "fst (all_settled race rs p) = Inl e"
  obtains r where "r \<in> set rs" "isl r" "e = projl r"
proof -
  let ?es = "filter isl rs"
  from assms have es: "?es \<noteq> []" and e: "e = projl (?es ! (race mod length ?es))"
    by (auto simp: all_settled_def Let_def split: if_splits)
  from es have "?es ! (race mod length ?es) \<in> set ?es" by (intro nth_mem) simp
  with that e show thesis by auto
qed

lemma quiet_run_workers:
  assumes iso: "isolated h k"
  shows "quiet k (run_workers h race repo opts specs)"
proof -
  let ?each = "collect_each specs (\<lambda>spec. attempting (runWorkerWithRetry h repo opts spec))"
  have each: "quiet k ?each" by (intro norns_inv iso)
  have worker: "quiet k (runWorkerWithRetry h repo opts spec)" for spec by (intro norns_inv iso)
  show ?thesis
  proof (rule quietI)
    fix p :: "'a pipeline" and s m nb
    assume "s \<noteq> N_pending" "piped_is k s m nb p"
    from quiet_keeps [OF each this] show "piped_is k s m nb (snd (run_workers h race repo opts specs p))"
      by (auto simp: run_workers_def and_then_def all_settled_state split: prod.split sum.split)
  next
    fix p :: "'a pipeline" and e
    assume fails: "fst (run_workers h race repo opts specs p) = Inl e"
    obtain r q where c: "?each p = (r, q)" by fastforce
    show "\<exists>x. e = PE_host x"
    proof (cases r)
      case (Inl e')
      with fails c have "e' = e" by (simp add: run_workers_def)
      with quiet_error [OF each, of p e'] c Inl show ?thesis by simp
    next
      case (Inr rs)
      from c [unfolded Inr] have "list_all2 (\<lambda>spec r. \<forall>e. r = Inl e \<longrightarrow> (\<exists>x. e = PE_host x)) specs rs"
        by (rule collect_each_results) (auto simp: attempting_Inr, metis quiet_error [OF worker] fst_conv)
      moreover from fails c Inr obtain r where "r \<in> set rs" "isl r" "e = projl r"
        using all_settled_rejects [of race rs q e] by (auto simp: run_workers_def)
      ultimately show ?thesis by (auto simp: list_all2_conv_all_nth in_set_conv_nth isl_def)
    qed
  qed
qed

lemma fail_node_staged:
  assumes "running_with (mo_nodeId opts) m nb (pl_engine p)"
  shows "staged multi_summary h repo (mo_nodeId opts) plan (fail_node repo opts outcomes reason p)"
  unfolding fail_node_def
  by (rule fail_run_staged [OF assms])
     (simp add: staged_def escalate_def multi_summary_def and_then_def)

lemma verify_node_staged:
  assumes "isolated h (mo_nodeId opts)" "running_with (mo_nodeId opts) m nb (pl_engine p)"
  shows "staged multi_summary h repo (mo_nodeId opts) (mo_verification opts) (verify_node h repo opts outcomes commit branch p)"
  unfolding verify_node_def
  by (rule verify_run_staged [OF assms]) (auto simp: staged_def multi_summary_def)

lemma finish_node_staged:
  assumes "isolated h (mo_nodeId opts)" "running_with (mo_nodeId opts) m nb (pl_engine p)"
  shows "staged multi_summary h repo (mo_nodeId opts) (mo_verification opts) (finish_node h repo opts outcomes p)"
proof (cases "List.find (\<lambda>w. \<not> wo_succeeded w) outcomes")
  case None
  then show ?thesis
    by (simp add: finish_node_def, intro staged_running [OF _ assms(2)])
       (auto intro!: quiet_worker assms(1) fail_node_staged verify_node_staged split: assembly.split)
qed (simp add: finish_node_def fail_node_staged [OF assms(2)])

text \<open>The result of a run of the workers is true.\<close>

lemma merge_branches_ran:
  assumes "merge_branches h t bs p = (Inr res, q)"
  shows "case res of
       AS_ok commit branch \<Rightarrow> branch = wh_branch t \<and>
         (\<exists>g out g'. merges_ran h (wh_path t) bs (pl_host p) g \<and>
            h_exec h (git_call ''norns-lead'' (wh_path t) [''rev-parse'', ''HEAD'']) g = (Inr out, g') \<and> commit = js_trim (fst out))
     | AS_conflict files \<Rightarrow>
         (\<exists>merged b rest g e g'. bs = merged @ b # rest \<and> merges_ran h (wh_path t) merged (pl_host p) g \<and>
            h_exec h (git_call ''norns-lead'' (wh_path t) [''merge'', ''--no-ff'', ''-m'', ''assemble '' @ b, b]) g = (Inl e, g'))"
  using assms
proof (induction bs arbitrary: p)
  case Nil
  then obtain s where "run_git h (Some ''norns-lead'') (wh_path t) [''rev-parse'', ''HEAD''] p = (Inr s, q)"
    "res = AS_ok (js_trim s) (wh_branch t)" by (auto simp: and_then_Inr_iff)
  with run_git_call [OF this(1)] show ?case by auto
next
  case (Cons b bs)
  let ?call = "git_call ''norns-lead'' (wh_path t) [''merge'', ''--no-ff'', ''-m'', ''assemble '' @ b, b]"
  from Cons.prems obtain m u where
    m: "run_git h (Some ''norns-lead'') (wh_path t) [''merge'', ''--no-ff'', ''-m'', ''assemble '' @ b, b] p = (m, u)"
    and rest: "(if isl m then
       and_then (run_git h (Some ''norns-lead'') (wh_path t) [''diff'', ''--name-only'', ''--diff-filter=U'']) (\<lambda>stdout.
       and_then (ignoring (run_git h (Some ''norns-lead'') (wh_path t) [''merge'', ''--abort''])) (\<lambda>_.
       returning (AS_conflict (conflict_files stdout))))
     else merge_branches h t bs) u = (Inr res, q)"
    by (auto simp: and_then_Inr_iff attempting_Inr)
  show ?case
  proof (cases m)
    case (Inl e)
    with run_git_call [OF m] obtain x where x: "h_exec h ?call (pl_host p) = (Inl x, pl_host u)" by (auto simp: isl_def)
    from rest Inl obtain files where "res = AS_conflict files" by (auto simp: and_then_Inr_iff)
    moreover have "b # bs = [] @ b # bs" "merges_ran h (wh_path t) [] (pl_host p) (pl_host p)" by simp_all
    ultimately show ?thesis using x by (simp only: assembly.case) blast
  next
    case (Inr s)
    with run_git_call [OF m] obtain out where x: "h_exec h ?call (pl_host p) = (Inr out, pl_host u)" by auto
    from rest Inr have "merge_branches h t bs u = (Inr res, q)" by simp
    note IH = Cons.IH [OF this]
    show ?thesis
    proof (cases res)
      case (AS_ok commit branch)
      with IH x show ?thesis by auto
    next
      case (AS_conflict files)
      with IH obtain merged b' rest g e g' where "bs = merged @ b' # rest" "merges_ran h (wh_path t) merged (pl_host u) g"
        "h_exec h (git_call ''norns-lead'' (wh_path t) [''merge'', ''--no-ff'', ''-m'', ''assemble '' @ b', b']) g = (Inl e, g')"
        by auto
      moreover from this x have "b # bs = (b # merged) @ b' # rest" "merges_ran h (wh_path t) (b # merged) (pl_host p) g" by auto
      ultimately show ?thesis unfolding AS_conflict assembly.case by blast
    qed
  qed
qed

lemma assemble_ran:
  assumes "assemble h repo k bs p = (Inr res, q)"
  shows "case res of
       AS_ok commit branch \<Rightarrow> branch = branchFor repo k None \<and> assembled h repo k bs commit (pl_host p)
     | AS_conflict files \<Rightarrow> merge_refused h repo k bs (pl_host p)"
proof -
  from assms obtain t u v where c: "createWorktree h repo k None p = (Inr t, u)"
    and m: "merge_branches h t bs u = (Inr res, v)"
    by (auto simp: assemble_def and_then_Inr_iff finally_do_iff)
  show ?thesis
  proof (cases res)
    case (AS_ok commit branch)
    with createWorktree_ran [OF c] merge_branches_ran [OF m] show ?thesis
      unfolding assembled_def by (simp only: assembly.case) blast
  next
    case (AS_conflict files)
    with createWorktree_ran [OF c] merge_branches_ran [OF m] show ?thesis
      unfolding merge_refused_def by (simp only: assembly.case) blast
  qed
qed

lemma fail_node_result:
  "fail_node repo opts outcomes reason p = (Inr res, q) \<Longrightarrow>
     res = \<lparr>mr_outcome = XO_failed, mr_branch = branchFor repo (mo_nodeId opts) None, mr_commit = None,
            mr_workerBranches = map wo_branch outcomes, mr_attempts = attempts_of outcomes, mr_verification = []\<rparr>"
  by (auto simp: fail_node_def and_then_Inr_iff)

lemma verify_node_result:
  assumes "verify_node h repo opts outcomes commit branch p = (Inr res, q)"
  obtains vs where "verified_by h repo (mo_nodeId opts) (mo_verification opts) (Some commit) vs"
    "res = \<lparr>mr_outcome = (if list_all vr_passed vs then XO_in_review else XO_failed), mr_branch = branch,
            mr_commit = Some commit, mr_workerBranches = map wo_branch outcomes, mr_attempts = attempts_of outcomes,
            mr_verification = vs\<rparr>"
proof -
  from assms obtain vs u v where
    "runVerification h repo commit (mo_nodeId opts) (''run_'' @ mo_nodeId opts @ ''_assembled'') (mo_verification opts) u = (Inr vs, v)"
    and res: "res = \<lparr>mr_outcome = (if list_all vr_passed vs then XO_in_review else XO_failed), mr_branch = branch,
            mr_commit = Some commit, mr_workerBranches = map wo_branch outcomes, mr_attempts = attempts_of outcomes,
            mr_verification = vs\<rparr>"
    by (auto simp: verify_node_def verify_run_def and_then_Inr_iff Let_def)
  from runVerification_records [OF this(1)] have "verified_by h repo (mo_nodeId opts) (mo_verification opts) (Some commit) vs"
    unfolding verified_by_def by auto
  with that res show thesis by blast
qed

lemma attempts_of_reported: "attempts_of outcomes = attempts_table (map wo_spec outcomes) (reported outcomes)"
proof -
  have "fold (\<lambda>w. jset (ws_worker (wo_spec w)) (wo_attempts w)) ws acc =
      fold (\<lambda>(spec, n, succeeded). jset (ws_worker spec) n) (zip (map wo_spec ws) (reported ws)) acc" for ws acc
    by (induction ws arbitrary: acc) simp_all
  then show ?thesis by (simp add: attempts_of_def attempts_table_def)
qed

lemma reported_succeeded:
  "(\<forall>(n, succeeded) \<in> set (reported outcomes). succeeded) \<longleftrightarrow> List.find (\<lambda>w. \<not> wo_succeeded w) outcomes = None"
  "(\<exists>(n, succeeded) \<in> set (reported outcomes). \<not> succeeded) \<longleftrightarrow> List.find (\<lambda>w. \<not> wo_succeeded w) outcomes \<noteq> None"
  by (induction outcomes) auto

lemma workers_then_finish:
  assumes "run_workers h race repo opts specs p = (Inr outcomes, u)"
    and "finish_node h repo opts outcomes u = (Inr res, q)"
  shows "result_true h repo opts specs res (pl_host p)"
proof -
  note report = run_workers_report [OF assms(1)]
  have table: "attempts_of outcomes = attempts_table specs (reported outcomes)"
    using attempts_of_reported [of outcomes] report(2) by simp
  show ?thesis
  proof (cases "List.find (\<lambda>w. \<not> wo_succeeded w) outcomes")
    case (Some w)
    with assms(2) have "fail_node repo opts outcomes (worker_failure w) u = (Inr res, q)" by (simp add: finish_node_def)
    with fail_node_result [OF this] report table reported_succeeded(2) [of outcomes] Some show ?thesis
      unfolding result_true_def by (intro exI [of _ "reported outcomes"] exI [of _ "pl_host u"]) simp
  next
    case None
    with assms(2) obtain x v where a: "assemble h repo (mo_nodeId opts) (map wo_branch outcomes) u = (Inr x, v)"
      and f: "(case x of AS_conflict files \<Rightarrow> fail_node repo opts outcomes (assembly_conflict files)
        | AS_ok commit branch \<Rightarrow> verify_node h repo opts outcomes commit branch) v = (Inr res, q)"
      unfolding finish_node_def by (simp add: and_then_Inr_iff) blast
    show ?thesis
    proof (cases x)
      case (AS_conflict files)
      with f have "fail_node repo opts outcomes (assembly_conflict files) v = (Inr res, q)" by simp
      from fail_node_result [OF this] assemble_ran [OF a] AS_conflict report table show ?thesis
        unfolding result_true_def by (intro exI [of _ "reported outcomes"] exI [of _ "pl_host u"]) simp
    next
      case (AS_ok commit branch)
      with f have "verify_node h repo opts outcomes commit branch v = (Inr res, q)" by simp
      then obtain vs where vs: "verified_by h repo (mo_nodeId opts) (mo_verification opts) (Some commit) vs"
        and res: "res = \<lparr>mr_outcome = (if list_all vr_passed vs then XO_in_review else XO_failed), mr_branch = branch,
            mr_commit = Some commit, mr_workerBranches = map wo_branch outcomes, mr_attempts = attempts_of outcomes,
            mr_verification = vs\<rparr>" by (rule verify_node_result)
      from assemble_ran [OF a] AS_ok report table reported_succeeded(1) [of outcomes] None vs show ?thesis
        unfolding result_true_def res by (intro exI [of _ "reported outcomes"] exI [of _ "pl_host u"]) simp
    qed
  qed
qed


lemmas coordination_code [code] = attempt_worker_def [THEN fun_cong] worker_attempts.simps [THEN fun_cong]
  runWorkerWithRetry_def [THEN fun_cong] run_workers_def [THEN fun_cong] merge_branches.simps [THEN fun_cong]
  assemble_def [THEN fun_cong] escalate_def [THEN fun_cong] fail_node_def [THEN fun_cong]
  verify_node_def [THEN fun_cong] finish_node_def [THEN fun_cong] executeMultiWorkerNode_def [THEN fun_cong]

definition sample_multi :: "string list \<Rightarrow> unit multi_options" where
  "sample_multi prompts =
     \<lparr>mo_nodeId = ''a'', mo_module = mk_module ''a'' [],
      mo_split = (\<lambda>m. map (\<lambda>i. \<lparr>ws_worker = int i + 1, ws_prompt = prompts ! i\<rparr>) [0..<length prompts]),
      mo_runtimeFor = (\<lambda>spec q g. (Inr \<lparr>rr_outcome = (if ws_prompt spec = ''hard'' \<and> rq_runId q = ''run_a_w1_a1''
                                                  then RO_failed else RO_completed), rr_detail = ''d''\<rparr>, g)),
      mo_maxChargeUsd = 6, mo_verification = \<lparr>vp_required = [''true''], vp_module = []\<rparr>,
      mo_actualUsd = None, mo_workerCap = None, mo_onEscalate = True\<rparr>"

definition running_pipeline :: "unit pipeline" where
  "running_pipeline = assigned_pipeline\<lparr>pl_engine := snd (startRun ''a'' 6 assigned_engine)\<rparr>"

lemma sample_multi_split:
  "mo_split (sample_multi [''hard'']) (mo_module (sample_multi [''hard''])) = [\<lparr>ws_worker = 1, ws_prompt = ''hard''\<rparr>]"
  by (simp add: sample_multi_def)

lemma sample_multi_result:
  "executeMultiWorkerNode calm_host 0 sample_repo (sample_multi [''hard'']) assigned_pipeline =
     and_then (run_workers calm_host 0 sample_repo (sample_multi [''hard'']) [\<lparr>ws_worker = 1, ws_prompt = ''hard''\<rparr>])
       (finish_node calm_host sample_repo (sample_multi [''hard''])) running_pipeline"
proof -
  have "\<not> isl (fst (startRun ''a'' 6 assigned_engine))" by code_simp
  then obtain rid E where "startRun ''a'' 6 assigned_engine = (Inr rid, E)"
    by (metis isl_def sum.exhaust surjective_pairing)
  then have "on_engine (startRun ''a'' 6) assigned_pipeline = (Inr rid, running_pipeline)"
    by (simp add: on_engine_def running_pipeline_def assigned_pipeline_def)
  then have "on_engine (startRun (mo_nodeId (sample_multi [''hard''])) (mo_maxChargeUsd (sample_multi [''hard'']))) assigned_pipeline =
      (Inr rid, running_pipeline)"
    by (simp add: sample_multi_def)
  then show ?thesis
    unfolding executeMultiWorkerNode_def Let_def sample_multi_split
    by (simp add: guarding_apply or_else_def sample_multi_def)
qed


end
