(* ===== verification/Integration.thy ===== *)
theory Integration
  imports Coordination
begin

section \<open>Integration, conflict nodes and release\<close>

text \<open>
  \<^verbatim>\<open>apps/server/src/engine/integration.ts\<close>: merging the branch of a verified node into the integration
  branch, and the replacement of a node whose merge conflicts by a conflict-resolution node; and
  \<^verbatim>\<open>apps/server/src/engine/release.ts\<close>: the merge of the integration branch into main under a human
  approval of exactly its head. The host, the awaits and the errors are those of theory
  \<^verbatim>\<open>Node_Execution\<close>.
\<close>

subsection \<open>Merging a branch\<close>

datatype merge_result = MR_merged string | MR_conflict "string list"

definition integration_git :: "'g host \<Rightarrow> string \<Rightarrow> string list \<Rightarrow> ('g, string) piped" where
  "integration_git h cwd args = run_git h (Some ''norns-integration'') cwd args"

definition merge_in ::
    "'g host \<Rightarrow> string \<Rightarrow> string \<Rightarrow> ('g, merge_result) piped" where
  "merge_in h path branch =
     and_then (attempting (integration_git h path [''merge'', ''--no-ff'', ''-m'', ''integrate '' @ branch, branch])) (\<lambda>merged.
     if isl merged then
       and_then (integration_git h path [''diff'', ''--name-only'', ''--diff-filter=U'']) (\<lambda>stdout.
       and_then (ignoring (integration_git h path [''merge'', ''--abort''])) (\<lambda>_.
       returning (MR_conflict (conflict_files stdout))))
     else
       and_then (integration_git h path [''rev-parse'', ''HEAD'']) (\<lambda>stdout.
       returning (MR_merged (js_trim stdout))))"

definition integrateBranch ::
    "'g host \<Rightarrow> local_git_repo \<Rightarrow> string \<Rightarrow> ('g, merge_result) piped" where
  "integrateBranch h repo branch =
     and_then (ensureIntegrationBranch h repo) (\<lambda>integration.
     and_then (reading (\<lambda>p. lr_worktreesDir repo @ ''/integration-'' @ dec (h_now h (pl_host p)))) (\<lambda>path.
     and_then (integration_git h (lr_repoDir repo) [''worktree'', ''add'', path, integration]) (\<lambda>_.
     finally_do (merge_in h path branch)
       (ignoring (integration_git h (lr_repoDir repo) [''worktree'', ''remove'', ''--force'', path])))))"

subsection \<open>The conflict node\<close>

record conflict_node_spec =
  cn_conflictNodeId :: ident
  cn_rewiredDependents :: "ident list"

definition conflict_id :: "ident \<Rightarrow> ident" where
  "conflict_id nodeId = nodeId @ ''-conflict''"

fun rewire_each :: "ident \<Rightarrow> ident \<Rightarrow> ident list \<Rightarrow> (engine, engine_error, ident list) action" where
  "rewire_each nodeId conflictNodeId [] = returning []"
| "rewire_each nodeId conflictNodeId (candidate # candidates) =
     (if candidate = conflictNodeId then rewire_each nodeId conflictNodeId candidates
      else
        and_then (dependenciesOf candidate) (\<lambda>deps.
        if nodeId \<in> set deps then
          and_then (replaceDependency candidate nodeId conflictNodeId) (\<lambda>_.
          and_then (rewire_each nodeId conflictNodeId candidates) (\<lambda>rewired.
          returning (candidate # rewired)))
        else rewire_each nodeId conflictNodeId candidates))"

text \<open>The part on the engine returns the dependencies of the node and the rewired dependents.\<close>

definition spawn_in_engine :: "ident \<Rightarrow> (engine, engine_error, ident list \<times> ident list) action" where
  "spawn_in_engine nodeId =
     and_then (dependenciesOf nodeId) (\<lambda>dependencies.
     and_then (registerNode (conflict_id nodeId) dependencies) (\<lambda>_.
     and_then (reading nodeIds) (\<lambda>candidates.
     and_then (rewire_each nodeId (conflict_id nodeId) candidates) (\<lambda>rewired.
     and_then (supersede nodeId) (\<lambda>_.
     returning (dependencies, rewired))))))"

definition spawn_in_graph ::
    "ident \<Rightarrow> ident list \<Rightarrow> ident list \<Rightarrow> (workflow_graph, graph_edit_error, unit) action" where
  "spawn_in_graph nodeId dependencies rewired =
     and_then (addNode \<lparr>ni_id = conflict_id nodeId, ni_title = ''Conflict resolution: '' @ nodeId,
                        ni_complexity = None, ni_risk = None, ni_dependencies = Some dependencies\<rparr>) (\<lambda>_.
     for_each rewired (\<lambda>dependent.
       and_then (removeEdge nodeId dependent) (\<lambda>_. addEdge (conflict_id nodeId) dependent)))"

definition with_graph :: "(workflow_graph, graph_edit_error, unit) action \<Rightarrow> ('g, unit) piped" where
  "with_graph act p =
     (case pl_graph p of
        None \<Rightarrow> (Inr (), p)
      | Some g \<Rightarrow>
          (case act g of
             (Inl e, g') \<Rightarrow> (Inl (PE_graph e), p\<lparr>pl_graph := Some g'\<rparr>)
           | (Inr a, g') \<Rightarrow> (Inr (), p\<lparr>pl_graph := Some g'\<rparr>)))"

definition spawnConflictNode :: "ident \<Rightarrow> ('g, conflict_node_spec) piped" where
  "spawnConflictNode nodeId =
     and_then (on_engine (spawn_in_engine nodeId)) (\<lambda>(dependencies, rewired).
     and_then (with_graph (spawn_in_graph nodeId dependencies rewired)) (\<lambda>_.
     returning \<lparr>cn_conflictNodeId = conflict_id nodeId, cn_rewiredDependents = rewired\<rparr>))"

subsection \<open>Integrating a node\<close>

record integrate_options =
  io_nodeId :: ident
  io_branch :: string
  io_isConflictResolution :: bool
  io_humanConfirmed :: bool
  io_onEscalate :: bool

datatype integrate_result = IN_integrated string | IN_conflict conflict_node_spec

definition merge_conflict :: "string list \<Rightarrow> string" where
  "merge_conflict files = ''merge conflict on ['' @ join '', '' files @ '']: conflict-resolution node spawned''"

definition integrateNode ::
    "'g host \<Rightarrow> local_git_repo \<Rightarrow> integrate_options \<Rightarrow> ('g, integrate_result) piped" where
  "integrateNode h repo opts =
     (let nodeId = io_nodeId opts in
      and_then (guarding (\<lambda>_. \<not> (io_isConflictResolution opts \<and> \<not> io_humanConfirmed opts))
                 (\<lambda>_. PE_human_confirmation nodeId)) (\<lambda>_.
      and_then (integrateBranch h repo (io_branch opts)) (\<lambda>result.
      case result of
        MR_merged commit \<Rightarrow>
          and_then (on_engine (integrate nodeId)) (\<lambda>_. returning (IN_integrated commit))
      | MR_conflict files \<Rightarrow>
          and_then (on_engine (block nodeId BR_integration)) (\<lambda>_.
          and_then (escalate (io_onEscalate opts) nodeId (merge_conflict files)) (\<lambda>_.
          and_then (spawnConflictNode nodeId) (\<lambda>conflict. returning (IN_conflict conflict)))))))"

subsection \<open>The release gate\<close>

definition release_git :: "'g host \<Rightarrow> local_git_repo \<Rightarrow> string list \<Rightarrow> ('g, string) piped" where
  "release_git h repo args = run_git h (Some ''norns-release'') (lr_repoDir repo) args"

definition head_content_hash :: "'g host \<Rightarrow> string \<Rightarrow> string \<Rightarrow> string" where
  "head_content_hash h branch head = h_sha256 h (''merge:'' @ branch @ '':'' @ head)"

definition integrationHeadHash :: "'g host \<Rightarrow> local_git_repo \<Rightarrow> ('g, string) piped" where
  "integrationHeadHash h repo =
     and_then (release_git h repo [''rev-parse'', integrationBranch repo]) (\<lambda>stdout.
     returning (head_content_hash h (integrationBranch repo) (js_trim stdout)))"

text \<open>The two messages; the dash of the second is a single character in the source.\<close>

definition no_approval :: string where
  "no_approval = ''merging to main requires an explicit human merge approval''"

definition stale_approval :: string where
  "stale_approval = ''merge approval hash does not match the current integration HEAD -- re-review required''"

definition mergeIntegrationToMain ::
    "'g host \<Rightarrow> local_git_repo \<Rightarrow> approval option \<Rightarrow> ('g, string) piped" where
  "mergeIntegrationToMain h repo given =
     (case given of
        None \<Rightarrow> throwing (PE_merge_approval no_approval)
      | Some a \<Rightarrow>
          if ap_kind a \<noteq> AK_merge then throwing (PE_merge_approval no_approval)
          else
            and_then (integrationHeadHash h repo) (\<lambda>expected.
            if ap_content_hash a \<noteq> expected then throwing (PE_merge_approval stale_approval)
            else
              and_then (release_git h repo [''rev-parse'', ''--abbrev-ref'', ''HEAD'']) (\<lambda>current.
              and_then (if js_trim current \<noteq> ''main''
                        then and_then (release_git h repo [''checkout'', ''main'']) (\<lambda>_. returning ())
                        else returning ()) (\<lambda>_.
              and_then (release_git h repo [''merge'', ''--no-ff'', ''-m'',
                 ''release: merge '' @ integrationBranch repo, integrationBranch repo]) (\<lambda>_.
              and_then (release_git h repo [''rev-parse'', ''HEAD'']) (\<lambda>stdout.
              returning (js_trim stdout)))))))"

subsection \<open>The release gate holds\<close>

text \<open>C23: Main changes only with a human approval of the head that git reports when the release begins. Without an approval of
  kind \<^verbatim>\<open>merge\<close> nothing is called at all. With one whose hash is not that of the current head of the
  integration branch, the only thing that happens is that git was asked for that head. When the release
  returns, the approval was of kind \<^verbatim>\<open>merge\<close> and its hash was the one of the head that git reported.\<close>

theorem release_needs_exact_approval:
  assumes "mergeIntegrationToMain h repo given p = (r, p')"
  defines "ask \<equiv> release_git h repo [''rev-parse'', integrationBranch repo]"
  shows "case given of
       None \<Rightarrow> r = Inl (PE_merge_approval no_approval) \<and> p' = p
     | Some a \<Rightarrow>
         if ap_kind a \<noteq> AK_merge then r = Inl (PE_merge_approval no_approval) \<and> p' = p
         else (\<forall>head. fst (ask p) = Inr head \<and> ap_content_hash a \<noteq> head_content_hash h (integrationBranch repo) (js_trim head)
                 \<longrightarrow> r = Inl (PE_merge_approval stale_approval) \<and> p' = snd (ask p))
            \<and> (\<forall>commit. r = Inr commit \<longrightarrow>
                 (\<exists>head. fst (ask p) = Inr head \<and>
                    ap_content_hash a = head_content_hash h (integrationBranch repo) (js_trim head)))"
proof (cases given)
  case (Some a)
  obtain x q where q: "ask p = (x, q)" by fastforce
  then have i: "integrationHeadHash h repo p = (case x of Inl e \<Rightarrow> (Inl e, q)
      | Inr head \<Rightarrow> (Inr (head_content_hash h (integrationBranch repo) (js_trim head)), q))"
    by (simp add: integrationHeadHash_def ask_def and_then_def split: sum.split)
  show ?thesis
  proof (cases x)
    case (Inr head)
    with i assms(1) Some q show ?thesis
      by (auto simp: mergeIntegrationToMain_def and_then_Inr_iff split: if_splits)
  qed (use i assms(1) Some q in \<open>auto simp: mergeIntegrationToMain_def and_then_def split: if_splits\<close>)
qed (use assms(1) in \<open>simp add: mergeIntegrationToMain_def\<close>)

subsection \<open>What the replacement does\<close>

definition redirect :: "ident \<Rightarrow> ident \<Rightarrow> node_meta \<Rightarrow> node_meta" where
  "redirect k c m = m\<lparr>nm_dependencies := map (\<lambda>d. if d = k then c else d) (nm_dependencies m)\<rparr>"

lemma redirect_absent: "k \<notin> set (nm_dependencies m) \<Longrightarrow> redirect k c m = m"
proof -
  assume "k \<notin> set (nm_dependencies m)"
  then have "map (\<lambda>d. if d = k then c else d) (nm_dependencies m) = nm_dependencies m"
    by (intro map_idI) auto
  then show ?thesis by (simp add: redirect_def)
qed

definition same_but_meta :: "engine \<Rightarrow> engine \<Rightarrow> bool" where
  "same_but_meta E E' \<longleftrightarrow> (\<exists>M. E' = E\<lparr>en_meta := M\<rparr>) \<and> jkeys (en_meta E') = jkeys (en_meta E)"

lemma replaceDependency_known:
  "jget (en_meta E) i = Some m \<Longrightarrow>
     replaceDependency i k c E = (Inr (), E\<lparr>en_meta := jset i (redirect k c m) (en_meta E)\<rparr>)"
  by (simp add: replaceDependency_def requireMeta_def and_then_def upd_meta_def redirect_def)

lemma dependenciesOf_known:
  "jget (en_meta E) i = Some m \<Longrightarrow> dependenciesOf i E = (Inr (nm_dependencies m), E)"
  by (simp add: dependenciesOf_def requireMeta_def and_then_def)

definition depends_on :: "engine \<Rightarrow> ident \<Rightarrow> ident \<Rightarrow> bool" where
  "depends_on E i k \<longleftrightarrow> (\<exists>m. jget (en_meta E) i = Some m \<and> k \<in> set (nm_dependencies m))"

definition redirected :: "engine \<Rightarrow> ident \<Rightarrow> ident \<Rightarrow> ident set \<Rightarrow> engine \<Rightarrow> bool" where
  "redirected E k c S E' \<longleftrightarrow> same_but_meta E E' \<and>
     (\<forall>i. jget (en_meta E') i = map_option (\<lambda>m. if i \<in> S then redirect k c m else m) (jget (en_meta E) i))"

lemma redirected_refl: "redirected E k c {} E"
proof -
  have "E = E\<lparr>en_meta := en_meta E\<rparr>" by simp
  then have "\<exists>M. E = E\<lparr>en_meta := M\<rparr>" by blast
  then show ?thesis unfolding redirected_def same_but_meta_def by (simp add: option.map_ident)
qed

lemma redirected_step:
  assumes "jget (en_meta E) i = Some m" "i \<notin> S"
    and "redirected (E\<lparr>en_meta := jset i (redirect k c m) (en_meta E)\<rparr>) k c S E'"
  shows "redirected E k c (insert i S) E'"
  using assms unfolding redirected_def same_but_meta_def
  by (auto simp: jkeys_jset_existing simp del: map_of_eq_Some_iff)

lemma redirected_cong:
  "redirected E k c S E' \<Longrightarrow> (\<And>i. depends_on E i k \<Longrightarrow> i \<in> S \<longleftrightarrow> i \<in> T) \<Longrightarrow> redirected E k c T E'"
proof -
  assume r: "redirected E k c S E'" and st: "\<And>i. depends_on E i k \<Longrightarrow> i \<in> S \<longleftrightarrow> i \<in> T"
  have "(if i \<in> S then redirect k c m else m) = (if i \<in> T then redirect k c m else m)"
    if "jget (en_meta E) i = Some m" for i m
    using st [of i] that redirect_absent [of k m c] by (cases "depends_on E i k") (auto simp: depends_on_def)
  then have "map_option (\<lambda>m. if i \<in> S then redirect k c m else m) (jget (en_meta E) i) =
      map_option (\<lambda>m. if i \<in> T then redirect k c m else m) (jget (en_meta E) i)" for i
    by (cases "jget (en_meta E) i") simp_all
  with r show ?thesis unfolding redirected_def by simp
qed

lemma rewire_each_result:
  assumes "set ids \<subseteq> set (jkeys (en_meta E))" "distinct ids" "c \<noteq> k"
  shows "\<exists>E'. rewire_each k c ids E = (Inr (filter (\<lambda>i. i \<noteq> c \<and> depends_on E i k) ids), E')
     \<and> redirected E k c {i \<in> set ids. i \<noteq> c \<and> depends_on E i k} E'"
  using assms
proof (induction ids arbitrary: E)
  case Nil
  show ?case by (simp add: redirected_refl)
next
  case (Cons i ids)
  from Cons.prems(1) obtain m where m: "jget (en_meta E) i = Some m"
    using jget_None_iff [of "en_meta E" i] by (cases "jget (en_meta E) i") auto
  show ?case
  proof (cases "i \<noteq> c \<and> depends_on E i k")
    case True
    let ?E = "E\<lparr>en_meta := jset i (redirect k c m) (en_meta E)\<rparr>"
    have dep: "depends_on ?E j k \<longleftrightarrow> depends_on E j k" if "j \<noteq> i" for j
      using that by (simp add: depends_on_def del: map_of_eq_Some_iff)
    have "set ids \<subseteq> set (jkeys (en_meta ?E))" using Cons.prems(1) m by (simp add: jkeys_jset_existing)
    with Cons.IH [of ?E] Cons.prems obtain E' where
      "rewire_each k c ids ?E = (Inr (filter (\<lambda>i. i \<noteq> c \<and> depends_on ?E i k) ids), E')"
      "redirected ?E k c {i \<in> set ids. i \<noteq> c \<and> depends_on ?E i k} E'" by auto
    moreover have e: "depends_on ?E j k \<longleftrightarrow> depends_on E j k" if "j \<in> set ids" for j
      using Cons.prems(2) that by (intro dep) auto
    then have "filter (\<lambda>i. i \<noteq> c \<and> depends_on ?E i k) ids = filter (\<lambda>i. i \<noteq> c \<and> depends_on E i k) ids"
      by (intro filter_cong) simp_all
    moreover have "{i \<in> set ids. i \<noteq> c \<and> depends_on ?E i k} = {i \<in> set ids. i \<noteq> c \<and> depends_on E i k}"
      using e by blast
    moreover have "insert i {i \<in> set ids. i \<noteq> c \<and> depends_on E i k} = {j \<in> set (i # ids). j \<noteq> c \<and> depends_on E j k}"
      using True by auto
    ultimately show ?thesis
      using True m Cons.prems(2) redirected_step [OF m, of "{i \<in> set ids. i \<noteq> c \<and> depends_on E i k}" k c]
      by (auto simp: dependenciesOf_known replaceDependency_known depends_on_def)
  next
    case False
    then have "rewire_each k c (i # ids) E = rewire_each k c ids E"
      using m by (auto simp: dependenciesOf_known depends_on_def)
    moreover have "{j \<in> set (i # ids). j \<noteq> c \<and> depends_on E j k} = {i \<in> set ids. i \<noteq> c \<and> depends_on E i k}"
      using False by auto
    moreover have "filter (\<lambda>j. j \<noteq> c \<and> depends_on E j k) (i # ids) = filter (\<lambda>i. i \<noteq> c \<and> depends_on E i k) ids"
      using False by auto
    ultimately show ?thesis using Cons.IH [of E] Cons.prems by simp
  qed
qed

lemma redirected_sound:
  assumes "redirected E k c S E'" "log_sound E"
  shows "log_sound E'" "node_state_of E' = node_state_of E"
proof -
  from assms(1) obtain M where M: "E' = E\<lparr>en_meta := M\<rparr>" "jkeys M = jkeys (en_meta E)"
    by (auto simp: redirected_def same_but_meta_def)
  then have "jget M i = None \<longleftrightarrow> jget (en_meta E) i = None" for i
    by (simp add: jget_None_iff)
  moreover have "fst ` set M = fst ` set (en_meta E)"
    using M(2) by (metis list.set_map)
  ultimately show "log_sound E'"
    using assms(2) M by (simp add: log_sound_def)
  show "node_state_of E' = node_state_of E" using M by simp
qed

lemma redirected_inv:
  assumes r: "redirected E k c UNIV E'" and inv: "engine_inv E" and k: "node_state_of E k \<noteq> N_integrated"
  shows "engine_inv E'"
proof -
  have s: "log_sound E" using inv by (simp add: engine_inv_def)
  have st: "node_state_of E' = node_state_of E" by (rule redirected_sound(2) [OF r s])
  from r obtain M where M: "E' = E\<lparr>en_meta := M\<rparr>"
    and get: "\<And>i. jget M i = map_option (redirect k c) (jget (en_meta E) i)"
    by (auto simp: redirected_def same_but_meta_def)
  have "block_memory_ok E'"
    unfolding block_memory_ok_def st
  proof (intro allI impI)
    fix i m'
    assume "jget (en_meta E') i = Some m'" and p: "node_state_of E i = N_pending"
    then obtain m where m: "jget (en_meta E) i = Some m" "m' = redirect k c m" by (auto simp: M get)
    with inv p have "nm_blockedFrom m = None \<or> nm_blockedFrom m = Some N_pending"
      unfolding engine_inv_def block_memory_ok_def by blast
    with m show "nm_blockedFrom m' = None \<or> nm_blockedFrom m' = Some N_pending" by (simp add: redirect_def)
  qed
  moreover have "dependency_gate E'"
    unfolding dependency_gate_def st
  proof (intro allI impI)
    fix i m'
    assume "jget (en_meta E') i = Some m'" and n: "node_state_of E i \<notin> {N_pending, N_cancelled}"
    then obtain m where m: "jget (en_meta E) i = Some m" "m' = redirect k c m" by (auto simp: M get)
    with inv n have "en_started E" "deps_integrated E m"
      by (auto simp: engine_inv_def dependency_gate_def simp del: map_of_eq_Some_iff)
    moreover from this(2) k have "k \<notin> set (nm_dependencies m)" by (auto simp: deps_integrated_def)
    ultimately show "en_started E' \<and> deps_integrated E' m'"
      using M m redirect_absent [of k m c] by simp
  qed
  ultimately show ?thesis
    using inv M redirected_sound(1) [OF r s] by (simp add: engine_inv_def approval_gate_def)
qed

lemma conflict_id_fresh: "conflict_id k \<noteq> k" "\<not> inherited_key (conflict_id k)"
proof -
  have "\<forall>x \<in> set object_prototype_keys. last x \<noteq> CHR ''t''" by (simp add: object_prototype_keys_def)
  moreover have "last (conflict_id k) = CHR ''t''" by (simp add: conflict_id_def)
  ultimately show "\<not> inherited_key (conflict_id k)" by metis
qed (simp add: conflict_id_def)

lemma registerNode_result:
  assumes inv: "engine_inv E" and new: "jget (en_meta E) c = None" "\<not> inherited_key c" and started: "en_started E"
  shows "\<exists>E'. registerNode c ds E = (Inr (), E') \<and> engine_inv E' \<and> en_meta E' = en_meta E @ [(c, fresh_meta ds)]
     \<and> (\<forall>i. node_state_of E' i =
           (if unlocked E (en_meta E @ [(c, fresh_meta ds)]) i then N_ready else node_state_of E i))"
proof -
  let ?E = "E\<lparr>en_meta := jset c (fresh_meta ds) (en_meta E)\<rparr>"
  have app: "en_meta ?E = en_meta E @ [(c, fresh_meta ds)]"
    using new(1) by (simp add: jset_fresh jget_None_iff)
  have "node_state_of E c = N_pending" using inv new(1) by (simp add: engine_inv_def log_sound_def)
  then have inv': "engine_inv ?E"
    by (intro inv_set_meta inv) (use new(2) in \<open>simp_all add: fresh_meta_def\<close>)
  then have "jwf (en_meta ?E)" by (simp add: engine_inv_def log_sound_def)
  with cascade_loop [OF inv', of "en_meta ?E"] started
  obtain E' where "cascadeReady ?E = (Inr (), E')" "engine_inv E'" "en_meta E' = en_meta ?E"
    "\<And>i. node_state_of E' i = (if unlocked ?E (en_meta ?E) i then N_ready else node_state_of ?E i)"
    by (auto simp: cascadeReady_def)
  moreover have "unlocked ?E = unlocked E" by (simp add: unlocked_def fun_eq_iff)
  ultimately show ?thesis
    using new(1) app by (simp add: registerNode_def guarding_apply and_then_def)
qed

text \<open>C22: Replacing a node by its conflict node loses nothing. For every node that may be superseded, when the
  identifier of the conflict node is new, the replacement returns; the conflict node has the
  dependencies of the node and is ready at once; every dependent of the node, and nobody else, now
  depends on the conflict node instead, in the same place; the node is superseded and no node depends on
  it; no other node changes its state, except that a pending node whose dependencies are integrated
  may become ready; and the invariant of the engine still holds.\<close>

theorem conflict_node_replaces:
  assumes run: "engine_run plan L cs E" and m: "jget (en_meta E) k = Some m"
    and can: "canTransition (node_state_of E k) N_superseded"
    and new: "jget (en_meta E) (conflict_id k) = None"
  shows "\<exists>E'. spawn_in_engine k E = (Inr (nm_dependencies m, filter (\<lambda>i. depends_on E i k) (nodeIds E)), E')
     \<and> node_state_of E' k = N_superseded \<and> node_state_of E' (conflict_id k) = N_ready
     \<and> jget (en_meta E') (conflict_id k) = Some (fresh_meta (nm_dependencies m))
     \<and> (\<forall>i m'. jget (en_meta E) i = Some m' \<longrightarrow> jget (en_meta E') i = Some (redirect k (conflict_id k) m'))
     \<and> (\<forall>i. \<not> depends_on E' i k)
     \<and> (\<forall>i. i \<notin> {k, conflict_id k} \<longrightarrow> node_state_of E' i = node_state_of E i
            \<or> node_state_of E i = N_pending \<and> node_state_of E' i = N_ready)
     \<and> engine_inv E'"
proof -
  let ?c = "conflict_id k" and ?ds = "nm_dependencies m"
  have inv: "engine_inv E" using run by (rule engine_run_inv)
  then have s: "log_sound E" by (simp add: engine_inv_def)
  have k: "node_state_of E k \<notin> {N_pending, N_cancelled, N_integrated}"
    using can by (auto simp: canTransition_def)
  with inv m have started: "en_started E" and deps: "deps_integrated E m"
    by (auto simp: engine_inv_def dependency_gate_def simp del: map_of_eq_Some_iff)
  obtain E1 where reg: "registerNode ?c ?ds E = (Inr (), E1)" and inv1: "engine_inv E1"
    and meta1: "en_meta E1 = en_meta E @ [(?c, fresh_meta ?ds)]"
    and st1: "\<And>i. node_state_of E1 i =
           (if unlocked E (en_meta E @ [(?c, fresh_meta ?ds)]) i then N_ready else node_state_of E i)"
    using registerNode_result [OF inv new conflict_id_fresh(2) started] by blast
  have stk: "node_state_of E1 k = node_state_of E k" using k by (simp add: st1 unlocked_def)
  have "node_state_of E ?c = N_pending" using s new by (simp add: log_sound_def)
  with deps have stc: "node_state_of E1 ?c = N_ready"
    by (auto simp: st1 unlocked_def deps_integrated_def fresh_meta_def)
  have get1: "jget (en_meta E1) i = (if i = ?c then Some (fresh_meta ?ds) else jget (en_meta E) i)" for i
    using new by (simp add: meta1 map_add_def split: option.split)
  have noself: "k \<notin> set ?ds" using deps k by (auto simp: deps_integrated_def)
  have dep1: "depends_on E1 i k \<longleftrightarrow> depends_on E i k \<and> i \<noteq> ?c" for i
    using noself new by (auto simp: depends_on_def get1 fresh_meta_def)
  have keys: "distinct (jkeys (en_meta E1))" using inv1 by (simp add: engine_inv_def log_sound_def)
  obtain E2 where rw: "rewire_each k ?c (nodeIds E1) E1 = (Inr (filter (\<lambda>i. i \<noteq> ?c \<and> depends_on E1 i k) (nodeIds E1)), E2)"
    and "redirected E1 k ?c {i \<in> set (nodeIds E1). i \<noteq> ?c \<and> depends_on E1 i k} E2"
    using rewire_each_result [of "nodeIds E1" E1 ?c k] keys conflict_id_fresh(1) by (auto simp: nodeIds_def)
  moreover have "i \<in> set (nodeIds E1)" if "depends_on E1 i k" for i
    using that unfolding depends_on_def nodeIds_def by (elim exE conjE) (rule jget_key)
  ultimately have red: "redirected E1 k ?c UNIV E2"
    by (elim redirected_cong) (simp add: dep1)
  have inv2: "engine_inv E2" using redirected_inv [OF red inv1] stk k by simp
  have s1: "log_sound E1" using inv1 by (simp add: engine_inv_def)
  have st2: "node_state_of E2 = node_state_of E1" by (rule redirected_sound(2) [OF red s1])
  have get2: "jget (en_meta E2) i = map_option (redirect k ?c) (jget (en_meta E1) i)" for i
    using red by (simp add: redirected_def)
  have m2: "jget (en_meta E2) k = Some (redirect k ?c m)" using m conflict_id_fresh(1) [of k] by (simp add: get2 get1)
  let ?E = "push_event k N_superseded None E2"
  have can2: "canTransition (node_state_of E2 k) N_superseded" using can st2 stk by simp
  have s2: "log_sound E2" using inv2 by (simp add: engine_inv_def)
  have sup: "supersede k E2 = (Inr (), ?E)"
    using append_pushes [OF s2 m2 can2] by (simp add: supersede_def)
  have st: "node_state_of ?E = (node_state_of E1)(k := N_superseded)"
    using push_event_sound(2) [OF s2 m2 can2] st2 by simp
  have "filter (\<lambda>i. i \<noteq> ?c \<and> depends_on E1 i k) (nodeIds E1) = filter (\<lambda>i. depends_on E i k) (nodeIds E)"
    using new by (auto simp: nodeIds_def meta1 dep1 depends_on_def jget_None_iff intro!: filter_cong)
  then have "spawn_in_engine k E = (Inr (?ds, filter (\<lambda>i. depends_on E i k) (nodeIds E)), ?E)"
    using dependenciesOf_known [OF m] reg rw sup by (simp add: spawn_in_engine_def)
  moreover have "\<not> depends_on ?E i k" for i
    using conflict_id_fresh(1) [of k] by (auto simp: depends_on_def get2 redirect_def)
  moreover have "engine_inv ?E" using engine_inv_push [OF inv2 m2 can2] by simp
  moreover have "jget (en_meta ?E) i = Some (redirect k ?c m')" if "jget (en_meta E) i = Some m'" for i m'
    using that new by (auto simp: get2 get1)
  moreover have "jget (en_meta ?E) ?c = Some (fresh_meta ?ds)"
    using redirect_absent [of k "fresh_meta ?ds" ?c] noself by (simp add: get2 get1 fresh_meta_def)
  moreover have "node_state_of ?E i = node_state_of E i \<or> node_state_of E i = N_pending \<and> node_state_of ?E i = N_ready"
    if "i \<notin> {k, ?c}" for i
    using that by (auto simp: st st1 unlocked_def)
  ultimately show ?thesis
    using st stc conflict_id_fresh(1) [of k] by auto
qed

subsection \<open>Integrating\<close>

lemma quiet_integrateBranch [norns_inv]: "isolated h k \<Longrightarrow> quiet k (integrateBranch h repo branch)"
  unfolding integrateBranch_def ensureIntegrationBranch_def merge_in_def integration_git_def Let_def
  by (intro norns_inv)

text \<open>The cascade of a readable log returns, and keeps every node that is not pending.\<close>

lemma cascade_node_returns:
  assumes "log_sound E" "jget (en_meta E) (fst x) = Some m"
  shows "\<exists>E'. cascade_node x E = (Inr (), E') \<and> log_sound E' \<and> en_meta E' = en_meta E"
proof (cases "node_state_of E (fst x) = N_pending \<and> (\<forall>d \<in> set (nm_dependencies (snd x)). node_state_of E d = N_integrated)")
  case True
  then have can: "canTransition (node_state_of E (fst x)) N_ready" by (simp add: canTransition_def)
  from True show ?thesis
    using append_pushes [OF assms can] push_event_sound(1) [OF assms can]
    by (simp add: cascade_node_def and_then_def stateOf_eq all_integrated_eq assms(1))
qed (auto simp: cascade_node_def and_then_def stateOf_eq all_integrated_eq assms(1))

lemma cascadeReady_returns:
  assumes "log_sound E"
  shows "\<exists>E'. cascadeReady E = (Inr (), E') \<and> log_sound E'"
proof -
  have "\<exists>E'. for_each xs cascade_node E = (Inr (), E') \<and> log_sound E'"
    if "\<forall>x \<in> set xs. jget (en_meta E) (fst x) \<noteq> None" "log_sound E" for xs E
    using that
  proof (induction xs arbitrary: E)
    case (Cons x xs)
    then obtain m where "jget (en_meta E) (fst x) = Some m" by auto
    from cascade_node_returns [OF Cons.prems(2) this] Cons show ?case by auto
  qed simp
  from this [of "en_meta E" E] assms show ?thesis
    by (auto simp: cascadeReady_def jget_None_iff)
qed

lemma integrate_verified:
  assumes "node_is k N_verified m nb E"
  obtains E' where "integrate k E = (Inr (), E')" "node_is k N_integrated m nb E'"
proof -
  have s: "log_sound E" and m: "jget (en_meta E) k = Some m" and can: "canTransition (node_state_of E k) N_integrated"
    using assms by (simp_all add: node_is_def canTransition_def)
  let ?E = "push_event k N_integrated None E"
  have i: "node_is k N_integrated m nb ?E"
    using push_event_sound [OF s m can] assms by (simp add: node_is_def)
  then obtain E' where "cascadeReady ?E = (Inr (), E')" "node_is k N_integrated m nb E'"
    using cascadeReady_returns [of ?E] keeps_snd [OF frame_cascadeReady [of N_integrated k m nb] i]
    by (auto simp: node_is_def)
  with append_pushes [OF s m can] that show ?thesis by (simp add: integrate_def)
qed

lemma block_verified:
  assumes "node_is k N_verified m nb E"
  obtains E' where "block k BR_integration E = (Inr (), E')"
    "node_is k N_blocked (m\<lparr>nm_blockedFrom := Some N_verified\<rparr>) nb E'"
proof -
  have s: "log_sound E" and m: "jget (en_meta E) k = Some m" and can: "canTransition (node_state_of E k) N_blocked"
    using assms by (simp_all add: node_is_def canTransition_def)
  let ?m = "m\<lparr>nm_blockedFrom := Some N_verified\<rparr>"
  let ?E = "E\<lparr>en_meta := jset k ?m (en_meta E)\<rparr>"
  have s1: "log_sound ?E" and m1: "jget (en_meta ?E) k = Some ?m" and can1: "canTransition (node_state_of ?E k) N_blocked"
    using log_sound_upd [OF s m] can by simp_all
  show ?thesis
    using that [of "push_event k N_blocked (Some (blocked_reason_str BR_integration)) ?E"] block_result [OF s m, of BR_integration] can
      push_event_sound [OF s1 m1 can1] assms
    by (simp add: node_is_def Let_def)
qed

lemma registerNode_sound:
  assumes "log_sound E" "jget (en_meta E) c = None" "\<not> inherited_key c"
  shows "\<exists>E'. registerNode c ds E = (Inr (), E') \<and> log_sound E'"
proof -
  have "log_sound (E\<lparr>en_meta := jset c (fresh_meta ds) (en_meta E)\<rparr>)"
    using assms by (intro log_sound_set_meta) simp_all
  from cascadeReady_returns [OF this] assms(2) show ?thesis
    by (simp add: registerNode_def guarding_apply and_then_def)
qed

lemma spawn_blocked:
  assumes "node_is k N_blocked m nb E"
  shows "if jget (en_meta E) (conflict_id k) \<noteq> None
     then spawn_in_engine k E = (Inl (EE_node_exists (conflict_id k)), E)
     else \<exists>x E'. spawn_in_engine k E = (Inr x, E') \<and> node_state_of E' k = N_superseded"
proof (cases "jget (en_meta E) (conflict_id k)")
  case (Some m')
  with assms show ?thesis
    by (simp add: spawn_in_engine_def dependenciesOf_known node_is_def registerNode_def guarding_apply and_then_def
        del: map_of_eq_Some_iff)
next
  case None
  have s: "log_sound E" and m: "jget (en_meta E) k = Some m" using assms by (simp_all add: node_is_def)
  obtain E1 where reg: "registerNode (conflict_id k) (nm_dependencies m) E = (Inr (), E1)"
    using registerNode_sound [OF s None conflict_id_fresh(2)] by blast
  have k1: "node_is k N_blocked m nb E1"
    using keeps_snd [OF frame_registerNode assms] conflict_id_fresh [of k] reg by (metis node_state.distinct snd_conv)
  then have s1: "log_sound E1" by (simp add: node_is_def)
  obtain E2 x where rw: "rewire_each k (conflict_id k) (nodeIds E1) E1 = (Inr x, E2)"
    and red: "redirected E1 k (conflict_id k) {i \<in> set (nodeIds E1). i \<noteq> conflict_id k \<and> depends_on E1 i k} E2"
    using rewire_each_result [of "nodeIds E1" E1 "conflict_id k" k] conflict_id_fresh(1) [of k] s1
    by (auto simp: nodeIds_def log_sound_def)
  have s2: "log_sound E2" and st2: "node_state_of E2 k = N_blocked"
    using redirected_sound [OF red s1] k1 by (simp_all add: node_is_def)
  then obtain m2 where m2: "jget (en_meta E2) k = Some m2" by (force simp: log_sound_def)
  have can: "canTransition (node_state_of E2 k) N_superseded" using st2 by (simp add: canTransition_def)
  show ?thesis
    using None dependenciesOf_known [OF m] reg rw append_pushes [OF s2 m2 can] push_event_sound(2) [OF s2 m2 can]
    by (simp add: spawn_in_engine_def supersede_def)
qed

text \<open>
  What git was asked, as a chain of host states: a worktree on the integration branch was added, and in
  it the branch was merged and the head read; or the merge was refused.
\<close>

definition integration_worktree ::
    "'g host \<Rightarrow> local_git_repo \<Rightarrow> string \<Rightarrow> 'g \<Rightarrow> 'g \<Rightarrow> bool" where
  "integration_worktree h repo path g g' \<longleftrightarrow>
     (\<exists>out. h_exec h (git_call ''norns-integration'' (lr_repoDir repo) [''worktree'', ''add'', path, integrationBranch repo]) g = (Inr out, g'))"

definition merge_call :: "string \<Rightarrow> string \<Rightarrow> exec_call" where
  "merge_call path branch =
     git_call ''norns-integration'' path [''merge'', ''--no-ff'', ''-m'', ''integrate '' @ branch, branch]"

definition git_merged :: "'g host \<Rightarrow> local_git_repo \<Rightarrow> string \<Rightarrow> string \<Rightarrow> bool" where
  "git_merged h repo branch commit \<longleftrightarrow>
     (\<exists>path g0 g1 merged g2 out g3. integration_worktree h repo path g0 g1 \<and>
        h_exec h (merge_call path branch) g1 = (Inr merged, g2) \<and>
        h_exec h (git_call ''norns-integration'' path [''rev-parse'', ''HEAD'']) g2 = (Inr out, g3) \<and>
        commit = js_trim (fst out))"

definition git_refused :: "'g host \<Rightarrow> local_git_repo \<Rightarrow> string \<Rightarrow> bool" where
  "git_refused h repo branch \<longleftrightarrow>
     (\<exists>path g0 g1 e g2. integration_worktree h repo path g0 g1 \<and> h_exec h (merge_call path branch) g1 = (Inl e, g2))"

lemma ensureIntegrationBranch_name:
  "ensureIntegrationBranch h repo p = (Inr b, q) \<Longrightarrow> b = integrationBranch repo"
  by (auto simp: ensureIntegrationBranch_def Let_def and_then_Inr_iff)

lemma merge_in_result:
  assumes "merge_in h path branch p = (Inr res, q)"
  shows "case res of
       MR_merged commit \<Rightarrow> \<exists>merged g2 out g3. h_exec h (merge_call path branch) (pl_host p) = (Inr merged, g2) \<and>
         h_exec h (git_call ''norns-integration'' path [''rev-parse'', ''HEAD'']) g2 = (Inr out, g3) \<and> commit = js_trim (fst out)
     | MR_conflict files \<Rightarrow> \<exists>e g2. h_exec h (merge_call path branch) (pl_host p) = (Inl e, g2)"
proof -
  obtain m u where m: "run_git h (Some ''norns-integration'') path [''merge'', ''--no-ff'', ''-m'', ''integrate '' @ branch, branch] p = (m, u)"
    by fastforce
  note call = run_git_call [OF m, folded merge_call_def]
  show ?thesis
  proof (cases m)
    case (Inl e)
    with assms m obtain files where "res = MR_conflict files"
      by (auto simp: merge_in_def integration_git_def and_then_Inr_iff attempting_Inr)
    with call Inl show ?thesis by (auto simp: isl_def)
  next
    case (Inr s)
    with assms m obtain v where "run_git h (Some ''norns-integration'') path [''rev-parse'', ''HEAD''] u = (Inr v, q)"
      and "res = MR_merged (js_trim v)"
      by (auto simp: merge_in_def integration_git_def and_then_Inr_iff attempting_Inr)
    with call Inr run_git_call [OF this(1)] show ?thesis by auto
  qed
qed

lemma integrateBranch_result:
  assumes "integrateBranch h repo branch p = (Inr res, q)"
  shows "case res of MR_merged commit \<Rightarrow> git_merged h repo branch commit | MR_conflict files \<Rightarrow> git_refused h repo branch"
proof -
  from assms obtain integration path u v w x where n: "ensureIntegrationBranch h repo p = (Inr integration, u)"
    and a: "run_git h (Some ''norns-integration'') (lr_repoDir repo) [''worktree'', ''add'', path, integration] u = (Inr x, v)"
    and m: "merge_in h path branch v = (Inr res, w)"
    by (auto simp: integrateBranch_def integration_git_def and_then_Inr_iff finally_do_iff)
  from run_git_call [OF a] have "integration_worktree h repo path (pl_host u) (pl_host v)"
    unfolding integration_worktree_def ensureIntegrationBranch_name [OF n] by auto
  with merge_in_result [OF m] show ?thesis
    unfolding git_merged_def git_refused_def by (cases res) (auto; blast)+
qed

definition integrate_outcome ::
    "'g host \<Rightarrow> local_git_repo \<Rightarrow> integrate_options \<Rightarrow> pipeline_error + integrate_result \<Rightarrow> engine \<Rightarrow> bool" where
  "integrate_outcome h repo opts r E \<longleftrightarrow>
     (let s = node_state_of E (io_nodeId opts) in
      case r of
        Inr (IN_integrated commit) \<Rightarrow> s = N_integrated \<and> git_merged h repo (io_branch opts) commit
      | Inr (IN_conflict spec) \<Rightarrow> s = N_superseded \<and> git_refused h repo (io_branch opts) \<and>
          cn_conflictNodeId spec = conflict_id (io_nodeId opts)
      | Inl (PE_host e) \<Rightarrow> s = N_verified
      | Inl (PE_engine e) \<Rightarrow> s = N_blocked \<and> git_refused h repo (io_branch opts) \<and>
          e = EE_node_exists (conflict_id (io_nodeId opts))
      | Inl (PE_graph e) \<Rightarrow> s = N_superseded \<and> git_refused h repo (io_branch opts)
      | Inl _ \<Rightarrow> False)"

lemma conflict_outcome:
  assumes "piped_is (io_nodeId opts) N_verified m nb p"
    and refused: "git_refused h repo (io_branch opts)"
    and "and_then (on_engine (block (io_nodeId opts) BR_integration)) (\<lambda>_.
          and_then (escalate wanted (io_nodeId opts) reason) (\<lambda>_.
          and_then (spawnConflictNode (io_nodeId opts)) (\<lambda>conflict. returning (IN_conflict conflict)))) p = (r, p')"
  shows "integrate_outcome h repo opts r (pl_engine p')"
proof -
  let ?k = "io_nodeId opts"
  obtain E1 where b: "block ?k BR_integration (pl_engine p) = (Inr (), E1)"
    and k1: "node_is ?k N_blocked (m\<lparr>nm_blockedFrom := Some N_verified\<rparr>) nb E1"
    using block_verified [OF assms(1)] .
  obtain q where q: "escalate wanted ?k reason (p\<lparr>pl_engine := E1\<rparr>) = (Inr (), q)" "pl_engine q = E1"
    by (cases wanted) (simp_all add: escalate_def)
  have r: "(r, p') = and_then (spawnConflictNode ?k) (\<lambda>conflict. returning (IN_conflict conflict)) q"
    using assms(3) b q by (simp add: on_engine_def and_then_def)
  show ?thesis
  proof (cases "jget (en_meta E1) (conflict_id ?k)")
    case None
    with spawn_blocked [OF k1] obtain ds rew E2 where sp: "spawn_in_engine ?k E1 = (Inr (ds, rew), E2)"
      and st: "node_state_of E2 ?k = N_superseded" by auto
    obtain y t where w: "with_graph (spawn_in_graph ?k ds rew) (q\<lparr>pl_engine := E2\<rparr>) = (y, t)" by fastforce
    then have t: "pl_engine t = E2" and err: "\<And>e. y = Inl e \<Longrightarrow> \<exists>x. e = PE_graph x"
      by (auto simp: with_graph_def split: option.splits prod.splits sum.splits)
    have "(r, p') = (case y of Inl e \<Rightarrow> (Inl e, t)
        | Inr _ \<Rightarrow> (Inr (IN_conflict \<lparr>cn_conflictNodeId = conflict_id ?k, cn_rewiredDependents = rew\<rparr>), t))"
      using r sp q(2) w by (simp add: spawnConflictNode_def on_engine_def and_then_def split: sum.split)
    with t st err refused show ?thesis
      by (cases y) (auto simp: integrate_outcome_def Let_def)
  next
    case (Some x)
    with spawn_blocked [OF k1] have "spawn_in_engine ?k E1 = (Inl (EE_node_exists (conflict_id ?k)), E1)" by simp
    with r q(2) k1 refused show ?thesis
      by (simp add: spawnConflictNode_def on_engine_def and_then_def integrate_outcome_def Let_def node_is_def)
  qed
qed

text \<open>C21: Integration is gated and ends in a definite state, whatever git answers. A conflict resolution
  without human confirmation is refused before anything is called. Otherwise a verified node is
  integrated only when git merged exactly its branch in a worktree on the integration branch, and the commit in
  the result is the head that git reported right after this merge. Only when git refused that merge is
  the node superseded by its conflict node, with or without an error of the graph, or, if the identifier
  of the conflict node is taken, left blocked. If git itself fails, the node is still verified.\<close>

theorem integrateNode_outcome:
  assumes "engine_run plan L before (pl_engine p)" "node_state_of (pl_engine p) (io_nodeId opts) = N_verified"
    and "isolated h (io_nodeId opts)"
    and "integrateNode h repo opts p = (r, p')"
  shows "if io_isConflictResolution opts \<and> \<not> io_humanConfirmed opts
     then r = Inl (PE_human_confirmation (io_nodeId opts)) \<and> p' = p
     else integrate_outcome h repo opts r (pl_engine p')"
proof (cases "io_isConflictResolution opts \<and> \<not> io_humanConfirmed opts")
  case True
  with assms(4) show ?thesis by (auto simp: integrateNode_def Let_def guarding_apply and_then_def)
next
  case False
  let ?k = "io_nodeId opts"
  have "log_sound (pl_engine p)" using engine_run_inv [OF assms(1)] by (simp add: engine_inv_def)
  with assms(2) obtain m where "jget (en_meta (pl_engine p)) ?k = Some m" by (force simp: log_sound_def)
  with assms(2) \<open>log_sound (pl_engine p)\<close>
  have v: "piped_is ?k N_verified m (jget (bl_nodes (en_budget (pl_engine p))) ?k) p" by (simp add: node_is_def)
  obtain x q where x: "integrateBranch h repo (io_branch opts) p = (x, q)" by fastforce
  have quiet: "quiet ?k (integrateBranch h repo (io_branch opts))" by (intro norns_inv assms(3))
  have vq: "piped_is ?k N_verified m (jget (bl_nodes (en_budget (pl_engine p))) ?k) q"
    using quiet_keeps [OF quiet _ v] x by simp
  have eq: "(r, p') = and_then (integrateBranch h repo (io_branch opts)) (\<lambda>result.
      case result of
        MR_merged commit \<Rightarrow> and_then (on_engine (integrate ?k)) (\<lambda>_. returning (IN_integrated commit))
      | MR_conflict files \<Rightarrow>
          and_then (on_engine (block ?k BR_integration)) (\<lambda>_.
          and_then (escalate (io_onEscalate opts) ?k (merge_conflict files)) (\<lambda>_.
          and_then (spawnConflictNode ?k) (\<lambda>conflict. returning (IN_conflict conflict))))) p"
    using assms(4) False by (auto simp: integrateNode_def Let_def guarding_apply)
  have "integrate_outcome h repo opts r (pl_engine p')"
  proof (cases x)
    case (Inl e)
    with eq x quiet_error [OF quiet, of p e] vq show ?thesis
      by (auto simp: integrate_outcome_def node_is_def)
  next
    case (Inr res)
    show ?thesis
    proof (cases res)
      case (MR_merged commit)
      obtain E' where "integrate ?k (pl_engine q) = (Inr (), E')"
        "node_is ?k N_integrated m (jget (bl_nodes (en_budget (pl_engine p))) ?k) E'"
        using integrate_verified [OF vq] .
      with eq x Inr MR_merged integrateBranch_result [of h repo "io_branch opts" p res q] show ?thesis
        by (auto simp: integrate_outcome_def node_is_def on_engine_def and_then_def)
    next
      case (MR_conflict files)
      with eq x Inr integrateBranch_result [of h repo "io_branch opts" p res q]
      show ?thesis by (intro conflict_outcome [OF vq]) simp_all
    qed
  qed
  with False show ?thesis by auto
qed

subsection \<open>A sample integration\<close>

definition verified_calls :: "engine_call list" where
  "verified_calls = sample_calls @ [EC_completeRun ''a'' 3, EC_recordVerification ''a'' True,
     EC_reviewerDecision ''a'' RD_approve]"

definition verified_engine :: engine where
  "verified_engine = fold do_engine_call verified_calls (new_engine sample_plan sample_ledger)"

lemma verified_run: "engine_run sample_plan sample_ledger verified_calls verified_engine"
  by (simp add: engine_run_def sample_ledger_inv verified_engine_def)
     (simp add: sample_plan_def mk_plan_def mk_module_def object_prototype_keys_def verified_calls_def sample_calls_def)

definition verified_view :: "engine \<Rightarrow> bool" where
  "verified_view E \<longleftrightarrow> node_state_of E ''a'' = N_verified
     \<and> jget (en_meta E) ''a'' = Some \<lparr>nm_dependencies = [], nm_blockedFrom = None, nm_activeReservation = None\<rparr>
     \<and> jget (en_meta E) ''a-conflict'' = None \<and> jget (en_meta E) ''b'' = Some (fresh_meta [''a''])
     \<and> nodeIds E = [''a'', ''b'']"

lemma verified_engine_view: "verified_view verified_engine"
  by code_simp

lemma verified_state:
  "node_state_of verified_engine ''a'' = N_verified"
  "jget (en_meta verified_engine) ''a'' = Some \<lparr>nm_dependencies = [], nm_blockedFrom = None, nm_activeReservation = None\<rparr>"
  "jget (en_meta verified_engine) ''a-conflict'' = None"
  "jget (en_meta verified_engine) ''b'' = Some (fresh_meta [''a''])"
  "nodeIds verified_engine = [''a'', ''b'']"
  using verified_engine_view unfolding verified_view_def by blast+

theorem conflict_node_replaces_witness:
  "\<exists>E'. spawn_in_engine ''a'' verified_engine = (Inr ([], [''b'']), E')
     \<and> node_state_of E' ''a-conflict'' = N_ready
     \<and> jget (en_meta E') ''b'' = Some (fresh_meta [''a-conflict''])"
proof -
  have can: "canTransition (node_state_of verified_engine ''a'') N_superseded"
    by (simp add: verified_state canTransition_def)
  have new: "jget (en_meta verified_engine) (conflict_id ''a'') = None"
    using verified_state(3) by (simp add: conflict_id_def del: map_of_eq_None_iff)
  have deps: "filter (\<lambda>i. depends_on verified_engine i ''a'') (nodeIds verified_engine) = [''b'']"
  proof -
    show ?thesis
      using verified_state(2,4,5) by (simp add: depends_on_def fresh_meta_def)
  qed
  from conflict_node_replaces [OF verified_run verified_state(2) can new, unfolded deps] verified_state(4)
  show ?thesis by (auto simp: conflict_id_def redirect_def fresh_meta_def)
qed

definition verified_pipeline :: "unit pipeline" where
  "verified_pipeline = assigned_pipeline\<lparr>pl_engine := verified_engine\<rparr>"

definition sample_integration :: "bool \<Rightarrow> bool \<Rightarrow> integrate_options" where
  "sample_integration resolution confirmed =
     \<lparr>io_nodeId = ''a'', io_branch = ''norns/p/a'', io_isConflictResolution = resolution,
      io_humanConfirmed = confirmed, io_onEscalate = True\<rparr>"

theorem integrateNode_outcome_witness:
  "\<exists>commit p'. integrateNode calm_host sample_repo (sample_integration True True) verified_pipeline = (Inr (IN_integrated commit), p')
     \<and> node_state_of (pl_engine p') ''a'' = N_integrated \<and> git_merged calm_host sample_repo ''norns/p/a'' commit"
proof -
  let ?o = "sample_integration True True"
  let ?r = "integrateNode calm_host sample_repo ?o verified_pipeline"
  have run: "engine_run sample_plan sample_ledger verified_calls (pl_engine verified_pipeline)"
    "node_state_of (pl_engine verified_pipeline) (io_nodeId ?o) = N_verified" "isolated calm_host (io_nodeId ?o)"
    using verified_run verified_state(1) calm_host_isolated
    by (simp_all add: verified_pipeline_def sample_integration_def)
  have ev: "fst ?r = Inr (IN_integrated ''abc1234'')" by code_simp
  obtain x p' where xp: "?r = (x, p')" by (rule prod.exhaust)
  with ev have eq: "?r = (Inr (IN_integrated ''abc1234''), p')" by simp
  from integrateNode_outcome [OF run eq] have "node_state_of (pl_engine p') ''a'' = N_integrated"
    "git_merged calm_host sample_repo ''norns/p/a'' ''abc1234''"
    by (simp_all add: integrate_outcome_def sample_integration_def)
  with eq show ?thesis by blast
qed

theorem release_needs_exact_approval_witness:
  "fst (mergeIntegrationToMain calm_host sample_repo (Some (sample_approval AK_merge)) verified_pipeline)
     = Inl (PE_merge_approval stale_approval)"
proof -
  let ?p = "verified_pipeline"
  obtain r p' where eq: "mergeIntegrationToMain calm_host sample_repo (Some (sample_approval AK_merge)) ?p = (r, p')"
    by fastforce
  have ask: "fst (release_git calm_host sample_repo [''rev-parse'', integrationBranch sample_repo] ?p) = Inr ''abc1234 ''"
    by (simp add: release_git_def run_git_def and_then_def awaiting_def lift_host_def calm_host_def)
  have "ap_content_hash (sample_approval AK_merge) \<noteq>
      head_content_hash calm_host (integrationBranch sample_repo) (js_trim ''abc1234 '')"
    by (simp add: sample_approval_def head_content_hash_def calm_host_def)
  moreover have "ap_kind (sample_approval AK_merge) = AK_merge" by (simp add: sample_approval_def)
  ultimately have "r = Inl (PE_merge_approval stale_approval)"
    using release_needs_exact_approval [OF eq] ask by simp
  with eq show ?thesis by simp
qed

text \<open>
  Integrating a node that is not verified merges its branch first: the engine refuses only after git
  has merged.
\<close>

lemma unverified_branch_is_merged:
  "(case integrateNode calm_host sample_repo (sample_integration False False) assigned_pipeline of
      (Inl (PE_engine (EE_invalid_transition N_assigned N_integrated n)), p) \<Rightarrow> n = ''a''
    | _ \<Rightarrow> False) \<and>
   (case integrateBranch calm_host sample_repo ''norns/p/a'' assigned_pipeline of
      (Inr (MR_merged commit), p) \<Rightarrow> commit = ''abc1234'' | _ \<Rightarrow> False)"
  by code_simp

end
