(* ===== verification/Redaction.thy ===== *)
theory Redaction
  imports Daemon_Frame Daemon_Props "HOL-Library.Sublist"
begin

section \<open>Secret redaction\<close>

text \<open>
  \<^verbatim>\<open>apps/runner/src/redact.ts\<close>: every log chunk is redacted before it leaves the runner. The regular
  expressions of the source are written as lists of items and matched by backtracking as JavaScript
  does: greedy repetition, the lazy \<^verbatim>\<open>[\s\S]*?\<close>, ordered alternatives, word boundaries, and
  replacement of all matches from left to right. Every pattern consumes at least one character.
\<close>

subsection \<open>Regular expressions\<close>

datatype re_item =
    RE_one "char \<Rightarrow> bool"
  | RE_many "char \<Rightarrow> bool" nat
  | RE_lazy "char \<Rightarrow> bool"
  | RE_boundary
  | RE_words "string list"

definition in_range :: "char \<Rightarrow> char \<Rightarrow> char \<Rightarrow> bool" where
  "in_range lo hi c \<longleftrightarrow> (of_char lo :: int) \<le> of_char c \<and> (of_char c :: int) \<le> of_char hi"

definition upper :: "char \<Rightarrow> bool" where "upper = in_range (CHR ''A'') (CHR ''Z'')"

definition lower :: "char \<Rightarrow> bool" where "lower = in_range (CHR ''a'') (CHR ''z'')"

definition digit :: "char \<Rightarrow> bool" where "digit = in_range (CHR ''0'') (CHR ''9'')"

definition alnum :: "char \<Rightarrow> bool" where "alnum c \<longleftrightarrow> upper c \<or> lower c \<or> digit c"

definition word_char :: "char \<Rightarrow> bool" where "word_char c \<longleftrightarrow> alnum c \<or> c = CHR ''_''"

definition alnum_or :: "string \<Rightarrow> char \<Rightarrow> bool" where "alnum_or extra c \<longleftrightarrow> alnum c \<or> c \<in> set extra"

definition to_lower :: "char \<Rightarrow> char" where
  "to_lower c = (if upper c then char_of (of_char c + 32 :: nat) else c)"

definition word_prefix :: "string \<Rightarrow> string \<Rightarrow> bool" where
  "word_prefix w s \<longleftrightarrow> map to_lower (take (length w) s) = w"

definition at_boundary :: "char option \<Rightarrow> string \<Rightarrow> bool" where
  "at_boundary prev s \<longleftrightarrow>
     (case prev of None \<Rightarrow> False | Some c \<Rightarrow> word_char c) \<noteq> (case s of [] \<Rightarrow> False | c # _ \<Rightarrow> word_char c)"

definition first_some :: "'a option \<Rightarrow> 'a option \<Rightarrow> 'a option" where
  "first_some a b = (case a of Some x \<Rightarrow> Some x | None \<Rightarrow> b)"

text \<open>The rest of the string after the match of the items at its beginning, if there is one.\<close>

fun choices :: "re_item list \<Rightarrow> nat" where
  "choices (RE_words ws # is) = length ws"
| "choices _ = 0"

function re_match :: "re_item list \<Rightarrow> char option \<Rightarrow> string \<Rightarrow> string option" where
  "re_match [] prev s = Some s"
| "re_match (RE_one p # is) prev [] = None"
| "re_match (RE_one p # is) prev (c # cs) = (if p c then re_match is (Some c) cs else None)"
| "re_match (RE_many p n # is) prev [] = (if n = 0 then re_match is prev [] else None)"
| "re_match (RE_many p n # is) prev (c # cs) =
     first_some (if p c then re_match (RE_many p (n - 1) # is) (Some c) cs else None)
       (if n = 0 then re_match is prev (c # cs) else None)"
| "re_match (RE_lazy p # is) prev [] = re_match is prev []"
| "re_match (RE_lazy p # is) prev (c # cs) =
     first_some (re_match is prev (c # cs)) (if p c then re_match (RE_lazy p # is) (Some c) cs else None)"
| "re_match (RE_boundary # is) prev s = (if at_boundary prev s then re_match is prev s else None)"
| "re_match (RE_words [] # is) prev s = None"
| "re_match (RE_words (w # ws) # is) prev s =
     first_some
       (if w \<noteq> [] \<and> length w \<le> length s \<and> word_prefix w s
        then re_match is (Some (s ! (length w - 1))) (drop (length w) s) else None)
       (re_match (RE_words ws # is) prev s)"
  by pat_completeness auto

termination re_match
  by (relation "measures [\<lambda>(is, prev, s). length is, \<lambda>(is, prev, s). length s, \<lambda>(is, prev, s). choices is]") auto

definition literally :: "string \<Rightarrow> re_item list" where
  "literally s = map (\<lambda>c. RE_one (\<lambda>d. d = c)) s"

subsection \<open>The redactor\<close>

definition REDACTED :: string where "REDACTED = ''[REDACTED]''"

definition PATTERNS :: "re_item list list" where
  "PATTERNS =
     [literally ''sk-'' @ [RE_many (alnum_or ''_-'') 16],
      literally ''ghp_'' @ [RE_many alnum 20],
      literally ''gho_'' @ [RE_many alnum 20],
      literally ''AKIA'' @ replicate 16 (RE_one (\<lambda>c. digit c \<or> upper c)),
      literally ''xox'' @ [RE_one (\<lambda>c. c \<in> set ''baprs'')] @ literally ''-'' @ [RE_many (alnum_or ''-'') 10],
      literally ''eyJ'' @ [RE_many (alnum_or ''_-'') 10] @ literally ''.'' @ [RE_many (alnum_or ''_-'') 10] @
        literally ''.'' @ [RE_many (alnum_or ''_-'') 5],
      literally ''-----BEGIN '' @ [RE_many (\<lambda>c. upper c \<or> c = CHR '' '') 0] @ literally ''PRIVATE KEY-----'' @
        [RE_lazy (\<lambda>_. True)] @
        literally ''-----END '' @ [RE_many (\<lambda>c. upper c \<or> c = CHR '' '') 0] @ literally ''PRIVATE KEY-----'',
      [RE_boundary, RE_words [''password'', ''passwd'', ''secret'', ''token'', ''api_key'', ''api-key'', ''apikey''],
       RE_many js_space 0, RE_one (\<lambda>c. c \<in> set ''=:''), RE_many js_space 0, RE_many (\<lambda>c. \<not> js_space c) 1]]"

function replace_all :: "re_item list \<Rightarrow> char option \<Rightarrow> string \<Rightarrow> string" where
  "replace_all p prev [] = []"
| "replace_all p prev (c # cs) =
     (case re_match p prev (c # cs) of
        Some rest \<Rightarrow>
          if length rest < length (c # cs)
          then REDACTED @ replace_all p (Some ((c # cs) ! (length (c # cs) - length rest - 1))) rest
          else c # replace_all p (Some c) cs
      | None \<Rightarrow> c # replace_all p (Some c) cs)"
  by pat_completeness auto

termination replace_all
  by (relation "measure (\<lambda>(p, prev, s). length s)") simp_all

text \<open>\<^verbatim>\<open>text.split(secret)\<close> for a separator that is not empty.\<close>

function split_str :: "string \<Rightarrow> string \<Rightarrow> string list" where
  "split_str sep [] = [[]]"
| "split_str sep (c # cs) =
     (if sep \<noteq> [] \<and> take (length sep) (c # cs) = sep then [] # split_str sep (drop (length sep) (c # cs))
      else (case split_str sep cs of p # ps \<Rightarrow> (c # p) # ps | [] \<Rightarrow> [[c]]))"
  by pat_completeness auto

termination split_str
  by (relation "measure (\<lambda>(sep, s). length s)") (auto simp: neq_Nil_conv)

type_synonym redactor = "string list"

definition registerSecret :: "string \<Rightarrow> redactor \<Rightarrow> redactor" where
  "registerSecret secret known =
     (if 6 \<le> length secret \<and> secret \<notin> set known then known @ [secret] else known)"

definition redact :: "redactor \<Rightarrow> string \<Rightarrow> string" where
  "redact known text =
     fold (\<lambda>pattern out. replace_all pattern None out) PATTERNS
       (fold (\<lambda>secret out. join REDACTED (split_str secret out)) known text)"

subsection \<open>Redacting only replaces\<close>

text \<open>
  \<open>blanked s t\<close>: the string \<open>t\<close> is \<open>s\<close> with some disjoint pieces replaced by the marker. Both kinds
  of replacement do just that, and so does any sequence of them.
\<close>

inductive blanked :: "string \<Rightarrow> string \<Rightarrow> bool" where
  nil: "blanked [] []"
| keep: "blanked s t \<Longrightarrow> blanked (c # s) (c # t)"
| mark: "blanked s t \<Longrightarrow> blanked (u @ s) (REDACTED @ t)"

lemma first_some_iff: "first_some a b = Some x \<longleftrightarrow> a = Some x \<or> a = None \<and> b = Some x"
  by (simp add: first_some_def split: option.split)

lemma re_match_suffix: "re_match is prev s = Some r \<Longrightarrow> suffix r s"
proof (induction "is" prev s rule: re_match.induct)
  case (10 w ws "is" prev s)
  then show ?case
    by (auto simp: first_some_iff split: if_splits intro: suffix_order.trans [OF _ suffix_drop])
qed (auto simp: first_some_iff suffix_Cons split: if_splits)

lemma blanked_replace_all: "blanked s (replace_all p prev s)"
proof (induction p prev s rule: replace_all.induct)
  case (2 p prev c cs)
  show ?case
  proof (cases "re_match p prev (c # cs)")
    case (Some rest)
    then obtain u where "c # cs = u @ rest" using re_match_suffix suffixE by blast
    show ?thesis
    proof (cases "length rest < length (c # cs)")
      case True
      with Some have "replace_all p prev (c # cs) =
          REDACTED @ replace_all p (Some ((c # cs) ! (length (c # cs) - length rest - 1))) rest" by simp
      with blanked.mark [OF 2(2) [OF Some True], of u] \<open>c # cs = u @ rest\<close> show ?thesis by simp
    qed (use Some 2(3) in \<open>simp add: blanked.keep\<close>)
  qed (use 2(1) in \<open>simp add: blanked.keep\<close>)
qed (auto intro: blanked.nil)

lemma split_str_nonempty: "split_str sep s \<noteq> []"
  by (induction sep s rule: split_str.induct) (auto split: list.splits)

lemma join_Cons: "ps \<noteq> [] \<Longrightarrow> join m (p # ps) = p @ m @ join m ps"
  by (cases ps) simp_all

lemma join_split_Cons:
  "join m (split_str sep (c # cs)) =
     (if sep \<noteq> [] \<and> take (length sep) (c # cs) = sep then m @ join m (split_str sep (drop (length sep) (c # cs)))
      else c # join m (split_str sep cs))"
proof (cases "sep \<noteq> [] \<and> take (length sep) (c # cs) = sep")
  case True
  then have "split_str sep (c # cs) = [] # split_str sep (drop (length sep) (c # cs))"
    by (subst split_str.simps) (simp only: if_True simp_thms)
  with True show ?thesis by (simp only: join_Cons [OF split_str_nonempty] append_Nil if_True simp_thms)
next
  case False
  obtain p ps where cs: "split_str sep cs = p # ps" using split_str_nonempty by (cases "split_str sep cs") auto
  have "split_str sep (c # cs) = (c # p) # ps"
    unfolding split_str.simps(2) [of sep c cs] if_not_P [OF False] cs by simp
  moreover have "join m ((c # p) # ps) = c # join m (p # ps)" by (cases ps) simp_all
  ultimately show ?thesis by (simp only: if_not_P [OF False] cs)
qed

lemma blanked_split: "blanked s (join REDACTED (split_str sep s))"
proof (induction sep s rule: split_str.induct)
  case (2 sep c cs)
  show ?case
  proof (cases "sep \<noteq> [] \<and> take (length sep) (c # cs) = sep")
    case True
    then have split: "sep @ drop (length sep) (c # cs) = c # cs" by (metis append_take_drop_id)
    have "join REDACTED (split_str sep (c # cs)) = REDACTED @ join REDACTED (split_str sep (drop (length sep) (c # cs)))"
      by (simp only: join_split_Cons if_P [OF True])
    with blanked.mark [OF 2(1) [OF True], of sep] show ?thesis unfolding split by (simp only:)
  next
    case False
    have "join REDACTED (split_str sep (c # cs)) = c # join REDACTED (split_str sep cs)"
      by (simp only: join_split_Cons if_not_P [OF False])
    with blanked.keep [OF 2(2) [OF False], of c] show ?thesis by (simp only:)
  qed
qed (simp add: blanked.nil)

subsection \<open>A registered secret does not survive\<close>

text \<open>A secret of which no piece can come from the marker.\<close>

definition apart :: "string \<Rightarrow> bool" where
  "apart s \<longleftrightarrow> CHR ''['' \<notin> set s \<and> CHR '']'' \<notin> set s \<and> \<not> sublist s ''REDACTED'' \<and> s \<noteq> []"

lemma blanked_prefix: "blanked s t \<Longrightarrow> prefix v t \<Longrightarrow> CHR ''['' \<notin> set v \<Longrightarrow> prefix v s"
proof (induction arbitrary: v rule: blanked.induct)
  case (keep s t c)
  then show ?case by (cases v) auto
next
  case (mark s t u)
  then show ?case by (cases v) (auto simp: REDACTED_def)
qed simp

lemma sublist_marker:
  assumes "apart s" "sublist s (REDACTED @ t)"
  shows "sublist s t"
proof -
  have m: "REDACTED = [CHR ''[''] @ ''REDACTED'' @ [CHR '']'']" by (simp add: REDACTED_def)
  have open_end: "a = []" if "prefix a (CHR ''['' # x)" "s = b @ a" for a b x
    using that assms(1) by (cases a) (auto simp: apart_def)
  have closed: "a = []" if "suffix a (x @ [CHR '']''])" "s = a @ b" for a b x
    using that assms(1) by (cases a rule: rev_cases) (auto simp: apart_def)
  have inside: "\<not> sublist s (CHR ''['' # (''REDACTED'' @ [CHR '']'']))"
  proof
    assume "sublist s (CHR ''['' # (''REDACTED'' @ [CHR '']'']))"
    then consider "prefix s (CHR ''['' # (''REDACTED'' @ [CHR '']'']))" | "sublist s (''REDACTED'' @ [CHR '']''])"
      by (auto simp: sublist_Cons_right)
    then show False
    proof cases
      case 1
      from open_end [OF 1, of "[]"] assms(1) show ?thesis by (simp add: apart_def)
    next
      case 2
      then consider "sublist s [CHR '']'']" | a b where "s = a @ b" "suffix a ''REDACTED''" "prefix b [CHR '']'']"
        using assms(1) unfolding sublist_append apart_def by blast
      then show ?thesis
      proof cases
        case 1
        with assms(1) show ?thesis by (cases s) (auto simp: apart_def sublist_Cons_right)
      next
        case 2
        then have "b = []" using assms(1) by (cases b) (auto simp: apart_def)
        with 2 assms(1) suffix_imp_sublist show ?thesis by (auto simp: apart_def)
      qed
    qed
  qed
  from assms(2) consider "sublist s REDACTED" | "sublist s t"
    | a b where "s = a @ b" "suffix a REDACTED" "prefix b t"
    unfolding sublist_append by blast
  then show ?thesis
  proof cases
    case 1
    with inside show ?thesis by (simp add: REDACTED_def)
  next
    case 3
    with closed [of a "''[REDACTED''" b] have "a = []" by (simp add: REDACTED_def)
    with 3 show ?thesis by (simp add: prefix_imp_sublist)
  qed
qed

text \<open>Nothing the redactor writes can produce a piece that the text did not have.\<close>

lemma blanked_sublist: "blanked s t \<Longrightarrow> apart x \<Longrightarrow> sublist x t \<Longrightarrow> sublist x s"
proof (induction rule: blanked.induct)
  case (keep s t c)
  then have "CHR ''['' \<notin> set x" by (simp add: apart_def)
  with keep blanked_prefix [OF blanked.keep [OF keep.hyps, of c], of x] show ?case
    by (auto simp: sublist_Cons_right)
next
  case (mark s t u)
  then have "sublist x s" using sublist_marker by blast
  then show ?case by (simp add: sublist_append)
qed simp

lemma split_removes:
  assumes "apart x"
  shows "\<not> sublist x (join REDACTED (split_str x s))"
  using assms
proof (induction x s rule: split_str.induct)
  case (1 x)
  then show ?case by (simp add: apart_def)
next
  case (2 x c cs)
  show ?case
  proof (cases "x \<noteq> [] \<and> take (length x) (c # cs) = x")
    case True
    with 2(1) [OF True 2(3)] show ?thesis
      unfolding join_split_Cons if_P [OF True] using sublist_marker [OF 2(3)] by blast
  next
    case False
    have "prefix x (c # cs)" if "prefix x (c # join REDACTED (split_str x cs))"
      using blanked_prefix [OF blanked.keep [OF blanked_split] that] 2(3) by (simp add: apart_def)
    then have "\<not> prefix x (c # join REDACTED (split_str x cs))"
      using False 2(3) by (auto simp: apart_def prefix_def)
    with 2(2) [OF False 2(3)] show ?thesis
      unfolding join_split_Cons if_not_P [OF False] by (simp add: sublist_Cons_right)
  qed
qed

lemma fold_never_adds:
  assumes "\<And>k s. P (f k s) \<Longrightarrow> P s" and "P (fold f ks s)"
  shows "P s"
  using assms(2)
proof (induction ks arbitrary: s)
  case (Cons k ks)
  then have "P (f k s)" by simp
  then show ?case by (rule assms(1))
qed simp

lemma blanked_folds:
  assumes "apart x"
  shows "sublist x (fold (\<lambda>secret out. join REDACTED (split_str secret out)) known s) \<Longrightarrow> sublist x s"
    and "sublist x (fold (\<lambda>pattern out. replace_all pattern None out) ps s) \<Longrightarrow> sublist x s"
  by (erule fold_never_adds [rotated], erule blanked_sublist [OF blanked_split assms])
    (erule fold_never_adds [rotated], erule blanked_sublist [OF blanked_replace_all assms])

lemma redact_removes:
  assumes "apart x" "x \<in> set known"
  shows "\<not> sublist x (redact known s)"
proof -
  define cut where "cut = (\<lambda>secret out. join REDACTED (split_str secret out))"
  obtain ks ks' where k: "known = ks @ x # ks'" using assms(2) by (meson split_list)
  have "\<not> sublist x (cut x (fold cut ks s))" using split_removes [OF assms(1)] by (simp add: cut_def)
  then have "\<not> sublist x (fold cut ks' (cut x (fold cut ks s)))"
    using blanked_folds(1) [OF assms(1)] unfolding cut_def by blast
  then show ?thesis
    unfolding redact_def k cut_def [symmetric] using blanked_folds(2) [OF assms(1)] by auto
qed

subsection \<open>Composition with the daemon\<close>

fun clean_payload :: "string \<Rightarrow> event_payload \<Rightarrow> bool" where
  "clean_payload x (EP_run_log r chunk) \<longleftrightarrow> \<not> sublist x chunk"
| "clean_payload x _ \<longleftrightarrow> True"

definition clean_log :: "string \<Rightarrow> daemon \<Rightarrow> bool" where
  "clean_log x d \<longleftrightarrow> (\<forall>e \<in> set (emitted (sf_trace d)). clean_payload x (ev_payload e))"

lemma clean_observe: "clean_log x (observe ob d) \<longleftrightarrow> clean_log x d \<and> list_all (clean_payload x \<circ> ev_payload) (event_of ob)"
  by (auto simp: clean_log_def observe_def emitted_def list_all_iff)

lemma clean_persist [simp]:
  "clean_log x (persist ev d) \<longleftrightarrow> clean_log x d \<and> pred_option (clean_payload x \<circ> ev_payload) ev"
  by (cases ev) (simp_all add: clean_log_def persist_def observe_def emitted_def ball_Un conj_commute)

lemma clean_quiet [simp]: "write_of ob = None \<Longrightarrow> clean_log x (observe ob d) = clean_log x d"
  by (cases ob) (simp_all add: clean_observe)

lemma clean_fields [simp]:
  "clean_log x (d\<lparr>dm_launchCommands := ks\<rparr>) = clean_log x d" "clean_log x (d\<lparr>dm_inFlightCommands := ks\<rparr>) = clean_log x d"
  "clean_log x (d\<lparr>dm_settledReported := b\<rparr>) = clean_log x d" "clean_log x (d\<lparr>dm_connected := b\<rparr>) = clean_log x d"
  "clean_log x (d\<lparr>dm_heartbeat := b\<rparr>) = clean_log x d" "clean_log x (d\<lparr>dm_stopped := b\<rparr>) = clean_log x d"
  "clean_log x (d\<lparr>dm_fenced := b\<rparr>) = clean_log x d" "clean_log x (d\<lparr>dm_executionPaused := b\<rparr>) = clean_log x d"
  "clean_log x (d\<lparr>dm_knowledgeTransportEnabled := b\<rparr>) = clean_log x d" "clean_log x (d\<lparr>dm_fixture := fr\<rparr>) = clean_log x d"
  "clean_log x (d\<lparr>dm_live := lg\<rparr>) = clean_log x d" "clean_log x (d\<lparr>dm_pending := ps\<rparr>) = clean_log x d"
  "clean_log x (d\<lparr>dm_serverAckSeq := n\<rparr>) = clean_log x d" "clean_log x (d\<lparr>dm_highestEventSeqSent := n\<rparr>) = clean_log x d"
  "clean_log x (d\<lparr>sf_state := st\<rparr>) = clean_log x d"
  by (simp_all add: clean_log_def)

lemma clean_send [simp]: "clean_log x (sendBufferedEvents d) = clean_log x d"
proof -
  have "clean_log x (send_events es d) = clean_log x d" for es by (induction es arbitrary: d) simp_all
  then show ?thesis by (simp add: sendBufferedEvents_def Let_def)
qed

text \<open>The redactor of the daemon removes \<open>x\<close>.\<close>

definition redacts :: "string \<Rightarrow> daemon_env \<Rightarrow> bool" where
  "redacts x env \<longleftrightarrow> (\<forall>s. \<not> sublist x (dx_redact env s))"

lemma redacts_clean: "redacts x env \<Longrightarrow> clean_payload x (safe_payload env p)"
  by (cases p) (simp_all add: redacts_def)

interpretation clean: daemon_wide "\<lambda>d. redacts x env \<longrightarrow> clean_log x d" env "\<lambda>_. True" for x env
proof -
  have ensure: "clean_log x (snd (ensureTerminalAck i d))" if "clean_log x d" for i and d :: daemon
    using that by (simp add: ensureTerminalAck_def Let_def ack_event_def split: option.split)
  show "daemon_wide (\<lambda>d. redacts x env \<longrightarrow> clean_log x d) env (\<lambda>_. True)"
    by unfold_locales
      (simp_all add: ensure recordExecution_def bufferEvent_def nextSeq_def emitted_event_def redacts_clean
        handleEventAcknowledgement_def take_over_def pruneAcked_def authenticated_def runner_socket_opens_def sendReconcileRequest_def
        disconnected_def stopHeartbeat_def Let_def split: option.split)
qed

lemma emitted_open: "emitted (sf_trace (open_file content r key g tr)) = emitted tr"
  by (simp add: open_file_def persist_def observe_def emitted_def Let_def split: prod.split)

lemma clean_reachable: "runner_reachable env d \<Longrightarrow> redacts x env \<Longrightarrow> clean_log x d"
proof (induction rule: runner_reachable.induct)
  case (call d c)
  then show ?case using clean.daemon_call_I [of x env d c] by simp
next
  case (crash d c n st opts r key g)
  then have "clean_log x (do_daemon_call env c d)" using clean.daemon_call_I [of x env d c] by simp
  then show ?case using set_take_subset [of n "sf_trace (do_daemon_call env c d)"]
    by (auto simp: clean_log_def emitted_open, auto simp: emitted_def)
qed (simp add: clean_log_def emitted_open)

lemma registered_stays: "s \<in> set known \<Longrightarrow> s \<in> set (fold registerSecret later known)"
  by (induction later arbitrary: known) (simp_all add: registerSecret_def)

lemma registered: "6 \<le> length s \<Longrightarrow> s \<in> set (registerSecret s known)"
  by (simp add: registerSecret_def)

text \<open>
  A registered secret of at least six characters that shares no piece with the marker is removed from every
  text. Nothing outside the tests registers one.
\<close>

lemma registered_secret_removed:
  assumes "6 \<le> length secret" "apart secret"
  shows "\<not> sublist secret (redact (fold registerSecret later (registerSecret secret earlier)) s)"
  using redact_removes [OF assms(2) registered_stays [OF registered [OF assms(1)]]] .

subsection \<open>No token survives\<close>

text \<open>The words of a pattern of characters and runs of characters, none of which is a bracket of the marker.\<close>

fun re_word :: "re_item list \<Rightarrow> string \<Rightarrow> bool" where
  "re_word [] w \<longleftrightarrow> w = []"
| "re_word (RE_one p # is) w \<longleftrightarrow> (\<exists>c v. w = c # v \<and> p c \<and> re_word is v)"
| "re_word (RE_many p n # is) w \<longleftrightarrow> (\<exists>u v. w = u @ v \<and> n \<le> length u \<and> list_all p u \<and> re_word is v)"
| "re_word _ w \<longleftrightarrow> False"

lemma re_match_run:
  assumes "\<And>prev. re_match is prev rest \<noteq> None"
  shows "list_all p u \<Longrightarrow> n \<le> length u \<Longrightarrow> re_match (RE_many p n # is) prev (u @ rest) \<noteq> None"
proof (induction u arbitrary: n prev)
  case Nil
  with assms show ?case by (cases rest) (auto simp: first_some_def split: option.split)
next
  case (Cons c u)
  then have "re_match (RE_many p (n - 1) # is) (Some c) (u @ rest) \<noteq> None" by simp
  with Cons.prems show ?case by (auto simp: first_some_def split: option.split)
qed

text \<open>Where a word of the pattern stands, the pattern matches.\<close>

lemma re_word_match: "re_word is w \<Longrightarrow> re_match is prev (w @ rest) \<noteq> None"
proof (induction "is" w arbitrary: prev rest rule: re_word.induct)
  case (3 p n "is" w)
  then obtain u v where w: "w = u @ v" "n \<le> length u" "list_all p u" "re_word is v" by auto
  then have "re_match is prev (v @ rest) \<noteq> None" for prev using 3(1) by blast
  with re_match_run [of "is" "v @ rest" p u n prev] w show ?case by simp
qed auto

lemma replaced_word:
  assumes "is = RE_one p # is'" "re_word is w" "apart w"
  shows "\<not> sublist w (replace_all is prev s)"
  using assms
proof (induction "is" prev s rule: replace_all.induct)
  case (1 "is" prev)
  then show ?case by (simp add: apart_def)
next
  case (2 "is" prev c cs)
  show ?case
  proof (cases "re_match is prev (c # cs)")
    case None
    have "\<not> prefix w (c # replace_all is (Some c) cs)"
    proof
      assume "prefix w (c # replace_all is (Some c) cs)"
      then have "prefix w (c # cs)"
        using blanked_prefix [OF blanked.keep [OF blanked_replace_all]] 2(6) by (simp add: apart_def)
      then show False using re_word_match [OF 2(5), of prev] None unfolding prefix_def by metis
    qed
    with None 2(1) [OF None 2(4-6)] show ?thesis by (simp add: sublist_Cons_right)
  next
    case (Some rest)
    then have "suffix rest cs" using re_match_suffix 2(4) by (auto split: if_splits)
    then have short: "length rest < length (c # cs)" using suffix_length_le [of rest cs] by simp
    with 2(2) [OF Some short 2(4-6)] Some show ?thesis using sublist_marker [OF 2(6)] by auto
  qed
qed

text \<open>
  The tokens that the code names: API keys, access tokens of GitHub, access keys of AWS, tokens of Slack
  and JSON web tokens.
\<close>

definition token :: "string \<Rightarrow> bool" where
  "token w \<longleftrightarrow>
     (\<exists>u. w = ''sk-'' @ u \<and> 16 \<le> length u \<and> list_all (alnum_or ''_-'') u) \<or>
     (\<exists>u. w = ''ghp_'' @ u \<and> 20 \<le> length u \<and> list_all alnum u) \<or>
     (\<exists>u. w = ''gho_'' @ u \<and> 20 \<le> length u \<and> list_all alnum u) \<or>
     (\<exists>u. w = ''AKIA'' @ u \<and> length u = 16 \<and> list_all (\<lambda>c. digit c \<or> upper c) u) \<or>
     (\<exists>k u. w = ''xox'' @ k # ''-'' @ u \<and> k \<in> set ''baprs'' \<and> 10 \<le> length u \<and> list_all (alnum_or ''-'') u) \<or>
     (\<exists>u v x. w = ''eyJ'' @ u @ ''.'' @ v @ ''.'' @ x \<and> 10 \<le> length u \<and> 10 \<le> length v \<and> 5 \<le> length x
        \<and> list_all (alnum_or ''_-'') (u @ v @ x))"

lemma re_word_ones: "re_word (replicate n (RE_one p)) w \<longleftrightarrow> length w = n \<and> list_all p w"
proof (induction n arbitrary: w)
  case (Suc n)
  then show ?case by (cases w) auto
qed auto

lemma re_word_literally: "re_word is v \<Longrightarrow> re_word (literally s @ is) (s @ v)"
  by (induction s) (simp_all add: literally_def)

lemma re_word_run: "n \<le> length u \<Longrightarrow> list_all p u \<Longrightarrow> re_word is v \<Longrightarrow> re_word (RE_many p n # is) (u @ v)"
  by auto

lemma token_word:
  assumes "token w"
  obtains "is" p is' where "is \<in> set PATTERNS" "is = RE_one p # is'" "re_word is w"
proof -
  have "\<exists>s is. literally s @ is \<in> set PATTERNS \<and> s \<noteq> [] \<and> re_word (literally s @ is) w"
    using assms unfolding token_def
  proof (elim disjE exE conjE, goal_cases)
    case (1 u)
    then have "re_word (literally ''sk-'' @ [RE_many (alnum_or ''_-'') 16]) w"
      using re_word_run [of 16 u _ "[]" "[]"] by (simp only: re_word_literally append_Nil2 re_word.simps simp_thms)
    then show ?case by (intro exI [of _ "''sk-''"] exI [of _ "[RE_many (alnum_or ''_-'') 16]"]) (simp add: PATTERNS_def)
  next
    case (2 u)
    then have "re_word (literally ''ghp_'' @ [RE_many alnum 20]) w"
      using re_word_run [of 20 u _ "[]" "[]"] by (simp only: re_word_literally append_Nil2 re_word.simps simp_thms)
    then show ?case by (intro exI [of _ "''ghp_''"] exI [of _ "[RE_many alnum 20]"]) (simp add: PATTERNS_def)
  next
    case (3 u)
    then have "re_word (literally ''gho_'' @ [RE_many alnum 20]) w"
      using re_word_run [of 20 u _ "[]" "[]"] by (simp only: re_word_literally append_Nil2 re_word.simps simp_thms)
    then show ?case by (intro exI [of _ "''gho_''"] exI [of _ "[RE_many alnum 20]"]) (simp add: PATTERNS_def)
  next
    case (4 u)
    then have "re_word (literally ''AKIA'' @ replicate 16 (RE_one (\<lambda>c. digit c \<or> upper c))) w"
      by (simp only: re_word_literally re_word_ones)
    then show ?case
      by (intro exI [of _ "''AKIA''"] exI [of _ "replicate 16 (RE_one (\<lambda>c. digit c \<or> upper c))"]) (simp only: PATTERNS_def, simp)
  next
    case (5 k u)
    let ?rest = "literally ''-'' @ [RE_many (alnum_or ''-'') 10]"
    have "re_word ?rest (''-'' @ u)"
      using 5 re_word_run [of 10 u _ "[]" "[]"] by (simp only: re_word_literally append_Nil2 re_word.simps simp_thms)
    then have "re_word (RE_one (\<lambda>c. c \<in> set ''baprs'') # ?rest) (k # ''-'' @ u)" using 5(2) by (simp only: re_word.simps) blast
    then have "re_word (literally ''xox'' @ RE_one (\<lambda>c. c \<in> set ''baprs'') # ?rest) w"
      unfolding 5(1) by (rule re_word_literally)
    then show ?case
      by (intro exI [of _ "''xox''"] exI [of _ "RE_one (\<lambda>c. c \<in> set ''baprs'') # ?rest"]) (simp only: PATTERNS_def, simp)
  next
    case (6 u v x)
    let ?run = "RE_many (alnum_or ''_-'')"
    have "re_word [?run 5] x" using 6 re_word_run [of 5 x _ "[]" "[]"] by simp
    then have "re_word (?run 10 # literally ''.'' @ [?run 5]) (v @ ''.'' @ x)"
      using 6 by (intro re_word_run re_word_literally) simp_all
    then have "re_word (?run 10 # literally ''.'' @ ?run 10 # literally ''.'' @ [?run 5]) (u @ ''.'' @ v @ ''.'' @ x)"
      using 6 by (intro re_word_run re_word_literally) simp_all
    then have "re_word (literally ''eyJ'' @ ?run 10 # literally ''.'' @ ?run 10 # literally ''.'' @ [?run 5]) w"
      unfolding 6(1) by (rule re_word_literally)
    then show ?case
      by (intro exI [of _ "''eyJ''"] exI [of _ "?run 10 # literally ''.'' @ ?run 10 # literally ''.'' @ [?run 5]"])
        (simp only: PATTERNS_def, simp)
  qed
  then obtain s "is" where "literally s @ is \<in> set PATTERNS" "s \<noteq> []" "re_word (literally s @ is) w" by blast
  then show thesis by (cases s) (auto simp: literally_def intro: that)
qed

lemma plain_characters:
  "list_all (alnum_or e) u \<Longrightarrow> CHR ''['' \<notin> set e \<Longrightarrow> CHR '']'' \<notin> set e \<Longrightarrow> CHR ''['' \<notin> set u \<and> CHR '']'' \<notin> set u"
  "list_all alnum u \<Longrightarrow> CHR ''['' \<notin> set u \<and> CHR '']'' \<notin> set u"
  "list_all (\<lambda>c. digit c \<or> upper c) u \<Longrightarrow> CHR ''['' \<notin> set u \<and> CHR '']'' \<notin> set u"
  by (auto simp: list_all_iff alnum_or_def alnum_def upper_def lower_def digit_def in_range_def)

lemma token_apart:
  assumes "token w"
  shows "apart w"
proof -
  have "CHR ''['' \<notin> set w \<and> CHR '']'' \<notin> set w \<and> 8 < length w"
    using assms unfolding token_def by (elim disjE exE conjE) (auto dest: plain_characters)
  then show ?thesis using sublist_length_le [of w "''REDACTED''"] by (auto simp: apart_def)
qed

lemma no_token_survives:
  assumes "token w"
  shows "\<not> sublist w (redact known s)"
proof -
  obtain "is" p is' where p: "is \<in> set PATTERNS" "is = RE_one p # is'" "re_word is w"
    using token_word [OF assms] .
  have a: "apart w" using token_apart [OF assms] .
  define cut where "cut = (\<lambda>pattern. replace_all pattern None)"
  obtain ps ps' where k: "PATTERNS = ps @ is # ps'" using p(1) by (meson split_list)
  define t where "t = fold (\<lambda>secret out. join REDACTED (split_str secret out)) known s"
  have "\<not> sublist w (cut is (fold cut ps t))" using replaced_word [OF p(2,3) a] by (simp add: cut_def)
  then have "\<not> sublist w (fold cut ps' (cut is (fold cut ps t)))"
    using blanked_folds(2) [OF a] unfolding cut_def by blast
  then show ?thesis unfolding redact_def k t_def [symmetric] cut_def [symmetric] by simp
qed

text \<open>
  C30: No token leaves the runner in a log. The redactor of a runner knows no secret, since nothing registers
  one, so what it does is to replace its patterns: in no state that a runner can reach, through crashes and
  restarts, does the chunk of a log event that it has buffered or sent contain an API key, an access token
  of GitHub, an access key of AWS, a token of Slack or a JSON web token, wherever in the chunk and next to
  whatever it stands, also where it could arise from the replacement of something else. (A token that is split over
  two chunks is not covered, nor are the patterns for PEM blocks and for keys with a value.)
\<close>

theorem tokens_never_logged:
  assumes "runner_reachable env d" and "dx_redact env = redact []"
    and "e \<in> set (emitted (sf_trace d)) \<union> set (sent (sf_trace d))" and "ev_payload e = EP_run_log r chunk"
    and "sublist w chunk"
  shows "\<not> token w"
proof
  assume "token w"
  then have "redacts w env" using no_token_survives unfolding redacts_def assms(2) by blast
  then have "clean_log w d" using assms(1) clean_reachable by blast
  moreover have "e \<in> set (emitted (sf_trace d))"
    using assms(3) file_okD(3) [OF daemon_okD(1) [OF reachable_ok [OF assms(1)]]] by blast
  ultimately show False using assms(4,5) by (auto simp: clean_log_def)
qed

text \<open>A fixture that logs a token.\<close>

definition leak_env :: daemon_env where
  "leak_env = sample_env\<lparr>dx_redact := redact []\<rparr>"

definition leak_daemon :: daemon where
  "leak_daemon = do_daemon_call leak_env (DC_command 1 (sample_command (CP_launch_fixture ''leak:ghp_0123456789abcdefghij'')))
     (do_daemon_call leak_env DC_authenticated (new_daemon sample_options (open_file None ''r1'' [] 1 [])))"

lemma leak_reachable: "runner_reachable leak_env leak_daemon"
  unfolding leak_daemon_def
  by (intro runner_reachable.call runner_reachable.enroll) (simp_all add: sample_command_def)

definition logged_as :: "string \<Rightarrow> event_envelope \<Rightarrow> bool" where
  "logged_as s e \<longleftrightarrow> (case ev_payload e of EP_run_log r chunk \<Rightarrow> chunk = s | _ \<Rightarrow> False)"

lemma leak_logged: "list_ex (logged_as ''credential dump: [REDACTED]'') (sent (sf_trace leak_daemon))"
  by code_simp

theorem tokens_never_logged_witness:
  "\<exists>e \<in> set (sent (sf_trace leak_daemon)). \<exists>r chunk. ev_payload e = EP_run_log r chunk
     \<and> chunk = ''credential dump: [REDACTED]'' \<and> \<not> token ''REDACTED''"
proof -
  obtain e where e: "e \<in> set (sent (sf_trace leak_daemon))" "logged_as ''credential dump: [REDACTED]'' e"
    using leak_logged unfolding list_ex_iff by blast
  then obtain r chunk where p: "ev_payload e = EP_run_log r chunk" "chunk = ''credential dump: [REDACTED]''"
    unfolding logged_as_def by (cases "ev_payload e") simp_all
  have "sublist ''REDACTED'' chunk" unfolding p(2) by (simp add: sublist_Cons_right)
  with tokens_never_logged [OF leak_reachable _ _ p(1)] e(1) have "\<not> token ''REDACTED''"
    by (simp add: leak_env_def)
  with e(1) p show ?thesis by blast
qed

text \<open>What the restriction to six characters and to pieces apart from the marker excludes.\<close>

lemma short_secret_survives: "redact (registerSecret ''pin12'' []) ''pin12'' = ''pin12''"
  by code_simp

lemma marker_restores_secret: "redact (registerSecret ''REDACT'' []) ''REDACT'' = ''[REDACTED]''"
  by code_simp

text \<open>
  The texts of acknowledgements do not pass through the redactor: a failed collection of visual evidence
  sends its error as it is.
\<close>

lemma ack_detail_unredacted:
  "safe_payload (env\<lparr>dx_redact := redact known\<rparr>) (EP_command_ack c st detail) = EP_command_ack c st detail"
  by simp

end
