(* ===== verification/Login_Throttle.thy ===== *)
theory Login_Throttle
  imports Replay
begin

section \<open>Throttling of logins\<close>

text \<open>
  \<^verbatim>\<open>apps/server/src/users/loginThrottle.ts\<close> and the login route of \<^verbatim>\<open>server.ts\<close>: the failed logins of an
  account and address are kept with their times, and a login is refused while as many as allowed lie
  inside the window. Keys are hashes and stay abstract. The route awaits the verification of the password
  between the check and the record, so logins overlap.
\<close>

subsection \<open>The throttle\<close>

record login_throttle =
  lt_failures :: "(string, int list) jmap"
  lt_maximumFailures :: int
  lt_windowMs :: int

definition MAX_SAFE_INTEGER :: int where "MAX_SAFE_INTEGER = 2 ^ 53 - 1"

definition new_throttle :: "int \<Rightarrow> int \<Rightarrow> string + login_throttle" where
  "new_throttle maximumFailures windowMs =
     (if \<bar>maximumFailures\<bar> > MAX_SAFE_INTEGER \<or> maximumFailures < 1
      then Inl ''maximum login failures must be a positive integer''
      else if \<bar>windowMs\<bar> > MAX_SAFE_INTEGER \<or> windowMs < 1
      then Inl ''login throttle window must be a positive integer''
      else Inr \<lparr>lt_failures = [], lt_maximumFailures = maximumFailures, lt_windowMs = windowMs\<rparr>)"

definition throttle_recent :: "string \<Rightarrow> int \<Rightarrow> login_throttle \<Rightarrow> int list \<times> login_throttle" where
  "throttle_recent key moment t =
     (let threshold = moment - lt_windowMs t;
          recent = filter (\<lambda>v. threshold < v) (case jget (lt_failures t) key of Some vs \<Rightarrow> vs | None \<Rightarrow> []);
          failures = (if recent \<noteq> [] then jset key recent (lt_failures t) else jdel key (lt_failures t))
      in (recent, t\<lparr>lt_failures := failures\<rparr>))"

text \<open>The quotient rounded up.\<close>

definition ceil_div :: "int \<Rightarrow> int \<Rightarrow> int" where "ceil_div a b = - ((- a) div b)"

definition throttle_check :: "string \<Rightarrow> int \<Rightarrow> login_throttle \<Rightarrow> (bool \<times> int) \<times> login_throttle" where
  "throttle_check key moment t =
     (let (recent, t') = throttle_recent key moment t in
      if int (length recent) < lt_maximumFailures t then ((True, 0), t')
      else (let oldest = (case recent of v # _ \<Rightarrow> v | [] \<Rightarrow> moment)
            in ((False, max 1 (ceil_div (oldest + lt_windowMs t - moment) 1000)), t')))"

definition recordFailure :: "string \<Rightarrow> int \<Rightarrow> login_throttle \<Rightarrow> login_throttle" where
  "recordFailure key moment t =
     (let (recent, t') = throttle_recent key moment t in t'\<lparr>lt_failures := jset key (recent @ [moment]) (lt_failures t')\<rparr>)"

definition recordSuccess :: "string \<Rightarrow> login_throttle \<Rightarrow> login_throttle" where
  "recordSuccess key t = t\<lparr>lt_failures := jdel key (lt_failures t)\<rparr>"

datatype throttle_call = TC_check string int | TC_failure string int | TC_success string

fun do_throttle_call :: "throttle_call \<Rightarrow> login_throttle \<Rightarrow> login_throttle" where
  "do_throttle_call (TC_check k moment) t = snd (throttle_check k moment t)"
| "do_throttle_call (TC_failure k moment) t = recordFailure k moment t"
| "do_throttle_call (TC_success k) t = recordSuccess k t"

subsection \<open>The login route\<close>

text \<open>
  A request that passes the check waits for the identity service; its end records the result, a failure
  with the time at which the attempt began.
\<close>

datatype login_event =
    LE_arrive string int
  | LE_finish nat bool

record login_server =
  ls_throttle :: login_throttle
  ls_pending :: "(string \<times> int) list"
  ls_replies :: "nat list"

definition remove_nth :: "nat \<Rightarrow> 'a list \<Rightarrow> 'a list" where
  "remove_nth i xs = take i xs @ drop (Suc i) xs"

fun login_step :: "login_event \<Rightarrow> login_server \<Rightarrow> login_server" where
  "login_step (LE_arrive key moment) s =
     (let ((allowed, retry), t) = throttle_check key moment (ls_throttle s)
      in if allowed then s\<lparr>ls_throttle := t, ls_pending := ls_pending s @ [(key, moment)]\<rparr>
         else s\<lparr>ls_throttle := t, ls_replies := ls_replies s @ [429]\<rparr>)"
| "login_step (LE_finish i ok) s =
     (if length (ls_pending s) \<le> i then s
      else (let (key, moment) = ls_pending s ! i in
        s\<lparr>ls_throttle := (if ok then recordSuccess key (ls_throttle s) else recordFailure key moment (ls_throttle s)),
          ls_pending := remove_nth i (ls_pending s), ls_replies := ls_replies s @ [if ok then 200 else 401]\<rparr>))"

subsection \<open>Against the full history\<close>

text \<open>The reference: the failures of a key since its last success, as the calls say.\<close>

fun count_failure :: "string \<Rightarrow> throttle_call \<Rightarrow> int list \<Rightarrow> int list" where
  "count_failure k (TC_check k' moment) vs = vs"
| "count_failure k (TC_failure k' moment) vs = (if k' = k then vs @ [moment] else vs)"
| "count_failure k (TC_success k') vs = (if k' = k then [] else vs)"

definition failures_of :: "string \<Rightarrow> throttle_call list \<Rightarrow> int list" where
  "failures_of k cs = fold (count_failure k) cs []"

fun call_time :: "throttle_call \<Rightarrow> int option" where
  "call_time (TC_check k moment) = Some moment"
| "call_time (TC_failure k moment) = Some moment"
| "call_time (TC_success k) = None"

definition failures_at :: "string \<Rightarrow> login_throttle \<Rightarrow> int list" where
  "failures_at k t = (case jget (lt_failures t) k of Some vs \<Rightarrow> vs | None \<Rightarrow> [])"

definition inside :: "int \<Rightarrow> int \<Rightarrow> int list \<Rightarrow> int list" where
  "inside win moment vs = filter (\<lambda>v. moment - win < v) vs"

lemma inside_within: "moment \<le> now \<Longrightarrow> inside win now (inside win moment vs) = inside win now vs"
  by (simp add: inside_def) (metis (mono_tags, lifting) diff_right_mono le_less_trans)

lemma inside_append [simp]: "inside win moment (xs @ ys) = inside win moment xs @ inside win moment ys"
  by (simp add: inside_def)

lemma recent_list: "fst (throttle_recent k moment t) = inside (lt_windowMs t) moment (failures_at k t)"
  by (simp add: throttle_recent_def inside_def failures_at_def Let_def)

lemma recent_state:
  "failures_at k' (snd (throttle_recent k moment t)) =
     (if k' = k then inside (lt_windowMs t) moment (failures_at k t) else failures_at k' t)"
  "lt_windowMs (snd (throttle_recent k moment t)) = lt_windowMs t"
  "lt_maximumFailures (snd (throttle_recent k moment t)) = lt_maximumFailures t"
  by (simp_all add: throttle_recent_def inside_def failures_at_def Let_def)

lemma call_constants [simp]:
  "lt_windowMs (do_throttle_call c t) = lt_windowMs t" "lt_maximumFailures (do_throttle_call c t) = lt_maximumFailures t"
  using recent_state(2,3)
  by (cases c; simp add: throttle_check_def recordFailure_def recordSuccess_def Let_def split: prod.split; metis snd_conv)+

lemma state_after [simp]:
  "failures_at k' (snd (throttle_check k moment t)) =
     (if k' = k then inside (lt_windowMs t) moment (failures_at k t) else failures_at k' t)"
  "failures_at k' (recordFailure k moment t) =
     (if k' = k then inside (lt_windowMs t) moment (failures_at k t) @ [moment] else failures_at k' t)"
  "failures_at k' (recordSuccess k t) = (if k' = k then [] else failures_at k' t)"
proof -
  obtain r t' where e: "throttle_recent k moment t = (r, t')" by fastforce
  note rs = recent_list [of k moment t] recent_state(1) [of k' k moment t]
  show "failures_at k' (snd (throttle_check k moment t)) =
     (if k' = k then inside (lt_windowMs t) moment (failures_at k t) else failures_at k' t)"
    using rs e by (auto simp: throttle_check_def)
  show "failures_at k' (recordFailure k moment t) =
     (if k' = k then inside (lt_windowMs t) moment (failures_at k t) @ [moment] else failures_at k' t)"
    using rs e by (simp add: recordFailure_def) (simp add: failures_at_def)
  show "failures_at k' (recordSuccess k t) = (if k' = k then [] else failures_at k' t)"
    by (simp add: recordSuccess_def failures_at_def)
qed

lemma failures_agree:
  assumes "\<And>c s. c \<in> set cs \<Longrightarrow> call_time c = Some s \<Longrightarrow> s \<le> now"
  shows "inside (lt_windowMs t) now (failures_at k (fold do_throttle_call cs t)) =
     inside (lt_windowMs t) now (fold (count_failure k) cs (failures_at k t))"
  using assms
proof (induction cs arbitrary: t rule: rev_induct)
  case (snoc c cs)
  define t' where "t' = fold do_throttle_call cs t"
  have w: "lt_windowMs t' = lt_windowMs t"
    unfolding t'_def by (induction cs arbitrary: t) simp_all
  have ih: "inside (lt_windowMs t) now (failures_at k t') =
      inside (lt_windowMs t) now (fold (count_failure k) cs (failures_at k t))"
    unfolding t'_def by (rule snoc.IH) (use snoc.prems in auto)
  have time: "call_time c = Some s \<Longrightarrow> s \<le> now" for s using snoc.prems by auto
  show ?case using ih time
    by (cases c) (auto simp: w inside_within simp flip: t'_def)
qed simp

lemma inside_Nil [simp]: "inside win now [] = []"
  by (simp add: inside_def)

lemma check_allowed:
  "fst (fst (throttle_check k moment t)) \<longleftrightarrow>
     int (length (inside (lt_windowMs t) moment (failures_at k t))) < lt_maximumFailures t"
  using recent_list [of k moment t] by (auto simp: throttle_check_def split: prod.split)

lemma throttle_decides:
  assumes "new_throttle maximum win = Inr t"
    and "\<And>c s. c \<in> set cs \<Longrightarrow> call_time c = Some s \<Longrightarrow> s \<le> now"
  shows "fst (fst (throttle_check k now (fold do_throttle_call cs t))) \<longleftrightarrow>
     int (length (filter (\<lambda>v. now - win < v) (failures_of k cs))) < maximum"
proof -
  have t: "lt_windowMs t = win" "lt_maximumFailures t = maximum" "failures_at k t = []"
    using assms(1) by (auto simp: new_throttle_def failures_at_def split: if_splits)
  have c: "lt_windowMs (fold do_throttle_call cs t) = lt_windowMs t"
    "lt_maximumFailures (fold do_throttle_call cs t) = lt_maximumFailures t"
    by (induction cs arbitrary: t) simp_all
  show ?thesis
    using failures_agree [OF assms(2), where t = t and k = k] by (simp add: check_allowed c t failures_of_def inside_def)
qed

text \<open>
  C31: The throttle decides as if it remembered everything. After any calls for any keys, with times that
  need not be in order but do not lie after \<open>now\<close>, a login of a key is allowed at \<open>now\<close> exactly when
  fewer than the allowed number of its failures since its last success lie inside the window, although
  every call has thrown away what was outside its own.
\<close>

theorem throttle_exact:
  assumes "new_throttle maximum win = Inr t"
    and "\<And>c s. c \<in> set cs \<Longrightarrow> call_time c = Some s \<Longrightarrow> s \<le> now"
  shows "fst (fst (throttle_check k now (fold do_throttle_call cs t))) \<longleftrightarrow>
     int (length (filter (\<lambda>v. now - win < v) (failures_of k cs))) < maximum"
  using assms by (rule throttle_decides)

theorem throttle_exact_witness:
  "\<not> fst (fst (throttle_check ''k'' 20 (fold do_throttle_call [TC_failure ''k'' 3, TC_failure ''k'' 9]
     \<lparr>lt_failures = [], lt_maximumFailures = 2, lt_windowMs = 18\<rparr>)))"
  by (subst throttle_exact [of 2 18]) (auto simp: new_throttle_def MAX_SAFE_INTEGER_def failures_of_def)

subsection \<open>One client after the other, and many at once\<close>

definition login_start :: "login_throttle \<Rightarrow> login_server" where
  "login_start t = \<lparr>ls_throttle = t, ls_pending = [], ls_replies = []\<rparr>"

text \<open>Logins with a wrong password, one after the other.\<close>

definition serial_login :: "string \<Rightarrow> int \<Rightarrow> login_server \<Rightarrow> login_server" where
  "serial_login k moment s = login_step (LE_finish 0 False) (login_step (LE_arrive k moment) s)"

definition tried_times :: "int list \<Rightarrow> nat list \<Rightarrow> int list" where
  "tried_times ts rs = map fst (filter (\<lambda>(t, r). r = 401) (zip ts rs))"

lemma serial_login_cases:
  assumes "ls_pending s = []"
  shows "ls_pending (serial_login k moment s) = []"
    and "ls_replies (serial_login k moment s) = ls_replies s @
      [if fst (fst (throttle_check k moment (ls_throttle s))) then 401 else 429]"
    and "ls_throttle (serial_login k moment s) =
      fold do_throttle_call (if fst (fst (throttle_check k moment (ls_throttle s)))
        then [TC_check k moment, TC_failure k moment] else [TC_check k moment]) (ls_throttle s)"
  using assms by (auto simp: serial_login_def remove_nth_def split: prod.split)

lemma filter_length_mono: "(\<And>v. P v \<Longrightarrow> Q v) \<Longrightarrow> length (filter P xs) \<le> length (filter Q xs)"
  by (induction xs) (auto intro: le_SucI)

lemma serial_logins:
  fixes k :: string
  assumes "new_throttle maximum win = Inr t" and "sorted ts"
  defines "s \<equiv> fold (serial_login k) ts (login_start t)"
  shows "ls_pending s = [] \<and> length (ls_replies s) = length ts
    \<and> (\<exists>cs. ls_throttle s = fold do_throttle_call cs t \<and> failures_of k cs = tried_times ts (ls_replies s)
        \<and> (\<forall>c \<in> set cs. \<forall>v. call_time c = Some v \<longrightarrow> v \<in> set ts))"
  using assms(2) unfolding s_def
proof (induction ts rule: rev_induct)
  case (snoc moment ts)
  define s0 where "s0 = fold (serial_login k) ts (login_start t)"
  from snoc obtain cs where s0: "ls_pending s0 = []" "length (ls_replies s0) = length ts"
    and cs: "ls_throttle s0 = fold do_throttle_call cs t" "failures_of k cs = tried_times ts (ls_replies s0)"
      "\<And>c v. c \<in> set cs \<Longrightarrow> call_time c = Some v \<Longrightarrow> v \<in> set ts"
    unfolding s0_def by (auto simp: sorted_append)
  note step = serial_login_cases [OF s0(1), where k = k and moment = moment]
  define new where "new = (if fst (fst (throttle_check k moment (ls_throttle s0)))
    then [TC_check k moment, TC_failure k moment] else [TC_check k moment])"
  have "ls_throttle (serial_login k moment s0) = fold do_throttle_call (cs @ new) t"
    using step(3) cs(1) by (simp add: new_def)
  moreover have "failures_of k (cs @ new) = tried_times (ts @ [moment]) (ls_replies (serial_login k moment s0))"
    using cs(2) s0(2) unfolding step(2) new_def by (simp add: failures_of_def tried_times_def)
  moreover have "v \<in> set (ts @ [moment])" if "c \<in> set (cs @ new)" "call_time c = Some v" for c v
    using that cs(3) by (auto simp: new_def split: if_splits)
  ultimately have "\<exists>cs'. ls_throttle (serial_login k moment s0) = fold do_throttle_call cs' t
      \<and> failures_of k cs' = tried_times (ts @ [moment]) (ls_replies (serial_login k moment s0))
      \<and> (\<forall>c \<in> set cs'. \<forall>v. call_time c = Some v \<longrightarrow> v \<in> set (ts @ [moment]))" by blast
  moreover have "fold (serial_login k) (ts @ [moment]) (login_start t) = serial_login k moment s0"
    by (simp add: s0_def)
  moreover have "length (ls_replies (serial_login k moment s0)) = length (ts @ [moment])" using step(2) s0(2) by simp
  ultimately show ?case using step(1) by (simp only: simp_thms)
qed (auto simp: login_start_def tried_times_def failures_of_def intro: exI [of _ "[]"])


text \<open>
  A client that tries one password after the other gets at most the allowed number of tries in any
  window: among its logins, at whatever nondecreasing times, at most \<open>maximum\<close> of those inside a window
  reach the identity service, and the others are answered with 429.
\<close>

theorem serial_logins_bounded:
  assumes "new_throttle maximum win = Inr t" and "sorted ts"
  shows "int (length (filter (\<lambda>v. T - win < v \<and> v \<le> T)
     (tried_times ts (ls_replies (fold (serial_login k) ts (login_start t)))))) \<le> maximum"
  using assms(2)
proof (induction ts rule: rev_induct)
  case Nil
  have "1 \<le> maximum" using assms(1) by (simp add: new_throttle_def split: if_splits)
  then show ?case by (simp add: tried_times_def)
next
  case (snoc moment ts)
  define s0 where "s0 = fold (serial_login k) ts (login_start t)"
  define tried where "tried = tried_times ts (ls_replies s0)"
  have sorted: "sorted ts" "\<And>v. v \<in> set ts \<Longrightarrow> v \<le> moment" using snoc.prems by (auto simp: sorted_append)
  from serial_logins [OF assms(1) sorted(1), of k] obtain cs
    where s0: "ls_pending s0 = []" "length (ls_replies s0) = length ts"
      and cs: "ls_throttle s0 = fold do_throttle_call cs t" "failures_of k cs = tried"
        "\<And>c v. c \<in> set cs \<Longrightarrow> call_time c = Some v \<Longrightarrow> v \<in> set ts"
    unfolding s0_def tried_def by blast
  have ih: "int (length (filter (\<lambda>v. T - win < v \<and> v \<le> T) tried)) \<le> maximum"
    using snoc.IH [OF sorted(1)] unfolding tried_def s0_def .
  have step: "tried_times (ts @ [moment]) (ls_replies (serial_login k moment s0)) =
      tried @ (if fst (fst (throttle_check k moment (ls_throttle s0))) then [moment] else [])"
    unfolding serial_login_cases(2) [OF s0(1)] using s0(2) by (simp add: tried_def tried_times_def)
  show ?case
  proof (cases "fst (fst (throttle_check k moment (ls_throttle s0))) \<and> moment \<le> T")
    case True
    have "int (length (filter (\<lambda>v. moment - win < v) tried)) < maximum"
      using throttle_decides [OF assms(1), of cs moment k] cs sorted(2) True by simp
    moreover have "length (filter (\<lambda>v. T - win < v \<and> v \<le> T) tried) \<le> length (filter (\<lambda>v. moment - win < v) tried)"
      using True by (intro filter_length_mono) auto
    ultimately show ?thesis using step True by (simp flip: s0_def)
  qed (use ih step in \<open>auto simp flip: s0_def\<close>)
qed

theorem serial_logins_bounded_witness:
  "int (length (filter (\<lambda>v. 30 - 18 < v \<and> v \<le> 30)
     (tried_times [3, 14, 15, 16, 40] (ls_replies (fold (serial_login ''k'') [3, 14, 15, 16, 40]
       (login_start \<lparr>lt_failures = [], lt_maximumFailures = 2, lt_windowMs = 18\<rparr>)))))) \<le> 2"
  by (rule serial_logins_bounded) (auto simp: new_throttle_def MAX_SAFE_INTEGER_def)

text \<open>
  C40: Logins that overlap are not bounded at all. The check counts only what has already failed, and the
  failure is recorded after the password was verified: of any number of logins that arrive before the
  first one has ended, every one reaches the identity service.
\<close>

theorem login_burst_unthrottled:
  assumes "new_throttle maximum win = Inr t"
  shows "ls_replies (fold login_step (replicate n (LE_arrive k moment) @ replicate n (LE_finish 0 False)) (login_start t))
     = replicate n 401"
proof -
  have arrive: "ls_pending (fold login_step (replicate m (LE_arrive k moment)) s) = ls_pending s @ replicate m (k, moment)
      \<and> ls_replies (fold login_step (replicate m (LE_arrive k moment)) s) = ls_replies s"
    if "failures_at k (ls_throttle s) = []" "0 < lt_maximumFailures (ls_throttle s)" for m s
    using that
  proof (induction m arbitrary: s)
    case (Suc m)
    define t' where "t' = snd (throttle_check k moment (ls_throttle s))"
    have "fst (fst (throttle_check k moment (ls_throttle s)))" using Suc.prems by (simp add: check_allowed)
    then have "login_step (LE_arrive k moment) s = s\<lparr>ls_throttle := t', ls_pending := ls_pending s @ [(k, moment)]\<rparr>"
      by (auto simp: t'_def split: prod.split)
    moreover have "failures_at k t' = []" "lt_maximumFailures t' = lt_maximumFailures (ls_throttle s)"
      using Suc.prems call_constants(2) [of "TC_check k moment"] by (simp_all add: t'_def)
    ultimately show ?case using Suc by simp
  qed simp
  have finish: "ls_replies (fold login_step (replicate m (LE_finish 0 False)) s) = ls_replies s @ replicate m 401"
    if "m \<le> length (ls_pending s)" for m s
    using that
    by (induction m arbitrary: s) (auto simp: remove_nth_def replicate_append_same split: prod.split)
  have "failures_at k t = []" "0 < lt_maximumFailures t"
    using assms by (auto simp: new_throttle_def failures_at_def split: if_splits)
  with arrive [of "login_start t" n] finish show ?thesis by (simp add: login_start_def)
qed

theorem login_burst_unthrottled_witness:
  "ls_replies (fold login_step (replicate 100 (LE_arrive ''k'' 0) @ replicate 100 (LE_finish 0 False))
     (login_start \<lparr>lt_failures = [], lt_maximumFailures = 5, lt_windowMs = 900000\<rparr>)) = replicate 100 401"
  by (rule login_burst_unthrottled [of 5 900000]) (simp add: new_throttle_def MAX_SAFE_INTEGER_def)

subsection \<open>When to come back\<close>

text \<open>
  The hint is exact for a client that keeps to the rules. With at most the allowed number of failures,
  in the order of their times, a refused login is allowed again after the hinted seconds, if nothing
  happens in between, and before the oldest failure leaves the window every login is refused.
\<close>

theorem retry_hint_exact:
  assumes "throttle_check k now t = ((False, r), t')" and "now \<le> later"
    and "int (length (failures_at k t)) \<le> lt_maximumFailures t" and "sorted (failures_at k t)"
    and "0 < lt_maximumFailures t"
  shows "(fst (fst (throttle_check k later t')) \<longleftrightarrow> hd (failures_at k t) + lt_windowMs t \<le> later)
    \<and> hd (failures_at k t) + lt_windowMs t \<le> now + 1000 * r
    \<and> (r = 1 \<or> now + 1000 * (r - 1) < hd (failures_at k t) + lt_windowMs t)"
proof -
  define f where "f = failures_at k t"
  obtain recent where rec: "throttle_recent k now t = (recent, t')" "lt_maximumFailures t \<le> int (length recent)"
    and r: "r = max 1 (ceil_div ((case recent of v # _ \<Rightarrow> v | [] \<Rightarrow> now) + lt_windowMs t - now) 1000)"
    using assms(1) by (auto simp: throttle_check_def split: prod.splits if_splits)
  have recent: "recent = inside (lt_windowMs t) now f" using recent_list [of k now t] rec(1) by (simp add: f_def)
  have "length f \<le> length recent" using rec(2) assms(3) by (simp add: f_def)
  then have all: "recent = f" using length_filter_less [of _ f] unfolding recent inside_def
    by (metis (mono_tags, lifting) filter_True leD)
  with rec(2) assms(5) have "f \<noteq> []" by auto
  then obtain v vs where f: "f = v # vs" by (cases f) auto
  have t': "failures_at k t' = f" "lt_maximumFailures t' = lt_maximumFailures t" "lt_windowMs t' = lt_windowMs t"
    using recent_state(1) [of k k now t] recent_state(2,3) [of k now t] rec(1) recent all by (simp_all add: f_def)
  have full: "lt_maximumFailures t = int (length f)" using rec(2) assms(3) all by (simp add: f_def)
  have "length (inside (lt_windowMs t) later f) < length f \<longleftrightarrow> v + lt_windowMs t \<le> later"
  proof
    assume l: "length (inside (lt_windowMs t) later f) < length f"
    then have "\<exists>x \<in> set f. \<not> later - lt_windowMs t < x"
      by (metis (mono_tags, lifting) filter_True inside_def less_irrefl)
    moreover have "v \<le> x" if "x \<in> set f" for x using that assms(4) f by (auto simp flip: f_def)
    ultimately show "v + lt_windowMs t \<le> later" by fastforce
  next
    assume "v + lt_windowMs t \<le> later"
    then show "length (inside (lt_windowMs t) later f) < length f"
      unfolding inside_def by (intro length_filter_less [of v]) (simp_all add: f)
  qed
  then have "fst (fst (throttle_check k later t')) \<longleftrightarrow> v + lt_windowMs t \<le> later"
    unfolding check_allowed t' full by simp
  moreover define x where "x = v + lt_windowMs t - now"
  have r': "r = max 1 (ceil_div x 1000)" using r all f by (simp add: x_def)
  have "0 < (1000::int)" by simp
  then obtain q m where "- x = 1000 * q + m" "0 \<le> m" "m < 1000" and q: "ceil_div x 1000 = - q"
    unfolding ceil_div_def by (metis mult_div_mod_eq pos_mod_bound pos_mod_sign)
  then have "x \<le> 1000 * ceil_div x 1000" "1000 * (ceil_div x 1000 - 1) < x"
    unfolding q by simp_all
  then have "x \<le> 1000 * r" "r = 1 \<or> 1000 * (r - 1) < x" unfolding r' by (auto simp: max_def)
  ultimately show ?thesis unfolding f_def [symmetric] by (auto simp: f x_def)
qed

theorem retry_hint_exact_witness:
  "fst (fst (throttle_check ''k'' 2018 \<lparr>lt_failures = [(''k'', [18, 25])], lt_maximumFailures = 2, lt_windowMs = 2000\<rparr>))"
proof -
  define t where "t = \<lparr>lt_failures = [(''k'', [18, 25::int])], lt_maximumFailures = 2, lt_windowMs = 2000\<rparr>"
  have "throttle_check ''k'' 30 t = ((False, 2), t)" by (simp add: t_def) code_simp
  then show ?thesis using retry_hint_exact [of "''k''" 30 t 2 t 2018] by (simp add: t_def failures_at_def)
qed

text \<open>
  With more failures than allowed, which a burst leaves behind, the hint is wrong: the login is refused
  again after the hinted time.
\<close>

lemma retry_hint_too_early:
  "let t = \<lparr>lt_failures = [(''k'', [0, 5000, 6000])], lt_maximumFailures = 2, lt_windowMs = 10000\<rparr>;
       ((allowed, r), t') = throttle_check ''k'' 7000 t
   in \<not> allowed \<and> r = 3 \<and> \<not> fst (fst (throttle_check ''k'' (7000 + 1000 * r) t'))"
  by code_simp

end
