(* ===== verification/Canonical_Json.thy ===== *)
theory Canonical_Json
  imports Norns_Prelude "HOL-Library.Char_ord" "HOL-Library.List_Lexorder"
begin

section \<open>Canonical JSON\<close>

text \<open>
  \<^verbatim>\<open>apps/server/src/persistence/migration/canonicalJson.ts\<close>, the text that every content hash of the server
  is computed from. A value is a tree here: the test for cycles, which a tree cannot have, is left out, and
  so is everything a getter could do. An array lists its slots, with \<^term>\<open>None\<close> for a hole; an object
  has a prototype that is \<^verbatim>\<open>Object.prototype\<close> or null or not, symbol keys or not, and its string keys in
  order. Numbers stay abstract: \<open>number_text\<close> is what the engine prints. Characters are bytes; the order
  of keys is the order of their codes.
\<close>

subsection \<open>Values\<close>

datatype 'n js_value =
    JS_null
  | JS_bool bool
  | JS_string string
  | JS_number 'n
  | JS_array "'n js_value option list"
  | JS_object bool bool "(string \<times> 'n js_value) list"
  | JS_other string

abbreviation JS_record :: "(string \<times> 'n js_value) list \<Rightarrow> 'n js_value" where
  "JS_record \<equiv> JS_object True False"

record 'n number_text =
  nt_finite :: "'n \<Rightarrow> bool"
  nt_zero :: "'n \<Rightarrow> bool"
  nt_show :: "'n \<Rightarrow> string"

datatype json_error = JE_nonfinite | JE_unsupported string | JE_sparse | JE_not_plain | JE_symbols

subsection \<open>Strings\<close>

definition hex_digit :: "nat \<Rightarrow> char" where
  "hex_digit n = ''0123456789abcdef'' ! n"

text \<open>The two-character escapes of \<^verbatim>\<open>JSON.stringify\<close>.\<close>

definition short_escapes :: "(char \<times> char) list" where
  "short_escapes = [(CHR 0x22, CHR 0x22), (CHR 0x5C, CHR 0x5C), (CHR 0x08, CHR ''b''), (CHR 0x09, CHR ''t''),
     (CHR 0x0A, CHR ''n''), (CHR 0x0C, CHR ''f''), (CHR 0x0D, CHR ''r'')]"

definition json_escape :: "char \<Rightarrow> string" where
  "json_escape c =
     (case map_of short_escapes c of
        Some d \<Rightarrow> [CHR 0x5C, d]
      | None \<Rightarrow>
          if (of_char c :: nat) < 32 then [CHR 0x5C, CHR ''u'', CHR ''0'', CHR ''0'',
            hex_digit (of_char c div 16), hex_digit (of_char c mod 16)]
          else [c])"

definition json_string :: "string \<Rightarrow> string" where
  "json_string s = CHR 0x22 # concat (map json_escape s) @ [CHR 0x22]"

subsection \<open>The canonical text\<close>

text \<open>The first error of a list, or all values.\<close>

fun all_values :: "('e + 'a) list \<Rightarrow> 'e + 'a list" where
  "all_values [] = Inr []"
| "all_values (Inl e # xs) = Inl e"
| "all_values (Inr a # xs) = (case all_values xs of Inl e \<Rightarrow> Inl e | Inr as \<Rightarrow> Inr (a # as))"

definition bracketed :: "char \<Rightarrow> char \<Rightarrow> json_error + string list \<Rightarrow> json_error + string" where
  "bracketed l r es = (case es of Inl e \<Rightarrow> Inl e | Inr ss \<Rightarrow> Inr (l # join '','' ss @ [r]))"

definition json_member :: "string \<Rightarrow> string \<Rightarrow> string" where
  "json_member k e = json_string k @ CHR '':'' # e"

fun canonicalize :: "(string \<Rightarrow> 'k::linorder) \<Rightarrow> 'n number_text \<Rightarrow> 'n js_value \<Rightarrow> json_error + string" where
  "canonicalize key nt JS_null = Inr ''null''"
| "canonicalize key nt (JS_bool b) = Inr (if b then ''true'' else ''false'')"
| "canonicalize key nt (JS_string s) = Inr (json_string s)"
| "canonicalize key nt (JS_number n) =
     (if \<not> nt_finite nt n then Inl JE_nonfinite
      else if nt_zero nt n then Inr ''0'' else Inr (nt_show nt n))"
| "canonicalize key nt (JS_array vs) =
     bracketed (CHR ''['') (CHR '']'')
       (all_values (map (\<lambda>slot. case slot of None \<Rightarrow> Inl JE_sparse | Some v \<Rightarrow> canonicalize key nt v) vs))"
| "canonicalize key nt (JS_object plain symbols kvs) =
     (if \<not> plain then Inl JE_not_plain
      else if symbols then Inl JE_symbols
      else bracketed (CHR ''{'') (CHR ''}'')
        (all_values (map (\<lambda>(k, r). map_sum id (json_member k) r)
          (sort_key (\<lambda>p. key (fst p)) (map (\<lambda>(k, v). (k, canonicalize key nt v)) kvs)))))"
| "canonicalize key nt (JS_other t) = Inl (JE_unsupported t)"

definition canonicalJson :: "'n number_text \<Rightarrow> 'n js_value \<Rightarrow> json_error + string" where
  "canonicalJson nt v = canonicalize id nt v"

definition canonicalSha256 :: "(string \<Rightarrow> string) \<Rightarrow> 'n number_text \<Rightarrow> 'n js_value \<Rightarrow> json_error + string" where
  "canonicalSha256 sha nt v = map_sum id sha (canonicalJson nt v)"

text \<open>Keys of an object are distinct.\<close>

fun distinct_keys :: "'n js_value \<Rightarrow> bool" where
  "distinct_keys (JS_array vs) \<longleftrightarrow> list_all (\<lambda>slot. case slot of None \<Rightarrow> True | Some v \<Rightarrow> distinct_keys v) vs"
| "distinct_keys (JS_object plain symbols kvs) \<longleftrightarrow>
     distinct (map fst kvs) \<and> list_all (\<lambda>(k, v). distinct_keys v) kvs"
| "distinct_keys _ \<longleftrightarrow> True"

text \<open>The keys of every object can be told apart by what they are sorted by.\<close>

fun keys_apart :: "(string \<Rightarrow> 'k) \<Rightarrow> 'n js_value \<Rightarrow> bool" where
  "keys_apart key (JS_array vs) \<longleftrightarrow> list_all (\<lambda>slot. case slot of None \<Rightarrow> True | Some v \<Rightarrow> keys_apart key v) vs"
| "keys_apart key (JS_object plain symbols kvs) \<longleftrightarrow>
     inj_on key (fst ` set kvs) \<and> list_all (\<lambda>(k, v). keys_apart key v) kvs"
| "keys_apart key _ \<longleftrightarrow> True"

lemma keys_apart_inj: "inj key \<Longrightarrow> keys_apart key v"
  by (induction v) (auto simp: list_all_iff intro: inj_on_subset [OF _ subset_UNIV] split: option.split)

subsection \<open>The same content\<close>

text \<open>
  Two values have the same content when they differ in the order of keys, and in the sign of zero, only.
\<close>

inductive alike :: "'n number_text \<Rightarrow> 'n js_value \<Rightarrow> 'n js_value \<Rightarrow> bool" for nt where
  "alike nt JS_null JS_null"
| "alike nt (JS_bool b) (JS_bool b)"
| "alike nt (JS_string s) (JS_string s)"
| "n = m \<or> nt_zero nt n \<and> nt_zero nt m \<Longrightarrow> alike nt (JS_number n) (JS_number m)"
| "length vs = length ws \<Longrightarrow>
     (\<And>i. i < length vs \<Longrightarrow> \<exists>v w. vs ! i = Some v \<and> ws ! i = Some w \<and> alike nt v w) \<Longrightarrow>
     alike nt (JS_array vs) (JS_array ws)"
| "fst ` set kvs = fst ` set kws \<Longrightarrow>
     (\<And>k v w. (k, v) \<in> set kvs \<Longrightarrow> (k, w) \<in> set kws \<Longrightarrow> alike nt v w) \<Longrightarrow>
     alike nt (JS_record kvs) (JS_record kws)"

inductive_cases alike_cases [elim!]:
  "alike nt JS_null w" "alike nt (JS_bool b) w" "alike nt (JS_string s) w" "alike nt (JS_number n) w"
  "alike nt (JS_array vs) w" "alike nt (JS_object plain symbols kvs) w" "alike nt (JS_other t) w"

text \<open>What the engine prints for a number: characters of a numeral, and different ones for different numbers.\<close>

definition number_chars :: "char set" where
  "number_chars = set ''0123456789+-.eE''"

definition number_text_ok :: "'n number_text \<Rightarrow> bool" where
  "number_text_ok nt \<longleftrightarrow>
     (\<forall>n. nt_finite nt n \<longrightarrow> nt_show nt n \<noteq> [] \<and> set (nt_show nt n) \<subseteq> number_chars
        \<and> hd (nt_show nt n) \<in> set ''0123456789-'')
     \<and> (\<forall>n m. nt_finite nt n \<and> nt_finite nt m \<and> \<not> nt_zero nt n \<and> \<not> nt_zero nt m \<longrightarrow>
          nt_show nt n = nt_show nt m \<longrightarrow> n = m)
     \<and> (\<forall>n. nt_finite nt n \<and> nt_show nt n = ''0'' \<longrightarrow> nt_zero nt n)
     \<and> (\<forall>n. nt_zero nt n \<longrightarrow> nt_finite nt n)"

subsection \<open>Strings are read back\<close>

lemma map_of_short: "map_of short_escapes c = Some d \<Longrightarrow> d \<in> {CHR 0x22, CHR 0x5C, CHR ''b'', CHR ''t'', CHR ''n'', CHR ''f'', CHR ''r''}"
  by (auto simp: short_escapes_def split: if_splits)

lemma short_escapes_inj: "map_of short_escapes c = Some d \<Longrightarrow> map_of short_escapes c' = Some d \<Longrightarrow> c = c'"
  by (auto simp: short_escapes_def split: if_splits)

lemma hex_digit_inj: "m < 16 \<Longrightarrow> n < 16 \<Longrightarrow> hex_digit m = hex_digit n \<Longrightarrow> m = n"
  unfolding hex_digit_def by (subst (asm) nth_eq_iff_index_eq) simp_all

lemma of_char_inj: "(of_char c :: nat) = of_char d \<Longrightarrow> c = d"
  by simp

lemma json_escape_cases:
  obtains (short) d where "map_of short_escapes c = Some d" "json_escape c = [CHR 0x5C, d]" "d \<noteq> CHR ''u''"
  | (code) "(of_char c :: nat) < 32" "json_escape c = [CHR 0x5C, CHR ''u'', CHR ''0'', CHR ''0'',
      hex_digit (of_char c div 16), hex_digit (of_char c mod 16)]"
  | (self) "json_escape c = [c]" "c \<noteq> CHR 0x22" "c \<noteq> CHR 0x5C"
proof (cases "map_of short_escapes c")
  case None
  then have "c \<noteq> CHR 0x22" "c \<noteq> CHR 0x5C" by (auto simp: short_escapes_def)
  with None code self show ?thesis by (cases "(of_char c :: nat) < 32") (auto simp: json_escape_def)
next
  case (Some d)
  then have "d \<noteq> CHR ''u''" using map_of_short by fastforce
  with Some short show ?thesis by (simp add: json_escape_def)
qed

lemma json_escape_decode:
  assumes "json_escape c @ x = json_escape d @ y"
  shows "c = d \<and> x = y"
proof (cases c rule: json_escape_cases)
  case (short e)
  with assms show ?thesis
    by (cases d rule: json_escape_cases) (auto dest: short_escapes_inj)
next
  case code
  show ?thesis
  proof (cases d rule: json_escape_cases)
    case code': code
    from assms code(2) code'(2) have "hex_digit (of_char c div 16) = hex_digit (of_char d div 16)"
      "hex_digit (of_char c mod 16) = hex_digit (of_char d mod 16)" "x = y" by simp_all
    moreover from this code(1) code'(1) have "(of_char c :: nat) div 16 = of_char d div 16" "(of_char c :: nat) mod 16 = of_char d mod 16"
      by (auto intro: hex_digit_inj)
    ultimately show ?thesis by (metis div_mult_mod_eq of_char_inj)
  qed (use assms code in auto)
next
  case self
  with assms show ?thesis by (cases d rule: json_escape_cases) auto
qed

lemma json_escape_start: "\<exists>e es. json_escape c = e # es \<and> e \<noteq> CHR 0x22"
  by (cases c rule: json_escape_cases) auto

lemma json_string_decode:
  assumes "json_string s @ x = json_string t @ y"
  shows "s = t \<and> x = y"
proof -
  have "concat (map json_escape s) @ CHR 0x22 # x = concat (map json_escape t) @ CHR 0x22 # y \<Longrightarrow> s = t \<and> x = y"
  proof (induction s arbitrary: t)
    case Nil
    show ?case
    proof (cases t)
      case (Cons d t')
      with Nil json_escape_start [of d] show ?thesis by auto
    qed (use Nil in simp)
  next
    case (Cons c s)
    show ?case
    proof (cases t)
      case Nil
      with Cons.prems json_escape_start [of c] show ?thesis by auto
    next
      case (Cons d t')
      with Cons.prems have "json_escape c @ (concat (map json_escape s) @ CHR 0x22 # x) =
          json_escape d @ (concat (map json_escape t') @ CHR 0x22 # y)" by simp
      from json_escape_decode [OF this] Cons.IH [of t'] Cons show ?thesis by blast
    qed
  qed
  with assms show ?thesis by (simp add: json_string_def)
qed

subsection \<open>Values are read back\<close>

definition delimited :: "string \<Rightarrow> bool" where
  "delimited r \<longleftrightarrow> r = [] \<or> hd r \<in> set '',]}''"

text \<open>Texts that can be told apart whatever follows them, if it is a delimiter.\<close>

definition told_apart :: "string \<Rightarrow> string \<Rightarrow> bool" where
  "told_apart e e' \<longleftrightarrow> (\<forall>r r'. delimited r \<longrightarrow> delimited r' \<longrightarrow> e @ r = e' @ r' \<longrightarrow> e = e' \<and> r = r')"

definition opens :: "string \<Rightarrow> bool" where
  "opens e \<longleftrightarrow> (\<exists>c cs. e = c # cs \<and> c \<notin> set '',]}'')"

lemma join_decode:
  assumes "\<And>e e'. e \<in> set es \<Longrightarrow> e' \<in> set es' \<Longrightarrow> told_apart e e'"
    and "\<And>e. e \<in> set es \<union> set es' \<Longrightarrow> opens e" and "c \<in> set '']}''"
    and "join '','' es @ c # r = join '','' es' @ c # r'"
  shows "es = es' \<and> r = r'"
  using assms
proof (induction es arbitrary: es')
  case Nil
  show ?case
  proof (cases es')
    case (Cons f fs)
    with Nil(2) have "opens f" by simp
    then obtain d ds where "f = d # ds" "d \<notin> set '',]}''" by (auto simp: opens_def)
    with Cons Nil(3,4) show ?thesis by (cases fs) auto
  qed (use Nil(4) in simp)
next
  case (Cons e es)
  obtain f fs where es': "es' = f # fs"
  proof (cases es')
    case Nil
    from Cons.prems(2) have "opens e" by simp
    then obtain d ds where "e = d # ds" "d \<notin> set '',]}''" by (auto simp: opens_def)
    with Nil Cons.prems(3,4) show ?thesis by (cases es) auto
  qed
  have rest: "\<exists>d x. join '','' (g # gs) @ c # u = g @ d # x \<and> d \<in> set '',]}''
      \<and> (d = CHR '','' \<longleftrightarrow> gs \<noteq> []) \<and> x = (if gs = [] then u else join '','' gs @ c # u)" for g gs u
    using Cons.prems(3) by (cases gs) auto
  obtain d x where x: "join '','' (e # es) @ c # r = e @ d # x" "d \<in> set '',]}''" "d = CHR '','' \<longleftrightarrow> es \<noteq> []"
    "x = (if es = [] then r else join '','' es @ c # r)" using rest [of e es r] by blast
  obtain d' x' where x': "join '','' (f # fs) @ c # r' = f @ d' # x'" "d' \<in> set '',]}''" "d' = CHR '','' \<longleftrightarrow> fs \<noteq> []"
    "x' = (if fs = [] then r' else join '','' fs @ c # r')" using rest [of f fs r'] by blast
  have "told_apart e f" using Cons.prems(1) es' by simp
  moreover have "e @ d # x = f @ d' # x'" using Cons.prems(4) unfolding x(1) es' x'(1) .
  moreover have "delimited (d # x)" "delimited (d' # x')" using x(2) x'(2) by (simp_all add: delimited_def)
  ultimately have eq: "e = f" "d = d'" "x = x'" unfolding told_apart_def by blast+
  show ?case
  proof (cases "es = []")
    case True
    with x(3) x'(3) eq(2) have "fs = []" by simp
    with True x(4) x'(4) eq es' show ?thesis by simp
  next
    case False
    with x(3) x'(3) eq(2) have "fs \<noteq> []" by simp
    with False x(4) x'(4) eq(3) have "join '','' es @ c # r = join '','' fs @ c # r'" by simp
    with Cons.IH [of fs] Cons.prems(1-3) es' eq(1) show ?thesis by simp
  qed
qed


lemma all_values_map [simp]: "all_values (map Inr as) = Inr as"
  by (induction as) simp_all

lemma all_values_Inr: "all_values xs = Inr as \<longleftrightarrow> xs = map Inr as"
proof -
  have "all_values xs = Inr as \<Longrightarrow> xs = map Inr as"
    by (induction xs arbitrary: as rule: all_values.induct) (auto split: sum.splits)
  then show ?thesis by auto
qed

lemma insort_map_values: "insort_key (\<lambda>p. key (fst p)) (k, f v) (map (\<lambda>(k, v). (k, f v)) xs) = map (\<lambda>(k, v). (k, f v)) (insort_key (\<lambda>p. key (fst p)) (k, v) xs)"
  by (induction xs) auto

lemma sort_map_values: "sort_key (\<lambda>p. key (fst p)) (map (\<lambda>(k, v). (k, f v)) xs) = map (\<lambda>(k, v). (k, f v)) (sort_key (\<lambda>p. key (fst p)) xs)"
  by (induction xs) (auto simp: insort_map_values)

lemma canonicalize_array:
  assumes "canonicalize key nt (JS_array vs) = Inr s"
  obtains ws es where "vs = map Some ws" "map (canonicalize key nt) ws = map Inr es" "s = CHR ''['' # join '','' es @ '']''"
proof -
  from assms obtain es where s: "s = CHR ''['' # join '','' es @ '']''"
    and es: "map (\<lambda>slot. case slot of None \<Rightarrow> Inl JE_sparse | Some v \<Rightarrow> canonicalize key nt v) vs = map Inr es"
    by (auto simp: bracketed_def all_values_Inr split: sum.splits)
  have "None \<notin> set vs"
  proof
    assume "None \<in> set vs"
    then have "Inl JE_sparse \<in> set (map (\<lambda>slot. case slot of None \<Rightarrow> Inl JE_sparse | Some v \<Rightarrow> canonicalize key nt v) vs)"
      by force
    then show False unfolding es by auto
  qed
  then obtain ws where ws: "vs = map Some ws"
    by (metis ex_map_conv option.exhaust)
  with es have "map (canonicalize key nt) ws = map Inr es" by (simp add: comp_def)
  then show ?thesis by (rule that [OF ws _ s])
qed

lemma canonicalize_object:
  assumes "canonicalize key nt (JS_object plain symbols kvs) = Inr s"
  obtains es where "plain" "\<not> symbols" "map (canonicalize key nt \<circ> snd) (sort_key (\<lambda>p. key (fst p)) kvs) = map Inr es"
    "s = CHR ''{'' # join '','' (map2 json_member (map fst (sort_key (\<lambda>p. key (fst p)) kvs)) es) @ ''}''"
proof -
  have step: "(\<lambda>(k, r). map_sum id (json_member k) r) \<circ> (\<lambda>(k, v). (k, canonicalize key nt v)) =
      (\<lambda>(k, v). map_sum id (json_member k) (canonicalize key nt v))" by auto
  from assms obtain ss where p: "plain" "\<not> symbols" and s: "s = CHR ''{'' # join '','' ss @ ''}''"
    and ss: "map ((\<lambda>(k, r). map_sum id (json_member k) r) \<circ> (\<lambda>(k, v). (k, canonicalize key nt v))) (sort_key (\<lambda>p. key (fst p)) kvs) = map Inr ss"
    by (auto simp: bracketed_def all_values_Inr sort_map_values split: sum.splits if_splits)
  have "\<exists>es. map (canonicalize key nt \<circ> snd) ps = map Inr es \<and> ss = map2 json_member (map fst ps) es"
    if "map (\<lambda>(k, v). map_sum id (json_member k) (canonicalize key nt v)) ps = map Inr ss" for ps ss
    using that
  proof (induction ps arbitrary: ss)
    case (Cons p ps)
    obtain k v where kv: "p = (k, v)" by (cases p)
    from Cons.prems obtain t ts where ss: "ss = t # ts"
      "map (\<lambda>(k, v). map_sum id (json_member k) (canonicalize key nt v)) ps = map Inr ts"
      "map_sum id (json_member k) (canonicalize key nt v) = Inr t"
      by (cases ss) (auto simp: kv id_def)
    obtain e where "canonicalize key nt v = Inr e" "t = json_member k e"
      using ss(3) by (cases "canonicalize key nt v") auto
    moreover obtain es where "map (canonicalize key nt \<circ> snd) ps = map Inr es" "ts = map2 json_member (map fst ps) es"
      using Cons.IH [OF ss(2)] by blast
    ultimately have "map (canonicalize key nt \<circ> snd) (p # ps) = map Inr (e # es) \<and> ss = map2 json_member (map fst (p # ps)) (e # es)"
      by (simp add: kv ss(1))
    then show ?case by blast
  qed simp
  from this [OF ss [unfolded step]] obtain es where "map (canonicalize key nt \<circ> snd) (sort_key (\<lambda>p. key (fst p)) kvs) = map Inr es"
    "ss = map2 json_member (map fst (sort_key (\<lambda>p. key (fst p)) kvs)) es" by blast
  with p s show ?thesis using that by blast
qed

subsection \<open>The first character tells the kind of a value\<close>

fun kind :: "'n js_value \<Rightarrow> nat" where
  "kind JS_null = 0"
| "kind (JS_bool b) = (if b then 1 else 2)"
| "kind (JS_string s) = 3"
| "kind (JS_number n) = 4"
| "kind (JS_array vs) = 5"
| "kind (JS_object p q kvs) = 6"
| "kind (JS_other t) = 7"

definition kind_of_char :: "char \<Rightarrow> nat" where
  "kind_of_char c =
     (if c = CHR ''n'' then 0 else if c = CHR ''t'' then 1 else if c = CHR ''f'' then 2
      else if c = CHR 0x22 then 3 else if c \<in> set ''0123456789-'' then 4 else if c = CHR ''['' then 5
      else if c = CHR ''{'' then 6 else 8)"

lemma kind_of_numeral: "c \<in> set ''0123456789-'' \<Longrightarrow> kind_of_char c = 4"
  by (auto simp: kind_of_char_def)

lemma canonical_head:
  assumes "number_text_ok nt" "canonicalize key nt v = Inr e"
  shows "e \<noteq> [] \<and> kind_of_char (hd e) = kind v"
proof (cases v)
  case (JS_number n)
  then consider "e = ''0''" | "nt_finite nt n" "e = nt_show nt n" using assms(2) by (auto split: if_splits)
  then show ?thesis
  proof cases
    case 2
    with assms(1) have "e \<noteq> []" "hd e \<in> set ''0123456789-''" by (auto simp: number_text_ok_def)
    with JS_number kind_of_numeral show ?thesis by simp
  qed (use JS_number in \<open>simp add: kind_of_char_def\<close>)
next
  case (JS_array vs)
  obtain ws es where "e = CHR ''['' # join '','' es @ '']''" by (rule canonicalize_array [OF assms(2) [unfolded JS_array]])
  with JS_array show ?thesis by (simp add: kind_of_char_def)
next
  case (JS_object p q kvs)
  obtain es where "e = CHR ''{'' # join '','' (map2 json_member (map fst (sort_key (\<lambda>p. key (fst p)) kvs)) es) @ ''}''"
    by (rule canonicalize_object [OF assms(2) [unfolded JS_object]])
  with JS_object show ?thesis by (simp add: kind_of_char_def)
next
  case (JS_bool b)
  with assms(2) have "e = (if b then ''true'' else ''false'')" by simp
  with JS_bool show ?thesis by (cases b) (simp_all add: kind_of_char_def)
qed (use assms(2) in \<open>auto simp: kind_of_char_def json_string_def\<close>)

lemma canonical_opens:
  assumes "number_text_ok nt" "canonicalize key nt v = Inr e"
  shows "opens e"
proof -
  obtain c cs where e: "e = c # cs" "kind_of_char c = kind v"
    using canonical_head [OF assms] by (cases e) auto
  moreover have "kind v \<noteq> 8" by (cases v) simp_all
  ultimately show ?thesis by (auto simp: opens_def kind_of_char_def split: if_splits)
qed

lemma told_by_kind:
  assumes "number_text_ok nt" "canonicalize key nt v = Inr e" "canonicalize key nt w = Inr e'" "kind v \<noteq> kind w"
  shows "told_apart e e' \<and> e \<noteq> e'"
proof -
  have "e \<noteq> []" "e' \<noteq> []" "hd e \<noteq> hd e'"
    using canonical_head [OF assms(1,2)] canonical_head [OF assms(1,3)] assms(4) by auto
  then show ?thesis unfolding told_apart_def by (metis hd_append2)
qed

lemma told_apart_refl: "told_apart e e"
  by (simp add: told_apart_def)

lemma told_apart_numbers:
  assumes "set e \<subseteq> number_chars" "set e' \<subseteq> number_chars"
  shows "told_apart e e'"
proof -
  have t: "takeWhile (\<lambda>c. c \<in> number_chars) (x @ r) = x" if x: "set x \<subseteq> number_chars" and r: "delimited r" for x r
  proof -
    have "takeWhile (\<lambda>c. c \<in> number_chars) r = []"
      using r by (cases r) (auto simp: delimited_def number_chars_def)
    with x show ?thesis by (induction x) auto
  qed
  show ?thesis unfolding told_apart_def
  proof (intro allI impI)
    fix r r' assume "delimited r" "delimited r'" "e @ r = e' @ r'"
    with t [OF assms(1), of r] t [OF assms(2), of r'] have "e = e'" by simp
    with \<open>e @ r = e' @ r'\<close> show "e = e' \<and> r = r'" by simp
  qed
qed

lemma told_apart_strings: "told_apart (json_string s) (json_string t)"
  unfolding told_apart_def using json_string_decode by blast

lemma told_apart_members:
  assumes "told_apart e e'"
  shows "told_apart (json_member k e) (json_member k' e')"
  unfolding told_apart_def
proof (intro allI impI)
  fix r r' assume d: "delimited r" "delimited r'" and "json_member k e @ r = json_member k' e' @ r'"
  then have "json_string k @ CHR '':'' # e @ r = json_string k' @ CHR '':'' # e' @ r'" by (simp add: json_member_def)
  from json_string_decode [OF this] have "k = k'" "e @ r = e' @ r'" by simp_all
  with d assms show "json_member k e = json_member k' e' \<and> r = r'" by (auto simp: told_apart_def)
qed

lemma json_member_inj: "json_member k e = json_member k' e' \<Longrightarrow> k = k' \<and> e = e'"
  using json_string_decode [of k "CHR '':'' # e" k' "CHR '':'' # e'"] by (simp add: json_member_def)

lemma json_member_opens: "opens (json_member k e)"
  by (simp add: json_member_def json_string_def opens_def)


subsection \<open>The text determines the content\<close>

lemma canonical_number:
  assumes "number_text_ok nt" "canonicalize key nt (JS_number n) = Inr e"
  shows "set e \<subseteq> number_chars"
proof (cases "nt_zero nt n")
  case True
  with assms(2) have "e = ''0''" by (simp split: if_splits)
  then show ?thesis by (simp add: number_chars_def)
next
  case False
  with assms show ?thesis unfolding number_text_ok_def by (auto split: if_splits)
qed

lemma canonical_number_inj:
  assumes "number_text_ok nt" "canonicalize key nt (JS_number n) = Inr e" "canonicalize key nt (JS_number m) = Inr e"
  shows "n = m \<or> nt_zero nt n \<and> nt_zero nt m"
  using assms unfolding number_text_ok_def by (auto split: if_splits)

text \<open>The texts of two values are told apart, and equal only for the same content.\<close>

definition decodes :: "(string \<Rightarrow> 'k::linorder) \<Rightarrow> 'n number_text \<Rightarrow> 'n js_value \<Rightarrow> 'n js_value \<Rightarrow> bool" where
  "decodes key nt v w \<longleftrightarrow> (\<forall>e e'. canonicalize key nt v = Inr e \<longrightarrow> canonicalize key nt w = Inr e' \<longrightarrow>
     told_apart e e' \<and> (e = e' \<longrightarrow> alike nt v w))"

lemma map_Inr_mem: "map f xs = map Inr es \<Longrightarrow> e \<in> set es \<Longrightarrow> \<exists>x \<in> set xs. f x = Inr e"
proof -
  assume "map f xs = map Inr es" and e: "e \<in> set es"
  then have "f ` set xs = Inr ` set es" by (metis list.set_map)
  with e have "Inr e \<in> f ` set xs" by blast
  then show ?thesis by (metis imageE)
qed

lemma map_Inr_nth: "map f xs = map Inr es \<Longrightarrow> i < length xs \<Longrightarrow> f (xs ! i) = Inr (es ! i)"
  by (metis length_map nth_map)

lemma bracketed_decode:
  assumes "\<And>e e'. e \<in> set es \<Longrightarrow> e' \<in> set es' \<Longrightarrow> told_apart e e'"
    and "\<And>e. e \<in> set es \<union> set es' \<Longrightarrow> opens e" and "c \<in> set '']}''"
  shows "told_apart (b # join '','' es @ [c]) (b # join '','' es' @ [c])"
    and "b # join '','' es @ [c] = b # join '','' es' @ [c] \<Longrightarrow> es = es'"
  using join_decode [OF assms] by (auto simp: told_apart_def)

lemma array_decode:
  assumes "number_text_ok nt" and d: "\<And>x y. x \<in> set xs \<Longrightarrow> y \<in> set ys \<Longrightarrow> decodes key nt x y"
  shows "decodes key nt (JS_array (map Some xs)) (JS_array (map Some ys))"
  unfolding decodes_def
proof (intro allI impI)
  fix e e' assume a: "canonicalize key nt (JS_array (map Some xs)) = Inr e" "canonicalize key nt (JS_array (map Some ys)) = Inr e'"
  have slots: "\<exists>es. map (canonicalize key nt) xs = map Inr es \<and> e = CHR ''['' # join '','' es @ '']''"
    if "canonicalize key nt (JS_array (map Some xs)) = Inr e" for xs e
    by (rule canonicalize_array [OF that]) (simp add: inj_map_eq_map)
  obtain es where es: "map (canonicalize key nt) xs = map Inr es" "e = CHR ''['' # join '','' es @ '']''"
    using slots [OF a(1)] by blast
  obtain fs where fs: "map (canonicalize key nt) ys = map Inr fs" "e' = CHR ''['' # join '','' fs @ '']''"
    using slots [OF a(2)] by blast
  have told: "told_apart g h" if "g \<in> set es" "h \<in> set fs" for g h
    using map_Inr_mem [OF es(1) that(1)] map_Inr_mem [OF fs(1) that(2)] d by (auto simp: decodes_def)
  have "opens g" if "g \<in> set es \<union> set fs" for g
    using that by (auto dest: map_Inr_mem [OF es(1)] map_Inr_mem [OF fs(1)] canonical_opens [OF assms(1)])
  note dec = bracketed_decode [of es fs "CHR '']''" "CHR ''[''", OF told this]
  have "alike nt (JS_array (map Some xs)) (JS_array (map Some ys))" if "es = fs"
  proof (rule alike.intros)
    show len: "length (map Some xs) = length (map Some ys)" using that es(1) fs(1) by (metis length_map)
    fix i assume i: "i < length (map Some xs)"
    then have "canonicalize key nt (xs ! i) = Inr (es ! i)" "canonicalize key nt (ys ! i) = Inr (es ! i)"
      using len that map_Inr_nth [OF es(1)] map_Inr_nth [OF fs(1)] by auto
    moreover have "decodes key nt (xs ! i) (ys ! i)" using d i len by simp
    ultimately show "\<exists>v w. map Some xs ! i = Some v \<and> map Some ys ! i = Some w \<and> alike nt v w"
      using i len by (auto simp: decodes_def)
  qed
  with dec es(2) fs(2) show "told_apart e e' \<and> (e = e' \<longrightarrow> alike nt (JS_array (map Some xs)) (JS_array (map Some ys)))"
    by simp
qed

lemma members_mem:
  assumes "map (canonicalize key nt \<circ> snd) ps = map Inr es" "m \<in> set (map2 json_member (map fst ps) es)"
  shows "\<exists>k v e. (k, v) \<in> set ps \<and> canonicalize key nt v = Inr e \<and> m = json_member k e"
proof -
  have len: "length es = length ps" using assms(1) by (metis length_map)
  obtain i where i: "i < length ps" "m = json_member (fst (ps ! i)) (es ! i)"
    using assms(2) len by (auto simp: in_set_conv_nth)
  moreover have "canonicalize key nt (snd (ps ! i)) = Inr (es ! i)" using map_Inr_nth [OF assms(1) i(1)] by simp
  ultimately show ?thesis by (metis nth_mem prod.collapse)
qed

lemma object_decode:
  assumes "number_text_ok nt" and "distinct (map fst kvs)" "distinct (map fst kws)"
    and d: "\<And>k l x y. (k, x) \<in> set kvs \<Longrightarrow> (l, y) \<in> set kws \<Longrightarrow> decodes key nt x y"
  shows "decodes key nt (JS_object p q kvs) (JS_object p' q' kws)"
  unfolding decodes_def
proof (intro allI impI)
  fix e e' assume a: "canonicalize key nt (JS_object p q kvs) = Inr e" "canonicalize key nt (JS_object p' q' kws) = Inr e'"
  define ps where "ps = sort_key (\<lambda>p. key (fst p)) kvs"
  define qs where "qs = sort_key (\<lambda>p. key (fst p)) kws"
  have set: "set ps = set kvs" "set qs = set kws" "distinct (map fst ps)" "distinct (map fst qs)"
    using assms(2,3) by (simp_all add: ps_def qs_def distinct_map)
  obtain es where es: "p" "\<not> q" "map (canonicalize key nt \<circ> snd) ps = map Inr es"
    "e = CHR ''{'' # join '','' (map2 json_member (map fst ps) es) @ ''}''"
    unfolding ps_def by (rule canonicalize_object [OF a(1)])
  obtain fs where fs: "p'" "\<not> q'" "map (canonicalize key nt \<circ> snd) qs = map Inr fs"
    "e' = CHR ''{'' # join '','' (map2 json_member (map fst qs) fs) @ ''}''"
    unfolding qs_def by (rule canonicalize_object [OF a(2)])
  define ms where "ms = map2 json_member (map fst ps) es"
  define ns where "ns = map2 json_member (map fst qs) fs"
  have told: "told_apart g h" if "g \<in> set ms" "h \<in> set ns" for g h
    using members_mem [OF es(3)] members_mem [OF fs(3)] that d set
    unfolding ms_def ns_def decodes_def by (metis told_apart_members)
  have "opens g" if "g \<in> set ms \<union> set ns" for g
    using members_mem [OF es(3)] members_mem [OF fs(3)] that json_member_opens unfolding ms_def ns_def by blast
  note dec = bracketed_decode [of ms ns "CHR ''}''" "CHR ''{''", OF told this]
  have len: "length es = length ps" "length fs = length qs" using es(3) fs(3) by (metis length_map)+
  have "alike nt (JS_record kvs) (JS_record kws)" if eq: "ms = ns"
  proof -
    have l: "length ps = length qs" using eq len by (metis (no_types, lifting) length_map length_zip min.idem ms_def ns_def)
    have each: "fst (ps ! i) = fst (qs ! i) \<and> es ! i = fs ! i" if "i < length ps" for i
    proof -
      have "ms ! i = json_member (fst (ps ! i)) (es ! i)" "ns ! i = json_member (fst (qs ! i)) (fs ! i)"
        using that l len by (simp_all add: ms_def ns_def)
      with eq show ?thesis using json_member_inj by metis
    qed
    have keys: "map fst ps = map fst qs" using each l by (intro nth_equalityI) simp_all
    have "alike nt v w" if "(k, v) \<in> set kvs" "(k, w) \<in> set kws" for k v w
    proof -
      obtain i where i: "i < length ps" "ps ! i = (k, v)" using \<open>(k, v) \<in> set kvs\<close> set(1) by (metis in_set_conv_nth)
      obtain j where j: "j < length qs" "qs ! j = (k, w)" using \<open>(k, w) \<in> set kws\<close> set(2) by (metis in_set_conv_nth)
      have "map fst qs ! i = map fst qs ! j" using i j keys l by (metis fst_conv nth_map)
      then have "i = j" using set(4) i(1) j(1) l nth_eq_iff_index_eq [of "map fst qs" i j] by (metis length_map)
      with i j each [OF i(1)] map_Inr_nth [OF es(3) i(1)] map_Inr_nth [OF fs(3) j(1)] d [OF that]
      show ?thesis by (simp add: decodes_def)
    qed
    moreover have "fst ` set kvs = fst ` set kws" using keys set(1,2) by (metis list.set_map)
    ultimately show ?thesis by (intro alike.intros)
  qed
  with dec es(1,2,4) fs(1,2,4) show "told_apart e e' \<and> (e = e' \<longrightarrow> alike nt (JS_object p q kvs) (JS_object p' q' kws))"
    by (simp add: ms_def ns_def)
qed


lemma canonical_decode:
  assumes "number_text_ok nt"
  shows "distinct_keys v \<Longrightarrow> distinct_keys w \<Longrightarrow> decodes key nt v w"
proof (induction v arbitrary: w)
  case (JS_number n)
  show ?case unfolding decodes_def
  proof (intro allI impI)
    fix e e' assume a: "canonicalize key nt (JS_number n) = Inr e" "canonicalize key nt w = Inr e'"
    show "told_apart e e' \<and> (e = e' \<longrightarrow> alike nt (JS_number n) w)"
    proof (cases "kind w = 4")
      case True
      then obtain m where m: "w = JS_number m" by (cases w) (auto split: if_splits)
      have "told_apart e e'" using canonical_number [OF assms] a m by (intro told_apart_numbers) blast+
      then show ?thesis using canonical_number_inj [OF assms, of key n e m] a m by (auto intro: alike.intros)
    qed (use told_by_kind [OF assms a] in simp)
  qed
next
  case (JS_array vs)
  show ?case
  proof (cases "\<exists>xs ws ys. vs = map Some xs \<and> w = JS_array ws \<and> ws = map Some ys")
    case True
    then obtain xs ys where eq: "vs = map Some xs" "w = JS_array (map Some ys)" by blast
    have "decodes key nt x y" if "x \<in> set xs" "y \<in> set ys" for x y
      using JS_array.IH [of "Some x" x] JS_array.prems that by (auto simp: eq list_all_iff)
    then show ?thesis unfolding eq by (rule array_decode [OF assms])
  next
    case False
    show ?thesis unfolding decodes_def
    proof (intro allI impI)
      fix e e' assume a: "canonicalize key nt (JS_array vs) = Inr e" "canonicalize key nt w = Inr e'"
      have "kind w \<noteq> 5"
      proof
        assume "kind w = 5"
        then obtain ws where w: "w = JS_array ws" by (cases w) (auto split: if_splits)
        obtain xs where "vs = map Some xs" by (rule canonicalize_array [OF a(1)])
        moreover obtain ys where "ws = map Some ys" by (rule canonicalize_array [OF a(2) [unfolded w]])
        ultimately show False using False w by blast
      qed
      with told_by_kind [OF assms a] show "told_apart e e' \<and> (e = e' \<longrightarrow> alike nt (JS_array vs) w)" by simp
    qed
  qed
next
  case (JS_object p q kvs)
  show ?case
  proof (cases w)
    case w: (JS_object p' q' kws)
    have "decodes key nt x y" if "(k, x) \<in> set kvs" "(l, y) \<in> set kws" for k l x y
    proof -
      have "distinct_keys x" "distinct_keys y" using JS_object.prems that by (fastforce simp: w list_all_iff)+
      then show ?thesis using JS_object.IH [of "(k, x)" x] that(1) by simp
    qed
    with JS_object.prems show ?thesis unfolding w by (intro object_decode [OF assms]) simp_all
  qed (use told_by_kind [OF assms, of key "JS_object p q kvs" _ w] in \<open>auto simp: decodes_def\<close>)
next
  case (JS_other t)
  show ?case by (simp add: decodes_def)
next
  case JS_null
  show ?case using told_by_kind [OF assms, of key JS_null _ w] told_apart_refl
    by (cases w) (auto simp: decodes_def intro: alike.intros)
next
  case (JS_bool b)
  show ?case using told_by_kind [OF assms, of key "JS_bool b" _ w] told_apart_refl
    by (cases w) (auto simp: decodes_def intro: alike.intros split: if_splits)
next
  case (JS_string s)
  show ?case
  proof (cases w)
    case (JS_string t)
    then show ?thesis using told_apart_strings [of s t] json_string_decode [of s "[]" t "[]"]
      by (auto simp: decodes_def intro: alike.intros)
  qed (use told_by_kind [OF assms, of key "JS_string s" _ w] in \<open>auto simp: decodes_def\<close>)
qed


lemma map_Inr_same:
  assumes "map f xs = map Inr es" "length ys = length xs" "\<And>i. i < length xs \<Longrightarrow> g (ys ! i) = f (xs ! i)"
  shows "map g ys = map Inr es"
proof -
  have "map g ys = map f xs" using assms(2,3) by (intro nth_equalityI) simp_all
  with assms(1) show ?thesis by simp
qed

lemma same_key_order:
  assumes "inj_on key (set ks)" "sorted (map key ks)" "sorted (map key ls)" "distinct ks" "distinct ls" "set ks = set ls"
  shows "ks = ls"
proof -
  have "map key ks = map key ls"
    using assms by (intro sorted_distinct_set_unique) (simp_all add: distinct_map)
  with assms(1,6) show ?thesis by (simp add: inj_on_map_eq_map)
qed

lemma alike_same_text:
  assumes "alike nt v w"
  shows "canonicalize key nt v = Inr e \<Longrightarrow> distinct_keys v \<Longrightarrow> distinct_keys w \<Longrightarrow> keys_apart key v \<Longrightarrow>
    (\<And>n. nt_zero nt n \<Longrightarrow> nt_finite nt n) \<Longrightarrow> canonicalize key nt w = Inr e"
  using assms
proof (induction arbitrary: e rule: alike.induct)
  case (4 n m)
  then show ?case by (auto split: if_splits)
next
  case (5 vs ws)
  obtain xs es where v: "vs = map Some xs" "map (canonicalize key nt) xs = map Inr es" "e = CHR ''['' # join '','' es @ '']''"
    by (rule canonicalize_array [OF 5(3)])
  define ys where "ys = map the ws"
  have "ws ! i = Some (ys ! i) \<and> canonicalize key nt (ys ! i) = canonicalize key nt (xs ! i)" if i: "i < length vs" for i
  proof -
    obtain y where y: "ws ! i = Some y"
      "\<And>e. canonicalize key nt (xs ! i) = Inr e \<Longrightarrow> distinct_keys (xs ! i) \<Longrightarrow> distinct_keys y \<Longrightarrow> keys_apart key (xs ! i) \<Longrightarrow>
        canonicalize key nt y = Inr e"
      using 5(2) [OF i] 5(7) v(1) i by auto
    have "distinct_keys (xs ! i)" "distinct_keys y" "keys_apart key (xs ! i)"
      using 5(1,4,5,6) i y(1) v(1) by (auto simp: list_all_length)
    with y i 5(1) map_Inr_nth [OF v(2), of i] v(1) show ?thesis by (simp add: ys_def)
  qed
  note each = this
  have ws: "ws = map Some ys" using each 5(1) by (intro nth_equalityI) (simp_all add: ys_def)
  moreover have "map (canonicalize key nt) ys = map Inr es"
    using each 5(1) v(1) by (intro map_Inr_same [OF v(2)]) (simp_all add: ys_def)
  moreover have "(\<lambda>slot. case slot of None \<Rightarrow> Inl JE_sparse | Some v \<Rightarrow> canonicalize key nt v) \<circ> Some = canonicalize key nt"
    by auto
  ultimately show ?case using v(3) by (simp add: bracketed_def)
next
  case (6 kvs kws)
  define ps where "ps = sort_key (\<lambda>p. key (fst p)) kvs"
  define qs where "qs = sort_key (\<lambda>p. key (fst p)) kws"
  obtain es where es: "map (canonicalize key nt \<circ> snd) ps = map Inr es"
    "e = CHR ''{'' # join '','' (map2 json_member (map fst ps) es) @ ''}''"
    unfolding ps_def by (rule canonicalize_object [OF 6(4)])
  have set: "set ps = set kvs" "set qs = set kws" by (simp_all add: ps_def qs_def)
  have "sorted (map (\<lambda>p. key (fst p)) ps)" "sorted (map (\<lambda>p. key (fst p)) qs)" by (simp_all add: ps_def qs_def)
  moreover have d: "distinct (map fst ps)" "distinct (map fst qs)"
    using 6(5,6) by (simp_all add: ps_def qs_def distinct_map)
  moreover have "set (map fst ps) = set (map fst qs)" using 6(1) set by simp
  ultimately have keys: "map fst ps = map fst qs"
    using same_key_order [of key "map fst ps" "map fst qs"] 6(7) set by (simp add: comp_def)
  then have len: "length ps = length qs" by (metis length_map)
  have "canonicalize key nt (snd (qs ! i)) = canonicalize key nt (snd (ps ! i))" if i: "i < length ps" for i
  proof -
    obtain k v where kv: "ps ! i = (k, v)" by (cases "ps ! i")
    obtain w where kw: "qs ! i = (k, w)"
      using keys i len kv by (metis fst_conv nth_map prod.collapse)
    have mem: "(k, v) \<in> set kvs" "(k, w) \<in> set kws" using i len kv kw set by (metis nth_mem)+
    have "distinct_keys v" "distinct_keys w" "keys_apart key v" using 6(5,6,7) mem by (fastforce simp: list_all_iff)+
    with 6(3) [OF mem] map_Inr_nth [OF es(1) i] 6(8) kv kw show ?thesis by simp
  qed
  then have "map (canonicalize key nt \<circ> snd) qs = map Inr es"
    using len by (intro map_Inr_same [OF es(1)]) simp_all
  moreover have "map (\<lambda>(k, r). map_sum id (json_member k) r) (map (\<lambda>(k, v). (k, canonicalize key nt v)) qs)
      = map Inr (map2 json_member (map fst qs) es)"
    if "map (canonicalize key nt \<circ> snd) qs = map Inr es" for qs :: "(string \<times> 'a js_value) list" and es
    using that by (induction qs arbitrary: es) (auto simp: map_eq_Cons_conv)
  ultimately show ?case using es(2) keys by (simp add: bracketed_def sort_map_values del: map_map flip: qs_def)
qed simp_all


text \<open>
  C19: The canonical text identifies the content. For values without duplicate keys that have a canonical
  text at all, the texts are equal exactly when the values agree up to the order of the keys of every
  object and the sign of zero; so a content hash changes with the content, and with nothing else, unless
  SHA-256 collides.
\<close>

theorem canonicalJson_identifies:
  assumes "number_text_ok nt" and "distinct_keys v" and "distinct_keys w"
    and "canonicalJson nt v = Inr e" and "canonicalJson nt w = Inr e'"
  shows "e = e' \<longleftrightarrow> alike nt v w"
proof
  assume "alike nt v w"
  then have "canonicalize id nt w = Inr e"
    using alike_same_text [OF _ _ assms(2,3) keys_apart_inj [OF inj_on_id]] assms(1,4) unfolding canonicalJson_def number_text_ok_def by blast
  with assms(5) show "e = e'" by (simp add: canonicalJson_def)
next
  assume "e = e'"
  with canonical_decode [OF assms(1-3), of id] assms(4,5) show "alike nt v w"
    by (simp add: canonicalJson_def decodes_def)
qed

subsection \<open>Which values have a canonical text\<close>

text \<open>The values that JSON can express: the type of a payload that PostgreSQL can store.\<close>

fun json_value :: "'n number_text \<Rightarrow> 'n js_value \<Rightarrow> bool" where
  "json_value nt (JS_number n) \<longleftrightarrow> nt_finite nt n"
| "json_value nt (JS_array vs) \<longleftrightarrow> list_all (\<lambda>slot. case slot of None \<Rightarrow> False | Some v \<Rightarrow> json_value nt v) vs"
| "json_value nt (JS_object plain symbols kvs) \<longleftrightarrow> plain \<and> \<not> symbols \<and> list_all (\<lambda>(k, v). json_value nt v) kvs"
| "json_value nt (JS_other t) \<longleftrightarrow> False"
| "json_value nt _ \<longleftrightarrow> True"

lemma all_values_ex: "(\<exists>as. all_values xs = Inr as) \<longleftrightarrow> (\<forall>x \<in> set xs. \<exists>a. x = Inr a)"
proof -
  have "(\<exists>as. xs = map Inr as) \<longleftrightarrow> (\<forall>x \<in> set xs. \<exists>a. x = Inr a)" using ex_map_conv by metis
  then show ?thesis by (simp add: all_values_Inr)
qed

lemma bracketed_ex: "(\<exists>s. bracketed l r es = Inr s) \<longleftrightarrow> (\<exists>as. es = Inr as)"
  by (simp add: bracketed_def split: sum.split)

lemma map_sum_ex: "(\<exists>a. map_sum id f x = Inr a) \<longleftrightarrow> (\<exists>a. x = Inr a)"
  by (cases x) simp_all

lemma canonicalize_ex: "(\<exists>e. canonicalize key nt v = Inr e) \<longleftrightarrow> json_value nt v"
proof (induction v)
  case (JS_array vs)
  have "(\<exists>a. (case slot of None \<Rightarrow> Inl JE_sparse | Some v \<Rightarrow> canonicalize key nt v) = Inr a) \<longleftrightarrow>
      (case slot of None \<Rightarrow> False | Some v \<Rightarrow> json_value nt v)" if "slot \<in> set vs" for slot
    using JS_array [OF that] by (cases slot) simp_all
  then show ?case by (simp add: bracketed_ex all_values_ex list_all_iff)
next
  case (JS_object plain symbols kvs)
  have "(\<exists>e. canonicalize key nt (snd p) = Inr e) \<longleftrightarrow> json_value nt (snd p)" if "p \<in> set kvs" for p
    using JS_object [OF that] by (cases p) simp
  then show ?case
    by (auto simp: bracketed_ex all_values_ex map_sum_ex list_all_iff case_prod_beta simp del: map_sum.simps)
qed simp_all

text \<open>
  C33: Exactly the JSON values have a canonical text: no error for a value built from null, booleans,
  strings, finite numbers, arrays without holes and plain objects, and an error for anything else, at any
  depth; nothing is silently dropped, as \<^verbatim>\<open>JSON.stringify\<close> does with undefined values and NaN.
\<close>

theorem canonicalJson_accepts_iff: "(\<exists>e. canonicalJson nt v = Inr e) = json_value nt v"
  unfolding canonicalJson_def by (rule canonicalize_ex)

text \<open>Integers, as the engine prints them.\<close>

definition show_int :: "int \<Rightarrow> string" where
  "show_int n = (if n < 0 then CHR ''-'' # dec (nat (- n)) else dec (nat n))"

definition int_text :: "int number_text" where
  "int_text = \<lparr>nt_finite = (\<lambda>n. True), nt_zero = (\<lambda>n. n = 0), nt_show = show_int\<rparr>"


lemma digit_char: "n < 10 \<Longrightarrow> char_of (48 + n :: nat) \<in> set ''0123456789''"
proof -
  have "\<forall>n \<in> set [0..<10]. char_of (48 + n :: nat) \<in> set ''0123456789''" by code_simp
  moreover assume "n < 10"
  ultimately show ?thesis by (metis atLeast0LessThan atLeast_upt lessThan_iff)
qed

lemma dec_chars: "dec n \<noteq> [] \<and> set (dec n) \<subseteq> set ''0123456789''"
proof -
  define digits where "digits = set ''0123456789''"
  have digit: "char_of (48 + d :: nat) \<in> digits" if "d < 10" for d using digit_char [OF that] by (simp add: digits_def)
  have "dec n \<noteq> [] \<and> set (dec n) \<subseteq> digits"
  proof (induction n rule: dec.induct)
    case (1 n)
    then show ?case using digit [of n] digit [of "n mod 10"] by (subst (1 2) dec.simps) auto
  qed
  then show ?thesis by (simp add: digits_def)
qed

lemma int_text_ok: "number_text_ok int_text"
proof -
  have chars: "show_int n \<noteq> [] \<and> set (show_int n) \<subseteq> number_chars \<and> hd (show_int n) \<in> set ''0123456789-''" for n
  proof -
    have "hd (dec m) \<in> set ''0123456789''" for m using dec_chars [of m] by (meson hd_in_set subsetD)
    moreover have "set ''0123456789'' \<subseteq> number_chars" by (simp add: number_chars_def)
    moreover have "CHR ''-'' \<in> number_chars" by (simp add: number_chars_def)
    ultimately show ?thesis using dec_chars [of "nat n"] dec_chars [of "nat (- n)"]
      by (simp add: show_int_def) blast
  qed
  have minus: "CHR ''-'' \<notin> set (dec m)" for m using dec_chars [of m] by auto
  have inj: "n = m" if "show_int n = show_int m" for n m
  proof -
    have "dec a \<noteq> CHR ''-'' # dec b" for a b using minus [of a] by auto
    with that show ?thesis by (auto simp: show_int_def split: if_splits) (metis)+
  qed
  moreover have "show_int 0 = ''0''" by (simp add: show_int_def dec_digits)
  ultimately have "n = 0" if "show_int n = ''0''" for n using that by metis
  with chars inj show ?thesis by (simp add: number_text_ok_def int_text_def)
qed

theorem canonicalJson_identifies_witness:
  "canonicalJson int_text (JS_record [(''b'', JS_number 0), (''a'', JS_array [Some JS_null, Some (JS_string [CHR 0x0A])])])
     = canonicalJson int_text (JS_record [(''a'', JS_array [Some JS_null, Some (JS_string [CHR 0x0A])]), (''b'', JS_number 0)])
   \<and> alike int_text (JS_record [(''b'', JS_number 0), (''a'', JS_array [Some JS_null, Some (JS_string [CHR 0x0A])])])
       (JS_record [(''a'', JS_array [Some JS_null, Some (JS_string [CHR 0x0A])]), (''b'', JS_number 0)])"
proof -
  define v w :: "int js_value" where "v = JS_record [(''b'', JS_number 0), (''a'', JS_array [Some JS_null, Some (JS_string [CHR 0x0A])])]"
    and "w = JS_record [(''a'', JS_array [Some JS_null, Some (JS_string [CHR 0x0A])]), (''b'', JS_number 0)]"
  define e where "e = ''{'' @ json_member ''a'' (''[null,'' @ json_string [CHR 0x0A] @ '']'') @ '','' @ json_member ''b'' ''0'' @ ''}''"
  have "canonicalJson int_text v = Inr e" "canonicalJson int_text w = Inr e"
    unfolding v_def w_def e_def by code_simp+
  moreover have "distinct_keys v" "distinct_keys w" by (simp_all add: v_def w_def)
  ultimately show ?thesis using canonicalJson_identifies [OF int_text_ok, of v w e e] unfolding v_def w_def by simp
qed

end
