(* ===== verification/Planning.thy ===== *)
theory Planning
  imports Plan
begin

section \<open>The planning workflow\<close>

text \<open>
  \<^verbatim>\<open>apps/server/src/planning/session.ts\<close> with the finding and response contracts of
  \<^verbatim>\<open>packages/contracts/src/review.ts\<close> and the prompts of \<^verbatim>\<open>planning/prompts.ts\<close>: the PM drafts a plan, the
  reviewer returns findings, the PM answers and revises, until no finding must be fixed or the rounds are
  used up.

  The two language models are functions of the requests made so far, so that they may answer every
  request differently; \<^verbatim>\<open>completeStructured\<close> returns a value of the requested schema with the usage of
  the call, or rejects. A prompt is kept as the function of \<^verbatim>\<open>prompts.ts\<close> that renders it, with its
  arguments; \<^verbatim>\<open>parse\<close> is the schema check that \<^verbatim>\<open>validatePlan\<close> repeats. The counters are integers here;
  an option that is no integer is not modelled.
\<close>

subsection \<open>Findings and responses\<close>

datatype review_severity = SV_must_fix | SV_should_fix | SV_suggestion

record review_finding =
  rf_severity :: review_severity
  rf_module_id :: "ident option"
  rf_finding :: string
  rf_recommendation :: string

datatype finding_disposition = FD_accept | FD_rebut

record finding_response =
  fr_finding_index :: nat
  fr_disposition :: finding_disposition
  fr_rationale :: string

definition ReviewFinding_ok :: "review_finding \<Rightarrow> bool" where
  "ReviewFinding_ok f \<longleftrightarrow> nonempty_str (rf_finding f) \<and> nonempty_str (rf_recommendation f)"

definition FindingResponse_ok :: "finding_response \<Rightarrow> bool" where
  "FindingResponse_ok r \<longleftrightarrow> nonempty_str (fr_rationale r)"

definition must_fix :: "review_finding \<Rightarrow> bool" where
  "must_fix f \<longleftrightarrow> rf_severity f = SV_must_fix"

definition mustFixCount :: "review_finding list \<Rightarrow> nat" where
  "mustFixCount fs = length (filter must_fix fs)"

record review_policy =
  rv_pm_provider :: string
  rv_pm_model :: string
  rv_reviewer_provider :: string
  rv_reviewer_model :: string
  rv_exception_reason :: "string option"
  rv_exception_approved_by :: "string option"

subsection \<open>Prompts\<close>

datatype memory_author = MA_human | MA_pm

record memory_entry =
  my_id :: ident
  my_directive :: string
  my_version :: nat
  my_active :: bool
  my_created_by :: memory_author
  my_created_at :: string

definition renderMemoryBlock :: "memory_entry list \<Rightarrow> string" where
  "renderMemoryBlock entries =
     (let active = filter my_active entries in
      if active = [] then []
      else ''<project_memory>'' @ [CHR 0x0A] @ join [CHR 0x0A] (map (\<lambda>e. ''- '' @ my_directive e) active)
        @ [CHR 0x0A] @ ''</project_memory>'')"

definition paragraphs :: "string list \<Rightarrow> string" where
  "paragraphs ss = join [CHR 0x0A, CHR 0x0A] (filter (\<lambda>s. s \<noteq> []) ss)"

definition pmSystem :: "memory_entry list \<Rightarrow> string" where
  "pmSystem memory = paragraphs
     [''You are the PM agent of TheNorns. You produce implementation plans as structured Plan Contract JSON.'',
      ''State the goal and constraints; decompose into modules with objectively checkable acceptance criteria.'',
      renderMemoryBlock memory]"

definition reviewerSystem :: "memory_entry list \<Rightarrow> string" where
  "reviewerSystem memory = paragraphs
     [''You are an independent plan reviewer from a different provider than the plan's author.'',
      ''Return structured findings. Severity must_fix is reserved for defects that make the plan unexecutable, unsafe, or unverifiable.'',
      ''Consolidate overlapping concerns into one finding for the same module or plan-level field. Do not split one defect into multiple findings or repeat the same recommendation in different words.'',
      renderMemoryBlock memory]"

datatype planning_prompt =
    PP_draftPlan string
  | PP_quickChange string
  | PP_collapse
  | PP_validationRetry "plan_error list"
  | PP_directionRevision plan_contract string
  | PP_review plan_contract
  | PP_revision plan_contract "review_finding list"

datatype schema_name = SN_quick_change | SN_plan_contract | SN_review_findings | SN_plan_revision

record 'img llm_request =
  lq_schema :: schema_name
  lq_system :: string
  lq_prompt :: planning_prompt
  lq_attempt :: "nat option"
  lq_images :: "'img list"

subsection \<open>State\<close>

record plan_version =
  pv_version :: nat
  pv_plan :: plan_contract
  pv_findings :: "review_finding list option"
  pv_responses :: "finding_response list option"

datatype round_phase = RP_draft | RP_review "review_finding list" | RP_revision

record round_event =
  re_round :: int
  re_phase :: round_phase
  re_plan :: plan_contract

datatype 'x planning_error =
    PlanningSameProvider
  | PlanningPlanInvalid
  | PlanningMissingDispositions "nat list"
  | PlanningUnreachable
  | PlanningRejected 'x

text \<open>
  The answers of the two adapters, given all requests up to and including the present one, and the error
  that the observer of the rounds throws, if it does.
\<close>

record ('img, 'u, 'x) planning_host =
  ph_plan :: "'img llm_request list \<Rightarrow> 'x + plan_contract \<times> 'u"
  ph_findings :: "'img llm_request list \<Rightarrow> 'x + review_finding list \<times> 'u"
  ph_revision :: "'img llm_request list \<Rightarrow> 'x + (finding_response list \<times> plan_contract) \<times> 'u"
  ph_onRound :: "round_event \<Rightarrow> 'x option"

record ('img, 'u) planning_state =
  ps_requests :: "'img llm_request list"
  ps_usage :: "'u list"
  ps_versions :: "plan_version list"
  ps_events :: "round_event list"

definition planning_start :: "('img, 'u) planning_state" where
  "planning_start = \<lparr>ps_requests = [], ps_usage = [], ps_versions = [], ps_events = []\<rparr>"

record 'img planning_options =
  po_pm_provider :: string
  po_pm_model :: string
  po_reviewer_provider :: string
  po_reviewer_model :: string
  po_objective :: string
  po_memory :: "memory_entry list"
  po_maxRounds :: "int option"
  po_maxValidationRetries :: "int option"
  po_reviewException :: "(string \<times> string) option"
  po_roundOneImages :: "'img list"
  po_revisionSeed :: "(plan_contract \<times> string) option"

datatype planning_status = PG_converged | PG_cap_reached

record 'u planning_result =
  pr_status :: planning_status
  pr_rounds :: int
  pr_versions :: "plan_version list"
  pr_finalPlan :: plan_contract
  pr_outstanding :: "review_finding list"
  pr_policy :: review_policy
  pr_usage :: "'u list"

subsection \<open>Requests\<close>

type_synonym ('img, 'u, 'x, 'a) planning = "(('img, 'u) planning_state, 'x planning_error, 'a) action"

definition llm_call ::
    "('img llm_request list \<Rightarrow> 'x + 'a \<times> 'u) \<Rightarrow> 'img llm_request \<Rightarrow> ('img, 'u, 'x, 'a) planning" where
  "llm_call answer rq s =
     (let requests = ps_requests s @ [rq]; s' = s\<lparr>ps_requests := requests\<rparr> in
      case answer requests of
        Inl e \<Rightarrow> (Inl (PlanningRejected e), s')
      | Inr (a, u) \<Rightarrow> (Inr a, s'\<lparr>ps_usage := ps_usage s @ [u]\<rparr>))"

definition on_round ::
    "('img, 'u, 'x) planning_host \<Rightarrow> int \<Rightarrow> round_phase \<Rightarrow> plan_contract \<Rightarrow> ('img, 'u, 'x, unit) planning" where
  "on_round h round_no ph plan s =
     (let e = \<lparr>re_round = round_no, re_phase = ph, re_plan = plan\<rparr>; s' = s\<lparr>ps_events := ps_events s @ [e]\<rparr> in
      case ph_onRound h e of Some x \<Rightarrow> (Inl (PlanningRejected x), s') | None \<Rightarrow> (Inr (), s'))"

definition plan_request ::
    "schema_name \<Rightarrow> string \<Rightarrow> planning_prompt \<Rightarrow> nat \<Rightarrow> 'img list \<Rightarrow> 'img llm_request" where
  "plan_request schema system prompt attempt images =
     \<lparr>lq_schema = schema, lq_system = system, lq_prompt = prompt, lq_attempt = Some attempt,
      lq_images = (if attempt = 0 then images else [])\<rparr>"

text \<open>The attempts still allowed count down; \<open>attempt\<close> counts up as in the source.\<close>

definition attempts_allowed :: "int option \<Rightarrow> nat" where
  "attempts_allowed retries = nat ((case retries of Some n \<Rightarrow> n | None \<Rightarrow> 2) + 1)"

fun generateValidPlan ::
    "('img, 'u, 'x) planning_host \<Rightarrow> (plan_contract \<Rightarrow> schema_issue list + plan_contract) \<Rightarrow> string \<Rightarrow> 'img list \<Rightarrow>
     nat \<Rightarrow> nat \<Rightarrow> planning_prompt \<Rightarrow> ('img, 'u, 'x, plan_contract) planning" where
  "generateValidPlan h parse system images 0 attempt prompt = throwing PlanningPlanInvalid"
| "generateValidPlan h parse system images (Suc left) attempt prompt =
     and_then (llm_call (ph_plan h) (plan_request SN_plan_contract system prompt attempt images))
       (\<lambda>draft. case validatePlan parse draft of
          Inr plan \<Rightarrow> returning plan
        | Inl errors \<Rightarrow> generateValidPlan h parse system images left (Suc attempt) (PP_validationRetry errors))"

fun quick_attempts ::
    "('img, 'u, 'x) planning_host \<Rightarrow> (plan_contract \<Rightarrow> schema_issue list + plan_contract) \<Rightarrow> string \<Rightarrow> 'img list \<Rightarrow>
     nat \<Rightarrow> nat \<Rightarrow> planning_prompt \<Rightarrow> ('img, 'u, 'x, plan_contract) planning" where
  "quick_attempts h parse system images 0 attempt prompt = throwing PlanningPlanInvalid"
| "quick_attempts h parse system images (Suc left) attempt prompt =
     and_then (llm_call (ph_plan h) (plan_request SN_quick_change system prompt attempt images))
       (\<lambda>draft. case validatePlan parse draft of
          Inr plan \<Rightarrow>
            if length (pc_modules plan) \<noteq> 1 then quick_attempts h parse system images left (Suc attempt) PP_collapse
            else returning plan
        | Inl errors \<Rightarrow> quick_attempts h parse system images left (Suc attempt) (PP_validationRetry errors))"

definition runQuickPlanning ::
    "('img, 'u, 'x) planning_host \<Rightarrow> (plan_contract \<Rightarrow> schema_issue list + plan_contract) \<Rightarrow> string \<Rightarrow> memory_entry list \<Rightarrow>
     int option \<Rightarrow> 'img list \<Rightarrow> ('img, 'u, 'x, plan_contract \<times> 'u list) planning" where
  "runQuickPlanning h parse objective memory retries images =
     and_then (quick_attempts h parse (pmSystem memory) images (attempts_allowed retries) 0 (PP_quickChange objective))
       (\<lambda>plan. and_then (reading ps_usage) (\<lambda>usage. returning (plan, usage)))"

subsection \<open>The rounds\<close>

definition update_last :: "('a \<Rightarrow> 'a) \<Rightarrow> 'a list \<Rightarrow> 'a list" where
  "update_last f xs = (if xs = [] then [] else butlast xs @ [f (last xs)])"

definition set_findings :: "review_finding list \<Rightarrow> ('img, 'u, 'x, unit) planning" where
  "set_findings fs = modifying (\<lambda>s. s\<lparr>ps_versions := update_last (\<lambda>v. v\<lparr>pv_findings := Some fs\<rparr>) (ps_versions s)\<rparr>)"

definition set_responses :: "finding_response list \<Rightarrow> ('img, 'u, 'x, unit) planning" where
  "set_responses rs = modifying (\<lambda>s. s\<lparr>ps_versions := update_last (\<lambda>v. v\<lparr>pv_responses := Some rs\<rparr>) (ps_versions s)\<rparr>)"

definition push_version :: "plan_contract \<Rightarrow> ('img, 'u, 'x, unit) planning" where
  "push_version plan = modifying (\<lambda>s. s\<lparr>ps_versions := ps_versions s @
     [\<lparr>pv_version = length (ps_versions s) + 1, pv_plan = plan, pv_findings = None, pv_responses = None\<rparr>]\<rparr>)"

definition unanswered :: "review_finding list \<Rightarrow> finding_response list \<Rightarrow> nat list" where
  "unanswered fs rs =
     filter (\<lambda>i. must_fix (fs ! i) \<and> i \<notin> fr_finding_index ` set rs) [0..<length fs]"

definition planning_policy :: "'img planning_options \<Rightarrow> review_policy" where
  "planning_policy p =
     \<lparr>rv_pm_provider = po_pm_provider p, rv_pm_model = po_pm_model p, rv_reviewer_provider = po_reviewer_provider p,
      rv_reviewer_model = po_reviewer_model p, rv_exception_reason = map_option fst (po_reviewException p),
      rv_exception_approved_by = map_option snd (po_reviewException p)\<rparr>"

definition finish_planning ::
    "'img planning_options \<Rightarrow> planning_status \<Rightarrow> int \<Rightarrow> plan_contract \<Rightarrow> review_finding list \<Rightarrow>
     ('img, 'u, 'x, 'u planning_result) planning" where
  "finish_planning p status round_no plan outstanding =
     and_then (reading ps_versions) (\<lambda>versions. and_then (reading ps_usage) (\<lambda>usage. returning
       \<lparr>pr_status = status, pr_rounds = round_no, pr_versions = versions, pr_finalPlan = plan,
        pr_outstanding = outstanding, pr_policy = planning_policy p, pr_usage = usage\<rparr>))"

definition review_request :: "'img planning_options \<Rightarrow> int \<Rightarrow> plan_contract \<Rightarrow> 'img llm_request" where
  "review_request p round_no plan =
     \<lparr>lq_schema = SN_review_findings, lq_system = reviewerSystem (po_memory p), lq_prompt = PP_review plan,
      lq_attempt = None, lq_images = (if round_no = 1 then po_roundOneImages p else [])\<rparr>"

definition revision_request ::
    "'img planning_options \<Rightarrow> plan_contract \<Rightarrow> review_finding list \<Rightarrow> 'img llm_request" where
  "revision_request p plan fs =
     \<lparr>lq_schema = SN_plan_revision, lq_system = pmSystem (po_memory p), lq_prompt = PP_revision plan fs,
      lq_attempt = None, lq_images = []\<rparr>"

definition generate ::
    "('img, 'u, 'x) planning_host \<Rightarrow> (plan_contract \<Rightarrow> schema_issue list + plan_contract) \<Rightarrow> 'img planning_options \<Rightarrow>
     planning_prompt \<Rightarrow> 'img list \<Rightarrow> ('img, 'u, 'x, plan_contract) planning" where
  "generate h parse p prompt images =
     generateValidPlan h parse (pmSystem (po_memory p)) images (attempts_allowed (po_maxValidationRetries p)) 0 prompt"

text \<open>The PM answers the findings of a round and produces the next version.\<close>

definition revise ::
    "('img, 'u, 'x) planning_host \<Rightarrow> (plan_contract \<Rightarrow> schema_issue list + plan_contract) \<Rightarrow> 'img planning_options \<Rightarrow>
     int \<Rightarrow> plan_contract \<Rightarrow> review_finding list \<Rightarrow> ('img, 'u, 'x, plan_contract) planning" where
  "revise h parse p round_no plan fs =
     and_then (llm_call (ph_revision h) (revision_request p plan fs))
       (\<lambda>(responses, revised).
          if unanswered fs responses \<noteq> [] then throwing (PlanningMissingDispositions (unanswered fs responses))
          else and_then
            (case validatePlan parse revised of
               Inl errors \<Rightarrow> generate h parse p (PP_validationRetry errors) []
             | Inr plan' \<Rightarrow> returning plan')
            (\<lambda>plan'. and_then (set_responses responses)
              (\<lambda>_. and_then (push_version plan')
                (\<lambda>_. and_then (on_round h round_no RP_revision plan') (\<lambda>_. returning plan')))))"

text \<open>
  The loop from \<open>round_no\<close> to \<open>maxRounds\<close>; \<open>left\<close> is how many rounds the condition of the loop still
  lets in, so \<open>left = 0\<close> after a round means \<^verbatim>\<open>round === maxRounds\<close>.
\<close>

fun planning_rounds ::
    "('img, 'u, 'x) planning_host \<Rightarrow> (plan_contract \<Rightarrow> schema_issue list + plan_contract) \<Rightarrow> 'img planning_options \<Rightarrow>
     nat \<Rightarrow> int \<Rightarrow> plan_contract \<Rightarrow> ('img, 'u, 'x, 'u planning_result) planning" where
  "planning_rounds h parse p 0 round_no plan = throwing PlanningUnreachable"
| "planning_rounds h parse p (Suc left) round_no plan =
     and_then (llm_call (ph_findings h) (review_request p round_no plan))
       (\<lambda>fs. and_then (set_findings fs)
         (\<lambda>_. and_then (on_round h round_no (RP_review fs) plan)
           (\<lambda>_. if mustFixCount fs = 0 then finish_planning p PG_converged round_no plan []
                else if left = 0 then finish_planning p PG_cap_reached round_no plan (filter must_fix fs)
                else and_then (revise h parse p round_no plan fs)
                  (\<lambda>plan'. planning_rounds h parse p left (round_no + 1) plan'))))"

definition first_plan ::
    "('img, 'u, 'x) planning_host \<Rightarrow> (plan_contract \<Rightarrow> schema_issue list + plan_contract) \<Rightarrow> 'img planning_options \<Rightarrow>
     ('img, 'u, 'x, plan_contract) planning" where
  "first_plan h parse p =
     (case po_revisionSeed p of
        Some (plan, direction) \<Rightarrow> generate h parse p (PP_directionRevision plan direction) []
      | None \<Rightarrow> generate h parse p (PP_draftPlan (po_objective p)) (po_roundOneImages p))"

definition rounds_allowed :: "'img planning_options \<Rightarrow> nat" where
  "rounds_allowed p = nat (case po_maxRounds p of Some n \<Rightarrow> n | None \<Rightarrow> 1)"

definition runPlanning ::
    "('img, 'u, 'x) planning_host \<Rightarrow> (plan_contract \<Rightarrow> schema_issue list + plan_contract) \<Rightarrow> 'img planning_options \<Rightarrow>
     ('img, 'u, 'x, 'u planning_result) planning" where
  "runPlanning h parse p =
     (if po_pm_provider p = po_reviewer_provider p \<and> po_reviewException p = None then throwing PlanningSameProvider
      else and_then (first_plan h parse p)
        (\<lambda>plan. and_then (push_version plan)
          (\<lambda>_. and_then (on_round h 1 RP_draft plan)
            (\<lambda>_. planning_rounds h parse p (rounds_allowed p) 1 plan))))"

subsection \<open>What a result guarantees\<close>

text \<open>
  A list of versions as the human sees it: numbered from one, every plan well formed, every version but
  the last reviewed with something to fix and every such finding answered.
\<close>

definition settled_version :: "plan_version \<Rightarrow> bool" where
  "settled_version v \<longleftrightarrow> (\<exists>fs rs. pv_findings v = Some fs \<and> pv_responses v = Some rs
     \<and> mustFixCount fs \<noteq> 0 \<and> unanswered fs rs = [])"

definition versions_ok :: "plan_version list \<Rightarrow> bool" where
  "versions_ok vs \<longleftrightarrow> map pv_version vs = [1..<Suc (length vs)]
     \<and> list_all (\<lambda>v. plan_graph_ok (pc_modules (pv_plan v))) vs \<and> list_all settled_version (butlast vs)"

definition open_version :: "plan_contract \<Rightarrow> plan_version list \<Rightarrow> bool" where
  "open_version plan vs \<longleftrightarrow> versions_ok vs \<and> vs \<noteq> [] \<and> pv_plan (last vs) = plan
     \<and> pv_findings (last vs) = None \<and> pv_responses (last vs) = None"

definition result_ok :: "'img planning_options \<Rightarrow> 'u planning_result \<Rightarrow> bool" where
  "result_ok p r \<longleftrightarrow> versions_ok (pr_versions r) \<and> pr_versions r \<noteq> []
     \<and> pv_plan (last (pr_versions r)) = pr_finalPlan r
     \<and> (\<exists>fs. pv_findings (last (pr_versions r)) = Some fs \<and> pr_outstanding r = filter must_fix fs)
     \<and> (pr_status r = PG_converged \<longleftrightarrow> pr_outstanding r = [])
     \<and> pr_rounds r = int (length (pr_versions r)) \<and> pr_rounds r \<le> int (rounds_allowed p)
     \<and> (pr_status r = PG_cap_reached \<longrightarrow> pr_rounds r = int (rounds_allowed p))
     \<and> (rv_pm_provider (pr_policy r) \<noteq> rv_reviewer_provider (pr_policy r)
        \<or> rv_exception_reason (pr_policy r) \<noteq> None \<and> rv_exception_approved_by (pr_policy r) \<noteq> None)"


lemma validatePlan_graph_ok: "validatePlan parse x = Inr plan \<Longrightarrow> plan_graph_ok (pc_modules plan)"
  by (auto simp: validatePlan_def Let_def plan_errors_Nil_iff split: sum.splits if_splits)

lemma llm_call_Inr: "llm_call f rq s = (Inr a, t) \<Longrightarrow>
    \<exists>u. t = s\<lparr>ps_requests := ps_requests s @ [rq], ps_usage := ps_usage s @ [u]\<rparr>"
  by (auto simp: llm_call_def Let_def split: sum.splits)

lemma on_round_Inr: "on_round h n ph plan s = (Inr x, t) \<Longrightarrow>
    t = s\<lparr>ps_events := ps_events s @ [\<lparr>re_round = n, re_phase = ph, re_plan = plan\<rparr>]\<rparr>"
  by (auto simp: on_round_def Let_def split: option.splits)

lemma generateValidPlan_ok:
  "generateValidPlan h parse sy im left att pr s = (Inr plan, t) \<Longrightarrow>
     plan_graph_ok (pc_modules plan) \<and> ps_versions t = ps_versions s"
proof (induction left arbitrary: att pr s)
  case (Suc left)
  from Suc.prems obtain draft u where call: "llm_call (ph_plan h) (plan_request SN_plan_contract sy pr att im) s = (Inr draft, u)"
    and rest: "(case validatePlan parse draft of Inr plan \<Rightarrow> returning plan
        | Inl errors \<Rightarrow> generateValidPlan h parse sy im left (Suc att) (PP_validationRetry errors)) u = (Inr plan, t)"
    by (auto simp: and_then_Inr_iff)
  have "ps_versions u = ps_versions s" using llm_call_Inr [OF call] by auto
  with rest Suc.IH show ?case
    by (auto simp: returning_def validatePlan_graph_ok split: sum.splits)
qed (simp add: throwing_def)

lemma generate_ok:
  "generate h parse p pr im s = (Inr plan, t) \<Longrightarrow> plan_graph_ok (pc_modules plan) \<and> ps_versions t = ps_versions s"
  unfolding generate_def by (rule generateValidPlan_ok)

lemma update_last_snoc [simp]: "update_last f (xs @ [x]) = xs @ [f x]"
  by (simp add: update_last_def)

lemma mustFixCount_0: "mustFixCount fs = 0 \<longleftrightarrow> filter must_fix fs = []"
  by (simp add: mustFixCount_def)

lemma open_version_push:
  assumes "versions_ok (vs @ [v])" and "settled_version v" and "plan_graph_ok (pc_modules plan)"
  shows "open_version plan (vs @ [v] @
    [\<lparr>pv_version = length (vs @ [v]) + 1, pv_plan = plan, pv_findings = None, pv_responses = None\<rparr>])"
  using assms by (simp add: open_version_def versions_ok_def butlast_append)

lemma revise_ok:
  assumes "revise h parse p n plan fs s = (Inr plan', t)"
    and "versions_ok (ps_versions s)" "ps_versions s \<noteq> []" "pv_findings (last (ps_versions s)) = Some fs"
    and "mustFixCount fs \<noteq> 0"
  shows "open_version plan' (ps_versions t) \<and> length (ps_versions t) = Suc (length (ps_versions s))"
proof -
  obtain vs v where vs: "ps_versions s = vs @ [v]" using assms(3) by (cases "ps_versions s" rule: rev_cases) auto
  from assms(1) obtain rs revised s1 s2 s3 where
    call: "llm_call (ph_revision h) (revision_request p plan fs) s = (Inr (rs, revised), s1)"
    and un: "unanswered fs rs = []"
    and pl: "(case validatePlan parse revised of Inl errors \<Rightarrow> generate h parse p (PP_validationRetry errors) []
               | Inr plan' \<Rightarrow> returning plan') s1 = (Inr plan', s2)"
    and last: "on_round h n RP_revision plan' s3 = (Inr (), t)"
    and s3: "s3 = snd (push_version plan' (snd (set_responses rs s2)))"
    unfolding revise_def
    by (auto simp: and_then_Inr_iff throwing_def returning_def set_responses_def push_version_def modifying_def
        split: if_splits)
  have g: "plan_graph_ok (pc_modules plan')" and v2: "ps_versions s2 = vs @ [v]"
    using pl llm_call_Inr [OF call] vs
    by (auto simp: returning_def validatePlan_graph_ok split: sum.splits dest: generate_ok)
  define v' where "v' = v\<lparr>pv_responses := Some rs\<rparr>"
  have "versions_ok (vs @ [v'])" "settled_version v'"
    using assms(2,4,5) un vs by (simp_all add: v'_def versions_ok_def settled_version_def)
  note open_version_push [OF this g]
  moreover have "ps_versions t = vs @ [v'] @
    [\<lparr>pv_version = length (vs @ [v']) + 1, pv_plan = plan', pv_findings = None, pv_responses = None\<rparr>]"
    using on_round_Inr [OF last] by (simp add: s3 set_responses_def push_version_def modifying_def v2 v'_def)
  ultimately show ?thesis using vs by simp
qed

lemma planning_rounds_ok:
  assumes "planning_rounds h parse p left n plan s = (Inr r, t)"
    and "open_version plan (ps_versions s)" and "n = int (length (ps_versions s))"
    and "int left + n = int (rounds_allowed p) + 1"
    and "po_pm_provider p \<noteq> po_reviewer_provider p \<or> po_reviewException p \<noteq> None"
  shows "result_ok p r"
  using assms(1-4)
proof (induction left arbitrary: n plan s)
  case (Suc left)
  obtain vs v where vs: "ps_versions s = vs @ [v]"
    using Suc.prems(2) by (cases "ps_versions s" rule: rev_cases) (auto simp: open_version_def)
  from Suc.prems(1) obtain fs s1 s2 where
    call: "llm_call (ph_findings h) (review_request p n plan) s = (Inr fs, s1)"
    and ev: "on_round h n (RP_review fs) plan (snd (set_findings fs s1)) = (Inr (), s2)"
    and rest: "(if mustFixCount fs = 0 then finish_planning p PG_converged n plan []
                else if left = 0 then finish_planning p PG_cap_reached n plan (filter must_fix fs)
                else and_then (revise h parse p n plan fs)
                  (\<lambda>plan'. planning_rounds h parse p left (n + 1) plan')) s2 = (Inr r, t)"
    by (auto simp: and_then_Inr_iff set_findings_def modifying_def)
  define v' where "v' = v\<lparr>pv_findings := Some fs\<rparr>"
  have v2: "ps_versions s2 = vs @ [v']"
    using on_round_Inr [OF ev] llm_call_Inr [OF call] vs by (auto simp: set_findings_def modifying_def v'_def)
  have ok: "versions_ok (vs @ [v'])" "pv_plan v' = plan" "pv_findings v' = Some fs"
    using Suc.prems(2) vs by (auto simp: open_version_def versions_ok_def v'_def)
  have done': "result_ok p r"
    if r: "finish_planning p st n plan (filter must_fix fs) s2 = (Inr r, t)"
      and st: "st = PG_converged \<longleftrightarrow> filter must_fix fs = []" "st = PG_cap_reached \<longrightarrow> left = 0" for st
    using r st ok v2 vs Suc.prems(3,4) assms(5)
    by (auto simp: finish_planning_def and_then_def reading_def returning_def result_ok_def planning_policy_def
        mustFixCount_0)
  consider "mustFixCount fs = 0" | "mustFixCount fs \<noteq> 0" "left = 0" | "mustFixCount fs \<noteq> 0" "left \<noteq> 0" by blast
  then show ?case
  proof cases
    case 1
    with rest done' [of PG_converged] show ?thesis by (simp add: mustFixCount_0)
  next
    case 2
    with rest done' [of PG_cap_reached] show ?thesis by (simp add: mustFixCount_0)
  next
    case 3
    with rest obtain plan' s3 where rv: "revise h parse p n plan fs s2 = (Inr plan', s3)"
      and nx: "planning_rounds h parse p left (n + 1) plan' s3 = (Inr r, t)" by (auto simp: and_then_Inr_iff)
    have "open_version plan' (ps_versions s3) \<and> length (ps_versions s3) = Suc (length (ps_versions s2))"
      using revise_ok [OF rv] ok 3(1) by (simp add: v2)
    with nx Suc.prems(3,4) v2 vs show ?thesis by (intro Suc.IH [OF nx]) auto
  qed
qed (simp add: throwing_def)

text \<open>
  C7: What the human is asked to approve. Whatever the two models answer, a planning run that returns
  gives the versions numbered from one, each a plan that passes validation; every version but the last
  was reviewed, had findings that must be fixed, and each of those has an answer of the PM; the final
  plan is the last version, and the outstanding findings are exactly the must-fix findings of its review.
  The run converged exactly when there are none, otherwise all allowed rounds were used; and the
  providers differ or the exception with its approver is on record.
\<close>

theorem runPlanning_result:
  assumes "runPlanning h parse p planning_start = (Inr r, t)"
  shows "result_ok p r"
proof -
  from assms obtain plan s1 s2 where pol: "po_pm_provider p \<noteq> po_reviewer_provider p \<or> po_reviewException p \<noteq> None"
    and fp: "first_plan h parse p planning_start = (Inr plan, s1)"
    and ev: "on_round h 1 RP_draft plan (snd (push_version plan s1)) = (Inr (), s2)"
    and rs: "planning_rounds h parse p (rounds_allowed p) 1 plan s2 = (Inr r, t)"
    unfolding runPlanning_def
    by (auto simp: and_then_Inr_iff throwing_def push_version_def modifying_def split: if_splits)
  have g: "plan_graph_ok (pc_modules plan)" "ps_versions s1 = []"
    using fp by (auto simp: first_plan_def planning_start_def split: option.splits dest: generate_ok)
  have "open_version plan (ps_versions s2) \<and> length (ps_versions s2) = 1"
    using on_round_Inr [OF ev] g by (simp add: push_version_def modifying_def open_version_def versions_ok_def)
  then show ?thesis by (intro planning_rounds_ok [OF rs _ _ _ pol]) simp_all
qed


subsection \<open>The number of calls\<close>

definition llm_calls :: "('img, 'u) planning_state \<Rightarrow> nat" where
  "llm_calls s = length (ps_requests s)"

lemma calls_llm_call [simp]: "llm_call f rq s = (res, t) \<Longrightarrow> llm_calls t = Suc (llm_calls s)"
  by (auto simp: llm_call_def Let_def llm_calls_def split: sum.splits)

lemma calls_on_round: "on_round h n ph plan s = (res, t) \<Longrightarrow> llm_calls t = llm_calls s"
  by (auto simp: on_round_def Let_def llm_calls_def split: option.splits)

lemma and_then_cases:
  assumes "and_then m f s = (res, t)"
  obtains (stop) e where "m s = (Inl e, t)" "res = Inl e" | (go) a u where "m s = (Inr a, u)" "f a u = (res, t)"
  using assms by (cases "m s") (auto simp: and_then_def split: sum.splits)

lemma calls_generate: "generateValidPlan h parse sy im left att pr s = (res, t) \<Longrightarrow> llm_calls t \<le> llm_calls s + left"
proof (induction left arbitrary: att pr s)
  case (Suc left)
  from Suc.prems show ?case unfolding generateValidPlan.simps
    by (elim and_then_cases) (fastforce dest: Suc.IH calls_llm_call simp: returning_def split: sum.splits)+
qed (simp add: throwing_def)

lemma calls_revise:
  assumes "revise h parse p n plan fs s = (res, t)"
  shows "llm_calls t \<le> llm_calls s + 1 + attempts_allowed (po_maxValidationRetries p)"
proof -
  have a: "llm_calls y \<le> llm_calls x + attempts_allowed (po_maxValidationRetries p)"
    if "(case validatePlan parse d of Inl errors \<Rightarrow> generate h parse p (PP_validationRetry errors) []
               | Inr plan' \<Rightarrow> returning plan') x = (r, y)" for d r x y
    using that calls_generate unfolding generate_def by (fastforce simp: returning_def split: sum.splits)
  from assms show ?thesis unfolding revise_def
    by (elim and_then_cases)
      (fastforce dest: a calls_llm_call calls_on_round split: prod.splits if_splits elim: and_then_cases
        simp: throwing_def returning_def set_responses_def push_version_def modifying_def llm_calls_def)+
qed


lemma calls_result: "finish_planning p st n plan fs s = (res, t) \<Longrightarrow> t = s"
  by (auto simp: finish_planning_def and_then_def reading_def returning_def)

lemma calls_rounds:
  "planning_rounds h parse p left n plan s = (res, t) \<Longrightarrow>
     llm_calls t \<le> llm_calls s + left + (left - 1) * (1 + attempts_allowed (po_maxValidationRetries p))"
proof (induction left arbitrary: n plan s)
  case (Suc left)
  from Suc.prems show ?case unfolding planning_rounds.simps
  proof (elim and_then_cases)
    fix fs s1 s2 s3 u u' assume call: "llm_call (ph_findings h) (review_request p n plan) s = (Inr fs, s1)"
      and set: "set_findings fs s1 = (Inr u, s2)" and ev: "on_round h n (RP_review fs) plan s2 = (Inr u', s3)"
      and rest: "(if mustFixCount fs = 0 then finish_planning p PG_converged n plan []
                else if left = 0 then finish_planning p PG_cap_reached n plan (filter must_fix fs)
                else and_then (revise h parse p n plan fs)
                  (\<lambda>plan'. planning_rounds h parse p left (n + 1) plan')) s3 = (res, t)"
    have c3: "llm_calls s3 = Suc (llm_calls s)"
      using calls_llm_call [OF call] calls_on_round [OF ev] set by (auto simp: set_findings_def modifying_def llm_calls_def)
    show ?thesis
    proof (cases "mustFixCount fs = 0 \<or> left = 0")
      case True
      with rest have "t = s3" by (auto dest: calls_result split: if_splits)
      with c3 show ?thesis by simp
    next
      case False
      then obtain l where l: "left = Suc l" by (cases left) auto
      from False rest have "and_then (revise h parse p n plan fs) (\<lambda>plan'. planning_rounds h parse p left (n + 1) plan') s3
          = (res, t)" by simp
      then show ?thesis
      proof (cases rule: and_then_cases)
        case (stop e)
        from calls_revise [OF stop(1)] c3 l show ?thesis by simp
      next
        case (go plan' u)
        from calls_revise [OF go(1)] Suc.IH [OF go(2)] c3 l show ?thesis by simp
      qed
    qed
  qed (fastforce dest: calls_llm_call calls_on_round simp: set_findings_def modifying_def llm_calls_def)+
qed (simp add: throwing_def)

text \<open>
  A planning run is bounded whatever the models do: with \<open>A\<close> attempts per generated plan and \<open>R\<close>
  rounds it makes at most \<open>A + R + (R - 1) * (1 + A)\<close> calls, also when it fails, and none when both
  providers are the same without a documented exception.
\<close>

theorem runPlanning_calls:
  assumes "runPlanning h parse p planning_start = (res, t)"
  shows "length (ps_requests t) \<le> attempts_allowed (po_maxValidationRetries p) + rounds_allowed p
      + (rounds_allowed p - 1) * (1 + attempts_allowed (po_maxValidationRetries p))
    \<and> (po_pm_provider p = po_reviewer_provider p \<and> po_reviewException p = None \<longrightarrow>
         res = Inl PlanningSameProvider \<and> ps_requests t = [])"
proof (cases "po_pm_provider p = po_reviewer_provider p \<and> po_reviewException p = None")
  case False
  have first: "llm_calls u \<le> attempts_allowed (po_maxValidationRetries p)"
    if "first_plan h parse p planning_start = (r, u)" for r u
    using that calls_generate
    by (auto simp: first_plan_def generate_def planning_start_def llm_calls_def split: option.splits) fastforce+
  from assms False have "and_then (first_plan h parse p)
        (\<lambda>plan. and_then (push_version plan)
          (\<lambda>_. and_then (on_round h 1 RP_draft plan)
            (\<lambda>_. planning_rounds h parse p (rounds_allowed p) 1 plan))) planning_start = (res, t)"
    by (simp add: runPlanning_def)
  then have "llm_calls t \<le> attempts_allowed (po_maxValidationRetries p) + rounds_allowed p
      + (rounds_allowed p - 1) * (1 + attempts_allowed (po_maxValidationRetries p))"
  proof (elim and_then_cases)
    fix plan s1 s2 s3 u u' assume "first_plan h parse p planning_start = (Inr plan, s1)"
      and "push_version plan s1 = (Inr u, s2)" "on_round h 1 RP_draft plan s2 = (Inr u', s3)"
      and "planning_rounds h parse p (rounds_allowed p) 1 plan s3 = (res, t)"
    with first calls_rounds calls_on_round show ?thesis
      by (fastforce simp: push_version_def modifying_def llm_calls_def)
  qed (fastforce dest: first calls_on_round simp: push_version_def modifying_def llm_calls_def)+
  with False show ?thesis unfolding llm_calls_def by blast
qed (use assms in \<open>auto simp: runPlanning_def throwing_def planning_start_def\<close>)


subsection \<open>Images are paid for once\<close>

definition imaged :: "'img llm_request list \<Rightarrow> nat" where
  "imaged rqs = length (filter (\<lambda>rq. lq_images rq \<noteq> []) rqs)"

lemma imaged_append [simp]: "imaged (xs @ ys) = imaged xs + imaged ys"
  by (simp add: imaged_def)

lemma imaged_start [simp]: "imaged (ps_requests planning_start) = 0"
  by (simp add: planning_start_def imaged_def)

lemma imaged_call: "llm_call f rq s = (res, t) \<Longrightarrow>
    imaged (ps_requests t) = imaged (ps_requests s) + (if lq_images rq = [] then 0 else 1)"
  by (auto simp: llm_call_def Let_def imaged_def split: sum.splits)

lemma imaged_round: "on_round h n ph plan s = (res, t) \<Longrightarrow> ps_requests t = ps_requests s"
  by (auto simp: on_round_def Let_def split: option.splits)

lemma imaged_generate:
  "generateValidPlan h parse sy im left att pr s = (res, t) \<Longrightarrow>
     imaged (ps_requests t) \<le> imaged (ps_requests s) + (if att = 0 \<and> im \<noteq> [] then 1 else 0)"
proof (induction left arbitrary: att pr s)
  case (Suc left)
  from Suc.prems show ?case unfolding generateValidPlan.simps
  proof (cases rule: and_then_cases)
    case (stop e)
    with imaged_call [OF stop(1)] show ?thesis by (simp add: plan_request_def)
  next
    case (go draft u)
    have u: "imaged (ps_requests u) = imaged (ps_requests s) + (if att = 0 \<and> im \<noteq> [] then 1 else 0)"
      using imaged_call [OF go(1)] by (simp add: plan_request_def)
    show ?thesis
    proof (cases "validatePlan parse draft")
      case (Inl errors)
      with go(2) Suc.IH [of "Suc att" "PP_validationRetry errors" u] u show ?thesis by simp
    qed (use go(2) u in \<open>simp add: returning_def\<close>)
  qed
qed (simp add: throwing_def)

lemma imaged_revise:
  assumes "revise h parse p n plan fs s = (res, t)"
  shows "imaged (ps_requests t) \<le> imaged (ps_requests s)"
proof -
  have a: "imaged (ps_requests y) \<le> imaged (ps_requests x)"
    if "(case validatePlan parse d of Inl errors \<Rightarrow> generate h parse p (PP_validationRetry errors) []
               | Inr plan' \<Rightarrow> returning plan') x = (r, y)" for d r x y
    using that imaged_generate unfolding generate_def by (fastforce simp: returning_def split: sum.splits)
  from assms show ?thesis unfolding revise_def
    by (elim and_then_cases)
      (fastforce dest: a imaged_call imaged_round split: prod.splits if_splits elim: and_then_cases
        simp: throwing_def returning_def set_responses_def push_version_def modifying_def revision_request_def)+
qed

lemma imaged_rounds:
  "planning_rounds h parse p left n plan s = (res, t) \<Longrightarrow> 1 \<le> n \<Longrightarrow>
     imaged (ps_requests t) \<le> imaged (ps_requests s) + (if n = 1 then 1 else 0)"
proof (induction left arbitrary: n plan s)
  case (Suc left)
  from Suc.prems(1) show ?case unfolding planning_rounds.simps
  proof (elim and_then_cases)
    fix fs s1 s2 s3 u u' assume call: "llm_call (ph_findings h) (review_request p n plan) s = (Inr fs, s1)"
      and set: "set_findings fs s1 = (Inr u, s2)" and ev: "on_round h n (RP_review fs) plan s2 = (Inr u', s3)"
      and rest: "(if mustFixCount fs = 0 then finish_planning p PG_converged n plan []
                else if left = 0 then finish_planning p PG_cap_reached n plan (filter must_fix fs)
                else and_then (revise h parse p n plan fs)
                  (\<lambda>plan'. planning_rounds h parse p left (n + 1) plan')) s3 = (res, t)"
    have c3: "imaged (ps_requests s3) \<le> imaged (ps_requests s) + (if n = 1 then 1 else 0)"
      using imaged_call [OF call] imaged_round [OF ev] set
      by (auto simp: set_findings_def modifying_def review_request_def)
    show ?thesis
    proof (cases "mustFixCount fs = 0 \<or> left = 0")
      case True
      with rest have "t = s3" by (auto dest: calls_result split: if_splits)
      with c3 show ?thesis by simp
    next
      case False
      with rest have "and_then (revise h parse p n plan fs) (\<lambda>plan'. planning_rounds h parse p left (n + 1) plan') s3
          = (res, t)" by simp
      then show ?thesis
      proof (cases rule: and_then_cases)
        case (stop e)
        from imaged_revise [OF stop(1)] c3 show ?thesis by simp
      next
        case (go plan' u)
        from imaged_revise [OF go(1)] Suc.IH [OF go(2)] c3 Suc.prems(2) show ?thesis by simp
      qed
    qed
  qed (use Suc.prems(2) in \<open>fastforce dest: imaged_call imaged_round
      simp: set_findings_def modifying_def review_request_def split: if_splits\<close>)+
qed (simp add: throwing_def)

text \<open>
  The images of the objective are paid for at most once per provider: of all requests of a run, however
  many rounds and retries it takes and however it ends, at most two carry images, and at most one when the
  run revises a plan under the direction of the human.
\<close>

theorem runPlanning_images:
  assumes "runPlanning h parse p planning_start = (res, t)"
  shows "length (filter (\<lambda>rq. lq_images rq \<noteq> []) (ps_requests t)) \<le> (if po_revisionSeed p = None then 2 else 1)"
proof (cases "po_pm_provider p = po_reviewer_provider p \<and> po_reviewException p = None")
  case False
  define k :: nat where "k = (if po_revisionSeed p = None then 1 else 0)"
  have first: "imaged (ps_requests u) \<le> k" if "first_plan h parse p planning_start = (r, u)" for r u
  proof -
    show ?thesis
    proof (cases "po_revisionSeed p")
      case None
      with that have g: "generateValidPlan h parse (pmSystem (po_memory p)) (po_roundOneImages p)
        (attempts_allowed (po_maxValidationRetries p)) 0 (PP_draftPlan (po_objective p)) planning_start = (r, u)"
        by (simp add: first_plan_def generate_def)
      from imaged_generate [OF g] None show ?thesis by (simp add: k_def split: if_splits)
    next
      case (Some seed)
      with that have g: "generateValidPlan h parse (pmSystem (po_memory p)) []
        (attempts_allowed (po_maxValidationRetries p)) 0 (PP_directionRevision (fst seed) (snd seed)) planning_start = (r, u)"
        by (simp add: first_plan_def generate_def split: prod.splits)
      from imaged_generate [OF g] show ?thesis by simp
    qed
  qed
  from assms False have "and_then (first_plan h parse p)
        (\<lambda>plan. and_then (push_version plan)
          (\<lambda>_. and_then (on_round h 1 RP_draft plan)
            (\<lambda>_. planning_rounds h parse p (rounds_allowed p) 1 plan))) planning_start = (res, t)"
    by (simp add: runPlanning_def)
  then have "imaged (ps_requests t) \<le> k + 1"
  proof (cases rule: and_then_cases)
    case (stop e)
    with first [OF stop(1)] show ?thesis by simp
  next
    case (go plan s1)
    note k1 = first [OF go(1)]
    from go(2) show ?thesis
    proof (cases rule: and_then_cases)
      case (go u s2)
      then have s2: "ps_requests s2 = ps_requests s1" by (auto simp: push_version_def modifying_def)
      from go(2) show ?thesis
      proof (cases rule: and_then_cases)
        case (stop e)
        with imaged_round [OF stop(1)] k1 s2 show ?thesis by simp
      next
        case (go u' s3)
        with imaged_round [OF go(1)] imaged_rounds [OF go(2)] k1 s2 show ?thesis by simp
      qed
    qed (simp add: push_version_def modifying_def)
  qed
  then show ?thesis by (simp add: imaged_def k_def split: if_splits)
qed (use assms in \<open>auto simp: runPlanning_def throwing_def planning_start_def\<close>)


subsection \<open>When a run returns\<close>

text \<open>
  Both models answer every request, every draft and revision passes validation, every finding that must be
  fixed gets an answer, and the observer does not throw.
\<close>

definition cooperative ::
    "('img, 'u, 'x) planning_host \<Rightarrow> (plan_contract \<Rightarrow> schema_issue list + plan_contract) \<Rightarrow> bool" where
  "cooperative h parse \<longleftrightarrow>
     (\<forall>rqs. \<exists>d u plan. ph_plan h rqs = Inr (d, u) \<and> validatePlan parse d = Inr plan)
     \<and> (\<forall>rqs. \<exists>fs u. ph_findings h rqs = Inr (fs, u))
     \<and> (\<forall>rqs plan fs. lq_prompt (last rqs) = PP_revision plan fs \<longrightarrow>
          (\<exists>rs d u plan'. ph_revision h rqs = Inr ((rs, d), u) \<and> unanswered fs rs = [] \<and> validatePlan parse d = Inr plan'))
     \<and> (\<forall>e. ph_onRound h e = None)"

lemma cooperative_call:
  assumes "cooperative h parse"
  shows "\<exists>d t plan. llm_call (ph_plan h) rq s = (Inr d, t) \<and> validatePlan parse d = Inr plan"
    and "\<exists>fs t. llm_call (ph_findings h) rq s = (Inr fs, t)"
    and "\<exists>rs d t plan'. llm_call (ph_revision h) (revision_request p plan fs) s = (Inr (rs, d), t)
      \<and> unanswered fs rs = [] \<and> validatePlan parse d = Inr plan'"
    and "\<exists>t. on_round h n ph plan s = (Inr (), t)"
proof -
  define rqs where "rqs = ps_requests s @ [rq]"
  obtain d u pl where "ph_plan h rqs = Inr (d, u)" "validatePlan parse d = Inr pl"
    using assms unfolding cooperative_def by blast
  then show "\<exists>d t plan. llm_call (ph_plan h) rq s = (Inr d, t) \<and> validatePlan parse d = Inr plan"
    by (simp add: llm_call_def rqs_def)
  obtain fs u where "ph_findings h rqs = Inr (fs, u)" using assms unfolding cooperative_def by blast
  then show "\<exists>fs t. llm_call (ph_findings h) rq s = (Inr fs, t)" by (simp add: llm_call_def rqs_def)
next
  define rqs where "rqs = ps_requests s @ [revision_request p plan fs]"
  have "lq_prompt (last rqs) = PP_revision plan fs" by (simp add: rqs_def revision_request_def)
  then obtain rs d u pl where "ph_revision h rqs = Inr ((rs, d), u)" "unanswered fs rs = []"
    "validatePlan parse d = Inr pl"
    using assms unfolding cooperative_def by blast
  then show "\<exists>rs d t plan'. llm_call (ph_revision h) (revision_request p plan fs) s = (Inr (rs, d), t)
      \<and> unanswered fs rs = [] \<and> validatePlan parse d = Inr plan'"
    by (simp add: llm_call_def rqs_def)
next
  show "\<exists>t. on_round h n ph plan s = (Inr (), t)" using assms by (simp add: cooperative_def on_round_def)
qed

lemma cooperative_generate:
  assumes "cooperative h parse"
  shows "\<exists>plan t. generateValidPlan h parse sy im (Suc left) att pr s = (Inr plan, t)"
proof -
  obtain d t plan where "llm_call (ph_plan h) (plan_request SN_plan_contract sy pr att im) s = (Inr d, t)"
    "validatePlan parse d = Inr plan"
    using cooperative_call(1) [OF assms] by blast
  then show ?thesis by (simp add: returning_def)
qed

lemma cooperative_revise:
  assumes "cooperative h parse"
  shows "\<exists>plan' t. revise h parse p n plan fs s = (Inr plan', t)"
proof -
  obtain rs d t plan' where "llm_call (ph_revision h) (revision_request p plan fs) s = (Inr (rs, d), t)"
    "unanswered fs rs = []" "validatePlan parse d = Inr plan'"
    using cooperative_call(3) [OF assms] by blast
  moreover define s2 where "s2 = snd (push_version plan' (snd (set_responses rs t)))"
  moreover obtain u where "on_round h n RP_revision plan' s2 = (Inr (), u)" using cooperative_call(4) [OF assms] by blast
  ultimately show ?thesis
    by (simp add: revise_def and_then_def returning_def set_responses_def push_version_def modifying_def)
qed

lemma cooperative_rounds:
  assumes "cooperative h parse"
  shows "\<exists>r t. planning_rounds h parse p (Suc left) n plan s = (Inr r, t)"
proof -
  have round: "\<exists>fs s1 s2. llm_call (ph_findings h) (review_request p n plan) s = (Inr fs, s1)
      \<and> on_round h n (RP_review fs) plan (snd (set_findings fs s1)) = (Inr (), s2)" for n plan s
    using cooperative_call(2,4) [OF assms] by meson
  have result: "\<exists>r t. finish_planning p st n plan fs s = (Inr r, t)" for st n plan fs s
    by (simp add: finish_planning_def and_then_def reading_def returning_def)
  show ?thesis
  proof (induction left arbitrary: n plan s)
    case 0
    from round [of n plan s] result show ?case
      by (auto simp: set_findings_def modifying_def and_then_def)
  next
    case (Suc left)
    obtain fs s1 s2 where c: "llm_call (ph_findings h) (review_request p n plan) s = (Inr fs, s1)"
      "on_round h n (RP_review fs) plan (snd (set_findings fs s1)) = (Inr (), s2)" using round by blast
    obtain plan' s3 where v: "revise h parse p n plan fs s2 = (Inr plan', s3)" using cooperative_revise [OF assms] by blast
    obtain r t where "planning_rounds h parse p (Suc left) (n + 1) plan' s3 = (Inr r, t)" using Suc.IH by blast
    with c v result [of PG_converged n plan "[]" s2] show ?case
      by (auto simp del: planning_rounds.simps(2) simp: planning_rounds.simps(2) [of h parse p "Suc left"]
          set_findings_def modifying_def)
  qed
qed

text \<open>
  C32: A planning run returns whenever the models cooperate: with at least one attempt and one round, an
  allowed pair of providers, valid plans, an answer to every finding that must be fixed, and an observer
  that does not throw, the run ends with a result, whatever the reviewer finds.
\<close>

theorem runPlanning_returns:
  assumes "cooperative h parse" and "1 \<le> rounds_allowed p" and "1 \<le> attempts_allowed (po_maxValidationRetries p)"
    and "po_pm_provider p \<noteq> po_reviewer_provider p \<or> po_reviewException p \<noteq> None"
  shows "\<exists>r t. runPlanning h parse p planning_start = (Inr r, t)"
proof -
  obtain a where a: "attempts_allowed (po_maxValidationRetries p) = Suc a" using assms(3) by (cases "attempts_allowed (po_maxValidationRetries p)") auto
  obtain n where n: "rounds_allowed p = Suc n" using assms(2) by (cases "rounds_allowed p") auto
  have "\<exists>plan s1. first_plan h parse p s = (Inr plan, s1)" for s
    using cooperative_generate [OF assms(1)] unfolding first_plan_def generate_def a
    by (simp del: generateValidPlan.simps split: option.split prod.split)
  then obtain plan s1 where f: "first_plan h parse p planning_start = (Inr plan, s1)" by blast
  obtain s2 where e: "on_round h 1 RP_draft plan (snd (push_version plan s1)) = (Inr (), s2)"
    using cooperative_call(4) [OF assms(1)] by blast
  obtain r t where "planning_rounds h parse p (Suc n) 1 plan s2 = (Inr r, t)"
    using cooperative_rounds [OF assms(1)] by blast
  with f e assms(4) n show ?thesis
    by (auto simp del: planning_rounds.simps simp: runPlanning_def push_version_def modifying_def)
qed


text \<open>A PM that drafts a cyclic plan first, and a reviewer who is content with the second version.\<close>

definition sample_finding :: review_finding where
  "sample_finding = \<lparr>rf_severity = SV_must_fix, rf_module_id = Some ''a'', rf_finding = ''f'', rf_recommendation = ''r''\<rparr>"

definition sample_planning :: "(nat, nat, string) planning_host" where
  "sample_planning =
     \<lparr>ph_plan = (\<lambda>rqs. Inr (if length rqs = 1 then mk_plan [mk_module ''a'' [''a'']] else mk_plan [mk_module ''a'' []], 7)),
      ph_findings = (\<lambda>rqs. Inr (if length rqs = 3 then [sample_finding] else [], 3)),
      ph_revision = (\<lambda>rqs. Inr (([\<lparr>fr_finding_index = 0, fr_disposition = FD_rebut, fr_rationale = ''no''\<rparr>],
        mk_plan [mk_module ''a'' [], mk_module ''b'' [''a'']]), 5)),
      ph_onRound = (\<lambda>e. None)\<rparr>"

definition sample_options :: "nat planning_options" where
  "sample_options =
     \<lparr>po_pm_provider = ''anthropic'', po_pm_model = ''m'', po_reviewer_provider = ''openai'', po_reviewer_model = ''n'',
      po_objective = ''o'', po_memory = [\<lparr>my_id = ''m1'', my_directive = ''d'', my_version = 1, my_active = True,
        my_created_by = MA_human, my_created_at = ''t''\<rparr>], po_maxRounds = Some 3,
      po_maxValidationRetries = None, po_reviewException = None, po_roundOneImages = [1], po_revisionSeed = None\<rparr>"

definition sample_run :: "(string planning_error + nat planning_result) \<times> (nat, nat) planning_state" where
  "sample_run = runPlanning sample_planning Inr sample_options planning_start"

lemma sample_run_result:
  "(case fst sample_run of Inr r \<Rightarrow> pr_status r = PG_converged \<and> pr_rounds r = 2 \<and> length (pr_versions r) = 2 | Inl e \<Rightarrow> False)
   \<and> map lq_images (ps_requests (snd sample_run)) = [[1], [], [1], [], []]"
  by code_simp

lemma sample_run_Inr: "\<exists>r. runPlanning sample_planning Inr sample_options planning_start = (Inr r, snd sample_run)
    \<and> pr_status r = PG_converged \<and> pr_rounds r = 2"
  using sample_run_result by (cases "fst sample_run") (auto simp: sample_run_def prod_eq_iff)

theorem runPlanning_result_witness:
  "\<exists>r. runPlanning sample_planning Inr sample_options planning_start = (Inr r, snd sample_run)
     \<and> pr_rounds r = 2 \<and> pr_outstanding r = [] \<and> result_ok sample_options r"
  using sample_run_Inr runPlanning_result [of sample_planning Inr sample_options _ "snd sample_run"]
  by (auto simp: result_ok_def)

theorem runPlanning_calls_witness:
  "length (ps_requests (snd sample_run)) \<le> 3 + 3 + 2 * 4"
  using runPlanning_calls [of sample_planning Inr sample_options "fst sample_run" "snd sample_run"]
  by (simp add: sample_run_def sample_options_def attempts_allowed_def rounds_allowed_def)

theorem runPlanning_images_witness:
  "length (filter (\<lambda>rq. lq_images rq \<noteq> []) (ps_requests (snd sample_run))) \<le> 2"
  using runPlanning_images [of sample_planning Inr sample_options "fst sample_run" "snd sample_run"]
  by (simp add: sample_run_def sample_options_def)

definition agreeable :: "(nat, nat, string) planning_host" where
  "agreeable = sample_planning\<lparr>ph_plan := (\<lambda>rqs. Inr (mk_plan [mk_module ''a'' []], 7)),
     ph_revision := (\<lambda>rqs. Inr ((case lq_prompt (last rqs) of
         PP_revision plan fs \<Rightarrow> map (\<lambda>i. \<lparr>fr_finding_index = i, fr_disposition = FD_accept, fr_rationale = ''y''\<rparr>) [0..<length fs]
       | _ \<Rightarrow> [], mk_plan [mk_module ''a'' []]), 5))\<rparr>"

lemma sample_plan_valid: "validatePlan Inr (mk_plan [mk_module ''a'' []]) = Inr (mk_plan [mk_module ''a'' []])"
  by code_simp

lemma agreeable_cooperative: "cooperative agreeable Inr"
  by (auto simp: cooperative_def agreeable_def sample_planning_def sample_plan_valid unanswered_def image_image
      filter_empty_conv)

theorem runPlanning_returns_witness:
  "\<exists>r t. runPlanning agreeable Inr sample_options planning_start = (Inr r, t)"
  by (rule runPlanning_returns [OF agreeable_cooperative])
    (simp_all add: sample_options_def rounds_allowed_def attempts_allowed_def)


subsection \<open>What a retry no longer says\<close>

text \<open>
  A completion request carries no history, so the answer of a provider depends on the request itself.
\<close>

definition answers_request :: "('img, 'u, 'x) planning_host \<Rightarrow> bool" where
  "answers_request h \<longleftrightarrow> (\<forall>rqs rqs'. last rqs = last rqs' \<longrightarrow> ph_plan h rqs = ph_plan h rqs')"

lemma llm_call_last:
  assumes "answers_request h"
  shows "fst (llm_call (ph_plan h) rq s) = fst (llm_call (ph_plan h) rq s')"
proof -
  have "ph_plan h (ps_requests s @ [rq]) = ph_plan h (ps_requests s' @ [rq])"
    using assms unfolding answers_request_def by (metis last_snoc)
  then show ?thesis by (simp add: llm_call_def Let_def split: sum.split prod.split)
qed

lemma and_then_fst:
  assumes "fst (m s) = fst (m s')" and "\<And>a u u'. fst (f a u) = fst (f a u')"
  shows "fst (and_then m f s) = fst (and_then m f s')"
  using assms by (cases "m s"; cases "m s'") (simp add: and_then_def split: sum.split)

lemma generate_stateless:
  assumes "answers_request h"
  shows "fst (generateValidPlan h parse sy im left att pr s) = fst (generateValidPlan h parse sy im left att pr s')"
proof (induction left arbitrary: att pr s s')
  case (Suc left)
  show ?case unfolding generateValidPlan.simps
    by (rule and_then_fst [OF llm_call_last [OF assms]])
      (auto simp: returning_def intro: Suc.IH split: sum.split)
qed (simp add: throwing_def)

text \<open>
  After an invalid draft the objective is forgotten. The retry asks the PM to correct its previous plan,
  but the request holds neither that plan nor the objective, only the errors: when the first draft of two
  runs with different objectives is the same invalid plan, both runs get the same first version, whatever
  their objectives are.
\<close>

theorem retry_forgets_objective:
  assumes "answers_request h" and "po_revisionSeed p = None" and "validatePlan parse d = Inl errors"
    and "\<And>objective. \<exists>u. ph_plan h [plan_request SN_plan_contract (pmSystem (po_memory p))
      (PP_draftPlan objective) 0 (po_roundOneImages p)] = Inr (d, u)"
  shows "fst (first_plan h parse p planning_start) =
    fst (first_plan h parse (p\<lparr>po_objective := other\<rparr>) planning_start)"
proof (cases "attempts_allowed (po_maxValidationRetries p)")
  case (Suc a)
  have "fst (first_plan h parse (p\<lparr>po_objective := objective\<rparr>) planning_start) =
      fst (generateValidPlan h parse (pmSystem (po_memory p)) (po_roundOneImages p) a 1 (PP_validationRetry errors) planning_start)"
    for objective
  proof -
    obtain u where "ph_plan h [plan_request SN_plan_contract (pmSystem (po_memory p))
        (PP_draftPlan objective) 0 (po_roundOneImages p)] = Inr (d, u)" using assms(4) by blast
    then obtain s' where "llm_call (ph_plan h) (plan_request SN_plan_contract (pmSystem (po_memory p))
        (PP_draftPlan objective) 0 (po_roundOneImages p)) planning_start = (Inr d, s')"
      by (simp add: llm_call_def planning_start_def)
    with assms(2,3) Suc have "first_plan h parse (p\<lparr>po_objective := objective\<rparr>) planning_start =
        generateValidPlan h parse (pmSystem (po_memory p)) (po_roundOneImages p) a 1 (PP_validationRetry errors) s'"
      by (simp add: first_plan_def generate_def)
    then show ?thesis using generate_stateless [OF assms(1)] by metis
  qed
  from this [of other] this [of "po_objective p"] show ?thesis by simp
qed (use assms(2) in \<open>simp add: first_plan_def generate_def throwing_def\<close>)

definition forgetful :: "(nat, nat, string) planning_host" where
  "forgetful = sample_planning\<lparr>ph_plan := (\<lambda>rqs. Inr (case lq_prompt (last rqs) of
     PP_draftPlan ob \<Rightarrow> mk_plan [mk_module ''a'' [''a'']] | _ \<Rightarrow> mk_plan [mk_module ''a'' []], 7))\<rparr>"

lemma cyclic_plan_invalid: "\<exists>errors. validatePlan Inr (mk_plan [mk_module ''a'' [''a'']]) = Inl errors"
proof -
  have "validatePlan Inr (mk_plan [mk_module ''a'' [''a'']]) = Inl [cycle_error [''a'', ''a'']]" by code_simp
  then show ?thesis by blast
qed

theorem retry_forgets_objective_witness:
  "fst (first_plan forgetful Inr (sample_options\<lparr>po_objective := ''build the login''\<rparr>) planning_start) =
     fst (first_plan forgetful Inr (sample_options\<lparr>po_objective := ''drop the login''\<rparr>) planning_start)"
proof -
  obtain errors where e: "validatePlan Inr (mk_plan [mk_module ''a'' [''a'']]) = Inl errors" using cyclic_plan_invalid by blast
  have "answers_request forgetful" unfolding answers_request_def
    by (simp add: forgetful_def sample_planning_def)
  from retry_forgets_objective [OF this, of "sample_options\<lparr>po_objective := ''build the login''\<rparr>" Inr _ errors "''drop the login''", OF _ e]
  show ?thesis by (simp add: forgetful_def sample_planning_def plan_request_def sample_options_def)
qed

text \<open>Without a round the draft is paid for and nothing is returned.\<close>

lemma no_round_no_result: "rounds_allowed p = 0 \<Longrightarrow> fst (runPlanning h parse p s) \<noteq> Inr r"
  by (auto simp: runPlanning_def throwing_def and_then_def split: prod.splits sum.splits)

subsection \<open>Quick changes\<close>

lemma quick_attempts_ok:
  "quick_attempts h parse sy im left att pr s = (Inr plan, t) \<Longrightarrow>
     plan_graph_ok (pc_modules plan) \<and> length (pc_modules plan) = 1
     \<and> (length (ps_usage s) = length (ps_requests s) \<longrightarrow> length (ps_usage t) = length (ps_requests t))"
proof (induction left arbitrary: att pr s)
  case (Suc left)
  from Suc.prems show ?case unfolding quick_attempts.simps
  proof (cases rule: and_then_cases)
    case (go draft v)
    have v: "length (ps_usage s) = length (ps_requests s) \<longrightarrow> length (ps_usage v) = length (ps_requests v)"
      using llm_call_Inr [OF go(1)] by auto
    show ?thesis
    proof (cases "validatePlan parse draft")
      case (Inl errors)
      with go(2) Suc.IH [of "Suc att" "PP_validationRetry errors" v] v show ?thesis by simp
    next
      case (Inr plan')
      show ?thesis
      proof (cases "length (pc_modules plan') = 1")
        case True
        with go(2) Inr v validatePlan_graph_ok [OF Inr] show ?thesis by (simp add: returning_def)
      next
        case False
        with go(2) Inr Suc.IH [of "Suc att" PP_collapse v] v show ?thesis by simp
      qed
    qed
  qed simp
qed (simp add: throwing_def)

text \<open>
  A quick change is one module: whatever the PM answers, the plan that is returned passes validation and
  has exactly one module, and the usage lists one entry for every call.
\<close>

theorem runQuickPlanning_single_module:
  assumes "runQuickPlanning h parse objective memory retries images planning_start = (Inr (plan, usage), t)"
  shows "plan_graph_ok (pc_modules plan) \<and> length (pc_modules plan) = 1 \<and> length usage = length (ps_requests t)"
proof -
  from assms obtain u where "quick_attempts h parse (pmSystem memory) images (attempts_allowed retries) 0
      (PP_quickChange objective) planning_start = (Inr plan, u)" and "t = u" "usage = ps_usage u"
    by (auto simp: runQuickPlanning_def and_then_Inr_iff reading_def returning_def)
  with quick_attempts_ok show ?thesis by (fastforce simp: planning_start_def)
qed

theorem runQuickPlanning_single_module_witness:
  "\<exists>plan usage t. runQuickPlanning forgetful Inr ''o'' [] None [] planning_start = (Inr (plan, usage), t)
     \<and> length (pc_modules plan) = 1"
proof -
  have "\<not> isl (fst (runQuickPlanning forgetful Inr ''o'' [] None [] planning_start))" by code_simp
  then obtain r where "fst (runQuickPlanning forgetful Inr ''o'' [] None [] planning_start) = Inr r"
    by (cases "fst (runQuickPlanning forgetful Inr ''o'' [] None [] planning_start)") auto
  then obtain t where r: "runQuickPlanning forgetful Inr ''o'' [] None [] planning_start = (Inr r, t)"
    by (metis prod.collapse)
  with runQuickPlanning_single_module [of forgetful Inr "''o''" "[]" None "[]" "fst r" "snd r" t]
  have "length (pc_modules (fst r)) = 1" by simp
  with r show ?thesis by (metis prod.collapse)
qed

end
