(* ===== verification/Approvals.thy ===== *)
theory Approvals
  imports Canonical_Json Planning Workflow
begin

section \<open>The approval of a plan\<close>

text \<open>
  \<^verbatim>\<open>planContentHash\<close>, \<^verbatim>\<open>approvePlan\<close> and \<^verbatim>\<open>stableStringify\<close> of \<^verbatim>\<open>planning/session.ts\<close>: what the human
  approves is recorded as the digest of a text of the plan with sorted keys. Here the keys are sorted by
  \<^verbatim>\<open>localeCompare\<close>, which is the order of collation keys (\<open>collate\<close>); the digest, the new id and the clock
  are parameters. A \<^typ>\<open>plan_contract\<close> becomes the object that the schema of \<^verbatim>\<open>plan.ts\<close> produces.
\<close>

subsection \<open>The text\<close>

text \<open>A value that \<^verbatim>\<open>JSON.stringify\<close> does not express is \<^verbatim>\<open>undefined\<close>: as an element it joins as nothing.\<close>

fun stableStringify :: "(string \<Rightarrow> 'k::linorder) \<Rightarrow> 'n number_text \<Rightarrow> 'n js_value \<Rightarrow> string" where
  "stableStringify collate nt JS_null = ''null''"
| "stableStringify collate nt (JS_bool b) = (if b then ''true'' else ''false'')"
| "stableStringify collate nt (JS_string s) = json_string s"
| "stableStringify collate nt (JS_number n) =
     (if \<not> nt_finite nt n then ''null'' else if nt_zero nt n then ''0'' else nt_show nt n)"
| "stableStringify collate nt (JS_array vs) =
     CHR ''['' # join '','' (map (\<lambda>slot. case slot of
         None \<Rightarrow> [] | Some v \<Rightarrow> (case v of JS_other t \<Rightarrow> [] | _ \<Rightarrow> stableStringify collate nt v)) vs) @ '']''"
| "stableStringify collate nt (JS_object plain symbols kvs) =
     CHR ''{'' # join '','' (map (\<lambda>(k, t). json_member k t)
       (sort_key (\<lambda>p. collate (fst p)) (map (\<lambda>(k, v). (k, stableStringify collate nt v)) kvs))) @ ''}''"
| "stableStringify collate nt (JS_other t) = ''undefined''"

text \<open>On JSON values it is the canonical text, with the other order of the keys.\<close>

lemma stable_is_canonical: "canonicalize collate nt v = Inr e \<Longrightarrow> stableStringify collate nt v = e"
proof (induction v arbitrary: e)
  case (JS_array vs)
  obtain xs es where v: "vs = map Some xs" "map (canonicalize collate nt) xs = map Inr es" "e = CHR ''['' # join '','' es @ '']''"
    by (rule canonicalize_array [OF JS_array.prems])
  have "(case x of JS_other t \<Rightarrow> [] | _ \<Rightarrow> stableStringify collate nt x) = es ! i" if "i < length xs" "x = xs ! i" for i x
  proof -
    have c: "canonicalize collate nt x = Inr (es ! i)" using map_Inr_nth [OF v(2) that(1)] that(2) by simp
    moreover have "Some x \<in> set vs" using that v(1) by simp
    ultimately have "stableStringify collate nt x = es ! i" using JS_array.IH [of "Some x" x] by simp
    with c show ?thesis by (cases x) auto
  qed
  moreover have "length es = length xs" using v(2) by (metis length_map)
  ultimately have "map (\<lambda>x. case x of JS_other t \<Rightarrow> [] | _ \<Rightarrow> stableStringify collate nt x) xs = es"
    by (intro nth_equalityI) simp_all
  with v show ?case by (simp add: comp_def)
next
  case (JS_object plain symbols kvs)
  define ps where "ps = sort_key (\<lambda>p. collate (fst p)) kvs"
  obtain es where es: "map (canonicalize collate nt \<circ> snd) ps = map Inr es"
    "e = CHR ''{'' # join '','' (map2 json_member (map fst ps) es) @ ''}''"
    unfolding ps_def by (rule canonicalize_object [OF JS_object.prems])
  have len: "length es = length ps" using es(1) by (metis length_map)
  have "(\<lambda>(k, v). (k, stableStringify collate nt v)) (ps ! i) = (fst (ps ! i), es ! i)" if "i < length ps" for i
  proof -
    obtain k v where kv: "ps ! i = (k, v)" by (cases "ps ! i")
    then have "(k, v) \<in> set kvs" using that nth_mem [of i ps] by (simp add: ps_def)
    moreover have "canonicalize collate nt v = Inr (es ! i)" using map_Inr_nth [OF es(1) that] kv by simp
    ultimately show ?thesis using JS_object.IH [of "(k, v)" v] kv by simp
  qed
  then have "map (\<lambda>(k, t). json_member k t) (map (\<lambda>(k, v). (k, stableStringify collate nt v)) ps) =
      map2 json_member (map fst ps) es"
    using len by (intro nth_equalityI) (auto simp: case_prod_beta)
  with es(2) show ?case by (simp add: sort_map_values del: map_map flip: ps_def)
qed auto

subsection \<open>The plan as an object\<close>

fun verification_type_str :: "verification_type \<Rightarrow> string" where
  "verification_type_str VT_test = ''test''"
| "verification_type_str VT_command = ''command''"
| "verification_type_str VT_inspection = ''inspection''"
| "verification_type_str VT_human = ''human''"

fun plan_complexity_str :: "complexity \<Rightarrow> string" where
  "plan_complexity_str CX_S = ''S''"
| "plan_complexity_str CX_M = ''M''"
| "plan_complexity_str CX_L = ''L''"
| "plan_complexity_str CX_XL = ''XL''"

fun plan_risk_str :: "risk_level \<Rightarrow> string" where
  "plan_risk_str RL_low = ''low''"
| "plan_risk_str RL_medium = ''medium''"
| "plan_risk_str RL_high = ''high''"
| "plan_risk_str RL_critical = ''critical''"

definition js_list :: "('a \<Rightarrow> 'n js_value) \<Rightarrow> 'a list \<Rightarrow> 'n js_value" where
  "js_list f xs = JS_array (map (\<lambda>x. Some (f x)) xs)"

definition criterion_json :: "acceptance_criterion \<Rightarrow> 'n js_value" where
  "criterion_json c = JS_record [(''id'', JS_string (ac_id c)), (''statement'', JS_string (ac_statement c)),
     (''verification_type'', JS_string (verification_type_str (ac_verification_type c))),
     (''verification'', JS_string (ac_verification c))]"

definition execution_json :: "module_execution \<Rightarrow> 'n js_value" where
  "execution_json x = JS_record [(''likely_paths'', js_list JS_string (me_likely_paths x)),
     (''owned_components'', js_list JS_string (me_owned_components x)),
     (''test_commands'', js_list JS_string (me_test_commands x)),
     (''environment_requirements'', js_list JS_string (me_environment_requirements x)),
     (''migration_required'', JS_bool (me_migration_required x))]"

definition parallelization_json :: "module_parallelization \<Rightarrow> 'n js_value" where
  "parallelization_json x = JS_record [(''safe'', JS_bool (mp_safe x)),
     (''candidate_work_units'', js_list JS_string (mp_candidate_work_units x)),
     (''shared_files'', js_list JS_string (mp_shared_files x)),
     (''integration_owner_required'', JS_bool (mp_integration_owner_required x))]"

definition module_json :: "plan_module \<Rightarrow> 'n js_value" where
  "module_json m = JS_record [(''id'', JS_string (pm_id m)), (''title'', JS_string (pm_title m)),
     (''description'', JS_string (pm_description m)), (''deliverables'', js_list JS_string (pm_deliverables m)),
     (''acceptance'', js_list criterion_json (pm_acceptance m)), (''dependencies'', js_list JS_string (pm_dependencies m)),
     (''estimated_complexity'', JS_string (plan_complexity_str (pm_estimated_complexity m))),
     (''risk'', JS_string (plan_risk_str (pm_risk m))), (''execution'', execution_json (pm_execution m)),
     (''parallelization'', parallelization_json (pm_parallelization m)), (''inputs'', js_list JS_string (pm_inputs m)),
     (''outputs'', js_list JS_string (pm_outputs m)), (''open_decisions'', js_list JS_string (pm_open_decisions m))]"

definition plan_risk_json :: "plan_risk \<Rightarrow> 'n js_value" where
  "plan_risk_json r = JS_record [(''description'', JS_string (pk_description r)), (''mitigation'', JS_string (pk_mitigation r))]"

definition plan_json :: "plan_contract \<Rightarrow> 'n js_value" where
  "plan_json p = JS_record [(''objective'', JS_string (pc_objective p)), (''assumptions'', js_list JS_string (pc_assumptions p)),
     (''modules'', js_list module_json (pc_modules p)), (''risks'', js_list plan_risk_json (pc_risks p)),
     (''out_of_scope'', js_list JS_string (pc_out_of_scope p))]"

lemmas plan_json_defs = criterion_json_def execution_json_def parallelization_json_def module_json_def
  plan_risk_json_def plan_json_def

definition planContentHash :: "(string \<Rightarrow> string) \<Rightarrow> (string \<Rightarrow> 'k::linorder) \<Rightarrow> 'n number_text \<Rightarrow> plan_contract \<Rightarrow> string" where
  "planContentHash sha collate nt plan = sha (stableStringify collate nt (plan_json plan))"

definition approvePlan ::
    "(string \<Rightarrow> string) \<Rightarrow> (string \<Rightarrow> 'k::linorder) \<Rightarrow> 'n number_text \<Rightarrow> ident \<Rightarrow> string \<Rightarrow> plan_contract \<Rightarrow> string \<Rightarrow> approval" where
  "approvePlan sha collate nt new_id now plan actor =
     \<lparr>ap_id = new_id, ap_kind = AK_plan, ap_actor = actor, ap_approved_at = now,
      ap_content_hash = planContentHash sha collate nt plan\<rparr>"

subsection \<open>The plan can be read off the object\<close>

lemma alike_string [simp]: "alike nt (JS_string s) (JS_string t) \<longleftrightarrow> s = t"
  by (auto intro: alike.intros)

lemma alike_bool [simp]: "alike nt (JS_bool b) (JS_bool c) \<longleftrightarrow> b = c"
  by (auto intro: alike.intros)

lemma alike_member:
  assumes "alike nt (JS_record kvs) (JS_record kws)" "(k, v) \<in> set kvs" "(k, w) \<in> set kws"
  shows "alike nt v w"
  using assms by blast

lemma alike_list:
  assumes "alike nt (js_list f xs) (js_list f ys)"
    and "\<And>x y. x \<in> set xs \<Longrightarrow> y \<in> set ys \<Longrightarrow> alike nt (f x) (f y) \<Longrightarrow> x = y"
  shows "xs = ys"
proof -
  from assms(1) have len: "length xs = length ys"
    and each: "\<And>i. i < length xs \<Longrightarrow> alike nt (f (xs ! i)) (f (ys ! i))"
    unfolding js_list_def by fastforce+
  with assms(2) show ?thesis by (intro nth_equalityI) simp_all
qed

lemma alike_strings: "alike nt (js_list JS_string xs) (js_list JS_string ys) \<Longrightarrow> xs = ys"
  by (erule alike_list) (simp only: alike_string)

lemma enum_strings_inj [simp]:
  "verification_type_str a = verification_type_str b \<longleftrightarrow> a = b"
  "plan_complexity_str x = plan_complexity_str y \<longleftrightarrow> x = y"
  "plan_risk_str r = plan_risk_str s \<longleftrightarrow> r = s"
  by (cases a; cases b; simp) ((cases x; cases y; simp), (cases r; cases s; simp))

text \<open>Two objects with the same keys: the members agree.\<close>

lemma alike_records:
  assumes "alike nt (JS_record kvs) (JS_record kws)" "map fst kvs = map fst kws"
  shows "list_all2 (alike nt) (map snd kvs) (map snd kws)"
proof (rule list_all2_all_nthI)
  show len: "length (map snd kvs) = length (map snd kws)" using assms(2) by (metis length_map)
  fix i assume i: "i < length (map snd kvs)"
  then have "fst (kvs ! i) = fst (kws ! i)" using assms(2) len by (metis length_map nth_map)
  moreover have "kvs ! i \<in> set kvs" "kws ! i \<in> set kws" using i len by simp_all
  ultimately have "alike nt (snd (kvs ! i)) (snd (kws ! i))" using alike_member [OF assms(1)] by (metis prod.collapse)
  then show "alike nt (map snd kvs ! i) (map snd kws ! i)" using i len by simp
qed

lemma criterion_json_inj: "alike nt (criterion_json c) (criterion_json d) \<Longrightarrow> c = d"
  unfolding criterion_json_def by (drule alike_records) (simp_all add: acceptance_criterion.equality)

lemma alike_criteria: "alike nt (js_list criterion_json xs) (js_list criterion_json ys) \<Longrightarrow> xs = ys"
  by (erule alike_list) (erule criterion_json_inj)

lemma execution_json_inj: "alike nt (execution_json x) (execution_json y) \<Longrightarrow> x = y"
  unfolding execution_json_def by (drule alike_records) (auto dest!: alike_strings intro: module_execution.equality)

lemma parallelization_json_inj: "alike nt (parallelization_json x) (parallelization_json y) \<Longrightarrow> x = y"
  unfolding parallelization_json_def
  by (drule alike_records) (auto dest!: alike_strings intro: module_parallelization.equality)

lemma module_json_inj: "alike nt (module_json x) (module_json y) \<Longrightarrow> x = y"
  unfolding module_json_def
  by (drule alike_records)
    (auto dest!: alike_strings alike_criteria execution_json_inj parallelization_json_inj intro: plan_module.equality)

lemma plan_risk_json_inj: "alike nt (plan_risk_json x) (plan_risk_json y) \<Longrightarrow> x = y"
  unfolding plan_risk_json_def by (drule alike_records) (auto intro: plan_risk.equality)

lemma plan_json_inj:
  assumes "alike nt (plan_json p) (plan_json q)"
  shows "p = q"
proof -
  have "xs = ys" if "alike nt (js_list module_json xs) (js_list module_json ys)" for xs ys
    using that by (rule alike_list) (erule module_json_inj)
  moreover have "xs = ys" if "alike nt (js_list plan_risk_json xs) (js_list plan_risk_json ys)" for xs ys
    using that by (rule alike_list) (erule plan_risk_json_inj)
  ultimately show ?thesis using alike_records [OF assms [unfolded plan_json_def]]
    by (auto dest!: alike_strings intro: plan_contract.equality)
qed

lemma plan_values:
  "json_value nt (js_list f xs) \<longleftrightarrow> list_all (json_value nt \<circ> f) xs"
  "distinct_keys (js_list f xs) \<longleftrightarrow> list_all (distinct_keys \<circ> f) xs"
  by (simp_all add: js_list_def list_all_iff)

lemma plan_json_proper: "json_value nt (plan_json p)" "distinct_keys (plan_json p)"
  by (simp_all add: plan_json_defs plan_values list_all_iff)

text \<open>
  The names of the fields of a plan: the only keys of its object. The collation has to tell them apart. They are
  different words of small ASCII letters and underscores, which have different collation keys in
  every locale of ICU; an arbitrary pair of different strings need not, which is why no more than this is assumed.
\<close>

definition PLAN_KEYS :: "string list" where
  "PLAN_KEYS =
     [''id'', ''statement'', ''verification_type'', ''verification'', ''likely_paths'', ''owned_components'',
      ''test_commands'', ''environment_requirements'', ''migration_required'', ''safe'', ''candidate_work_units'',
      ''shared_files'', ''integration_owner_required'', ''title'', ''description'', ''deliverables'', ''acceptance'',
      ''dependencies'', ''estimated_complexity'', ''risk'', ''execution'', ''parallelization'', ''inputs'', ''outputs'',
      ''open_decisions'', ''mitigation'', ''objective'', ''assumptions'', ''modules'', ''risks'', ''out_of_scope'']"

lemma record_keys_apart:
  "keys_apart collate (JS_record kvs) \<longleftrightarrow>
     inj_on collate (set (map fst kvs)) \<and> list_all (\<lambda>v. keys_apart collate v) (map snd kvs)"
  by (simp add: list_all_iff case_prod_beta)

lemma list_keys_apart: "keys_apart collate (js_list f xs) \<longleftrightarrow> list_all (\<lambda>x. keys_apart collate (f x)) xs"
  by (simp add: js_list_def list_all_iff)

lemma plan_keys_apart:
  assumes "inj_on collate (set PLAN_KEYS)"
  shows "keys_apart collate (plan_json p)"
proof -
  have sub: "inj_on collate (set ks)" if "list_all (\<lambda>k. k \<in> set PLAN_KEYS) ks" for ks
    using assms that by (intro inj_on_subset [OF assms]) (auto simp: list_all_iff)
  note fields = record_keys_apart list_keys_apart keys_apart.simps(3-) list.map fst_conv snd_conv list.pred_inject
  have c: "keys_apart collate (criterion_json c)" for c :: acceptance_criterion
    unfolding criterion_json_def fields by (intro conjI sub TrueI) (simp_all add: PLAN_KEYS_def)
  have x: "keys_apart collate (execution_json x)" for x
    unfolding execution_json_def fields by (intro conjI sub TrueI) (simp_all add: PLAN_KEYS_def list_all_iff)
  have z: "keys_apart collate (parallelization_json z)" for z
    unfolding parallelization_json_def fields by (intro conjI sub TrueI) (simp_all add: PLAN_KEYS_def list_all_iff)
  have m: "keys_apart collate (module_json m)" for m
    unfolding module_json_def fields by (intro conjI sub TrueI) (simp_all add: PLAN_KEYS_def list_all_iff c x z)
  have r: "keys_apart collate (plan_risk_json r)" for r
    unfolding plan_risk_json_def fields by (intro conjI sub TrueI) (simp_all add: PLAN_KEYS_def)
  show ?thesis
    unfolding plan_json_def fields by (intro conjI sub TrueI) (simp_all add: PLAN_KEYS_def list_all_iff m r)
qed

text \<open>
  C20: An approval names one plan. The digest that an approval records is the digest of another plan only
  if the plans are equal, field by field, unless the digests of their two texts collide; who approves, and
  when, does not matter. The order in which an object lists its keys does not matter either, at any depth, provided
  that the collation tells the names of the fields of a plan apart.
\<close>

theorem approval_identifies_plan:
  assumes "number_text_ok nt"
    and "sha (stableStringify collate nt (plan_json p)) = sha (stableStringify collate nt (plan_json q)) \<Longrightarrow>
      stableStringify collate nt (plan_json p) = stableStringify collate nt (plan_json q)"
  shows "(ap_content_hash (approvePlan sha collate nt i now p actor) =
      ap_content_hash (approvePlan sha collate nt i' now' q actor') \<longleftrightarrow> p = q)
    \<and> (inj_on collate (set PLAN_KEYS) \<and> distinct_keys v \<and> alike nt (plan_json p) v \<longrightarrow>
        sha (stableStringify collate nt v) = planContentHash sha collate nt p)"
proof -
  obtain e where e: "canonicalize collate nt (plan_json p) = Inr e" using canonicalize_ex plan_json_proper(1) by blast
  obtain f where f: "canonicalize collate nt (plan_json q) = Inr f" using canonicalize_ex plan_json_proper(1) by blast
  have "e = f \<longrightarrow> alike nt (plan_json p) (plan_json q)"
    using canonical_decode [OF assms(1) plan_json_proper(2) plan_json_proper(2)] e f unfolding decodes_def by blast
  then have "e = f \<longleftrightarrow> p = q" using plan_json_inj [of nt p q] e f by auto
  moreover have "sha (stableStringify collate nt v) = planContentHash sha collate nt p"
    if "inj_on collate (set PLAN_KEYS)" "distinct_keys v" "alike nt (plan_json p) v"
  proof -
    have "canonicalize collate nt v = Inr e"
      using alike_same_text [OF that(3) e plan_json_proper(2) that(2) plan_keys_apart [OF that(1)]] assms(1)
      by (auto simp: number_text_ok_def)
    from stable_is_canonical [OF this] stable_is_canonical [OF e] show ?thesis by (simp add: planContentHash_def)
  qed
  ultimately show ?thesis using assms(2) stable_is_canonical [OF e] stable_is_canonical [OF f]
    by (auto simp: approvePlan_def planContentHash_def)
qed

text \<open>A plan and its object with all keys in the reverse order.\<close>

fun keys_reversed :: "'n js_value \<Rightarrow> 'n js_value" where
  "keys_reversed (JS_array vs) = JS_array (map (map_option keys_reversed) vs)"
| "keys_reversed (JS_object plain symbols kvs) = JS_object plain symbols (rev (map (\<lambda>(k, v). (k, keys_reversed v)) kvs))"
| "keys_reversed v = v"

lemma keys_reversed_alike: "json_value nt v \<Longrightarrow> distinct_keys v \<Longrightarrow> alike nt v (keys_reversed v)"
proof (induction v)
  case (JS_array vs)
  have "\<exists>v w. vs ! i = Some v \<and> map (map_option keys_reversed) vs ! i = Some w \<and> alike nt v w" if "i < length vs" for i
    using that JS_array by (cases "vs ! i") (force simp: list_all_length in_set_conv_nth)+
  then show ?case by (auto intro: alike.intros)
next
  case (JS_object plain symbols kvs)
  have "alike nt v w" if "(k, v) \<in> set kvs" "(k, w) \<in> set (map (\<lambda>(k, v). (k, keys_reversed v)) kvs)" for k v w
  proof -
    from that(2) obtain u where u: "(k, u) \<in> set kvs" "w = keys_reversed u" by auto
    moreover have "u = v" using JS_object.prems(2) that(1) u(1) by (auto dest: eq_key_imp_eq_value)
    ultimately show ?thesis using JS_object.IH [of "(k, v)" v] JS_object.prems that(1) by (fastforce simp: list_all_iff)
  qed
  moreover have "fst ` set kvs = fst ` set (map (\<lambda>(k, v). (k, keys_reversed v)) kvs)" by force
  ultimately have "alike nt (JS_record kvs) (JS_record (rev (map (\<lambda>(k, v). (k, keys_reversed v)) kvs)))"
    by (intro alike.intros(6)) (simp_all only: set_rev)
  with JS_object.prems show ?case by simp
qed (auto intro: alike.intros)

definition sample_approved :: plan_contract where
  "sample_approved = mk_plan [mk_module ''a'' [], mk_module ''b'' []]"

theorem approval_identifies_plan_witness:
  "ap_content_hash (approvePlan id id int_text ''a1'' ''t'' sample_approved ''me'') \<noteq>
   ap_content_hash (approvePlan id id int_text ''a2'' ''t'' (mk_plan [mk_module ''a'' [], mk_module ''b'' [''a'']]) ''me'')
   \<and> keys_reversed (plan_json sample_approved :: int js_value) \<noteq> plan_json sample_approved
   \<and> id (stableStringify id int_text (keys_reversed (plan_json sample_approved))) = planContentHash id id int_text sample_approved"
proof -
  let ?v = "keys_reversed (plan_json sample_approved :: int js_value)"
  have "alike int_text (plan_json sample_approved) ?v" by (intro keys_reversed_alike plan_json_proper)
  moreover have "distinct_keys ?v \<and> ?v \<noteq> plan_json sample_approved" by code_simp
  moreover have "inj_on id (set PLAN_KEYS)" by simp
  ultimately show ?thesis
    using approval_identifies_plan [OF int_text_ok, of id id sample_approved
        "mk_plan [mk_module ''a'' [], mk_module ''b'' [''a'']]" "''a1''" "''t''" "''me''" "''a2''" "''t''" "''me''" ?v]
    by (simp add: sample_approved_def mk_plan_def mk_module_def)
qed

end
