(* ===== verification/Passwords.thy ===== *)
theory Passwords
  imports V2_Common Runner_Executors "HOL-Library.Word"
begin

section \<open>Password hashes\<close>

text \<open>
  \<^verbatim>\<open>apps/server/src/users/passwords.ts\<close>: the text a password is stored as, the older text it may still
  be stored as, and the upgrade at a login. \<open>derive\<close> is \<^verbatim>\<open>scryptSync\<close> with the constants of the source;
  the salt a new hash draws is an argument. \<^verbatim>\<open>Buffer\<close> reads and writes base64url and hexadecimal digits; a
  character outside the alphabet is skipped when base64url is read.
\<close>

subsection \<open>Buffers\<close>

type_synonym bytes = "8 word list"

definition base64_digit :: "nat \<Rightarrow> char" where
  "base64_digit n =
     (if n < 26 then char_of (65 + n) else if n < 52 then char_of (71 + n)
      else if n < 62 then char_of (n - 4) else if n = 62 then CHR ''-'' else CHR ''_'')"

fun base64url :: "bytes \<Rightarrow> string" where
  "base64url [] = []"
| "base64url [a] = map base64_digit [unat a div 4, unat a mod 4 * 16]"
| "base64url [a, b] =
     map base64_digit [unat a div 4, unat a mod 4 * 16 + unat b div 16, unat b mod 16 * 4]"
| "base64url (a # b # c # r) =
     map base64_digit [unat a div 4, unat a mod 4 * 16 + unat b div 16, unat b mod 16 * 4 + unat c div 64, unat c mod 64]
       @ base64url r"

definition base64_value :: "char \<Rightarrow> nat option" where
  "base64_value c =
     (let n = of_char c in
      if 65 \<le> n \<and> n \<le> 90 then Some (n - 65) else if 97 \<le> n \<and> n \<le> 122 then Some (n - 71)
      else if 48 \<le> n \<and> n \<le> 57 then Some (n + 4) else if n = 43 \<or> n = 45 then Some 62
      else if n = 47 \<or> n = 95 then Some 63 else None)"

fun sextets :: "nat list \<Rightarrow> bytes" where
  "sextets (x # y # z # w # r) =
     [of_nat (x * 4 + y div 16), of_nat (y mod 16 * 16 + z div 4), of_nat (z mod 4 * 64 + w)] @ sextets r"
| "sextets [x, y, z] = [of_nat (x * 4 + y div 16), of_nat (y mod 16 * 16 + z div 4)]"
| "sextets [x, y] = [of_nat (x * 4 + y div 16)]"
| "sextets _ = []"

definition from_base64url :: "string \<Rightarrow> bytes" where
  "from_base64url s = sextets (List.map_filter base64_value s)"

definition hexdigit :: "char \<Rightarrow> bool" where
  "hexdigit c \<longleftrightarrow> of_char c \<in> {48..57 :: nat} \<or> of_char c \<in> {65..70 :: nat} \<or> of_char c \<in> {97..102 :: nat}"

definition hex_value :: "char \<Rightarrow> nat" where
  "hex_value c = (let n = of_char c in if n \<le> 57 then n - 48 else if n \<le> 70 then n - 55 else n - 87)"

fun from_hex :: "string \<Rightarrow> bytes" where
  "from_hex (c # d # r) = (if hexdigit c \<and> hexdigit d then of_nat (hex_value c * 16 + hex_value d) # from_hex r else [])"
| "from_hex _ = []"

subsection \<open>Hashing and verifying\<close>

datatype password_hash_scheme = LEGACY_PASSWORD_HASH_SCHEME | CURRENT_PASSWORD_HASH_SCHEME

definition SCRYPT_N :: nat where "SCRYPT_N = 16384"
definition SCRYPT_R :: nat where "SCRYPT_R = 8"
definition SCRYPT_P :: nat where "SCRYPT_P = 1"
definition SCRYPT_KEY_BYTES :: nat where "SCRYPT_KEY_BYTES = 64"
definition SCRYPT_SALT_BYTES :: nat where "SCRYPT_SALT_BYTES = 16"

type_synonym derivation = "string \<Rightarrow> bytes \<Rightarrow> bytes"

definition secureEqual :: "bytes \<Rightarrow> bytes \<Rightarrow> bool" where
  "secureEqual actual expected \<longleftrightarrow> length actual = length expected \<and> actual = expected"

definition validHex :: "string \<Rightarrow> nat \<Rightarrow> bool" where
  "validHex v n \<longleftrightarrow> length v = n * 2 \<and> v \<noteq> [] \<and> list_all hexdigit v"

definition currentHashParts :: "string \<Rightarrow> (bytes \<times> bytes) option" where
  "currentHashParts storedHash =
     (case split_on (CHR ''$'') storedHash of
        [p0, p1, p2, p3, p4, p5, p6] \<Rightarrow>
          if p0 \<noteq> ''scrypt'' \<or> p1 \<noteq> ''v1'' \<or> p2 \<noteq> dec SCRYPT_N \<or> p3 \<noteq> dec SCRYPT_R \<or> p4 \<noteq> dec SCRYPT_P then None
          else (let salt = from_base64url p5; expected = from_base64url p6
                in if length salt = SCRYPT_SALT_BYTES \<and> length expected = SCRYPT_KEY_BYTES
                   then Some (salt, expected) else None)
      | _ \<Rightarrow> None)"

definition legacyHashParts :: "string \<Rightarrow> (string \<times> string) option" where
  "legacyHashParts storedHash =
     (case split_on (CHR '':'') storedHash of
        [saltHex, hashHex] \<Rightarrow>
          if saltHex \<noteq> [] \<and> hashHex \<noteq> [] \<and> validHex saltHex SCRYPT_SALT_BYTES \<and> validHex hashHex SCRYPT_KEY_BYTES
          then Some (saltHex, hashHex) else None
      | _ \<Rightarrow> None)"

definition detectPasswordHashScheme :: "string \<Rightarrow> password_hash_scheme option" where
  "detectPasswordHashScheme storedHash =
     (if currentHashParts storedHash \<noteq> None then Some CURRENT_PASSWORD_HASH_SCHEME
      else if legacyHashParts storedHash \<noteq> None then Some LEGACY_PASSWORD_HASH_SCHEME
      else None)"

definition verifyLegacyScryptPassword :: "derivation \<Rightarrow> string \<Rightarrow> string \<Rightarrow> bool" where
  "verifyLegacyScryptPassword derive password storedHash =
     (case legacyHashParts storedHash of
        None \<Rightarrow> False
      | Some (saltHex, hashHex) \<Rightarrow> secureEqual (derive password (from_hex saltHex)) (from_hex hashHex))"

definition hashCurrentPassword :: "derivation \<Rightarrow> string \<Rightarrow> bytes \<Rightarrow> string + string" where
  "hashCurrentPassword derive password salt =
     (if length salt \<noteq> SCRYPT_SALT_BYTES then Inl ''password salt source returned an invalid length''
      else Inr (join ''$'' [''scrypt'', ''v1'', dec SCRYPT_N, dec SCRYPT_R, dec SCRYPT_P,
                            base64url salt, base64url (derive password salt)]))"

definition verifyCurrentScryptPassword :: "derivation \<Rightarrow> string \<Rightarrow> string \<Rightarrow> bool" where
  "verifyCurrentScryptPassword derive password storedHash =
     (case currentHashParts storedHash of
        None \<Rightarrow> False
      | Some (salt, expected) \<Rightarrow> secureEqual (derive password salt) expected)"

record password_check =
  pk_valid :: bool
  pk_needs_rehash :: bool

definition verifyPasswordHash :: "derivation \<Rightarrow> string \<Rightarrow> string \<Rightarrow> password_hash_scheme \<Rightarrow> password_check" where
  "verifyPasswordHash derive password storedHash scheme =
     (let valid = (if scheme = LEGACY_PASSWORD_HASH_SCHEME then verifyLegacyScryptPassword derive password storedHash
                   else verifyCurrentScryptPassword derive password storedHash)
      in \<lparr>pk_valid = valid, pk_needs_rehash = valid \<and> scheme = LEGACY_PASSWORD_HASH_SCHEME\<rparr>)"

record password_upgrade =
  pu_valid :: bool
  pu_upgraded_hash :: "string option"
  pu_upgraded_scheme :: password_hash_scheme

definition verifyAndRehashPassword ::
  "derivation \<Rightarrow> bytes \<Rightarrow> string \<Rightarrow> string \<Rightarrow> password_hash_scheme \<Rightarrow> string + password_upgrade" where
  "verifyAndRehashPassword derive salt password storedHash scheme =
     (let result = verifyPasswordHash derive password storedHash scheme in
      if \<not> pk_valid result then Inr \<lparr>pu_valid = False, pu_upgraded_hash = None, pu_upgraded_scheme = scheme\<rparr>
      else if \<not> pk_needs_rehash result
      then Inr \<lparr>pu_valid = True, pu_upgraded_hash = None, pu_upgraded_scheme = scheme\<rparr>
      else (case hashCurrentPassword derive password salt of
              Inl e \<Rightarrow> Inl e
            | Inr h \<Rightarrow> Inr \<lparr>pu_valid = True, pu_upgraded_hash = Some h, pu_upgraded_scheme = CURRENT_PASSWORD_HASH_SCHEME\<rparr>))"

subsection \<open>What was written is read back\<close>

lemma base64_value_digit: "n < 64 \<Longrightarrow> base64_value (base64_digit n) = Some n"
  by (auto simp: base64_value_def base64_digit_def Let_def)

lemma base64_values: "list_all (\<lambda>n. n < 64) ns \<Longrightarrow> List.map_filter base64_value (map base64_digit ns) = ns"
  by (induction ns) (simp_all add: map_filter_simps base64_value_digit)

lemma byte_bound: "unat (a :: 8 word) < 256"
  using unsigned_less [of a] by simp

lemma byte_of: "unat (a :: 8 word) = m \<Longrightarrow> of_nat m = a"
  by auto

fun digits64 :: "bytes \<Rightarrow> nat list" where
  "digits64 [] = []"
| "digits64 [a] = [unat a div 4, unat a mod 4 * 16]"
| "digits64 [a, b] = [unat a div 4, unat a mod 4 * 16 + unat b div 16, unat b mod 16 * 4]"
| "digits64 (a # b # c # r) =
     [unat a div 4, unat a mod 4 * 16 + unat b div 16, unat b mod 16 * 4 + unat c div 64, unat c mod 64] @ digits64 r"

lemma digit_bound:
  "unat (a :: 8 word) div 4 < 64" "unat a mod 4 * 16 < 64" "unat a mod 16 * 4 < 64" "unat a mod 64 < 64"
  "unat a mod 4 * 16 + unat (b :: 8 word) div 16 < 64" "unat a mod 16 * 4 + unat b div 64 < 64"
  using byte_bound [of a] byte_bound [of b] by linarith+

lemma base64url_digits: "base64url bs = map base64_digit (digits64 bs)"
  by (induction bs rule: digits64.induct) simp_all

lemma digits64_bound: "list_all (\<lambda>n. n < 64) (digits64 bs)"
  by (induction bs rule: digits64.induct) (simp_all add: digit_bound)

lemma joined_digits:
  fixes x y k n :: nat
  shows "k < n \<Longrightarrow> (x * n + k) div n = x" and "k < n \<Longrightarrow> (x * n + k) mod n = k"
  by (auto simp: add.commute)

lemma joined_halves:
  fixes m y z :: nat
  shows "y < 256 \<Longrightarrow> m div 4 * 4 + (m mod 4 * 16 + y div 16) div 16 = m"
    "m div 4 * 4 + m mod 4 * 16 div 16 = m"
    "m < 256 \<Longrightarrow> z < 256 \<Longrightarrow> (y mod 4 * 16 + m div 16) mod 16 * 16 + (m mod 16 * 4 + z div 64) div 4 = m"
    "m < 256 \<Longrightarrow> (y mod 4 * 16 + m div 16) mod 16 * 16 + m mod 16 * 4 div 4 = m"
    "m < 256 \<Longrightarrow> (y mod 16 * 4 + m div 64) mod 4 * 64 + m mod 64 = m"
  using joined_digits [of "y div 16" 16 "m mod 4"] joined_digits [of "m div 16" 16 "y mod 4"]
    joined_digits [of "z div 64" 4 "m mod 16"] joined_digits [of "m div 64" 4 "y mod 16"]
  by (simp_all add: less_mult_imp_div_less)

lemma sextet_of_byte:
  "of_nat (unat a div 4 * 4 + (unat a mod 4 * 16 + unat (b :: 8 word) div 16) div 16) = (a :: 8 word)"
  "of_nat (unat a div 4 * 4 + unat a mod 4 * 16 div 16) = a"
  "of_nat ((unat b mod 4 * 16 + unat a div 16) mod 16 * 16 + (unat a mod 16 * 4 + unat (c :: 8 word) div 64) div 4) = a"
  "of_nat ((unat b mod 4 * 16 + unat a div 16) mod 16 * 16 + unat a mod 16 * 4 div 4) = a"
  "of_nat ((unat b mod 16 * 4 + unat a div 64) mod 4 * 64 + unat a mod 64) = a"
  by (simp_all only: joined_halves byte_bound byte_of [OF refl])

lemma sextets_digits64: "sextets (digits64 bs) = bs"
  by (induction bs rule: digits64.induct) (simp_all only: digits64.simps sextets.simps append.simps sextet_of_byte)

lemma from_base64url_base64url: "from_base64url (base64url bs) = bs"
  by (simp add: from_base64url_def base64url_digits base64_values digits64_bound sextets_digits64)

lemma split_on_none: "sep \<notin> set s \<Longrightarrow> split_on sep s = [s]"
  by (induction s) auto

lemma split_on_part: "sep \<notin> set s \<Longrightarrow> split_on sep (s @ sep # t) = s # split_on sep t"
  by (induction s) auto

lemma split_on_join:
  "ps \<noteq> [] \<Longrightarrow> list_all (\<lambda>p. sep \<notin> set p) ps \<Longrightarrow> split_on sep (join [sep] ps) = ps"
  by (induction "[sep]" ps rule: join.induct) (simp_all add: split_on_none split_on_part)

lemma base64_digit_alphabet: "n < 64 \<Longrightarrow> base64_digit n \<noteq> CHR ''$''"
proof
  assume "n < 64" "base64_digit n = CHR ''$''"
  then have "base64_value (CHR ''$'') = Some n" using base64_value_digit by metis
  then show False by (simp add: base64_value_def)
qed

lemma base64url_alphabet: "CHR ''$'' \<notin> set (base64url bs)"
  using digits64_bound [of bs] base64_digit_alphabet by (force simp: base64url_digits list_all_iff)

lemma dec_alphabet: "CHR ''$'' \<notin> set (dec n)"
proof (induction n rule: dec.induct)
  case (1 n)
  have "char_of (48 + m) \<noteq> CHR ''$''" if "m < 10" for m :: nat
  proof
    assume "char_of (48 + m) = CHR ''$''"
    then have "of_char (char_of (48 + m)) = (36 :: nat)" by simp
    with that show False by simp
  qed
  then have digit: "CHR ''$'' \<noteq> char_of (48 + m)" if "m < 10" for m :: nat using that by metis
  show ?case
  proof (cases "n < 10")
    case True
    with digit show ?thesis by (simp add: dec.simps [of n])
  next
    case False
    with 1 digit [of "n mod 10"] show ?thesis by (simp add: dec.simps [of n])
  qed
qed

lemma hash_parts:
  assumes "hashCurrentPassword derive p salt = Inr h" "length (derive p salt) = SCRYPT_KEY_BYTES"
  shows "currentHashParts h = Some (salt, derive p salt)"
proof -
  let ?ps = "[''scrypt'', ''v1'', dec SCRYPT_N, dec SCRYPT_R, dec SCRYPT_P, base64url salt, base64url (derive p salt)]"
  have "h = join ''$'' ?ps" using assms(1) by (simp add: hashCurrentPassword_def del: join.simps split: if_splits)
  moreover have "list_all (\<lambda>p. CHR ''$'' \<notin> set p) ?ps" by (simp add: dec_alphabet base64url_alphabet)
  ultimately have "split_on (CHR ''$'') h = ?ps" using split_on_join [of ?ps] by (simp del: join.simps)
  with assms show ?thesis
    by (simp add: currentHashParts_def Let_def from_base64url_base64url hashCurrentPassword_def split: if_splits)
qed

lemma stored_password_facts:
  assumes "\<And>p s. length (derive p s) = SCRYPT_KEY_BYTES" "length salt = SCRYPT_SALT_BYTES"
  shows "\<exists>h. hashCurrentPassword derive p salt = Inr h
      \<and> detectPasswordHashScheme h = Some CURRENT_PASSWORD_HASH_SCHEME
      \<and> (\<forall>q. verifyPasswordHash derive q h CURRENT_PASSWORD_HASH_SCHEME =
               \<lparr>pk_valid = (derive q salt = derive p salt), pk_needs_rehash = False\<rparr>)"
proof -
  obtain h where h: "hashCurrentPassword derive p salt = Inr h"
    using assms(2) by (simp add: hashCurrentPassword_def)
  with hash_parts [OF h assms(1)] show ?thesis
    by (auto simp: detectPasswordHashScheme_def verifyPasswordHash_def verifyCurrentScryptPassword_def Let_def
        secureEqual_def)
qed

text \<open>A stored password is recognised and accepted again: what \<^verbatim>\<open>hashCurrentPassword\<close> writes is
  classified as the current scheme, and a password is accepted for it exactly when it derives the same key
  from the drawn salt.\<close>

theorem stored_password_verifies:
  assumes "\<And>p s. length (derive p s) = SCRYPT_KEY_BYTES" "length salt = SCRYPT_SALT_BYTES"
  shows "\<exists>h. hashCurrentPassword derive p salt = Inr h
      \<and> detectPasswordHashScheme h = Some CURRENT_PASSWORD_HASH_SCHEME
      \<and> (\<forall>q. verifyPasswordHash derive q h CURRENT_PASSWORD_HASH_SCHEME =
               \<lparr>pk_valid = (derive q salt = derive p salt), pk_needs_rehash = False\<rparr>)"
  using assms by (rule stored_password_facts)

definition sample_derivation :: derivation where
  "sample_derivation password salt = take 64 (map of_char password @ salt @ replicate 64 0)"

lemma sample_derivation_length [simp]: "length (sample_derivation p s) = SCRYPT_KEY_BYTES"
  by (simp add: sample_derivation_def SCRYPT_KEY_BYTES_def)

theorem stored_password_verifies_witness:
  "\<exists>h. hashCurrentPassword sample_derivation ''secret'' (replicate 16 7) = Inr h
      \<and> detectPasswordHashScheme h = Some CURRENT_PASSWORD_HASH_SCHEME
      \<and> (\<forall>q. verifyPasswordHash sample_derivation q h CURRENT_PASSWORD_HASH_SCHEME =
            \<lparr>pk_valid = (sample_derivation q (replicate 16 7) = sample_derivation ''secret'' (replicate 16 7)),
             pk_needs_rehash = False\<rparr>)"
  by (rule stored_password_verifies) (simp_all add: SCRYPT_SALT_BYTES_def)

text \<open>
  An upgrade at a login keeps the password: when a hash of the older scheme accepts it, so does the one that
  replaces it, which needs no further upgrade.
\<close>

lemma upgraded_password_verifies:
  assumes "\<And>p s. length (derive p s) = SCRYPT_KEY_BYTES" "length salt = SCRYPT_SALT_BYTES"
    and "verifyLegacyScryptPassword derive p old"
  shows "\<exists>h. verifyAndRehashPassword derive salt p old LEGACY_PASSWORD_HASH_SCHEME =
            Inr \<lparr>pu_valid = True, pu_upgraded_hash = Some h, pu_upgraded_scheme = CURRENT_PASSWORD_HASH_SCHEME\<rparr>
        \<and> verifyAndRehashPassword derive salt' p h CURRENT_PASSWORD_HASH_SCHEME =
            Inr \<lparr>pu_valid = True, pu_upgraded_hash = None, pu_upgraded_scheme = CURRENT_PASSWORD_HASH_SCHEME\<rparr>"
proof -
  obtain h where h: "hashCurrentPassword derive p salt = Inr h"
    using assms(2) by (simp add: hashCurrentPassword_def)
  with hash_parts [OF h assms(1)] assms(3) show ?thesis
    by (auto simp: verifyAndRehashPassword_def verifyPasswordHash_def verifyCurrentScryptPassword_def Let_def
        secureEqual_def)
qed

end
