(* ===== verification/Users.thy ===== *)
theory Users
  imports Passwords Replay
begin

section \<open>User accounts\<close>

text \<open>
  \<^verbatim>\<open>apps/server/src/users/store.ts\<close> and the bootstrap of \<^verbatim>\<open>legacyIdentityService.ts\<close>: accounts, invitations
  and sessions in memory. What an operation draws (identifier, token, salt) and the time it reads are
  arguments. The methods of \<^verbatim>\<open>LegacyIdentityService\<close> call those of the store; they are \<^verbatim>\<open>async\<close> but await
  nothing, so each runs as one step. A date is the instant it denotes.
\<close>

subsection \<open>State\<close>

datatype user_role = UR_admin | UR_member

datatype user_status = US_active | US_invited

record user_record =
  ur_id :: ident
  ur_email :: string
  ur_name :: "string option"
  ur_role :: user_role
  ur_status :: user_status
  ur_passwordHash :: "string option"
  ur_inviteToken :: "string option"
  ur_createdAt :: millis

record user_summary =
  sm_id :: ident
  sm_email :: string
  sm_name :: "string option"
  sm_role :: user_role
  sm_status :: user_status
  sm_created_at :: millis

record user_session =
  se_userId :: ident
  se_createdAt :: millis

record user_store =
  st_users :: "(ident, user_record) jmap"
  st_sessions :: "(string, user_session) jmap"

definition new_user_store :: user_store where
  "new_user_store = \<lparr>st_users = [], st_sessions = []\<rparr>"

datatype user_error =
    InvalidCredentialsError
  | UserExistsError string
  | UserNotFoundError ident
  | LastActiveAdminError string
  | InvalidInviteError
  | IdentityAlreadyBootstrappedError
  | PasswordSaltError string

definition summarize :: "user_record \<Rightarrow> user_summary" where
  "summarize r = \<lparr>sm_id = ur_id r, sm_email = ur_email r, sm_name = ur_name r, sm_role = ur_role r,
     sm_status = ur_status r, sm_created_at = ur_createdAt r\<rparr>"

subsection \<open>Accounts\<close>

text \<open>Characters are bytes: \<^verbatim>\<open>toLowerCase\<close> is the one of the first 256 code points.\<close>

definition lower_code :: "char \<Rightarrow> char" where
  "lower_code c =
     (let n = of_char c in
      if 65 \<le> n \<and> n \<le> 90 \<or> 192 \<le> n \<and> n \<le> 222 \<and> n \<noteq> 215 then char_of (n + 32 :: nat) else c)"

definition normalized_email :: "string \<Rightarrow> string" where
  "normalized_email e = map lower_code (js_trim e)"

definition display_name :: "string option \<Rightarrow> string option" where
  "display_name n = (case n of None \<Rightarrow> None | Some s \<Rightarrow> if js_trim s = [] then None else Some (js_trim s))"

definition signs_in_as_admin :: "user_record \<Rightarrow> bool" where
  "signs_in_as_admin u \<longleftrightarrow> ur_role u = UR_admin \<and> ur_status u = US_active \<and> ur_passwordHash u \<noteq> None"

definition hasActiveAdmin :: "user_store \<Rightarrow> bool" where
  "hasActiveAdmin s \<longleftrightarrow> list_ex signs_in_as_admin (jvalues (st_users s))"

definition activeAdmins :: "user_store \<Rightarrow> nat" where
  "activeAdmins s = length (filter signs_in_as_admin (jvalues (st_users s)))"

definition byEmail :: "string \<Rightarrow> user_store \<Rightarrow> user_record option" where
  "byEmail email s = List.find (\<lambda>u. ur_email u = normalized_email email) (jvalues (st_users s))"

definition put_user :: "user_record \<Rightarrow> user_store \<Rightarrow> user_store" where
  "put_user u s = s\<lparr>st_users := jset (ur_id u) u (st_users s)\<rparr>"

text \<open>\<^verbatim>\<open>hashPassword\<close>, whose only error is that of the salt.\<close>

definition hashPassword :: "derivation \<Rightarrow> bytes \<Rightarrow> string \<Rightarrow> (user_store, user_error, string) action" where
  "hashPassword derive salt password =
     (case hashCurrentPassword derive password salt of Inl e \<Rightarrow> throwing (PasswordSaltError e) | Inr h \<Rightarrow> returning h)"

record create_active_input =
  ca_email :: string
  ca_name :: "string option"
  ca_password :: string
  ca_role :: user_role

definition createActive ::
  "derivation \<Rightarrow> ident \<Rightarrow> bytes \<Rightarrow> millis \<Rightarrow> create_active_input \<Rightarrow> (user_store, user_error, user_summary) action" where
  "createActive derive uid salt now input =
     (let email = normalized_email (ca_email input) in
      and_then (guarding (\<lambda>s. byEmail email s = None) (\<lambda>_. UserExistsError email)) (\<lambda>_.
      and_then (hashPassword derive salt (ca_password input)) (\<lambda>h.
        let record = \<lparr>ur_id = uid, ur_email = email, ur_name = display_name (ca_name input), ur_role = ca_role input,
              ur_status = US_active, ur_passwordHash = Some h, ur_inviteToken = None, ur_createdAt = now\<rparr>
        in and_then (modifying (put_user record)) (\<lambda>_. returning (summarize record)))))"

record create_invite_input =
  ci_email :: string
  ci_name :: "string option"
  ci_role :: user_role

definition createInvite ::
  "ident \<Rightarrow> string \<Rightarrow> millis \<Rightarrow> create_invite_input \<Rightarrow> (user_store, user_error, user_summary \<times> string) action" where
  "createInvite uid inviteToken now input =
     (let email = normalized_email (ci_email input) in
      and_then (guarding (\<lambda>s. byEmail email s = None) (\<lambda>_. UserExistsError email)) (\<lambda>_.
        let record = \<lparr>ur_id = uid, ur_email = email, ur_name = display_name (ci_name input), ur_role = ci_role input,
              ur_status = US_invited, ur_passwordHash = None, ur_inviteToken = Some inviteToken, ur_createdAt = now\<rparr>
        in and_then (modifying (put_user record)) (\<lambda>_. returning (summarize record, inviteToken))))"

text \<open>
  The record is changed in place: the status is set before the password is hashed, so an error of the
  hash would leave it set.
\<close>

definition acceptInvite ::
  "derivation \<Rightarrow> bytes \<Rightarrow> string \<Rightarrow> string \<Rightarrow> (user_store, user_error, user_summary) action" where
  "acceptInvite derive salt inviteToken password =
     and_then (reading (\<lambda>s. List.find (\<lambda>u. ur_inviteToken u = Some inviteToken) (jvalues (st_users s)))) (\<lambda>found.
       case found of
         None \<Rightarrow> throwing InvalidInviteError
       | Some record \<Rightarrow>
           let active = record\<lparr>ur_status := US_active\<rparr> in
           and_then (modifying (put_user active)) (\<lambda>_.
           and_then (hashPassword derive salt password) (\<lambda>h.
             let accepted = active\<lparr>ur_passwordHash := Some h, ur_inviteToken := None\<rparr>
             in and_then (modifying (put_user accepted)) (\<lambda>_. returning (summarize accepted)))))"

definition list_users :: "user_store \<Rightarrow> user_summary list" where
  "list_users s = map summarize (sort_key ur_createdAt (jvalues (st_users s)))"

definition requireUser :: "ident \<Rightarrow> (user_store, user_error, user_record) action" where
  "requireUser uid =
     and_then (reading (\<lambda>s. jget (st_users s) uid)) (\<lambda>found.
       case found of None \<Rightarrow> throwing (UserNotFoundError uid) | Some record \<Rightarrow> returning record)"

definition updateRole :: "ident \<Rightarrow> user_role \<Rightarrow> (user_store, user_error, user_summary) action" where
  "updateRole uid role =
     and_then (requireUser uid) (\<lambda>record.
     and_then (guarding (\<lambda>s. \<not> (ur_role record = UR_admin \<and> role = UR_member \<and> ur_status record = US_active
                                   \<and> activeAdmins s = 1)) (\<lambda>_. LastActiveAdminError ''demoted'')) (\<lambda>_.
       let record = record\<lparr>ur_role := role\<rparr>
       in and_then (modifying (put_user record)) (\<lambda>_. returning (summarize record))))"

definition removeUser :: "ident \<Rightarrow> (user_store, user_error, unit) action" where
  "removeUser uid =
     and_then (requireUser uid) (\<lambda>record.
     and_then (guarding (\<lambda>s. \<not> (ur_role record = UR_admin \<and> ur_status record = US_active \<and> activeAdmins s = 1))
                 (\<lambda>_. LastActiveAdminError ''removed'')) (\<lambda>_.
       modifying (\<lambda>s. s\<lparr>st_users := jdel uid (st_users s),
                         st_sessions := filter (\<lambda>(token, session). se_userId session \<noteq> uid) (st_sessions s)\<rparr>)))"

subsection \<open>Sessions\<close>

definition login ::
  "derivation \<Rightarrow> bytes \<Rightarrow> string \<Rightarrow> millis \<Rightarrow> string \<Rightarrow> string \<Rightarrow> (user_store, user_error, string \<times> user_summary) action" where
  "login derive salt token now email password =
     and_then (reading (byEmail email)) (\<lambda>found.
       case found of
         None \<Rightarrow> throwing InvalidCredentialsError
       | Some record \<Rightarrow>
           (case ur_passwordHash record of
              None \<Rightarrow> throwing InvalidCredentialsError
            | Some h \<Rightarrow>
                if ur_status record \<noteq> US_active \<or> h = [] then throwing InvalidCredentialsError
                else (case detectPasswordHashScheme h of
                        None \<Rightarrow> throwing InvalidCredentialsError
                      | Some scheme \<Rightarrow>
                          (case verifyAndRehashPassword derive salt password h scheme of
                             Inl e \<Rightarrow> throwing (PasswordSaltError e)
                           | Inr verified \<Rightarrow>
                               if \<not> pu_valid verified then throwing InvalidCredentialsError
                               else (let record = (case pu_upgraded_hash verified of
                                                     None \<Rightarrow> record
                                                   | Some h' \<Rightarrow> record\<lparr>ur_passwordHash := Some h'\<rparr>)
                                     in and_then (modifying (put_user record)) (\<lambda>_.
                                        and_then (modifying (\<lambda>s. s\<lparr>st_sessions :=
                                           jset token \<lparr>se_userId = ur_id record, se_createdAt = now\<rparr> (st_sessions s)\<rparr>)) (\<lambda>_.
                                          returning (token, summarize record))))))))"

definition logout :: "string \<Rightarrow> user_store \<Rightarrow> user_store" where
  "logout token s = s\<lparr>st_sessions := jdel token (st_sessions s)\<rparr>"

definition userForToken :: "string \<Rightarrow> user_store \<Rightarrow> user_record option" where
  "userForToken token s =
     (case jget (st_sessions s) token of None \<Rightarrow> None | Some session \<Rightarrow> jget (st_users s) (se_userId session))"

definition isRecentSession :: "string \<Rightarrow> millis \<Rightarrow> millis \<Rightarrow> user_store \<Rightarrow> bool" where
  "isRecentSession token maximumAgeMs moment s =
     (case jget (st_sessions s) token of
        None \<Rightarrow> False
      | Some session \<Rightarrow> let age = moment - se_createdAt session in 0 \<le> age \<and> age \<le> maximumAgeMs)"

subsection \<open>Snapshots and bootstrap\<close>

record session_entry =
  sn_token :: string
  sn_userId :: ident
  sn_createdAt :: millis

record user_store_snapshot =
  sp_users :: "user_record list"
  sp_sessions :: "session_entry list"

definition users_snapshot :: "user_store \<Rightarrow> user_store_snapshot" where
  "users_snapshot s = \<lparr>sp_users = jvalues (st_users s),
     sp_sessions = map (\<lambda>(token, x). \<lparr>sn_token = token, sn_userId = se_userId x, sn_createdAt = se_createdAt x\<rparr>)
       (st_sessions s)\<rparr>"

definition users_restoreFrom :: "user_store_snapshot \<Rightarrow> user_store" where
  "users_restoreFrom snap =
     \<lparr>st_users = fold (\<lambda>u. jset (ur_id u) u) (sp_users snap) [],
      st_sessions = fold (\<lambda>x. jset (sn_token x) \<lparr>se_userId = sn_userId x, se_createdAt = sn_createdAt x\<rparr>)
        (sp_sessions snap) []\<rparr>"

definition bootstrapAdmin ::
  "derivation \<Rightarrow> ident \<Rightarrow> bytes \<Rightarrow> millis \<Rightarrow> create_active_input \<Rightarrow> (user_store, user_error, user_summary) action" where
  "bootstrapAdmin derive uid salt now input =
     and_then (guarding (\<lambda>s. \<not> hasActiveAdmin s) (\<lambda>_. IdentityAlreadyBootstrappedError)) (\<lambda>_.
       createActive derive uid salt now (input\<lparr>ca_role := UR_admin\<rparr>))"

record identity_user =
  iu_id :: ident
  iu_email :: string
  iu_name :: "string option"
  iu_role :: user_role
  iu_status :: user_status
  iu_createdAt :: millis

definition identity_of :: "user_record \<Rightarrow> identity_user" where
  "identity_of u = \<lparr>iu_id = ur_id u, iu_email = ur_email u, iu_name = ur_name u, iu_role = ur_role u,
     iu_status = ur_status u, iu_createdAt = ur_createdAt u\<rparr>"

subsection \<open>The store as an object\<close>

datatype user_call =
    UC_createActive ident bytes millis create_active_input
  | UC_createInvite ident string millis create_invite_input
  | UC_acceptInvite bytes string string
  | UC_updateRole ident user_role
  | UC_remove ident
  | UC_login bytes string millis string string
  | UC_logout string
  | UC_bootstrap ident bytes millis create_active_input

fun do_user_call :: "derivation \<Rightarrow> user_call \<Rightarrow> user_store \<Rightarrow> user_store" where
  "do_user_call derive (UC_createActive uid salt now i) s = snd (createActive derive uid salt now i s)"
| "do_user_call derive (UC_createInvite uid token now i) s = snd (createInvite uid token now i s)"
| "do_user_call derive (UC_acceptInvite salt token password) s = snd (acceptInvite derive salt token password s)"
| "do_user_call derive (UC_updateRole uid role) s = snd (updateRole uid role s)"
| "do_user_call derive (UC_remove uid) s = snd (removeUser uid s)"
| "do_user_call derive (UC_login salt token now email password) s = snd (login derive salt token now email password s)"
| "do_user_call derive (UC_logout token) s = logout token s"
| "do_user_call derive (UC_bootstrap uid salt now i) s = snd (bootstrapAdmin derive uid salt now i s)"

text \<open>What is drawn at random was not drawn before, and a salt has its length.\<close>

fun user_call_ok :: "user_call \<Rightarrow> user_store \<Rightarrow> bool" where
  "user_call_ok (UC_createActive uid salt now i) s \<longleftrightarrow> jget (st_users s) uid = None \<and> length salt = SCRYPT_SALT_BYTES"
| "user_call_ok (UC_bootstrap uid salt now i) s \<longleftrightarrow> jget (st_users s) uid = None \<and> length salt = SCRYPT_SALT_BYTES"
| "user_call_ok (UC_createInvite uid token now i) s \<longleftrightarrow> jget (st_users s) uid = None"
| "user_call_ok (UC_acceptInvite salt token password) s \<longleftrightarrow> length salt = SCRYPT_SALT_BYTES"
| "user_call_ok (UC_login salt token now email password) s \<longleftrightarrow>
     jget (st_sessions s) token = None \<and> length salt = SCRYPT_SALT_BYTES"
| "user_call_ok _ s \<longleftrightarrow> True"

definition record_ok :: "user_record \<Rightarrow> bool" where
  "record_ok u \<longleftrightarrow> (ur_status u = US_active \<longleftrightarrow> ur_passwordHash u \<noteq> None)
     \<and> (ur_status u = US_active \<longleftrightarrow> ur_inviteToken u = None)"

definition user_store_ok :: "user_store \<Rightarrow> bool" where
  "user_store_ok s \<longleftrightarrow> jwf (st_users s) \<and> jwf (st_sessions s)
     \<and> (\<forall>k u. jget (st_users s) k = Some u \<longrightarrow> ur_id u = k \<and> record_ok u)
     \<and> (\<forall>j k u v. jget (st_users s) j = Some u \<longrightarrow> jget (st_users s) k = Some v \<longrightarrow> ur_email u = ur_email v \<longrightarrow> j = k)
     \<and> (\<forall>t x. jget (st_sessions s) t = Some x \<longrightarrow>
          (\<exists>u. jget (st_users s) (se_userId x) = Some u \<and> ur_status u = US_active))"

lemma user_store_okD:
  assumes "user_store_ok s"
  shows "jwf (st_users s)" "jwf (st_sessions s)"
    "jget (st_users s) k = Some u \<Longrightarrow> ur_id u = k" "jget (st_users s) k = Some u \<Longrightarrow> record_ok u"
    "jget (st_users s) j = Some u \<Longrightarrow> jget (st_users s) k = Some v \<Longrightarrow> ur_email u = ur_email v \<Longrightarrow> j = k"
    "jget (st_sessions s) t = Some x \<Longrightarrow> \<exists>u. jget (st_users s) (se_userId x) = Some u \<and> ur_status u = US_active"
  using assms unfolding user_store_ok_def by blast+

lemma new_user_store_ok: "user_store_ok new_user_store"
  by (simp add: user_store_ok_def new_user_store_def)

lemma jvalues_mem: "jwf m \<Longrightarrow> v \<in> set (jvalues m) \<longleftrightarrow> (\<exists>k. jget m k = Some v)"
  by (auto simp: jget_of_mem dest: jget_mem) force

lemma find_user:
  assumes "user_store_ok s" "List.find P (jvalues (st_users s)) = Some u"
  shows "P u \<and> jget (st_users s) (ur_id u) = Some u"
proof -
  from assms(2) obtain i where "i < length (jvalues (st_users s))" "P (jvalues (st_users s) ! i)"
    "u = jvalues (st_users s) ! i"
    unfolding find_Some_iff by blast
  then have "P u" "u \<in> set (jvalues (st_users s))" using nth_mem by blast+
  then obtain k where "jget (st_users s) k = Some u"
    using jvalues_mem [OF user_store_okD(1) [OF assms(1)], of u] by blast
  with \<open>P u\<close> show ?thesis using user_store_okD(3) [OF assms(1)] by simp
qed

lemma byEmail_SomeD:
  "user_store_ok s \<Longrightarrow> byEmail e s = Some u \<Longrightarrow>
     ur_email u = normalized_email e \<and> jget (st_users s) (ur_id u) = Some u"
  unfolding byEmail_def by (drule (1) find_user) simp

lemma byEmail_NoneD:
  "user_store_ok s \<Longrightarrow> byEmail e s = None \<Longrightarrow> jget (st_users s) k = Some u \<Longrightarrow> ur_email u \<noteq> normalized_email e"
  unfolding byEmail_def find_None_iff by (force dest: jget_mem)

lemma byEmail_of:
  assumes "user_store_ok s" "jget (st_users s) k = Some u" "ur_email u = normalized_email e"
  shows "byEmail e s = Some u"
proof (cases "byEmail e s")
  case None
  with byEmail_NoneD [OF assms(1) None assms(2)] assms(3) show ?thesis by simp
next
  case (Some v)
  with byEmail_SomeD [OF assms(1) Some] user_store_okD(5) [OF assms(1) assms(2)] assms(2,3) show ?thesis by force
qed

subsection \<open>What a call does\<close>

text \<open>Adding a record whose email is new, and replacing one by a record of the same account.\<close>

lemma ok_add:
  assumes "user_store_ok s" "jget (st_users s) (ur_id u) = None" "record_ok u"
    and "\<And>k v. jget (st_users s) k = Some v \<Longrightarrow> ur_email v \<noteq> ur_email u"
  shows "user_store_ok (put_user u s)"
  using assms unfolding user_store_ok_def put_user_def
  by (auto simp del: map_of_eq_Some_iff split: if_splits) (metis option.distinct(1))+

definition continues :: "user_record \<Rightarrow> user_record \<Rightarrow> bool" where
  "continues v u \<longleftrightarrow> ur_id u = ur_id v \<and> ur_email u = ur_email v \<and> record_ok u
     \<and> (ur_status v = US_active \<longrightarrow> ur_status u = US_active)"

lemma ok_replace:
  assumes "user_store_ok s" "jget (st_users s) (ur_id v) = Some v" "continues v u"
  shows "user_store_ok (put_user u s)"
  unfolding user_store_ok_def
proof (intro conjI allI impI)
  note ok = user_store_okD [OF assms(1)]
  have u: "ur_id u = ur_id v" "ur_email u = ur_email v" "record_ok u"
    "ur_status v = US_active \<Longrightarrow> ur_status u = US_active"
    using assms(3) by (simp_all add: continues_def)
  show "jwf (st_users (put_user u s))" "jwf (st_sessions (put_user u s))"
    using ok(1,2) by (simp_all add: put_user_def)
  show "ur_id w = k" "record_ok w" if "jget (st_users (put_user u s)) k = Some w" for k w
    using that u ok(3,4) by (auto simp: put_user_def split: if_splits)
  show "j = k" if "jget (st_users (put_user u s)) j = Some x" "jget (st_users (put_user u s)) k = Some y"
    "ur_email x = ur_email y" for j k x y
    using that u ok(5) assms(2) by (auto simp: put_user_def split: if_splits)
  show "\<exists>w. jget (st_users (put_user u s)) (se_userId x) = Some w \<and> ur_status w = US_active"
    if "jget (st_sessions (put_user u s)) t = Some x" for t x
    using ok(6) [of t x] that u assms(2) by (auto simp: put_user_def)
qed

lemma ok_session:
  assumes "user_store_ok s" "jget (st_users s) k = Some u" "ur_status u = US_active"
  shows "user_store_ok (s\<lparr>st_sessions := jset t \<lparr>se_userId = k, se_createdAt = now\<rparr> (st_sessions s)\<rparr>)"
  using assms by (auto simp: user_store_ok_def)

lemma ok_logout: "user_store_ok s \<Longrightarrow> user_store_ok (logout t s)"
  by (auto simp: user_store_ok_def logout_def)

lemma jget_filter:
  "jwf m \<Longrightarrow> jget (filter (\<lambda>(k, v). P v) m) k = (case jget m k of None \<Rightarrow> None | Some v \<Rightarrow> if P v then Some v else None)"
  by (induction m) (auto simp: jget_None_iff split: option.splits dest: jget_key)

lemma ok_remove:
  assumes "user_store_ok s"
  shows "user_store_ok (s\<lparr>st_users := jdel k (st_users s),
           st_sessions := filter (\<lambda>(token, x). se_userId x \<noteq> k) (st_sessions s)\<rparr>)"
  using assms unfolding user_store_ok_def
  by (auto simp: jget_filter distinct_map_filter split: option.splits if_splits)


lemma lower_code_idem: "lower_code (lower_code c) = lower_code c"
proof -
  have "of_char c < (256 :: nat)" by simp
  then show ?thesis by (auto simp: lower_code_def Let_def)
qed

lemma lower_code_space: "js_space (lower_code c) = js_space c"
proof -
  have "of_char c < (256 :: nat)" by simp
  then show ?thesis by (auto simp: lower_code_def js_space_def Let_def)
qed

lemma normalized_email_idem [simp]: "normalized_email (normalized_email e) = normalized_email e"
proof -
  have "trimmed (map lower_code t)" if "trimmed t" for t
    using that by (cases "t = []") (auto simp: trimmed_def hd_map last_map lower_code_space)
  then have "js_trim (map lower_code (js_trim e)) = map lower_code (js_trim e)"
    using js_trim_trimmed js_trim_id by blast
  then show ?thesis by (simp add: normalized_email_def lower_code_idem)
qed

definition current_hash :: "derivation \<Rightarrow> string \<Rightarrow> bytes \<Rightarrow> string" where
  "current_hash derive password salt = projr (hashCurrentPassword derive password salt)"

lemma hashPassword_eq:
  "length salt = SCRYPT_SALT_BYTES \<Longrightarrow> hashPassword derive salt password = returning (current_hash derive password salt)"
  by (simp add: hashPassword_def current_hash_def hashCurrentPassword_def)

definition active_account :: "derivation \<Rightarrow> ident \<Rightarrow> bytes \<Rightarrow> millis \<Rightarrow> create_active_input \<Rightarrow> user_record" where
  "active_account derive uid salt now i =
     \<lparr>ur_id = uid, ur_email = normalized_email (ca_email i), ur_name = display_name (ca_name i), ur_role = ca_role i,
      ur_status = US_active, ur_passwordHash = Some (current_hash derive (ca_password i) salt),
      ur_inviteToken = None, ur_createdAt = now\<rparr>"

lemma createActive_eq:
  "length salt = SCRYPT_SALT_BYTES \<Longrightarrow> createActive derive uid salt now i s =
     (if byEmail (ca_email i) s = None
      then (Inr (summarize (active_account derive uid salt now i)), put_user (active_account derive uid salt now i) s)
      else (Inl (UserExistsError (normalized_email (ca_email i))), s))"
  by (simp add: createActive_def hashPassword_eq method_simps active_account_def Let_def byEmail_def)

definition invited_account :: "ident \<Rightarrow> string \<Rightarrow> millis \<Rightarrow> create_invite_input \<Rightarrow> user_record" where
  "invited_account uid token now i =
     \<lparr>ur_id = uid, ur_email = normalized_email (ci_email i), ur_name = display_name (ci_name i), ur_role = ci_role i,
      ur_status = US_invited, ur_passwordHash = None, ur_inviteToken = Some token, ur_createdAt = now\<rparr>"

lemma createInvite_eq:
  "createInvite uid token now i s =
     (if byEmail (ci_email i) s = None
      then (Inr (summarize (invited_account uid token now i), token), put_user (invited_account uid token now i) s)
      else (Inl (UserExistsError (normalized_email (ci_email i))), s))"
  by (simp add: createInvite_def method_simps invited_account_def Let_def byEmail_def)

lemma put_user_again [simp]: "ur_id v = ur_id u \<Longrightarrow> put_user u (put_user v s) = put_user u s"
proof -
  have "jset k x (jset k y m) = jset k x m" for k :: ident and x y and m :: "(ident, user_record) jmap"
    by (induction m) auto
  then show "ur_id v = ur_id u \<Longrightarrow> put_user u (put_user v s) = put_user u s" by (simp add: put_user_def)
qed

definition accepted_account :: "derivation \<Rightarrow> bytes \<Rightarrow> string \<Rightarrow> user_record \<Rightarrow> user_record" where
  "accepted_account derive salt password u =
     u\<lparr>ur_status := US_active, ur_passwordHash := Some (current_hash derive password salt), ur_inviteToken := None\<rparr>"

lemma acceptInvite_eq:
  "length salt = SCRYPT_SALT_BYTES \<Longrightarrow> acceptInvite derive salt token password s =
     (case List.find (\<lambda>u. ur_inviteToken u = Some token) (jvalues (st_users s)) of
        None \<Rightarrow> (Inl InvalidInviteError, s)
      | Some u \<Rightarrow> (Inr (summarize (accepted_account derive salt password u)), put_user (accepted_account derive salt password u) s))"
  by (simp add: acceptInvite_def hashPassword_eq method_simps accepted_account_def Let_def split: option.splits)

lemma updateRole_eq:
  "updateRole uid role s =
     (case jget (st_users s) uid of
        None \<Rightarrow> (Inl (UserNotFoundError uid), s)
      | Some u \<Rightarrow>
          if ur_role u = UR_admin \<and> role = UR_member \<and> ur_status u = US_active \<and> activeAdmins s = 1
          then (Inl (LastActiveAdminError ''demoted''), s)
          else (Inr (summarize (u\<lparr>ur_role := role\<rparr>)), put_user (u\<lparr>ur_role := role\<rparr>) s))"
  by (simp add: updateRole_def requireUser_def method_simps Let_def split: option.splits)

definition without_user :: "ident \<Rightarrow> user_store \<Rightarrow> user_store" where
  "without_user uid s = s\<lparr>st_users := jdel uid (st_users s),
     st_sessions := filter (\<lambda>(token, x). se_userId x \<noteq> uid) (st_sessions s)\<rparr>"

lemma removeUser_eq:
  "removeUser uid s =
     (case jget (st_users s) uid of
        None \<Rightarrow> (Inl (UserNotFoundError uid), s)
      | Some u \<Rightarrow>
          if ur_role u = UR_admin \<and> ur_status u = US_active \<and> activeAdmins s = 1
          then (Inl (LastActiveAdminError ''removed''), s)
          else (Inr (), without_user uid s))"
  by (simp add: removeUser_def requireUser_def method_simps without_user_def split: option.splits)

definition with_session :: "string \<Rightarrow> ident \<Rightarrow> millis \<Rightarrow> user_store \<Rightarrow> user_store" where
  "with_session token uid now s = s\<lparr>st_sessions := jset token \<lparr>se_userId = uid, se_createdAt = now\<rparr> (st_sessions s)\<rparr>"

definition upgraded :: "user_record \<Rightarrow> password_upgrade \<Rightarrow> user_record" where
  "upgraded u v = (case pu_upgraded_hash v of None \<Rightarrow> u | Some h \<Rightarrow> u\<lparr>ur_passwordHash := Some h\<rparr>)"

lemma verifyAndRehash_Inr:
  "length salt = SCRYPT_SALT_BYTES \<Longrightarrow> \<exists>v. verifyAndRehashPassword derive salt p h scheme = Inr v"
  by (simp add: verifyAndRehashPassword_def hashCurrentPassword_def Let_def)

lemma login_cases:
  assumes "login derive salt token now email password s = (r, t)" "length salt = SCRYPT_SALT_BYTES"
  obtains (refused) "r = Inl InvalidCredentialsError" "t = s"
  | (accepted) u h scheme v where "byEmail email s = Some u" "ur_passwordHash u = Some h" "ur_status u = US_active"
      "detectPasswordHashScheme h = Some scheme" "verifyAndRehashPassword derive salt password h scheme = Inr v"
      "pu_valid v" "r = Inr (token, summarize (upgraded u v))"
      "t = with_session token (ur_id u) now (put_user (upgraded u v) s)"
proof -
  have id: "ur_id (upgraded u v) = ur_id u" for u v by (simp add: upgraded_def split: option.splits)
  show thesis
  proof (cases "byEmail email s")
    case None
    with assms(1) show ?thesis by (intro refused) (simp_all add: login_def method_simps)
  next
    case (Some u)
    show ?thesis
    proof (cases "ur_status u = US_active \<and> (\<exists>h scheme. ur_passwordHash u = Some h \<and> h \<noteq> []
        \<and> detectPasswordHashScheme h = Some scheme)")
      case False
      with Some assms(1) show ?thesis
        by (intro refused) (auto simp: login_def method_simps split: option.splits if_splits)
    next
      case True
      then obtain h scheme where h: "ur_status u = US_active" "ur_passwordHash u = Some h" "h \<noteq> []"
        "detectPasswordHashScheme h = Some scheme"
        by blast
      obtain v where v: "verifyAndRehashPassword derive salt password h scheme = Inr v"
        using verifyAndRehash_Inr [OF assms(2)] by blast
      from assms(1) have "(r, t) = (if \<not> pu_valid v then (Inl InvalidCredentialsError, s)
          else (Inr (token, summarize (upgraded u v)), with_session token (ur_id u) now (put_user (upgraded u v) s)))"
        by (cases "pu_valid v")
           (simp_all add: login_def method_simps Let_def Some h v upgraded_def [symmetric] with_session_def id)
      with Some h v show ?thesis by (auto split: if_splits intro: that)
    qed
  qed
qed


text \<open>
  A call leaves the store alone, adds an account, changes one and keeps its identity, signs in,
  removes an account or ends a session. A changed account keeps its password unless it had none or one of
  the older scheme, and it stops being an administrator only when it is not the last one.
\<close>

definition keeps_password :: "user_record \<Rightarrow> user_record \<Rightarrow> bool" where
  "keeps_password v u \<longleftrightarrow> (\<forall>h. ur_passwordHash v = Some h \<longrightarrow>
     detectPasswordHashScheme h = Some CURRENT_PASSWORD_HASH_SCHEME \<longrightarrow> ur_passwordHash u = Some h)"

lemma record_ok_simps:
  "record_ok (active_account derive uid salt now i)" "record_ok (invited_account uid token now i')"
  "record_ok (accepted_account derive salt password v)" "record_ok (v\<lparr>ur_role := role\<rparr>) = record_ok v"
  by (simp_all add: record_ok_def active_account_def invited_account_def accepted_account_def)

lemma account_ids [simp]:
  "ur_id (active_account derive uid salt now i) = uid" "ur_id (invited_account uid token now i') = uid"
  "ur_id (accepted_account derive salt password v) = ur_id v" "ur_id (upgraded v p) = ur_id v"
  "ur_email (active_account derive uid salt now i) = normalized_email (ca_email i)"
  "ur_email (invited_account uid token now i') = normalized_email (ci_email i')"
  by (simp_all add: active_account_def invited_account_def accepted_account_def upgraded_def split: option.splits)

lemma upgraded_continues:
  assumes "ur_status v = US_active" "record_ok v"
  shows "continues v (upgraded v p)" "signs_in_as_admin v \<Longrightarrow> signs_in_as_admin (upgraded v p)"
    "ur_status (upgraded v p) = US_active"
  using assms by (auto simp: continues_def upgraded_def record_ok_def signs_in_as_admin_def split: option.splits)

lemma upgraded_keeps_password:
  assumes "verifyAndRehashPassword derive salt password h scheme = Inr p" "ur_passwordHash v = Some h"
    "detectPasswordHashScheme h = Some scheme"
  shows "keeps_password v (upgraded v p)"
  using assms
  by (auto simp: keeps_password_def upgraded_def verifyAndRehashPassword_def verifyPasswordHash_def Let_def
      split: if_splits sum.splits option.splits)

fun created_by :: "user_call \<Rightarrow> ident option" where
  "created_by (UC_createActive uid salt now i) = Some uid"
| "created_by (UC_createInvite uid token now i) = Some uid"
| "created_by (UC_bootstrap uid salt now i) = Some uid"
| "created_by _ = None"

lemma user_call_cases:
  assumes ok: "user_store_ok s" and c: "user_call_ok c s"
  obtains (same) "do_user_call derive c s = s"
  | (added) u where "created_by c = Some (ur_id u)" "jget (st_users s) (ur_id u) = None" "record_ok u"
      "\<And>k v. jget (st_users s) k = Some v \<Longrightarrow> ur_email v \<noteq> ur_email u" "do_user_call derive c s = put_user u s"
  | (changed) v u where "jget (st_users s) (ur_id v) = Some v" "continues v u" "keeps_password v u"
      "signs_in_as_admin v \<Longrightarrow> signs_in_as_admin u \<or> activeAdmins s \<noteq> 1" "do_user_call derive c s = put_user u s"
  | (signed_in) v u token now where "jget (st_users s) (ur_id v) = Some v" "continues v u" "keeps_password v u"
      "ur_status u = US_active" "signs_in_as_admin v \<Longrightarrow> signs_in_as_admin u"
      "jget (st_sessions s) token = None"
      "do_user_call derive c s = with_session token (ur_id v) now (put_user u s)"
      "\<exists>salt email password. c = UC_login salt token now email password"
  | (removed) k v where "c = UC_remove k" "jget (st_users s) k = Some v"
      "signs_in_as_admin v \<Longrightarrow> activeAdmins s \<noteq> 1" "do_user_call derive c s = without_user k s"
  | (ended) t where "c = UC_logout t" "do_user_call derive c s = logout t s"
proof (cases c)
  case (UC_createActive uid salt now i)
  then have l: "length salt = SCRYPT_SALT_BYTES" "jget (st_users s) uid = None" using c by simp_all
  show thesis
  proof (cases "byEmail (ca_email i) s")
    case None
    with UC_createActive l show thesis
      by (intro added [of "active_account derive uid salt now i"])
         (simp_all add: createActive_eq record_ok_simps byEmail_NoneD [OF ok None])
  qed (use UC_createActive l same in \<open>simp add: createActive_eq\<close>)
next
  case (UC_bootstrap uid salt now i)
  let ?i = "i\<lparr>ca_role := UR_admin\<rparr>"
  from UC_bootstrap have l: "length salt = SCRYPT_SALT_BYTES" "jget (st_users s) uid = None" using c by simp_all
  show thesis
  proof (cases "hasActiveAdmin s \<or> byEmail (ca_email i) s \<noteq> None")
    case True
    with UC_bootstrap l show thesis
      by (intro same) (auto simp: bootstrapAdmin_def method_simps createActive_eq)
  next
    case False
    then have None: "byEmail (ca_email ?i) s = None" by simp
    from False UC_bootstrap l show thesis
      by (intro added [of "active_account derive uid salt now ?i"])
         (simp_all add: bootstrapAdmin_def method_simps createActive_eq record_ok_simps byEmail_NoneD [OF ok None, simplified])
  qed
next
  case (UC_createInvite uid token now i)
  then have l: "jget (st_users s) uid = None" using c by simp
  show thesis
  proof (cases "byEmail (ci_email i) s")
    case None
    with UC_createInvite l show thesis
      by (intro added [of "invited_account uid token now i"])
         (simp_all add: createInvite_eq record_ok_simps byEmail_NoneD [OF ok None])
  qed (use UC_createInvite l same in \<open>simp add: createInvite_eq\<close>)
next
  case (UC_acceptInvite salt token password)
  then have l: "length salt = SCRYPT_SALT_BYTES" using c by simp
  show thesis
  proof (cases "List.find (\<lambda>u. ur_inviteToken u = Some token) (jvalues (st_users s))")
    case None
    with UC_acceptInvite l show thesis by (intro same) (simp add: acceptInvite_eq)
  next
    case (Some v)
    from find_user [OF ok Some] have v: "ur_inviteToken v = Some token" "jget (st_users s) (ur_id v) = Some v"
      by blast+
    with user_store_okD(4) [OF ok] have "record_ok v" by blast
    with v(1) have "ur_passwordHash v = None" "\<not> signs_in_as_admin v"
      by (auto simp: record_ok_def signs_in_as_admin_def)
    moreover have "continues v (accepted_account derive salt password v)"
      using record_ok_simps(3) by (simp add: continues_def accepted_account_def)
    ultimately show thesis using UC_acceptInvite l v(2) Some
      by (intro changed [of v "accepted_account derive salt password v"])
         (simp_all add: acceptInvite_eq keeps_password_def)
  qed
next
  case (UC_updateRole uid role)
  show thesis
  proof (cases "\<exists>u. fst (updateRole uid role s) = Inr u")
    case False
    with UC_updateRole same show thesis by (auto simp: updateRole_eq split: option.splits if_splits)
  next
    case True
    then obtain v where v: "jget (st_users s) uid = Some v"
      "\<not> (ur_role v = UR_admin \<and> role = UR_member \<and> ur_status v = US_active \<and> activeAdmins s = 1)"
      by (auto simp: updateRole_eq split: option.splits if_splits)
    from user_store_okD(3,4) [OF ok v(1)] have r: "ur_id v = uid" "record_ok v" .
    have admin: "signs_in_as_admin (v\<lparr>ur_role := role\<rparr>) \<or> activeAdmins s \<noteq> 1" if "signs_in_as_admin v"
      using that v(2) by (cases role) (auto simp: signs_in_as_admin_def)
    from r have "continues v (v\<lparr>ur_role := role\<rparr>)" "keeps_password v (v\<lparr>ur_role := role\<rparr>)"
      by (simp_all add: continues_def keeps_password_def record_ok_simps)
    moreover have "do_user_call derive c s = put_user (v\<lparr>ur_role := role\<rparr>) s"
      using UC_updateRole v by (auto simp: updateRole_eq)
    ultimately show thesis using changed [of v "v\<lparr>ur_role := role\<rparr>"] v(1) r(1) admin by blast
  qed
next
  case (UC_remove uid)
  show thesis
  proof (cases "fst (removeUser uid s) = Inr ()")
    case False
    with UC_remove same show thesis by (auto simp: removeUser_eq split: option.splits if_splits)
  next
    case True
    with UC_remove show thesis
      by (intro removed [of uid "the (jget (st_users s) uid)"])
         (auto simp: removeUser_eq signs_in_as_admin_def split: option.splits if_splits)
  qed
next
  case (UC_login salt token now email password)
  obtain r t where e: "login derive salt token now email password s = (r, t)" by (rule prod.exhaust)
  from UC_login have l: "length salt = SCRYPT_SALT_BYTES" "jget (st_sessions s) token = None" using c by simp_all
  from e l(1) show thesis
  proof (cases rule: login_cases)
    case refused
    with e UC_login same show thesis by simp
  next
    case (accepted v h scheme p)
    from byEmail_SomeD [OF ok accepted(1)] have v: "jget (st_users s) (ur_id v) = Some v" by simp
    with user_store_okD(4) [OF ok] have "record_ok v" by blast
    note u = upgraded_continues [OF accepted(3) this, of p]
    from e UC_login accepted have "do_user_call derive c s = with_session token (ur_id v) now (put_user (upgraded v p) s)"
      by simp
    with UC_login v u l(2) upgraded_keeps_password [OF accepted(5) accepted(2) accepted(4)] show thesis
      using signed_in [of v "upgraded v p" token now] by blast
  qed
next
  case (UC_logout t)
  with ended show thesis by simp
qed


subsection \<open>The invariant\<close>

lemma user_call_keeps_ok:
  assumes ok: "user_store_ok s" and "user_call_ok c s"
  shows "user_store_ok (do_user_call derive c s)"
  using assms
proof (cases rule: user_call_cases [where derive = derive])
  case (signed_in v u token now)
  have "ur_id u = ur_id v" using signed_in(2) by (simp add: continues_def)
  with signed_in ok_session [OF ok_replace [OF ok signed_in(1,2)], of "ur_id v" u token now]
  show ?thesis by (simp add: with_session_def put_user_def)
qed (use ok in \<open>auto simp: without_user_def simp del: map_of_eq_Some_iff intro: ok_add ok_replace ok_remove ok_logout\<close>)

interpretation users: object_invariant "do_user_call derive" user_call_ok user_store_ok for derive
  by unfold_locales (rule user_call_keeps_ok)

abbreviation users_run :: "derivation \<Rightarrow> user_call list \<Rightarrow> user_store \<Rightarrow> bool" where
  "users_run derive \<equiv> obeys (do_user_call derive) user_call_ok"

subsection \<open>An administrator remains\<close>

lemma filter_single:
  "jwf m \<Longrightarrow> (k, v) \<in> set m \<Longrightarrow> P v \<Longrightarrow> (\<And>j u. (j, u) \<in> set m \<Longrightarrow> j \<noteq> k \<Longrightarrow> \<not> P u) \<Longrightarrow>
     filter P (jvalues m) = [v]"
proof (induction m)
  case (Cons p m)
  obtain j u where p: "p = (j, u)" by (rule prod.exhaust)
  show ?case
  proof (cases "j = k")
    case True
    with Cons.prems(1,2) p have "u = v" "k \<notin> fst ` set m" by force+
    then have "\<not> P x" if "x \<in> snd ` set m" for x using Cons.prems(4) that by force
    with \<open>u = v\<close> p Cons.prems(3) show ?thesis by (simp add: filter_empty_conv)
  next
    case False
    with Cons.prems(4) [of j u] p have "\<not> P u" by simp
    moreover have "filter P (jvalues m) = [v]"
      using Cons.prems False p by (intro Cons.IH) auto
    ultimately show ?thesis using p by simp
  qed
qed simp

lemma other_admin:
  assumes "jwf m" "jget m k = Some v" "P v" "length (filter P (jvalues m)) \<noteq> 1"
  shows "\<exists>j u. j \<noteq> k \<and> jget m j = Some u \<and> P u"
proof (rule ccontr)
  assume none: "\<not> ?thesis"
  have "\<not> P u" if "(j, u) \<in> set m" "j \<noteq> k" for j u
    using none that jget_of_mem [OF assms(1) that(1)] by blast
  from filter_single [of m k v P, OF assms(1) jget_mem [OF assms(2)] assms(3) this] assms(4) show False by simp
qed

lemma hasActiveAdmin_iff:
  "user_store_ok s \<Longrightarrow> hasActiveAdmin s \<longleftrightarrow> (\<exists>k u. jget (st_users s) k = Some u \<and> signs_in_as_admin u)"
  using user_store_okD(1) by (force simp: hasActiveAdmin_def list_ex_iff)

lemma another_admin:
  assumes "user_store_ok s" "jget (st_users s) k = Some v" "signs_in_as_admin v" "activeAdmins s \<noteq> 1"
  obtains j u where "j \<noteq> k" "jget (st_users s) j = Some u" "signs_in_as_admin u"
  using other_admin [of "st_users s" k v signs_in_as_admin] assms user_store_okD(1) [OF assms(1)]
  unfolding activeAdmins_def by blast

lemma users_get [simp]:
  "jget (st_users (put_user u s)) k = (if k = ur_id u then Some u else jget (st_users s) k)"
  "st_users (with_session t i n s) = st_users s" "st_users (logout t s) = st_users s"
  "jget (st_users (without_user i s)) k = (if k = i then None else jget (st_users s) k)"
  "st_sessions (put_user u s) = st_sessions s"
  "jget (st_sessions (with_session t i n s)) t' =
     (if t' = t then Some \<lparr>se_userId = i, se_createdAt = n\<rparr> else jget (st_sessions s) t')"
  "jget (st_sessions (logout t s)) t' = (if t' = t then None else jget (st_sessions s) t')"
  by (simp_all add: put_user_def with_session_def logout_def without_user_def)

lemma admin_remains:
  assumes ok: "user_store_ok s" and c: "user_call_ok c s" and a: "hasActiveAdmin s"
  shows "hasActiveAdmin (do_user_call derive c s)"
proof -
  from a hasActiveAdmin_iff [OF ok] obtain k w where w: "jget (st_users s) k = Some w" "signs_in_as_admin w" by blast
  have "\<exists>k u. jget (st_users (do_user_call derive c s)) k = Some u \<and> signs_in_as_admin u"
    using ok c
  proof (cases rule: user_call_cases [where derive = derive])
    case (added u)
    with w have "k \<noteq> ur_id u" by auto
    with added w show ?thesis by auto
  next
    case (changed v u)
    have i: "ur_id u = ur_id v" using changed(2) by (simp add: continues_def)
    show ?thesis
    proof (cases "k = ur_id v \<and> \<not> signs_in_as_admin u")
      case True
      with changed w have "signs_in_as_admin v" "activeAdmins s \<noteq> 1" by auto
      from another_admin [OF ok changed(1) this] obtain j x where "j \<noteq> ur_id v" "jget (st_users s) j = Some x"
        "signs_in_as_admin x" .
      with changed i show ?thesis by auto
    next
      case False
      with changed i w show ?thesis by (cases "k = ur_id v") auto
    qed
  next
    case (signed_in v u token now)
    have "ur_id u = ur_id v" using signed_in(2) by (simp add: continues_def)
    with signed_in w show ?thesis by (cases "k = ur_id v") auto
  next
    case (removed j v)
    show ?thesis
    proof (cases "j = k")
      case True
      with removed w have "signs_in_as_admin v" "activeAdmins s \<noteq> 1" by auto
      from another_admin [OF ok removed(2) this] obtain i x where "i \<noteq> j" "jget (st_users s) i = Some x"
        "signs_in_as_admin x" .
      with removed show ?thesis by auto
    next
      case False
      with removed w have "jget (st_users (do_user_call derive c s)) k = Some w" by simp
      with w show ?thesis by blast
    qed
  qed (use w in auto)
  with hasActiveAdmin_iff [OF user_call_keeps_ok [OF ok c]] show ?thesis by blast
qed

interpretation admins: object_invariant "do_user_call derive" user_call_ok "\<lambda>s. user_store_ok s \<and> hasActiveAdmin s" for derive
  by unfold_locales (simp add: user_call_keeps_ok admin_remains)


text \<open>C14: An administrator always remains. Whatever happens to the accounts after the first administrator can sign
  in (accounts added, invited, accepted, promoted, demoted and removed, by anyone), some administrator
  can still sign in; so the bootstrap with the deploy token, once refused, stays refused and leaves the store
  as it is.\<close>

theorem administrator_remains:
  assumes "users_run derive calls new_user_store" and "hasActiveAdmin (fold (do_user_call derive) calls new_user_store)"
    and "users_run derive later (fold (do_user_call derive) calls new_user_store)"
  shows "let s = fold (do_user_call derive) (calls @ later) new_user_store in
     hasActiveAdmin s \<and> bootstrapAdmin derive uid salt now i s = (Inl IdentityAlreadyBootstrappedError, s)"
proof -
  have "hasActiveAdmin (fold (do_user_call derive) (calls @ later) new_user_store)"
    using admins.calls_keep [OF assms(3)] users.calls_keep [OF assms(1) new_user_store_ok] assms(2) by simp
  then show ?thesis by (simp add: Let_def bootstrapAdmin_def method_simps)
qed

subsection \<open>Sessions follow logins\<close>

text \<open>What a run of calls makes of a session that a login has opened.\<close>

definition session_open :: "string \<Rightarrow> ident \<Rightarrow> user_store \<Rightarrow> bool" where
  "session_open t k s \<longleftrightarrow> (\<exists>n. jget (st_sessions s) t = Some \<lparr>se_userId = k, se_createdAt = n\<rparr>)
     \<and> jget (st_users s) k \<noteq> None"

definition session_closed :: "string \<Rightarrow> user_store \<Rightarrow> bool" where
  "session_closed t s \<longleftrightarrow> jget (st_sessions s) t = None"

fun draws_token :: "string \<Rightarrow> user_call \<Rightarrow> bool" where
  "draws_token t (UC_login salt token now email password) \<longleftrightarrow> token = t"
| "draws_token t _ \<longleftrightarrow> False"

lemma jget_sessions_without:
  "user_store_ok s \<Longrightarrow> jget (st_sessions (without_user k s)) t =
     (case jget (st_sessions s) t of None \<Rightarrow> None | Some x \<Rightarrow> if se_userId x = k then None else Some x)"
  using user_store_okD(2) by (auto simp: without_user_def jget_filter split: option.splits)

lemma closed_stays:
  assumes "user_store_ok s" "user_call_ok c s" "session_closed t s" "\<not> draws_token t c"
  shows "session_closed t (do_user_call derive c s)"
  using assms(1,2)
  by (cases rule: user_call_cases [where derive = derive])
     (use assms(1,3,4) in \<open>auto simp: session_closed_def jget_sessions_without\<close>)

lemma open_follows:
  assumes ok: "user_store_ok s" and c: "user_call_ok c s" and "session_open t k s" "created_by c \<noteq> Some k"
  shows "if c = UC_logout t then session_closed t (do_user_call derive c s)
     else session_open t k (do_user_call derive c s) \<or>
       session_closed t (do_user_call derive c s) \<and> jget (st_users (do_user_call derive c s)) k = None"
proof -
  from assms(3) obtain n where n: "jget (st_sessions s) t = Some \<lparr>se_userId = k, se_createdAt = n\<rparr>"
    "jget (st_users s) k \<noteq> None"
    unfolding session_open_def by blast
  show ?thesis
  proof (cases "c = UC_logout t")
    case False
    from ok c have "session_open t k (do_user_call derive c s) \<or>
       session_closed t (do_user_call derive c s) \<and> jget (st_users (do_user_call derive c s)) k = None"
    proof (cases rule: user_call_cases [where derive = derive])
      case (changed v u)
      then have "ur_id u = ur_id v" by (simp add: continues_def)
      with changed n show ?thesis by (auto simp: session_open_def)
    next
      case (signed_in v u token now)
      then have "ur_id u = ur_id v" "t \<noteq> token" using n by (auto simp: continues_def)
      with signed_in n show ?thesis by (auto simp: session_open_def)
    next
      case (removed j v)
      with n jget_sessions_without [OF ok, of j t] show ?thesis
        by (auto simp: session_open_def session_closed_def)
    qed (use n False in \<open>auto simp: session_open_def\<close>)
    with False show ?thesis by simp
  qed (simp add: session_closed_def)
qed


lemma gone_stays:
  assumes "user_store_ok s" "user_call_ok c s" "jget (st_users s) k = None" "created_by c \<noteq> Some k"
  shows "jget (st_users (do_user_call derive c s)) k = None"
  using assms(1,2)
  by (cases rule: user_call_cases [where derive = derive]) (use assms(3,4) in \<open>auto simp: continues_def\<close>)

abbreviation unrelated :: "string \<Rightarrow> ident \<Rightarrow> user_call \<Rightarrow> bool" where
  "unrelated t k c \<equiv> \<not> draws_token t c \<and> created_by c \<noteq> Some k"

lemma closed_run:
  "users_run derive calls s \<Longrightarrow> user_store_ok s \<Longrightarrow> session_closed t s \<Longrightarrow> list_all (unrelated t k) calls \<Longrightarrow>
     session_closed t (fold (do_user_call derive) calls s)
       \<and> (jget (st_users s) k = None \<longrightarrow> jget (st_users (fold (do_user_call derive) calls s)) k = None)"
proof (induction calls arbitrary: s)
  case (Cons c calls)
  then have "session_closed t (do_user_call derive c s)" "user_store_ok (do_user_call derive c s)"
    using closed_stays user_call_keeps_ok by simp_all
  moreover have "jget (st_users s) k = None \<Longrightarrow> jget (st_users (do_user_call derive c s)) k = None"
    using Cons.prems gone_stays by simp
  ultimately show ?case using Cons.IH [of "do_user_call derive c s"] Cons.prems by simp
qed simp

lemma open_run:
  "users_run derive calls s \<Longrightarrow> user_store_ok s \<Longrightarrow> session_open t k s \<Longrightarrow> list_all (unrelated t k) calls \<Longrightarrow>
     (let s' = fold (do_user_call derive) calls s in
      if UC_logout t \<in> set calls then session_closed t s'
      else session_open t k s' \<or> session_closed t s' \<and> jget (st_users s') k = None)"
proof (induction calls arbitrary: s)
  case (Cons c calls)
  let ?s = "do_user_call derive c s"
  from Cons.prems have c: "user_call_ok c s" "unrelated t k c" "users_run derive calls ?s" "list_all (unrelated t k) calls"
    by simp_all
  have ok: "user_store_ok ?s" using user_call_keeps_ok [OF Cons.prems(2) c(1)] .
  note step = open_follows [OF Cons.prems(2) c(1) Cons.prems(3), of derive] 
  show ?case
  proof (cases "c = UC_logout t")
    case True
    with step c(2) have "session_closed t ?s" by simp
    from closed_run [OF c(3) ok this c(4)] True show ?thesis by simp
  next
    case False
    with step c(2) consider "session_open t k ?s" | "session_closed t ?s" "jget (st_users ?s) k = None" by auto
    then show ?thesis
    proof cases
      case 1
      from Cons.IH [OF c(3) ok this c(4)] False show ?thesis by (simp add: Let_def)
    next
      case 2
      from closed_run [OF c(3) ok 2(1) c(4)] 2(2) show ?thesis by simp
    qed
  qed
qed (simp add: Let_def)

text \<open>C15: A session is exactly as long as it should be. After a login returned a token, whatever the other calls
  are, the token stands for the account it was issued to, with that account's current role, until the token
  is logged out or the account is removed, and from then on for nobody; a removed account cannot be
  reached through a session that was open.\<close>

theorem session_exact:
  assumes "users_run derive (calls @ [UC_login salt token now email password]) new_user_store"
    and "login derive salt token now email password (fold (do_user_call derive) calls new_user_store) = (Inr (token, user), s)"
    and "users_run derive later s"
    and "list_all (unrelated token (sm_id user)) later"
  shows "userForToken token (fold (do_user_call derive) later s) =
     (if UC_logout token \<in> set later then None else jget (st_users (fold (do_user_call derive) later s)) (sm_id user))"
proof -
  let ?s = "fold (do_user_call derive) calls new_user_store"
  from assms(1) have run: "users_run derive calls new_user_store" and c: "user_call_ok (UC_login salt token now email password) ?s"
    by (simp_all add: obeys_append)
  have ok: "user_store_ok ?s" using users.calls_keep [OF run new_user_store_ok] .
  from c have "length salt = SCRYPT_SALT_BYTES" by simp
  from assms(2) this have "session_open token (sm_id user) s"
  proof (cases rule: login_cases)
    case (accepted u h scheme v)
    then have "sm_id user = ur_id u" by (simp add: summarize_def)
    with accepted show ?thesis by (simp add: session_open_def)
  qed simp
  moreover have "user_store_ok s" using user_call_keeps_ok [OF ok c, of derive] assms(2) by simp
  ultimately show ?thesis using open_run [OF assms(3) _ _ assms(4)]
    by (auto simp: Let_def userForToken_def session_open_def session_closed_def split: if_splits)
qed

subsection \<open>The password decides\<close>

definition account_of :: "ident \<Rightarrow> string \<Rightarrow> string \<Rightarrow> user_store \<Rightarrow> bool" where
  "account_of k email h s \<longleftrightarrow> (\<exists>u. jget (st_users s) k = Some u \<and> ur_id u = k \<and> ur_email u = email \<and> ur_status u = US_active
     \<and> ur_passwordHash u = Some h)"

lemma account_stays:
  assumes ok: "user_store_ok s" and c: "user_call_ok c s" and a: "account_of k email h s" and "c \<noteq> UC_remove k"
    and h: "detectPasswordHashScheme h = Some CURRENT_PASSWORD_HASH_SCHEME"
  shows "account_of k email h (do_user_call derive c s)"
proof -
  from a obtain w where w: "jget (st_users s) k = Some w" "ur_id w = k" "ur_email w = email" "ur_status w = US_active"
    "ur_passwordHash w = Some h"
    unfolding account_of_def by blast
  have kept: "account_of k email h (put_user u s)" if "jget (st_users s) (ur_id v) = Some v" "continues v u" "keeps_password v u" for u v
  proof (cases "ur_id v = k")
    case True
    with that(1) w have "w = v" by simp
    with True that w h show ?thesis by (simp add: account_of_def continues_def keeps_password_def)
  next
    case False
    with that w show ?thesis by (auto simp: account_of_def continues_def)
  qed
  from ok c show ?thesis
  proof (cases rule: user_call_cases [where derive = derive])
    case (added u)
    with w have "k \<noteq> ur_id u" by auto
    with added w show ?thesis by (simp add: account_of_def)
  next
    case (signed_in v u token now)
    with kept [of v u] show ?thesis by (simp add: account_of_def)
  next
    case (removed j v)
    with w assms(4) show ?thesis by (auto simp: account_of_def)
  qed (use a kept in \<open>auto simp: account_of_def\<close>)
qed


lemma account_run:
  "users_run derive calls s \<Longrightarrow> user_store_ok s \<Longrightarrow> account_of k email h s \<Longrightarrow> UC_remove k \<notin> set calls \<Longrightarrow>
     detectPasswordHashScheme h = Some CURRENT_PASSWORD_HASH_SCHEME \<Longrightarrow>
     account_of k email h (fold (do_user_call derive) calls s)"
proof (induction calls arbitrary: s)
  case (Cons c calls)
  have "account_of k email h (do_user_call derive c s)"
    by (rule account_stays) (use Cons.prems in auto)
  moreover have "user_store_ok (do_user_call derive c s)" using Cons.prems user_call_keeps_ok by simp
  ultimately show ?case using Cons.IH [of "do_user_call derive c s"] Cons.prems by simp
qed simp

lemma login_account:
  assumes ok: "user_store_ok s" and a: "account_of k (normalized_email email) (current_hash derive p salt) s"
    and l: "\<And>p s. length (derive p s) = SCRYPT_KEY_BYTES" "length salt = SCRYPT_SALT_BYTES"
  shows "case fst (login derive salt' token now email q s) of
      Inr (t, user) \<Rightarrow> derive q salt = derive p salt \<and> t = token \<and> sm_id user = k
    | Inl e \<Rightarrow> derive q salt \<noteq> derive p salt \<and> e = InvalidCredentialsError"
proof -
  from a obtain u where u: "jget (st_users s) k = Some u" "ur_id u = k" "ur_email u = normalized_email email"
    "ur_status u = US_active" "ur_passwordHash u = Some (current_hash derive p salt)"
    unfolding account_of_def by blast
  from byEmail_of [OF ok u(1,3)] have found: "byEmail email s = Some u" .
  from stored_password_facts [of derive salt p] l obtain h where h: "hashCurrentPassword derive p salt = Inr h"
      "detectPasswordHashScheme h = Some CURRENT_PASSWORD_HASH_SCHEME"
      "\<And>q. verifyPasswordHash derive q h CURRENT_PASSWORD_HASH_SCHEME =
               \<lparr>pk_valid = (derive q salt = derive p salt), pk_needs_rehash = False\<rparr>"
    by blast
  then have c: "current_hash derive p salt = h" by (simp add: current_hash_def)
  have ne: "h \<noteq> []" using h(2) by (auto simp: detectPasswordHashScheme_def currentHashParts_def legacyHashParts_def)
  have "verifyAndRehashPassword derive salt' q h CURRENT_PASSWORD_HASH_SCHEME =
      Inr \<lparr>pu_valid = (derive q salt = derive p salt), pu_upgraded_hash = None,
           pu_upgraded_scheme = CURRENT_PASSWORD_HASH_SCHEME\<rparr>"
    by (simp add: verifyAndRehashPassword_def h(3))
  then show ?thesis using found u c ne h(2)
    by (cases "derive q salt = derive p salt") (simp_all add: login_def method_simps summarize_def)
qed

text \<open>C16: The password of an account decides, and nothing else does. After an account was created with a password,
  whatever is done to the accounts short of removing it (role changes, other accounts, logins that
  succeed or fail), a login under its email, in any case and with spaces around it, opens a session of this
  account exactly when the given password derives the same key from the salt drawn at the creation, and
  is refused without saying why otherwise.\<close>

theorem login_exact:
  assumes "\<And>p s. length (derive p s) = SCRYPT_KEY_BYTES"
    and "users_run derive (UC_createActive uid salt now i # later) s"
    and "s = fold (do_user_call derive) calls new_user_store" and "users_run derive calls new_user_store"
    and "fst (createActive derive uid salt now i s) = Inr created"
    and "UC_remove uid \<notin> set later"
    and "normalized_email email = normalized_email (ca_email i)"
  shows "case fst (login derive salt' token now' email q
                (fold (do_user_call derive) (UC_createActive uid salt now i # later) s)) of
      Inr (t, user) \<Rightarrow> derive q salt = derive (ca_password i) salt \<and> t = token \<and> sm_id user = uid
    | Inl e \<Rightarrow> derive q salt \<noteq> derive (ca_password i) salt \<and> e = InvalidCredentialsError"
proof -
  let ?c = "UC_createActive uid salt now i" and ?h = "current_hash derive (ca_password i) salt"
  have ok: "user_store_ok s" using assms(3) users.calls_keep [OF assms(4) new_user_store_ok] by simp
  from assms(2) have c: "user_call_ok ?c s" "length salt = SCRYPT_SALT_BYTES"
    and later: "users_run derive later (do_user_call derive ?c s)"
    by simp_all
  have h: "detectPasswordHashScheme ?h = Some CURRENT_PASSWORD_HASH_SCHEME"
    using stored_password_facts [of derive salt "ca_password i"] assms(1) c(2) by (auto simp: current_hash_def)
  have "account_of uid (normalized_email email) ?h (do_user_call derive ?c s)"
    using assms(5,7) c(2) by (auto simp: createActive_eq account_of_def active_account_def split: if_splits)
  from account_run [OF later user_call_keeps_ok [OF ok c(1)] this assms(6) h]
  have "account_of uid (normalized_email email) ?h (fold (do_user_call derive) (?c # later) s)" by simp
  moreover have "user_store_ok (fold (do_user_call derive) (?c # later) s)"
    using users.calls_keep [OF assms(2) ok] .
  ultimately show ?thesis using login_account assms(1) c(2) by blast
qed

subsection \<open>Snapshots\<close>

lemma fold_jset_values:
  "jwf (acc @ m) \<Longrightarrow> (\<And>k v. (k, v) \<in> set m \<Longrightarrow> key v = k) \<Longrightarrow> fold (\<lambda>v. jset (key v) v) (jvalues m) acc = acc @ m"
proof (induction m arbitrary: acc)
  case (Cons p m)
  obtain k v where p: "p = (k, v)" by (rule prod.exhaust)
  with Cons.prems(2) have "key v = k" by simp
  moreover have "jset k v acc = acc @ [(k, v)]" using Cons.prems(1) p by (intro jset_fresh) auto
  ultimately have "fold (\<lambda>v. jset (key v) v) (jvalues (p # m)) acc = fold (\<lambda>v. jset (key v) v) (jvalues m) (acc @ [(k, v)])"
    using p by simp
  also have "\<dots> = acc @ p # m" using Cons.IH [of "acc @ [(k, v)]"] Cons.prems p by simp
  finally show ?case .
qed simp

text \<open>A snapshot restores the store it was taken of.\<close>

lemma snapshot_restores:
  assumes "user_store_ok s"
  shows "users_restoreFrom (users_snapshot s) = s"
proof -
  note ok = user_store_okD [OF assms]
  have "fold (\<lambda>u. jset (ur_id u) u) (jvalues (st_users s)) [] = st_users s"
    using fold_jset_values [of "[]" "st_users s" ur_id] ok(1) ok(3) jget_of_mem [OF ok(1)] by simp
  moreover have "fold (\<lambda>x. jset (sn_token x) \<lparr>se_userId = sn_userId x, se_createdAt = sn_createdAt x\<rparr>)
      (map (\<lambda>(token, x). \<lparr>sn_token = token, sn_userId = se_userId x, sn_createdAt = se_createdAt x\<rparr>) m) acc = acc @ m"
    if "jwf (acc @ m)" for m acc
    using that
  proof (induction m arbitrary: acc)
    case (Cons p m)
    obtain t k n where p: "p = (t, \<lparr>se_userId = k, se_createdAt = n\<rparr>)" by (metis prod.exhaust user_session.cases)
    have "jset t (snd p) acc = acc @ [p]" using Cons.prems p by (simp add: jset_fresh)
    with Cons.IH [of "acc @ [p]"] Cons.prems p show ?case by simp
  qed simp
  ultimately show ?thesis using ok(2) by (simp add: users_restoreFrom_def users_snapshot_def)
qed


subsection \<open>A sample store\<close>

definition sample_salt :: bytes where "sample_salt = replicate 16 7"

definition sample_admin :: create_active_input where
  "sample_admin = \<lparr>ca_email = '' Ann@Norns.dev '', ca_name = Some ''Ann'', ca_password = ''secret'', ca_role = UR_admin\<rparr>"

definition account_calls :: "user_call list" where
  "account_calls = [UC_bootstrap ''user_1'' sample_salt 5 sample_admin,
     UC_createInvite ''user_2'' ''invite'' 6 \<lparr>ci_email = ''bob@norns.dev'', ci_name = None, ci_role = UR_member\<rparr>]"

definition sample_later :: "user_call list" where
  "sample_later = [UC_acceptInvite sample_salt ''invite'' ''other'', UC_updateRole ''user_1'' UR_member,
     UC_remove ''user_1'', UC_remove ''user_2'']"

definition sample_store :: user_store where
  "sample_store = fold (do_user_call sample_derivation) account_calls new_user_store"

definition sample_login :: "(user_error + string \<times> user_summary) \<times> user_store" where
  "sample_login = login sample_derivation sample_salt ''token'' 9 ''ann@norns.DEV'' ''secret'' sample_store"

lemma sample_emails:
  "normalized_email '' Ann@Norns.dev '' = ''ann@norns.dev''" "normalized_email ''bob@norns.dev'' = ''bob@norns.dev''"
  "normalized_email ''ann@norns.DEV'' = ''ann@norns.dev''" "js_trim ''Ann'' = ''Ann''"
  by code_simp+

lemma sample_salt_length [simp]: "length sample_salt = SCRYPT_SALT_BYTES"
  by (simp add: sample_salt_def SCRYPT_SALT_BYTES_def)

definition sample_ann :: user_record where
  "sample_ann = \<lparr>ur_id = ''user_1'', ur_email = ''ann@norns.dev'', ur_name = Some ''Ann'', ur_role = UR_admin,
     ur_status = US_active, ur_passwordHash = Some (current_hash sample_derivation ''secret'' sample_salt),
     ur_inviteToken = None, ur_createdAt = 5\<rparr>"

definition sample_bob :: user_record where
  "sample_bob = \<lparr>ur_id = ''user_2'', ur_email = ''bob@norns.dev'', ur_name = None, ur_role = UR_member,
     ur_status = US_invited, ur_passwordHash = None, ur_inviteToken = Some ''invite'', ur_createdAt = 6\<rparr>"

lemma sample_store_eq:
  "sample_store = \<lparr>st_users = [(''user_1'', sample_ann), (''user_2'', sample_bob)], st_sessions = []\<rparr>"
  "users_run sample_derivation account_calls new_user_store"
  by (simp_all add: sample_store_def account_calls_def sample_admin_def bootstrapAdmin_def method_simps createActive_eq
      createInvite_eq new_user_store_def hasActiveAdmin_def byEmail_def sample_emails active_account_def
      invited_account_def display_name_def put_user_def sample_ann_def sample_bob_def)

lemma sample_admin_active: "hasActiveAdmin sample_store"
  by (simp add: sample_store_eq hasActiveAdmin_def signs_in_as_admin_def sample_ann_def)

lemma sample_store_run: "user_store_ok sample_store"
  using users.calls_keep [OF sample_store_eq(2) new_user_store_ok] by (simp add: sample_store_def)

theorem administrator_remains_witness:
  "hasActiveAdmin (fold (do_user_call sample_derivation) (account_calls @ sample_later) new_user_store)"
proof -
  have later: "users_run sample_derivation sample_later s" for s by (simp add: sample_later_def)
  show ?thesis
    using administrator_remains [OF sample_store_eq(2) _ later] sample_admin_active
    by (simp add: sample_store_def Let_def)
qed

lemma sample_login_ok:
  obtains user where "login sample_derivation sample_salt ''token'' 9 ''ann@norns.DEV'' ''secret'' sample_store =
      (Inr (''token'', user), snd sample_login)" "sm_id user = ''user_1''"
proof -
  have "account_of ''user_1'' (normalized_email ''ann@norns.DEV'')
      (current_hash sample_derivation ''secret'' sample_salt) sample_store"
    by (simp add: account_of_def sample_store_eq sample_ann_def sample_emails)
  from login_account [OF sample_store_run this, where salt' = sample_salt and token = "''token''" and now = 9
      and q = "''secret''"] that show thesis
    by (cases "login sample_derivation sample_salt ''token'' 9 ''ann@norns.DEV'' ''secret'' sample_store")
       (auto simp: sample_login_def split: sum.splits prod.splits)
qed

theorem session_exact_witness:
  "userForToken ''token'' (fold (do_user_call sample_derivation) (sample_later @ [UC_logout ''token'']) (snd sample_login)) = None"
proof -
  let ?later = "sample_later @ [UC_logout ''token'']"
  obtain user where l: "login sample_derivation sample_salt ''token'' 9 ''ann@norns.DEV'' ''secret'' sample_store =
      (Inr (''token'', user), snd sample_login)" "sm_id user = ''user_1''"
    by (rule sample_login_ok)
  have run: "users_run sample_derivation (account_calls @ [UC_login sample_salt ''token'' 9 ''ann@norns.DEV'' ''secret'']) new_user_store"
    using sample_store_eq by (simp add: obeys_append sample_store_def)
  have later: "users_run sample_derivation ?later s" for s by (simp add: sample_later_def)
  have "list_all (unrelated ''token'' (sm_id user)) ?later" using l(2) by (simp add: sample_later_def)
  from session_exact [OF run l(1) [unfolded sample_store_def] later this] show ?thesis by simp
qed

theorem login_exact_witness:
  "case fst (login sample_derivation sample_salt ''token'' 9 ''ANN@norns.dev'' ''guess''
       (fold (do_user_call sample_derivation)
          [UC_createActive ''user_1'' sample_salt 5 sample_admin, UC_updateRole ''user_1'' UR_member] new_user_store)) of
      Inr (t, user) \<Rightarrow> sample_derivation ''guess'' sample_salt = sample_derivation ''secret'' sample_salt \<and> t = ''token''
          \<and> sm_id user = ''user_1''
    | Inl e \<Rightarrow> sample_derivation ''guess'' sample_salt \<noteq> sample_derivation ''secret'' sample_salt
          \<and> e = InvalidCredentialsError"
proof -
  have email: "normalized_email ''ANN@norns.dev'' = normalized_email (ca_email sample_admin)" by code_simp
  have pw: "ca_password sample_admin = ''secret''" by (simp add: sample_admin_def)
  have created: "fst (createActive sample_derivation ''user_1'' sample_salt 5 sample_admin new_user_store) =
      Inr (summarize (active_account sample_derivation ''user_1'' sample_salt 5 sample_admin))"
    by (simp add: createActive_eq new_user_store_def byEmail_def)
  show ?thesis
    using login_exact [where derive = sample_derivation and salt = sample_salt and i = sample_admin
        and later = "[UC_updateRole ''user_1'' UR_member]" and s = new_user_store and calls = "[]", OF _ _ _ _ created _ email, where salt' = sample_salt and token = "''token''"
        and now' = 9 and q = "''guess''", unfolded pw]
    by (simp add: new_user_store_def)
qed

end
