(* ===== verification/Workspace_Broker.thy ===== *)
theory Workspace_Broker
  imports Replay
begin

section \<open>Requests to the workspace of a runner\<close>

text \<open>
  \<^verbatim>\<open>apps/server/src/runners/workspaceBroker.ts\<close>: requests that the server sends to a connected runner and
  correlates with its answers, and the short-lived tokens for what a user has selected. A promise is
  what it was settled with: \<open>wb_settled\<close> lists the settlements in their order. A request made by \<^verbatim>\<open>initiate\<close>
  is collected by polling; its settlement is put into the outcomes by a continuation that runs before any
  other event is handled, so both are one step here. An operation reads the clock once. What \<^verbatim>\<open>send\<close> answers, identifiers and the clock are
  arguments. Only the members of a response that the broker or its clients read are named; the others are
  the payload.
\<close>

subsection \<open>Requests and responses\<close>

datatype workspace_operation =
    WO_list | WO_catalog | WO_browse | WO_validate | WO_choose | WO_choose_clone_parent | WO_clone
  | WO_inspect | WO_graphify_status | WO_graphify_index | WO_graphify_query | WO_delete

datatype workspace_status =
    WS_ok | WS_cancelled | WS_invalid_request | WS_not_found | WS_unavailable | WS_destination_exists | WS_clone_failed

record workspace_repository =
  wp_workspace_id :: ident
  wp_repository_id :: ident
  wp_repository_display_name :: string
  wp_default_branch :: string
  wp_observed_head :: string

record 'p workspace_response =
  wr_request_id :: ident
  wr_operation :: workspace_operation
  wr_status :: workspace_status
  wr_repository :: "workspace_repository option"
  wr_payload :: 'p

datatype broker_error = BE_runner_unavailable | BE_runner_upgrade_required | BE_request_limit | BE_timeout | BE_invalid_response

type_synonym 'p settlement = "broker_error + 'p workspace_response"

record pending_request =
  wq_runnerId :: ident
  wq_generation :: nat
  wq_operation :: workspace_operation
  wq_polled :: bool

record 'p workspace_broker =
  wb_pending :: "(ident, pending_request) jmap"
  wb_outcomes :: "(ident, millis \<times> 'p settlement) jmap"
  wb_settled :: "(ident \<times> 'p settlement) list"

definition new_broker :: "'p workspace_broker" where
  "new_broker = \<lparr>wb_pending = [], wb_outcomes = [], wb_settled = []\<rparr>"

record broker_options =
  bo_timeoutMs :: "millis option"
  bo_maxPerRunner :: "nat option"
  bo_outcomeTtlMs :: "millis option"

definition outcomeTtlMs :: "broker_options \<Rightarrow> millis" where
  "outcomeTtlMs opts = (case bo_outcomeTtlMs opts of Some n \<Rightarrow> n | None \<Rightarrow> 300000)"

definition maxPerRunner :: "broker_options \<Rightarrow> nat" where
  "maxPerRunner opts = (case bo_maxPerRunner opts of Some n \<Rightarrow> n | None \<Rightarrow> 4)"

definition request_timeout :: "broker_options \<Rightarrow> workspace_operation \<Rightarrow> millis" where
  "request_timeout opts op =
     (case bo_timeoutMs opts of
        Some n \<Rightarrow> n
      | None \<Rightarrow> if op = WO_graphify_index then 600000
                else if op \<in> {WO_choose, WO_choose_clone_parent, WO_clone} then 300000
                else if op \<in> {WO_inspect, WO_graphify_status, WO_graphify_query} then 20000
                else 8000)"

subsection \<open>The broker\<close>

definition settle_request :: "millis \<Rightarrow> ident \<Rightarrow> bool \<Rightarrow> 'p settlement \<Rightarrow> 'p workspace_broker \<Rightarrow> 'p workspace_broker" where
  "settle_request now rid polled x b =
     b\<lparr>wb_settled := wb_settled b @ [(rid, x)],
       wb_outcomes := (if polled then jset rid (now, x) (wb_outcomes b) else wb_outcomes b)\<rparr>"

definition drop_pending :: "ident \<Rightarrow> 'p workspace_broker \<Rightarrow> 'p workspace_broker" where
  "drop_pending rid b = b\<lparr>wb_pending := jdel rid (wb_pending b)\<rparr>"

definition pending_of :: "ident \<Rightarrow> 'p workspace_broker \<Rightarrow> nat" where
  "pending_of runner b = length (filter (\<lambda>q. wq_runnerId q = runner) (jvalues (wb_pending b)))"

definition startPending ::
  "broker_options \<Rightarrow> millis \<Rightarrow> ident \<Rightarrow> pending_request \<Rightarrow> bool \<Rightarrow> 'p workspace_broker \<Rightarrow> 'p workspace_broker" where
  "startPending opts now rid q sent b =
     (if maxPerRunner opts \<le> pending_of (wq_runnerId q) b
      then settle_request now rid (wq_polled q) (Inl BE_request_limit) b
      else (let b = b\<lparr>wb_pending := jset rid q (wb_pending b)\<rparr>
            in if sent then b
               else settle_request now rid (wq_polled q) (Inl BE_runner_unavailable) (drop_pending rid b)))"

text \<open>The timer of a request, which is cleared when the request ends another way.\<close>

definition request_times_out :: "millis \<Rightarrow> ident \<Rightarrow> 'p workspace_broker \<Rightarrow> 'p workspace_broker" where
  "request_times_out now rid b =
     (case jget (wb_pending b) rid of
        None \<Rightarrow> b
      | Some q \<Rightarrow> settle_request now rid (wq_polled q) (Inl BE_timeout) (drop_pending rid b))"

definition receive_response ::
  "millis \<Rightarrow> ident \<Rightarrow> nat \<Rightarrow> 'p workspace_response \<Rightarrow> 'p workspace_broker \<Rightarrow> bool \<times> 'p workspace_broker" where
  "receive_response now runner generation response b =
     (case jget (wb_pending b) (wr_request_id response) of
        None \<Rightarrow> (False, b)
      | Some q \<Rightarrow>
          if wq_runnerId q \<noteq> runner \<or> wq_generation q \<noteq> generation then (False, b)
          else (let b = drop_pending (wr_request_id response) b in
                if wq_operation q \<noteq> wr_operation response
                then (False, settle_request now (wr_request_id response) (wq_polled q) (Inl BE_invalid_response) b)
                else (True, settle_request now (wr_request_id response) (wq_polled q) (Inr response) b)))"

definition reject_all :: "millis \<Rightarrow> (ident \<times> pending_request) list \<Rightarrow> 'p workspace_broker \<Rightarrow> 'p workspace_broker" where
  "reject_all now entries b =
     fold (\<lambda>(rid, q) b. settle_request now rid (wq_polled q) (Inl BE_runner_unavailable) (drop_pending rid b)) entries b"

definition disconnect_runner :: "millis \<Rightarrow> ident \<Rightarrow> 'p workspace_broker \<Rightarrow> 'p workspace_broker" where
  "disconnect_runner now runner b =
     reject_all now (filter (\<lambda>(rid, q). wq_runnerId q = runner) (wb_pending b)) b"

definition close_broker :: "millis \<Rightarrow> 'p workspace_broker \<Rightarrow> 'p workspace_broker" where
  "close_broker now b = (reject_all now (wb_pending b) b)\<lparr>wb_pending := []\<rparr>"

datatype 'p workspace_poll = Poll_pending | Poll_ok "'p workspace_response" | Poll_error broker_error | Poll_unknown

definition pruneOutcomes :: "broker_options \<Rightarrow> millis \<Rightarrow> 'p workspace_broker \<Rightarrow> 'p workspace_broker" where
  "pruneOutcomes opts now b =
     b\<lparr>wb_outcomes := filter (\<lambda>(rid, settled_at, x). now - outcomeTtlMs opts < settled_at) (wb_outcomes b)\<rparr>"

definition poll_request :: "broker_options \<Rightarrow> millis \<Rightarrow> ident \<Rightarrow> 'p workspace_broker \<Rightarrow> 'p workspace_poll \<times> 'p workspace_broker" where
  "poll_request opts now rid b =
     (let b = pruneOutcomes opts now b in
      (case jget (wb_outcomes b) rid of
         Some (settled_at, Inr response) \<Rightarrow> Poll_ok response
       | Some (settled_at, Inl code) \<Rightarrow> Poll_error code
       | None \<Rightarrow> if jget (wb_pending b) rid = None then Poll_unknown else Poll_pending, b))"

subsection \<open>Selection tokens\<close>

record stored_selection =
  ss_userId :: ident
  ss_runner_id :: ident
  ss_runner_generation :: nat
  ss_repository :: workspace_repository
  ss_expires_at :: millis
  ss_reservation_id :: "ident option"

type_synonym selection_tokens = "(ident, stored_selection) jmap"

definition prune_selections :: "millis \<Rightarrow> selection_tokens \<Rightarrow> selection_tokens" where
  "prune_selections now ts = filter (\<lambda>(token, x). now < ss_expires_at x) ts"

definition issue_selection ::
  "millis \<Rightarrow> ident \<Rightarrow> ident \<Rightarrow> ident \<Rightarrow> nat \<Rightarrow> workspace_repository \<Rightarrow> selection_tokens \<Rightarrow> (ident \<times> millis) \<times> selection_tokens" where
  "issue_selection now token user runner generation repository ts =
     (let expires = now + 300000 in
      ((token, expires),
       jset token \<lparr>ss_userId = user, ss_runner_id = runner, ss_runner_generation = generation,
         ss_repository = repository, ss_expires_at = expires, ss_reservation_id = None\<rparr> (prune_selections now ts)))"

definition reserve_selection ::
  "millis \<Rightarrow> ident \<Rightarrow> ident \<Rightarrow> ident \<Rightarrow> selection_tokens \<Rightarrow> (ident \<times> stored_selection) option \<times> selection_tokens" where
  "reserve_selection now reservation user token ts =
     (let ts = prune_selections now ts in
      case jget ts token of
        None \<Rightarrow> (None, ts)
      | Some x \<Rightarrow>
          if ss_userId x \<noteq> user \<or> ss_reservation_id x \<notin> {None, Some []} then (None, ts)
          else (let x = x\<lparr>ss_reservation_id := Some reservation\<rparr> in (Some (reservation, x), jset token x ts)))"

definition commit_selection :: "ident \<Rightarrow> ident \<Rightarrow> selection_tokens \<Rightarrow> selection_tokens" where
  "commit_selection token reservation ts =
     (case jget ts token of
        Some x \<Rightarrow> if ss_reservation_id x = Some reservation then jdel token ts else ts
      | None \<Rightarrow> ts)"

definition release_selection :: "ident \<Rightarrow> ident \<Rightarrow> selection_tokens \<Rightarrow> selection_tokens" where
  "release_selection token reservation ts =
     (case jget ts token of
        Some x \<Rightarrow> if ss_reservation_id x = Some reservation then jset token (x\<lparr>ss_reservation_id := None\<rparr>) ts else ts
      | None \<Rightarrow> ts)"


subsection \<open>Collecting a choice\<close>

text \<open>
  The end of the route \<^verbatim>\<open>pollChoose\<close> of \<^verbatim>\<open>server.ts\<close>, for a user and the connected runner that the route has
  resolved: what the poll answers, with a new grant when a repository was chosen. \<open>current\<close> tells whether
  the connection that was resolved is still the reconciled one of the runner.
\<close>

datatype choose_reply =
    CR_pending
  | CR_not_found
  | CR_failure broker_error
  | CR_cancelled
  | CR_refused workspace_status
  | CR_runner_unavailable
  | CR_granted ident millis ident workspace_repository

definition pollChoose ::
  "broker_options \<Rightarrow> millis \<Rightarrow> bool \<Rightarrow> ident \<Rightarrow> ident \<Rightarrow> ident \<Rightarrow> nat \<Rightarrow> ident \<Rightarrow> 'p workspace_broker \<times> selection_tokens \<Rightarrow>
     choose_reply \<times> 'p workspace_broker \<times> selection_tokens" where
  "pollChoose opts now current token user runner generation rid = (\<lambda>(b, ts).
     case poll_request opts now rid b of
       (Poll_pending, b) \<Rightarrow> (CR_pending, b, ts)
     | (Poll_unknown, b) \<Rightarrow> (CR_not_found, b, ts)
     | (Poll_error code, b) \<Rightarrow> (CR_failure code, b, ts)
     | (Poll_ok response, b) \<Rightarrow>
         if wr_status response = WS_cancelled then (CR_cancelled, b, ts)
         else (case wr_repository response of
                 Some repository \<Rightarrow>
                   if wr_status response \<noteq> WS_ok then (CR_refused (wr_status response), b, ts)
                   else if \<not> current then (CR_runner_unavailable, b, ts)
                   else (case issue_selection now token user runner generation repository ts of
                           ((token, expires), ts) \<Rightarrow> (CR_granted token expires runner repository, b, ts))
               | None \<Rightarrow> (CR_refused (wr_status response), b, ts)))"

subsection \<open>The broker as an object\<close>

datatype 'p broker_call =
    BC_start ident pending_request bool millis
  | BC_timeout ident millis
  | BC_receive ident nat "'p workspace_response" millis
  | BC_disconnect ident millis
  | BC_close millis
  | BC_poll ident millis

fun do_broker_call :: "broker_options \<Rightarrow> 'p broker_call \<Rightarrow> 'p workspace_broker \<Rightarrow> 'p workspace_broker" where
  "do_broker_call opts (BC_start rid q sent now) b = startPending opts now rid q sent b"
| "do_broker_call opts (BC_timeout rid now) b = request_times_out now rid b"
| "do_broker_call opts (BC_receive runner generation response now) b =
     snd (receive_response now runner generation response b)"
| "do_broker_call opts (BC_disconnect runner now) b = disconnect_runner now runner b"
| "do_broker_call opts (BC_close now) b = close_broker now b"
| "do_broker_call opts (BC_poll rid now) b = snd (poll_request opts now rid b)"

text \<open>The identifier of a request is new.\<close>

fun broker_call_ok :: "'p broker_call \<Rightarrow> 'p workspace_broker \<Rightarrow> bool" where
  "broker_call_ok (BC_start rid q sent now) b \<longleftrightarrow>
     rid \<notin> set (jkeys (wb_pending b)) \<and> rid \<notin> set (map fst (wb_settled b))"
| "broker_call_ok _ b \<longleftrightarrow> True"

text \<open>
  Every call is made of three moves: a request becomes pending, a request ends, old outcomes are
  forgotten. A predicate that survives these survives every call.
\<close>

definition end_request :: "millis \<Rightarrow> ident \<Rightarrow> pending_request \<Rightarrow> 'p settlement \<Rightarrow> 'p workspace_broker \<Rightarrow> 'p workspace_broker" where
  "end_request now rid q x b = settle_request now rid (wq_polled q) x (drop_pending rid b)"

locale broker_moves =
  fixes opts :: broker_options and I :: "'p workspace_broker \<Rightarrow> bool" and asked :: "ident \<Rightarrow> pending_request \<Rightarrow> bool"
    and answer :: "ident \<Rightarrow> pending_request \<Rightarrow> 'p workspace_response \<Rightarrow> bool"
  assumes pending_wf: "I b \<Longrightarrow> jwf (wb_pending b)"
    and begins: "I b \<Longrightarrow> rid \<notin> set (jkeys (wb_pending b)) \<Longrightarrow> rid \<notin> set (map fst (wb_settled b)) \<Longrightarrow> asked rid q \<Longrightarrow>
      pending_of (wq_runnerId q) b < maxPerRunner opts \<Longrightarrow> I (b\<lparr>wb_pending := jset rid q (wb_pending b)\<rparr>)"
    and refused: "I b \<Longrightarrow> rid \<notin> set (jkeys (wb_pending b)) \<Longrightarrow> rid \<notin> set (map fst (wb_settled b)) \<Longrightarrow> asked rid q \<Longrightarrow>
      I (settle_request now rid (wq_polled q) (Inl e) b)"
    and ends: "I b \<Longrightarrow> jget (wb_pending b) rid = Some q \<Longrightarrow> (\<And>r. x = Inr r \<Longrightarrow> answer rid q r) \<Longrightarrow> I (end_request now rid q x b)"
    and prunes: "I b \<Longrightarrow> I (pruneOutcomes opts now b)"
begin

lemma reject_all_keeps:
  "I b \<Longrightarrow> distinct (map fst es) \<Longrightarrow> (\<And>rid q. (rid, q) \<in> set es \<Longrightarrow> jget (wb_pending b) rid = Some q) \<Longrightarrow> I (reject_all now es b)"
proof (induction es arbitrary: b)
  case (Cons e es)
  obtain rid q where e: "e = (rid, q)" by (rule prod.exhaust)
  let ?b = "end_request now rid q (Inl BE_runner_unavailable) b"
  have "I ?b" using Cons.prems(1,3) e by (intro ends) auto
  moreover have "jget (wb_pending ?b) r = Some p" if "(r, p) \<in> set es" for r p
  proof -
    have "r \<noteq> rid" using that Cons.prems(2) e by force
    with that Cons.prems(3) [of r p] show ?thesis by (simp add: end_request_def settle_request_def drop_pending_def)
  qed
  ultimately have "I (reject_all now es ?b)" using Cons.IH [of ?b] Cons.prems(2) by simp
  then show ?case by (simp add: reject_all_def e end_request_def)
qed (simp add: reject_all_def)

lemma reject_all_pending: "wb_pending (reject_all now es b) = fold jdel (map fst es) (wb_pending b)"
  by (induction es arbitrary: b) (auto simp: reject_all_def settle_request_def drop_pending_def)

lemma rejected_keys: "jkeys (fold jdel ks m) = filter (\<lambda>k. k \<notin> set ks) (jkeys m)"
  by (induction ks arbitrary: m) (auto simp: delete_keys removeAll_filter_not_eq intro!: filter_cong)

lemma nothing_pending: "wb_pending b = [] \<Longrightarrow> b\<lparr>wb_pending := []\<rparr> = b"
  by simp

lemma call_keeps:
  assumes "I b" "broker_call_ok c b"
    and "\<And>rid q sent now. c = BC_start rid q sent now \<Longrightarrow> asked rid q"
    and "\<And>runner generation r now q. c = BC_receive runner generation r now \<Longrightarrow> wq_runnerId q = runner \<Longrightarrow>
       wq_generation q = generation \<Longrightarrow> wq_operation q = wr_operation r \<Longrightarrow> answer (wr_request_id r) q r"
  shows "I (do_broker_call opts c b)"
proof (cases c)
  case (BC_start rid q sent now)
  with assms have a: "rid \<notin> set (jkeys (wb_pending b))" "rid \<notin> set (map fst (wb_settled b))" "asked rid q" by auto
  let ?b = "b\<lparr>wb_pending := jset rid q (wb_pending b)\<rparr>"
  show ?thesis
  proof (cases "maxPerRunner opts \<le> pending_of (wq_runnerId q) b")
    case True
    with refused [OF assms(1) a] BC_start show ?thesis by (simp add: startPending_def)
  next
    case False
    then have "I ?b" using begins [OF assms(1) a] by simp
    with False ends [OF this, of rid q "Inl BE_runner_unavailable"] BC_start show ?thesis
      by (simp add: startPending_def Let_def end_request_def)
  qed
next
  case (BC_timeout rid now)
  with ends [OF assms(1), of rid _ "Inl BE_timeout"] assms(1) show ?thesis
    by (auto simp: request_times_out_def end_request_def split: option.splits)
next
  case (BC_receive runner generation r now)
  show ?thesis
  proof (cases "jget (wb_pending b) (wr_request_id r)")
    case None
    with BC_receive assms(1) show ?thesis by (simp add: receive_response_def)
  next
    case (Some q)
    with ends [OF assms(1) Some, of "Inl BE_invalid_response" now] ends [OF assms(1) Some, of "Inr r" now] BC_receive
      assms(1) assms(4) [of runner generation r now q]
    show ?thesis by (auto simp: receive_response_def end_request_def Let_def)
  qed
next
  case (BC_disconnect runner now)
  have "I (reject_all now (filter (\<lambda>(rid, q). wq_runnerId q = runner) (wb_pending b)) b)"
    using assms(1) pending_wf [OF assms(1)]
    by (intro reject_all_keeps) (auto simp: distinct_map_filter jget_of_mem)
  with BC_disconnect show ?thesis by (simp add: disconnect_runner_def)
next
  case (BC_close now)
  have "I (reject_all now (wb_pending b) b)"
    using assms(1) pending_wf [OF assms(1)] by (intro reject_all_keeps) (auto simp: jget_of_mem)
  moreover have "wb_pending (reject_all now (wb_pending b) b) = []"
    using rejected_keys [of "jkeys (wb_pending b)" "wb_pending b"] by (simp add: reject_all_pending filter_empty_conv)
  ultimately show ?thesis using BC_close by (simp add: close_broker_def nothing_pending)
next
  case (BC_poll rid now)
  with prunes [OF assms(1)] show ?thesis by (simp add: poll_request_def Let_def)
qed

end

subsection \<open>Every request ends at most once, by its own runner\<close>

definition broker_ok :: "broker_options \<Rightarrow> 'p workspace_broker \<Rightarrow> bool" where
  "broker_ok opts b \<longleftrightarrow> jwf (wb_pending b) \<and> distinct (map fst (wb_settled b))
     \<and> set (jkeys (wb_pending b)) \<inter> set (map fst (wb_settled b)) = {}
     \<and> (\<forall>runner. pending_of runner b \<le> maxPerRunner opts)
     \<and> (\<forall>rid t x. (rid, t, x) \<in> set (wb_outcomes b) \<longrightarrow> (rid, x) \<in> set (wb_settled b))"

definition answered_by :: "'p broker_call list \<Rightarrow> ident \<Rightarrow> pending_request \<Rightarrow> 'p workspace_response \<Rightarrow> bool" where
  "answered_by calls rid q r \<longleftrightarrow> wr_request_id r = rid \<and> wr_operation r = wq_operation q
     \<and> (\<exists>now. BC_receive (wq_runnerId q) (wq_generation q) r now \<in> set calls)"

definition asked_in :: "'p broker_call list \<Rightarrow> ident \<Rightarrow> pending_request \<Rightarrow> bool" where
  "asked_in calls rid q \<longleftrightarrow> (\<exists>sent now. BC_start rid q sent now \<in> set calls)"

definition authentic :: "'p broker_call list \<Rightarrow> 'p workspace_broker \<Rightarrow> bool" where
  "authentic calls b \<longleftrightarrow> (\<forall>rid q. jget (wb_pending b) rid = Some q \<longrightarrow> asked_in calls rid q)
     \<and> (\<forall>rid r. (rid, Inr r) \<in> set (wb_settled b) \<longrightarrow> (\<exists>q. asked_in calls rid q \<and> answered_by calls rid q r))"

lemma jvalues_jdel_filter: "jvalues (jdel k m) = map snd (filter (\<lambda>p. fst p \<noteq> k) m)"
  by (induction m) auto

lemma pending_of_drop: "pending_of runner (drop_pending rid b) \<le> pending_of runner b"
proof -
  have "length (filter P (jvalues (jdel k m))) \<le> length (filter P (jvalues m))" for P k and m :: "(ident, pending_request) jmap"
    by (induction m) auto
  then show ?thesis by (simp add: pending_of_def drop_pending_def)
qed

lemma pending_of_add:
  "rid \<notin> set (jkeys (wb_pending b)) \<Longrightarrow> pending_of runner (b\<lparr>wb_pending := jset rid q (wb_pending b)\<rparr>) =
     pending_of runner b + (if wq_runnerId q = runner then 1 else 0)"
  by (simp add: pending_of_def jset_fresh)

lemma pending_of_settle [simp]: "pending_of runner (settle_request now rid polled x b) = pending_of runner b"
  by (simp add: pending_of_def settle_request_def)

lemma outcomes_settle:
  "(r, t, y) \<in> set (wb_outcomes (settle_request now rid polled x b)) \<Longrightarrow> (r, t, y) \<in> set (wb_outcomes b) \<or> (r, y) = (rid, x)"
proof -
  have "(r, v) \<in> set (jset rid w m) \<Longrightarrow> (r, v) \<in> set m \<or> (r, v) = (rid, w)" for v w and m :: "(ident, millis \<times> 'a settlement) jmap"
    by (induction m) (auto split: if_splits)
  then show "(r, t, y) \<in> set (wb_outcomes (settle_request now rid polled x b)) \<Longrightarrow> ?thesis"
    by (fastforce simp: settle_request_def split: if_splits)
qed

lemma settle_fields [simp]:
  "wb_pending (settle_request now rid polled x b) = wb_pending b"
  "wb_settled (settle_request now rid polled x b) = wb_settled b @ [(rid, x)]"
  "wb_pending (drop_pending rid b) = jdel rid (wb_pending b)" "wb_settled (drop_pending rid b) = wb_settled b"
  "wb_outcomes (drop_pending rid b) = wb_outcomes b"
  "wb_pending (pruneOutcomes opts now b) = wb_pending b" "wb_settled (pruneOutcomes opts now b) = wb_settled b"
  by (simp_all add: settle_request_def drop_pending_def pruneOutcomes_def)

lemma broker_okD:
  assumes "broker_ok opts b"
  shows "jwf (wb_pending b)" "distinct (map fst (wb_settled b))"
    "set (jkeys (wb_pending b)) \<inter> set (map fst (wb_settled b)) = {}" "pending_of runner b \<le> maxPerRunner opts"
    "(rid, t, x) \<in> set (wb_outcomes b) \<Longrightarrow> (rid, x) \<in> set (wb_settled b)"
  using assms unfolding broker_ok_def by blast+

lemma broker_ok_settle:
  assumes "broker_ok opts b" "rid \<notin> set (jkeys (wb_pending b))" "rid \<notin> set (map fst (wb_settled b))"
  shows "broker_ok opts (settle_request now rid polled x b)"
  unfolding broker_ok_def
proof (intro conjI allI impI)
  fix r t y
  assume "(r, t, y) \<in> set (wb_outcomes (settle_request now rid polled x b))"
  from outcomes_settle [OF this] broker_okD(5) [OF assms(1)]
  show "(r, y) \<in> set (wb_settled (settle_request now rid polled x b))" by auto
qed (use assms(2,3) broker_okD(1-4) [OF assms(1)] in auto)

lemma broker_ok_drop:
  assumes "broker_ok opts b"
  shows "broker_ok opts (drop_pending rid b)"
  unfolding broker_ok_def
proof (intro conjI allI impI)
  show "pending_of runner (drop_pending rid b) \<le> maxPerRunner opts" for runner
    using pending_of_drop [of runner rid b] broker_okD(4) [OF assms, of runner] by linarith
  show "set (jkeys (wb_pending (drop_pending rid b))) \<inter> set (map fst (wb_settled (drop_pending rid b))) = {}"
    using broker_okD(3) [OF assms] by (auto simp: delete_keys simp del: set_map)
qed (use broker_okD(1,2,5) [OF assms] in auto)

lemma broker_ok_ends:
  assumes "broker_ok opts b" "jget (wb_pending b) rid = Some q"
  shows "broker_ok opts (end_request now rid q x b)"
proof -
  have "rid \<notin> set (map fst (wb_settled b))"
    using assms jget_key [OF assms(2)] unfolding broker_ok_def by blast
  then show ?thesis unfolding end_request_def
    by (intro broker_ok_settle broker_ok_drop assms(1)) (simp_all add: delete_keys)
qed

lemma broker_ok_begins:
  assumes "broker_ok opts b" "rid \<notin> set (jkeys (wb_pending b))" "rid \<notin> set (map fst (wb_settled b))"
    and "pending_of (wq_runnerId q) b < maxPerRunner opts"
  shows "broker_ok opts (b\<lparr>wb_pending := jset rid q (wb_pending b)\<rparr>)"
  unfolding broker_ok_def
proof (intro conjI allI impI)
  show "pending_of runner (b\<lparr>wb_pending := jset rid q (wb_pending b)\<rparr>) \<le> maxPerRunner opts" for runner
    using pending_of_add [OF assms(2), of runner q] assms(4) broker_okD(4) [OF assms(1), of runner] by auto
qed (use assms(2,3) broker_okD(1-3,5) [OF assms(1)] in \<open>auto simp: jset_fresh [OF assms(2)]\<close>)

lemma broker_ok_prunes: "broker_ok opts b \<Longrightarrow> broker_ok opts (pruneOutcomes opts' now b)"
  by (auto simp: broker_ok_def pruneOutcomes_def pending_of_def)

interpretation broker_counts: broker_moves opts "broker_ok opts" "\<lambda>_ _. True" "\<lambda>_ _ _. True" for opts
  by unfold_locales (use broker_okD(1) in \<open>auto intro: broker_ok_begins broker_ok_settle broker_ok_ends broker_ok_prunes\<close>)

lemma authentic_ends:
  assumes "authentic calls b" "jget (wb_pending b) rid = Some q" "\<And>r. x = Inr r \<Longrightarrow> answered_by calls rid q r"
  shows "authentic calls (end_request now rid q x b)"
  using assms by (auto simp: authentic_def end_request_def)

interpretation broker_answers: broker_moves opts "\<lambda>b. broker_ok opts b \<and> authentic calls b" "asked_in calls" "answered_by calls"
  for opts calls
proof (unfold_locales, goal_cases)
  case (2 b rid q)
  then show ?case using broker_ok_begins [of opts b rid q] by (auto simp: authentic_def)
next
  case (3 b rid q now e)
  then show ?case using broker_ok_settle [of opts b rid] by (auto simp: authentic_def)
next
  case (4 b rid q x now)
  then show ?case using broker_ok_ends authentic_ends by blast
qed (auto simp: authentic_def broker_ok_prunes intro: broker_okD(1))

abbreviation broker_run :: "broker_options \<Rightarrow> 'p broker_call list \<Rightarrow> 'p workspace_broker \<Rightarrow> bool" where
  "broker_run opts \<equiv> obeys (do_broker_call opts) broker_call_ok"

lemma asked_mono: "set cs \<subseteq> set ds \<Longrightarrow> asked_in cs rid q \<Longrightarrow> asked_in ds rid q"
  by (auto simp: asked_in_def)

lemma authentic_mono: "set cs \<subseteq> set ds \<Longrightarrow> authentic cs b \<Longrightarrow> authentic ds b"
  unfolding authentic_def asked_in_def answered_by_def by (meson subsetD)

lemma broker_run_ok:
  "broker_run opts calls new_broker \<Longrightarrow>
     broker_ok opts (fold (do_broker_call opts) calls new_broker) \<and> authentic calls (fold (do_broker_call opts) calls new_broker)"
proof (induction calls rule: rev_induct)
  case (snoc c calls)
  let ?b = "fold (do_broker_call opts) calls new_broker"
  from snoc.prems have run: "broker_run opts calls new_broker" "broker_call_ok c ?b" by (simp_all add: obeys_append)
  with snoc.IH authentic_mono [of calls "calls @ [c]" ?b] have "broker_ok opts ?b \<and> authentic (calls @ [c]) ?b" by auto
  from broker_answers.call_keeps [OF this run(2)] show ?case
    by (auto simp: asked_in_def answered_by_def)
qed (simp add: new_broker_def broker_ok_def authentic_def pending_of_def)

text \<open>C17: A request to a runner ends at most once, and only its own runner answers it. Whatever responses arrive
  and however connections, timeouts and polls interleave, no request is settled twice or both pending and
  settled, a runner never has more than the allowed number of requests pending, and a response is handed
  to the requester only when it came over the connection of the runner and the generation that the
  request was sent to and is for the operation that was asked.\<close>

theorem requests_answered_once:
  assumes "broker_run opts calls new_broker"
  defines "b \<equiv> fold (do_broker_call opts) calls new_broker"
  shows "distinct (map fst (wb_settled b)) \<and> set (jkeys (wb_pending b)) \<inter> set (map fst (wb_settled b)) = {}
    \<and> pending_of runner b \<le> maxPerRunner opts
    \<and> ((rid, Inr r) \<in> set (wb_settled b) \<longrightarrow> (\<exists>q sent now now'. BC_start rid q sent now \<in> set calls
         \<and> BC_receive (wq_runnerId q) (wq_generation q) r now' \<in> set calls
         \<and> wr_request_id r = rid \<and> wr_operation r = wq_operation q))"
proof -
  from broker_run_ok [OF assms(1)] have ok: "broker_ok opts b" "authentic calls b" by (simp_all add: b_def)
  note k = broker_okD [OF ok(1)]
  from k(2,3) k(4) [of runner] ok(2) show ?thesis
    unfolding authentic_def asked_in_def answered_by_def by blast
qed

subsection \<open>Polling\<close>

fun broker_call_time :: "'p broker_call \<Rightarrow> millis" where
  "broker_call_time (BC_start rid q sent now) = now"
| "broker_call_time (BC_timeout rid now) = now"
| "broker_call_time (BC_receive runner generation r now) = now"
| "broker_call_time (BC_disconnect runner now) = now"
| "broker_call_time (BC_close now) = now"
| "broker_call_time (BC_poll rid now) = now"

text \<open>A request that has ended, with what is remembered of it.\<close>

definition ended_with :: "ident \<Rightarrow> (millis \<times> 'p settlement) option \<Rightarrow> 'p workspace_broker \<Rightarrow> bool" where
  "ended_with rid v b \<longleftrightarrow> jget (wb_outcomes b) rid = v \<and> jwf (wb_outcomes b)
     \<and> rid \<notin> set (jkeys (wb_pending b)) \<and> rid \<in> set (map fst (wb_settled b))"

definition remembered :: "broker_options \<Rightarrow> millis \<Rightarrow> (millis \<times> 'p settlement) option \<Rightarrow> (millis \<times> 'p settlement) option" where
  "remembered opts now v = (case v of Some (t, x) \<Rightarrow> if now - outcomeTtlMs opts < t then v else None | None \<Rightarrow> None)"

lemma jget_filter_snd:
  "jwf m \<Longrightarrow> jget (filter (\<lambda>(k, v). P v) m) k = (case jget m k of None \<Rightarrow> None | Some v \<Rightarrow> if P v then Some v else None)"
  by (induction m) (auto simp: jget_None_iff split: option.splits dest: jget_key)

lemma ended_settle: "ended_with rid v b \<Longrightarrow> r \<noteq> rid \<Longrightarrow> ended_with rid v (settle_request now r polled y b)"
  by (auto simp: ended_with_def settle_request_def simp del: map_of_eq_Some_iff)

lemma ended_drop: "ended_with rid v b \<Longrightarrow> ended_with rid v (drop_pending r b)"
  by (auto simp: ended_with_def delete_keys simp del: set_map)

lemma ended_reject_all: "ended_with rid v b \<Longrightarrow> rid \<notin> fst ` set es \<Longrightarrow> ended_with rid v (reject_all now es b)"
proof (induction es arbitrary: b)
  case (Cons e es)
  then have "fst e \<noteq> rid" "rid \<notin> fst ` set es" by auto
  with Cons.IH [OF ended_settle [OF ended_drop [OF Cons.prems(1)] this(1)]] show ?case
    by (simp add: reject_all_def case_prod_unfold)
qed (simp add: reject_all_def)

lemma ended_prune: "ended_with rid v b \<Longrightarrow> ended_with rid (remembered opts now v) (pruneOutcomes opts now b)"
  using jget_filter_snd [of "wb_outcomes b" "\<lambda>(t, x). now - outcomeTtlMs opts < t" rid]
  by (auto simp: ended_with_def pruneOutcomes_def remembered_def distinct_map_filter split: option.splits)

lemma ended_call:
  assumes e: "ended_with rid v b" and ok: "broker_call_ok c b"
  shows "ended_with rid (case c of BC_poll r now \<Rightarrow> remembered opts now v | _ \<Rightarrow> v) (do_broker_call opts c b)"
proof -
  have free: "rid \<notin> fst ` set (wb_pending b)" "jget (wb_pending b) rid = None"
    using e by (auto simp: ended_with_def jget_None_iff)
  show ?thesis
  proof (cases c)
    case (BC_start r q sent now)
    with e ok have r: "r \<noteq> rid" by (auto simp: ended_with_def)
    then have "ended_with rid v (b\<lparr>wb_pending := jset r q (wb_pending b)\<rparr>)"
      using e by (auto simp: ended_with_def jkeys_jset simp del: set_map)
    with BC_start r e show ?thesis by (simp add: startPending_def Let_def ended_drop ended_settle)
  next
    case (BC_timeout r now)
    with free e show ?thesis
      by (cases "r = rid") (auto simp: request_times_out_def ended_drop ended_settle split: option.splits)
  next
    case (BC_receive runner generation r now)
    with free e show ?thesis
      by (cases "wr_request_id r = rid")
         (auto simp: receive_response_def Let_def ended_drop ended_settle split: option.splits)
  next
    case (BC_disconnect runner now)
    have "rid \<notin> fst ` set (filter (\<lambda>(rid, q). wq_runnerId q = runner) (wb_pending b))" using free(1) by auto
    with ended_reject_all [OF e] BC_disconnect show ?thesis by (simp add: disconnect_runner_def)
  next
    case (BC_close now)
    with ended_reject_all [OF e free(1)] show ?thesis by (simp add: close_broker_def ended_with_def)
  next
    case (BC_poll r now)
    with ended_prune [OF e] show ?thesis by (simp add: poll_request_def Let_def)
  qed
qed

lemma remembered_cases: "remembered opts now v = v \<or> remembered opts now v = None"
  by (auto simp: remembered_def split: option.splits)

lemma ended_run:
  "broker_run opts later b \<Longrightarrow> ended_with rid v b \<Longrightarrow>
     \<exists>v'. ended_with rid v' (fold (do_broker_call opts) later b) \<and> (v' = v \<or> v' = None)
       \<and> (list_all (\<lambda>c. remembered opts (broker_call_time c) v = v) later \<longrightarrow> v' = v)"
proof (induction later arbitrary: b v)
  case (Cons c later)
  let ?v = "case c of BC_poll r now \<Rightarrow> remembered opts now v | _ \<Rightarrow> v"
  from Cons.prems have "ended_with rid ?v (do_broker_call opts c b)" by (intro ended_call) simp_all
  moreover have "?v = v \<or> ?v = None" using remembered_cases [of opts _ v] by (auto split: broker_call.splits)
  moreover have "remembered opts (broker_call_time c) v = v \<Longrightarrow> ?v = v" by (auto split: broker_call.splits)
  ultimately show ?case using Cons.IH [of "do_broker_call opts c b" ?v] Cons.prems(1) by auto
qed auto

lemma poll_ended:
  assumes "ended_with rid v b"
  shows "fst (poll_request opts now rid b) =
     (case remembered opts now v of None \<Rightarrow> Poll_unknown | Some (t, Inr r) \<Rightarrow> Poll_ok r | Some (t, Inl e) \<Rightarrow> Poll_error e)"
  using ended_prune [OF assms, of opts now]
  by (auto simp: poll_request_def Let_def ended_with_def jget_None_iff simp del: map_of_eq_Some_iff
      split: option.splits sum.splits)


lemma wf_settle: "jwf (wb_outcomes b) \<Longrightarrow> jwf (wb_outcomes (settle_request now rid polled x b))"
  by (simp add: settle_request_def)

lemma wf_reject_all: "jwf (wb_outcomes b) \<Longrightarrow> jwf (wb_outcomes (reject_all now es b))"
  by (induction es arbitrary: b) (auto simp: reject_all_def wf_settle)

lemma outcomes_wf: "broker_run opts calls new_broker \<Longrightarrow> jwf (wb_outcomes (fold (do_broker_call opts) calls new_broker))"
proof (induction calls rule: rev_induct)
  case (snoc c calls)
  let ?b = "fold (do_broker_call opts) calls new_broker"
  have "jwf (wb_outcomes ?b)" using snoc by (simp add: obeys_append)
  then show ?case
    by (cases c) (auto simp: startPending_def request_times_out_def receive_response_def disconnect_runner_def
        close_broker_def poll_request_def Let_def wf_settle wf_reject_all pruneOutcomes_def distinct_map_filter
        split: option.splits)
qed (simp add: new_broker_def)

text \<open>Polling is repeatable. When a poll has answered with a response or an error, every later poll of that
  request gives the same answer or says that the request is unknown, whatever happened in between, and
  it gives the same answer while the outcome is younger than its time to live at every intervening call; it
  never goes back to pending and never changes.\<close>

theorem poll_repeatable:
  assumes "broker_run opts calls new_broker" and "poll_request opts now rid (fold (do_broker_call opts) calls new_broker) = (r, b)"
    and "r \<noteq> Poll_pending" "r \<noteq> Poll_unknown"
    and "broker_run opts later b"
  shows "\<exists>t. fst (poll_request opts now' rid (fold (do_broker_call opts) later b)) \<in> {r, Poll_unknown}
     \<and> jget (wb_outcomes b) rid = Some t
     \<and> (list_all (\<lambda>c. broker_call_time c < fst t + outcomeTtlMs opts) later \<longrightarrow> now' < fst t + outcomeTtlMs opts \<longrightarrow>
          fst (poll_request opts now' rid (fold (do_broker_call opts) later b)) = r)"
proof -
  let ?b = "fold (do_broker_call opts) calls new_broker"
  have ok: "broker_ok opts ?b" using broker_run_ok [OF assms(1)] by blast
  have b: "b = pruneOutcomes opts now ?b" using assms(2) by (simp add: poll_request_def Let_def)
  from assms(2-4) obtain t where t: "jget (wb_outcomes b) rid = Some t"
    and r: "r = (case snd t of Inr x \<Rightarrow> Poll_ok x | Inl e \<Rightarrow> Poll_error e)"
    unfolding b by (auto simp: poll_request_def Let_def simp del: map_of_eq_Some_iff split: option.splits sum.splits if_splits)
  have wf: "jwf (wb_outcomes b)" using outcomes_wf [OF assms(1)] unfolding b by (simp add: pruneOutcomes_def distinct_map_filter)
  have ok': "broker_ok opts b" unfolding b using broker_ok_prunes [OF ok] .
  have "(rid, snd t) \<in> set (wb_settled b)" using broker_okD(5) [OF ok'] jget_mem [OF t] by (metis prod.collapse)
  then have "rid \<in> set (map fst (wb_settled b))" by force
  with t wf broker_okD(3) [OF ok'] have "ended_with rid (Some t) b" unfolding ended_with_def by blast
  from ended_run [OF assms(5) this] obtain v where v: "ended_with rid v (fold (do_broker_call opts) later b)"
    "v = Some t \<or> v = None" "list_all (\<lambda>c. remembered opts (broker_call_time c) (Some t) = Some t) later \<Longrightarrow> v = Some t"
    by blast
  obtain n x where tx: "t = (n, x)" by (rule prod.exhaust)
  have m: "remembered opts k (Some t) = (if k < fst t + outcomeTtlMs opts then Some t else None)" for k
    by (auto simp: remembered_def tx)
  let ?p = "fst (poll_request opts now' rid (fold (do_broker_call opts) later b))"
  have p: "?p = (if v = Some t \<and> now' < fst t + outcomeTtlMs opts then r else Poll_unknown)"
    unfolding poll_ended [OF v(1)] using v(2) r m [of now'] by (auto simp: tx remembered_def split: sum.splits)
  have "v = Some t" if "list_all (\<lambda>c. broker_call_time c < fst t + outcomeTtlMs opts) later"
    using that by (intro v(3)) (simp add: m list_all_iff)
  with p have "?p \<in> {r, Poll_unknown}" "list_all (\<lambda>c. broker_call_time c < fst t + outcomeTtlMs opts) later \<Longrightarrow>
      now' < fst t + outcomeTtlMs opts \<Longrightarrow> ?p = r"
    by simp_all
  with t show ?thesis by blast
qed

subsection \<open>A selection is used once\<close>

datatype selection_call =
    SC_issue millis ident ident ident nat workspace_repository
  | SC_reserve millis ident ident ident
  | SC_commit ident ident
  | SC_release ident ident

fun do_selection_call :: "selection_call \<Rightarrow> selection_tokens \<Rightarrow> selection_tokens" where
  "do_selection_call (SC_issue now token user runner generation r) ts = snd (issue_selection now token user runner generation r ts)"
| "do_selection_call (SC_reserve now reservation user token) ts = snd (reserve_selection now reservation user token ts)"
| "do_selection_call (SC_commit token reservation) ts = commit_selection token reservation ts"
| "do_selection_call (SC_release token reservation) ts = release_selection token reservation ts"

text \<open>The token is gone or held by the reservation.\<close>

definition held_or_gone :: "ident \<Rightarrow> ident \<Rightarrow> selection_tokens \<Rightarrow> bool" where
  "held_or_gone token reservation ts \<longleftrightarrow> jwf ts \<and>
     (\<forall>x. jget ts token = Some x \<longrightarrow> ss_reservation_id x = Some reservation)"

lemma held_prune: "held_or_gone token reservation ts \<Longrightarrow> held_or_gone token reservation (prune_selections now ts)"
  using jget_filter_snd [of ts "\<lambda>x. now < ss_expires_at x" token]
  by (auto simp: held_or_gone_def prune_selections_def distinct_map_filter simp del: map_of_eq_Some_iff split: option.splits)

fun leaves_reservation :: "ident \<Rightarrow> ident \<Rightarrow> selection_call \<Rightarrow> bool" where
  "leaves_reservation token reservation (SC_issue now t user runner generation r) \<longleftrightarrow> t \<noteq> token"
| "leaves_reservation token reservation (SC_release t r) \<longleftrightarrow> \<not> (t = token \<and> r = reservation)"
| "leaves_reservation token reservation _ \<longleftrightarrow> True"

lemma held_reserve:
  assumes "held_or_gone token reservation ts" "reservation \<noteq> []"
  shows "fst (reserve_selection now r user token ts) = None"
  using held_prune [OF assms(1), of now] assms(2)
  by (auto simp: reserve_selection_def held_or_gone_def Let_def simp del: map_of_eq_Some_iff split: option.splits)

lemma held_call:
  assumes "held_or_gone token reservation ts" "leaves_reservation token reservation c" "reservation \<noteq> []"
  shows "held_or_gone token reservation (do_selection_call c ts)"
proof (cases c)
  case (SC_reserve now r user t)
  with held_prune [OF assms(1), of now] assms(3) show ?thesis
    by (auto simp: reserve_selection_def held_or_gone_def Let_def simp del: map_of_eq_Some_iff split: option.splits)
qed (use assms held_prune [OF assms(1)] in
  \<open>auto simp: issue_selection_def commit_selection_def release_selection_def held_or_gone_def Let_def
     simp del: map_of_eq_Some_iff split: option.splits\<close>)

interpretation reservation: object_invariant do_selection_call "\<lambda>c ts. leaves_reservation token r c"
  "\<lambda>ts. r \<noteq> [] \<longrightarrow> held_or_gone token r ts" for token r
  by unfold_locales (simp add: held_call)

text \<open>C18: A selection is spent once, by the user it was issued to. A reservation is granted only to the user of the
  token and before it expires; from then on, whatever anybody reserves, commits, releases or issues,
  nobody reserves the same token again until this reservation itself is released, so that after its
  commit the token is never accepted again.\<close>

theorem selection_used_once:
  assumes "reserve_selection now r user token (fold do_selection_call calls []) = (Some (r', x), ts)"
    and "r \<noteq> []" and "list_all (leaves_reservation token r) later"
  shows "r' = r \<and> ss_userId x = user \<and> now < ss_expires_at x
     \<and> fst (reserve_selection now' r2 user2 token (fold do_selection_call later ts)) = None"
proof -
  have wf: "jwf (fold do_selection_call calls [])"
  proof (induction calls rule: rev_induct)
    case (snoc c calls)
    then show ?case
      by (cases c) (auto simp: issue_selection_def reserve_selection_def commit_selection_def release_selection_def
          prune_selections_def distinct_map_filter Let_def split: option.splits)
  qed simp
  let ?ts = "fold do_selection_call calls []"
  from assms(1) obtain y where y: "jget (prune_selections now ?ts) token = Some y" "ss_userId y = user" "r' = r"
    "x = y\<lparr>ss_reservation_id := Some r\<rparr>" "ts = jset token x (prune_selections now ?ts)"
    by (auto simp: reserve_selection_def Let_def simp del: map_of_eq_Some_iff split: option.splits if_splits)
  then have live: "now < ss_expires_at x"
    using jget_mem [OF y(1)] by (auto simp: prune_selections_def)
  have "held_or_gone token r ts" using y wf by (simp add: held_or_gone_def prune_selections_def distinct_map_filter)
  then have "held_or_gone token r (fold do_selection_call later ts)"
    using reservation.calls_keep [of token r later ts] assms(2,3) by (simp add: obeys_stateless)
  from held_reserve [OF this assms(2)] y live show ?thesis by simp
qed

text \<open>
  The grants themselves are not bound to one choice. The outcome of a choice stays available to every poll
  for its time to live, and the route neither remembers who asked for it nor that it was granted: each poll of
  a chosen repository, by any user who knows the request and for any connected runner, issues one more
  grant.
\<close>

lemma choice_granted_again:
  assumes "jget (wb_outcomes b) rid = Some (t, Inr response)" "jwf (wb_outcomes b)" "now < t + outcomeTtlMs opts"
    and "wr_status response = WS_ok" "wr_repository response = Some repository"
  obtains ts' where "pollChoose opts now True token user runner generation rid (b, ts) =
      (CR_granted token (now + 300000) runner repository, pruneOutcomes opts now b, ts')"
    "jget ts' token = Some \<lparr>ss_userId = user, ss_runner_id = runner, ss_runner_generation = generation,
       ss_repository = repository, ss_expires_at = now + 300000, ss_reservation_id = None\<rparr>"
    "jget (wb_outcomes (pruneOutcomes opts now b)) rid = Some (t, Inr response)"
proof -
  have k: "jget (wb_outcomes (pruneOutcomes opts now b)) rid = Some (t, Inr response)"
    using jget_filter_snd [OF assms(2), of "\<lambda>(t, x). now - outcomeTtlMs opts < t" rid] assms(1,3)
    by (simp add: pruneOutcomes_def)
  then have "poll_request opts now rid b = (Poll_ok response, pruneOutcomes opts now b)"
    by (simp add: poll_request_def Let_def)
  with k assms(4,5) show thesis
    by (intro that [of "snd (issue_selection now token user runner generation repository ts)"])
       (simp_all add: pollChoose_def issue_selection_def Let_def)
qed


subsection \<open>A sample choice\<close>

definition sample_repository :: workspace_repository where
  "sample_repository = \<lparr>wp_workspace_id = ''w'', wp_repository_id = ''repo'', wp_repository_display_name = ''norns'',
     wp_default_branch = ''main'', wp_observed_head = ''abc1234''\<rparr>"

definition choice_response :: "unit workspace_response" where
  "choice_response = \<lparr>wr_request_id = ''q1'', wr_operation = WO_choose, wr_status = WS_ok,
     wr_repository = Some sample_repository, wr_payload = ()\<rparr>"

definition default_options :: broker_options where
  "default_options = \<lparr>bo_timeoutMs = None, bo_maxPerRunner = None, bo_outcomeTtlMs = None\<rparr>"

definition choose_request :: pending_request where
  "choose_request = \<lparr>wq_runnerId = ''r1'', wq_generation = 3, wq_operation = WO_choose, wq_polled = True\<rparr>"

definition choice_calls :: "unit broker_call list" where
  "choice_calls = [BC_start ''q1'' choose_request True 0, BC_poll ''q1'' 5,
     BC_receive ''r2'' 3 choice_response 6, BC_receive ''r1'' 2 choice_response 7,
     BC_receive ''r1'' 3 choice_response 8, BC_receive ''r1'' 3 choice_response 9]"

definition choice_broker :: "unit workspace_broker" where
  "choice_broker = fold (do_broker_call default_options) choice_calls new_broker"

lemma choice_facts:
  "broker_run default_options choice_calls new_broker"
  "wb_settled choice_broker = [(''q1'', Inr choice_response)]"
  "poll_request default_options 10 ''q1'' choice_broker = (Poll_ok choice_response, choice_broker)"
  "broker_run default_options [BC_disconnect ''r1'' 20, BC_poll ''q1'' 30] choice_broker"
  by code_simp+

theorem requests_answered_once_witness:
  "\<exists>q sent now now'. BC_start ''q1'' q sent now \<in> set choice_calls
     \<and> BC_receive (wq_runnerId q) (wq_generation q) choice_response now' \<in> set choice_calls
     \<and> wr_request_id choice_response = ''q1'' \<and> wr_operation choice_response = wq_operation q"
  using requests_answered_once [OF choice_facts(1), of "''r1''" "''q1''" choice_response]
  by (simp add: choice_broker_def [symmetric] choice_facts(2))

theorem poll_repeatable_witness:
  "fst (poll_request default_options 400000 ''q1'' (fold (do_broker_call default_options)
     [BC_disconnect ''r1'' 20, BC_poll ''q1'' 30] choice_broker)) \<in> {Poll_ok choice_response, Poll_unknown}"
  using poll_repeatable [OF choice_facts(1) choice_facts(3) [unfolded choice_broker_def] _ _ choice_facts(4) [unfolded choice_broker_def],
      of 400000]
  unfolding choice_broker_def by blast

definition issued_tokens :: selection_tokens where
  "issued_tokens = fold do_selection_call [SC_issue 10 ''t'' ''ann'' ''r1'' 3 sample_repository] []"

theorem selection_used_once_witness:
  "fst (reserve_selection 30 ''res2'' ''ann'' ''t'' (fold do_selection_call
     [SC_reserve 21 ''res3'' ''ann'' ''t'', SC_commit ''t'' ''res''] (snd (reserve_selection 20 ''res'' ''ann'' ''t'' issued_tokens)))) = None"
proof -
  have "fst (reserve_selection 20 ''res'' ''ann'' ''t'' issued_tokens) \<noteq> None" by code_simp
  then obtain r' x where "reserve_selection 20 ''res'' ''ann'' ''t'' issued_tokens =
      (Some (r', x), snd (reserve_selection 20 ''res'' ''ann'' ''t'' issued_tokens))"
    by (metis option.exhaust prod.exhaust prod.collapse)
  from selection_used_once [OF this [unfolded issued_tokens_def], of "[SC_reserve 21 ''res3'' ''ann'' ''t'', SC_commit ''t'' ''res'']"]
  show ?thesis by (simp add: issued_tokens_def)
qed


end
