(* ===== verification/Device_Journal.thy ===== *)
theory Device_Journal
  imports Canonical_Json Replay
begin

section \<open>The journal of cancellations of a device\<close>

text \<open>
  \<^verbatim>\<open>apps/runner/src/deviceCancellationJournal.ts\<close>: the evidence that a cancellation was received and that its
  process has exited, kept in a file until the server has acknowledged both. The file holds the journal
  itself (parsing what was serialized gives it back); the text is only needed for its size. A write can
  fail before or after the file was replaced. \<open>date_ok\<close> tells whether \<^verbatim>\<open>Date.parse\<close> understands a string.
\<close>

subsection \<open>Records\<close>

record evidence =
  ev_run_id :: ident
  ev_acknowledged_at :: string
  ev_acknowledged_server_acked :: bool
  ev_process_exited_at :: "string option"
  ev_process_tree_reaped :: bool
  ev_process_exited_server_acked :: bool

record device_identity =
  di_device_id :: ident
  di_credential_id :: ident
  di_generation :: int

record journal_file = device_identity +
  jf_evidence :: "evidence list"

datatype evidence_state = ES_runner_acknowledged | ES_process_exited

datatype journal_error =
    JX_too_large
  | JX_malformed
  | JX_other_generation
  | JX_invalid_acknowledgement
  | JX_full
  | JX_invalid_exit_timestamp
  | JX_not_acknowledged
  | JX_no_proof
  | JX_write_failed

definition MAX_CANCELLATION_EVIDENCE_RECORDS :: nat where "MAX_CANCELLATION_EVIDENCE_RECORDS = 1000"
definition MAX_CANCELLATION_JOURNAL_BYTES :: int where "MAX_CANCELLATION_JOURNAL_BYTES = 1048576"

definition plain_id_char :: "char \<Rightarrow> bool" where
  "plain_id_char c \<longleftrightarrow> (let n = of_char c in 65 \<le> n \<and> n \<le> (90 :: int) \<or> 97 \<le> n \<and> n \<le> 122 \<or> 48 \<le> n \<and> n \<le> 57
     \<or> n \<in> {45, 46, 58, 95})"

definition hexadecimal :: "char \<Rightarrow> bool" where
  "hexadecimal c \<longleftrightarrow> (let n = of_char c in 48 \<le> n \<and> n \<le> (57 :: int) \<or> 65 \<le> n \<and> n \<le> 70 \<or> 97 \<le> n \<and> n \<le> 102)"

fun opaque_chars :: "string \<Rightarrow> bool" where
  "opaque_chars [] \<longleftrightarrow> True"
| "opaque_chars (c # s) \<longleftrightarrow>
     (if plain_id_char c then opaque_chars s
      else c = CHR ''%'' \<and> (case s of a # b # r \<Rightarrow> hexadecimal a \<and> hexadecimal b \<and> opaque_chars r | _ \<Rightarrow> False))"

definition validOpaqueId :: "string \<Rightarrow> bool" where
  "validOpaqueId s \<longleftrightarrow> s \<noteq> [] \<and> length s \<le> 200 \<and> opaque_chars s"

subsection \<open>The file\<close>

definition json_bool :: "bool \<Rightarrow> string" where "json_bool b = (if b then ''true'' else ''false'')"

definition json_field :: "string \<Rightarrow> string \<Rightarrow> string" where
  "json_field k v = json_string k @ '':'' @ v"

definition evidence_json :: "evidence \<Rightarrow> string" where
  "evidence_json e = ''{'' @ join '','' [
     json_field ''run_id'' (json_string (ev_run_id e)),
     json_field ''acknowledged_at'' (json_string (ev_acknowledged_at e)),
     json_field ''acknowledged_server_acked'' (json_bool (ev_acknowledged_server_acked e)),
     json_field ''process_exited_at'' (case ev_process_exited_at e of None \<Rightarrow> ''null'' | Some t \<Rightarrow> json_string t),
     json_field ''process_tree_reaped'' (json_bool (ev_process_tree_reaped e)),
     json_field ''process_exited_server_acked'' (json_bool (ev_process_exited_server_acked e))] @ ''}''"

definition journal_json :: "journal_file \<Rightarrow> string" where
  "journal_json f = ''{'' @ join '','' [
     json_field ''version'' ''1'',
     json_field ''device_id'' (json_string (di_device_id f)),
     json_field ''credential_id'' (json_string (di_credential_id f)),
     json_field ''generation'' ((if di_generation f < 0 then ''-'' else '''') @ dec (nat \<bar>di_generation f\<bar>)),
     json_field ''evidence'' (''['' @ join '','' (map evidence_json (jf_evidence f)) @ '']'')] @ ''}''"

definition utf8_length :: "string \<Rightarrow> int" where
  "utf8_length s = sum_list (map (\<lambda>c. if of_char c < (128 :: int) then 1 else 2) s)"

definition evidence_wellformed :: "(string \<Rightarrow> bool) \<Rightarrow> evidence \<Rightarrow> bool" where
  "evidence_wellformed date_ok e \<longleftrightarrow> validOpaqueId (ev_run_id e) \<and> date_ok (ev_acknowledged_at e)
     \<and> (case ev_process_exited_at e of
          None \<Rightarrow> \<not> ev_process_tree_reaped e \<and> \<not> ev_process_exited_server_acked e
        | Some t \<Rightarrow> date_ok t \<and> ev_process_tree_reaped e)"

text \<open>\<^verbatim>\<open>map\<close> with the set of the run identifiers seen so far.\<close>

fun parse_evidence :: "(string \<Rightarrow> bool) \<Rightarrow> ident list \<Rightarrow> evidence list \<Rightarrow> bool" where
  "parse_evidence date_ok seen [] \<longleftrightarrow> True"
| "parse_evidence date_ok seen (e # es) \<longleftrightarrow>
     ev_run_id e \<notin> set seen \<and> evidence_wellformed date_ok e \<and> parse_evidence date_ok (ev_run_id e # seen) es"

definition parseJournal :: "(string \<Rightarrow> bool) \<Rightarrow> journal_file \<Rightarrow> journal_error + journal_file" where
  "parseJournal date_ok f =
     (if utf8_length (journal_json f) > MAX_CANCELLATION_JOURNAL_BYTES then Inl JX_too_large
      else if \<not> validOpaqueId (di_device_id f) \<or> \<not> validOpaqueId (di_credential_id f)
           \<or> di_generation f < 0 \<or> di_generation f > 2 ^ 53 - 1
           \<or> length (jf_evidence f) > MAX_CANCELLATION_EVIDENCE_RECORDS then Inl JX_malformed
      else if \<not> parse_evidence date_ok [] (jf_evidence f) then Inl JX_malformed
      else Inr f)"

subsection \<open>The journal\<close>

record journal =
  jn_state :: journal_file
  jn_disk :: "journal_file option"

datatype write_outcome = WR_done | WR_failed_before | WR_failed_after

type_synonym 'a journal_op = "(journal, journal_error, 'a) action"

definition persist_journal :: "write_outcome \<Rightarrow> unit journal_op" where
  "persist_journal w =
     and_then (guarding (\<lambda>j. utf8_length (journal_json (jn_state j)) \<le> MAX_CANCELLATION_JOURNAL_BYTES) (\<lambda>_. JX_too_large)) (\<lambda>_.
       case w of
         WR_failed_before \<Rightarrow> throwing JX_write_failed
       | WR_done \<Rightarrow> modifying (\<lambda>j. j\<lparr>jn_disk := Some (jn_state j)\<rparr>)
       | WR_failed_after \<Rightarrow> and_then (modifying (\<lambda>j. j\<lparr>jn_disk := Some (jn_state j)\<rparr>)) (\<lambda>_. throwing JX_write_failed))"

definition empty_file :: "device_identity \<Rightarrow> journal_file" where
  "empty_file i = \<lparr>di_device_id = di_device_id i, di_credential_id = di_credential_id i,
     di_generation = di_generation i, jf_evidence = []\<rparr>"

text \<open>The constructor, for what is on disk.\<close>

definition open_journal :: "(string \<Rightarrow> bool) \<Rightarrow> device_identity \<Rightarrow> write_outcome \<Rightarrow> journal_file option \<Rightarrow> (journal_error + unit) \<times> journal" where
  "open_journal date_ok i w disk =
     (case disk of
        Some f \<Rightarrow>
          (case parseJournal date_ok f of
             Inl e \<Rightarrow> (Inl e, \<lparr>jn_state = f, jn_disk = disk\<rparr>)
           | Inr g \<Rightarrow>
               (if di_device_id g \<noteq> di_device_id i \<or> di_credential_id g \<noteq> di_credential_id i \<or> di_generation g \<noteq> di_generation i
                then Inl JX_other_generation else Inr (), \<lparr>jn_state = g, jn_disk = disk\<rparr>))
      | None \<Rightarrow> persist_journal w \<lparr>jn_state = empty_file i, jn_disk = None\<rparr>)"

definition find_evidence :: "ident \<Rightarrow> evidence list \<Rightarrow> evidence option" where
  "find_evidence run es = List.find (\<lambda>e. ev_run_id e = run) es"

text \<open>A record is changed in place: the first with its run identifier.\<close>

fun change_evidence :: "ident \<Rightarrow> (evidence \<Rightarrow> evidence) \<Rightarrow> evidence list \<Rightarrow> evidence list" where
  "change_evidence run f [] = []"
| "change_evidence run f (e # es) = (if ev_run_id e = run then f e # es else e # change_evidence run f es)"

fun drop_evidence :: "ident \<Rightarrow> evidence list \<Rightarrow> evidence list" where
  "drop_evidence run [] = []"
| "drop_evidence run (e # es) = (if ev_run_id e = run then es else e # drop_evidence run es)"

definition on_evidence :: "(evidence list \<Rightarrow> evidence list) \<Rightarrow> unit journal_op" where
  "on_evidence f = modifying (\<lambda>j. j\<lparr>jn_state := (jn_state j)\<lparr>jf_evidence := f (jf_evidence (jn_state j))\<rparr>\<rparr>)"

definition journal_records :: "journal \<Rightarrow> evidence list" where
  "journal_records j = jf_evidence (jn_state j)"

definition acknowledge :: "(string \<Rightarrow> bool) \<Rightarrow> write_outcome \<Rightarrow> ident \<Rightarrow> string \<Rightarrow> evidence journal_op" where
  "acknowledge date_ok w runId acknowledgedAt =
     and_then (guarding (\<lambda>_. validOpaqueId runId \<and> date_ok acknowledgedAt) (\<lambda>_. JX_invalid_acknowledgement)) (\<lambda>_.
     and_then (reading (\<lambda>j. find_evidence runId (journal_records j))) (\<lambda>existing.
       case existing of
         Some e \<Rightarrow> returning e
       | None \<Rightarrow>
           and_then (guarding (\<lambda>j. length (journal_records j) < MAX_CANCELLATION_EVIDENCE_RECORDS) (\<lambda>_. JX_full)) (\<lambda>_.
             let record = \<lparr>ev_run_id = runId, ev_acknowledged_at = acknowledgedAt, ev_acknowledged_server_acked = False,
               ev_process_exited_at = None, ev_process_tree_reaped = False, ev_process_exited_server_acked = False\<rparr>
             in and_then (on_evidence (\<lambda>es. es @ [record])) (\<lambda>_.
                and_then (persist_journal w) (\<lambda>_. returning record)))))"

definition exited :: "string \<Rightarrow> evidence \<Rightarrow> evidence" where
  "exited moment e = e\<lparr>ev_process_exited_at := Some moment, ev_process_tree_reaped := True, ev_process_exited_server_acked := False\<rparr>"

definition recordProcessExited :: "(string \<Rightarrow> bool) \<Rightarrow> write_outcome \<Rightarrow> ident \<Rightarrow> string \<Rightarrow> evidence journal_op" where
  "recordProcessExited date_ok w runId processExitedAt =
     and_then (guarding (\<lambda>_. date_ok processExitedAt) (\<lambda>_. JX_invalid_exit_timestamp)) (\<lambda>_.
     and_then (reading (\<lambda>j. find_evidence runId (journal_records j))) (\<lambda>existing.
       case existing of
         None \<Rightarrow> throwing JX_not_acknowledged
       | Some e \<Rightarrow>
           if ev_process_exited_at e \<noteq> None then returning e
           else and_then (on_evidence (change_evidence runId (exited processExitedAt))) (\<lambda>_.
                and_then (persist_journal w) (\<lambda>_. returning (exited processExitedAt e)))))"

definition marked_acked :: "evidence_state \<Rightarrow> evidence \<Rightarrow> evidence" where
  "marked_acked st e = (case st of
     ES_runner_acknowledged \<Rightarrow> e\<lparr>ev_acknowledged_server_acked := True\<rparr>
   | ES_process_exited \<Rightarrow> e\<lparr>ev_process_exited_server_acked := True\<rparr>)"

definition already_marked :: "evidence_state \<Rightarrow> evidence \<Rightarrow> bool" where
  "already_marked st e \<longleftrightarrow> (case st of
     ES_runner_acknowledged \<Rightarrow> ev_acknowledged_server_acked e | ES_process_exited \<Rightarrow> ev_process_exited_server_acked e)"

definition settled_evidence :: "evidence \<Rightarrow> bool" where
  "settled_evidence e \<longleftrightarrow> ev_acknowledged_server_acked e \<and> ev_process_exited_server_acked e"

definition markServerAcknowledged :: "write_outcome \<Rightarrow> ident \<Rightarrow> evidence_state \<Rightarrow> unit journal_op" where
  "markServerAcknowledged w runId st =
     and_then (reading (\<lambda>j. find_evidence runId (journal_records j))) (\<lambda>existing.
       case existing of
         None \<Rightarrow> returning ()
       | Some e \<Rightarrow>
           and_then (guarding (\<lambda>_. st = ES_process_exited \<longrightarrow> ev_process_exited_at e \<noteq> None \<and> ev_process_tree_reaped e)
             (\<lambda>_. JX_no_proof)) (\<lambda>_.
           if already_marked st e then returning ()
           else and_then (on_evidence (\<lambda>es. let es' = change_evidence runId (marked_acked st) es
                                             in if settled_evidence (marked_acked st e) then drop_evidence runId es' else es')) (\<lambda>_.
                persist_journal w)))"

subsection \<open>The journal as an object\<close>

text \<open>A restart opens the file again, whatever the memory held.\<close>

datatype journal_call =
    JC_acknowledge write_outcome ident string
  | JC_exited write_outcome ident string
  | JC_marked write_outcome ident evidence_state
  | JC_restart write_outcome

fun do_journal_call :: "(string \<Rightarrow> bool) \<Rightarrow> device_identity \<Rightarrow> journal_call \<Rightarrow> journal \<Rightarrow> journal" where
  "do_journal_call date_ok i (JC_acknowledge w run moment) j = snd (acknowledge date_ok w run moment j)"
| "do_journal_call date_ok i (JC_exited w run moment) j = snd (recordProcessExited date_ok w run moment j)"
| "do_journal_call date_ok i (JC_marked w run st) j = snd (markServerAcknowledged w run st j)"
| "do_journal_call date_ok i (JC_restart w) j = snd (open_journal date_ok i w (jn_disk j))"

definition identity_ok :: "device_identity \<Rightarrow> bool" where
  "identity_ok i \<longleftrightarrow> validOpaqueId (di_device_id i) \<and> validOpaqueId (di_credential_id i)
     \<and> 0 \<le> di_generation i \<and> di_generation i \<le> 2 ^ 53 - 1"

definition evidence_ok :: "(string \<Rightarrow> bool) \<Rightarrow> evidence list \<Rightarrow> bool" where
  "evidence_ok date_ok es \<longleftrightarrow> distinct (map ev_run_id es) \<and> length es \<le> MAX_CANCELLATION_EVIDENCE_RECORDS
     \<and> list_all (evidence_wellformed date_ok) es \<and> list_all (\<lambda>e. \<not> settled_evidence e) es"

definition journal_file_ok :: "(string \<Rightarrow> bool) \<Rightarrow> device_identity \<Rightarrow> journal_file \<Rightarrow> bool" where
  "journal_file_ok date_ok i f \<longleftrightarrow> di_device_id f = di_device_id i \<and> di_credential_id f = di_credential_id i
     \<and> di_generation f = di_generation i \<and> evidence_ok date_ok (jf_evidence f)"

definition journal_ok :: "(string \<Rightarrow> bool) \<Rightarrow> device_identity \<Rightarrow> journal \<Rightarrow> bool" where
  "journal_ok date_ok i j \<longleftrightarrow> journal_file_ok date_ok i (jn_state j)
     \<and> (\<forall>f. jn_disk j = Some f \<longrightarrow> journal_file_ok date_ok i f \<and> utf8_length (journal_json f) \<le> MAX_CANCELLATION_JOURNAL_BYTES)"

lemma parse_evidence_iff:
  "parse_evidence date_ok seen es \<longleftrightarrow> distinct (map ev_run_id es) \<and> set (map ev_run_id es) \<inter> set seen = {}
     \<and> list_all (evidence_wellformed date_ok) es"
  by (induction es arbitrary: seen) auto

lemma parse_file_ok:
  assumes "identity_ok i" "journal_file_ok date_ok i f" "utf8_length (journal_json f) \<le> MAX_CANCELLATION_JOURNAL_BYTES"
  shows "parseJournal date_ok f = Inr f"
  using assms by (simp add: parseJournal_def journal_file_ok_def identity_ok_def evidence_ok_def parse_evidence_iff)

lemma find_evidence_SomeD: "find_evidence run es = Some e \<Longrightarrow> e \<in> set es \<and> ev_run_id e = run"
  by (auto simp: find_evidence_def find_Some_iff)

lemma find_evidence_None: "find_evidence run es = None \<longleftrightarrow> run \<notin> set (map ev_run_id es)"
  by (auto simp: find_evidence_def find_None_iff)

lemma find_evidence_Nil [simp]: "find_evidence run [] = None"
  by (simp add: find_evidence_def)

lemma find_evidence_Cons [simp]:
  "find_evidence run (e # es) = (if ev_run_id e = run then Some e else find_evidence run es)"
  by (simp add: find_evidence_def)

lemma change_ids: "(\<And>e. ev_run_id (f e) = ev_run_id e) \<Longrightarrow> map ev_run_id (change_evidence run f es) = map ev_run_id es"
  by (induction es) auto

lemma change_length [simp]: "length (change_evidence run f es) = length es"
  by (induction es) auto

lemma change_all:
  "list_all P es \<Longrightarrow> (\<And>e. find_evidence run es = Some e \<Longrightarrow> P (f e)) \<Longrightarrow> list_all P (change_evidence run f es)"
  by (induction es) auto

lemma find_change:
  "(\<And>e. ev_run_id (f e) = ev_run_id e) \<Longrightarrow> find_evidence r (change_evidence run f es) =
     (if r = run then map_option f (find_evidence r es) else find_evidence r es)"
  by (induction es) auto

lemma drop_ids: "set (map ev_run_id (drop_evidence run es)) \<subseteq> set (map ev_run_id es)"
  by (induction es) auto

lemma find_drop:
  "distinct (map ev_run_id es) \<Longrightarrow> find_evidence r (drop_evidence run es) = (if r = run then None else find_evidence r es)"
  by (induction es) (auto simp: find_evidence_None)

lemma drop_distinct: "distinct (map ev_run_id es) \<Longrightarrow> distinct (map ev_run_id (drop_evidence run es))"
  by (induction es) (use drop_ids in auto)

lemma drop_all: "list_all P es \<Longrightarrow> list_all P (drop_evidence run es)"
  by (induction es) auto

lemma drop_length: "length (drop_evidence run es) \<le> length es"
  by (induction es) auto

lemma marked_id [simp]: "ev_run_id (marked_acked st e) = ev_run_id e" "ev_run_id (exited t e) = ev_run_id e"
  by (simp_all add: marked_acked_def exited_def split: evidence_state.splits)

lemma drop_changed_all:
  assumes "distinct (map ev_run_id es)" "\<And>e. ev_run_id (f e) = ev_run_id e" "list_all P es"
  shows "list_all P (drop_evidence run (change_evidence run f es))"
  using assms by (induction es) auto

subsection \<open>What a call writes\<close>

text \<open>An operation changes the records in memory by one function and writes the result, or fails to.\<close>

lemma persist_cases:
  obtains "persist_journal w j = (Inr (), j\<lparr>jn_disk := Some (jn_state j)\<rparr>)" "w = WR_done"
      "utf8_length (journal_json (jn_state j)) \<le> MAX_CANCELLATION_JOURNAL_BYTES"
  | e where "persist_journal w j = (Inl e, j)"
  | "persist_journal w j = (Inl JX_write_failed, j\<lparr>jn_disk := Some (jn_state j)\<rparr>)" "w = WR_failed_after"
      "utf8_length (journal_json (jn_state j)) \<le> MAX_CANCELLATION_JOURNAL_BYTES"
  by (cases "utf8_length (journal_json (jn_state j)) \<le> MAX_CANCELLATION_JOURNAL_BYTES"; cases w)
     (simp_all add: persist_journal_def method_simps)

lemma persist_keeps_ok:
  assumes "journal_ok date_ok i j"
  shows "journal_ok date_ok i (snd (persist_journal w j))"
  by (rule persist_cases [of w j]) (use assms in \<open>auto simp: journal_ok_def\<close>)

lemma on_evidence_ok:
  assumes "journal_ok date_ok i j" "evidence_ok date_ok (f (journal_records j))"
  shows "journal_ok date_ok i (snd (on_evidence f j))"
  using assms by (simp add: on_evidence_def journal_ok_def journal_file_ok_def journal_records_def)

lemma journal_ok_records: "journal_ok date_ok i j \<Longrightarrow> evidence_ok date_ok (journal_records j)"
  by (simp add: journal_ok_def journal_file_ok_def journal_records_def)

definition new_evidence :: "ident \<Rightarrow> string \<Rightarrow> evidence" where
  "new_evidence run moment = \<lparr>ev_run_id = run, ev_acknowledged_at = moment, ev_acknowledged_server_acked = False,
     ev_process_exited_at = None, ev_process_tree_reaped = False, ev_process_exited_server_acked = False\<rparr>"

definition write_records :: "write_outcome \<Rightarrow> (evidence list \<Rightarrow> evidence list) \<Rightarrow> journal \<Rightarrow> journal" where
  "write_records w f j = snd (persist_journal w (snd (on_evidence f j)))"

definition after_mark :: "ident \<Rightarrow> evidence_state \<Rightarrow> evidence \<Rightarrow> evidence list \<Rightarrow> evidence list" where
  "after_mark run st e es = (let es' = change_evidence run (marked_acked st) es
     in if settled_evidence (marked_acked st e) then drop_evidence run es' else es')"

lemma acknowledge_cases:
  obtains "snd (acknowledge date_ok w run moment j) = j"
  | "validOpaqueId run" "date_ok moment" "find_evidence run (journal_records j) = None"
      "length (journal_records j) < MAX_CANCELLATION_EVIDENCE_RECORDS"
      "snd (acknowledge date_ok w run moment j) = write_records w (\<lambda>es. es @ [new_evidence run moment]) j"
proof (cases "validOpaqueId run \<and> date_ok moment \<and> find_evidence run (journal_records j) = None
    \<and> length (journal_records j) < MAX_CANCELLATION_EVIDENCE_RECORDS")
  case True
  have "snd (and_then (persist_journal w) (\<lambda>_. returning r) k) = snd (persist_journal w k)" for r :: evidence and k
    by (simp add: and_then_def split: prod.splits sum.splits)
  with True that(2) show thesis
    by (simp add: acknowledge_def and_then_def [of "on_evidence _"] and_then_def [of "guarding _ _"] and_then_def [of "reading _"]
        guarding_apply on_evidence_def write_records_def new_evidence_def Let_def)
next
  case False
  then show thesis
    by (intro that(1)) (auto simp: acknowledge_def and_then_def [of "guarding _ _"] and_then_def [of "reading _"]
        guarding_apply split: option.splits)
qed

lemma exited_cases:
  obtains "snd (recordProcessExited date_ok w run moment j) = j"
  | e where "date_ok moment" "find_evidence run (journal_records j) = Some e" "ev_process_exited_at e = None"
      "snd (recordProcessExited date_ok w run moment j) = write_records w (change_evidence run (exited moment)) j"
proof (cases "date_ok moment \<and> (\<exists>e. find_evidence run (journal_records j) = Some e \<and> ev_process_exited_at e = None)")
  case True
  then obtain e where e: "date_ok moment" "find_evidence run (journal_records j) = Some e" "ev_process_exited_at e = None"
    by blast
  have "snd (and_then (persist_journal w) (\<lambda>_. returning r) k) = snd (persist_journal w k)" for r :: evidence and k
    by (simp add: and_then_def split: prod.splits sum.splits)
  with e that(2) show thesis
    by (simp add: recordProcessExited_def and_then_def [of "on_evidence _"] and_then_def [of "guarding _ _"]
        and_then_def [of "reading _"] guarding_apply on_evidence_def write_records_def)
next
  case False
  then show thesis
    by (intro that(1)) (auto simp: recordProcessExited_def and_then_def [of "guarding _ _"] and_then_def [of "reading _"]
        guarding_apply split: option.splits)
qed

lemma marked_cases:
  obtains "snd (markServerAcknowledged w run st j) = j"
  | e where "find_evidence run (journal_records j) = Some e"
      "st = ES_process_exited \<Longrightarrow> ev_process_exited_at e \<noteq> None \<and> ev_process_tree_reaped e"
      "snd (markServerAcknowledged w run st j) = write_records w (after_mark run st e) j"
proof (cases "find_evidence run (journal_records j)")
  case None
  then show thesis by (intro that(1)) (simp add: markServerAcknowledged_def and_then_def)
next
  case (Some e)
  show thesis
  proof (cases "(st = ES_process_exited \<longrightarrow> ev_process_exited_at e \<noteq> None \<and> ev_process_tree_reaped e) \<and> \<not> already_marked st e")
    case True
    with Some that(2) [of e] show thesis
      by (simp add: markServerAcknowledged_def and_then_def [of "on_evidence _"] and_then_def [of "guarding _ _"]
          and_then_def [of "reading _"] guarding_apply on_evidence_def write_records_def after_mark_def [abs_def])
  next
    case False
    with Some show thesis
      by (intro that(1)) (auto simp: markServerAcknowledged_def and_then_def [of "guarding _ _"] and_then_def [of "reading _"]
          guarding_apply)
  qed
qed


subsection \<open>The file can always be opened again\<close>

lemma write_records_ok:
  assumes "journal_ok date_ok i j" "evidence_ok date_ok (f (journal_records j))"
  shows "journal_ok date_ok i (write_records w f j)"
  unfolding write_records_def by (intro persist_keeps_ok on_evidence_ok assms)

lemma evidence_ok_add:
  assumes "evidence_ok date_ok es" "validOpaqueId run" "date_ok moment" "find_evidence run es = None"
    "length es < MAX_CANCELLATION_EVIDENCE_RECORDS"
  shows "evidence_ok date_ok (es @ [new_evidence run moment])"
  using assms by (auto simp: evidence_ok_def find_evidence_None evidence_wellformed_def new_evidence_def settled_evidence_def)

lemma evidence_okD:
  "evidence_ok date_ok es \<Longrightarrow> find_evidence run es = Some e \<Longrightarrow> evidence_wellformed date_ok e \<and> \<not> settled_evidence e"
  by (auto simp: evidence_ok_def list_all_iff dest: find_evidence_SomeD)

lemma evidence_ok_exited:
  assumes "evidence_ok date_ok es" "date_ok moment" 
  shows "evidence_ok date_ok (change_evidence run (exited moment) es)"
proof -
  have "list_all (\<lambda>e. evidence_wellformed date_ok e \<and> \<not> settled_evidence e) (change_evidence run (exited moment) es)"
    using assms by (intro change_all)
      (auto simp: evidence_ok_def list_all_iff evidence_wellformed_def exited_def settled_evidence_def dest: find_evidence_SomeD)
  with assms show ?thesis by (simp add: evidence_ok_def change_ids list_all_iff)
qed

lemma evidence_ok_marked:
  assumes ok: "evidence_ok date_ok es" and e: "find_evidence run es = Some e"
    and proof_present: "st = ES_process_exited \<Longrightarrow> ev_process_exited_at e \<noteq> None \<and> ev_process_tree_reaped e"
  shows "evidence_ok date_ok (after_mark run st e es)"
proof -
  let ?es = "change_evidence run (marked_acked st) es"
  have "evidence_wellformed date_ok e" using evidence_okD [OF ok e] by blast
  then have "evidence_wellformed date_ok (marked_acked st e)"
    using proof_present by (cases st) (auto simp: evidence_wellformed_def marked_acked_def split: option.splits)
  then have wf: "list_all (evidence_wellformed date_ok) ?es"
    using ok e by (intro change_all) (auto simp: evidence_ok_def)
  have base: "distinct (map ev_run_id ?es)" "length ?es \<le> MAX_CANCELLATION_EVIDENCE_RECORDS"
    using ok by (simp_all add: evidence_ok_def change_ids)
  show ?thesis
  proof (cases "settled_evidence (marked_acked st e)")
    case True
    have "list_all (\<lambda>e. \<not> settled_evidence e) (drop_evidence run ?es)"
      using ok by (intro drop_changed_all) (simp_all add: evidence_ok_def)
    with True wf base drop_length [of run ?es] show ?thesis
      by (simp add: evidence_ok_def after_mark_def drop_distinct drop_all)
  next
    case False
    have "list_all (\<lambda>e. \<not> settled_evidence e) ?es"
      using ok False e by (intro change_all) (auto simp: evidence_ok_def)
    with False wf base show ?thesis by (simp add: evidence_ok_def after_mark_def)
  qed
qed

lemma open_disk:
  "identity_ok i \<Longrightarrow> journal_file_ok date_ok i f \<Longrightarrow> utf8_length (journal_json f) \<le> MAX_CANCELLATION_JOURNAL_BYTES \<Longrightarrow>
     open_journal date_ok i w (Some f) = (Inr (), \<lparr>jn_state = f, jn_disk = Some f\<rparr>)"
  by (simp add: open_journal_def parse_file_ok) (simp add: journal_file_ok_def)

lemma fresh_journal_ok: "journal_ok date_ok i (snd (open_journal date_ok i w None))"
proof -
  have "journal_ok date_ok i \<lparr>jn_state = empty_file i, jn_disk = None\<rparr>"
    by (simp add: journal_ok_def journal_file_ok_def empty_file_def evidence_ok_def)
  from persist_keeps_ok [OF this] show ?thesis by (simp add: open_journal_def)
qed

lemma journal_call_ok:
  assumes i: "identity_ok i" and ok: "journal_ok date_ok i j"
  shows "journal_ok date_ok i (do_journal_call date_ok i c j)"
proof (cases c)
  case (JC_acknowledge w run moment)
  show ?thesis
    by (rule acknowledge_cases [of date_ok w run moment j])
       (use JC_acknowledge ok journal_ok_records [OF ok] in \<open>auto intro: write_records_ok evidence_ok_add\<close>)
next
  case (JC_exited w run moment)
  show ?thesis
    by (rule exited_cases [of date_ok w run moment j])
       (use JC_exited ok journal_ok_records [OF ok] in \<open>auto intro: write_records_ok evidence_ok_exited\<close>)
next
  case (JC_marked w run st)
  show ?thesis
    by (rule marked_cases [of w run st j])
       (use JC_marked ok journal_ok_records [OF ok] in \<open>auto intro: write_records_ok evidence_ok_marked\<close>)
next
  case (JC_restart w)
  show ?thesis
  proof (cases "jn_disk j")
    case None
    with JC_restart fresh_journal_ok show ?thesis by simp
  next
    case (Some f)
    with ok open_disk [OF i, of date_ok f w] JC_restart show ?thesis by (auto simp: journal_ok_def)
  qed
qed

interpretation device_journal: object_invariant "do_journal_call date_ok i" "\<lambda>_ _. identity_ok i" "journal_ok date_ok i" for date_ok i
  by unfold_locales (rule journal_call_ok)

lemma obeys_identity: "identity_ok i \<Longrightarrow> obeys call (\<lambda>_ _. identity_ok i) cs s"
  by (induction cs arbitrary: s) auto

lemma journal_reachable:
  "identity_ok i \<Longrightarrow> journal_ok date_ok i (fold (do_journal_call date_ok i) calls (snd (open_journal date_ok i w None)))"
  by (rule device_journal.calls_keep [OF obeys_identity fresh_journal_ok])

text \<open>C29: The journal can always be opened again. Through any calls, with writes that fail before or after the file
  is replaced, and through restarts, the file on disk is one that the constructor accepts for the same
  credential and that gives back exactly the evidence it was written with: no two records of a run,
  no exit without its proof, none that was acknowledged twice over, and never more than the limits.\<close>

theorem journal_reopens:
  assumes "identity_ok i"
    and "j = fold (do_journal_call date_ok i) calls (snd (open_journal date_ok i w None))"
    and "jn_disk j = Some f"
  shows "open_journal date_ok i w' (Some f) = (Inr (), \<lparr>jn_state = f, jn_disk = Some f\<rparr>)
     \<and> evidence_ok date_ok (jf_evidence f)"
proof -
  have "journal_ok date_ok i j" using journal_reachable [OF assms(1)] assms(2) by simp
  with assms(3) have "journal_file_ok date_ok i f" "utf8_length (journal_json f) \<le> MAX_CANCELLATION_JOURNAL_BYTES"
    by (simp_all add: journal_ok_def)
  with open_disk [OF assms(1)] show ?thesis by (simp add: journal_file_ok_def)
qed

subsection \<open>Evidence without a proof of exit stays\<close>

definition unproven :: "ident \<Rightarrow> evidence list \<Rightarrow> bool" where
  "unproven run es \<longleftrightarrow> (\<exists>e. find_evidence run es = Some e \<and> ev_process_exited_at e = None)"

definition unproven_everywhere :: "ident \<Rightarrow> journal \<Rightarrow> bool" where
  "unproven_everywhere run j \<longleftrightarrow> unproven run (journal_records j)
     \<and> (\<forall>f. jn_disk j = Some f \<longrightarrow> unproven run (jf_evidence f)) \<and> jn_disk j \<noteq> None"

fun proves_exit :: "ident \<Rightarrow> journal_call \<Rightarrow> bool" where
  "proves_exit run (JC_exited w r moment) \<longleftrightarrow> r = run"
| "proves_exit run _ \<longleftrightarrow> False"

lemma unproven_write:
  assumes "unproven_everywhere run j" "unproven run (f (journal_records j))"
  shows "unproven_everywhere run (write_records w f j)"
  by (rule persist_cases [of w "snd (on_evidence f j)"])
     (use assms in \<open>auto simp: write_records_def on_evidence_def unproven_everywhere_def journal_records_def\<close>)

lemma find_append: "find_evidence r (es @ [e]) =
    (case find_evidence r es of Some x \<Rightarrow> Some x | None \<Rightarrow> if ev_run_id e = r then Some e else None)"
  by (induction es) auto

lemma unproven_call:
  assumes i: "identity_ok i" and ok: "journal_ok date_ok i j" and u: "unproven_everywhere run j" and c: "\<not> proves_exit run c"
  shows "unproven_everywhere run (do_journal_call date_ok i c j)"
proof -
  have mem: "unproven run (journal_records j)" using u by (simp add: unproven_everywhere_def)
  show ?thesis
  proof (cases c)
    case (JC_acknowledge w r moment)
    show ?thesis
      by (rule acknowledge_cases [of date_ok w r moment j])
         (use JC_acknowledge u mem in \<open>auto simp: unproven_def find_append intro: unproven_write\<close>)
  next
    case (JC_exited w r moment)
    with c have "r \<noteq> run" by simp
    then have "unproven run (change_evidence r (exited moment) (journal_records j))"
      using mem by (simp add: unproven_def find_change)
    with u have "unproven_everywhere run (write_records w (change_evidence r (exited moment)) j)"
      by (rule unproven_write)
    with JC_exited u show ?thesis by (cases rule: exited_cases [of date_ok w r moment j]) simp_all
  next
    case (JC_marked w r st)
    show ?thesis
    proof (rule marked_cases [of w r st j])
      fix e
      assume e: "find_evidence r (journal_records j) = Some e"
        and p: "st = ES_process_exited \<Longrightarrow> ev_process_exited_at e \<noteq> None \<and> ev_process_tree_reaped e"
        and w: "snd (markServerAcknowledged w r st j) = write_records w (after_mark r st e) j"
      have d: "distinct (map ev_run_id (change_evidence r (marked_acked st) (journal_records j)))"
        using journal_ok_records [OF ok] by (simp add: change_ids evidence_ok_def)
      have wf: "evidence_wellformed date_ok e" using evidence_okD [OF journal_ok_records [OF ok] e] by blast
      have "unproven run (after_mark r st e (journal_records j))"
      proof (cases "r = run")
        case True
        with mem e have n: "ev_process_exited_at e = None" by (simp add: unproven_def)
        with p wf have "\<not> settled_evidence (marked_acked st e)" "ev_process_exited_at (marked_acked st e) = None"
          by (cases st; simp add: settled_evidence_def marked_acked_def evidence_wellformed_def)+
        with True e show ?thesis by (simp add: unproven_def after_mark_def find_change)
      next
        case False
        with mem d show ?thesis by (simp add: unproven_def after_mark_def find_change find_drop Let_def)
      qed
      with JC_marked u w show ?thesis by (simp add: unproven_write)
    qed (use JC_marked u in simp)
  next
    case (JC_restart w)
    from u obtain f where f: "jn_disk j = Some f" "unproven run (jf_evidence f)" by (auto simp: unproven_everywhere_def)
    with ok open_disk [OF i, of date_ok f w] JC_restart show ?thesis
      by (simp add: journal_ok_def unproven_everywhere_def journal_records_def)
  qed
qed

interpretation unproven: object_invariant "do_journal_call date_ok i" "\<lambda>c _. identity_ok i \<and> \<not> proves_exit run c"
  "\<lambda>j. journal_ok date_ok i j \<and> unproven_everywhere run j" for date_ok i run
  by unfold_locales (simp add: journal_call_ok unproven_call)


text \<open>C39: Only a proof of exit frees a record. A run whose process was never proved to have exited (the device did not
  find it, or could not confirm its end) keeps its record in memory and on disk through acknowledgements of
  the server, other cancellations, failing writes and restarts. Once as many such runs as the journal
  holds have been cancelled, every further cancellation is refused, for good, although the server has
  acknowledged all there is to acknowledge.\<close>

theorem unproven_evidence_fills_journal:
  assumes "identity_ok i"
    and "j = fold (do_journal_call date_ok i) calls (snd (open_journal date_ok i w None))"
    and "\<And>r. r \<in> set runs \<Longrightarrow> unproven_everywhere r j" "distinct runs"
    and "list_all (\<lambda>c. \<forall>r\<in>set runs. \<not> proves_exit r c) later"
    and "length runs = MAX_CANCELLATION_EVIDENCE_RECORDS"
    and "validOpaqueId run" "date_ok moment" "run \<notin> set runs"
  shows "fst (acknowledge date_ok w' run moment (fold (do_journal_call date_ok i) later j)) = Inl JX_full"
proof -
  let ?j = "fold (do_journal_call date_ok i) later j"
  have ok: "journal_ok date_ok i j" using journal_reachable [OF assms(1)] assms(2) by simp
  have each: "journal_ok date_ok i ?j \<and> unproven_everywhere r ?j" if "r \<in> set runs" for r
  proof (rule unproven.calls_keep)
    show "obeys (do_journal_call date_ok i) (\<lambda>c _. identity_ok i \<and> \<not> proves_exit r c) later j"
      using assms(1,5) that unfolding obeys_stateless by (auto simp: list_all_iff)
  qed (use ok assms(3) that in blast)
  have "runs \<noteq> []" using assms(6) by (auto simp: MAX_CANCELLATION_EVIDENCE_RECORDS_def)
  then have ok': "evidence_ok date_ok (journal_records ?j)"
    using each journal_ok_records by (meson list.set_sel(1))
  have kept: "set runs \<subseteq> set (map ev_run_id (journal_records ?j))"
  proof
    fix r assume "r \<in> set runs"
    from each [OF this] have "find_evidence r (journal_records ?j) \<noteq> None"
      by (auto simp: unproven_everywhere_def unproven_def)
    then show "r \<in> set (map ev_run_id (journal_records ?j))" unfolding find_evidence_None by simp
  qed
  let ?ids = "map ev_run_id (journal_records ?j)"
  have d: "distinct ?ids" "length ?ids \<le> length runs" using ok' assms(6) by (simp_all add: evidence_ok_def)
  have "card (set ?ids) \<le> card (set runs)" using d assms(4) by (simp only: distinct_card)
  then have "set ?ids = set runs" "length ?ids = length runs"
    using card_seteq [OF finite_set kept] d assms(4) distinct_card [of ?ids] distinct_card [of runs] by (simp_all del: set_map)
  then have "find_evidence run (journal_records ?j) = None" "\<not> length (journal_records ?j) < MAX_CANCELLATION_EVIDENCE_RECORDS"
    using assms(6,9) by (simp_all only: find_evidence_None length_map) simp
  with assms(7,8) show ?thesis
    by (simp add: acknowledge_def and_then_def [of "guarding _ _"] and_then_def [of "reading _"] guarding_apply)
qed

subsection \<open>A full journal\<close>

text \<open>Evaluation compares characters as integers.\<close>

lemma of_char_int: "(of_char c :: int) = int (of_char c)"
  by (simp add: of_char_def)

lemma json_escape_code [code]:
  "json_escape c =
     (case map_of short_escapes c of
        Some d \<Rightarrow> [CHR 0x5C, d]
      | None \<Rightarrow>
          if of_char c < (32 :: int) then [CHR 0x5C, CHR ''u'', CHR ''0'', CHR ''0'',
            hex_digit (of_char c div 16), hex_digit (of_char c mod 16)]
          else [c])"
proof -
  have "(of_char c < (32 :: int)) = (of_char c < (32 :: nat))" by (simp add: of_char_int)
  then show ?thesis unfolding json_escape_def by presburger
qed

lemma utf8_append [simp]: "utf8_length (s @ t) = utf8_length s + utf8_length t"
  by (simp add: utf8_length_def)

lemma utf8_bound: "utf8_length s \<le> 2 * int (length s)"
  by (induction s) (auto simp: utf8_length_def)

lemma json_escape_length: "length (json_escape c) \<le> 6"
  by (simp add: json_escape_def split: option.splits)

lemma json_string_length: "length (json_string s) \<le> 6 * length s + 2"
proof (induction s)
  case (Cons c s)
  then show ?case using json_escape_length [of c] by (simp add: json_string_def)
qed (simp add: json_string_def)

lemma join_length: "length (join [c] xs) \<le> sum_list (map (\<lambda>x. length x + 1) xs)"
  by (induction "[c]" xs rule: join.induct) auto

lemma key_lengths:
  "length (json_string ''run_id'') = 8" "length (json_string ''acknowledged_at'') = 17"
  "length (json_string ''acknowledged_server_acked'') = 27" "length (json_string ''process_exited_at'') = 19"
  "length (json_string ''process_tree_reaped'') = 21" "length (json_string ''process_exited_server_acked'') = 29"
  by code_simp+

lemma evidence_json_length:
  "length (evidence_json (new_evidence run moment)) \<le> 160 + 6 * length run + 6 * length moment"
  using json_string_length [of run] json_string_length [of moment]
  by (simp add: evidence_json_def new_evidence_def json_field_def key_lengths json_bool_def)

lemma dec_length: "n < 1000 \<Longrightarrow> length (dec n) \<le> 3"
  by (simp add: dec.simps [of n] dec.simps [of "n div 10"] dec.simps [of "n div 10 div 10"])

definition crowd :: "nat \<Rightarrow> ident list" where
  "crowd n = map (\<lambda>k. ''r'' @ dec k) [0..<n]"

definition sample_device :: device_identity where
  "sample_device = \<lparr>di_device_id = ''d'', di_credential_id = ''c'', di_generation = 1\<rparr>"

definition crowd_file :: "nat \<Rightarrow> journal_file" where
  "crowd_file n = (empty_file sample_device)\<lparr>jf_evidence := map (\<lambda>r. new_evidence r ''t'') (crowd n)\<rparr>"

definition crowd_calls :: "nat \<Rightarrow> journal_call list" where
  "crowd_calls n = map (\<lambda>r. JC_acknowledge WR_done r ''t'') (crowd n)"

lemma sum_list_le: "(\<And>x. x \<in> set xs \<Longrightarrow> f x \<le> (k :: nat)) \<Longrightarrow> length ys = length xs \<Longrightarrow> sum_list (map f xs) \<le> length ys * k"
proof (induction xs arbitrary: ys)
  case (Cons x xs)
  from Cons.prems(2) have "length (tl ys) = length xs" by simp
  with Cons.IH [of "tl ys"] Cons.prems show ?case by (cases ys) fastforce+
qed simp

lemma crowd_Suc: "crowd (Suc n) = crowd n @ [''r'' @ dec n]"
  by (simp add: crowd_def)

lemma crowd_size:
  assumes "n \<le> 1000"
  shows "utf8_length (journal_json (crowd_file n)) \<le> MAX_CANCELLATION_JOURNAL_BYTES"
proof -
  have head: "length (json_string ''version'') = 9" "length (json_string ''device_id'') = 11"
    "length (json_string ''credential_id'') = 15" "length (json_string ''generation'') = 12"
    "length (json_string ''evidence'') = 10" "length (json_string ''d'') = 3" "length (json_string ''c'') = 3"
    by code_simp+
  have each: "length (evidence_json (new_evidence r ''t'')) + 1 \<le> 191" if "r \<in> set (crowd n)" for r
  proof -
    from that assms obtain k where "r = ''r'' @ dec k" "k < 1000" by (auto simp: crowd_def)
    with dec_length [of k] have "length r \<le> 4" by simp
    with evidence_json_length [of r "''t''"] show ?thesis by simp
  qed
  have "sum_list (map (\<lambda>x. length x + 1) (map (\<lambda>r. evidence_json (new_evidence r ''t'')) (crowd n))) \<le> length (crowd n) * 191"
    using each by (intro sum_list_le) auto
  then have "length (join '','' (map (\<lambda>r. evidence_json (new_evidence r ''t'')) (crowd n))) \<le> 191000"
    using join_length [of "CHR '',''" "map (\<lambda>r. evidence_json (new_evidence r ''t'')) (crowd n)"] assms
    by (simp add: crowd_def)
  then have "length (journal_json (crowd_file n)) \<le> 192000"
    by (simp add: journal_json_def crowd_file_def empty_file_def sample_device_def json_field_def head comp_def dec_digits)
  with utf8_bound [of "journal_json (crowd_file n)"] show ?thesis by (simp add: MAX_CANCELLATION_JOURNAL_BYTES_def)
qed

lemma crowd_distinct: "distinct (crowd n)"
  by (auto simp: crowd_def distinct_map inj_on_def)

lemma opaque_plain: "list_all plain_id_char s \<Longrightarrow> opaque_chars s"
  by (induction s) auto

lemma dec_plain: "list_all plain_id_char (dec n)"
proof (induction n rule: dec.induct)
  case (1 n)
  have digit: "plain_id_char (char_of (48 + m))" if "m < 10" for m :: nat
    using that by (simp add: plain_id_char_def Let_def of_char_int)
  show ?case
  proof (cases "n < 10")
    case True
    with digit show ?thesis by (simp add: dec.simps [of n])
  next
    case False
    with 1 digit [of "n mod 10"] show ?thesis by (simp add: dec.simps [of n])
  qed
qed

lemma crowd_id: "n < 1000 \<Longrightarrow> validOpaqueId (''r'' @ dec n)"
  using dec_length [of n] dec_plain [of n] by (simp add: validOpaqueId_def opaque_plain plain_id_char_def)

lemma crowd_run:
  "n \<le> 1000 \<Longrightarrow> fold (do_journal_call (\<lambda>_. True) sample_device) (crowd_calls n)
      (snd (open_journal (\<lambda>_. True) sample_device WR_done None)) =
     \<lparr>jn_state = crowd_file n, jn_disk = Some (crowd_file n)\<rparr>"
proof (induction n)
  case 0
  have "utf8_length (journal_json (crowd_file 0)) \<le> MAX_CANCELLATION_JOURNAL_BYTES" by (rule crowd_size) simp
  then show ?case
    by (simp add: crowd_calls_def crowd_def open_journal_def persist_journal_def method_simps crowd_file_def empty_file_def)
next
  case (Suc n)
  let ?r = "''r'' @ dec n" and ?j = "\<lparr>jn_state = crowd_file n, jn_disk = Some (crowd_file n)\<rparr>"
  have "?r \<notin> set (crowd n)" using crowd_distinct [of "Suc n"] by (simp add: crowd_Suc)
  then have fresh: "find_evidence ?r (journal_records ?j) = None"
    by (auto simp: find_evidence_None journal_records_def crowd_file_def new_evidence_def)
  have room: "length (journal_records ?j) < MAX_CANCELLATION_EVIDENCE_RECORDS"
    using Suc.prems by (simp add: journal_records_def crowd_file_def crowd_def MAX_CANCELLATION_EVIDENCE_RECORDS_def)
  have added: "snd (on_evidence (\<lambda>es. es @ [new_evidence ?r ''t'']) ?j) = \<lparr>jn_state = crowd_file (Suc n), jn_disk = Some (crowd_file n)\<rparr>"
    by (simp add: on_evidence_def crowd_file_def crowd_Suc)
  have "snd (acknowledge (\<lambda>_. True) WR_done ?r ''t'' ?j) =
      \<lparr>jn_state = crowd_file (Suc n), jn_disk = Some (crowd_file (Suc n))\<rparr>"
    using crowd_id [of n] Suc.prems fresh room added crowd_size [OF Suc.prems]
    by (simp add: acknowledge_def and_then_def [of "on_evidence _"] and_then_def [of "guarding _ _"] and_then_def [of "reading _"]
        guarding_apply on_evidence_def new_evidence_def Let_def persist_journal_def method_simps)
  with Suc show ?case by (simp add: crowd_calls_def crowd_Suc)
qed

theorem unproven_evidence_fills_journal_witness:
  "fst (acknowledge (\<lambda>_. True) WR_done ''x'' ''t'' (fold (do_journal_call (\<lambda>_. True) sample_device)
      [JC_marked WR_done ''r0'' ES_runner_acknowledged, JC_restart WR_done] \<lparr>jn_state = crowd_file 1000, jn_disk = Some (crowd_file 1000)\<rparr>))
     = Inl JX_full"
proof (rule unproven_evidence_fills_journal)
  show "\<lparr>jn_state = crowd_file 1000, jn_disk = Some (crowd_file 1000)\<rparr> =
      fold (do_journal_call (\<lambda>_. True) sample_device) (crowd_calls 1000) (snd (open_journal (\<lambda>_. True) sample_device WR_done None))"
    by (simp add: crowd_run)
  have found: "find_evidence r (map (\<lambda>r. new_evidence r ''t'') rs) = Some (new_evidence r ''t'')" if "r \<in> set rs" for r rs
    using that by (induction rs) (auto simp: new_evidence_def)
  show "unproven_everywhere r \<lparr>jn_state = crowd_file 1000, jn_disk = Some (crowd_file 1000)\<rparr>" if "r \<in> set (crowd 1000)" for r
    using found [OF that] by (simp add: unproven_everywhere_def unproven_def journal_records_def crowd_file_def new_evidence_def)
  show "identity_ok sample_device" "validOpaqueId ''x''" by code_simp+
  show "distinct (crowd 1000)" by (rule crowd_distinct)
qed (auto simp: crowd_def MAX_CANCELLATION_EVIDENCE_RECORDS_def)

theorem journal_reopens_witness:
  "open_journal (\<lambda>_. True) sample_device WR_done (Some (crowd_file 2)) =
     (Inr (), \<lparr>jn_state = crowd_file 2, jn_disk = Some (crowd_file 2)\<rparr>) \<and> evidence_ok (\<lambda>_. True) (jf_evidence (crowd_file 2))"
proof (rule journal_reopens)
  show "identity_ok sample_device" by code_simp
  show "\<lparr>jn_state = crowd_file 2, jn_disk = Some (crowd_file 2)\<rparr> =
      fold (do_journal_call (\<lambda>_. True) sample_device) (crowd_calls 2) (snd (open_journal (\<lambda>_. True) sample_device WR_done None))"
    by (simp add: crowd_run)
qed simp


end
