(* ===== verification/Device_Control.thy ===== *)
theory Device_Control
  imports Device_Journal
begin

section \<open>The control connection of a device\<close>

text \<open>
  \<^verbatim>\<open>apps/runner/src/deviceControlConnection.ts\<close>: the socket over which an enrolled device is told to cancel runs
  and answers with evidence from its journal. Sockets are numbered in the order they are opened. A handler that
  throws leaves its error as a result (nothing catches the rejection of \<^verbatim>\<open>handleFrame\<close>, so the process ends
  and the next one opens the journal again). What a promise of \<^verbatim>\<open>stopRun\<close> or \<^verbatim>\<open>stopAll\<close> resolves to, and the
  later proof it may carry, arrive as operations of their own. The trace lists what the connection does,
  which the handlers note, and what it is told (frames, ends of stops, restarts), which is noted outside of
  the handlers, before they run. A frame is represented by what is signed and sent; frames of the
  execution protocol and of workspaces are passed through and stay abstract (\<open>'p\<close>). \<open>now\<close> is the clock,
  which a handler reads as often as it needs.
\<close>

subsection \<open>State\<close>

datatype cancellation_cause = CX_project_stop | CX_device_revocation | CX_emergency_stop

text \<open>Frames of the server, and what a stop resolves to.\<close>

record device_challenge =
  dh_challenge :: string
  dh_supported_protocol_versions :: "string list"

record cancellation_request = device_identity +
  cr_run_id :: ident
  cr_cause :: cancellation_cause
  cr_publication_fenced :: bool

datatype 'p control_frame =
    KF_challenge "device_challenge option"
  | KF_device_auth_ok ident int string
  | KF_cancellation_request cancellation_request
  | KF_evidence_ack ident evidence_state
  | KF_workspace_request int 'p
  | KF_fenced
  | KF_auth_error
  | KF_reconcile_response 'p
  | KF_command 'p
  | KF_event_ack nat
  | KF_other

record stop_result =
  sr_target_found :: bool
  sr_process_tree_reaped :: bool
  sr_eventual :: bool

text \<open>Frames of the device, and the trace. The last four entries are what the connection is told.\<close>

datatype 'p device_frame =
    DF_auth string
  | DF_evidence ident evidence_state string "string option" bool
  | DF_execution 'p
  | DF_workspace_response 'p

datatype 'p control_observation =
    DO_connecting nat
  | DO_sent nat "'p device_frame"
  | DO_closed nat
  | DO_terminated nat
  | DO_ping nat
  | DO_fence string
  | DO_stop_run ident string bool
  | DO_stop_all ident string
  | DO_authenticated
  | DO_disconnected
  | DO_reconcile 'p
  | DO_command 'p
  | DO_event_ack nat
  | DO_workspace 'p
  | DO_received nat "'p control_frame option"
  | DO_stop_ended ident "stop_result option"
  | DO_late_ended ident bool
  | DO_restarted

record control_options = device_identity +
  co_dates :: "string \<Rightarrow> bool"
  co_protocol_version :: string
  co_reconnect :: bool
  co_execution :: bool
  co_workspace :: bool
  co_reconnectDelayMs :: millis
  co_evidenceRetryMs :: millis
  co_livenessProbeMs :: millis

record 'p device_control =
  dc_journal :: journal
  dc_socket :: "nat option"
  dc_open :: bool
  dc_sockets :: nat
  dc_stopped :: bool
  dc_fenced :: bool
  dc_authenticated :: bool
  dc_reconnectTimer :: bool
  dc_evidenceRetryTimer :: bool
  dc_livenessTimer :: "nat option"
  dc_livenessAcknowledged :: bool
  dc_handlers :: "ident list"
  dc_late :: "ident list"
  dc_trace :: "'p control_observation list"

datatype control_error = CE_journal journal_error | CE_intervals | CE_fenced

type_synonym ('p, 'a) control_op = "('p device_control, control_error, 'a) action"

definition identity_of_options :: "control_options \<Rightarrow> device_identity" where
  "identity_of_options opts = \<lparr>di_device_id = di_device_id opts, di_credential_id = di_credential_id opts,
     di_generation = di_generation opts\<rparr>"

definition note_control :: "'p control_observation \<Rightarrow> 'p device_control \<Rightarrow> 'p device_control" where
  "note_control ob d = d\<lparr>dc_trace := dc_trace d @ [ob]\<rparr>"

definition on_journal :: "'a journal_op \<Rightarrow> ('p, 'a) control_op" where
  "on_journal m d = (case m (dc_journal d) of
     (Inl e, j) \<Rightarrow> (Inl (CE_journal e), d\<lparr>dc_journal := j\<rparr>) | (Inr a, j) \<Rightarrow> (Inr a, d\<lparr>dc_journal := j\<rparr>))"

text \<open>The constructor, for what is on disk; \<open>tr\<close> is the trace of the processes before.\<close>

definition new_control ::
  "control_options \<Rightarrow> write_outcome \<Rightarrow> journal_file option \<Rightarrow> 'p control_observation list \<Rightarrow>
     (control_error + unit) \<times> 'p device_control" where
  "new_control opts w disk tr =
     (let (opened, j) = open_journal (co_dates opts) (identity_of_options opts) w disk;
          d = \<lparr>dc_journal = j, dc_socket = None, dc_open = False, dc_sockets = 0, dc_stopped = True, dc_fenced = False,
               dc_authenticated = False, dc_reconnectTimer = False, dc_evidenceRetryTimer = False, dc_livenessTimer = None,
               dc_livenessAcknowledged = False, dc_handlers = [], dc_late = [], dc_trace = tr\<rparr>
      in if co_reconnectDelayMs opts \<le> 0 \<or> co_evidenceRetryMs opts \<le> 0 \<or> co_livenessProbeMs opts \<le> 0
         then (Inl CE_intervals, d\<lparr>dc_journal := \<lparr>jn_state = empty_file (identity_of_options opts), jn_disk = disk\<rparr>\<rparr>)
         else (case opened of Inl e \<Rightarrow> Inl (CE_journal e) | Inr u \<Rightarrow> Inr u, d))"

definition control_connected :: "'p device_control \<Rightarrow> bool" where
  "control_connected d \<longleftrightarrow> dc_authenticated d \<and> dc_socket d \<noteq> None \<and> dc_open d"

subsection \<open>Evidence\<close>

definition evidence_frame :: "evidence \<Rightarrow> evidence_state \<Rightarrow> 'p device_frame" where
  "evidence_frame e st = DF_evidence (ev_run_id e) st (ev_acknowledged_at e)
     (if st = ES_process_exited then ev_process_exited_at e else None) (st = ES_process_exited)"

definition send_on_socket :: "'p device_frame \<Rightarrow> 'p device_control \<Rightarrow> 'p device_control" where
  "send_on_socket f d = (case dc_socket d of Some s \<Rightarrow> if dc_open d then note_control (DO_sent s f) d else d | None \<Rightarrow> d)"

definition due_evidence :: "evidence \<Rightarrow> evidence_state option" where
  "due_evidence e =
     (if \<not> ev_acknowledged_server_acked e then Some ES_runner_acknowledged
      else if ev_process_exited_at e \<noteq> None \<and> ev_process_tree_reaped e \<and> \<not> ev_process_exited_server_acked e
      then Some ES_process_exited else None)"

definition send_due :: "evidence \<Rightarrow> 'p device_control \<Rightarrow> 'p device_control" where
  "send_due e d = (case due_evidence e of Some st \<Rightarrow> send_on_socket (evidence_frame e st) d | None \<Rightarrow> d)"

definition flushEvidence :: "'p device_control \<Rightarrow> 'p device_control" where
  "flushEvidence d =
     (if \<not> control_connected d then d
      else (let d = fold send_due (journal_records (dc_journal d)) (d\<lparr>dc_evidenceRetryTimer := False\<rparr>)
            in d\<lparr>dc_evidenceRetryTimer := (journal_records (dc_journal d) \<noteq> [])\<rparr>))"

subsection \<open>Connecting, stopping and fencing\<close>

definition stopLivenessProbe :: "'p device_control \<Rightarrow> 'p device_control" where
  "stopLivenessProbe d = d\<lparr>dc_livenessTimer := None, dc_livenessAcknowledged := False\<rparr>"

definition connect_control :: "'p device_control \<Rightarrow> 'p device_control" where
  "connect_control d =
     (if dc_stopped d \<or> dc_fenced d \<or> dc_socket d \<noteq> None then d
      else note_control (DO_connecting (dc_sockets d))
        (d\<lparr>dc_socket := Some (dc_sockets d), dc_open := False, dc_sockets := Suc (dc_sockets d), dc_authenticated := False\<rparr>))"

definition start_control :: "('p, unit) control_op" where
  "start_control =
     and_then (guarding (\<lambda>d. \<not> dc_fenced d) (\<lambda>_. CE_fenced)) (\<lambda>_.
       modifying (\<lambda>d. connect_control (d\<lparr>dc_stopped := False\<rparr>)))"

definition close_current :: "'p device_control \<Rightarrow> 'p device_control" where
  "close_current d = (case dc_socket d of None \<Rightarrow> d | Some s \<Rightarrow> note_control (DO_closed s) (d\<lparr>dc_socket := None, dc_open := False\<rparr>))"

definition stop_control :: "'p device_control \<Rightarrow> 'p device_control" where
  "stop_control d = close_current (stopLivenessProbe
     (d\<lparr>dc_stopped := True, dc_authenticated := False, dc_reconnectTimer := False, dc_evidenceRetryTimer := False\<rparr>))"

definition fenceAndClose :: "string \<Rightarrow> 'p device_control \<Rightarrow> 'p device_control" where
  "fenceAndClose reason d =
     (if dc_fenced d then d
      else close_current (stopLivenessProbe (note_control (DO_fence reason)
        (d\<lparr>dc_fenced := True, dc_authenticated := False, dc_reconnectTimer := False, dc_evidenceRetryTimer := False\<rparr>))))"

definition scheduleReconnect :: "control_options \<Rightarrow> 'p device_control \<Rightarrow> 'p device_control" where
  "scheduleReconnect opts d =
     (if dc_stopped d \<or> dc_fenced d \<or> \<not> co_reconnect opts \<or> dc_reconnectTimer d then d else d\<lparr>dc_reconnectTimer := True\<rparr>)"

definition reconnect_fires :: "'p device_control \<Rightarrow> 'p device_control" where
  "reconnect_fires d = (if dc_reconnectTimer d then connect_control (d\<lparr>dc_reconnectTimer := False\<rparr>) else d)"

definition retry_fires :: "'p device_control \<Rightarrow> 'p device_control" where
  "retry_fires d = (if dc_evidenceRetryTimer d then flushEvidence (d\<lparr>dc_evidenceRetryTimer := False\<rparr>) else d)"

definition socket_opens :: "nat \<Rightarrow> 'p device_control \<Rightarrow> 'p device_control" where
  "socket_opens s d =
     (if dc_socket d \<noteq> Some s then d
      else (let d = d\<lparr>dc_open := True\<rparr>
            in if dc_stopped d \<or> dc_fenced d then d else d\<lparr>dc_livenessTimer := Some s, dc_livenessAcknowledged := True\<rparr>))"

definition socket_pongs :: "nat \<Rightarrow> 'p device_control \<Rightarrow> 'p device_control" where
  "socket_pongs s d = (if dc_socket d = Some s then d\<lparr>dc_livenessAcknowledged := True\<rparr> else d)"

definition socket_closes :: "control_options \<Rightarrow> nat \<Rightarrow> 'p device_control \<Rightarrow> 'p device_control" where
  "socket_closes opts s d =
     (if dc_socket d \<noteq> Some s then d
      else (let d = stopLivenessProbe (d\<lparr>dc_socket := None, dc_open := False, dc_authenticated := False\<rparr>)\<lparr>dc_evidenceRetryTimer := False\<rparr>
            in scheduleReconnect opts (if co_execution opts then note_control DO_disconnected d else d)))"

definition liveness_fires :: "'p device_control \<Rightarrow> 'p device_control" where
  "liveness_fires d =
     (case dc_livenessTimer d of
        None \<Rightarrow> d
      | Some s \<Rightarrow>
          if dc_socket d \<noteq> Some s \<or> dc_stopped d \<or> dc_fenced d then stopLivenessProbe d
          else if \<not> dc_open d then d
          else if \<not> dc_livenessAcknowledged d then note_control (DO_terminated s) (d\<lparr>dc_open := False\<rparr>)
          else note_control (DO_ping s) (d\<lparr>dc_livenessAcknowledged := False\<rparr>))"

definition disconnectNow :: "'p device_control \<Rightarrow> 'p device_control" where
  "disconnectNow d = (case dc_socket d of Some s \<Rightarrow> note_control (DO_terminated s) (d\<lparr>dc_open := False\<rparr>) | None \<Rightarrow> d)"

subsection \<open>Handling a frame\<close>

definition cancellation_reason :: "cancellation_cause \<Rightarrow> string" where
  "cancellation_reason c = (case c of
     CX_project_stop \<Rightarrow> ''project work cancellation requested''
   | CX_device_revocation \<Rightarrow> ''device authorization revoked''
   | CX_emergency_stop \<Rightarrow> ''local emergency stop requested'')"

definition sameIdentity :: "cancellation_request \<Rightarrow> control_options \<Rightarrow> bool" where
  "sameIdentity r opts \<longleftrightarrow> di_device_id r = di_device_id opts \<and> di_credential_id r = di_credential_id opts
     \<and> di_generation r = di_generation opts"

definition begin_stop :: "cancellation_request \<Rightarrow> 'p device_control \<Rightarrow> 'p device_control" where
  "begin_stop r d =
     (let reason = cancellation_reason (cr_cause r);
          ob = (if cr_cause r = CX_project_stop then DO_stop_run (cr_run_id r) reason (cr_publication_fenced r)
                else DO_stop_all (cr_run_id r) reason)
      in (note_control ob d)\<lparr>dc_handlers := dc_handlers d @ [cr_run_id r]\<rparr>)"

definition proved_already :: "evidence option \<Rightarrow> bool" where
  "proved_already existing \<longleftrightarrow> (case existing of None \<Rightarrow> False | Some e \<Rightarrow> ev_process_exited_at e \<noteq> None \<and> ev_process_tree_reaped e)"

definition receiveCancellation :: "control_options \<Rightarrow> write_outcome \<Rightarrow> string \<Rightarrow> cancellation_request \<Rightarrow> ('p, unit) control_op" where
  "receiveCancellation opts w now r =
     and_then (reading (\<lambda>d. find_evidence (cr_run_id r) (journal_records (dc_journal d)))) (\<lambda>existing.
     and_then (on_journal (acknowledge (co_dates opts) w (cr_run_id r) now)) (\<lambda>_.
     and_then (modifying flushEvidence) (\<lambda>_.
       if proved_already existing then returning ()
       else modifying (\<lambda>d. if cr_run_id r \<in> set (dc_handlers d) then d else begin_stop r d))))"

definition refuse_frame :: "string \<Rightarrow> ('p, unit) control_op" where
  "refuse_frame reason = modifying (fenceAndClose reason)"

definition handleFrame :: "control_options \<Rightarrow> write_outcome \<Rightarrow> string \<Rightarrow> nat \<Rightarrow> 'p control_frame \<Rightarrow> ('p, unit) control_op" where
  "handleFrame opts w now s frame =
     and_then (reading (\<lambda>d. (dc_socket d \<noteq> Some s \<or> dc_fenced d \<or> dc_stopped d, dc_authenticated d))) (\<lambda>(ignored, authenticated).
       if ignored then returning ()
       else (case frame of
           KF_challenge None \<Rightarrow> refuse_frame ''device authentication challenge unavailable''
         | KF_challenge (Some c) \<Rightarrow>
             if authenticated then refuse_frame ''device authentication challenge unavailable''
             else if co_protocol_version opts \<notin> set (dh_supported_protocol_versions c)
             then refuse_frame ''device protocol is incompatible''
             else modifying (note_control (DO_sent s (DF_auth (dh_challenge c))))
         | KF_device_auth_ok device generation version \<Rightarrow>
             if device \<noteq> di_device_id opts \<or> generation \<noteq> di_generation opts \<or> version \<noteq> co_protocol_version opts
             then refuse_frame ''device authentication identity changed''
             else modifying (\<lambda>d. let d = d\<lparr>dc_authenticated := True\<rparr>
                                 in flushEvidence (if co_execution opts then note_control DO_authenticated d else d))
         | KF_cancellation_request r \<Rightarrow>
             if \<not> authenticated \<or> \<not> sameIdentity r opts then refuse_frame ''device cancellation identity changed''
             else receiveCancellation opts w now r
         | KF_evidence_ack run st \<Rightarrow>
             if \<not> authenticated then refuse_frame ''unauthenticated cancellation evidence acknowledgement''
             else and_then (on_journal (markServerAcknowledged w run st)) (\<lambda>_. modifying flushEvidence)
         | KF_workspace_request generation p \<Rightarrow>
             if \<not> authenticated \<or> \<not> co_workspace opts \<or> generation \<noteq> di_generation opts
             then refuse_frame ''workspace request identity changed''
             else modifying (note_control (DO_workspace p))
         | KF_fenced \<Rightarrow> refuse_frame ''device generation fenced''
         | KF_auth_error \<Rightarrow> refuse_frame ''device credential rejected''
         | KF_reconcile_response p \<Rightarrow>
             if \<not> authenticated \<or> \<not> co_execution opts then refuse_frame ''unexpected device reconciliation response''
             else modifying (note_control (DO_reconcile p))
         | KF_command p \<Rightarrow>
             if \<not> authenticated \<or> \<not> co_execution opts then refuse_frame ''unexpected device command''
             else modifying (note_control (DO_command p))
         | KF_event_ack n \<Rightarrow>
             if \<not> authenticated \<or> \<not> co_execution opts then refuse_frame ''unexpected device event acknowledgement''
             else modifying (note_control (DO_event_ack n))
         | KF_other \<Rightarrow> refuse_frame ''unexpected frame on device socket''))"

text \<open>A message; \<^term>\<open>None\<close> is one that does not parse.\<close>

definition socket_message ::
  "control_options \<Rightarrow> write_outcome \<Rightarrow> string \<Rightarrow> nat \<Rightarrow> 'p control_frame option \<Rightarrow> ('p, unit) control_op" where
  "socket_message opts w now s message =
     and_then (reading (\<lambda>d. dc_socket d = Some s)) (\<lambda>current.
       if \<not> current then returning ()
       else and_then (modifying (\<lambda>d. d\<lparr>dc_livenessAcknowledged := True\<rparr>)) (\<lambda>_.
         case message of
           None \<Rightarrow> refuse_frame ''invalid device control frame''
         | Some frame \<Rightarrow> handleFrame opts w now s frame))"

subsection \<open>The end of a stop\<close>

text \<open>Every error of the continuation is swallowed.\<close>

definition record_exit :: "control_options \<Rightarrow> write_outcome \<Rightarrow> string \<Rightarrow> ident \<Rightarrow> 'p device_control \<Rightarrow> 'p device_control" where
  "record_exit opts w now run d = snd (and_then (on_journal (recordProcessExited (co_dates opts) w run now)) (\<lambda>_.
     modifying flushEvidence) d)"

definition stop_settled ::
  "control_options \<Rightarrow> write_outcome \<Rightarrow> string \<Rightarrow> ident \<Rightarrow> stop_result option \<Rightarrow> 'p device_control \<Rightarrow> 'p device_control" where
  "stop_settled opts w now run result d =
     (if run \<notin> set (dc_handlers d) then d
      else (let d = (case result of
              None \<Rightarrow> d
            | Some r \<Rightarrow>
                if \<not> sr_target_found r then d
                else if sr_process_tree_reaped r then record_exit opts w now run d
                else if sr_eventual r then d\<lparr>dc_late := dc_late d @ [run]\<rparr> else d)
            in d\<lparr>dc_handlers := filter (\<lambda>k. k \<noteq> run) (dc_handlers d)\<rparr>))"

definition late_settled :: "control_options \<Rightarrow> write_outcome \<Rightarrow> string \<Rightarrow> ident \<Rightarrow> bool \<Rightarrow> 'p device_control \<Rightarrow> 'p device_control" where
  "late_settled opts w now run reaped d =
     (if run \<notin> set (dc_late d) then d
      else (let d = d\<lparr>dc_late := remove1 run (dc_late d)\<rparr> in if reaped then record_exit opts w now run d else d))"

subsection \<open>Frames of the execution protocol\<close>

datatype runner_frame_kind = RK_reconcile_request | RK_event | RK_workspace_response | RK_evidence | RK_device_auth | RK_auth | RK_other

definition sendExecutionFrame :: "control_options \<Rightarrow> runner_frame_kind \<Rightarrow> 'p \<Rightarrow> 'p device_control \<Rightarrow> bool \<times> 'p device_control" where
  "sendExecutionFrame opts fk p d =
     (if \<not> co_execution opts \<or> \<not> control_connected d \<or> fk \<notin> {RK_reconcile_request, RK_event} then (False, d)
      else (True, send_on_socket (DF_execution p) d))"

definition sendWorkspaceFrame :: "control_options \<Rightarrow> 'p \<Rightarrow> 'p device_control \<Rightarrow> bool \<times> 'p device_control" where
  "sendWorkspaceFrame opts p d =
     (if \<not> co_workspace opts \<or> \<not> control_connected d then (False, d)
      else (True, send_on_socket (DF_workspace_response p) d))"


subsection \<open>The connection as an object\<close>

datatype 'p control_call =
    CC_start
  | CC_stop
  | CC_disconnect
  | CC_reconnect_timer
  | CC_retry_timer
  | CC_liveness_timer
  | CC_open nat
  | CC_pong nat
  | CC_close nat
  | CC_message write_outcome string nat "'p control_frame option"
  | CC_stopped write_outcome string ident "stop_result option"
  | CC_late write_outcome string ident bool
  | CC_execution runner_frame_kind 'p
  | CC_workspace 'p
  | CC_restart write_outcome

fun run_control_call :: "control_options \<Rightarrow> 'p control_call \<Rightarrow> 'p device_control \<Rightarrow> 'p device_control" where
  "run_control_call opts CC_start d = snd (start_control d)"
| "run_control_call opts CC_stop d = stop_control d"
| "run_control_call opts CC_disconnect d = disconnectNow d"
| "run_control_call opts CC_reconnect_timer d = reconnect_fires d"
| "run_control_call opts CC_retry_timer d = retry_fires d"
| "run_control_call opts CC_liveness_timer d = liveness_fires d"
| "run_control_call opts (CC_open s) d = socket_opens s d"
| "run_control_call opts (CC_pong s) d = socket_pongs s d"
| "run_control_call opts (CC_close s) d = socket_closes opts s d"
| "run_control_call opts (CC_message w now s m) d = snd (socket_message opts w now s m d)"
| "run_control_call opts (CC_stopped w now run r) d = stop_settled opts w now run r d"
| "run_control_call opts (CC_late w now run reaped) d = late_settled opts w now run reaped d"
| "run_control_call opts (CC_execution fk p) d = snd (sendExecutionFrame opts fk p d)"
| "run_control_call opts (CC_workspace p) d = snd (sendWorkspaceFrame opts p d)"
| "run_control_call opts (CC_restart w) d = snd (new_control opts w (jn_disk (dc_journal d)) (dc_trace d))"

text \<open>What the connection is told by a call.\<close>

fun control_input :: "'p control_call \<Rightarrow> 'p control_observation list" where
  "control_input (CC_message w now s m) = [DO_received s m]"
| "control_input (CC_stopped w now run r) = [DO_stop_ended run r]"
| "control_input (CC_late w now run reaped) = [DO_late_ended run reaped]"
| "control_input (CC_restart w) = [DO_restarted]"
| "control_input _ = []"

definition do_control_call :: "control_options \<Rightarrow> 'p control_call \<Rightarrow> 'p device_control \<Rightarrow> 'p device_control" where
  "do_control_call opts c d = run_control_call opts c (fold note_control (control_input c) d)"

subsection \<open>Evidence is true\<close>

text \<open>
  What the device may claim is determined by what it was told. \<open>current_process\<close> is the part of a trace
  since the last restart.
\<close>

definition current_process :: "'p control_observation list \<Rightarrow> 'p control_observation list" where
  "current_process tr = rev (takeWhile (\<lambda>ob. ob \<noteq> DO_restarted) (rev tr))"

text \<open>The server has confirmed the device, its generation and the protocol on the socket.\<close>

definition authenticated_on :: "control_options \<Rightarrow> nat \<Rightarrow> 'p control_observation list \<Rightarrow> bool" where
  "authenticated_on opts s tr \<longleftrightarrow>
     DO_received s (Some (KF_device_auth_ok (di_device_id opts) (di_generation opts) (co_protocol_version opts)))
       \<in> set (current_process tr)"

text \<open>The request has arrived on an authenticated socket, for exactly the credential of this device.\<close>

definition ordered_by :: "control_options \<Rightarrow> cancellation_request \<Rightarrow> 'p control_observation list \<Rightarrow> bool" where
  "ordered_by opts r tr \<longleftrightarrow>
     (\<exists>pre s post. tr = pre @ DO_received s (Some (KF_cancellation_request r)) # post \<and> authenticated_on opts s pre)
     \<and> di_device_id r = di_device_id opts \<and> di_credential_id r = di_credential_id opts
     \<and> di_generation r = di_generation opts"

definition stop_begun :: "ident \<Rightarrow> 'p control_observation list \<Rightarrow> bool" where
  "stop_begun run tr \<longleftrightarrow>
     (\<exists>reason fenced. DO_stop_run run reason fenced \<in> set (current_process tr) \<or> DO_stop_all run reason \<in> set (current_process tr))"

text \<open>A stop that the device had begun ended with the target found, and this is what it said then.\<close>

definition stop_found :: "ident \<Rightarrow> stop_result \<Rightarrow> 'p control_observation list \<Rightarrow> 'p control_observation list \<Rightarrow> bool" where
  "stop_found run r post tr \<longleftrightarrow>
     (\<exists>pre. tr = pre @ DO_stop_ended run (Some r) # post \<and> stop_begun run pre) \<and> sr_target_found r"

text \<open>The process tree was reaped: the stop said so, or announced a later proof, which came.\<close>

definition confirmed_dead :: "ident \<Rightarrow> 'p control_observation list \<Rightarrow> bool" where
  "confirmed_dead run tr \<longleftrightarrow>
     (\<exists>r post. stop_found run r post tr \<and>
        (sr_process_tree_reaped r \<or>
         sr_eventual r \<and> (\<exists>wait rest. post = wait @ DO_late_ended run True # rest \<and> DO_restarted \<notin> set wait)))"

fun warranted :: "control_options \<Rightarrow> 'p control_observation list \<Rightarrow> 'p control_observation \<Rightarrow> bool" where
  "warranted opts tr (DO_sent s (DF_evidence run st acknowledged exited_at reaped)) \<longleftrightarrow>
     (\<exists>r. ordered_by opts r tr \<and> cr_run_id r = run)
     \<and> (st = ES_process_exited \<or> exited_at \<noteq> None \<or> reaped \<longrightarrow> confirmed_dead run tr)"
| "warranted opts tr (DO_stop_run run reason fenced) \<longleftrightarrow>
     (\<exists>r. ordered_by opts r tr \<and> cr_run_id r = run \<and> cr_cause r = CX_project_stop \<and> cr_publication_fenced r = fenced)"
| "warranted opts tr (DO_stop_all run reason) \<longleftrightarrow>
     (\<exists>r. ordered_by opts r tr \<and> cr_run_id r = run \<and> cr_cause r \<noteq> CX_project_stop)"
| "warranted opts tr _ \<longleftrightarrow> True"

definition all_warranted :: "control_options \<Rightarrow> 'p control_observation list \<Rightarrow> bool" where
  "all_warranted opts tr \<longleftrightarrow> (\<forall>n < length tr. warranted opts (take n tr) (tr ! n))"

lemma all_warranted_snoc: "all_warranted opts (tr @ [ob]) \<longleftrightarrow> all_warranted opts tr \<and> warranted opts tr ob"
  by (auto simp: all_warranted_def less_Suc_eq nth_append)

text \<open>What was told stays told.\<close>

lemma current_process_snoc [simp]:
  "current_process (tr @ [ob]) = (if ob = DO_restarted then [] else current_process tr @ [ob])"
  by (simp add: current_process_def)

lemma current_process_append: "DO_restarted \<notin> set later \<Longrightarrow> current_process (tr @ later) = current_process tr @ later"
  by (induction later rule: rev_induct) (auto simp: append_assoc [symmetric] simp del: append_assoc)

lemma ordered_by_mono: "ordered_by opts r tr \<Longrightarrow> ordered_by opts r (tr @ later)"
  unfolding ordered_by_def by (metis append_Cons append_assoc)

lemma confirmed_mono: "confirmed_dead run tr \<Longrightarrow> confirmed_dead run (tr @ later)"
  unfolding confirmed_dead_def stop_found_def by (metis append_Cons append_assoc)

text \<open>The records that memory and disk hold are warranted too.\<close>

definition record_warranted :: "control_options \<Rightarrow> 'p control_observation list \<Rightarrow> evidence \<Rightarrow> bool" where
  "record_warranted opts tr e \<longleftrightarrow> (\<exists>r. ordered_by opts r tr \<and> cr_run_id r = ev_run_id e)
     \<and> (ev_process_exited_at e \<noteq> None \<longrightarrow> confirmed_dead (ev_run_id e) tr)"

definition journal_warranted :: "control_options \<Rightarrow> 'p control_observation list \<Rightarrow> journal \<Rightarrow> bool" where
  "journal_warranted opts tr j \<longleftrightarrow> list_all (record_warranted opts tr) (journal_records j)
     \<and> (\<forall>f. jn_disk j = Some f \<longrightarrow> list_all (record_warranted opts tr) (jf_evidence f))"

text \<open>
  The invariant: the trace and the records are warranted, and the flags of the connection mean what they say.
\<close>

definition flags_true :: "control_options \<Rightarrow> 'p device_control \<Rightarrow> bool" where
  "flags_true opts d \<longleftrightarrow>
     (dc_authenticated d \<longrightarrow> (\<exists>s. dc_socket d = Some s \<and> authenticated_on opts s (dc_trace d)))
     \<and> (\<forall>run \<in> set (dc_handlers d). stop_begun run (dc_trace d))
     \<and> (\<forall>run \<in> set (dc_late d). \<exists>r post. stop_found run r post (dc_trace d) \<and> sr_eventual r \<and> DO_restarted \<notin> set post)"

definition control_true :: "control_options \<Rightarrow> 'p device_control \<Rightarrow> bool" where
  "control_true opts d \<longleftrightarrow> all_warranted opts (dc_trace d) \<and> journal_warranted opts (dc_trace d) (dc_journal d)
     \<and> flags_true opts d"

lemma record_warranted_mono: "record_warranted opts tr e \<Longrightarrow> record_warranted opts (tr @ later) e"
  unfolding record_warranted_def using ordered_by_mono confirmed_mono by blast

lemma journal_warranted_mono: "journal_warranted opts tr j \<Longrightarrow> journal_warranted opts (tr @ later) j"
  unfolding journal_warranted_def list_all_iff using record_warranted_mono by blast

lemma stop_found_snoc: "stop_found run r post tr \<Longrightarrow> stop_found run r (post @ [ob]) (tr @ [ob])"
  by (auto simp: stop_found_def)

lemma flags_note:
  assumes "flags_true opts d" "ob \<noteq> DO_restarted"
  shows "flags_true opts (note_control ob d)"
proof -
  have "\<exists>r post. stop_found run r post (dc_trace d @ [ob]) \<and> sr_eventual r \<and> DO_restarted \<notin> set post"
    if "run \<in> set (dc_late d)" for run
  proof -
    from that assms(1) obtain r post where "stop_found run r post (dc_trace d)" "sr_eventual r" "DO_restarted \<notin> set post"
      unfolding flags_true_def by blast
    with stop_found_snoc [OF this(1), of ob] assms(2) have "stop_found run r (post @ [ob]) (dc_trace d @ [ob])"
      "sr_eventual r" "DO_restarted \<notin> set (post @ [ob])" by simp_all
    then show ?thesis by blast
  qed
  moreover have "stop_begun run (dc_trace d @ [ob])" if "stop_begun run (dc_trace d)" for run
    using that assms(2) unfolding stop_begun_def by auto
  ultimately show ?thesis
    using assms by (auto simp: flags_true_def note_control_def authenticated_on_def)
qed

lemma true_note:
  "control_true opts d \<Longrightarrow> warranted opts (dc_trace d) ob \<Longrightarrow> ob \<noteq> DO_restarted \<Longrightarrow> control_true opts (note_control ob d)"
  using journal_warranted_mono [of opts "dc_trace d" _ "[ob]"] flags_note [of opts d ob]
  by (auto simp: control_true_def note_control_def all_warranted_snoc)

lemma flags_fields [simp]:
  "flags_true opts (d\<lparr>dc_open := b\<rparr>) = flags_true opts d" "flags_true opts (d\<lparr>dc_sockets := n\<rparr>) = flags_true opts d"
  "flags_true opts (d\<lparr>dc_stopped := b\<rparr>) = flags_true opts d" "flags_true opts (d\<lparr>dc_fenced := b\<rparr>) = flags_true opts d"
  "flags_true opts (d\<lparr>dc_reconnectTimer := b\<rparr>) = flags_true opts d"
  "flags_true opts (d\<lparr>dc_evidenceRetryTimer := b\<rparr>) = flags_true opts d"
  "flags_true opts (d\<lparr>dc_livenessTimer := a\<rparr>) = flags_true opts d"
  "flags_true opts (d\<lparr>dc_livenessAcknowledged := b\<rparr>) = flags_true opts d"
  "flags_true opts (d\<lparr>dc_journal := j\<rparr>) = flags_true opts d"
  by (simp_all add: flags_true_def)

lemma true_fields [simp]:
  "control_true opts (d\<lparr>dc_open := b\<rparr>) = control_true opts d" "control_true opts (d\<lparr>dc_sockets := n\<rparr>) = control_true opts d"
  "control_true opts (d\<lparr>dc_stopped := b\<rparr>) = control_true opts d" "control_true opts (d\<lparr>dc_fenced := b\<rparr>) = control_true opts d"
  "control_true opts (d\<lparr>dc_reconnectTimer := b\<rparr>) = control_true opts d"
  "control_true opts (d\<lparr>dc_evidenceRetryTimer := b\<rparr>) = control_true opts d"
  "control_true opts (d\<lparr>dc_livenessTimer := a\<rparr>) = control_true opts d"
  "control_true opts (d\<lparr>dc_livenessAcknowledged := b\<rparr>) = control_true opts d"
  by (simp_all add: control_true_def)

text \<open>Losing the authentication, and with it the socket, and forgetting stops claims less.\<close>

lemma true_less:
  assumes "control_true opts d" "dc_trace d' = dc_trace d" "dc_journal d' = dc_journal d"
    and "dc_authenticated d' \<Longrightarrow> dc_authenticated d \<and> dc_socket d' = dc_socket d"
    and "set (dc_handlers d') \<subseteq> set (dc_handlers d)" "set (dc_late d') \<subseteq> set (dc_late d)"
  shows "control_true opts d'"
  using assms unfolding control_true_def flags_true_def by (metis subsetD)

lemma true_send: "control_true opts d \<Longrightarrow> (\<And>s. warranted opts (dc_trace d) (DO_sent s f)) \<Longrightarrow> control_true opts (send_on_socket f d)"
  by (auto simp: send_on_socket_def true_note split: option.splits)

lemma send_due_journal [simp]: "dc_journal (send_due e d) = dc_journal d"
  by (simp add: send_due_def send_on_socket_def note_control_def split: option.splits)

lemma true_send_due:
  assumes "control_true opts d" "e \<in> set (journal_records (dc_journal d))"
  shows "control_true opts (send_due e d)"
proof -
  have "record_warranted opts (dc_trace d) e"
    using assms by (auto simp: control_true_def journal_warranted_def list_all_iff)
  then show ?thesis using assms(1)
    by (auto simp: send_due_def due_evidence_def evidence_frame_def record_warranted_def split: option.splits if_splits
        intro!: true_send)
qed

lemma true_flush: "control_true opts d \<Longrightarrow> control_true opts (flushEvidence d)"
proof -
  have all: "control_true opts (fold send_due es c) \<and> dc_journal (fold send_due es c) = dc_journal c"
    if "control_true opts c" "set es \<subseteq> set (journal_records (dc_journal c))" for es and c :: "'a device_control"
    using that by (induction es arbitrary: c) (auto simp: true_send_due)
  assume "control_true opts d"
  with all [of "d\<lparr>dc_evidenceRetryTimer := False\<rparr>" "journal_records (dc_journal d)"] show ?thesis
    by (simp add: flushEvidence_def Let_def)
qed

lemma warranted_write:
  assumes "journal_warranted opts tr j" "list_all (record_warranted opts tr) (f (journal_records j))"
  shows "journal_warranted opts tr (write_records w f j)"
  by (rule persist_cases [of w "snd (on_evidence f j)"])
     (use assms in \<open>auto simp: write_records_def on_evidence_def journal_warranted_def journal_records_def\<close>)

lemma warranted_acknowledge:
  assumes "journal_warranted opts tr j" "ordered_by opts r tr"
  shows "journal_warranted opts tr (snd (acknowledge dates w (cr_run_id r) moment j))"
proof -
  have "list_all (record_warranted opts tr) (journal_records j @ [new_evidence (cr_run_id r) moment])"
    using assms by (auto simp: journal_warranted_def record_warranted_def new_evidence_def)
  with assms(1) have "journal_warranted opts tr (write_records w (\<lambda>es. es @ [new_evidence (cr_run_id r) moment]) j)"
    by (rule warranted_write)
  with assms(1) show ?thesis by (cases rule: acknowledge_cases [of dates w "cr_run_id r" moment j]) simp_all
qed

lemma warranted_exited:
  assumes "journal_warranted opts tr j" "confirmed_dead run tr"
  shows "journal_warranted opts tr (snd (recordProcessExited dates w run moment j))"
proof -
  have all: "list_all (record_warranted opts tr) (journal_records j)" using assms(1) by (simp add: journal_warranted_def)
  then have "record_warranted opts tr (exited moment e)" if "find_evidence run (journal_records j) = Some e" for e
    using find_evidence_SomeD [OF that] assms(2) by (auto simp: list_all_iff record_warranted_def exited_def)
  then have "list_all (record_warranted opts tr) (change_evidence run (exited moment) (journal_records j))"
    using all by (intro change_all)
  with assms(1) have "journal_warranted opts tr (write_records w (change_evidence run (exited moment)) j)"
    by (rule warranted_write)
  with assms(1) show ?thesis
    by (cases rule: exited_cases [of dates w run moment j]) simp_all
qed

lemma warranted_marked:
  assumes "journal_warranted opts tr j"
  shows "journal_warranted opts tr (snd (markServerAcknowledged w run st j))"
proof -
  have all: "list_all (record_warranted opts tr) (journal_records j)" using assms by (simp add: journal_warranted_def)
  have "record_warranted opts tr (marked_acked st e) = record_warranted opts tr e" for e
    by (cases st) (simp_all add: record_warranted_def marked_acked_def)
  then have "list_all (record_warranted opts tr) (change_evidence run (marked_acked st) (journal_records j))"
    using all by (intro change_all) (auto simp: list_all_iff dest: find_evidence_SomeD)
  then have "list_all (record_warranted opts tr) (after_mark run st e (journal_records j))" for e
    by (simp add: after_mark_def Let_def drop_all)
  with assms have "journal_warranted opts tr (write_records w (after_mark run st e) j)" for e
    by (rule warranted_write)
  with assms show ?thesis
    by (cases rule: marked_cases [of w run st j]) simp_all
qed

lemma on_journal_snd: "snd (on_journal m d) = d\<lparr>dc_journal := snd (m (dc_journal d))\<rparr>"
  by (simp add: on_journal_def split: prod.splits sum.splits)

lemma true_on_journal:
  "control_true opts d \<Longrightarrow> journal_warranted opts (dc_trace d) (snd (m (dc_journal d))) \<Longrightarrow> control_true opts (snd (on_journal m d))"
  by (simp add: on_journal_snd control_true_def)

lemma true_and_then:
  "control_true opts (snd (m d)) \<Longrightarrow> (\<And>a. control_true opts (snd (f a (snd (m d))))) \<Longrightarrow> control_true opts (snd (and_then m f d))"
  by (auto simp: and_then_def split: prod.splits sum.splits)

lemma true_record_exit:
  assumes "control_true opts d" "confirmed_dead run (dc_trace d)"
  shows "control_true opts (record_exit opts w now run d)"
  unfolding record_exit_def
proof (intro true_and_then)
  show "control_true opts (snd (on_journal (recordProcessExited (co_dates opts) w run now) d))"
    using assms by (intro true_on_journal warranted_exited) (simp_all add: control_true_def)
  then show "control_true opts (snd (modifying flushEvidence (snd (on_journal (recordProcessExited (co_dates opts) w run now) d))))"
    by (simp add: true_flush)
qed

lemma true_close_current:
  assumes "control_true opts d" "\<not> dc_authenticated d"
  shows "control_true opts (close_current d)"
proof (cases "dc_socket d")
  case (Some s)
  have "control_true opts (d\<lparr>dc_socket := None, dc_open := False\<rparr>)" using assms by (elim true_less) simp_all
  with Some show ?thesis by (simp add: close_current_def true_note)
qed (use assms(1) in \<open>simp add: close_current_def\<close>)

lemma true_fenceAndClose:
  assumes "control_true opts d"
  shows "control_true opts (fenceAndClose reason d)"
proof -
  have "control_true opts (d\<lparr>dc_fenced := True, dc_authenticated := False, dc_reconnectTimer := False, dc_evidenceRetryTimer := False\<rparr>)"
    using assms by (elim true_less) simp_all
  then show ?thesis using assms
    by (auto simp: fenceAndClose_def stopLivenessProbe_def note_control_def [of "DO_fence reason", symmetric]
        intro!: true_close_current true_note) (simp_all add: note_control_def)
qed

lemma true_connect:
  assumes "control_true opts d"
  shows "control_true opts (connect_control d)"
proof -
  have "control_true opts (d\<lparr>dc_socket := Some (dc_sockets d), dc_open := False, dc_sockets := Suc (dc_sockets d), dc_authenticated := False\<rparr>)"
    using assms by (elim true_less) simp_all
  with assms show ?thesis by (simp add: connect_control_def true_note)
qed

lemma true_begin_stop:
  assumes "control_true opts d" "ordered_by opts r (dc_trace d)"
  shows "control_true opts (begin_stop r d)"
proof -
  define ob :: "'a control_observation" where
    "ob = (if cr_cause r = CX_project_stop then DO_stop_run (cr_run_id r) (cancellation_reason (cr_cause r)) (cr_publication_fenced r)
           else DO_stop_all (cr_run_id r) (cancellation_reason (cr_cause r)))"
  have n: "control_true opts (note_control ob d)"
    using assms by (intro true_note) (auto simp: ob_def)
  have "stop_begun (cr_run_id r) (dc_trace (note_control ob d))"
    by (auto simp: stop_begun_def note_control_def ob_def)
  with n have "control_true opts (note_control ob d\<lparr>dc_handlers := dc_handlers d @ [cr_run_id r]\<rparr>)"
    by (auto simp: control_true_def flags_true_def note_control_def)
  then show ?thesis by (simp add: begin_stop_def Let_def ob_def)
qed

lemma flush_grows: "\<exists>later. dc_trace (flushEvidence d) = dc_trace d @ later"
proof -
  have "\<exists>later. dc_trace (fold send_due es c) = dc_trace c @ later" for es and c :: "'a device_control"
  proof (induction es arbitrary: c)
    case (Cons e es)
    have "\<exists>later. dc_trace (send_due e c) = dc_trace c @ later"
      by (auto simp: send_due_def send_on_socket_def note_control_def split: option.splits)
    with Cons.IH [of "send_due e c"] show ?case by auto
  qed simp
  from this [of "journal_records (dc_journal d)" "d\<lparr>dc_evidenceRetryTimer := False\<rparr>"] show ?thesis
    by (simp add: flushEvidence_def Let_def)
qed

lemma true_receive:
  assumes "control_true opts d" "ordered_by opts r (dc_trace d)"
  shows "control_true opts (snd (receiveCancellation opts w now r d))"
proof -
  let ?d = "snd (on_journal (acknowledge (co_dates opts) w (cr_run_id r) now) d)"
  have j: "control_true opts ?d"
    using assms by (intro true_on_journal warranted_acknowledge) (simp_all add: control_true_def)
  have "ordered_by opts r (dc_trace (flushEvidence ?d))"
    using flush_grows [of ?d] assms(2) by (auto simp: on_journal_snd intro: ordered_by_mono)
  then have "control_true opts (begin_stop r (flushEvidence ?d))"
    using true_flush [OF j] by (rule true_begin_stop [rotated])
  then show ?thesis
    using j true_flush [OF j] unfolding receiveCancellation_def
    by (simp add: and_then_def [of "reading _"]) (auto intro!: true_and_then simp: and_then_def [of "modifying _"])
qed

text \<open>A frame is handled after it was noted.\<close>

lemma true_handle:
  assumes "control_true opts d" "dc_trace d = tr @ [DO_received s (Some frame)]"
  shows "control_true opts (snd (handleFrame opts w now s frame d))"
proof -
  have r: "control_true opts (snd (refuse_frame reason d))" for reason
    using assms(1) by (simp add: refuse_frame_def true_fenceAndClose)
  show ?thesis
  proof (cases "dc_socket d \<noteq> Some s \<or> dc_fenced d \<or> dc_stopped d")
    case True
    with assms show ?thesis by (auto simp: handleFrame_def and_then_def [of "reading _"])
  next
    case False
    then have live: "dc_socket d = Some s" "\<not> dc_fenced d" "\<not> dc_stopped d" by simp_all
    show ?thesis
    proof (cases frame)
      case (KF_cancellation_request q)
      have "control_true opts (snd (receiveCancellation opts w now q d))" if "dc_authenticated d" "sameIdentity q opts"
      proof (rule true_receive [OF assms(1)])
        have "authenticated_on opts s (dc_trace d)"
          using assms(1) that(1) live(1) by (simp add: control_true_def flags_true_def)
        then have "authenticated_on opts s tr"
          using assms(2) KF_cancellation_request by (simp add: authenticated_on_def)
        with that(2) show "ordered_by opts q (dc_trace d)"
          unfolding ordered_by_def assms(2) KF_cancellation_request sameIdentity_def by blast
      qed
      with KF_cancellation_request live r show ?thesis
        by (simp add: handleFrame_def and_then_def [of "reading _"])
    next
      case (KF_evidence_ack run st)
      have "control_true opts (snd (on_journal (markServerAcknowledged w run st) d))"
        using assms by (intro true_on_journal warranted_marked) (simp_all add: control_true_def)
      then have "control_true opts (snd (and_then (on_journal (markServerAcknowledged w run st)) (\<lambda>_. modifying flushEvidence) d))"
        by (intro true_and_then) (simp_all add: true_flush)
      with KF_evidence_ack live r show ?thesis by (simp add: handleFrame_def and_then_def [of "reading _"])
    next
      case (KF_device_auth_ok device generation version)
      have "control_true opts (d\<lparr>dc_authenticated := True\<rparr>)"
        if "device = di_device_id opts" "generation = di_generation opts" "version = co_protocol_version opts"
        using assms live(1) KF_device_auth_ok that
        by (simp add: control_true_def flags_true_def authenticated_on_def)
      then have "control_true opts (flushEvidence (note_control DO_authenticated (d\<lparr>dc_authenticated := True\<rparr>)))"
        "control_true opts (flushEvidence (d\<lparr>dc_authenticated := True\<rparr>))"
        if "device = di_device_id opts" "generation = di_generation opts" "version = co_protocol_version opts"
        using that by (simp_all add: true_flush true_note)
      with KF_device_auth_ok live r show ?thesis
        by (simp add: handleFrame_def and_then_def [of "reading _"] Let_def)
    next
      case (KF_challenge c)
      with assms live r show ?thesis
        by (cases c) (simp_all add: handleFrame_def and_then_def [of "reading _"] true_note)
    qed (use assms live r in \<open>simp_all add: handleFrame_def and_then_def [of "reading _"] true_note\<close>)
  qed
qed

lemma true_message:
  "control_true opts d \<Longrightarrow> dc_trace d = tr @ [DO_received s m] \<Longrightarrow> control_true opts (snd (socket_message opts w now s m d))"
  using true_handle [of opts "d\<lparr>dc_livenessAcknowledged := True\<rparr>" tr s]
  by (cases m)
     (simp_all add: socket_message_def and_then_def [of "reading _"] and_then_def [of "modifying _"] refuse_frame_def
        true_fenceAndClose)

text \<open>A restart finds warranted records on disk, and its flags claim nothing.\<close>

lemma true_restart:
  assumes "all_warranted opts tr" "\<And>f. disk = Some f \<Longrightarrow> list_all (record_warranted opts tr) (jf_evidence f)"
  shows "control_true opts (snd (new_control opts w disk tr))"
proof -
  have "journal_warranted opts tr (snd (open_journal dates i w disk))" for dates i
  proof (cases disk)
    case None
    have "journal_warranted opts tr (snd (persist_journal w \<lparr>jn_state = empty_file i, jn_disk = None\<rparr>))"
      by (rule persist_cases [of w "\<lparr>jn_state = empty_file i, jn_disk = None\<rparr>"])
         (auto simp: journal_warranted_def journal_records_def empty_file_def)
    with None show ?thesis by (simp add: open_journal_def)
  next
    case (Some f)
    then show ?thesis using assms(2)
      by (auto simp: open_journal_def journal_warranted_def journal_records_def parseJournal_def)
  qed
  moreover have "journal_warranted opts tr \<lparr>jn_state = empty_file i, jn_disk = disk\<rparr>" for i
    using assms(2) by (simp add: journal_warranted_def journal_records_def empty_file_def)
  ultimately show ?thesis using assms(1)
    by (cases "open_journal (co_dates opts) (identity_of_options opts) w disk")
       (simp add: new_control_def control_true_def flags_true_def Let_def, metis snd_conv)
qed

lemma true_stop_settled:
  assumes "control_true opts d" "dc_trace d = tr @ [DO_stop_ended run r]"
  shows "control_true opts (stop_settled opts w now run r d)"
proof (cases "run \<in> set (dc_handlers d)")
  case True
  define e where "e = (case r of None \<Rightarrow> d | Some r \<Rightarrow> if \<not> sr_target_found r then d
      else if sr_process_tree_reaped r then record_exit opts w now run d
      else if sr_eventual r then d\<lparr>dc_late := dc_late d @ [run]\<rparr> else d)"
  have "stop_begun run (dc_trace d)" using assms(1) True by (simp add: control_true_def flags_true_def)
  then have begun: "stop_begun run tr" by (auto simp: assms(2) stop_begun_def)
  have found: "stop_found run q [] (dc_trace d)" if "r = Some q" "sr_target_found q" for q
    using that begun unfolding stop_found_def assms(2) by blast
  have "control_true opts (record_exit opts w now run d)" if "r = Some q" "sr_target_found q" "sr_process_tree_reaped q" for q
    using assms(1) found [OF that(1,2)] that(3) by (intro true_record_exit) (auto simp: confirmed_dead_def)
  moreover have "control_true opts (d\<lparr>dc_late := dc_late d @ [run]\<rparr>)" if "r = Some q" "sr_target_found q" "sr_eventual q" for q
  proof -
    have "\<exists>r post. stop_found run r post (dc_trace d) \<and> sr_eventual r \<and> DO_restarted \<notin> set post"
      using found [OF that(1,2)] that(3) by (intro exI [of _ q] exI [of _ "[]"]) simp
    with assms(1) show ?thesis unfolding control_true_def flags_true_def by simp
  qed
  ultimately have "control_true opts e" using assms(1) by (auto simp: e_def split: option.split)
  then have "control_true opts (e\<lparr>dc_handlers := filter (\<lambda>k. k \<noteq> run) (dc_handlers e)\<rparr>)" by (elim true_less) auto
  with True show ?thesis by (simp add: stop_settled_def Let_def e_def)
qed (use assms(1) in \<open>simp add: stop_settled_def\<close>)

lemma true_late_settled:
  assumes "control_true opts d" "dc_trace d = tr @ [DO_late_ended run reaped]"
  shows "control_true opts (late_settled opts w now run reaped d)"
proof (cases "run \<in> set (dc_late d)")
  case True
  have less: "control_true opts (d\<lparr>dc_late := remove1 run (dc_late d)\<rparr>)"
    using assms(1) set_remove1_subset by (elim true_less) simp_all
  from assms(1) True obtain q post where q: "stop_found run q post (dc_trace d)" "sr_eventual q" "DO_restarted \<notin> set post"
    unfolding control_true_def flags_true_def by blast
  from q(1) obtain pre where p: "tr @ [DO_late_ended run reaped] = pre @ DO_stop_ended run (Some q) # post"
    unfolding stop_found_def assms(2) by blast
  then obtain wait where "post = wait @ [DO_late_ended run reaped]"
    by (cases post rule: rev_cases) auto
  with q have "reaped \<Longrightarrow> confirmed_dead run (dc_trace d)" unfolding confirmed_dead_def by auto
  with less True show ?thesis by (auto simp: late_settled_def Let_def intro!: true_record_exit)
qed (use assms(1) in \<open>simp add: late_settled_def\<close>)

lemma true_call:
  assumes "control_true opts d"
  shows "control_true opts (do_control_call opts c d)"
proof (cases c)
  case (CC_message w now s m)
  with true_message [of opts "note_control (DO_received s m) d" "dc_trace d" s m w now] assms show ?thesis
    by (simp add: do_control_call_def true_note) (simp add: note_control_def)
next
  case (CC_stopped w now run r)
  with true_stop_settled [of opts "note_control (DO_stop_ended run r) d" "dc_trace d" run r w now] assms show ?thesis
    by (simp add: do_control_call_def true_note) (simp add: note_control_def)
next
  case (CC_late w now run reaped)
  with true_late_settled [of opts "note_control (DO_late_ended run reaped) d" "dc_trace d" run reaped w now] assms show ?thesis
    by (simp add: do_control_call_def true_note) (simp add: note_control_def)
next
  case (CC_restart w)
  have "control_true opts (snd (new_control opts w (jn_disk (dc_journal d)) (dc_trace d @ [DO_restarted])))"
  proof (rule true_restart)
    show "all_warranted opts (dc_trace d @ [DO_restarted])"
      using assms by (simp add: control_true_def all_warranted_snoc)
    show "list_all (record_warranted opts (dc_trace d @ [DO_restarted])) (jf_evidence f)" if "jn_disk (dc_journal d) = Some f" for f
      using assms that record_warranted_mono by (fastforce simp: control_true_def journal_warranted_def list_all_iff)
  qed
  with CC_restart show ?thesis by (simp add: do_control_call_def note_control_def)
next
  case (CC_close s)
  have "control_true opts (d\<lparr>dc_socket := None, dc_open := False, dc_authenticated := False,
      dc_livenessTimer := None, dc_livenessAcknowledged := False, dc_evidenceRetryTimer := False\<rparr>)"
    using assms by (elim true_less) simp_all
  with CC_close assms show ?thesis
    by (simp add: do_control_call_def socket_closes_def scheduleReconnect_def stopLivenessProbe_def Let_def true_note)
next
  case CC_stop
  have "control_true opts (d\<lparr>dc_stopped := True, dc_authenticated := False, dc_reconnectTimer := False, dc_evidenceRetryTimer := False\<rparr>)"
    using assms by (elim true_less) simp_all
  with CC_stop show ?thesis
    by (simp add: do_control_call_def stop_control_def stopLivenessProbe_def true_close_current)
qed (use assms in \<open>auto simp: do_control_call_def start_control_def method_simps disconnectNow_def true_note reconnect_fires_def
      true_connect retry_fires_def true_flush liveness_fires_def stopLivenessProbe_def socket_opens_def socket_pongs_def
      sendExecutionFrame_def sendWorkspaceFrame_def true_send Let_def split: option.splits\<close>)

interpretation control: object_invariant "do_control_call opts" "\<lambda>_ _. True" "control_true opts" for opts
  by unfold_locales (rule true_call)

lemma obeys_all: "obeys call (\<lambda>_ _. True) cs s"
  by (induction cs arbitrary: s) auto


text \<open>C12: The evidence a device gives is true. Whatever frames arrive in whatever order, whatever writes fail and
  however often the process is restarted over its journal: the device tells the server that it acknowledged the
  cancellation of a run, and stops runs, only after a request to cancel that run has arrived that names exactly
  its device, credential and generation, on a socket on which the server had confirmed the device in this process;
  a request to stop a project stops that run with the publication fence of the request, any other one stops
  all; and the device tells the server that the process of a run has exited only after a stop of that run that it
  had begun ended with the target found and its process tree reaped, or ended with the target found and the
  announcement of a later proof, which arrived in the same process.\<close>

theorem evidence_is_true:
  fixes d :: "'p device_control"
  assumes "d = fold (do_control_call opts) calls (snd (new_control opts w None []))"
    and "dc_trace d = before @ ob # after"
  shows "(ob = DO_sent s (DF_evidence run st acknowledged exited_at reaped) \<longrightarrow>
        (\<exists>r. ordered_by opts r before \<and> cr_run_id r = run)
        \<and> (st = ES_process_exited \<or> exited_at \<noteq> None \<or> reaped \<longrightarrow> confirmed_dead run before))
     \<and> (ob = DO_stop_run run reason fenced \<longrightarrow>
        (\<exists>r. ordered_by opts r before \<and> cr_run_id r = run \<and> cr_cause r = CX_project_stop \<and> cr_publication_fenced r = fenced))
     \<and> (ob = DO_stop_all run reason \<longrightarrow>
        (\<exists>r. ordered_by opts r before \<and> cr_run_id r = run \<and> cr_cause r \<noteq> CX_project_stop))"
proof -
  have "control_true opts (snd (new_control opts w None []) :: 'p device_control)"
    by (rule true_restart) (simp_all add: all_warranted_def)
  then have "control_true opts d" using control.calls_keep [OF obeys_all] assms(1) by simp
  then have "all_warranted opts (before @ ob # after)" using assms(2) by (simp add: control_true_def)
  then have "warranted opts before ob" by (auto simp: all_warranted_def dest: spec [of _ "length before"])
  then show ?thesis by auto
qed


subsection \<open>A fenced device is silent\<close>

definition fence_closed :: "'p device_control \<Rightarrow> bool" where
  "fence_closed d \<longleftrightarrow> (dc_fenced d \<longrightarrow> dc_socket d = None)"

lemma flush_fields [simp]:
  "dc_socket (flushEvidence d) = dc_socket d" "dc_fenced (flushEvidence d) = dc_fenced d"
  "dc_authenticated (flushEvidence d) = dc_authenticated d" "dc_handlers (flushEvidence d) = dc_handlers d"
proof -
  have "dc_socket (fold send_due es c) = dc_socket c \<and> dc_fenced (fold send_due es c) = dc_fenced c
      \<and> dc_authenticated (fold send_due es c) = dc_authenticated c \<and> dc_handlers (fold send_due es c) = dc_handlers c"
    for es and c :: "'a device_control"
  proof (induction es arbitrary: c)
    case (Cons e es)
    then show ?case by (simp add: send_due_def send_on_socket_def note_control_def split: option.splits)
  qed simp
  then show "dc_socket (flushEvidence d) = dc_socket d" "dc_fenced (flushEvidence d) = dc_fenced d"
    "dc_authenticated (flushEvidence d) = dc_authenticated d" "dc_handlers (flushEvidence d) = dc_handlers d"
    by (simp_all add: flushEvidence_def Let_def)
qed

lemma flush_unconnected: "dc_socket d = None \<Longrightarrow> flushEvidence d = d"
  by (simp add: flushEvidence_def control_connected_def)

lemma note_fields [simp]:
  "dc_socket (note_control ob d) = dc_socket d" "dc_fenced (note_control ob d) = dc_fenced d"
  "dc_trace (note_control ob d) = dc_trace d @ [ob]" "dc_livenessTimer (note_control ob d) = dc_livenessTimer d"
  by (simp_all add: note_control_def)

lemma record_exit_fields [simp]:
  "dc_socket (record_exit opts w now run d) = dc_socket d" "dc_fenced (record_exit opts w now run d) = dc_fenced d"
  by (simp_all add: record_exit_def and_then_def on_journal_def split: prod.splits sum.splits)

lemma record_exit_unconnected:
  "dc_socket d = None \<Longrightarrow> dc_trace (record_exit opts w now run d) = dc_trace d"
  by (simp add: record_exit_def and_then_def on_journal_def flush_unconnected split: prod.splits sum.splits)

lemma closed_fence [simp]: "fence_closed d \<Longrightarrow> fence_closed (fenceAndClose reason d)"
  by (simp add: fence_closed_def fenceAndClose_def close_current_def stopLivenessProbe_def split: option.splits)

lemma closed_receive: "\<not> dc_fenced d \<Longrightarrow> \<not> dc_fenced (snd (receiveCancellation opts w now r d))"
  by (simp add: receiveCancellation_def and_then_def on_journal_def begin_stop_def Let_def split: prod.splits sum.splits)

lemma closed_handle:
  assumes "fence_closed d"
  shows "fence_closed (snd (handleFrame opts w now s frame d))"
proof (cases "dc_socket d \<noteq> Some s \<or> dc_fenced d \<or> dc_stopped d")
  case True
  with assms show ?thesis by (auto simp: handleFrame_def and_then_def [of "reading _"])
next
  case False
  then have live: "dc_socket d = Some s" "\<not> dc_fenced d" "\<not> dc_stopped d" by simp_all
  show ?thesis
  proof (cases frame)
    case (KF_cancellation_request q)
    with assms live closed_receive [of d opts w now q] show ?thesis
      by (simp add: handleFrame_def and_then_def [of "reading _"] refuse_frame_def fence_closed_def
          closed_fence [unfolded fence_closed_def])
  next
    case (KF_challenge c)
    with assms live show ?thesis
      by (cases c) (simp_all add: handleFrame_def and_then_def [of "reading _"] refuse_frame_def, simp_all add: fence_closed_def)
  next
    case (KF_evidence_ack run st)
    with assms live show ?thesis
      by (simp add: handleFrame_def and_then_def on_journal_def refuse_frame_def split: prod.splits sum.splits)
         (simp add: fence_closed_def)
  qed (use assms live in \<open>simp_all add: handleFrame_def and_then_def [of "reading _"] refuse_frame_def Let_def\<close>,
       simp_all add: fence_closed_def)
qed

lemma control_closed_run:
  assumes "fence_closed d"
  shows "fence_closed (run_control_call opts c d)"
proof (cases c)
  case (CC_message w now s m)
  have "fence_closed (d\<lparr>dc_livenessAcknowledged := True\<rparr>)" using assms by (simp add: fence_closed_def)
  with CC_message assms closed_handle [OF this, of opts w now s] show ?thesis
    by (cases m) (simp_all add: socket_message_def and_then_def [of "reading _"] and_then_def [of "modifying _"] refuse_frame_def)
next
  case (CC_restart w)
  then show ?thesis by (simp add: new_control_def fence_closed_def Let_def split: prod.splits)
qed (use assms in \<open>auto simp: fence_closed_def start_control_def method_simps connect_control_def stop_control_def close_current_def
      stopLivenessProbe_def disconnectNow_def reconnect_fires_def retry_fires_def liveness_fires_def socket_opens_def socket_pongs_def
      socket_closes_def scheduleReconnect_def stop_settled_def late_settled_def sendExecutionFrame_def sendWorkspaceFrame_def
      send_on_socket_def Let_def split: option.splits\<close>)

lemma input_fields:
  "fold note_control obs d = d\<lparr>dc_trace := dc_trace d @ obs\<rparr>"
  by (induction obs arbitrary: d) (simp_all add: note_control_def)

lemma closed_call: "fence_closed d \<Longrightarrow> fence_closed (do_control_call opts c d)"
  unfolding do_control_call_def input_fields by (rule control_closed_run) (simp add: fence_closed_def)

interpretation control_fence: object_invariant "do_control_call opts" "\<lambda>_ _. True" fence_closed for opts
  by unfold_locales (rule closed_call)

text \<open>What the connection is told, as opposed to what it does.\<close>

fun told :: "'p control_observation \<Rightarrow> bool" where
  "told (DO_received s m) \<longleftrightarrow> True"
| "told (DO_stop_ended run r) \<longleftrightarrow> True"
| "told (DO_late_ended run reaped) \<longleftrightarrow> True"
| "told _ \<longleftrightarrow> False"

definition silent_since :: "'p control_observation list \<Rightarrow> 'p device_control \<Rightarrow> bool" where
  "silent_since tr d \<longleftrightarrow> dc_fenced d \<and> dc_socket d = None \<and> (\<exists>rest. dc_trace d = tr @ rest \<and> list_all told rest)"

lemma silent_since_record: "silent_since tr d \<Longrightarrow> silent_since tr (record_exit opts w now run d)"
  by (auto simp: silent_since_def record_exit_unconnected)

lemma silent_since_fields [simp]:
  "silent_since tr (d\<lparr>dc_stopped := b\<rparr>) = silent_since tr d" "silent_since tr (d\<lparr>dc_authenticated := b\<rparr>) = silent_since tr d"
  "silent_since tr (d\<lparr>dc_reconnectTimer := b\<rparr>) = silent_since tr d" "silent_since tr (d\<lparr>dc_evidenceRetryTimer := b\<rparr>) = silent_since tr d"
  "silent_since tr (d\<lparr>dc_livenessTimer := a\<rparr>) = silent_since tr d" "silent_since tr (d\<lparr>dc_livenessAcknowledged := b\<rparr>) = silent_since tr d"
  "silent_since tr (d\<lparr>dc_handlers := ks\<rparr>) = silent_since tr d" "silent_since tr (d\<lparr>dc_late := ks\<rparr>) = silent_since tr d"
  by (simp_all add: silent_since_def)

lemma silent_run:
  assumes "silent_since tr d" "\<And>w. c \<noteq> CC_restart w"
  shows "silent_since tr (run_control_call opts c d)"
proof -
  have off: "dc_fenced d" "dc_socket d = None" using assms(1) by (simp_all add: silent_since_def)
  show ?thesis
  proof (cases c)
    case (CC_stopped w now run r)
    have "silent_since tr (record_exit opts w now run d)" by (rule silent_since_record [OF assms(1)])
    with CC_stopped assms(1) show ?thesis
      by (auto simp: stop_settled_def Let_def split: option.splits)
  next
    case (CC_late w now run reaped)
    with assms(1) silent_since_record [of tr "d\<lparr>dc_late := remove1 run (dc_late d)\<rparr>" opts w now run]
    show ?thesis by (simp add: late_settled_def Let_def)
  next
    case (CC_restart w)
    with assms(2) show ?thesis by blast
  qed (use assms(1) off in \<open>auto simp: start_control_def method_simps connect_control_def stop_control_def close_current_def
      stopLivenessProbe_def disconnectNow_def reconnect_fires_def retry_fires_def liveness_fires_def socket_opens_def socket_pongs_def
      socket_closes_def scheduleReconnect_def sendExecutionFrame_def sendWorkspaceFrame_def socket_message_def control_connected_def
      flush_unconnected Let_def split: option.splits\<close>)
qed

lemma silent_call:
  assumes "silent_since tr d" "\<And>w. c \<noteq> CC_restart w"
  shows "silent_since tr (do_control_call opts c d)"
proof -
  have "silent_since tr (fold note_control (control_input c) d)"
    using assms by (cases c) (auto simp: input_fields silent_since_def)
  then show ?thesis unfolding do_control_call_def by (rule silent_run) (rule assms(2))
qed

interpretation silence: object_invariant "do_control_call opts" "\<lambda>c _. \<forall>w. c \<noteq> CC_restart w" "silent_since tr" for opts tr
  by unfold_locales (simp add: silent_call)

text \<open>C13: Fencing is final. Once a frame from the server (a revoked or superseded credential, a frame that does not
  parse, comes from another identity or was not expected) has fenced the device, the process does
  nothing any more: it sends nothing, opens no connection, accepts no command, workspace request or
  cancellation and starts no stop. Only what it is told is added to the trace: frames that still
  arrive, and ends of stops that were begun before.\<close>

theorem fenced_device_is_silent:
  fixes d :: "'p device_control"
  assumes "fst (new_control opts w None [] :: _ \<times> 'p device_control) = Inr ()"
    and "d = fold (do_control_call opts) calls (snd (new_control opts w None []))" and "dc_fenced d"
    and "list_all (\<lambda>c. \<forall>w. c \<noteq> CC_restart w) later"
  shows "\<exists>rest. dc_trace (fold (do_control_call opts) later d) = dc_trace d @ rest
     \<and> list_all told rest"
proof -
  have "fence_closed (snd (new_control opts w None []) :: 'p device_control)"
    by (simp add: new_control_def fence_closed_def Let_def split: prod.splits)
  then have "fence_closed d" using control_fence.calls_keep [OF obeys_all] assms(2) by simp
  with assms(3) have "silent_since (dc_trace d) d" by (simp add: silent_since_def fence_closed_def)
  with assms(4) have "silent_since (dc_trace d) (fold (do_control_call opts) later d)"
    using silence.calls_keep [of opts later d "dc_trace d"] by (simp add: obeys_stateless)
  then show ?thesis by (simp add: silent_since_def)
qed


subsection \<open>A sample cancellation\<close>

definition control_sample :: control_options where
  "control_sample = \<lparr>di_device_id = ''d'', di_credential_id = ''c'', di_generation = 1, co_dates = (\<lambda>_. True),
     co_protocol_version = ''v1'', co_reconnect = True, co_execution = False, co_workspace = False, co_reconnectDelayMs = 1000,
     co_evidenceRetryMs = 2000, co_livenessProbeMs = 15000\<rparr>"

definition sample_cancellation :: cancellation_request where
  "sample_cancellation = \<lparr>di_device_id = ''d'', di_credential_id = ''c'', di_generation = 1, cr_run_id = ''r'',
     cr_cause = CX_project_stop, cr_publication_fenced = True\<rparr>"

definition cancelling :: "write_outcome \<Rightarrow> unit control_call list" where
  "cancelling w = [CC_start, CC_open 0, CC_message WR_done ''t1'' 0 (Some (KF_device_auth_ok ''d'' 1 ''v1'')),
     CC_message WR_done ''t2'' 0 (Some (KF_cancellation_request sample_cancellation)),
     CC_message WR_done ''t3'' 0 (Some (KF_evidence_ack ''r'' ES_runner_acknowledged)),
     CC_stopped w ''t4'' ''r'' (Some \<lparr>sr_target_found = True, sr_process_tree_reaped = True, sr_eventual = False\<rparr>),
     CC_retry_timer]"

definition cancelled_control :: "write_outcome \<Rightarrow> unit device_control" where
  "cancelled_control w = fold (do_control_call control_sample) (cancelling w) (snd (new_control control_sample WR_done None []))"

text \<open>
  The continuation of a stop swallows every error, also that of the write; the evidence stays in memory and
  the next retry sends it although it is not on disk.
\<close>

definition sent_but_not_written :: "unit device_control \<Rightarrow> bool" where
  "sent_but_not_written d \<longleftrightarrow> last (dc_trace d) = DO_sent 0 (DF_evidence ''r'' ES_process_exited ''t2'' (Some ''t4'') True)
     \<and> map_option (\<lambda>f. map ev_process_exited_at (jf_evidence f)) (jn_disk (dc_journal d)) = Some [None]"

lemma exit_sent_view: "sent_but_not_written (cancelled_control WR_failed_before)"
  by code_simp

lemma exit_sent_without_record:
  "last (dc_trace (cancelled_control WR_failed_before)) = DO_sent 0 (DF_evidence ''r'' ES_process_exited ''t2'' (Some ''t4'') True)"
  "map_option (\<lambda>f. map ev_process_exited_at (jf_evidence f)) (jn_disk (dc_journal (cancelled_control WR_failed_before))) = Some [None]"
  using exit_sent_view unfolding sent_but_not_written_def by blast+

definition sample_before :: "unit control_observation list" where
  "sample_before = [DO_connecting 0, DO_received 0 (Some (KF_device_auth_ok ''d'' 1 ''v1'')),
     DO_received 0 (Some (KF_cancellation_request sample_cancellation)),
     DO_sent 0 (DF_evidence ''r'' ES_runner_acknowledged ''t2'' None False),
     DO_stop_run ''r'' ''project work cancellation requested'' True,
     DO_received 0 (Some (KF_evidence_ack ''r'' ES_runner_acknowledged)),
     DO_stop_ended ''r'' (Some \<lparr>sr_target_found = True, sr_process_tree_reaped = True, sr_eventual = False\<rparr>)]"

lemma sample_trace:
  "dc_trace (cancelled_control WR_done) = sample_before @
     DO_sent 0 (DF_evidence ''r'' ES_process_exited ''t2'' (Some ''t4'') True) #
     [DO_sent 0 (DF_evidence ''r'' ES_process_exited ''t2'' (Some ''t4'') True)]"
  by code_simp

lemma sample_control_starts: "fst (new_control control_sample WR_done None [] :: _ \<times> unit device_control) = Inr ()"
  by code_simp

theorem evidence_is_true_witness:
  "(\<exists>r. ordered_by control_sample r sample_before \<and> cr_run_id r = ''r'') \<and> confirmed_dead ''r'' sample_before"
  using evidence_is_true [OF cancelled_control_def sample_trace,
      of 0 "''r''" ES_process_exited "''t2''" "Some ''t4''" True]
  by simp

definition fenced_control :: "unit device_control" where
  "fenced_control = fold (do_control_call control_sample) [CC_start, CC_message WR_done ''t1'' 0 None]
     (snd (new_control control_sample WR_done None []))"

lemma fenced_control_fenced: "dc_fenced fenced_control"
  by code_simp

theorem fenced_device_is_silent_witness:
  "\<exists>rest. dc_trace (fold (do_control_call control_sample) [CC_start, CC_retry_timer, CC_message WR_done ''t2'' 0 (Some KF_fenced)] fenced_control) =
     dc_trace fenced_control @ rest \<and> list_all told rest"
  by (rule fenced_device_is_silent [OF sample_control_starts fenced_control_def fenced_control_fenced]) simp

end
