(* ===== verification/Spec2Isabelle.thy ===== *)
theory Spec2Isabelle
  imports V2_Lifecycle V2_Budget Allocation Delivery_Props Dispatch Workflow_Cascade Integration Redaction
    Login_Throttle Approvals Users Workspace_Broker Device_Control
begin

text \<open>
  Verification of the orchestration core of TheNorns (\<^verbatim>\<open>packages/contracts\<close>, \<^verbatim>\<open>apps/server\<close>,
  \<^verbatim>\<open>apps/runner\<close>), a system in which language models plan a change as a graph of modules, a human
  approves the plan and what it may cost, and coding agents on other machines carry it out.

  \<^bold>\<open>The program.\<close> A project manager model drafts a plan, a reviewer model criticises it, and after a bounded
  number of rounds the human approves a digest of it (\<^verbatim>\<open>planning/session.ts\<close>). The plan becomes a graph
  that can be edited and gets a model and a budget for every node (\<^verbatim>\<open>graph/\<close>). The engine
  (\<^verbatim>\<open>engine/workflow.ts\<close>) is event sourced: its log of lifecycle events is the only state of a node, and
  the reducer of \<^verbatim>\<open>packages/contracts\<close> gives the state back; a shared ledger (\<^verbatim>\<open>engine/budget.ts\<close>) holds
  what a node may spend. Pipelines around the engine run a node in a worktree of its own, alone
  (\<^verbatim>\<open>engine/execution.ts\<close>) or split between workers (\<^verbatim>\<open>engine/coordination.ts\<close>), merge it into the
  integration branch (\<^verbatim>\<open>engine/integration.ts\<close>) and merge that branch into main after one more approval
  (\<^verbatim>\<open>engine/release.ts\<close>). Jobs for remote runners wait in a store with leases (\<^verbatim>\<open>engine/dispatch.ts\<close>).
  A runner (\<^verbatim>\<open>apps/runner/src/daemon.ts\<close>) holds a socket to the relay (\<^verbatim>\<open>server.ts\<close>, \<^verbatim>\<open>stores.ts\<close>),
  executes the commands that come over it and reports numbered events, which it keeps on disk until
  they are acknowledged.

  \<^bold>\<open>Conventions.\<close> A record has the fields of the interface or class it stands for, with a prefix; an
  enumeration is a datatype with one prefix for its constructors. A JavaScript \<^verbatim>\<open>Map\<close>, or an object used
  as one, is a list of pairs in the order of insertion (\<open>jget\<close>, \<open>jset\<close>, \<open>jdel\<close>). A method that may
  throw is an \<open>action\<close>: it maps a state to an error or a value and to the state it leaves, so that
  what was written before a throw stays written. Money is an exact rational; the rounding of binary
  floating point is not modelled. A date is the instant it denotes. A zod schema is a predicate on
  the value it yields, a refinement the list of issues it adds. Random identifiers, clocks, digests,
  number printing, key derivation, git, processes, coding agents and language models are parameters; where an answer
  may depend on the history they are functions of it. Where the code awaits, the model either is split into
  one operation before and one after the await, or lets an arbitrary function of the other users of
  the state run in between.

  \<^bold>\<open>Foundations.\<close>
    \<^item> \<open>Norns_Prelude\<close>: insertion-ordered maps, sums over them, decimal numerals, actions, lists.
    \<^item> \<open>Replay\<close>: the interfaces. \<open>transition_table\<close> is a table with terminal states; \<open>event_reducer\<close> a
      loop over identified events that skips the ones it has seen; \<open>object_invariant\<close> an object driven
      by calls that keep a predicate. The components interpret them on their own operations.
    \<^item> \<open>Cycle\<close>: the depth-first search that \<^verbatim>\<open>plan.ts\<close> and \<^verbatim>\<open>graph.ts\<close> both have, with the
      interface \<open>cycle_finder\<close>: it finds a cycle exactly when there is one, and what it returns is one.

  \<^bold>\<open>Contracts\<close> (\<^verbatim>\<open>packages/contracts/src\<close>).
    \<^item> \<open>Lifecycle\<close>: \<^verbatim>\<open>lifecycle.ts\<close> and \<^verbatim>\<open>reducer.ts\<close>. Replay is idempotent, and the state of a node follows
      its table.
    \<^item> \<open>Models\<close>, \<open>Plan\<close>: \<^verbatim>\<open>models.ts\<close> and \<^verbatim>\<open>plan.ts\<close>. \<^verbatim>\<open>validatePlan\<close> accepts exactly the plans with
      distinct modules, known dependencies and no cycle, and of such a plan some module can always be worked on.
    \<^item> \<open>V2_Common\<close>, \<open>V2_Lifecycle\<close>, \<open>V2_Budget\<close>, \<open>V2_Dispatch\<close>: the same for \<^verbatim>\<open>v2/\<close>: the versioned reducer of
      tasks and runs, how a reservation is split at the end, and what a dispatch command is bound to.
    \<^item> \<open>Protocol\<close>: \<^verbatim>\<open>protocol.ts\<close>: command states, envelopes of commands and events, expiry, deduplication.

  \<^bold>\<open>Planning.\<close>
    \<^item> \<open>Planning\<close>: \<^verbatim>\<open>planning/session.ts\<close>, \<^verbatim>\<open>prompts.ts\<close>, \<^verbatim>\<open>review.ts\<close>, \<^verbatim>\<open>memory.ts\<close>. What a run returns, how
      many calls it makes, that images are sent once, when it returns, and what its retries forget.
    \<^item> \<open>Canonical_Json\<close>: \<^verbatim>\<open>canonicalJson.ts\<close>, which every content hash of the server starts from: the
      text can be read back, so equal texts mean equal contents up to the order of keys.
    \<^item> \<open>Approvals\<close>: the other such text, of \<^verbatim>\<open>planning/session.ts\<close>, and that an approved digest names one plan.
    \<^item> \<open>Graph\<close>, \<open>Graph_Props\<close>: \<^verbatim>\<open>graph.ts\<close>. Edits keep the graph acyclic and closed, never touch a started
      node, and cascades end. \<open>Allocation\<close>: \<^verbatim>\<open>allocation.ts\<close> and \<^verbatim>\<open>session.ts\<close>.

  \<^bold>\<open>Engine.\<close>
    \<^item> \<open>Budget\<close>: \<^verbatim>\<open>engine/budget.ts\<close>: no sequence of calls oversubscribes a node or the project.
    \<^item> \<open>Workflow\<close>: \<^verbatim>\<open>engine/workflow.ts\<close>, every method. \<open>Workflow_Safety\<close> has the invariant and its
      preservation by every call, thrown or not; \<open>Workflow_Props\<close> what it means for clients (gates,
      replay, cascade); \<open>Workflow_Cascade\<close> that no call but \<^verbatim>\<open>replaceDependency\<close> leaves a node pending whose
      dependencies are integrated, so that the engine does not deadlock; \<open>Workflow_Frame\<close> that calls for other
      nodes leave a node alone, which is what makes the pipelines composable.
    \<^item> \<open>Node_Execution\<close>, \<open>Coordination\<close>, \<open>Integration\<close>: \<^verbatim>\<open>git.ts\<close>, \<^verbatim>\<open>execution.ts\<close>, \<^verbatim>\<open>coordination.ts\<close>,
      \<^verbatim>\<open>integration.ts\<close>, \<^verbatim>\<open>release.ts\<close> over an arbitrary host: the state of the node and the result agree
      whatever the host answers and whatever the pipelines of other nodes do meanwhile. What a result claims of
      git, the runtimes and the commands is stated as a chain of calls that the host answered, from host state to
      host state. \<^verbatim>\<open>Promise.all\<close> over the workers of a node is a sequence of workers whose host is arbitrary; which of
      several rejections comes first is a parameter (\<open>race\<close>).
    \<^item> \<open>Dispatch\<close>: \<^verbatim>\<open>dispatch.ts\<close>, \<^verbatim>\<open>dispatchLoop.ts\<close>: leases are exclusive; when a tick ends and when it does not.

  \<^bold>\<open>Runner and relay.\<close>
    \<^item> \<open>Runner_State\<close>: \<^verbatim>\<open>apps/runner/src/state.ts\<close>. The process is modelled with the trace of everything
      that can be observed of it (writes of the file, frames, starts of executions). A crash cuts the
      trace anywhere and a restart reads the last write that is left, so what holds of every prefix of
      every trace holds through crashes between two writes.
    \<^item> \<open>Daemon\<close>: the handlers of \<^verbatim>\<open>daemon.ts\<close>. \<open>Daemon_Frame\<close> has the interface \<open>daemon_primitives\<close>, the few
      operations all handlers are made of; whatever those keep, every handler keeps. \<open>Daemon_Props\<close> (at most one
      start, at most one terminal acknowledgement, only events on disk are sent), \<open>Daemon_Recovery\<close> (what a
      reconciliation repairs) and \<open>Retention\<close> (what is unacknowledged is kept; the send window) rest on it.
    \<^item> \<open>Runner_Executors\<close>: \<^verbatim>\<open>fixture.ts\<close> and \<^verbatim>\<open>liveRuns.ts\<close>. \<open>Redaction\<close>: \<^verbatim>\<open>redact.ts\<close> and, with the
      daemon, that no token of the known kinds leaves in a log, although nothing registers secrets.
    \<^item> \<open>Relay\<close>, \<open>Relay_Props\<close>: \<^verbatim>\<open>stores.ts\<close>; \<open>Relay_Server\<close>: the handlers of \<^verbatim>\<open>server.ts\<close> for runners.
    \<^item> \<open>Delivery\<close>, \<open>Delivery_Props\<close>: the two sides together over a network that loses, repeats and reorders
      frames, with crashes of the runner: the log of the relay is a prefix of what the runner emitted,
      and the system refines a reliable first-in first-out channel.
    \<^item> \<open>Workspace_Broker\<close>: \<^verbatim>\<open>runners/workspaceBroker.ts\<close> and the route that collects a choice: requests of the
      server to a runner end once and with the answer of that runner, a selection is spent once. The
      interface \<open>broker_moves\<close> reduces every call to three moves.

  \<^bold>\<open>Cancellation on a device.\<close>
    \<^item> \<open>Device_Journal\<close>: \<^verbatim>\<open>deviceCancellationJournal.ts\<close> with writes that fail before or after the file was replaced:
      it can always be opened again, and it fills up with records that are never proved.
    \<^item> \<open>Device_Control\<close>: \<^verbatim>\<open>deviceControlConnection.ts\<close>. The connection is modelled with the trace of what it
      sends and starts; timers, sockets, frames, the end of a stop and a restart are calls. What comes in (frames, the
      results of stops, restarts) is noted on the trace outside of the handlers, as it arrived and not as the
      handlers judged it. Every piece of evidence on the trace is preceded by the inputs that make it true, and
      after fencing nothing is sent.

  \<^bold>\<open>Accounts.\<close>
    \<^item> \<open>Passwords\<close>: \<^verbatim>\<open>users/passwords.ts\<close>: a stored hash is recognised and verified again, also after an upgrade.
    \<^item> \<open>Users\<close>: \<^verbatim>\<open>users/store.ts\<close> and the bootstrap of \<^verbatim>\<open>legacyIdentityService.ts\<close>: one account per email, an
      administrator always remains, and what logins and sessions are worth.
    \<^item> \<open>Login_Throttle\<close>: \<^verbatim>\<open>users/loginThrottle.ts\<close> and the login route with overlapping requests.

  \<^bold>\<open>Loops and bounds.\<close> The loops of the source are recursions that are proved to end, with two exceptions.
  \<^verbatim>\<open>removeNode\<close> carries the depth of the stack that is left; a depth above the number of nodes is shown to be
  enough on a well-formed graph (\<open>Graph_Props\<close>). \<^verbatim>\<open>tick\<close> is a partial function: it is shown to return when nobody
  refills the store and no failed job becomes due again during the tick, and a tick that never returns is
  exhibited. The depth-first search ends because marks are never removed, planning because attempts and
  rounds are counted, the search for a redaction pattern because every match consumes a character.

  \<^bold>\<open>Not modelled.\<close> The web application and the command line are presentation. The SQL stores
  (\<^verbatim>\<open>persistence/\<close>, and with them conversations, knowledge, debates, the devices of the server, usage analytics and the
  coordinator built on them) keep their state in PostgreSQL: their invariants live in statements,
  constraints and transactions, which are not TypeScript and would have to be axioms here. Adapters for
  providers, GitHub, object storage and credential stores only call other services. Files are values: that
  \<^verbatim>\<open>JSON.parse\<close> inverts \<^verbatim>\<open>JSON.stringify\<close> on the state of the runner is taken from the language, and a crash within
  \<^verbatim>\<open>writeFileSync\<close>, which leaves a torn file that cannot be opened, is outside of the model. \<^verbatim>\<open>PROJECT.json\<close> lists
  every part with the reason.
\<close>

end
